(* ===== verification/Prelude.thy ===== *)
theory Prelude
  imports Main "HOL-Library.Word"
begin

text \<open>
  Shared vocabulary of the development: the machine integer types of
  \<^verbatim>\<open>lwip141_v1_7/src/contrib/ports/xilinx/include/arch/cc.h\<close> and
  \<^verbatim>\<open>xil_types.h\<close>, the lwIP error codes of \<^verbatim>\<open>lwip/err.h\<close>, a byte-addressed
  memory in which an access outside the mapped bytes is an explicit fault, the result
  type of operations that may fault, and the generic lemmas on words, lists and maps
  that several components use.
\<close>

unbundle bit_operations_syntax

section \<open>Machine integers\<close>

type_synonym u8 = "8 word"
type_synonym u16 = "16 word"
type_synonym u32 = "32 word"

section \<open>Fact collections\<close>

named_theorems res_simps \<open>evaluation of computations that may fault\<close>
named_theorems mem_simps \<open>reads and writes of the byte memory\<close>
named_theorems keeps \<open>what an operation leaves alone\<close>
named_theorems wp \<open>rules for \<open>res_all\<close>, one for each operation\<close>

section \<open>Error codes of the lwIP API\<close>

datatype err_t =
    ERR_OK | ERR_MEM | ERR_BUF | ERR_TIMEOUT | ERR_RTE | ERR_INPROGRESS | ERR_VAL
  | ERR_WOULDBLOCK | ERR_USE | ERR_ISCONN | ERR_ABRT | ERR_RST | ERR_CLSD | ERR_CONN
  | ERR_ARG | ERR_IF

fun err_code :: "err_t \<Rightarrow> int" where
  "err_code ERR_OK = 0"
| "err_code ERR_MEM = - 1"
| "err_code ERR_BUF = - 2"
| "err_code ERR_TIMEOUT = - 3"
| "err_code ERR_RTE = - 4"
| "err_code ERR_INPROGRESS = - 5"
| "err_code ERR_VAL = - 6"
| "err_code ERR_WOULDBLOCK = - 7"
| "err_code ERR_USE = - 8"
| "err_code ERR_ISCONN = - 9"
| "err_code ERR_ABRT = - 10"
| "err_code ERR_RST = - 11"
| "err_code ERR_CLSD = - 12"
| "err_code ERR_CONN = - 13"
| "err_code ERR_ARG = - 14"
| "err_code ERR_IF = - 15"

definition ERR_IS_FATAL :: "err_t \<Rightarrow> bool" where
  "ERR_IS_FATAL e = (err_code e < err_code ERR_ISCONN)"

lemma err_code_inj: "err_code a = err_code b \<Longrightarrow> a = b"
  by (cases a; cases b; simp)

section \<open>Faults and results\<close>

text \<open>
  Addresses are natural numbers; 0 is \<^verbatim>\<open>NULL\<close>. Every undefined behaviour the code can
  run into is a value of \<open>fault\<close>: a byte access outside the mapped memory, a dereference
  of \<^verbatim>\<open>NULL\<close> or of a structure that is not allocated (freed or never allocated), an index
  outside a constant table, a division by zero.
  \<open>Out_of_fuel\<close> is no behaviour of the code: it marks a loop bound of the model that was too
  small, and the lemmas on a loop say how much fuel is enough.
\<close>

type_synonym addr = nat

datatype fault =
    Bad_read addr
  | Bad_write addr
  | Null_deref
  | Dangling addr
  | Bad_index nat
  | Div_by_zero
  | Out_of_fuel

type_synonym 'a res = "fault + 'a"

definition rbind :: "'a res \<Rightarrow> ('a \<Rightarrow> 'b res) \<Rightarrow> 'b res" where
  "rbind m f = (case m of Inl e \<Rightarrow> Inl e | Inr x \<Rightarrow> f x)"

lemma rbind_Inl [simp, res_simps]: "rbind (Inl e) f = Inl e"
  by (simp add: rbind_def)

lemma rbind_Inr [simp, res_simps]: "rbind (Inr x) f = f x"
  by (simp add: rbind_def)

lemma rbind_eq_Inr: "rbind m f = Inr y \<longleftrightarrow> (\<exists>x. m = Inr x \<and> f x = Inr y)"
  by (cases m) auto

lemma rbind_cong [fundef_cong]:
  "m = m' \<Longrightarrow> (\<And>x. m' = Inr x \<Longrightarrow> f x = g x) \<Longrightarrow> rbind m f = rbind m' g"
  by (cases m') auto

lemma rbind_right: "rbind m Inr = m"
  by (cases m) simp_all

lemma rbind_assoc: "rbind (rbind m f) g = rbind m (\<lambda>x. rbind (f x) g)"
  by (cases m) auto

text \<open>\<open>res_all P r\<close>: if the computation does not fault, \<open>P\<close> holds of its result.\<close>

definition res_all :: "('a \<Rightarrow> bool) \<Rightarrow> 'a res \<Rightarrow> bool" where
  "res_all P r = (case r of Inl _ \<Rightarrow> True | Inr x \<Rightarrow> P x)"

lemma res_all_simps [simp]:
  "res_all P (Inl e)" "res_all P (Inr x) = P x"
  "res_all P (rbind m f) = res_all (\<lambda>x. res_all P (f x)) m"
  by (simp_all add: res_all_def rbind_def split: sum.splits)

lemma res_allI: "(\<And>x. r = Inr x \<Longrightarrow> P x) \<Longrightarrow> res_all P r"
  by (simp add: res_all_def split: sum.splits)

lemma res_allD: "res_all P r \<Longrightarrow> r = Inr x \<Longrightarrow> P x"
  by (simp add: res_all_def)

lemma res_all_weaken: "res_all Q r \<Longrightarrow> (\<And>x. Q x \<Longrightarrow> P x) \<Longrightarrow> res_all P r"
  by (simp add: res_all_def split: sum.splits)

lemma res_all_any: "(\<And>x. P x) \<Longrightarrow> res_all P r"
  by (simp add: res_all_def split: sum.splits)

lemma res_all_if: "(c \<Longrightarrow> res_all P x) \<Longrightarrow> (\<not> c \<Longrightarrow> res_all P y) \<Longrightarrow> res_all P (if c then x else y)"
  by simp

lemma res_all_pair: "(\<And>a b. p = (a, b) \<Longrightarrow> res_all P (f a b)) \<Longrightarrow> res_all P (case p of (a, b) \<Rightarrow> f a b)"
  by (cases p) simp

lemma res_all_bind: "(\<And>x. res_all P (f x)) \<Longrightarrow> res_all P (rbind m f)"
  by (cases m) simp_all

definition nth_res :: "'a list \<Rightarrow> nat \<Rightarrow> 'a res" where
  "nth_res xs i = (if i < length xs then Inr (xs ! i) else Inl (Bad_index i))"

section \<open>Byte memory\<close>

type_synonym memory = "addr \<rightharpoonup> u8"

definition rd8 :: "memory \<Rightarrow> addr \<Rightarrow> u8 res" where
  "rd8 m a = (case m a of None \<Rightarrow> Inl (Bad_read a) | Some b \<Rightarrow> Inr b)"

definition wr8 :: "memory \<Rightarrow> addr \<Rightarrow> u8 \<Rightarrow> memory res" where
  "wr8 m a b = (case m a of None \<Rightarrow> Inl (Bad_write a) | Some _ \<Rightarrow> Inr (m(a \<mapsto> b)))"

fun rd_bytes :: "memory \<Rightarrow> addr \<Rightarrow> nat \<Rightarrow> u8 list res" where
  "rd_bytes m a 0 = Inr []"
| "rd_bytes m a (Suc n) = rbind (rd8 m a) (\<lambda>b. rbind (rd_bytes m (Suc a) n) (\<lambda>bs. Inr (b # bs)))"

fun wr_bytes :: "memory \<Rightarrow> addr \<Rightarrow> u8 list \<Rightarrow> memory res" where
  "wr_bytes m a [] = Inr m"
| "wr_bytes m a (b # bs) = rbind (wr8 m a b) (\<lambda>m'. wr_bytes m' (Suc a) bs)"

text \<open>\<open>holds m a bs\<close>: the bytes \<open>bs\<close> stand in memory from address \<open>a\<close> on.\<close>

fun holds :: "memory \<Rightarrow> addr \<Rightarrow> u8 list \<Rightarrow> bool" where
  "holds m a [] = True"
| "holds m a (b # bs) = (m a = Some b \<and> holds m (Suc a) bs)"

lemma rd8_Some [mem_simps]: "m a = Some b \<Longrightarrow> rd8 m a = Inr b"
  by (simp add: rd8_def)

lemma rd8_None [mem_simps]: "m a = None \<Longrightarrow> rd8 m a = Inl (Bad_read a)"
  by (simp add: rd8_def)

lemma wr8_Some [mem_simps]: "m a = Some b' \<Longrightarrow> wr8 m a b = Inr (m(a \<mapsto> b))"
  by (simp add: wr8_def)

lemma wr8_None [mem_simps]: "m a = None \<Longrightarrow> wr8 m a b = Inl (Bad_write a)"
  by (simp add: wr8_def)

lemma holds_nth: "holds m a bs \<Longrightarrow> i < length bs \<Longrightarrow> m (a + i) = Some (bs ! i)"
proof (induction bs arbitrary: a i)
  case (Cons b bs)
  show ?case
  proof (cases i)
    case 0
    with Cons.prems show ?thesis by simp
  next
    case (Suc j)
    with Cons.IH [of "Suc a" j] Cons.prems show ?thesis by simp
  qed
qed simp

lemma holds_iff_nth: "holds m a bs \<longleftrightarrow> (\<forall>i < length bs. m (a + i) = Some (bs ! i))"
proof (induction bs arbitrary: a)
  case (Cons b bs)
  have "(\<forall>i < length (b # bs). m (a + i) = Some ((b # bs) ! i)) \<longleftrightarrow>
      m a = Some b \<and> (\<forall>i < length bs. m (Suc a + i) = Some (bs ! i))"
    by (auto simp: less_Suc_eq_0_disj)
  with Cons show ?case by simp
qed simp

lemma holds_rd8 [mem_simps]: "holds m a bs \<Longrightarrow> i < length bs \<Longrightarrow> rd8 m (a + i) = Inr (bs ! i)"
  by (simp add: holds_nth rd8_Some)

lemma holds_append: "holds m a (xs @ ys) \<longleftrightarrow> holds m a xs \<and> holds m (a + length xs) ys"
  by (induction xs arbitrary: a) auto

lemma holds_take: "holds m a bs \<Longrightarrow> holds m a (take n bs)"
  by (simp add: holds_iff_nth)

lemma holds_drop: "holds m a bs \<Longrightarrow> n \<le> length bs \<Longrightarrow> holds m (a + n) (drop n bs)"
  by (auto simp: holds_iff_nth add.assoc)

lemma holds_upd_outside:
  "holds m a bs \<Longrightarrow> c < a \<or> a + length bs \<le> c \<Longrightarrow> holds (m(c \<mapsto> x)) a bs"
  by (auto simp: holds_iff_nth)

lemma rd_bytes_holds [mem_simps]: "holds m a bs \<Longrightarrow> rd_bytes m a (length bs) = Inr bs"
  by (induction bs arbitrary: a) (auto simp: rd8_Some)

lemma rd_bytes_Inr_holds: "rd_bytes m a n = Inr bs \<Longrightarrow> length bs = n \<and> holds m a bs"
  by (induction n arbitrary: a bs) (auto simp: rbind_eq_Inr rd8_def split: option.splits)

lemma wr_bytes_Inr:
  "wr_bytes m a bs = Inr m' \<Longrightarrow>
     holds m' a bs \<and> dom m' = dom m \<and> (\<forall>c. c < a \<or> a + length bs \<le> c \<longrightarrow> m' c = m c)"
proof (induction bs arbitrary: m a)
  case (Cons b bs)
  from Cons.prems obtain v where v: "m a = Some v" and
    rest: "wr_bytes (m(a \<mapsto> b)) (Suc a) bs = Inr m'"
    by (auto simp: rbind_eq_Inr wr8_def split: option.splits)
  have "dom (m(a \<mapsto> b)) = dom m" using v by auto
  with Cons.IH [OF rest] show ?case by auto
qed simp

lemma wr_bytes_total: "{a ..< a + length bs} \<subseteq> dom m \<Longrightarrow> \<exists>m'. wr_bytes m a bs = Inr m'"
proof (induction bs arbitrary: m a)
  case (Cons b bs)
  then obtain v where v: "m a = Some v" by (force simp: dom_def)
  have "{Suc a ..< Suc a + length bs} \<subseteq> dom (m(a \<mapsto> b))"
    using Cons.prems by (simp add: subset_iff dom_def)
  from Cons.IH [OF this] obtain m' where "wr_bytes (m(a \<mapsto> b)) (Suc a) bs = Inr m'" ..
  with v have "wr_bytes m a (b # bs) = Inr m'" by (simp add: wr8_Some)
  then show ?case by blast
qed simp

lemma wr_mid:
  assumes "holds m a (xs @ ys @ zs)" "length ys' = length ys" "c = a + length xs"
  shows "\<exists>m'. wr_bytes m c ys' = Inr m' \<and> holds m' a (xs @ ys' @ zs)"
proof -
  have "{c ..< c + length ys'} \<subseteq> dom m"
  proof
    fix d assume "d \<in> {c ..< c + length ys'}"
    then have "d - a < length (xs @ ys @ zs)" "d = a + (d - a)" using assms(2,3) by auto
    with holds_nth [OF assms(1)] show "d \<in> dom m" by (metis domI)
  qed
  from wr_bytes_total [OF this] obtain m' where w: "wr_bytes m c ys' = Inr m'" ..
  from wr_bytes_Inr [OF w] have m': "holds m' c ys'" "\<And>d. d < c \<or> c + length ys' \<le> d \<Longrightarrow> m' d = m d" by blast+
  have h: "holds m a xs" "holds m (c + length ys') zs" using assms by (simp_all add: holds_append add.assoc)
  have "holds m' a xs" "holds m' (c + length ys') zs"
    using h assms(3) m'(2) by (simp_all add: holds_iff_nth)
  with w m'(1) assms(3) show ?thesis by (auto simp: holds_append)
qed

lemma holds_mid: "holds m a (xs @ ys @ zs) \<Longrightarrow> c = a + length xs \<Longrightarrow> holds m c ys"
  by (simp add: holds_append)

lemma rd_mid: "holds m a (xs @ ys @ zs) \<Longrightarrow> c = a + length xs \<Longrightarrow> k = length ys \<Longrightarrow> rd_bytes m c k = Inr ys"
  by (simp add: holds_append rd_bytes_holds)

text \<open>A memory that holds the bytes \<open>bs\<close> at address 300 and nothing else, for examples.\<close>

definition mem_of :: "u8 list \<Rightarrow> memory" where
  "mem_of bs a = (if 300 \<le> a \<and> a < 300 + length bs then Some (bs ! (a - 300)) else None)"

lemma holds_mem_of: "holds (mem_of bs) 300 bs"
  by (simp add: holds_iff_nth mem_of_def)

section \<open>Console\<close>

text \<open>
  A call of \<^verbatim>\<open>xil_printf\<close> is recorded as its format string and its numeric arguments.
\<close>

datatype print_call = Printf string "u32 list"

type_synonym console = "print_call list"

section \<open>Word lemmas\<close>

lemma unat_ucast_u8_u16: "unat (ucast (x :: u16) :: u8) = unat x mod 256"
  by (simp add: unsigned_ucast_eq take_bit_eq_mod)

lemma unat_u8_lt [simp]: "unat (x :: u8) < 256"
proof -
  have "unat x < 2 ^ LENGTH(8)" by (rule unsigned_less)
  then show ?thesis by simp
qed

lemma unat_u16_lt [simp]: "unat (x :: u16) < 65536"
proof -
  have "unat x < 2 ^ LENGTH(16)" by (rule unsigned_less)
  then show ?thesis by simp
qed

lemma unat_u32_lt [simp]: "unat (x :: u32) < 4294967296"
proof -
  have "unat x < 2 ^ LENGTH(32)" by (rule unsigned_less)
  then show ?thesis by simp
qed

lemma unat_ucast_u8_u32 [simp]: "unat (ucast (x :: u8) :: u32) = unat x"
  by (simp add: unsigned_ucast_eq take_bit_nat_eq_self less_trans [OF unat_u8_lt])

lemma unat_ucast_u16_u32 [simp]: "unat (ucast (x :: u16) :: u32) = unat x"
  by (simp add: unsigned_ucast_eq take_bit_nat_eq_self less_trans [OF unat_u16_lt])

end
