(* ===== verification/Byteorder.thy ===== *)
theory Byteorder
  imports Prelude
begin

text \<open>
  Byte order: \<^verbatim>\<open>lwip-1.4.1/src/core/def.c\<close>, and the 16 and 32 bit accesses of the little
  endian processor to the byte memory, through which the code reads and writes the fields of
  packed protocol headers.
\<close>

section \<open>Swapping\<close>

definition lwip_htons :: "u16 \<Rightarrow> u16" where
  "lwip_htons n = push_bit 8 (n AND 0xff) OR drop_bit 8 (n AND 0xff00)"

definition lwip_ntohs :: "u16 \<Rightarrow> u16" where
  "lwip_ntohs n = push_bit 8 (n AND 0xff) OR drop_bit 8 (n AND 0xff00)"

definition lwip_htonl :: "u32 \<Rightarrow> u32" where
  "lwip_htonl n = push_bit 24 (n AND 0xff) OR push_bit 8 (n AND 0xff00) OR
     drop_bit 8 (n AND 0xff0000) OR drop_bit 24 (n AND 0xff000000)"

definition lwip_ntohl :: "u32 \<Rightarrow> u32" where
  "lwip_ntohl n = push_bit 24 (n AND 0xff) OR push_bit 8 (n AND 0xff00) OR
     drop_bit 8 (n AND 0xff0000) OR drop_bit 24 (n AND 0xff000000)"

section \<open>Halfwords and words in memory\<close>

definition le16 :: "u8 \<Rightarrow> u8 \<Rightarrow> u16" where
  "le16 a b = of_nat (unat a + 256 * unat b)"

definition le32 :: "u8 \<Rightarrow> u8 \<Rightarrow> u8 \<Rightarrow> u8 \<Rightarrow> u32" where
  "le32 a b c d = of_nat (unat a + 256 * unat b + 65536 * unat c + 16777216 * unat d)"

definition rd16 :: "memory \<Rightarrow> addr \<Rightarrow> u16 res" where
  "rd16 m a = rbind (rd8 m a) (\<lambda>x. rbind (rd8 m (a + 1)) (\<lambda>y. Inr (le16 x y)))"

definition rd32 :: "memory \<Rightarrow> addr \<Rightarrow> u32 res" where
  "rd32 m a = rbind (rd8 m a) (\<lambda>x. rbind (rd8 m (a + 1)) (\<lambda>y.
     rbind (rd8 m (a + 2)) (\<lambda>z. rbind (rd8 m (a + 3)) (\<lambda>w. Inr (le32 x y z w)))))"

definition bytes16 :: "u16 \<Rightarrow> u8 list" where
  "bytes16 v = [ucast v, ucast (drop_bit 8 v)]"

definition bytes32 :: "u32 \<Rightarrow> u8 list" where
  "bytes32 v = [ucast v, ucast (drop_bit 8 v), ucast (drop_bit 16 v), ucast (drop_bit 24 v)]"

definition wr16 :: "memory \<Rightarrow> addr \<Rightarrow> u16 \<Rightarrow> memory res" where
  "wr16 m a v = wr_bytes m a (bytes16 v)"

definition wr32 :: "memory \<Rightarrow> addr \<Rightarrow> u32 \<Rightarrow> memory res" where
  "wr32 m a v = wr_bytes m a (bytes32 v)"

section \<open>Facts\<close>

lemma bytes16_len: "length (bytes16 v) = 2" "length (bytes32 w) = 4"
  by (simp_all add: bytes16_def bytes32_def)

lemma lwip_ntohs_htons: "lwip_ntohs = lwip_htons"
  by (rule ext) (simp add: lwip_ntohs_def lwip_htons_def)

lemma lwip_ntohl_htonl: "lwip_ntohl = lwip_htonl"
  by (rule ext) (simp add: lwip_ntohl_def lwip_htonl_def)

lemma unat_le16: "unat (le16 a b) = unat a + 256 * unat b"
proof -
  have "unat a < 256" "unat b < 256" by simp_all
  then have "unat a + 256 * unat b < 65536" by linarith
  then show ?thesis by (simp only: le16_def unsigned_of_nat) (simp add: take_bit_nat_eq_self)
qed

lemma unat_le32:
  "unat (le32 a b c d) = unat a + 256 * unat b + 65536 * unat c + 16777216 * unat d"
proof -
  have "unat a < 256" "unat b < 256" "unat c < 256" "unat d < 256" by simp_all
  then have "unat a + 256 * unat b + 65536 * unat c + 16777216 * unat d < 4294967296" by linarith
  then show ?thesis by (simp only: le32_def unsigned_of_nat) (simp add: take_bit_nat_eq_self)
qed

lemma unat_drop_bit: "unat (drop_bit n (w :: 'a :: len word)) = unat w div 2 ^ n"
  by (rule trans [OF unat_drop_bit_eq]) (rule drop_bit_eq_div)

lemma unat_ucast_u32_u8: "unat (ucast (w :: u32) :: u8) = unat w mod 256"
  by (simp add: unsigned_ucast_eq take_bit_eq_mod)

lemma base256:
  assumes "n < 4294967296"
  shows "n mod 256 + 256 * (n div 256 mod 256) + 65536 * (n div 65536 mod 256)
           + 16777216 * (n div 16777216 mod 256) = (n :: nat)"
proof -
  define q1 where "q1 = n div 256"
  define q2 where "q2 = q1 div 256"
  define q3 where "q3 = q2 div 256"
  have q: "n div 65536 = q2" "n div 16777216 = q3"
    by (simp_all add: q1_def q2_def q3_def div_mult2_eq [symmetric])
  have n: "n = n mod 256 + 256 * q1" by (simp add: q1_def)
  have "q1 = q1 mod 256 + 256 * q2" by (simp add: q2_def)
  moreover have "q2 = q2 mod 256 + 256 * q3" by (simp add: q3_def)
  moreover have "q3 mod 256 = q3"
    using assms by (simp add: q1_def q2_def q3_def div_mult2_eq [symmetric] less_mult_imp_div_less)
  ultimately show ?thesis using n by (simp add: q q1_def [symmetric])
qed

lemma unat_low8_u16: "unat (ucast (v :: u16) :: u8) = unat v mod 256"
  by (rule unat_ucast_u8_u16)

lemma unat_high8_u16: "unat (ucast (drop_bit 8 (v :: u16)) :: u8) = unat v div 256"
proof -
  have "unat v div 256 < 256" using unat_u16_lt [of v] by (simp add: less_mult_imp_div_less)
  then show ?thesis by (simp only: unat_ucast_u8_u16 unat_drop_bit) simp
qed

lemma le16_bytes16: "le16 (ucast v) (ucast (drop_bit 8 v)) = v"
proof -
  have "unat (le16 (ucast v) (ucast (drop_bit 8 v))) = unat v"
    using base256 [of "unat v"] less_trans [OF unat_u16_lt [of v], of 4294967296] unat_u16_lt [of v]
    by (simp only: unat_le16 unat_ucast_u8_u16 unat_drop_bit) (simp add: less_mult_imp_div_less)
  then show ?thesis by (rule unsigned_word_eqI)
qed

lemma le32_bytes32:
  "le32 (ucast v) (ucast (drop_bit 8 v)) (ucast (drop_bit 16 v)) (ucast (drop_bit 24 v)) = v"
proof -
  have "unat (le32 (ucast v) (ucast (drop_bit 8 v)) (ucast (drop_bit 16 v)) (ucast (drop_bit 24 v)))
      = unat v mod 256 + 256 * (unat v div 256 mod 256) + 65536 * (unat v div 65536 mod 256)
        + 16777216 * (unat v div 16777216 mod 256)"
    by (simp only: unat_le32 unat_ucast_u32_u8 unat_drop_bit) simp
  also have "\<dots> = unat v"
    using unat_u32_lt [of v] by (rule base256)
  finally show ?thesis by (rule unsigned_word_eqI)
qed

lemma rd16_holds [mem_simps]:
  "holds m a bs \<Longrightarrow> i + 1 < length bs \<Longrightarrow> rd16 m (a + i) = Inr (le16 (bs ! i) (bs ! (i + 1)))"
  using holds_rd8 [of m a bs i] holds_rd8 [of m a bs "i + 1"]
  by (simp add: rd16_def)

lemma rd32_holds [mem_simps]:
  "holds m a bs \<Longrightarrow> i + 3 < length bs \<Longrightarrow>
     rd32 m (a + i) = Inr (le32 (bs ! i) (bs ! (i + 1)) (bs ! (i + 2)) (bs ! (i + 3)))"
  using holds_rd8 [of m a bs i] holds_rd8 [of m a bs "i + 1"] holds_rd8 [of m a bs "i + 2"]
    holds_rd8 [of m a bs "i + 3"]
  by (simp add: rd32_def add.assoc)

lemma unat_htons: "unat (lwip_htons n) = 256 * (unat n mod 256) + unat n div 256"
proof -
  have m: "(0xff :: u16) = mask 8" "(0xff00 :: u16) = push_bit 8 (mask 8)"
    by (simp_all add: mask_eq_exp_minus_1 push_bit_eq_mult)
  have l: "push_bit 8 (n AND 0xff) = push_bit 8 (take_bit 8 n)"
    by (simp only: m take_bit_eq_mask)
  have h: "drop_bit 8 (n AND 0xff00) = drop_bit 8 n"
  proof (rule bit_word_eqI)
    fix k assume "k < LENGTH(16)"
    then show "bit (drop_bit 8 (n AND 0xff00)) k = bit (drop_bit 8 n) k"
      by (simp only: m) (auto simp: bit_simps dest: bit_imp_le_length)
  qed
  have d: "push_bit 8 (take_bit 8 n) AND drop_bit 8 n = (0 :: u16)"
    by (rule bit_word_eqI) (auto simp: bit_simps dest: bit_imp_le_length)
  have "lwip_htons n = push_bit 8 (take_bit 8 n) + drop_bit 8 n"
    by (simp only: lwip_htons_def l h disjunctive_add_eq_or [OF d])
  moreover have "unat (push_bit 8 (take_bit 8 n)) = 256 * (unat n mod 256)"
  proof -
    have "256 * (unat n mod 256) < 65536" using mod_less_divisor [of 256 "unat n"] by linarith
    then show ?thesis
      by (simp only: unsigned_push_bit_eq unsigned_take_bit_eq)
        (simp add: push_bit_eq_mult take_bit_eq_mod mult.commute)
  qed
  moreover have "unat (drop_bit 8 n) = unat n div 256"
    by (simp only: unat_drop_bit) simp
  moreover have "unat n div 256 < 256" using unat_u16_lt [of n] by (simp add: less_mult_imp_div_less)
  ultimately show ?thesis
    using mod_less_divisor [of 256 "unat n"] by (subst \<open>lwip_htons n = _\<close>) (simp add: unat_word_ariths)
qed

lemma htons_htons [simp]: "lwip_htons (lwip_htons n) = n"
proof -
  have "unat n div 256 < 256" using unat_u16_lt [of n] by (simp add: less_mult_imp_div_less)
  then have "unat (lwip_htons (lwip_htons n)) = unat n"
    by (simp add: unat_htons div_mult_self3 mult.commute)
  then show ?thesis by (rule unsigned_word_eqI)
qed

lemma bit_htonl:
  "bit (lwip_htonl n) k \<longleftrightarrow>
     (if k < 8 then bit n (24 + k) else if k < 16 then bit n (8 + k)
      else if k < 24 then bit n (k - 8) else k < 32 \<and> bit n (k - 24))"
proof -
  have m: "(0xff :: u32) = mask 8" "(0xff00 :: u32) = push_bit 8 (mask 8)"
    "(0xff0000 :: u32) = push_bit 16 (mask 8)" "(0xff000000 :: u32) = push_bit 24 (mask 8)"
    by (simp_all add: mask_eq_exp_minus_1 push_bit_eq_mult)
  show ?thesis
    by (simp only: lwip_htonl_def m) (auto simp: bit_simps dest: bit_imp_le_length)
qed

lemma htonl_htonl [simp]: "lwip_htonl (lwip_htonl n) = n"
proof (rule bit_word_eqI)
  fix k :: nat assume "k < LENGTH(32)"
  then consider "k < 8" | j where "k = 8 + j" "j < 8" | j where "k = 16 + j" "j < 8"
    | j where "k = 24 + j" "j < 8"
  proof -
    assume c: "k < 8 \<Longrightarrow> thesis" "\<And>j. k = 8 + j \<Longrightarrow> j < 8 \<Longrightarrow> thesis"
      "\<And>j. k = 16 + j \<Longrightarrow> j < 8 \<Longrightarrow> thesis" "\<And>j. k = 24 + j \<Longrightarrow> j < 8 \<Longrightarrow> thesis" "k < LENGTH(32)"
    then have "k < 32" by simp
    then show thesis using c(1) c(2) [of "k - 8"] c(3) [of "k - 16"] c(4) [of "k - 24"]
      by (cases "k < 8"; cases "k < 16"; cases "k < 24") auto
  qed
  then show "bit (lwip_htonl (lwip_htonl n)) k = bit n k"
    by cases (simp_all add: bit_htonl)
qed

lemma rd16_bytes16: "holds m a (bytes16 v) \<Longrightarrow> rd16 m a = Inr v"
  by (simp add: bytes16_def rd16_def rd8_def le16_bytes16)

lemma rd32_bytes32: "holds m a (bytes32 v) \<Longrightarrow> rd32 m a = Inr v"
  using rd32_holds [of m a "bytes32 v" 0] by (simp add: bytes32_def le32_bytes32)

end
