(* ===== verification/Memp.thy ===== *)
theory Memp
  imports Prelude
begin

text \<open>
  The fixed-size memory pools of \<^verbatim>\<open>lwip-1.4.1/src/core/memp.c\<close>, in the configuration of
  \<^verbatim>\<open>lwipopts.h\<close> (separate pools, no overflow check, no statistics). A free element stores the
  link to the next free element in its own first word; \<^verbatim>\<open>memp_tab\<close> holds the first free
  element of every pool. The model keeps both pointers (\<open>memp_next\<close>, \<open>memp_tab\<close>), and
  \<open>memp_repr\<close> relates them to one list of free elements per pool. The addresses and sizes of
  the pools are chosen by the linker and the compiler: they are arguments of \<open>memp_init\<close>.
\<close>

section \<open>Pools and their state\<close>

datatype memp_t =
    MEMP_RAW_PCB | MEMP_UDP_PCB | MEMP_TCP_PCB | MEMP_TCP_PCB_LISTEN | MEMP_TCP_SEG
  | MEMP_REASSDATA | MEMP_FRAG_PBUF | MEMP_ARP_QUEUE | MEMP_PBUF | MEMP_PBUF_POOL

text \<open>The pools in the order of \<^verbatim>\<open>memp_std.h\<close>, with the element counts of \<^verbatim>\<open>lwipopts.h\<close>.\<close>

definition memp_all :: "memp_t list" where
  "memp_all = [MEMP_RAW_PCB, MEMP_UDP_PCB, MEMP_TCP_PCB, MEMP_TCP_PCB_LISTEN, MEMP_TCP_SEG,
     MEMP_REASSDATA, MEMP_FRAG_PBUF, MEMP_ARP_QUEUE, MEMP_PBUF, MEMP_PBUF_POOL]"

fun memp_num :: "memp_t \<Rightarrow> nat" where
  "memp_num MEMP_RAW_PCB = 4"
| "memp_num MEMP_UDP_PCB = 4"
| "memp_num MEMP_TCP_PCB = 32"
| "memp_num MEMP_TCP_PCB_LISTEN = 8"
| "memp_num MEMP_TCP_SEG = 256"
| "memp_num MEMP_REASSDATA = 5"
| "memp_num MEMP_FRAG_PBUF = 256"
| "memp_num MEMP_ARP_QUEUE = 30"
| "memp_num MEMP_PBUF = 16"
| "memp_num MEMP_PBUF_POOL = 256"

record memp_state =
  memp_tab :: "memp_t \<Rightarrow> addr"
  memp_next :: "addr \<Rightarrow> addr"

section \<open>Operations\<close>

text \<open>The inner loop of \<^verbatim>\<open>memp_init\<close>: push \<open>n\<close> elements of size \<open>sz\<close> from address \<open>p\<close> on.\<close>

fun memp_carve :: "memp_t \<Rightarrow> nat \<Rightarrow> nat \<Rightarrow> addr \<Rightarrow> memp_state \<Rightarrow> memp_state" where
  "memp_carve t sz 0 p s = s"
| "memp_carve t sz (Suc n) p s =
     memp_carve t sz n (p + sz)
       (s\<lparr>memp_next := (memp_next s)(p := memp_tab s t), memp_tab := (memp_tab s)(t := p)\<rparr>)"

fun memp_init_pools ::
  "(memp_t \<Rightarrow> addr) \<Rightarrow> (memp_t \<Rightarrow> nat) \<Rightarrow> memp_t list \<Rightarrow> memp_state \<Rightarrow> memp_state" where
  "memp_init_pools bases sizes [] s = s"
| "memp_init_pools bases sizes (t # ts) s =
     memp_init_pools bases sizes ts
       (memp_carve t (sizes t) (memp_num t) (bases t) (s\<lparr>memp_tab := (memp_tab s)(t := 0)\<rparr>))"

definition memp_init :: "(memp_t \<Rightarrow> addr) \<Rightarrow> (memp_t \<Rightarrow> nat) \<Rightarrow> memp_state \<Rightarrow> memp_state" where
  "memp_init bases sizes s = memp_init_pools bases sizes memp_all s"

definition memp_malloc :: "memp_state \<Rightarrow> memp_t \<Rightarrow> addr \<times> memp_state" where
  "memp_malloc s t =
     (let memp = memp_tab s t in
      if memp \<noteq> 0 then (memp, s\<lparr>memp_tab := (memp_tab s)(t := memp_next s memp)\<rparr>)
      else (0, s))"

definition memp_free :: "memp_state \<Rightarrow> memp_t \<Rightarrow> addr \<Rightarrow> memp_state" where
  "memp_free s t mem =
     (if mem = 0 then s
      else s\<lparr>memp_next := (memp_next s)(mem := memp_tab s t), memp_tab := (memp_tab s)(t := mem)\<rparr>)"

section \<open>Abstraction to free lists\<close>

fun linked :: "(addr \<Rightarrow> addr) \<Rightarrow> addr \<Rightarrow> addr list \<Rightarrow> bool" where
  "linked nx p [] = (p = 0)"
| "linked nx p (x # xs) = (p = x \<and> x \<noteq> 0 \<and> linked nx (nx x) xs)"

definition memp_repr :: "memp_state \<Rightarrow> (memp_t \<Rightarrow> addr list) \<Rightarrow> bool" where
  "memp_repr s F \<longleftrightarrow>
     (\<forall>t. linked (memp_next s) (memp_tab s t) (F t) \<and> distinct (F t)) \<and>
     (\<forall>t t'. t \<noteq> t' \<longrightarrow> set (F t) \<inter> set (F t') = {})"

lemma linked_upd [simp]: "x \<notin> set xs \<Longrightarrow> linked (nx(x := y)) p xs = linked nx p xs"
  by (induction xs arbitrary: p) auto

lemma linked_nonzero: "linked nx p xs \<Longrightarrow> 0 \<notin> set xs"
proof (induction xs arbitrary: p)
  case (Cons x xs)
  then have "linked nx (nx x) xs" "x \<noteq> 0" by simp_all
  with Cons.IH [of "nx x"] show ?case by simp
qed simp

lemma linked_unique: "linked nx p xs \<Longrightarrow> linked nx p ys \<Longrightarrow> xs = ys"
proof (induction xs arbitrary: p ys)
  case Nil
  then show ?case by (cases ys) auto
next
  case (Cons x xs)
  then obtain zs where ys: "ys = x # zs" by (cases ys) auto
  with Cons.prems have "linked nx (nx x) xs" "linked nx (nx x) zs" by simp_all
  then have "xs = zs" by (rule Cons.IH)
  with ys show ?case by simp
qed

lemma memp_reprD:
  "memp_repr s F \<Longrightarrow> linked (memp_next s) (memp_tab s t) (F t)"
  "memp_repr s F \<Longrightarrow> distinct (F t)"
  "memp_repr s F \<Longrightarrow> t \<noteq> t' \<Longrightarrow> set (F t) \<inter> set (F t') = {}"
  by (simp_all add: memp_repr_def)

lemma memp_malloc_empty: "memp_repr s F \<Longrightarrow> F t = [] \<Longrightarrow> memp_malloc s t = (0, s)"
  using memp_reprD(1) [of s F t] by (simp add: memp_malloc_def)

lemma memp_repr_unique:
  assumes "memp_repr s F" "memp_repr s G"
  shows "F = G"
proof
  fix t
  show "F t = G t" by (rule linked_unique [OF memp_reprD(1) memp_reprD(1)]) (fact assms)+
qed

lemma memp_malloc_cons:
  assumes "memp_repr s F" "F t = p # ps"
  shows "\<exists>s'. memp_malloc s t = (p, s') \<and> memp_repr s' (F(t := ps))"
proof -
  from assms have l: "linked (memp_next s) (memp_tab s t) (p # ps)" and d: "distinct (p # ps)"
    using memp_reprD(1,2) [OF assms(1), of t] by simp_all
  from l have m: "memp_malloc s t = (p, s\<lparr>memp_tab := (memp_tab s)(t := memp_next s p)\<rparr>)"
    by (simp add: memp_malloc_def)
  have sub: "set ((F(t := ps)) k) \<subseteq> set (F k)" for k
    using assms(2) by auto
  have "memp_repr (s\<lparr>memp_tab := (memp_tab s)(t := memp_next s p)\<rparr>) (F(t := ps))"
    unfolding memp_repr_def
  proof (intro conjI allI impI)
    fix k show "linked (memp_next (s\<lparr>memp_tab := (memp_tab s)(t := memp_next s p)\<rparr>))
       (memp_tab (s\<lparr>memp_tab := (memp_tab s)(t := memp_next s p)\<rparr>) k) ((F(t := ps)) k)"
      using assms l by (auto simp: memp_repr_def)
  next
    fix k show "distinct ((F(t := ps)) k)"
      using assms d by (auto simp: memp_repr_def)
  next
    fix k k' :: memp_t assume "k \<noteq> k'"
    then have "set (F k) \<inter> set (F k') = {}" using assms(1) by (simp add: memp_repr_def)
    with sub show "set ((F(t := ps)) k) \<inter> set ((F(t := ps)) k') = {}" by blast
  qed
  with m show ?thesis by blast
qed

lemma memp_free_repr:
  assumes "memp_repr s F" "p \<noteq> 0" "\<forall>k. p \<notin> set (F k)"
  shows "memp_repr (memp_free s t p) (F(t := p # F t))"
  using assms unfolding memp_repr_def memp_free_def by auto

section \<open>The interface the clients of the pools rely on\<close>

text \<open>
  \<open>free_store\<close> is the contract between the pools and the code that allocates from them
  (\<^verbatim>\<open>pbuf.c\<close>, \<^verbatim>\<open>tcp.c\<close>): an operation that takes an element of a kind, one that returns it, and
  the free elements of every kind as an abstract list.
\<close>

locale free_store =
  fixes alloc :: "'s \<Rightarrow> 'k \<Rightarrow> addr \<times> 's"
    and release :: "'s \<Rightarrow> 'k \<Rightarrow> addr \<Rightarrow> 's"
    and repr :: "'s \<Rightarrow> ('k \<Rightarrow> addr list) \<Rightarrow> bool"
  assumes alloc_empty: "repr s F \<Longrightarrow> F k = [] \<Longrightarrow> alloc s k = (0, s)"
    and alloc_cons: "repr s F \<Longrightarrow> F k = p # ps \<Longrightarrow> \<exists>s'. alloc s k = (p, s') \<and> repr s' (F(k := ps))"
    and release_repr: "repr s F \<Longrightarrow> p \<noteq> 0 \<Longrightarrow> \<forall>j. p \<notin> set (F j) \<Longrightarrow> repr (release s k p) (F(k := p # F k))"
    and repr_nonzero: "repr s F \<Longrightarrow> 0 \<notin> set (F k)"
    and repr_distinct: "repr s F \<Longrightarrow> distinct (F k)"
    and repr_disjoint: "repr s F \<Longrightarrow> k \<noteq> j \<Longrightarrow> set (F k) \<inter> set (F j) = {}"
    and repr_unique: "repr s F \<Longrightarrow> repr s G \<Longrightarrow> F = G"
begin

lemma alloc_null_iff: "repr s F \<Longrightarrow> fst (alloc s k) = 0 \<longleftrightarrow> F k = []"
proof (cases "F k")
  case Nil
  assume "repr s F"
  with Nil show ?thesis by (simp add: alloc_empty)
next
  case (Cons p ps)
  assume r: "repr s F"
  from alloc_cons [OF r Cons] have "fst (alloc s k) = p" by auto
  moreover have "p \<noteq> 0" using repr_nonzero [OF r, of k] Cons by auto
  ultimately show ?thesis using Cons by simp
qed

lemma alloc_fresh:
  assumes "repr s F" "alloc s k = (p, s')" "p \<noteq> 0"
  shows "p \<in> set (F k) \<and> (\<exists>G. repr s' G \<and> (\<forall>j. p \<notin> set (G j)) \<and> (\<forall>j. set (G j) \<subseteq> set (F j)))"
proof -
  from assms have "F k \<noteq> []" using alloc_empty by fastforce
  then obtain q qs where F: "F k = q # qs" by (cases "F k") auto
  from alloc_cons [OF assms(1) F] assms(2) have q: "q = p" "repr s' (F(k := qs))" by auto
  have d: "p \<notin> set qs" using repr_distinct [OF assms(1), of k] F q by simp
  have "p \<notin> set (F j)" if "j \<noteq> k" for j
    using repr_disjoint [OF assms(1), of k j] that F q by auto
  with d have "\<forall>j. p \<notin> set ((F(k := qs)) j)" by simp
  moreover have "\<forall>j. set ((F(k := qs)) j) \<subseteq> set (F j)" using F by auto
  moreover have "p \<in> set (F k)" using F q by simp
  ultimately show ?thesis using q(2) by blast
qed

lemma alloc_twice_distinct:
  assumes "repr s F" "alloc s k = (p, s')" "alloc s' j = (q, s'')" "p \<noteq> 0" "q \<noteq> 0"
  shows "p \<noteq> q"
proof -
  from alloc_fresh [OF assms(1,2,4)] obtain G where G: "repr s' G" "\<forall>i. p \<notin> set (G i)" by blast
  from alloc_fresh [OF G(1) assms(3,5)] have "q \<in> set (G j)" by blast
  with G show ?thesis by auto
qed

lemma release_then_alloc:
  assumes "repr s F" "p \<noteq> 0" "\<forall>j. p \<notin> set (F j)"
  shows "\<exists>s'. alloc (release s k p) k = (p, s') \<and> repr s' F"
  using alloc_cons [OF release_repr [OF assms, of k], of k p "F k"] by (auto simp: fun_upd_triv)

end

interpretation mp: free_store memp_malloc memp_free memp_repr
proof unfold_locales
  show "memp_repr s F \<Longrightarrow> F k = [] \<Longrightarrow> memp_malloc s k = (0, s)" for s F k
    by (rule memp_malloc_empty)
  show "memp_repr s F \<Longrightarrow> F k = p # ps \<Longrightarrow>
      \<exists>s'. memp_malloc s k = (p, s') \<and> memp_repr s' (F(k := ps))" for s F k p ps
    by (rule memp_malloc_cons)
  show "memp_repr s F \<Longrightarrow> p \<noteq> 0 \<Longrightarrow> \<forall>j. p \<notin> set (F j) \<Longrightarrow>
      memp_repr (memp_free s k p) (F(k := p # F k))" for s F p k
    by (rule memp_free_repr)
  show "memp_repr s F \<Longrightarrow> 0 \<notin> set (F k)" for s F k
    unfolding memp_repr_def using linked_nonzero by blast
  show "memp_repr s F \<Longrightarrow> distinct (F k)" for s F k
    by (simp add: memp_repr_def)
  show "memp_repr s F \<Longrightarrow> k \<noteq> j \<Longrightarrow> set (F k) \<inter> set (F j) = {}" for s F k j
    by (simp add: memp_repr_def)
  show "memp_repr s F \<Longrightarrow> memp_repr s G \<Longrightarrow> F = G" for s F G
    by (rule memp_repr_unique)
qed

section \<open>Initialisation\<close>

definition memp_elems :: "(memp_t \<Rightarrow> addr) \<Rightarrow> (memp_t \<Rightarrow> nat) \<Rightarrow> memp_t \<Rightarrow> addr list" where
  "memp_elems bases sizes t = map (\<lambda>i. bases t + i * sizes t) [0..<memp_num t]"

definition memp_layout :: "(memp_t \<Rightarrow> addr) \<Rightarrow> (memp_t \<Rightarrow> nat) \<Rightarrow> bool" where
  "memp_layout bases sizes \<longleftrightarrow>
     (\<forall>t. 0 < bases t \<and> 0 < sizes t) \<and>
     (\<forall>t t'. t \<noteq> t' \<longrightarrow> bases t + memp_num t * sizes t \<le> bases t' \<or>
                        bases t' + memp_num t' * sizes t' \<le> bases t)"

lemma linked_cong: "(\<And>x. x \<in> set xs \<Longrightarrow> nx x = nx' x) \<Longrightarrow> linked nx p xs = linked nx' p xs"
  by (induction xs arbitrary: p) auto

lemma linked_append_head:
  "linked nx h (ys @ x # zs) \<Longrightarrow> linked nx (nx x) zs \<and> nx x = (case zs of [] \<Rightarrow> 0 | z # _ \<Rightarrow> z)"
  by (induction ys arbitrary: h) (auto split: list.splits elim: linked.elims)

lemma linked_remove:
  assumes "linked nx h (ys @ q # p # zs)" "distinct (ys @ q # p # zs)"
  shows "linked (nx(q := nx p)) h (ys @ q # zs)"
  using assms by (induction ys arbitrary: h) auto

lemma remove1_mid: "p \<notin> set ys \<Longrightarrow> p \<noteq> q \<Longrightarrow> remove1 p (ys @ q # p # zs) = ys @ q # zs"
  by (induction ys) auto

lemma carve_elems_Suc:
  "map (\<lambda>i. p + i * sz) [0..<Suc n] = p # map (\<lambda>i. (p + sz) + i * sz) [0..<n]" for p sz n :: nat
  by (simp add: map_upt_Suc del: upt_Suc)

lemma memp_carve_spec:
  assumes "linked (memp_next s) (memp_tab s t) xs" "0 < p" "0 < sz" "\<forall>x \<in> set xs. x < p"
  shows "linked (memp_next (memp_carve t sz n p s)) (memp_tab (memp_carve t sz n p s) t)
           (rev (map (\<lambda>i. p + i * sz) [0..<n]) @ xs)
         \<and> (\<forall>k. k \<noteq> t \<longrightarrow> memp_tab (memp_carve t sz n p s) k = memp_tab s k)
         \<and> (\<forall>x. x < p \<or> p + n * sz \<le> x \<longrightarrow> memp_next (memp_carve t sz n p s) x = memp_next s x)"
  using assms
proof (induction n arbitrary: p s xs)
  case 0
  then show ?case by simp
next
  case (Suc n)
  let ?s = "s\<lparr>memp_next := (memp_next s)(p := memp_tab s t), memp_tab := (memp_tab s)(t := p)\<rparr>"
  have l: "linked (memp_next ?s) (memp_tab ?s t) (p # xs)"
    using Suc.prems by (auto simp: linked_cong [of xs "(memp_next s)(p := memp_tab s t)" "memp_next s"])
  have b: "\<forall>x \<in> set (p # xs). x < p + sz" "0 < p + sz"
    using Suc.prems by auto
  note ih = Suc.IH [OF l b(2) Suc.prems(3) b(1)]
  have fr: "memp_next (memp_carve t sz n (p + sz) ?s) x = memp_next s x"
    if "x < p \<or> p + Suc n * sz \<le> x" for x
  proof -
    have "x < p + sz \<or> p + sz + n * sz \<le> x" "x \<noteq> p" using that Suc.prems(3) by auto
    with ih show ?thesis by auto
  qed
  have "rev (map (\<lambda>i. (p + sz) + i * sz) [0..<n]) @ p # xs
      = rev (map (\<lambda>i. p + i * sz) [0..<Suc n]) @ xs"
    by (simp only: carve_elems_Suc rev.simps append_assoc append_Cons append_Nil)
  with ih fr show ?case by simp
qed

lemma memp_elems_mem: "x \<in> set (memp_elems bases sizes t) \<Longrightarrow> 0 < sizes t \<Longrightarrow>
    bases t \<le> x \<and> x < bases t + memp_num t * sizes t"
proof -
  assume "x \<in> set (memp_elems bases sizes t)" and z: "0 < sizes t"
  then obtain i where i: "i < memp_num t" "x = bases t + i * sizes t"
    by (auto simp: memp_elems_def)
  from i(1) z have "i * sizes t < memp_num t * sizes t" by simp
  with i(2) show ?thesis by simp
qed

lemma memp_init_pools_spec:
  assumes "memp_layout bases sizes" "distinct ts"
  shows "(\<forall>t \<in> set ts. linked (memp_next (memp_init_pools bases sizes ts s))
            (memp_tab (memp_init_pools bases sizes ts s) t) (rev (memp_elems bases sizes t)))
       \<and> (\<forall>t. t \<notin> set ts \<longrightarrow> memp_tab (memp_init_pools bases sizes ts s) t = memp_tab s t)
       \<and> (\<forall>x. (\<forall>t \<in> set ts. x < bases t \<or> bases t + memp_num t * sizes t \<le> x) \<longrightarrow>
            memp_next (memp_init_pools bases sizes ts s) x = memp_next s x)"
  using assms(2)
proof (induction ts arbitrary: s)
  case Nil
  then show ?case by simp
next
  case (Cons t ts)
  have ly: "0 < bases t" "0 < sizes t" using assms(1) by (auto simp: memp_layout_def)
  define s1 where "s1 = memp_carve t (sizes t) (memp_num t) (bases t) (s\<lparr>memp_tab := (memp_tab s)(t := 0)\<rparr>)"
  define s2 where "s2 = memp_init_pools bases sizes ts s1"
  have c: "linked (memp_next s1) (memp_tab s1 t) (rev (memp_elems bases sizes t))"
    "\<And>k. k \<noteq> t \<Longrightarrow> memp_tab s1 k = memp_tab s k"
    "\<And>x. x < bases t \<or> bases t + memp_num t * sizes t \<le> x \<Longrightarrow> memp_next s1 x = memp_next s x"
    using memp_carve_spec [of "s\<lparr>memp_tab := (memp_tab s)(t := 0)\<rparr>" t "[]" "bases t" "sizes t" "memp_num t"] ly
    by (auto simp: s1_def memp_elems_def)
  have tn: "t \<notin> set ts" "distinct ts" using Cons.prems by auto
  note ih = Cons.IH [OF tn(2), of s1, folded s2_def]
  have keep: "memp_next s2 x = memp_next s1 x" if "x \<in> set (memp_elems bases sizes t)" for x
  proof -
    have x: "bases t \<le> x" "x < bases t + memp_num t * sizes t"
      using memp_elems_mem [OF that ly(2)] by auto
    have "x < bases k \<or> bases k + memp_num k * sizes k \<le> x" if "k \<in> set ts" for k
    proof -
      from that tn(1) have "k \<noteq> t" by auto
      with assms(1) have "bases t + memp_num t * sizes t \<le> bases k \<or> bases k + memp_num k * sizes k \<le> bases t"
        unfolding memp_layout_def by metis
      with x show ?thesis by linarith
    qed
    with ih show ?thesis by blast
  qed
  have "linked (memp_next s2) (memp_tab s1 t) (rev (memp_elems bases sizes t))"
    using c(1) linked_cong [of "rev (memp_elems bases sizes t)" "memp_next s2" "memp_next s1"] keep by simp
  moreover have "memp_tab s2 t = memp_tab s1 t" using ih tn(1) by blast
  ultimately have "linked (memp_next s2) (memp_tab s2 t) (rev (memp_elems bases sizes t))" by simp
  moreover have "memp_init_pools bases sizes (t # ts) s = s2" by (simp add: s2_def s1_def)
  ultimately show ?case using ih c(2,3) by auto
qed

lemma memp_all_complete: "t \<in> set memp_all"
  by (cases t) (simp_all add: memp_all_def)

lemma memp_all_distinct: "distinct memp_all"
  by (simp add: memp_all_def)

lemma memp_elems_distinct: "0 < sizes t \<Longrightarrow> distinct (memp_elems bases sizes t)"
  by (simp add: memp_elems_def distinct_map inj_on_def)

lemma memp_init_repr:
  assumes "memp_layout bases sizes"
  shows "memp_repr (memp_init bases sizes s) (\<lambda>t. rev (memp_elems bases sizes t))"
proof -
  have z: "0 < sizes t" for t using assms by (simp add: memp_layout_def)
  have dis: "set (memp_elems bases sizes t) \<inter> set (memp_elems bases sizes t') = {}" if "t \<noteq> t'" for t t'
  proof -
    have "bases t + memp_num t * sizes t \<le> bases t' \<or> bases t' + memp_num t' * sizes t' \<le> bases t"
      using assms that unfolding memp_layout_def by metis
    then show ?thesis using memp_elems_mem [OF _ z] by (meson disjoint_iff leD le_less_trans less_le_trans)
  qed
  from memp_init_pools_spec [OF assms memp_all_distinct, of s]
  show ?thesis
    by (simp add: memp_repr_def memp_init_def memp_all_complete memp_elems_distinct z dis)
qed

section \<open>Histories of allocations\<close>

text \<open>
  \<open>memp_reach bases sizes s U\<close>: after \<^verbatim>\<open>memp_init\<close> and some history of \<^verbatim>\<open>memp_malloc\<close> and \<^verbatim>\<open>memp_free\<close>
  calls, in which only elements in use are freed, and to their own pool, the state is \<open>s\<close> and the
  elements in use are \<open>U\<close>.
\<close>

inductive memp_reach ::
  "(memp_t \<Rightarrow> addr) \<Rightarrow> (memp_t \<Rightarrow> nat) \<Rightarrow> memp_state \<Rightarrow> (memp_t \<Rightarrow> addr set) \<Rightarrow> bool"
  for bases sizes where
  start: "memp_reach bases sizes (memp_init bases sizes s) (\<lambda>_. {})"
| take: "memp_reach bases sizes s U \<Longrightarrow> memp_malloc s t = (p, s') \<Longrightarrow>
    memp_reach bases sizes s' (if p = 0 then U else U(t := insert p (U t)))"
| give: "memp_reach bases sizes s U \<Longrightarrow> p \<in> U t \<Longrightarrow>
    memp_reach bases sizes (memp_free s t p) (U(t := U t - {p}))"

inductive_cases memp_reach_cases: "memp_reach bases sizes s U"

lemma memp_elems_disjoint:
  assumes "memp_layout bases sizes" "t \<noteq> t'"
  shows "set (memp_elems bases sizes t) \<inter> set (memp_elems bases sizes t') = {}"
proof -
  have z: "0 < sizes t" for t using assms by (simp add: memp_layout_def)
  have "bases t + memp_num t * sizes t \<le> bases t' \<or> bases t' + memp_num t' * sizes t' \<le> bases t"
    using assms unfolding memp_layout_def by metis
  then show ?thesis using memp_elems_mem [OF _ z] by (meson disjoint_iff leD le_less_trans less_le_trans)
qed

lemma memp_elems_nonzero: "memp_layout bases sizes \<Longrightarrow> 0 \<notin> set (memp_elems bases sizes t)"
  by (simp add: memp_elems_def memp_layout_def) (metis add_is_0 gr_implies_not0 imageE)

lemma memp_reach_inv:
  assumes "memp_layout bases sizes" "memp_reach bases sizes s U"
  shows "\<exists>F. memp_repr s F \<and> (\<forall>t. set (F t) \<union> U t = set (memp_elems bases sizes t) \<and> set (F t) \<inter> U t = {})"
  using assms(2)
proof (induction rule: memp_reach.induct)
  case (start s)
  show ?case using memp_init_repr [OF assms(1), of s] by (intro exI) auto
next
  case (take s U t p s')
  then obtain F where F: "memp_repr s F"
    "\<forall>t. set (F t) \<union> U t = set (memp_elems bases sizes t) \<and> set (F t) \<inter> U t = {}" by blast
  show ?case
  proof (cases "F t")
    case Nil
    with take.hyps(2) F(1) have "p = 0" "s' = s" by (simp_all add: memp_malloc_empty)
    with F show ?thesis by auto
  next
    case (Cons q qs)
    with memp_malloc_cons [OF F(1) Cons] take.hyps(2) have p: "q = p" "memp_repr s' (F(t := qs))" by auto
    have n: "p \<noteq> 0" using mp.repr_nonzero [OF F(1), of t] Cons p by auto
    have "p \<notin> set qs" using mp.repr_distinct [OF F(1), of t] Cons p by simp
    then have c: "set ((F(t := qs)) j) \<union> (U(t := insert p (U t))) j = set (memp_elems bases sizes j) \<and>
        set ((F(t := qs)) j) \<inter> (U(t := insert p (U t))) j = {}" for j
      using F(2) [rule_format, of j] Cons p(1) by (cases "j = t") auto
    have e: "(if p = 0 then U else U(t := insert p (U t))) = U(t := insert p (U t))" using n by simp
    show ?thesis unfolding e using p(2) c by blast
  qed
next
  case (give s U p t)
  then obtain F where F: "memp_repr s F"
    "\<forall>t. set (F t) \<union> U t = set (memp_elems bases sizes t) \<and> set (F t) \<inter> U t = {}" by blast
  have pe: "p \<in> set (memp_elems bases sizes t)" using F(2) give.hyps(2) by blast
  have n: "p \<noteq> 0" using pe memp_elems_nonzero [OF assms(1), of t] by metis
  have "p \<notin> set (F j)" for j
  proof (cases "j = t")
    case False
    then have "p \<notin> set (memp_elems bases sizes j)" using memp_elems_disjoint [OF assms(1), of t j] pe by auto
    then show ?thesis using F(2) by blast
  qed (use F(2) give.hyps(2) in auto)
  then have r: "memp_repr (memp_free s t p) (F(t := p # F t))" using mp.release_repr [OF F(1) n] by blast
  have c: "set ((F(t := p # F t)) j) \<union> (U(t := U t - {p})) j = set (memp_elems bases sizes j) \<and>
      set ((F(t := p # F t)) j) \<inter> (U(t := U t - {p})) j = {}" for j
    using F(2) [rule_format, of j] give.hyps(2) by (cases "j = t") auto
  show ?case using r c by blast
qed

section \<open>Properties\<close>

text \<open>C21: in every history of allocations and releases the pools never hand out an element that is
  still in use, return NULL exactly when every element of the pool is in use, and lose none: an element
  is either in use or on its pool's free list.\<close>

theorem memp_history_safe:
  assumes "memp_layout bases sizes" "memp_reach bases sizes s U" "memp_malloc s t = (p, s')"
  shows "if U t = set (memp_elems bases sizes t) then p = 0 \<and> s' = s
    else p \<in> set (memp_elems bases sizes t) \<and> (\<forall>j. p \<notin> U j)"
proof -
  from memp_reach_inv [OF assms(1,2)] obtain F where F: "memp_repr s F"
    "\<forall>t. set (F t) \<union> U t = set (memp_elems bases sizes t) \<and> set (F t) \<inter> U t = {}" by blast
  show ?thesis
  proof (cases "F t")
    case Nil
    with F(2) have "U t = set (memp_elems bases sizes t)" by (metis Un_empty_left list.set(1))
    with Nil assms(3) F(1) show ?thesis by (simp add: memp_malloc_empty)
  next
    case (Cons q qs)
    with memp_malloc_cons [OF F(1) Cons] assms(3) have "q = p" by auto
    then have pf: "p \<in> set (F t)" using Cons by simp
    then have pe: "p \<in> set (memp_elems bases sizes t)" "p \<notin> U t" using F(2) by blast+
    moreover have "p \<notin> U j" if "j \<noteq> t" for j
      using memp_elems_disjoint [OF assms(1) that] F(2) pe(1) by blast
    ultimately have "U t \<noteq> set (memp_elems bases sizes t)" "\<forall>j. p \<notin> U j" by metis+
    with pe show ?thesis by simp
  qed
qed

theorem memp_history_safe_witness:
  "fst (memp_malloc (memp_init (\<lambda>t. if t = MEMP_TCP_PCB then 1000 else if t = MEMP_TCP_PCB_LISTEN then 2000
      else if t = MEMP_TCP_SEG then 3000 else if t = MEMP_PBUF then 4000 else if t = MEMP_PBUF_POOL then 5000
      else if t = MEMP_UDP_PCB then 6000 else if t = MEMP_REASSDATA then 7000 else if t = MEMP_FRAG_PBUF then 8000 else if t = MEMP_ARP_QUEUE then 10000
      else 9000) (\<lambda>_. 1) \<lparr>memp_tab = (\<lambda>_. 0), memp_next = (\<lambda>_. 0)\<rparr>) MEMP_TCP_PCB) \<noteq> 0"
proof -
  let ?b = "\<lambda>t. if t = MEMP_TCP_PCB then 1000 else if t = MEMP_TCP_PCB_LISTEN then 2000
      else if t = MEMP_TCP_SEG then 3000 else if t = MEMP_PBUF then 4000 else if t = MEMP_PBUF_POOL then 5000
      else if t = MEMP_UDP_PCB then 6000 else if t = MEMP_REASSDATA then 7000 else if t = MEMP_FRAG_PBUF then 8000 else if t = MEMP_ARP_QUEUE then 10000
      else 9000"
  let ?s = "memp_init ?b (\<lambda>_. 1) \<lparr>memp_tab = (\<lambda>_. 0), memp_next = (\<lambda>_. 0)\<rparr>"
  have l: "memp_layout ?b (\<lambda>_. 1)"
    unfolding memp_layout_def by (intro conjI allI impI; (case_tac t; simp)?; (case_tac t'; simp)?)
  have "set (memp_elems ?b (\<lambda>_. 1) MEMP_TCP_PCB) \<noteq> {}" by (simp add: memp_elems_def)
  moreover have "0 \<notin> set (memp_elems ?b (\<lambda>_. 1) MEMP_TCP_PCB)" by (rule memp_elems_nonzero [OF l])
  ultimately show ?thesis
    using memp_history_safe [OF l memp_reach.start, of _ MEMP_TCP_PCB] by (cases "memp_malloc ?s MEMP_TCP_PCB") force
qed

end
