(* ===== verification/Mem.thy ===== *)
theory Mem
  imports Prelude
begin

text \<open>
  The heap allocator of \<^verbatim>\<open>lwip-1.4.1/src/core/mem.c\<close>, in the configuration of \<^verbatim>\<open>lwipopts.h\<close>
  (\<^verbatim>\<open>MEM_ALIGNMENT\<close> 64, \<^verbatim>\<open>MEM_SIZE\<close> 131072, \<^verbatim>\<open>LWIP_ALLOW_MEM_FREE_FROM_OTHER_CONTEXT\<close> 0, no
  statistics; the mutex operations are empty because \<^verbatim>\<open>NO_SYS\<close> is 1 and \<^verbatim>\<open>LWIP_ASSERT\<close> does
  nothing because \<^verbatim>\<open>LWIP_PLATFORM_ASSERT\<close> is empty in \<^verbatim>\<open>arch/cc.h\<close>). The heap is a doubly
  linked list of headers \<open>struct mem\<close> inside \<^verbatim>\<open>ram\<close>; the model keeps the header found at every
  offset. Offsets are at most \<open>MEM_SIZE_ALIGNED + SIZEOF_STRUCT_MEM\<close>, so they are naturals;
  requested sizes are 32-bit words, because their alignment wraps around.
\<close>

section \<open>Configuration\<close>

definition MEM_ALIGNMENT :: nat where "MEM_ALIGNMENT = 64"

definition MEM_SIZE_ALIGNED :: nat where "MEM_SIZE_ALIGNED = 131072"

text \<open>\<^verbatim>\<open>struct mem\<close> has two 32-bit fields and a byte: 12 bytes, 64 once aligned.\<close>

definition SIZEOF_STRUCT_MEM :: nat where "SIZEOF_STRUCT_MEM = 64"

text \<open>\<^verbatim>\<open>MIN_SIZE\<close> is 12: 64 once aligned.\<close>

definition MIN_SIZE_ALIGNED :: nat where "MIN_SIZE_ALIGNED = 64"

definition LWIP_MEM_ALIGN_SIZE :: "u32 \<Rightarrow> u32" where
  "LWIP_MEM_ALIGN_SIZE sz = (sz + 63) AND NOT 63"

text \<open>\<^verbatim>\<open>LWIP_MEM_ALIGN\<close> on an address (addresses do not come near \<open>2 ^ 32\<close>).\<close>

definition LWIP_MEM_ALIGN :: "addr \<Rightarrow> addr" where
  "LWIP_MEM_ALIGN a = (a + 63) div 64 * 64"

lemmas mem_config = MEM_ALIGNMENT_def MEM_SIZE_ALIGNED_def SIZEOF_STRUCT_MEM_def MIN_SIZE_ALIGNED_def

section \<open>State\<close>

record mem_hdr =
  mh_next :: nat
  mh_prev :: nat
  mh_used :: bool

record heap =
  ram_base :: addr
  hdr :: "nat \<Rightarrow> mem_hdr"
  lfree :: nat

definition upd_hdr :: "heap \<Rightarrow> nat \<Rightarrow> (mem_hdr \<Rightarrow> mem_hdr) \<Rightarrow> heap" where
  "upd_hdr h p f = h\<lparr>hdr := (hdr h)(p := f (hdr h p))\<rparr>"

definition ram_end :: nat where "ram_end = MEM_SIZE_ALIGNED"

section \<open>Operations\<close>

definition mem_init :: "addr \<Rightarrow> heap \<Rightarrow> heap" where
  "mem_init heap_pointer h =
     h\<lparr>ram_base := LWIP_MEM_ALIGN heap_pointer,
       hdr := (hdr h)(0 := \<lparr>mh_next = MEM_SIZE_ALIGNED, mh_prev = 0, mh_used = False\<rparr>,
                      ram_end := \<lparr>mh_next = MEM_SIZE_ALIGNED, mh_prev = MEM_SIZE_ALIGNED, mh_used = True\<rparr>),
       lfree := 0\<rparr>"

text \<open>The two halves of \<^verbatim>\<open>plug_holes\<close>: merge with the next block, then with the previous one.\<close>

definition plug_forward :: "heap \<Rightarrow> nat \<Rightarrow> heap" where
  "plug_forward h mem =
     (let nmem = mh_next (hdr h mem) in
      if mem \<noteq> nmem \<and> \<not> mh_used (hdr h nmem) \<and> nmem \<noteq> ram_end then
        let h1 = (if lfree h = nmem then h\<lparr>lfree := mem\<rparr> else h);
            nn = mh_next (hdr h1 nmem);
            h2 = upd_hdr h1 mem (\<lambda>m. m\<lparr>mh_next := nn\<rparr>)
        in upd_hdr h2 nn (\<lambda>m. m\<lparr>mh_prev := mem\<rparr>)
      else h)"

definition plug_backward :: "heap \<Rightarrow> nat \<Rightarrow> heap" where
  "plug_backward h mem =
     (let pmem = mh_prev (hdr h mem) in
      if pmem \<noteq> mem \<and> \<not> mh_used (hdr h pmem) then
        let h1 = (if lfree h = mem then h\<lparr>lfree := pmem\<rparr> else h);
            nn = mh_next (hdr h1 mem);
            h2 = upd_hdr h1 pmem (\<lambda>m. m\<lparr>mh_next := nn\<rparr>)
        in upd_hdr h2 nn (\<lambda>m. m\<lparr>mh_prev := pmem\<rparr>)
      else h)"

definition plug_holes :: "heap \<Rightarrow> nat \<Rightarrow> heap" where
  "plug_holes h mem = plug_backward (plug_forward h mem) mem"

definition mem_free :: "heap \<Rightarrow> addr \<Rightarrow> heap" where
  "mem_free h rmem =
     (if rmem = 0 then h
      else if rmem < ram_base h \<or> ram_base h + ram_end \<le> rmem then h
      else
        let mem = rmem - SIZEOF_STRUCT_MEM - ram_base h;
            h1 = upd_hdr h mem (\<lambda>m. m\<lparr>mh_used := False\<rparr>);
            h2 = (if mem < lfree h1 then h1\<lparr>lfree := mem\<rparr> else h1)
        in plug_holes h2 mem)"

text \<open>The size adjustment at the head of \<^verbatim>\<open>mem_malloc\<close> and \<^verbatim>\<open>mem_trim\<close>.\<close>

definition adjust_size :: "u32 \<Rightarrow> nat" where
  "adjust_size sz = (let a = unat (LWIP_MEM_ALIGN_SIZE sz) in
     if a < MIN_SIZE_ALIGNED then MIN_SIZE_ALIGNED else a)"

text \<open>
  The search loop of \<^verbatim>\<open>mem_malloc\<close>: \<open>Some (Some ptr)\<close> is the first fitting block,
  \<open>Some None\<close> that there is none, \<open>None\<close> that the fuel ran out.
\<close>

primrec mem_scan :: "nat \<Rightarrow> heap \<Rightarrow> nat \<Rightarrow> nat \<Rightarrow> nat option option" where
  "mem_scan 0 h sz ptr = None"
| "mem_scan (Suc fuel) h sz ptr =
     (if ptr < MEM_SIZE_ALIGNED - sz then
        (if \<not> mh_used (hdr h ptr) \<and> sz + (ptr + SIZEOF_STRUCT_MEM) \<le> mh_next (hdr h ptr)
         then Some (Some ptr)
         else mem_scan fuel h sz (mh_next (hdr h ptr)))
      else Some None)"

text \<open>The loop that moves \<open>lfree\<close> to the next free block.\<close>

primrec next_free :: "nat \<Rightarrow> heap \<Rightarrow> nat \<Rightarrow> nat option" where
  "next_free 0 h cur = None"
| "next_free (Suc fuel) h cur =
     (if mh_used (hdr h cur) \<and> cur \<noteq> ram_end then next_free fuel h (mh_next (hdr h cur))
      else Some cur)"

definition set_prev_unless_end :: "heap \<Rightarrow> nat \<Rightarrow> nat \<Rightarrow> heap" where
  "set_prev_unless_end h nx p =
     (if nx \<noteq> MEM_SIZE_ALIGNED then upd_hdr h nx (\<lambda>m. m\<lparr>mh_prev := p\<rparr>) else h)"

text \<open>Take block \<open>ptr\<close> for \<open>sz\<close> bytes, splitting it when a further block fits behind.\<close>

definition mem_take :: "heap \<Rightarrow> nat \<Rightarrow> nat \<Rightarrow> heap" where
  "mem_take h sz ptr =
     (let nx = mh_next (hdr h ptr) in
      if sz + SIZEOF_STRUCT_MEM + MIN_SIZE_ALIGNED + (ptr + SIZEOF_STRUCT_MEM) \<le> nx then
        let ptr2 = ptr + SIZEOF_STRUCT_MEM + sz;
            h1 = upd_hdr h ptr2 (\<lambda>_. \<lparr>mh_next = nx, mh_prev = ptr, mh_used = False\<rparr>);
            h2 = upd_hdr h1 ptr (\<lambda>m. m\<lparr>mh_next := ptr2, mh_used := True\<rparr>)
        in set_prev_unless_end h2 nx ptr2
      else upd_hdr h ptr (\<lambda>m. m\<lparr>mh_used := True\<rparr>))"

text \<open>Every block is at least 128 bytes long, so there are at most 1024 blocks.\<close>

definition mem_fuel :: nat where "mem_fuel = 2048"

definition mem_malloc :: "heap \<Rightarrow> u32 \<Rightarrow> (addr \<times> heap) option" where
  "mem_malloc h size0 =
     (if size0 = 0 then Some (0, h)
      else
        let sz = adjust_size size0 in
        if MEM_SIZE_ALIGNED < sz then Some (0, h)
        else case mem_scan mem_fuel h sz (lfree h) of
          None \<Rightarrow> None
        | Some None \<Rightarrow> Some (0, h)
        | Some (Some ptr) \<Rightarrow>
            let h1 = mem_take h sz ptr;
                res = ram_base h + ptr + SIZEOF_STRUCT_MEM
            in if ptr = lfree h1 then
                 (case next_free mem_fuel h1 (lfree h1) of
                    None \<Rightarrow> None
                  | Some cur \<Rightarrow> Some (res, h1\<lparr>lfree := cur\<rparr>))
               else Some (res, h1))"

definition mem_trim :: "heap \<Rightarrow> addr \<Rightarrow> u32 \<Rightarrow> addr \<times> heap" where
  "mem_trim h rmem newsize0 =
     (let newsize = adjust_size newsize0 in
      if MEM_SIZE_ALIGNED < newsize then (0, h)
      else if rmem < ram_base h \<or> ram_base h + ram_end \<le> rmem then (rmem, h)
      else
        let ptr = rmem - SIZEOF_STRUCT_MEM - ram_base h;
            sz = mh_next (hdr h ptr) - ptr - SIZEOF_STRUCT_MEM
        in if sz < newsize then (0, h)
           else if newsize = sz then (rmem, h)
           else
             let mem2 = mh_next (hdr h ptr); ptr2 = ptr + SIZEOF_STRUCT_MEM + newsize in
             if \<not> mh_used (hdr h mem2) then
               let nx = mh_next (hdr h mem2);
                   h1 = (if lfree h = mem2 then h\<lparr>lfree := ptr2\<rparr> else h);
                   h2 = upd_hdr h1 ptr2 (\<lambda>_. \<lparr>mh_next = nx, mh_prev = ptr, mh_used = False\<rparr>);
                   h3 = upd_hdr h2 ptr (\<lambda>m. m\<lparr>mh_next := ptr2\<rparr>)
               in (rmem, set_prev_unless_end h3 nx ptr2)
             else if newsize + SIZEOF_STRUCT_MEM + MIN_SIZE_ALIGNED \<le> sz then
               let nx = mh_next (hdr h ptr);
                   h1 = (if ptr2 < lfree h then h\<lparr>lfree := ptr2\<rparr> else h);
                   h2 = upd_hdr h1 ptr2 (\<lambda>_. \<lparr>mh_next = nx, mh_prev = ptr, mh_used = False\<rparr>);
                   h3 = upd_hdr h2 ptr (\<lambda>m. m\<lparr>mh_next := ptr2\<rparr>)
               in (rmem, set_prev_unless_end h3 nx ptr2)
             else (rmem, h))"

text \<open>\<^verbatim>\<open>mem_calloc\<close> clears the bytes it returns; the product of its arguments wraps around.\<close>

definition mem_calloc :: "heap \<Rightarrow> memory \<Rightarrow> u32 \<Rightarrow> u32 \<Rightarrow> (addr \<times> heap \<times> memory) res" where
  "mem_calloc h m count size0 =
     (case mem_malloc h (count * size0) of
        None \<Rightarrow> Inl Out_of_fuel
      | Some (p, h1) \<Rightarrow>
          if p \<noteq> 0 then rbind (wr_bytes m p (replicate (unat (count * size0)) 0)) (\<lambda>m1. Inr (p, h1, m1))
          else Inr (0, h1, m))"

end
