(* ===== verification/Pbuf.thy ===== *)
theory Pbuf
  imports Memp Mem
begin

text \<open>
  Packet buffers: \<^verbatim>\<open>lwip-1.4.1/src/core/pbuf.c\<close> and \<^verbatim>\<open>lwip/pbuf.h\<close>. A pbuf is a record stored
  at its address; a chain is a singly linked list of pbufs through \<open>pb_next\<close>. Payload bytes
  live in the byte memory. A freed pbuf is taken out of \<open>pbufs\<close>, so that every later use of it
  is the fault \<open>Dangling\<close>. In this build \<^verbatim>\<open>LWIP_ASSERT\<close> has no effect and \<^verbatim>\<open>LWIP_ERROR\<close> only
  runs its handler (\<^verbatim>\<open>LWIP_PLATFORM_ASSERT\<close> is empty in \<^verbatim>\<open>arch/cc.h\<close>).
\<close>

section \<open>Data\<close>

datatype pbuf_layer = PBUF_TRANSPORT | PBUF_IP | PBUF_LINK | PBUF_RAW

datatype pbuf_type = PBUF_RAM | PBUF_ROM | PBUF_REF | PBUF_POOL

record pbuf =
  pb_next :: addr
  payload :: addr
  tot_len :: u16
  pb_len :: u16
  pb_type :: pbuf_type
  pb_flags :: u8
  pb_ref :: u16

definition PBUF_FLAG_IS_CUSTOM :: u8 where "PBUF_FLAG_IS_CUSTOM = 0x02"

definition SIZEOF_STRUCT_PBUF :: nat where "SIZEOF_STRUCT_PBUF = 64"

definition PBUF_POOL_BUFSIZE_ALIGNED :: nat where "PBUF_POOL_BUFSIZE_ALIGNED = 1728"

text \<open>The header room of a layer: \<^verbatim>\<open>PBUF_LINK_HLEN\<close> 16, \<^verbatim>\<open>PBUF_IP_HLEN\<close> and \<^verbatim>\<open>PBUF_TRANSPORT_HLEN\<close> 20.\<close>

fun layer_offset :: "pbuf_layer \<Rightarrow> nat" where
  "layer_offset PBUF_TRANSPORT = 16 + 20 + 20"
| "layer_offset PBUF_IP = 16 + 20"
| "layer_offset PBUF_LINK = 16"
| "layer_offset PBUF_RAW = 0"

text \<open>
  The state of the module: the byte memory, the allocated pbufs, the pools and the heap they
  come from, \<^verbatim>\<open>pbuf_free_ooseq_pending\<close>, and the custom pbufs handed to their
  \<^verbatim>\<open>custom_free_function\<close> (a function pointer of the owner), in order.
\<close>

record pbuf_st =
  bytes :: memory
  pbufs :: "addr \<rightharpoonup> pbuf"
  pools :: memp_state
  mheap :: heap
  pbuf_free_ooseq_pending :: u8
  custom_freed :: "addr list"

section \<open>Access to pbufs\<close>

definition get_pbuf :: "'a pbuf_st_scheme \<Rightarrow> addr \<Rightarrow> pbuf res" where
  "get_pbuf st p = (if p = 0 then Inl Null_deref
     else case pbufs st p of None \<Rightarrow> Inl (Dangling p) | Some b \<Rightarrow> Inr b)"

definition put_pbuf :: "'a pbuf_st_scheme \<Rightarrow> addr \<Rightarrow> pbuf \<Rightarrow> 'a pbuf_st_scheme" where
  "put_pbuf st p b = st\<lparr>pbufs := (pbufs st)(p \<mapsto> b)\<rparr>"

definition upd_pbuf :: "'a pbuf_st_scheme \<Rightarrow> addr \<Rightarrow> (pbuf \<Rightarrow> pbuf) \<Rightarrow> 'a pbuf_st_scheme res" where
  "upd_pbuf st p f = rbind (get_pbuf st p) (\<lambda>b. Inr (put_pbuf st p (f b)))"

text \<open>
  The bound on the length of a chain that the loops below walk: the pools hold 528 pbufs and
  the heap of 131072 bytes at most 1024 more.
\<close>

definition chain_fuel :: nat where "chain_fuel = 2048"

section \<open>Freeing\<close>

text \<open>The element of one pbuf goes back to where it came from, or to its owner.\<close>

definition pbuf_release :: "'a pbuf_st_scheme \<Rightarrow> addr \<Rightarrow> pbuf \<Rightarrow> 'a pbuf_st_scheme" where
  "pbuf_release st p b =
     (let st1 = st\<lparr>pbufs := (pbufs st)(p := None)\<rparr> in
      if pb_flags b AND PBUF_FLAG_IS_CUSTOM \<noteq> 0 then st1\<lparr>custom_freed := custom_freed st1 @ [p]\<rparr>
      else case pb_type b of
        PBUF_POOL \<Rightarrow> st1\<lparr>pools := memp_free (pools st1) MEMP_PBUF_POOL p\<rparr>
      | PBUF_ROM \<Rightarrow> st1\<lparr>pools := memp_free (pools st1) MEMP_PBUF p\<rparr>
      | PBUF_REF \<Rightarrow> st1\<lparr>pools := memp_free (pools st1) MEMP_PBUF p\<rparr>
      | PBUF_RAM \<Rightarrow> st1\<lparr>mheap := mem_free (mheap st1) p\<rparr>)"

primrec pbuf_free_loop ::
  "nat \<Rightarrow> 'a pbuf_st_scheme \<Rightarrow> addr \<Rightarrow> u8 \<Rightarrow> (u8 \<times> 'a pbuf_st_scheme) res" where
  "pbuf_free_loop 0 st p count = (if p = 0 then Inr (count, st) else Inl Out_of_fuel)"
| "pbuf_free_loop (Suc fuel) st p count =
     (if p = 0 then Inr (count, st)
      else rbind (get_pbuf st p) (\<lambda>b.
        let ref = pb_ref b - 1; st1 = put_pbuf st p (b\<lparr>pb_ref := ref\<rparr>)
        in if ref = 0
           then pbuf_free_loop fuel (pbuf_release st1 p (b\<lparr>pb_ref := ref\<rparr>)) (pb_next b) (count + 1)
           else Inr (count, st1)))"

definition pbuf_free :: "'a pbuf_st_scheme \<Rightarrow> addr \<Rightarrow> (u8 \<times> 'a pbuf_st_scheme) res" where
  "pbuf_free st p = (if p = 0 then Inr (0, st) else pbuf_free_loop chain_fuel st p 0)"

section \<open>Allocation\<close>

definition PBUF_POOL_IS_EMPTY :: "'a pbuf_st_scheme \<Rightarrow> 'a pbuf_st_scheme" where
  "PBUF_POOL_IS_EMPTY st = st\<lparr>pbuf_free_ooseq_pending := 1\<rparr>"

text \<open>
  The loop that allocates the tail of a \<^verbatim>\<open>PBUF_POOL\<close> chain: \<open>r\<close> is the last pbuf so far,
  \<open>rem\<close> the length still to allocate. The result is \<open>False\<close> when the pool ran empty and the
  chain was freed.
\<close>

function pool_tail ::
  "addr \<Rightarrow> 'a pbuf_st_scheme \<Rightarrow> addr \<Rightarrow> nat \<Rightarrow> (bool \<times> 'a pbuf_st_scheme) res" where
  "pool_tail p st r rem =
     (if rem = 0 then Inr (True, st)
      else case memp_malloc (pools st) MEMP_PBUF_POOL of (q, pools') \<Rightarrow>
        if q = 0 then
          rbind (pbuf_free (PBUF_POOL_IS_EMPTY (st\<lparr>pools := pools'\<rparr>)) p) (\<lambda>(_, st'). Inr (False, st'))
        else
          rbind (upd_pbuf (st\<lparr>pools := pools'\<rparr>) r (\<lambda>b. b\<lparr>pb_next := q\<rparr>)) (\<lambda>st1.
            pool_tail p
              (put_pbuf st1 q \<lparr>pb_next = 0, payload = q + SIZEOF_STRUCT_PBUF,
                 tot_len = of_nat rem, pb_len = of_nat (min rem PBUF_POOL_BUFSIZE_ALIGNED),
                 pb_type = PBUF_POOL, pb_flags = 0, pb_ref = 1\<rparr>)
              q (rem - min rem PBUF_POOL_BUFSIZE_ALIGNED)))"
  by pat_completeness auto
termination
  by (relation "measure (\<lambda>(p, st, r, rem). rem)") (auto simp: PBUF_POOL_BUFSIZE_ALIGNED_def)

declare pool_tail.simps [simp del]

text \<open>\<^verbatim>\<open>LWIP_MEM_ALIGN_SIZE\<close> of a header offset.\<close>

definition align_offset :: "nat \<Rightarrow> nat" where
  "align_offset off = unat (LWIP_MEM_ALIGN_SIZE (of_nat off))"

definition pbuf_alloc ::
  "'a pbuf_st_scheme \<Rightarrow> pbuf_layer \<Rightarrow> u16 \<Rightarrow> pbuf_type \<Rightarrow> (addr \<times> 'a pbuf_st_scheme) res" where
  "pbuf_alloc st layer lngth type =
     (let offset = layer_offset layer in
      case type of
        PBUF_POOL \<Rightarrow>
          (case memp_malloc (pools st) MEMP_PBUF_POOL of (p, pools') \<Rightarrow>
             if p = 0 then Inr (0, PBUF_POOL_IS_EMPTY (st\<lparr>pools := pools'\<rparr>))
             else
               let len = min (unat lngth) (PBUF_POOL_BUFSIZE_ALIGNED - align_offset offset) in
               rbind (pool_tail p
                   (put_pbuf (st\<lparr>pools := pools'\<rparr>) p
                     \<lparr>pb_next = 0, payload = LWIP_MEM_ALIGN (p + (SIZEOF_STRUCT_PBUF + offset)),
                      tot_len = lngth, pb_len = of_nat len, pb_type = PBUF_POOL,
                      pb_flags = 0, pb_ref = 1\<rparr>)
                   p (unat lngth - len))
                 (\<lambda>(ok, st'). Inr (if ok then p else 0, st')))
      | PBUF_RAM \<Rightarrow>
          (case mem_malloc (mheap st)
                  (LWIP_MEM_ALIGN_SIZE (of_nat (SIZEOF_STRUCT_PBUF + offset))
                   + LWIP_MEM_ALIGN_SIZE (ucast lngth)) of
             None \<Rightarrow> Inl Out_of_fuel
           | Some (p, h') \<Rightarrow>
               if p = 0 then Inr (0, st\<lparr>mheap := h'\<rparr>)
               else Inr (p, put_pbuf (st\<lparr>mheap := h'\<rparr>) p
                      \<lparr>pb_next = 0, payload = LWIP_MEM_ALIGN (p + SIZEOF_STRUCT_PBUF + offset),
                       tot_len = lngth, pb_len = lngth, pb_type = PBUF_RAM,
                       pb_flags = 0, pb_ref = 1\<rparr>))
      | _ \<Rightarrow>
          (case memp_malloc (pools st) MEMP_PBUF of (p, pools') \<Rightarrow>
             if p = 0 then Inr (0, st\<lparr>pools := pools'\<rparr>)
             else Inr (p, put_pbuf (st\<lparr>pools := pools'\<rparr>) p
                    \<lparr>pb_next = 0, payload = 0, tot_len = lngth, pb_len = lngth,
                     pb_type = type, pb_flags = 0, pb_ref = 1\<rparr>)))"

text \<open>
  \<^verbatim>\<open>pbuf_alloced_custom\<close> initialises a pbuf the caller has allocated at address \<open>p\<close>.
\<close>

definition pbuf_alloced_custom ::
  "'a pbuf_st_scheme \<Rightarrow> pbuf_layer \<Rightarrow> u16 \<Rightarrow> pbuf_type \<Rightarrow> addr \<Rightarrow> addr \<Rightarrow> u16 \<Rightarrow>
     addr \<times> 'a pbuf_st_scheme" where
  "pbuf_alloced_custom st l lngth type p payload_mem payload_mem_len =
     (let offset = layer_offset l in
      if unat payload_mem_len < align_offset offset + unat lngth then (0, st)
      else (p, put_pbuf st p
              \<lparr>pb_next = 0,
               payload = (if payload_mem \<noteq> 0 then payload_mem + align_offset offset else 0),
               tot_len = lngth, pb_len = lngth, pb_type = type,
               pb_flags = PBUF_FLAG_IS_CUSTOM, pb_ref = 1\<rparr>))"

section \<open>Resizing\<close>

text \<open>
  The loop of \<^verbatim>\<open>pbuf_realloc\<close> over the pbufs that stay: it returns the new last pbuf and the
  length that remains for it.
\<close>

primrec realloc_skip ::
  "nat \<Rightarrow> 'a pbuf_st_scheme \<Rightarrow> addr \<Rightarrow> u16 \<Rightarrow> u16 \<Rightarrow> (addr \<times> u16 \<times> 'a pbuf_st_scheme) res" where
  "realloc_skip 0 st q rem_len grow = Inl Out_of_fuel"
| "realloc_skip (Suc fuel) st q rem_len grow =
     rbind (get_pbuf st q) (\<lambda>b.
       if pb_len b < rem_len then
         realloc_skip fuel (put_pbuf st q (b\<lparr>tot_len := tot_len b + grow\<rparr>)) (pb_next b)
           (rem_len - pb_len b) grow
       else Inr (q, rem_len, st))"

definition pbuf_realloc :: "'a pbuf_st_scheme \<Rightarrow> addr \<Rightarrow> u16 \<Rightarrow> 'a pbuf_st_scheme res" where
  "pbuf_realloc st p new_len =
     rbind (get_pbuf st p) (\<lambda>b.
       if tot_len b \<le> new_len then Inr st
       else
         let grow = new_len - tot_len b in
         rbind (realloc_skip chain_fuel st p new_len grow) (\<lambda>(q0, rem_len, st1).
         rbind (get_pbuf st1 q0) (\<lambda>b0.
           let (q, st2) =
             (if pb_type b0 = PBUF_RAM \<and> rem_len \<noteq> pb_len b0 then
                let (r, h') = mem_trim (mheap st1) q0
                      (ucast (of_nat (payload b0 - q0) :: u16) + ucast rem_len)
                in (r, st1\<lparr>mheap := h'\<rparr>)
              else (q0, st1))
           in rbind (upd_pbuf st2 q (\<lambda>c. c\<lparr>pb_len := rem_len, tot_len := rem_len\<rparr>)) (\<lambda>st3.
              rbind (get_pbuf st3 q) (\<lambda>c.
                if pb_next c \<noteq> 0 then
                  rbind (pbuf_free st3 (pb_next c)) (\<lambda>(_, st4).
                    upd_pbuf st4 q (\<lambda>d. d\<lparr>pb_next := 0\<rparr>))
                else upd_pbuf st3 q (\<lambda>d. d\<lparr>pb_next := 0\<rparr>))))))"

text \<open>Releasing a packet whose count of freed pbufs nobody needs.\<close>

definition free_only :: "'a pbuf_st_scheme \<Rightarrow> addr \<Rightarrow> 'a pbuf_st_scheme res" where
  "free_only st p = rbind (pbuf_free st p) (\<lambda>(_, st1). Inr st1)"

text \<open>
  \<^verbatim>\<open>pbuf_header\<close>: \<open>inc\<close> is the signed 16-bit increment as its bit pattern; the result is the
  code's return value (0 for success).
\<close>

definition pbuf_header :: "'a pbuf_st_scheme \<Rightarrow> addr \<Rightarrow> u16 \<Rightarrow> (u8 \<times> 'a pbuf_st_scheme) res" where
  "pbuf_header st p inc =
     (if inc = 0 \<or> p = 0 then Inr (0, st)
      else rbind (get_pbuf st p) (\<lambda>b.
        let increment_magnitude = (if sint inc < 0 then - inc else inc) in
        if sint inc < 0 \<and> pb_len b < increment_magnitude then Inr (1, st)
        else
          let moved = nat (int (payload b) - sint inc);
              st1 = put_pbuf st p (b\<lparr>payload := moved, pb_len := pb_len b + inc, tot_len := tot_len b + inc\<rparr>)
          in if pb_type b = PBUF_RAM \<or> pb_type b = PBUF_POOL then
               (if int (payload b) - sint inc < int (p + SIZEOF_STRUCT_PBUF) then Inr (1, st)
                else Inr (0, st1))
             else
               (if sint inc < 0 \<and> increment_magnitude \<le> pb_len b then Inr (0, st1)
                else Inr (1, st))))"

section \<open>Chains\<close>

primrec clen_loop :: "nat \<Rightarrow> 'a pbuf_st_scheme \<Rightarrow> addr \<Rightarrow> u8 \<Rightarrow> u8 res" where
  "clen_loop 0 st p len = (if p = 0 then Inr len else Inl Out_of_fuel)"
| "clen_loop (Suc fuel) st p len =
     (if p = 0 then Inr len
      else rbind (get_pbuf st p) (\<lambda>b. clen_loop fuel st (pb_next b) (len + 1)))"

definition pbuf_clen :: "'a pbuf_st_scheme \<Rightarrow> addr \<Rightarrow> u8 res" where
  "pbuf_clen st p = clen_loop chain_fuel st p 0"

definition pbuf_ref :: "'a pbuf_st_scheme \<Rightarrow> addr \<Rightarrow> 'a pbuf_st_scheme res" where
  "pbuf_ref st p = (if p = 0 then Inr st else upd_pbuf st p (\<lambda>b. b\<lparr>pb_ref := pb_ref b + 1\<rparr>))"

text \<open>The loop of \<^verbatim>\<open>pbuf_cat\<close> adds \<^verbatim>\<open>t->tot_len\<close> to every pbuf but the last, which it returns.\<close>

primrec cat_walk :: "nat \<Rightarrow> 'a pbuf_st_scheme \<Rightarrow> addr \<Rightarrow> addr \<Rightarrow> (addr \<times> 'a pbuf_st_scheme) res" where
  "cat_walk 0 st t p = Inl Out_of_fuel"
| "cat_walk (Suc fuel) st t p =
     rbind (get_pbuf st p) (\<lambda>b.
       if pb_next b = 0 then Inr (p, st)
       else rbind (get_pbuf st t) (\<lambda>tb.
         cat_walk fuel (put_pbuf st p (b\<lparr>tot_len := tot_len b + tot_len tb\<rparr>)) t (pb_next b)))"

definition pbuf_cat :: "'a pbuf_st_scheme \<Rightarrow> addr \<Rightarrow> addr \<Rightarrow> 'a pbuf_st_scheme res" where
  "pbuf_cat st h t =
     (if h = 0 \<or> t = 0 then Inr st
      else rbind (cat_walk chain_fuel st t h) (\<lambda>(p, st1).
        rbind (get_pbuf st1 t) (\<lambda>tb.
          upd_pbuf st1 p (\<lambda>b. b\<lparr>tot_len := tot_len b + tot_len tb, pb_next := t\<rparr>))))"

definition pbuf_chain :: "'a pbuf_st_scheme \<Rightarrow> addr \<Rightarrow> addr \<Rightarrow> 'a pbuf_st_scheme res" where
  "pbuf_chain st h t = rbind (pbuf_cat st h t) (\<lambda>st1. pbuf_ref st1 t)"

definition pbuf_dechain :: "'a pbuf_st_scheme \<Rightarrow> addr \<Rightarrow> (addr \<times> 'a pbuf_st_scheme) res" where
  "pbuf_dechain st p =
     rbind (get_pbuf st p) (\<lambda>b.
       let q = pb_next b in
       if q \<noteq> 0 then
         rbind (upd_pbuf st q (\<lambda>c. c\<lparr>tot_len := tot_len b - pb_len b\<rparr>)) (\<lambda>st1.
         rbind (upd_pbuf st1 p (\<lambda>c. c\<lparr>pb_next := 0, tot_len := pb_len c\<rparr>)) (\<lambda>st2.
         rbind (pbuf_free st2 q) (\<lambda>(tail_gone, st3).
           Inr (if 0 < tail_gone then 0 else q, st3))))
       else Inr (0, st))"

section \<open>Contents\<close>

text \<open>\<^verbatim>\<open>MEMCPY\<close> of \<open>n\<close> bytes.\<close>

definition memcpy :: "memory \<Rightarrow> addr \<Rightarrow> addr \<Rightarrow> nat \<Rightarrow> memory res" where
  "memcpy m dst src n = rbind (rd_bytes m src n) (\<lambda>bs. wr_bytes m dst bs)"

text \<open>
  The loop of \<^verbatim>\<open>pbuf_copy\<close>. The offsets never exceed the lengths of the current pbufs, so the
  differences the code computes in \<^verbatim>\<open>int\<close> are natural numbers.
\<close>

primrec pbuf_copy_loop ::
  "nat \<Rightarrow> 'a pbuf_st_scheme \<Rightarrow> addr \<Rightarrow> nat \<Rightarrow> addr \<Rightarrow> nat \<Rightarrow> (err_t \<times> 'a pbuf_st_scheme) res" where
  "pbuf_copy_loop 0 st p_to offset_to p_from offset_from = Inl Out_of_fuel"
| "pbuf_copy_loop (Suc fuel) st p_to offset_to p_from offset_from =
     rbind (get_pbuf st p_to) (\<lambda>t. rbind (get_pbuf st p_from) (\<lambda>f.
       let len = (if unat (pb_len f) - offset_from \<le> unat (pb_len t) - offset_to
                  then unat (pb_len f) - offset_from else unat (pb_len t) - offset_to)
       in rbind (memcpy (bytes st) (payload t + offset_to) (payload f + offset_from) len) (\<lambda>m'.
         let st1 = st\<lparr>bytes := m'\<rparr>;
             to1 = offset_to + len; from1 = offset_from + len;
             (p_from', from2) = (if unat (pb_len f) \<le> from1 then (pb_next f, 0) else (p_from, from1));
             (p_to', to2) = (if to1 = unat (pb_len t) then (pb_next t, 0) else (p_to, to1))
         in if to1 = unat (pb_len t) \<and> p_to' = 0 \<and> p_from' \<noteq> 0 then Inr (ERR_ARG, st1)
            else
              rbind (if p_from' \<noteq> 0 then
                       rbind (get_pbuf st1 p_from') (\<lambda>b. Inr (pb_len b = tot_len b \<and> pb_next b \<noteq> 0))
                     else Inr False) (\<lambda>queue_from.
              if queue_from then Inr (ERR_VAL, st1)
              else
                rbind (if p_to' \<noteq> 0 then
                         rbind (get_pbuf st1 p_to') (\<lambda>b. Inr (pb_len b = tot_len b \<and> pb_next b \<noteq> 0))
                       else Inr False) (\<lambda>queue_to.
                if queue_to then Inr (ERR_VAL, st1)
                else if p_from' = 0 then Inr (ERR_OK, st1)
                else pbuf_copy_loop fuel st1 p_to' to2 p_from' from2)))))"

text \<open>Every round of the loop leaves a pbuf of one of the two chains behind.\<close>

definition pbuf_copy :: "'a pbuf_st_scheme \<Rightarrow> addr \<Rightarrow> addr \<Rightarrow> (err_t \<times> 'a pbuf_st_scheme) res" where
  "pbuf_copy st p_to p_from =
     (if p_to = 0 \<or> p_from = 0 then Inr (ERR_ARG, st)
      else rbind (get_pbuf st p_to) (\<lambda>t. rbind (get_pbuf st p_from) (\<lambda>f.
        if tot_len t < tot_len f then Inr (ERR_ARG, st)
        else pbuf_copy_loop (2 * chain_fuel) st p_to 0 p_from 0)))"

text \<open>
  The loop of \<^verbatim>\<open>pbuf_copy_partial\<close>: \<open>left\<close> bytes have been copied, \<open>len\<close> remain. All counters
  stay within the 16-bit arguments, so they are naturals.
\<close>

primrec copy_partial_loop ::
  "nat \<Rightarrow> 'a pbuf_st_scheme \<Rightarrow> addr \<Rightarrow> addr \<Rightarrow> nat \<Rightarrow> nat \<Rightarrow> nat \<Rightarrow> (nat \<times> 'a pbuf_st_scheme) res" where
  "copy_partial_loop 0 st p dataptr left len offset =
     (if len = 0 \<or> p = 0 then Inr (left, st) else Inl Out_of_fuel)"
| "copy_partial_loop (Suc fuel) st p dataptr left len offset =
     (if len = 0 \<or> p = 0 then Inr (left, st)
      else rbind (get_pbuf st p) (\<lambda>b.
        if offset \<noteq> 0 \<and> unat (pb_len b) \<le> offset then
          copy_partial_loop fuel st (pb_next b) dataptr left len (offset - unat (pb_len b))
        else
          let buf_copy_len = min (unat (pb_len b) - offset) len in
          rbind (memcpy (bytes st) (dataptr + left) (payload b + offset) buf_copy_len) (\<lambda>m'.
            copy_partial_loop fuel (st\<lparr>bytes := m'\<rparr>) (pb_next b) dataptr
              (left + buf_copy_len) (len - buf_copy_len) 0)))"

definition pbuf_copy_partial ::
  "'a pbuf_st_scheme \<Rightarrow> addr \<Rightarrow> addr \<Rightarrow> u16 \<Rightarrow> u16 \<Rightarrow> (nat \<times> 'a pbuf_st_scheme) res" where
  "pbuf_copy_partial st buf dataptr len offset =
     (if buf = 0 \<or> dataptr = 0 then Inr (0, st)
      else copy_partial_loop chain_fuel st buf dataptr 0 (unat len) (unat offset))"

primrec take_loop ::
  "nat \<Rightarrow> 'a pbuf_st_scheme \<Rightarrow> addr \<Rightarrow> addr \<Rightarrow> nat \<Rightarrow> nat \<Rightarrow> 'a pbuf_st_scheme res" where
  "take_loop 0 st p dataptr copied remaining = (if remaining = 0 then Inr st else Inl Out_of_fuel)"
| "take_loop (Suc fuel) st p dataptr copied remaining =
     (if remaining = 0 then Inr st
      else rbind (get_pbuf st p) (\<lambda>b.
        let buf_copy_len = min remaining (unat (pb_len b)) in
        rbind (memcpy (bytes st) (payload b) (dataptr + copied) buf_copy_len) (\<lambda>m'.
          take_loop fuel (st\<lparr>bytes := m'\<rparr>) (pb_next b) dataptr (copied + buf_copy_len) (remaining - buf_copy_len))))"

definition pbuf_take :: "'a pbuf_st_scheme \<Rightarrow> addr \<Rightarrow> addr \<Rightarrow> u16 \<Rightarrow> (err_t \<times> 'a pbuf_st_scheme) res" where
  "pbuf_take st buf dataptr len =
     (if buf = 0 \<or> dataptr = 0 then Inr (ERR_OK, st)
      else rbind (get_pbuf st buf) (\<lambda>b.
        if tot_len b < len then Inr (ERR_ARG, st)
        else rbind (take_loop chain_fuel st buf dataptr 0 (unat len)) (\<lambda>st'. Inr (ERR_OK, st'))))"

definition pbuf_coalesce :: "'a pbuf_st_scheme \<Rightarrow> addr \<Rightarrow> pbuf_layer \<Rightarrow> (addr \<times> 'a pbuf_st_scheme) res" where
  "pbuf_coalesce st p layer =
     rbind (get_pbuf st p) (\<lambda>b.
       if pb_next b = 0 then Inr (p, st)
       else rbind (pbuf_alloc st layer (tot_len b) PBUF_RAM) (\<lambda>(q, st1).
         if q = 0 then Inr (p, st1)
         else rbind (pbuf_copy st1 q p) (\<lambda>(err, st2).
              rbind (pbuf_free st2 p) (\<lambda>(_, st3). Inr (q, st3)))))"

section \<open>Searching\<close>

text \<open>The walk to the pbuf that holds an offset, with the offset inside it.\<close>

primrec seek :: "nat \<Rightarrow> 'a pbuf_st_scheme \<Rightarrow> addr \<Rightarrow> u16 \<Rightarrow> (addr \<times> u16) res" where
  "seek 0 st q off = (if q = 0 then Inr (q, off) else Inl Out_of_fuel)"
| "seek (Suc fuel) st q off =
     (if q = 0 then Inr (0, off)
      else rbind (get_pbuf st q) (\<lambda>b.
        if pb_len b \<le> off then seek fuel st (pb_next b) (off - pb_len b) else Inr (q, off)))"

definition pbuf_get_at :: "'a pbuf_st_scheme \<Rightarrow> addr \<Rightarrow> u16 \<Rightarrow> u8 res" where
  "pbuf_get_at st p offset =
     rbind (seek chain_fuel st p offset) (\<lambda>(q, copy_from).
       if q = 0 then Inr 0
       else rbind (get_pbuf st q) (\<lambda>b. rd8 (bytes st) (payload b + unat copy_from)))"

text \<open>The comparison loop of \<^verbatim>\<open>pbuf_memcmp\<close>, from index \<open>i\<close> on, \<open>k\<close> bytes left.\<close>

fun memcmp_loop :: "'a pbuf_st_scheme \<Rightarrow> addr \<Rightarrow> u16 \<Rightarrow> addr \<Rightarrow> u16 \<Rightarrow> nat \<Rightarrow> u16 res" where
  "memcmp_loop st q start s2 i 0 = Inr 0"
| "memcmp_loop st q start s2 i (Suc k) =
     rbind (pbuf_get_at st q (start + i)) (\<lambda>a.
     rbind (rd8 (bytes st) (s2 + unat i)) (\<lambda>b.
       if a \<noteq> b then Inr (i + 1) else memcmp_loop st q start s2 (i + 1) k))"

definition pbuf_memcmp :: "'a pbuf_st_scheme \<Rightarrow> addr \<Rightarrow> u16 \<Rightarrow> addr \<Rightarrow> u16 \<Rightarrow> u16 res" where
  "pbuf_memcmp st p offset s2 n =
     rbind (seek chain_fuel st p offset) (\<lambda>(q, start).
       if q = 0 then Inr 0xFFFF else memcmp_loop st q start s2 0 (unat n))"

text \<open>
  The search loop of \<^verbatim>\<open>pbuf_memfind\<close>; \<open>max\<close> and \<open>i\<close> are 16-bit. The fuel bounds the number of
  positions tried.
\<close>

primrec memfind_loop :: "nat \<Rightarrow> 'a pbuf_st_scheme \<Rightarrow> addr \<Rightarrow> addr \<Rightarrow> u16 \<Rightarrow> u16 \<Rightarrow> u16 \<Rightarrow> u16 res" where
  "memfind_loop 0 st p m mem_len mx i = Inl Out_of_fuel"
| "memfind_loop (Suc fuel) st p m mem_len mx i =
     (if i \<le> mx then
        rbind (pbuf_memcmp st p i m mem_len) (\<lambda>plus.
          if plus = 0 then Inr i else memfind_loop fuel st p m mem_len mx (i + plus))
      else Inr 0xFFFF)"

definition pbuf_memfind :: "'a pbuf_st_scheme \<Rightarrow> addr \<Rightarrow> addr \<Rightarrow> u16 \<Rightarrow> u16 \<Rightarrow> u16 res" where
  "pbuf_memfind st p m mem_len start_offset =
     rbind (get_pbuf st p) (\<lambda>b.
       let mx = tot_len b - mem_len in
       if unat mem_len + unat start_offset \<le> unat (tot_len b)
       then memfind_loop 65537 st p m mem_len mx start_offset
       else Inr 0xFFFF)"

section \<open>Chains in the store\<close>

text \<open>\<open>pchain h p xs\<close>: following \<open>pb_next\<close> from \<open>p\<close> visits the pbufs \<open>xs\<close> and ends in \<^verbatim>\<open>NULL\<close>.\<close>

fun pchain :: "(addr \<rightharpoonup> pbuf) \<Rightarrow> addr \<Rightarrow> addr list \<Rightarrow> bool" where
  "pchain h p [] = (p = 0)"
| "pchain h p (x # xs) =
     (p = x \<and> x \<noteq> 0 \<and> (case h x of None \<Rightarrow> False | Some b \<Rightarrow> pchain h (pb_next b) xs))"

definition pref :: "(addr \<rightharpoonup> pbuf) \<Rightarrow> addr \<Rightarrow> u16" where
  "pref h x = (case h x of None \<Rightarrow> 0 | Some b \<Rightarrow> pb_ref b)"

definition plen :: "(addr \<rightharpoonup> pbuf) \<Rightarrow> addr \<Rightarrow> nat" where
  "plen h x = (case h x of None \<Rightarrow> 0 | Some b \<Rightarrow> unat (pb_len b))"

definition plens :: "(addr \<rightharpoonup> pbuf) \<Rightarrow> addr list \<Rightarrow> nat" where
  "plens h xs = sum_list (map (plen h) xs)"

text \<open>The invariant documented in \<^verbatim>\<open>pbuf.h\<close>: \<open>tot_len\<close> is the length of the rest of the chain.\<close>

fun tot_ok :: "(addr \<rightharpoonup> pbuf) \<Rightarrow> addr list \<Rightarrow> bool" where
  "tot_ok h [] = True"
| "tot_ok h (x # xs) =
     ((case h x of None \<Rightarrow> False | Some b \<Rightarrow> unat (tot_len b) = plens h (x # xs)) \<and> tot_ok h xs)"

lemma pchain_Cons_iff:
  "pchain h p (x # xs) \<longleftrightarrow> p = x \<and> x \<noteq> 0 \<and> (\<exists>b. h x = Some b \<and> pchain h (pb_next b) xs)"
  by (auto split: option.splits)

lemma pchain_cong: "(\<And>x. x \<in> set xs \<Longrightarrow> h x = h' x) \<Longrightarrow> pchain h p xs = pchain h' p xs"
  by (induction xs arbitrary: p) (auto split: option.splits)

lemma pchain_upd [simp]: "x \<notin> set xs \<Longrightarrow> pchain (h(x := v)) p xs = pchain h p xs"
  by (rule pchain_cong) auto

lemma pchain_alloc: "pchain h p xs \<Longrightarrow> x \<in> set xs \<Longrightarrow> x \<noteq> 0 \<and> h x \<noteq> None"
proof (induction xs arbitrary: p)
  case (Cons y ys)
  from Cons.prems(1) obtain b where b: "y \<noteq> 0" "h y = Some b" "pchain h (pb_next b) ys"
    unfolding pchain_Cons_iff by blast
  from Cons.prems(2) consider "x = y" | "x \<in> set ys" by auto
  then show ?case using b Cons.IH by cases auto
qed simp

lemma pchain_nil_iff: "pchain h p xs \<Longrightarrow> (p = 0 \<longleftrightarrow> xs = [])"
  by (cases xs) auto

lemma get_pbuf_Some [res_simps]: "p \<noteq> 0 \<Longrightarrow> pbufs st p = Some b \<Longrightarrow> get_pbuf st p = Inr b"
  by (simp add: get_pbuf_def)

lemma put_pbuf_simps [simp]:
  "pbufs (put_pbuf st p b) = (pbufs st)(p \<mapsto> b)"
  "bytes (put_pbuf st p b) = bytes st"
  "pools (put_pbuf st p b) = pools st"
  "mheap (put_pbuf st p b) = mheap st"
  "custom_freed (put_pbuf st p b) = custom_freed st"
  by (simp_all add: put_pbuf_def)

lemma pbuf_release_simps [simp]:
  "pbufs (pbuf_release st p b) = (pbufs st)(p := None)"
  "bytes (pbuf_release st p b) = bytes st"
  by (simp_all add: pbuf_release_def Let_def split: pbuf_type.split)

section \<open>Freeing a chain\<close>

lemma pbuf_free_loop_spec:
  assumes "pchain (pbufs st) p xs" "distinct xs" "length xs \<le> fuel"
  defines "ys \<equiv> takeWhile (\<lambda>x. pref (pbufs st) x = 1) xs"
  shows "\<exists>st'. pbuf_free_loop fuel st p c = Inr (c + of_nat (length ys), st')
      \<and> bytes st' = bytes st
      \<and> (\<forall>x \<in> set ys. pbufs st' x = None)
      \<and> (\<forall>z zs b. xs = ys @ z # zs \<longrightarrow> pbufs st z = Some b \<longrightarrow>
            pbufs st' z = Some (b\<lparr>pb_ref := pb_ref b - 1\<rparr>))
      \<and> (\<forall>x. x \<notin> set ys \<longrightarrow> (\<forall>z zs. xs = ys @ z # zs \<longrightarrow> x \<noteq> z) \<longrightarrow> pbufs st' x = pbufs st x)"
  using assms(1-3) unfolding ys_def
proof (induction fuel arbitrary: st p xs c)
  case 0
  then show ?case by simp
next
  case (Suc fuel)
  show ?case
  proof (cases xs)
    case Nil
    with Suc.prems(1) show ?thesis by simp
  next
    case (Cons x xr)
    with Suc.prems(1) obtain b where p: "p = x" "x \<noteq> 0" and b: "pbufs st x = Some b"
      and ch: "pchain (pbufs st) (pb_next b) xr"
      unfolding Cons pchain_Cons_iff by blast
    have xn: "x \<notin> set xr" "distinct xr" using Suc.prems(2) Cons by auto
    show ?thesis
    proof (cases "pb_ref b = 1")
      case False
      have r: "pb_ref b - 1 \<noteq> 0" using False by simp
      have tw: "takeWhile (\<lambda>x. pref (pbufs st) x = 1) xs = []"
        using False b by (simp add: Cons pref_def)
      have "pbuf_free_loop (Suc fuel) st p c = Inr (c, put_pbuf st x (b\<lparr>pb_ref := pb_ref b - 1\<rparr>))"
        using p b r by (simp add: res_simps Let_def)
      then show ?thesis unfolding tw using b Cons by simp
    next
      case True
      let ?st = "pbuf_release (put_pbuf st x (b\<lparr>pb_ref := 0\<rparr>)) x (b\<lparr>pb_ref := 0\<rparr>)"
      have h: "pbufs ?st = (pbufs st)(x := None)" by simp
      have ch': "pchain (pbufs ?st) (pb_next b) xr"
        using ch xn(1) by (simp add: h)
      have tw: "takeWhile (\<lambda>x. pref (pbufs st) x = 1) xs
          = x # takeWhile (\<lambda>x. pref (pbufs ?st) x = 1) xr"
        using True b xn(1) by (auto simp: Cons pref_def h intro!: takeWhile_cong)
      let ?ys = "takeWhile (\<lambda>x. pref (pbufs ?st) x = 1) xr"
      have ys: "set ?ys \<subseteq> set xr" by (meson set_takeWhileD subsetI)
      have e: "pbuf_free_loop (Suc fuel) st p c = pbuf_free_loop fuel ?st (pb_next b) (c + 1)"
        using p b True by (simp add: res_simps Let_def)
      have "length xr \<le> fuel" using Suc.prems(3) Cons by simp
      from Suc.IH [OF ch' xn(2) this, of "c + 1"] obtain st' where
        1: "pbuf_free_loop fuel ?st (pb_next b) (c + 1) = Inr (c + 1 + of_nat (length ?ys), st')"
        and 2: "bytes st' = bytes ?st" "\<forall>x \<in> set ?ys. pbufs st' x = None"
        and 3: "\<forall>z zs b. xr = ?ys @ z # zs \<longrightarrow> pbufs ?st z = Some b \<longrightarrow>
            pbufs st' z = Some (b\<lparr>pb_ref := pb_ref b - 1\<rparr>)"
        and 4: "\<forall>x. x \<notin> set ?ys \<longrightarrow> (\<forall>z zs. xr = ?ys @ z # zs \<longrightarrow> x \<noteq> z) \<longrightarrow> pbufs st' x = pbufs ?st x"
        by blast
      have fx: "pbufs st' x = None"
      proof -
        have "x \<notin> set ?ys" using ys xn(1) by blast
        moreover have "\<forall>z zs. xr = ?ys @ z # zs \<longrightarrow> x \<noteq> z"
          using xn(1) by (metis in_set_conv_decomp)
        ultimately show ?thesis using 4 by (simp add: h)
      qed
      show ?thesis unfolding tw e
      proof (intro exI [of _ st'] conjI)
        show "pbuf_free_loop fuel ?st (pb_next b) (c + 1) = Inr (c + of_nat (length (x # ?ys)), st')"
          using 1 by (simp add: algebra_simps)
        show "bytes st' = bytes st" using 2 by simp
        show "\<forall>y \<in> set (x # ?ys). pbufs st' y = None" using 2 fx by simp
        show "\<forall>z zs c. xs = (x # ?ys) @ z # zs \<longrightarrow> pbufs st z = Some c \<longrightarrow>
            pbufs st' z = Some (c\<lparr>pb_ref := pb_ref c - 1\<rparr>)"
        proof (intro allI impI)
          fix z zs c assume a: "xs = (x # ?ys) @ z # zs" "pbufs st z = Some c"
          then have xr: "xr = ?ys @ z # zs" using Cons by simp
          have "z \<in> set xr" by (subst xr) simp
          with xn(1) have "z \<noteq> x" by blast
          with a(2) have "pbufs ?st z = Some c" by (simp add: h)
          with 3 xr show "pbufs st' z = Some (c\<lparr>pb_ref := pb_ref c - 1\<rparr>)" by blast
        qed
        show "\<forall>y. y \<notin> set (x # ?ys) \<longrightarrow> (\<forall>z zs. xs = (x # ?ys) @ z # zs \<longrightarrow> y \<noteq> z) \<longrightarrow>
            pbufs st' y = pbufs st y"
          using 4 Cons by (simp add: h)
      qed
    qed
  qed
qed

section \<open>The bytes of a chain\<close>

text \<open>\<open>chain_data m h xs bs\<close>: the payloads of the pbufs \<open>xs\<close>, one after the other, are \<open>bs\<close>.\<close>

fun chain_data :: "memory \<Rightarrow> (addr \<rightharpoonup> pbuf) \<Rightarrow> addr list \<Rightarrow> u8 list \<Rightarrow> bool" where
  "chain_data m h [] bs = (bs = [])"
| "chain_data m h (x # xs) bs =
     (case h x of None \<Rightarrow> False | Some b \<Rightarrow>
        unat (pb_len b) \<le> length bs \<and> holds m (payload b) (take (unat (pb_len b)) bs) \<and>
        chain_data m h xs (drop (unat (pb_len b)) bs))"

text \<open>The bytes \<open>[a, a + n)\<close> overlap no payload of the chain.\<close>

definition off_chain :: "(addr \<rightharpoonup> pbuf) \<Rightarrow> addr list \<Rightarrow> addr \<Rightarrow> nat \<Rightarrow> bool" where
  "off_chain h xs a n \<longleftrightarrow>
     (\<forall>x \<in> set xs. case h x of None \<Rightarrow> True
        | Some b \<Rightarrow> payload b + unat (pb_len b) \<le> a \<or> a + n \<le> payload b)"

lemma off_chain_Cons:
  "off_chain h (x # xs) a n \<longleftrightarrow>
     (case h x of None \<Rightarrow> True | Some b \<Rightarrow> payload b + unat (pb_len b) \<le> a \<or> a + n \<le> payload b)
     \<and> off_chain h xs a n"
  by (simp add: off_chain_def)

lemma off_chain_sub: "off_chain h xs a n \<Longrightarrow> a \<le> a' \<Longrightarrow> a' + n' \<le> a + n \<Longrightarrow> off_chain h xs a' n'"
  by (fastforce simp: off_chain_def split: option.splits)

lemma holds_frame:
  "holds m a bs \<Longrightarrow> (\<And>c. a \<le> c \<Longrightarrow> c < a + length bs \<Longrightarrow> m' c = m c) \<Longrightarrow> holds m' a bs"
  by (simp add: holds_iff_nth)

lemma chain_data_frame:
  assumes "chain_data m h xs bs" "off_chain h xs a n" "\<forall>c. c < a \<or> a + n \<le> c \<longrightarrow> m' c = m c"
  shows "chain_data m' h xs bs"
  using assms(1,2)
proof (induction xs arbitrary: bs)
  case (Cons x xs)
  then obtain b where b: "h x = Some b" by (auto split: option.splits)
  with Cons.prems have d: "unat (pb_len b) \<le> length bs" "holds m (payload b) (take (unat (pb_len b)) bs)"
    "chain_data m h xs (drop (unat (pb_len b)) bs)"
    and o: "payload b + unat (pb_len b) \<le> a \<or> a + n \<le> payload b" "off_chain h xs a n"
    by (simp_all add: off_chain_Cons)
  have fr: "c < a \<Longrightarrow> m' c = m c" "a + n \<le> c \<Longrightarrow> m' c = m c" for c
    using assms(3) by simp_all
  have "holds m' (payload b) (take (unat (pb_len b)) bs)"
    using d(2) by (rule holds_frame) (use fr o(1) in auto)
  with d(1) b Cons.IH [OF d(3) o(2)] show ?case by simp
qed simp

lemma chain_data_length: "chain_data m h xs bs \<Longrightarrow> length bs = plens h xs"
  by (induction xs arbitrary: bs) (force simp: plens_def plen_def split: option.splits)+

lemma memcpy_spec:
  assumes "holds m src bs" "length bs = n" "{dst ..< dst + n} \<subseteq> dom m"
  shows "\<exists>m'. memcpy m dst src n = Inr m' \<and> holds m' dst bs \<and> dom m' = dom m
            \<and> (\<forall>c. c < dst \<or> dst + n \<le> c \<longrightarrow> m' c = m c)"
proof -
  from wr_bytes_total [of dst bs m] assms obtain m' where w: "wr_bytes m dst bs = Inr m'" by auto
  have "memcpy m dst src n = Inr m'"
    using assms(1,2) w rd_bytes_holds [OF assms(1)] by (simp add: memcpy_def)
  with wr_bytes_Inr [OF w] assms(2) show ?thesis by auto
qed

section \<open>Copying out of a chain\<close>

lemma copy_partial_loop_spec:
  assumes "pchain (pbufs st) p xs" "chain_data (bytes st) (pbufs st) xs bs"
    "off_chain (pbufs st) xs (dst + left) len" "{dst + left ..< dst + left + len} \<subseteq> dom (bytes st)"
    "length xs \<le> fuel"
  shows "\<exists>m'. copy_partial_loop fuel st p dst left len offset =
            Inr (left + length (take len (drop offset bs)), st\<lparr>bytes := m'\<rparr>)
        \<and> holds m' (dst + left) (take len (drop offset bs)) \<and> dom m' = dom (bytes st)
        \<and> (\<forall>c. c < dst + left \<or> dst + left + len \<le> c \<longrightarrow> m' c = bytes st c)"
  using assms
proof (induction fuel arbitrary: st p xs bs left len offset)
  case 0
  then have "p = 0" "bs = []" by auto
  then show ?case by (intro exI [of _ "bytes st"]) simp
next
  case (Suc fuel)
  show ?case
  proof (cases "len = 0 \<or> xs = []")
    case True
    then have "len = 0 \<or> (p = 0 \<and> bs = [])" using Suc.prems(1,2) by auto
    then show ?thesis by (intro exI [of _ "bytes st"]) auto
  next
    case False
    then obtain x xr where xs: "xs = x # xr" and l: "len \<noteq> 0" by (cases xs) auto
    from Suc.prems(1) obtain b where p: "p = x" "x \<noteq> 0" and b: "pbufs st x = Some b"
      and ch: "pchain (pbufs st) (pb_next b) xr" unfolding xs pchain_Cons_iff by blast
    let ?n = "unat (pb_len b)"
    have d: "?n \<le> length bs" "holds (bytes st) (payload b) (take ?n bs)"
      "chain_data (bytes st) (pbufs st) xr (drop ?n bs)"
      and o: "payload b + ?n \<le> dst + left \<or> dst + left + len \<le> payload b"
        "off_chain (pbufs st) xr (dst + left) len"
      using Suc.prems(2,3) b by (simp_all add: xs off_chain_Cons)
    have fl: "length xr \<le> fuel" using Suc.prems(5) xs by simp
    show ?thesis
    proof (cases "offset \<noteq> 0 \<and> ?n \<le> offset")
      case True
      from Suc.IH [OF ch d(3) o(2) Suc.prems(4) fl, of "offset - ?n"] True
      show ?thesis using p b l by (simp add: res_simps)
    next
      case False
      define k where "k = min (?n - offset) len"
      define chunk where "chunk = take k (drop offset bs)"
      have off: "offset \<le> ?n" using False by auto
      have ck: "length chunk = k" using d(1) off by (simp add: chunk_def k_def)
      have "holds (bytes st) (payload b + offset) (drop offset (take ?n bs))"
        using holds_drop [OF d(2), of offset] off d(1) by simp
      then have hc: "holds (bytes st) (payload b + offset) chunk"
        using holds_take [of "bytes st" "payload b + offset" "drop offset (take ?n bs)" k]
        by (simp add: chunk_def drop_take k_def min.commute)
      have dm: "{dst + left ..< dst + left + k} \<subseteq> dom (bytes st)"
        by (rule subset_trans [OF _ Suc.prems(4)]) (auto simp: k_def)
      from memcpy_spec [OF hc ck dm] obtain m1 where
        m1: "memcpy (bytes st) (dst + left) (payload b + offset) k = Inr m1"
        "holds m1 (dst + left) chunk" "dom m1 = dom (bytes st)"
        "\<forall>c. c < dst + left \<or> dst + left + k \<le> c \<longrightarrow> m1 c = bytes st c" by blast
      let ?st = "st\<lparr>bytes := m1\<rparr>"
      have kl: "k \<le> len" by (simp add: k_def)
      have cd: "chain_data (bytes ?st) (pbufs ?st) xr (drop ?n bs)"
        using chain_data_frame [OF d(3) off_chain_sub [OF o(2), of "dst + left" k] m1(4)] kl by simp
      have oc: "off_chain (pbufs ?st) xr (dst + (left + k)) (len - k)"
        using off_chain_sub [OF o(2), of "dst + (left + k)" "len - k"] kl by simp
      have dm2: "{dst + (left + k) ..< dst + (left + k) + (len - k)} \<subseteq> dom (bytes ?st)"
      proof -
        have "{dst + (left + k) ..< dst + (left + k) + (len - k)} \<subseteq> {dst + left ..< dst + left + len}"
          using kl by auto
        also note Suc.prems(4)
        finally show ?thesis by (simp add: m1(3))
      qed
      have ch': "pchain (pbufs ?st) (pb_next b) xr" using ch by simp
      from Suc.IH [OF ch' cd oc dm2 fl, of 0] obtain m2 where
        m2: "copy_partial_loop fuel ?st (pb_next b) dst (left + k) (len - k) 0 =
               Inr (left + k + length (take (len - k) (drop ?n bs)), ?st\<lparr>bytes := m2\<rparr>)"
        "holds m2 (dst + (left + k)) (take (len - k) (drop ?n bs))" "dom m2 = dom m1"
        "\<forall>c. c < dst + (left + k) \<or> dst + (left + k) + (len - k) \<le> c \<longrightarrow> m2 c = m1 c"
        by auto
      have split: "take len (drop offset bs) = chunk @ take (len - k) (drop ?n bs)"
      proof (cases "len \<le> ?n - offset")
        case True
        then show ?thesis by (simp add: chunk_def k_def)
      next
        case False
        then have "k = ?n - offset" by (simp add: k_def)
        then have "drop ?n bs = drop k (drop offset bs)" using off by (simp add: add.commute)
        then show ?thesis using kl by (metis chunk_def le_add_diff_inverse take_add)
      qed
      have "copy_partial_loop (Suc fuel) st p dst left len offset =
          copy_partial_loop fuel ?st (pb_next b) dst (left + k) (len - k) 0"
        using p b l False m1(1) by (auto simp: res_simps Let_def k_def)
      moreover have "holds m2 (dst + left) chunk"
        using m1(2) by (rule holds_frame) (use m2(4) ck in auto)
      ultimately show ?thesis
        using m2 ck m1(3,4) kl
        by (intro exI [of _ m2]) (auto simp: split holds_append add.assoc)
    qed
  qed
qed

section \<open>Reading one byte\<close>

lemma seek_spec:
  assumes "pchain (pbufs st) p xs" "chain_data (bytes st) (pbufs st) xs bs" "length xs \<le> fuel"
  shows "if unat off < length bs
         then \<exists>q o' b. seek fuel st p off = Inr (q, o') \<and> q \<noteq> 0 \<and> pbufs st q = Some b
                \<and> bytes st (payload b + unat o') = Some (bs ! unat off)
         else \<exists>o'. seek fuel st p off = Inr (0, o')"
  using assms
proof (induction fuel arbitrary: p xs bs off)
  case 0
  then show ?case by simp
next
  case (Suc fuel)
  show ?case
  proof (cases xs)
    case Nil
    with Suc.prems show ?thesis by simp
  next
    case (Cons x xr)
    with Suc.prems(1) obtain b where p: "p = x" "x \<noteq> 0" and b: "pbufs st x = Some b"
      and ch: "pchain (pbufs st) (pb_next b) xr" unfolding Cons pchain_Cons_iff by blast
    have d: "unat (pb_len b) \<le> length bs" "holds (bytes st) (payload b) (take (unat (pb_len b)) bs)"
      "chain_data (bytes st) (pbufs st) xr (drop (unat (pb_len b)) bs)"
      using Suc.prems(2) b by (simp_all add: Cons)
    have fl: "length xr \<le> fuel" using Suc.prems(3) Cons by simp
    show ?thesis
    proof (cases "pb_len b \<le> off")
      case True
      then have u: "unat (off - pb_len b) = unat off - unat (pb_len b)" "unat (pb_len b) \<le> unat off"
        by (simp_all add: unat_sub word_le_nat_alt)
      have e: "seek (Suc fuel) st p off = seek fuel st (pb_next b) (off - pb_len b)"
        using p b True by (simp add: res_simps)
      from Suc.IH [OF ch d(3) fl, of "off - pb_len b"] show ?thesis
        unfolding e using u d(1) by (auto simp: less_diff_conv split: if_splits)
    next
      case False
      then have lt: "unat off < unat (pb_len b)" by (simp add: word_le_nat_alt not_le)
      have e: "seek (Suc fuel) st p off = Inr (p, off)" using p b False by (simp add: res_simps)
      have "bytes st (payload b + unat off) = Some (take (unat (pb_len b)) bs ! unat off)"
        by (rule holds_nth [OF d(2)]) (use lt d(1) in simp)
      with lt d(1) b p e show ?thesis by auto
    qed
  qed
qed

lemma pbuf_get_at_nth:
  assumes "pchain (pbufs st) p xs" "chain_data (bytes st) (pbufs st) xs bs" "length xs \<le> chain_fuel"
  shows "pbuf_get_at st p off = Inr (if unat off < length bs then bs ! unat off else 0)"
  using seek_spec [OF assms, of off]
  by (auto simp: pbuf_get_at_def res_simps mem_simps split: if_splits)

section \<open>Moving the payload pointer\<close>

lemma unat_add_sint:
  assumes "0 \<le> int (unat l) + sint inc" "int (unat l) + sint inc < 65536"
  shows "int (unat ((l :: u16) + inc)) = int (unat l) + sint inc"
proof -
  have "uint (l + inc) = (uint l + uint inc) mod 65536" by (simp add: uint_word_ariths)
  also have "\<dots> = (uint l + sint inc) mod 65536"
  proof -
    have "uint inc mod 65536 = sint inc mod 65536"
      using uint_sint [of inc] by (simp add: take_bit_eq_mod)
    then show ?thesis by (metis mod_add_right_eq)
  qed
  also have "\<dots> = uint l + sint inc" using assms by simp
  finally show ?thesis by simp
qed

lemma sint_neg_u16: "sint (inc :: u16) \<noteq> - 32768 \<Longrightarrow> sint (- inc) = - sint inc"
proof -
  assume a: "sint inc \<noteq> - 32768"
  have r: "- 32768 \<le> sint inc" "sint inc < 32768"
    using sint_ge [of inc] sint_lt [of inc] by simp_all
  have "sint (- inc) = signed_take_bit 15 (- sint inc)"
    using signed_take_bit_minus [of 15 "sint inc"] by (simp add: sint_word_ariths)
  also have "\<dots> = - sint inc" using r a by (intro signed_take_bit_int_eq_self) auto
  finally show ?thesis .
qed

lemma unat_mag:
  "sint (inc :: u16) < 0 \<Longrightarrow> int (unat (- inc)) = - sint inc"
  "0 \<le> sint inc \<Longrightarrow> int (unat inc) = sint inc"
proof -
  assume n: "sint inc < 0"
  have "int (unat ((0 :: u16) + - inc)) = - sint inc"
  proof (cases "sint inc = - 32768")
    case True
    have "sint (- 32768 :: u16) = - 32768" by simp
    with True have "inc = - 32768" by (intro signed_word_eqI) (rule trans, assumption, rule sym)
    then show ?thesis by simp
  next
    case False
    with n sint_neg_u16 [OF False] sint_ge [of inc] show ?thesis
      by (subst unat_add_sint) auto
  qed
  then show "int (unat (- inc)) = - sint inc" by simp
next
  assume "0 \<le> sint inc"
  with sint_lt [of inc] have "int (unat ((0 :: u16) + inc)) = sint inc"
    by (subst unat_add_sint) auto
  then show "int (unat inc) = sint inc" by simp
qed

section \<open>Concatenation\<close>

lemma cat_walk_spec:
  assumes "pchain (pbufs st) p xs" "xs \<noteq> []" "distinct xs" "t \<notin> set xs" "t \<noteq> 0"
    "pbufs st t = Some tb" "length xs \<le> fuel"
  shows "cat_walk fuel st t p = Inr (last xs, st\<lparr>pbufs := (\<lambda>x. if x \<in> set (butlast xs)
      then map_option (\<lambda>b. b\<lparr>tot_len := tot_len b + tot_len tb\<rparr>) (pbufs st x) else pbufs st x)\<rparr>)"
  using assms
proof (induction fuel arbitrary: st p xs)
  case 0
  then show ?case by simp
next
  case (Suc fuel)
  then obtain x xr where xs: "xs = x # xr" by (cases xs) auto
  with Suc.prems(1) obtain b where p: "p = x" "x \<noteq> 0" and b: "pbufs st x = Some b"
    and ch: "pchain (pbufs st) (pb_next b) xr" unfolding xs pchain_Cons_iff by blast
  show ?case
  proof (cases "xr = []")
    case True
    with ch have "pb_next b = 0" by simp
    with p b True show ?thesis by (simp add: xs res_simps)
  next
    case False
    let ?st = "put_pbuf st x (b\<lparr>tot_len := tot_len b + tot_len tb\<rparr>)"
    have n: "pb_next b \<noteq> 0" using ch False by (simp add: pchain_nil_iff)
    have xn: "x \<notin> set xr" "distinct xr" "t \<noteq> x" "t \<notin> set xr" using Suc.prems(3,4) xs by auto
    have ch': "pchain (pbufs ?st) (pb_next b) xr" using ch xn(1) by simp
    have "cat_walk (Suc fuel) st t p = cat_walk fuel ?st t (pb_next b)"
      using p b n Suc.prems(5,6) by (simp add: res_simps)
    also have "\<dots> = Inr (last xr, ?st\<lparr>pbufs := (\<lambda>y. if y \<in> set (butlast xr)
        then map_option (\<lambda>b. b\<lparr>tot_len := tot_len b + tot_len tb\<rparr>) (pbufs ?st y) else pbufs ?st y)\<rparr>)"
      by (rule Suc.IH [OF ch' False xn(2) xn(4) Suc.prems(5)]) (use xn Suc.prems(6,7) xs in auto)
    also have "(\<lambda>y. if y \<in> set (butlast xr)
        then map_option (\<lambda>b. b\<lparr>tot_len := tot_len b + tot_len tb\<rparr>) (pbufs ?st y) else pbufs ?st y)
      = (\<lambda>y. if y \<in> set (butlast xs)
        then map_option (\<lambda>b. b\<lparr>tot_len := tot_len b + tot_len tb\<rparr>) (pbufs st y) else pbufs st y)"
      using xn(1) b False by (auto simp: xs fun_eq_iff dest: in_set_butlastD)
    finally show ?thesis using False by (simp add: xs put_pbuf_def)
  qed
qed

text \<open>The pbuf \<open>x\<close> of the first chain after a concatenation with the chain at \<open>t\<close>.\<close>

definition cat_pbuf :: "addr \<Rightarrow> u16 \<Rightarrow> addr \<Rightarrow> addr \<Rightarrow> pbuf \<Rightarrow> pbuf" where
  "cat_pbuf l n t x b =
     b\<lparr>tot_len := tot_len b + n, pb_next := (if x = l then t else pb_next b)\<rparr>"

lemma pbuf_cat_spec:
  assumes "pchain (pbufs st) p xs" "xs \<noteq> []" "distinct xs" "t \<notin> set xs" "t \<noteq> 0"
    "pbufs st t = Some tb" "length xs \<le> chain_fuel"
  shows "pbuf_cat st p t = Inr (st\<lparr>pbufs := (\<lambda>x. if x \<in> set xs
      then map_option (cat_pbuf (last xs) (tot_len tb) t x) (pbufs st x) else pbufs st x)\<rparr>)"
proof -
  let ?h = "\<lambda>x. if x \<in> set (butlast xs)
      then map_option (\<lambda>b. b\<lparr>tot_len := tot_len b + tot_len tb\<rparr>) (pbufs st x) else pbufs st x"
  have p: "p \<noteq> 0" using assms(1,2) pchain_nil_iff by blast
  have l: "last xs \<in> set xs" "last xs \<notin> set (butlast xs)"
    using assms(2,3) by (simp, metis append_butlast_last_id distinct_append not_distinct_conv_prefix
        disjoint_insert(1) list.simps(15))
  obtain lb where lb: "pbufs st (last xs) = Some lb" "last xs \<noteq> 0"
    using pchain_alloc [OF assms(1) l(1)] by auto
  have t: "?h t = Some tb" using assms(4,6) by (auto dest: in_set_butlastD)
  have s: "set xs = insert (last xs) (set (butlast xs))"
    using assms(2) by (metis append_butlast_last_id set_append Un_insert_right list.simps(15) sup_bot_right list.set(1))
  have h: "?h(last xs \<mapsto> lb\<lparr>tot_len := tot_len lb + tot_len tb, pb_next := t\<rparr>) =
      (\<lambda>x. if x \<in> set xs then map_option (cat_pbuf (last xs) (tot_len tb) t x) (pbufs st x) else pbufs st x)"
    using l(2) lb by (auto simp: fun_eq_iff s cat_pbuf_def intro!: map_option_cong)
  show ?thesis
    using cat_walk_spec [OF assms] p assms(5) t l(2) lb
    by (simp add: pbuf_cat_def upd_pbuf_def res_simps put_pbuf_def h)
qed

lemma pchain_join:
  assumes "pchain h p xs" "xs \<noteq> []" "distinct xs" "pchain h' t ys"
    "\<forall>x \<in> set xs. h' x = map_option (cat_pbuf (last xs) n t x) (h x)"
  shows "pchain h' p (xs @ ys)"
  using assms
proof (induction xs arbitrary: p)
  case (Cons x xr)
  then obtain b where b: "p = x" "x \<noteq> 0" "h x = Some b" "pchain h (pb_next b) xr"
    unfolding pchain_Cons_iff by blast
  have h': "h' x = Some (cat_pbuf (last (x # xr)) n t x b)" using Cons.prems(5) b(3) by simp
  show ?case
  proof (cases "xr = []")
    case True
    then show ?thesis using b h' Cons.prems(4) by (simp add: cat_pbuf_def)
  next
    case False
    then have "x \<noteq> last xr" using Cons.prems(3) by (metis distinct.simps(2) last_in_set)
    moreover have "pchain h' (pb_next b) (xr @ ys)"
      using b(4) False Cons.prems(3,4,5) by (intro Cons.IH) auto
    ultimately show ?thesis using b h' False by (simp add: cat_pbuf_def)
  qed
qed simp

lemma plens_append: "plens h (xs @ ys) = plens h xs + plens h ys"
  by (simp add: plens_def)

lemma plens_cong: "(\<And>x. x \<in> set xs \<Longrightarrow> plen h x = plen h' x) \<Longrightarrow> plens h xs = plens h' xs"
  unfolding plens_def by (rule arg_cong [of _ _ sum_list], rule map_cong) auto

lemma tot_ok_cong: "(\<And>x. x \<in> set xs \<Longrightarrow> h x = h' x) \<Longrightarrow> tot_ok h xs = tot_ok h' xs"
proof (induction xs)
  case (Cons x xs)
  have "plens h (x # xs) = plens h' (x # xs)" by (rule plens_cong) (simp add: plen_def Cons.prems)
  with Cons show ?case by (simp split: option.splits)
qed simp

lemma chain_data_cong:
  "(\<And>x. x \<in> set xs \<Longrightarrow> h x = h' x) \<Longrightarrow> chain_data m h xs bs = chain_data m h' xs bs"
  by (induction xs arbitrary: bs) (auto split: option.splits)

lemma tot_ok_cat:
  assumes "tot_ok h xs" "tot_ok h' ys" "plens h xs + plens h' ys < 65536" "unat n = plens h' ys"
    "\<forall>x \<in> set xs. h' x = map_option (cat_pbuf l n t x) (h x)"
  shows "tot_ok h' (xs @ ys)"
  using assms
proof (induction xs)
  case (Cons x xr)
  then obtain b where b: "h x = Some b" "unat (tot_len b) = plens h (x # xr)" "tot_ok h xr"
    by (auto split: option.splits)
  have h': "h' x = Some (cat_pbuf l n t x b)" using Cons.prems(5) b(1) by simp
  have "plens h xr \<le> plens h (x # xr)" by (simp add: plens_def)
  then have "tot_ok h' (xr @ ys)"
    using b(3) Cons.prems by (intro Cons.IH) auto
  moreover have "plens h' (x # xr) = plens h (x # xr)"
    using Cons.prems(5) by (intro plens_cong) (auto simp: plen_def cat_pbuf_def split: option.splits)
  moreover have "unat (tot_len b + n) = plens h (x # xr) + plens h' ys"
    using Cons.prems(3,4) b(2) by (simp add: unat_word_ariths)
  ultimately show ?case
    using h' plens_append [of h' "x # xr" ys] by (simp add: cat_pbuf_def)
qed simp

lemma chain_data_cat:
  assumes "chain_data m h xs bs" "chain_data m h' ys cs"
    "\<forall>x \<in> set xs. h' x = map_option (cat_pbuf l n t x) (h x)"
  shows "chain_data m h' (xs @ ys) (bs @ cs)"
  using assms
proof (induction xs arbitrary: bs)
  case (Cons x xr)
  then obtain b where b: "h x = Some b" "unat (pb_len b) \<le> length bs"
    "holds m (payload b) (take (unat (pb_len b)) bs)" "chain_data m h xr (drop (unat (pb_len b)) bs)"
    by (auto split: option.splits)
  have h': "h' x = Some (cat_pbuf l n t x b)" using Cons.prems(3) b(1) by simp
  have "chain_data m h' (xr @ ys) (drop (unat (pb_len b)) bs @ cs)"
    using b(4) Cons.prems by (intro Cons.IH) auto
  with b(2,3) h' show ?case by (simp add: cat_pbuf_def)
qed simp

section \<open>Frame\<close>

text \<open>
  The operations on pbufs leave every field of an extended state alone: \<open>pbuf_st.more\<close> is what the
  records that extend \<open>pbuf_st\<close> add.
\<close>

lemma put_pbuf_more [simp]: "pbuf_st.more (put_pbuf st p b) = pbuf_st.more st"
  by (simp add: put_pbuf_def)

lemma pbuf_release_more [simp]: "pbuf_st.more (pbuf_release st p b) = pbuf_st.more st"
  by (simp add: pbuf_release_def Let_def split: pbuf_type.split)

lemma upd_pbuf_keeps [keeps]: "upd_pbuf st p f = Inr st' \<Longrightarrow> pbuf_st.more st' = pbuf_st.more st"
  by (auto simp: upd_pbuf_def rbind_eq_Inr)

lemma pbuf_free_loop_keeps [keeps]:
  "pbuf_free_loop fuel st p c = Inr (n, st') \<Longrightarrow> pbuf_st.more st' = pbuf_st.more st"
proof (induction fuel arbitrary: st p c)
  case 0
  then show ?case by (auto split: if_splits)
next
  case (Suc fuel)
  show ?case
  proof (cases "p = 0")
    case False
    with Suc.prems obtain b where b: "get_pbuf st p = Inr b" by (auto simp: rbind_eq_Inr)
    with Suc.prems False show ?thesis
      by (auto simp: Let_def split: if_splits dest!: Suc.IH)
  qed (use Suc.prems in auto)
qed

lemma pbuf_free_keeps [keeps]: "pbuf_free st p = Inr (n, st') \<Longrightarrow> pbuf_st.more st' = pbuf_st.more st"
  by (auto simp: pbuf_free_def split: if_splits dest: pbuf_free_loop_keeps)

lemma pool_tail_keeps [keeps]:
  "pool_tail p st r n = Inr (ok, st') \<Longrightarrow> pbuf_st.more st' = pbuf_st.more st"
proof (induction p st r n rule: pool_tail.induct)
  case (1 p st r n)
  show ?case
  proof (cases "n = 0")
    case False
    obtain q pools' where q: "memp_malloc (pools st) MEMP_PBUF_POOL = (q, pools')" by fastforce
    show ?thesis
    proof (cases "q = 0")
      case True
      from "1.prems" False True show ?thesis
        by (subst (asm) pool_tail.simps) (auto simp: q rbind_eq_Inr PBUF_POOL_IS_EMPTY_def dest!: pbuf_free_keeps)
    next
      case q0: False
      from "1.prems" False q0 obtain st1 where
        u: "upd_pbuf (st\<lparr>pools := pools'\<rparr>) r (\<lambda>b. b\<lparr>pb_next := q\<rparr>) = Inr st1" and
        rest: "pool_tail p (put_pbuf st1 q \<lparr>pb_next = 0, payload = q + SIZEOF_STRUCT_PBUF,
                 tot_len = of_nat n, pb_len = of_nat (min n PBUF_POOL_BUFSIZE_ALIGNED),
                 pb_type = PBUF_POOL, pb_flags = 0, pb_ref = 1\<rparr>) q (n - min n PBUF_POOL_BUFSIZE_ALIGNED) = Inr (ok, st')"
        by (subst (asm) pool_tail.simps) (auto simp: q rbind_eq_Inr)
      from "1.IH" [OF False q [symmetric] q0 u rest] upd_pbuf_keeps [OF u] show ?thesis by simp
    qed
  next
    case True
    with "1.prems" show ?thesis by (subst (asm) pool_tail.simps) simp
  qed
qed

lemma pbuf_alloc_keeps [keeps]: "pbuf_alloc st l n t = Inr (p, st') \<Longrightarrow> pbuf_st.more st' = pbuf_st.more st"
  by (auto simp: pbuf_alloc_def Let_def rbind_eq_Inr PBUF_POOL_IS_EMPTY_def
      split: pbuf_type.splits prod.splits if_splits option.splits dest!: pool_tail_keeps)

lemma pbuf_header_keeps [keeps]: "pbuf_header st p n = Inr (r, st') \<Longrightarrow> pbuf_st.more st' = pbuf_st.more st"
  by (auto simp: pbuf_header_def Let_def rbind_eq_Inr split: if_splits)

lemma pbuf_ref_keeps [keeps]: "pbuf_ref st p = Inr st' \<Longrightarrow> pbuf_st.more st' = pbuf_st.more st"
  by (auto simp: pbuf_ref_def split: if_splits dest: upd_pbuf_keeps)

lemma cat_walk_keeps: "cat_walk fuel st t p = Inr (q, st') \<Longrightarrow> pbuf_st.more st' = pbuf_st.more st"
  by (induction fuel arbitrary: st p) (auto simp: rbind_eq_Inr split: if_splits)

lemma pbuf_cat_keeps [keeps]: "pbuf_cat st h t = Inr st' \<Longrightarrow> pbuf_st.more st' = pbuf_st.more st"
  by (auto simp: pbuf_cat_def rbind_eq_Inr split: if_splits dest!: cat_walk_keeps upd_pbuf_keeps)

lemma copy_partial_loop_keeps:
  "copy_partial_loop fuel st p d l n off = Inr (r, st') \<Longrightarrow> pbuf_st.more st' = pbuf_st.more st"
  by (induction fuel arbitrary: st p l n off) (auto simp: rbind_eq_Inr Let_def split: if_splits)

lemma pbuf_copy_partial_keeps [keeps]:
  "pbuf_copy_partial st p d n off = Inr (r, st') \<Longrightarrow> pbuf_st.more st' = pbuf_st.more st"
  by (auto simp: pbuf_copy_partial_def split: if_splits dest: copy_partial_loop_keeps)

section \<open>Properties\<close>

text \<open>A state with the given memory and pbufs and empty pools, for the concrete instances.\<close>

definition sample_st :: "memory \<Rightarrow> (addr \<rightharpoonup> pbuf) \<Rightarrow> pbuf_st" where
  "sample_st m h = \<lparr>bytes = m, pbufs = h, pools = \<lparr>memp_tab = (\<lambda>_. 0), memp_next = (\<lambda>_. 0)\<rparr>,
     mheap = \<lparr>ram_base = 0, hdr = (\<lambda>_. \<lparr>mh_next = 0, mh_prev = 0, mh_used = False\<rparr>), lfree = 0\<rparr>,
     pbuf_free_ooseq_pending = 0, custom_freed = []\<rparr>"

definition sample_pbuf :: "addr \<Rightarrow> addr \<Rightarrow> u16 \<Rightarrow> u16 \<Rightarrow> u16 \<Rightarrow> pbuf" where
  "sample_pbuf nx pay tot len r = \<lparr>pb_next = nx, payload = pay, tot_len = tot, pb_len = len,
     pb_type = PBUF_POOL, pb_flags = 0, pb_ref = r\<rparr>"

definition sample_mem :: memory where
  "sample_mem = [300 \<mapsto> 0x45, 301 \<mapsto> 0x67, 302 \<mapsto> 0x89, 400 \<mapsto> 0xab, 401 \<mapsto> 0xcd,
     500 \<mapsto> 0, 501 \<mapsto> 0, 502 \<mapsto> 0, 503 \<mapsto> 0]"

text \<open>A chain of two pbufs at 100 and 200 with 3 and 2 bytes.\<close>

definition sample_chain :: pbuf_st where
  "sample_chain = sample_st sample_mem
     [100 \<mapsto> sample_pbuf 200 300 5 3 1, 200 \<mapsto> sample_pbuf 0 400 2 2 2]"

lemmas sample_defs = sample_chain_def sample_st_def sample_pbuf_def sample_mem_def

text \<open>C25: \<^verbatim>\<open>pbuf_free\<close> on a chain frees exactly the pbufs up to the first one that is still
  referenced from elsewhere, counts that one down by one, leaves everything behind it alone, returns
  the number freed and never touches payload bytes.\<close>

theorem pbuf_free_correct:
  assumes "pchain (pbufs st) p xs" "distinct xs" "length xs \<le> chain_fuel"
  shows "\<exists>st'. pbuf_free st p
        = Inr (of_nat (length (takeWhile (\<lambda>x. pref (pbufs st) x = 1) xs)), st')
      \<and> bytes st' = bytes st
      \<and> (\<forall>x \<in> set (takeWhile (\<lambda>x. pref (pbufs st) x = 1) xs). pbufs st' x = None)
      \<and> (\<forall>z zs b. xs = takeWhile (\<lambda>x. pref (pbufs st) x = 1) xs @ z # zs \<longrightarrow> pbufs st z = Some b \<longrightarrow>
            pbufs st' z = Some (b\<lparr>pb_ref := pb_ref b - 1\<rparr>))
      \<and> (\<forall>x. x \<notin> set (takeWhile (\<lambda>x. pref (pbufs st) x = 1) xs) \<longrightarrow>
            (\<forall>z zs. xs = takeWhile (\<lambda>x. pref (pbufs st) x = 1) xs @ z # zs \<longrightarrow> x \<noteq> z) \<longrightarrow>
            pbufs st' x = pbufs st x)"
proof (cases "p = 0")
  case True
  with assms(1) have "xs = []" by (simp add: pchain_nil_iff [symmetric])
  with True show ?thesis by (intro exI [of _ st]) (simp add: pbuf_free_def)
next
  case False
  with pbuf_free_loop_spec [OF assms, of 0] show ?thesis by (simp add: pbuf_free_def)
qed

theorem pbuf_free_correct_witness:
  "\<exists>st'. pbuf_free sample_chain 100 = Inr (1, st') \<and> pbufs st' 100 = None
     \<and> pbufs st' 200 = Some (sample_pbuf 0 400 2 2 1)"
proof -
  have c: "pchain (pbufs sample_chain) 100 [100, 200]" by (simp add: sample_defs)
  have t: "takeWhile (\<lambda>x. pref (pbufs sample_chain) x = 1) [100, 200] = [100]"
    by (simp add: sample_defs pref_def)
  have b: "pbufs sample_chain 200 = Some (sample_pbuf 0 400 2 2 2)" by (simp add: sample_defs)
  from pbuf_free_correct [OF c, unfolded t] b show ?thesis
    by (auto simp: chain_fuel_def sample_pbuf_def)
qed

text \<open>\<^verbatim>\<open>pbuf_copy_partial\<close> copies exactly the bytes at \<open>offset\<close> of the chain's contents, at most
  \<open>len\<close> of them, to the destination, returns their number and changes no byte outside the \<open>len\<close>
  bytes of the destination.\<close>

theorem pbuf_copy_partial_correct:
  assumes "pchain (pbufs st) p xs" "chain_data (bytes st) (pbufs st) xs bs" "length xs \<le> chain_fuel"
    "p \<noteq> 0" "dst \<noteq> 0" "off_chain (pbufs st) xs dst (unat len)"
    "{dst ..< dst + unat len} \<subseteq> dom (bytes st)"
  shows "\<exists>m'. pbuf_copy_partial st p dst len offset =
            Inr (length (take (unat len) (drop (unat offset) bs)), st\<lparr>bytes := m'\<rparr>)
        \<and> holds m' dst (take (unat len) (drop (unat offset) bs))
        \<and> (\<forall>c. c < dst \<or> dst + unat len \<le> c \<longrightarrow> m' c = bytes st c)"
  using copy_partial_loop_spec [of st p xs bs dst 0 "unat len" chain_fuel "unat offset"] assms
  by (auto simp: pbuf_copy_partial_def)

theorem pbuf_copy_partial_correct_witness:
  "\<exists>m'. pbuf_copy_partial sample_chain 100 500 3 2 = Inr (3, sample_chain\<lparr>bytes := m'\<rparr>)
     \<and> holds m' 500 [0x89, 0xab, 0xcd]"
proof -
  have c: "pchain (pbufs sample_chain) 100 [100, 200]" by (simp add: sample_defs)
  have d: "chain_data (bytes sample_chain) (pbufs sample_chain) [100, 200] [0x45, 0x67, 0x89, 0xab, 0xcd]"
    by (simp add: sample_defs)
  have o: "off_chain (pbufs sample_chain) [100, 200] 500 (unat (3 :: u16))"
    by (simp add: sample_defs off_chain_def)
  have m: "{500 ..< 500 + unat (3 :: u16)} \<subseteq> dom (bytes sample_chain)"
    by (auto simp: sample_defs)
  have t: "take (unat (3 :: u16)) (drop (unat (2 :: u16)) [0x45, 0x67, 0x89, 0xab, 0xcd]) = [0x89, 0xab, 0xcd :: u8]"
    by simp
  from pbuf_copy_partial_correct [OF c d _ _ _ o m, of 2, unfolded t] show ?thesis
    by (auto simp: chain_fuel_def)
qed

text \<open>\<^verbatim>\<open>pbuf_cat\<close> joins two chains into one whose contents are the concatenation and in which every
  \<open>tot_len\<close> is again the length of the rest of the chain, provided the total fits 16 bits.\<close>

theorem pbuf_cat_correct:
  assumes "pchain (pbufs st) p xs" "xs \<noteq> []" "distinct xs" "pchain (pbufs st) t ys" "ys \<noteq> []"
    "set xs \<inter> set ys = {}" "tot_ok (pbufs st) xs" "tot_ok (pbufs st) ys"
    "chain_data (bytes st) (pbufs st) xs bs" "chain_data (bytes st) (pbufs st) ys cs"
    "length bs + length cs < 65536" "length xs \<le> chain_fuel"
  shows "\<exists>st'. pbuf_cat st p t = Inr st' \<and> pchain (pbufs st') p (xs @ ys)
      \<and> tot_ok (pbufs st') (xs @ ys) \<and> chain_data (bytes st') (pbufs st') (xs @ ys) (bs @ cs)"
proof -
  obtain y yr where ys: "ys = y # yr" using assms(5) by (cases ys) auto
  then obtain tb where tb: "t \<noteq> 0" "t \<in> set ys" "pbufs st t = Some tb"
    using assms(4) unfolding ys pchain_Cons_iff by auto
  have tx: "t \<notin> set xs" using tb(2) assms(6) by blast
  define h where "h = (\<lambda>x. if x \<in> set xs
      then map_option (cat_pbuf (last xs) (tot_len tb) t x) (pbufs st x) else pbufs st x)"
  have cat: "pbuf_cat st p t = Inr (st\<lparr>pbufs := h\<rparr>)"
    unfolding h_def by (rule pbuf_cat_spec [OF assms(1-3) tx tb(1,3) assms(12)])
  have hx: "\<forall>x \<in> set xs. h x = map_option (cat_pbuf (last xs) (tot_len tb) t x) (pbufs st x)"
    by (simp add: h_def)
  have hy: "x \<in> set ys \<Longrightarrow> pbufs st x = h x" for x using assms(6) by (auto simp: h_def)
  have "pchain h t ys" using assms(4) pchain_cong [OF hy, where p = t] by simp
  then have 1: "pchain h p (xs @ ys)" by (rule pchain_join [OF assms(1-3) _ hx])
  have oy: "tot_ok h ys" using assms(8) tot_ok_cong [OF hy] by simp
  have "t = y" using assms(4) by (simp add: ys)
  then have n: "unat (tot_len tb) = plens h ys" using oy hy [OF tb(2)] tb(3) by (simp add: ys)
  have "plens h ys = plens (pbufs st) ys" by (rule plens_cong) (simp add: plen_def hy)
  then have "plens (pbufs st) xs + plens h ys < 65536"
    using chain_data_length [OF assms(9)] chain_data_length [OF assms(10)] assms(11) by simp
  then have 2: "tot_ok h (xs @ ys)" by (rule tot_ok_cat [OF assms(7) oy _ n hx])
  have "chain_data (bytes st) h ys cs" using assms(10) chain_data_cong [OF hy] by simp
  then have 3: "chain_data (bytes st) h (xs @ ys) (bs @ cs)" by (rule chain_data_cat [OF assms(9) _ hx])
  from cat 1 2 3 show ?thesis by (intro exI [of _ "st\<lparr>pbufs := h\<rparr>"]) simp
qed

theorem pbuf_cat_correct_witness:
  "\<exists>st'. pbuf_cat (sample_st sample_mem [100 \<mapsto> sample_pbuf 0 300 3 3 1, 200 \<mapsto> sample_pbuf 0 400 2 2 1]) 100 200
       = Inr st' \<and> tot_ok (pbufs st') [100, 200]
     \<and> chain_data (bytes st') (pbufs st') [100, 200] [0x45, 0x67, 0x89, 0xab, 0xcd]"
proof -
  let ?st = "sample_st sample_mem [100 \<mapsto> sample_pbuf 0 300 3 3 1, 200 \<mapsto> sample_pbuf 0 400 2 2 1]"
  have c: "pchain (pbufs ?st) 100 [100]" "pchain (pbufs ?st) 200 [200]" by (simp_all add: sample_defs)
  have t: "tot_ok (pbufs ?st) [100]" "tot_ok (pbufs ?st) [200]"
    by (simp_all add: sample_defs plens_def plen_def)
  have d: "chain_data (bytes ?st) (pbufs ?st) [100] [0x45, 0x67, 0x89]"
    "chain_data (bytes ?st) (pbufs ?st) [200] [0xab, 0xcd]" by (simp_all add: sample_defs)
  from pbuf_cat_correct [OF c(1) _ _ c(2) _ _ t d] show ?thesis by (auto simp: chain_fuel_def)
qed

text \<open>\<^verbatim>\<open>pbuf_header\<close> on a pbuf with its own buffer: moving the payload down by \<open>inc\<close> bytes succeeds
  when there is room behind the pbuf structure, the lengths grow by \<open>inc\<close> without wrapping, and the
  opposite call restores the state; without room the call returns 1 and changes nothing.\<close>

theorem pbuf_header_correct:
  assumes "p \<noteq> 0" "pbufs st p = Some b" "pb_type b = PBUF_RAM \<or> pb_type b = PBUF_POOL" "0 < sint inc"
    "unat (tot_len b) + unat inc < 65536" "pb_len b \<le> tot_len b"
  shows "if p + SIZEOF_STRUCT_PBUF + unat inc \<le> payload b then
      (\<exists>b1. pbuf_header st p inc = Inr (0, put_pbuf st p b1)
         \<and> payload b1 + unat inc = payload b \<and> unat (pb_len b1) = unat (pb_len b) + unat inc
         \<and> unat (tot_len b1) = unat (tot_len b) + unat inc
         \<and> pbuf_header (put_pbuf st p b1) p (- inc) = Inr (0, st))
    else pbuf_header st p inc = Inr (1, st)"
proof -
  have i: "int (unat inc) = sint inc" using assms(4) unat_mag(2) by simp
  have n: "inc \<noteq> 0" "- inc \<noteq> 0" using assms(4) by auto
  have lt: "sint inc < 32768" using sint_lt [of inc] by simp
  then have m: "sint (- inc) = - sint inc" using assms(4) by (intro sint_neg_u16) simp
  have ll: "unat (pb_len b) \<le> unat (tot_len b)" using assms(6) by (simp add: word_le_nat_alt)
  let ?b1 = "b\<lparr>payload := nat (int (payload b) - sint inc), pb_len := pb_len b + inc, tot_len := tot_len b + inc\<rparr>"
  have u: "unat (pb_len b + inc) = unat (pb_len b) + unat inc"
    "unat (tot_len b + inc) = unat (tot_len b) + unat inc"
    using assms(5) ll by (simp_all add: unat_word_ariths)
  show ?thesis
  proof (cases "p + SIZEOF_STRUCT_PBUF + unat inc \<le> payload b")
    case True
    have up: "pbuf_header st p inc = Inr (0, put_pbuf st p ?b1)"
    proof -
      have "\<not> int (payload b) - sint inc < int (p + SIZEOF_STRUCT_PBUF)" using True i by linarith
      then show ?thesis using assms(1-4) n(1) by (auto simp: pbuf_header_def res_simps Let_def)
    qed
    have lei: "sint inc \<le> int (payload b)" using True unfolding i [symmetric] by linarith
    have bk: "int (nat (int (payload b) - sint inc)) + sint inc = int (payload b)"
      using lei by simp
    have id: "put_pbuf (put_pbuf st p ?b1) p b = st"
      using assms(2) by (simp add: put_pbuf_def fun_upd_idem)
    have "pbuf_header (put_pbuf st p ?b1) p (- inc) = Inr (0, put_pbuf (put_pbuf st p ?b1) p b)"
      using assms(1,3,4) n m bk True u(1) i
      by (auto simp: pbuf_header_def res_simps Let_def word_less_nat_alt SIZEOF_STRUCT_PBUF_def lei)
    moreover have "nat (int (payload b) - sint inc) + unat inc = payload b"
      using bk unfolding i [symmetric] by linarith
    ultimately show ?thesis using up id u True by (auto intro!: exI [of _ ?b1])
  next
    case False
    then have "int (payload b) - sint inc < int (p + SIZEOF_STRUCT_PBUF)" using i by linarith
    with False assms(1-4) n(1) show ?thesis by (auto simp: pbuf_header_def res_simps Let_def)
  qed
qed

theorem pbuf_header_correct_witness:
  "(\<exists>b1. pbuf_header sample_chain 100 20 = Inr (0, put_pbuf sample_chain 100 b1) \<and> payload b1 = 280)
   \<and> pbuf_header sample_chain 100 200 = Inr (1, sample_chain)"
proof -
  have b: "pbufs sample_chain 100 = Some (sample_pbuf 200 300 5 3 1)" by (simp add: sample_defs)
  have 1: "\<exists>b1. pbuf_header sample_chain 100 20 = Inr (0, put_pbuf sample_chain 100 b1) \<and> payload b1 = 280"
    using pbuf_header_correct [of 100 sample_chain, OF _ b, of 20] 
    by (auto simp: sample_pbuf_def SIZEOF_STRUCT_PBUF_def)
  have 2: "pbuf_header sample_chain 100 200 = Inr (1, sample_chain)"
    using pbuf_header_correct [of 100 sample_chain, OF _ b, of 200] 
    by (auto simp: sample_pbuf_def SIZEOF_STRUCT_PBUF_def)
  from 1 2 show ?thesis ..
qed

lemma memcpy_mid:
  assumes "holds m a (xs @ ys @ zs)" "c = a + length xs" "holds m d ys'" "k = length ys'" "length ys' = length ys"
  shows "\<exists>m'. memcpy m c d k = Inr m' \<and> holds m' a (xs @ ys' @ zs)"
  using wr_mid [OF assms(1) assms(5) assms(2)] assms(3,4) by (simp add: memcpy_def rd_bytes_holds)

lemma pbuf_copy_loop_keeps: "res_all (\<lambda>x. pbuf_st.more (snd x) = pbuf_st.more st) (pbuf_copy_loop fuel st a m b n)"
proof (induction fuel arbitrary: st a m b n)
  case (Suc fuel)
  show ?case
    unfolding pbuf_copy_loop.simps Let_def
    by (intro res_all_bind res_all_if res_all_pair Suc.IH [THEN res_all_weaken]) simp_all
qed simp

lemma pbuf_copy_keeps: "pbuf_copy st a b = Inr (e, st') \<Longrightarrow> pbuf_st.more st' = pbuf_st.more st"
  by (auto simp: pbuf_copy_def rbind_eq_Inr Let_def split: if_splits dest!: res_allD [OF pbuf_copy_loop_keeps])

end
