(* ===== verification/InetChksum.thy ===== *)
theory InetChksum
  imports Byteorder Pbuf
begin

text \<open>
  The Internet checksum: \<^verbatim>\<open>lwip-1.4.1/src/core/ipv4/inet_chksum.c\<close>. The build selects
  algorithm 3; algorithms 1 and 2 of the file are modelled too, as \<open>chksum_alg1\<close> and
  \<open>chksum_alg2\<close>. A buffer is read through the byte memory, so that a read outside the mapped
  bytes is a fault; the address matters because the code treats odd start addresses apart.
\<close>

section \<open>Arithmetic of the code\<close>

definition FOLD_U32T :: "u32 \<Rightarrow> u32" where
  "FOLD_U32T u = drop_bit 16 u + (u AND 0xffff)"

definition SWAP_BYTES_IN_WORD :: "u32 \<Rightarrow> u32" where
  "SWAP_BYTES_IN_WORD w = push_bit 8 (w AND 0xff) OR drop_bit 8 (w AND 0xff00)"

section \<open>Algorithm 1\<close>

fun alg1_loop :: "memory \<Rightarrow> addr \<Rightarrow> nat \<Rightarrow> u32 \<Rightarrow> (addr \<times> nat \<times> u32) res" where
  "alg1_loop m octetptr len acc =
     (if 1 < len then
        rbind (rd8 m octetptr) (\<lambda>b0. rbind (rd8 m (octetptr + 1)) (\<lambda>b1.
          let src = push_bit 8 (ucast b0) OR ucast b1 :: u16
          in alg1_loop m (octetptr + 2) (len - 2) (acc + ucast src)))
      else Inr (octetptr, len, acc))"

declare alg1_loop.simps [simp del]

definition chksum_alg1 :: "memory \<Rightarrow> addr \<Rightarrow> u16 \<Rightarrow> u16 res" where
  "chksum_alg1 m dataptr len =
     rbind (alg1_loop m dataptr (unat len) 0) (\<lambda>(octetptr, rest, acc).
     rbind (if 0 < rest then
              rbind (rd8 m octetptr) (\<lambda>b.
                let src = push_bit 8 (ucast b) :: u16 in Inr (acc + ucast src))
            else Inr acc) (\<lambda>acc.
       let acc1 = drop_bit 16 acc + (acc AND 0xffff);
           acc2 = (if acc1 AND 0xffff0000 \<noteq> 0 then drop_bit 16 acc1 + (acc1 AND 0xffff) else acc1)
       in Inr (lwip_htons (ucast acc2))))"

section \<open>Algorithm 2\<close>

text \<open>The halfword loop shared by algorithms 2 and 3.\<close>

fun sum16_loop :: "memory \<Rightarrow> addr \<Rightarrow> nat \<Rightarrow> u32 \<Rightarrow> (addr \<times> nat \<times> u32) res" where
  "sum16_loop m ps len acc =
     (if 1 < len then rbind (rd16 m ps) (\<lambda>w. sum16_loop m (ps + 2) (len - 2) (acc + ucast w))
      else Inr (ps, len, acc))"

declare sum16_loop.simps [simp del]

text \<open>
  The variable \<^verbatim>\<open>t\<close> is a halfword whose two bytes the code sets one by one: byte 1 is the first
  byte of an odd buffer (\<open>hi\<close>), byte 0 the last byte of an odd rest (\<open>lo\<close>).
\<close>

definition chksum_tail :: "memory \<Rightarrow> addr \<Rightarrow> nat \<Rightarrow> u32 \<Rightarrow> u8 \<Rightarrow> bool \<Rightarrow> u16 res" where
  "chksum_tail m ps len acc hi odd_start =
     rbind (if 0 < len then rd8 m ps else Inr 0) (\<lambda>lo.
       let acc1 = acc + ucast (le16 lo hi);
           acc2 = FOLD_U32T (FOLD_U32T acc1);
           acc3 = (if odd_start then SWAP_BYTES_IN_WORD acc2 else acc2)
       in Inr (ucast acc3))"

definition chksum_alg2 :: "memory \<Rightarrow> addr \<Rightarrow> nat \<Rightarrow> u16 res" where
  "chksum_alg2 m dataptr len =
     (let odd_start = odd dataptr; skip = odd_start \<and> 0 < len in
      rbind (if skip then rd8 m dataptr else Inr 0) (\<lambda>hi.
      rbind (sum16_loop m (if skip then dataptr + 1 else dataptr) (if skip then len - 1 else len) 0)
        (\<lambda>(ps, rest, acc). chksum_tail m ps rest acc hi odd_start)))"

section \<open>Algorithm 3\<close>

text \<open>Adding a word with the carry added back.\<close>

definition add_carry :: "u32 \<Rightarrow> u32 \<Rightarrow> u32" where
  "add_carry acc w = (let tmp = acc + w in if tmp < acc then tmp + 1 else tmp)"

fun sum32_loop :: "memory \<Rightarrow> addr \<Rightarrow> nat \<Rightarrow> u32 \<Rightarrow> (addr \<times> nat \<times> u32) res" where
  "sum32_loop m pl len acc =
     (if 7 < len then
        rbind (rd32 m pl) (\<lambda>w0. rbind (rd32 m (pl + 4)) (\<lambda>w1.
          sum32_loop m (pl + 8) (len - 8) (add_carry (add_carry acc w0) w1)))
      else Inr (pl, len, acc))"

declare sum32_loop.simps [simp del]

definition lwip_standard_chksum :: "memory \<Rightarrow> addr \<Rightarrow> nat \<Rightarrow> u16 res" where
  "lwip_standard_chksum m dataptr len =
     (let odd_start = odd dataptr; skip = odd_start \<and> 0 < len;
          pb = (if skip then dataptr + 1 else dataptr); len1 = (if skip then len - 1 else len) in
      rbind (if skip then rd8 m dataptr else Inr 0) (\<lambda>hi.
        let lead = pb mod 4 \<noteq> 0 \<and> 1 < len1 in
        rbind (if lead then rd16 m pb else Inr 0) (\<lambda>w.
        rbind (sum32_loop m (if lead then pb + 2 else pb) (if lead then len1 - 2 else len1) (ucast w))
          (\<lambda>(pl, len2, acc).
        rbind (sum16_loop m pl len2 (FOLD_U32T acc)) (\<lambda>(ps, rest, acc').
          chksum_tail m ps rest acc' hi odd_start)))))"

section \<open>Checksums of the protocols\<close>

definition inet_chksum :: "memory \<Rightarrow> addr \<Rightarrow> u16 \<Rightarrow> u16 res" where
  "inet_chksum m dataptr len = rbind (lwip_standard_chksum m dataptr (unat len)) (\<lambda>c. Inr (NOT c))"

text \<open>The loop over the pbufs of a chain; \<open>swapped\<close> tells that an odd number of bytes came before.\<close>

primrec chksum_chain ::
  "nat \<Rightarrow> 'a pbuf_st_scheme \<Rightarrow> addr \<Rightarrow> u32 \<Rightarrow> bool \<Rightarrow> (u32 \<times> bool) res" where
  "chksum_chain 0 st q acc swapped = (if q = 0 then Inr (acc, swapped) else Inl Out_of_fuel)"
| "chksum_chain (Suc fuel) st q acc swapped =
     (if q = 0 then Inr (acc, swapped)
      else rbind (get_pbuf st q) (\<lambda>b.
        rbind (lwip_standard_chksum (bytes st) (payload b) (unat (pb_len b))) (\<lambda>c.
          let acc1 = FOLD_U32T (acc + ucast c) in
          if pb_len b mod 2 \<noteq> 0 then chksum_chain fuel st (pb_next b) (SWAP_BYTES_IN_WORD acc1) (\<not> swapped)
          else chksum_chain fuel st (pb_next b) acc1 swapped)))"

definition inet_chksum_pbuf :: "'a pbuf_st_scheme \<Rightarrow> addr \<Rightarrow> u16 res" where
  "inet_chksum_pbuf st p =
     rbind (chksum_chain chain_fuel st p 0 False) (\<lambda>(acc, swapped).
       Inr (NOT (ucast (if swapped then SWAP_BYTES_IN_WORD acc else acc))))"

text \<open>Adding the pseudo header and the final folding, common to the two pseudo checksums.\<close>

definition pseudo_finish :: "u32 \<Rightarrow> u32 \<Rightarrow> u32 \<Rightarrow> u8 \<Rightarrow> u16 \<Rightarrow> u16" where
  "pseudo_finish acc src dest proto proto_len =
     (let acc1 = acc + (src AND 0xffff) + (drop_bit 16 src AND 0xffff)
                 + (dest AND 0xffff) + (drop_bit 16 dest AND 0xffff)
                 + ucast (lwip_htons (ucast proto)) + ucast (lwip_htons proto_len)
      in NOT (ucast (FOLD_U32T (FOLD_U32T acc1))))"

definition inet_chksum_pseudo ::
  "'a pbuf_st_scheme \<Rightarrow> addr \<Rightarrow> u32 \<Rightarrow> u32 \<Rightarrow> u8 \<Rightarrow> u16 \<Rightarrow> u16 res" where
  "inet_chksum_pseudo st p src dest proto proto_len =
     rbind (chksum_chain chain_fuel st p 0 False) (\<lambda>(acc, swapped).
       Inr (pseudo_finish (if swapped then SWAP_BYTES_IN_WORD acc else acc) src dest proto proto_len))"

primrec chksum_chain_partial ::
  "nat \<Rightarrow> 'a pbuf_st_scheme \<Rightarrow> addr \<Rightarrow> u16 \<Rightarrow> u32 \<Rightarrow> bool \<Rightarrow> (u32 \<times> bool) res" where
  "chksum_chain_partial 0 st q chksum_len acc swapped =
     (if q = 0 \<or> chksum_len = 0 then Inr (acc, swapped) else Inl Out_of_fuel)"
| "chksum_chain_partial (Suc fuel) st q chksum_len acc swapped =
     (if q = 0 \<or> chksum_len = 0 then Inr (acc, swapped)
      else rbind (get_pbuf st q) (\<lambda>b.
        let chklen = (if chksum_len < pb_len b then chksum_len else pb_len b) in
        rbind (lwip_standard_chksum (bytes st) (payload b) (unat chklen)) (\<lambda>c.
          let acc1 = FOLD_U32T (acc + ucast c) in
          if pb_len b mod 2 \<noteq> 0 then
            chksum_chain_partial fuel st (pb_next b) (chksum_len - chklen) (SWAP_BYTES_IN_WORD acc1) (\<not> swapped)
          else chksum_chain_partial fuel st (pb_next b) (chksum_len - chklen) acc1 swapped)))"

definition inet_chksum_pseudo_partial ::
  "'a pbuf_st_scheme \<Rightarrow> addr \<Rightarrow> u32 \<Rightarrow> u32 \<Rightarrow> u8 \<Rightarrow> u16 \<Rightarrow> u16 \<Rightarrow> u16 res" where
  "inet_chksum_pseudo_partial st p src dest proto proto_len chksum_len =
     rbind (chksum_chain_partial chain_fuel st p chksum_len 0 False) (\<lambda>(acc, swapped).
       Inr (pseudo_finish (if swapped then SWAP_BYTES_IN_WORD acc else acc) src dest proto proto_len))"

definition lwip_chksum_copy ::
  "memory \<Rightarrow> addr \<Rightarrow> addr \<Rightarrow> u16 \<Rightarrow> (u16 \<times> memory) res" where
  "lwip_chksum_copy m dst src len =
     rbind (memcpy m dst src (unat len)) (\<lambda>m'.
     rbind (lwip_standard_chksum m' dst (unat len)) (\<lambda>c. Inr (c, m')))"


section \<open>One's complement sums\<close>

text \<open>
  Two sums agree when they are congruent modulo 65535 and zero together: this is what the
  folding of the code preserves, and it determines the folded 16-bit sum.
\<close>

definition ceq :: "nat \<Rightarrow> nat \<Rightarrow> bool" where
  "ceq a b \<longleftrightarrow> a mod 65535 = b mod 65535 \<and> (a = 0 \<longleftrightarrow> b = 0)"

text \<open>The representative in 16 bits.\<close>

definition oc :: "nat \<Rightarrow> nat" where
  "oc n = (if n = 0 then 0 else (n - 1) mod 65535 + 1)"

text \<open>The little endian value of a buffer.\<close>

fun csum :: "u8 list \<Rightarrow> nat" where
  "csum [] = 0"
| "csum (b # bs) = unat b + 256 * csum bs"

lemma ceq_refl [simp]: "ceq a a"
  by (simp add: ceq_def)

lemma ceq_sym: "ceq a b \<Longrightarrow> ceq b a"
  by (auto simp: ceq_def)

lemma ceq_trans [trans]: "ceq a b \<Longrightarrow> ceq b c \<Longrightarrow> ceq a c"
  by (auto simp: ceq_def)

lemma ceq_add: "ceq a b \<Longrightarrow> ceq c d \<Longrightarrow> ceq (a + c) (b + d)"
  by (auto simp: ceq_def intro: mod_add_cong)

lemma ceq_mult: "ceq a b \<Longrightarrow> ceq (k * a) (k * b)"
  by (auto simp: ceq_def intro: mod_mult_cong)

lemma ceq_oc: "ceq (oc n) n"
proof (cases n)
  case (Suc k)
  then show ?thesis by (simp add: ceq_def oc_def mod_Suc_eq)
qed (simp add: ceq_def oc_def)

lemma ceq_small: "ceq a b \<Longrightarrow> a \<le> 65535 \<Longrightarrow> b \<le> 65535 \<Longrightarrow> a = b"
  unfolding ceq_def by (cases "a = 65535"; cases "b = 65535") auto

lemma oc_le: "oc n \<le> 65535"
proof -
  have "(n - 1) mod 65535 < 65535" by simp
  then have "(n - 1) mod 65535 + 1 \<le> 65535" by linarith
  then show ?thesis unfolding oc_def by (cases "n = 0") simp_all
qed

lemma ceq_small_oc: "ceq a b \<Longrightarrow> a \<le> 65535 \<Longrightarrow> a = oc b"
  using ceq_small [of a "oc b"] ceq_trans [of a b "oc b"] ceq_sym [OF ceq_oc] oc_le by blast

lemma ceq_shift_mult: "k mod 65535 = 1 \<Longrightarrow> ceq (k * a) a"
  unfolding ceq_def by (metis gr_zeroI mod_mult_left_eq mult_eq_0_iff mod_0 mult_1 zero_neq_one)

lemma pow256_even: "even k \<Longrightarrow> (256 ^ k) mod 65535 = (1 :: nat)"
proof -
  assume "even k"
  then obtain j where k: "k = 2 * j" by (rule evenE)
  have "(65536 ^ j) mod 65535 = (1 :: nat)"
    by (induction j) (simp_all add: mod_mult_right_eq [symmetric])
  then show ?thesis by (simp add: k power_mult)
qed

lemma csum_append: "csum (xs @ ys) = csum xs + 256 ^ length xs * csum ys"
  by (induction xs) (simp_all add: algebra_simps)

lemma csum_append_even: "even (length xs) \<Longrightarrow> ceq (csum (xs @ ys)) (csum xs + csum ys)"
  by (simp add: csum_append ceq_add ceq_shift_mult pow256_even)

lemma csum_append_odd: "odd (length xs) \<Longrightarrow> ceq (csum (xs @ ys)) (csum xs + 256 * csum ys)"
proof -
  assume "odd (length xs)"
  then obtain k where k: "length xs = Suc k" "even k" by (cases "length xs") auto
  then have "even (length xs - 1)" "256 ^ length xs = (256 ^ (length xs - 1) * 256 :: nat)"
    by simp_all
  then show ?thesis
    by (simp add: csum_append mult.assoc ceq_add ceq_shift_mult pow256_even)
qed

lemma csum_bound: "csum bs < 256 ^ length bs"
proof (induction bs)
  case (Cons b bs)
  have "unat b + 256 * csum bs < 256 + 256 * csum bs" by simp
  also have "\<dots> = 256 * Suc (csum bs)" by simp
  also have "\<dots> \<le> 256 * 256 ^ length bs" using Cons by (intro mult_le_mono2) simp
  finally show ?case by simp
qed simp

section \<open>Folding and swapping\<close>

lemma unat_and_ffff: "unat ((w :: u32) AND 0xffff) = unat w mod 65536"
proof -
  have "(0xffff :: u32) = mask 16" by (simp add: mask_eq_exp_minus_1)
  then have "w AND 0xffff = take_bit 16 w" by (simp only: take_bit_eq_mask)
  then show ?thesis by (simp only: unsigned_take_bit_eq) (simp add: take_bit_eq_mod)
qed

lemma unat_FOLD: "unat (FOLD_U32T w) = unat w div 65536 + unat w mod 65536"
proof -
  have "unat w div 65536 < 65536" using unat_u32_lt [of w] by (simp add: less_mult_imp_div_less)
  moreover have "unat w mod 65536 < 65536" by simp
  ultimately have "unat w div 65536 + unat w mod 65536 < 4294967296" by linarith
  moreover have "unat (FOLD_U32T w) = (unat w div 65536 + unat w mod 65536) mod 4294967296"
    unfolding FOLD_U32T_def by (simp only: unat_word_ariths unat_drop_bit unat_and_ffff) simp
  ultimately show ?thesis by simp
qed

lemma ceq_FOLD: "ceq (unat (FOLD_U32T w)) (unat w)"
proof -
  have "ceq (unat w div 65536 + unat w mod 65536) (65536 * (unat w div 65536) + unat w mod 65536)"
    by (intro ceq_add ceq_refl ceq_sym [OF ceq_shift_mult]) simp
  then show ?thesis by (simp add: unat_FOLD)
qed

lemma FOLD_le: "unat w \<le> 131070 \<Longrightarrow> unat (FOLD_U32T w) \<le> 65535"
proof (cases "unat w < 65536")
  case False
  assume "unat w \<le> 131070"
  with False have "unat w div 65536 = 1" "unat w mod 65536 = unat w - 65536"
    by (simp_all add: le_div_geq le_mod_geq)
  with \<open>unat w \<le> 131070\<close> show ?thesis by (simp add: unat_FOLD)
qed (simp add: unat_FOLD)

lemma FOLD_FOLD_le: "unat (FOLD_U32T (FOLD_U32T w)) \<le> 65535"
proof -
  have "unat w div 65536 < 65536" using unat_u32_lt [of w] by (simp add: less_mult_imp_div_less)
  moreover have "unat w mod 65536 < 65536" by simp
  ultimately have "unat (FOLD_U32T w) \<le> 131070" unfolding unat_FOLD by linarith
  then show ?thesis by (rule FOLD_le)
qed

lemma SWAP_htons: "SWAP_BYTES_IN_WORD w = ucast (lwip_htons (ucast w))"
proof -
  have m: "(0xff :: u32) = mask 8" "(0xff00 :: u32) = push_bit 8 (mask 8)"
    "(0xff :: u16) = mask 8" "(0xff00 :: u16) = push_bit 8 (mask 8)"
    by (simp_all add: mask_eq_exp_minus_1 push_bit_eq_mult)
  show ?thesis
    by (rule bit_word_eqI, simp only: SWAP_BYTES_IN_WORD_def lwip_htons_def m)
      (auto simp: bit_simps dest: bit_imp_le_length)
qed

lemma unat_ucast_u32_u16: "unat (ucast (w :: u32) :: u16) = unat w mod 65536"
  by (simp add: unsigned_ucast_eq take_bit_eq_mod)

lemma ceq_htons: "ceq (unat (lwip_htons n)) (256 * unat n)"
proof -
  have "ceq (256 * (unat n mod 256) + unat n div 256) (256 * (unat n mod 256) + 65536 * (unat n div 256))"
    by (intro ceq_add ceq_refl ceq_sym [OF ceq_shift_mult]) simp
  moreover have "256 * (unat n mod 256) + 65536 * (unat n div 256) = 256 * unat n"
    using mult_div_mod_eq [of 256 "unat n"] by linarith
  ultimately show ?thesis by (simp add: unat_htons)
qed

lemma ceq_SWAP: "unat w \<le> 65535 \<Longrightarrow> ceq (unat (SWAP_BYTES_IN_WORD w)) (256 * unat w)"
  using ceq_htons [of "ucast w"] by (simp add: SWAP_htons unat_ucast_u32_u16)

lemma SWAP_le: "unat (SWAP_BYTES_IN_WORD w) \<le> 65535"
  using unat_u16_lt [of "lwip_htons (ucast w)"] by (simp only: SWAP_htons unat_ucast_u16_u32)

lemma ceq_add_carry: "ceq (unat (add_carry s w)) (unat s + unat w)"
proof (cases "unat s + unat w < 4294967296")
  case True
  then have u: "unat (s + w) = unat s + unat w" by (simp add: unat_word_ariths)
  then have "\<not> s + w < s" by (simp add: word_less_nat_alt)
  with u show ?thesis by (simp add: add_carry_def)
next
  case False
  have b: "unat s < 4294967296" "unat w < 4294967296" by simp_all
  have u: "unat (s + w) = unat s + unat w - 4294967296"
  proof -
    have "(unat s + unat w) mod 4294967296 = (unat s + unat w - 4294967296) mod 4294967296"
      using False by (simp add: le_mod_geq)
    also have "\<dots> = unat s + unat w - 4294967296" using False b by (intro mod_less) linarith
    finally show ?thesis by (simp add: unat_word_ariths)
  qed
  have lt: "s + w < s" unfolding word_less_nat_alt u using b False by linarith
  have "unat (s + w + 1) = unat s + unat w - 4294967295"
  proof -
    have "unat (s + w + 1) = (unat (s + w) + 1) mod 4294967296" by (simp add: unat_word_ariths)
    also have "\<dots> = unat s + unat w - 4294967295"
      unfolding u using b False by (subst mod_less) linarith+
    finally show ?thesis .
  qed
  moreover have "unat s + unat w = (unat s + unat w - 4294967295) + 65537 * 65535"
    using False by simp
  moreover from this have "(unat s + unat w) mod 65535 = (unat s + unat w - 4294967295) mod 65535"
    by (metis mod_mult_self1)
  moreover have "unat s + unat w \<noteq> 0" using False by linarith
  moreover have "unat s + unat w - 4294967295 \<noteq> 0" using False by linarith
  ultimately show ?thesis using lt by (simp add: add_carry_def ceq_def)
qed


section \<open>The loops\<close>

lemma csum2: "csum (x # y # bs) = unat x + 256 * unat y + 65536 * csum bs"
  by simp

lemma csum4: "csum (x # y # z # w # bs) =
    unat x + 256 * unat y + 65536 * unat z + 16777216 * unat w + 4294967296 * csum bs"
  by simp

lemma holds_2: "holds m a (x # y # bs) \<Longrightarrow> rd16 m a = Inr (le16 x y)"
  using rd16_holds [of m a "x # y # bs" 0] by simp

lemma holds_4: "holds m a (x # y # z # w # bs) \<Longrightarrow> rd32 m a = Inr (le32 x y z w)"
  using rd32_holds [of m a "x # y # z # w # bs" 0] by simp

lemma length_ge_2: "1 < length bs \<Longrightarrow> \<exists>x y cs. bs = x # y # cs"
  by (cases bs; cases "tl bs") auto

lemma length_ge_8: "7 < length bs \<Longrightarrow> \<exists>a b c d e f g h cs. bs = a # b # c # d # e # f # g # h # cs"
  by (simp add: Suc_le_eq [symmetric] Suc_le_length_iff eval_nat_numeral del: Suc_le_eq) blast

definition evens :: "nat \<Rightarrow> nat" where "evens n = n - n mod 2"

lemma evens_simps [simp]: "evens 0 = 0" "evens (Suc 0) = 0" "evens (Suc (Suc n)) = Suc (Suc (evens n))"
proof -
  have "Suc (Suc n) mod 2 = n mod 2" by simp
  moreover have "n mod 2 \<le> n" by simp
  ultimately show "evens (Suc (Suc n)) = Suc (Suc (evens n))" by (simp only: evens_def)
qed (simp_all add: evens_def)

lemma sum16_loop_spec:
  assumes "holds m a bs" "unat s + 65536 * length bs \<le> 4294967295"
  shows "\<exists>s'. sum16_loop m a (length bs) s = Inr (a + evens (length bs), length bs mod 2, s')
      \<and> ceq (unat s') (unat s + csum (take (evens (length bs)) bs))
      \<and> unat s' \<le> unat s + 65536 * evens (length bs)"
  using assms
proof (induction "length bs" arbitrary: bs a s rule: less_induct)
  case less
  show ?case
  proof (cases "1 < length bs")
    case False
    then consider "bs = []" | x where "bs = [x]" by (cases bs) auto
    then show ?thesis by cases (simp_all add: sum16_loop.simps)
  next
    case True
    then obtain x y cs where bs: "bs = x # y # cs" using length_ge_2 by blast
    let ?s = "s + ucast (le16 x y)"
    have le: "unat (le16 x y) < 65536" by simp
    have "unat s + unat (le16 x y) < 4294967296" using less.prems(2) le unfolding bs by (simp del: unat_u16_lt)
    then have u: "unat ?s = unat s + unat (le16 x y)"
      by (simp only: unat_word_ariths unat_ucast_u16_u32) simp
    have h2: "holds m (a + 2) cs" using less.prems(1) unfolding bs by simp
    have l2: "unat ?s + 65536 * length cs \<le> 4294967295"
      using less.prems(2) le unfolding bs u by (simp del: unat_u16_lt)
    from less.hyps [OF _ h2 l2] obtain s' where
      s': "sum16_loop m (a + 2) (length cs) ?s = Inr (a + 2 + evens (length cs), length cs mod 2, s')"
      "ceq (unat s') (unat ?s + csum (take (evens (length cs)) cs))"
      "unat s' \<le> unat ?s + 65536 * evens (length cs)"
      unfolding bs by auto
    have e: "sum16_loop m a (length bs) s = sum16_loop m (a + 2) (length cs) ?s"
      using less.prems(1) unfolding bs
      by (subst sum16_loop.simps) (simp add: holds_2 del: holds.simps)
    have c1: "ceq (unat ?s + csum (take (evens (length cs)) cs))
        (unat s + (unat x + 256 * unat y + 65536 * csum (take (evens (length cs)) cs)))"
      unfolding u unat_le16 add.assoc
      by (intro ceq_add ceq_refl ceq_sym [OF ceq_shift_mult]) simp
    have c2: "csum (take (evens (length bs)) bs)
        = unat x + 256 * unat y + 65536 * csum (take (evens (length cs)) cs)"
      by (simp add: bs)
    have "ceq (unat s') (unat s + csum (take (evens (length bs)) bs))"
      unfolding c2 by (rule ceq_trans [OF s'(2) c1])
    moreover have "unat s' \<le> unat s + 65536 * evens (length bs)"
      using s'(3) le unfolding bs u by (simp del: unat_u16_lt)
    ultimately show ?thesis using s'(1) unfolding e by (auto simp: bs)
  qed
qed

lemma sum32_loop_spec:
  assumes "holds m a bs"
  shows "\<exists>s'. sum32_loop m a (length bs) s = Inr (a + (length bs - length bs mod 8), length bs mod 8, s')
      \<and> ceq (unat s') (unat s + csum (take (length bs - length bs mod 8) bs))"
  using assms
proof (induction "length bs" arbitrary: bs a s rule: less_induct)
  case less
  show ?case
  proof (cases "7 < length bs")
    case False
    then show ?thesis by (simp add: sum32_loop.simps)
  next
    case True
    then obtain b c d e f g h i cs where bs: "bs = b # c # d # e # f # g # h # i # cs"
      using length_ge_8 by blast
    let ?s1 = "add_carry s (le32 b c d e)"
    let ?s = "add_carry ?s1 (le32 f g h i)"
    have "holds m (a + 8) cs" using less.prems unfolding bs by (simp add: eval_nat_numeral)
    from less.hyps [OF _ this, of ?s] obtain s' where
      s': "sum32_loop m (a + 8) (length cs) ?s
             = Inr (a + 8 + (length cs - length cs mod 8), length cs mod 8, s')"
      "ceq (unat s') (unat ?s + csum (take (length cs - length cs mod 8) cs))"
      unfolding bs by auto
    have h: "holds m a (b # c # d # e # f # g # h # i # cs)"
      "holds m (a + 4) (f # g # h # i # cs)"
      using less.prems unfolding bs by (simp_all add: eval_nat_numeral)
    have e: "sum32_loop m a (length bs) s = sum32_loop m (a + 8) (length cs) ?s"
      unfolding bs by (subst sum32_loop.simps) (simp add: holds_4 [OF h(1)] holds_4 [OF h(2)])
    let ?t = "csum (take (length cs - length cs mod 8) cs)"
    have k: "ceq (unat ?s) (unat s + csum [b, c, d, e] + csum [f, g, h, i])"
    proof -
      have "ceq (unat ?s) (unat ?s1 + csum [f, g, h, i])"
        using ceq_add_carry [of ?s1 "le32 f g h i"] by (simp add: unat_le32 add.assoc)
      also have "ceq \<dots> (unat s + csum [b, c, d, e] + csum [f, g, h, i])"
        using ceq_add_carry [of s "le32 b c d e"] by (intro ceq_add ceq_refl) (simp add: unat_le32 add.assoc)
      finally show ?thesis .
    qed
    have "ceq (csum [b, c, d, e] + (csum [f, g, h, i] + ?t))
        (csum [b, c, d, e] + 4294967296 * (csum [f, g, h, i] + 4294967296 * ?t))"
      by (intro ceq_add ceq_refl ceq_trans [OF _ ceq_sym [OF ceq_shift_mult]] ceq_sym [OF ceq_shift_mult]) simp_all
    also have "\<dots> = csum (b # c # d # e # f # g # h # i # take (length cs - length cs mod 8) cs)"
      by simp
    finally have z: "ceq (unat s + (csum [b, c, d, e] + (csum [f, g, h, i] + ?t)))
        (unat s + csum (b # c # d # e # f # g # h # i # take (length cs - length cs mod 8) cs))"
      by (intro ceq_add ceq_refl)
    have "ceq (unat s') (unat s + csum [b, c, d, e] + csum [f, g, h, i] + ?t)"
      using s'(2) ceq_add [OF k ceq_refl] by (rule ceq_trans)
    then have "ceq (unat s') (unat s + csum (b # c # d # e # f # g # h # i # take (length cs - length cs mod 8) cs))"
      using z by (simp only: add.assoc ceq_trans)
    moreover have l: "length bs - length bs mod 8 = 8 + (length cs - length cs mod 8)"
      "length bs mod 8 = length cs mod 8"
      unfolding bs by (simp_all add: Suc_diff_le)
    moreover have "take (length bs - length bs mod 8) bs
        = b # c # d # e # f # g # h # i # take (length cs - length cs mod 8) cs"
    proof -
      have "bs = [b, c, d, e, f, g, h, i] @ cs" by (simp add: bs)
      then show ?thesis unfolding l by (simp only: take_append) simp
    qed
    moreover have "a + 8 + (length cs - length cs mod 8) = a + (length bs - length bs mod 8)"
      by (simp only: l(1) add.assoc)
    ultimately show ?thesis using s'(1) unfolding e by metis
  qed
qed

lemma take_drop_evens:
  assumes "holds m a bs"
  shows "holds m (a + evens (length bs)) (drop (evens (length bs)) bs)"
    "length (drop (evens (length bs)) bs) = length bs mod 2"
    "ceq (csum bs) (csum (take (evens (length bs)) bs) + csum (drop (evens (length bs)) bs))"
proof -
  have e: "evens (length bs) \<le> length bs" "even (evens (length bs))" by (simp_all add: evens_def)
  show "holds m (a + evens (length bs)) (drop (evens (length bs)) bs)"
    using assms e(1) by (rule holds_drop)
  show "length (drop (evens (length bs)) bs) = length bs mod 2" by (simp add: evens_def)
  show "ceq (csum bs) (csum (take (evens (length bs)) bs) + csum (drop (evens (length bs)) bs))"
    using csum_append_even [of "take (evens (length bs)) bs" "drop (evens (length bs)) bs"] e
    by (simp add: min_absorb2)
qed

lemma drop_evens_le: "length (drop (evens (length bs)) bs) \<le> 1"
proof -
  have "length bs mod 2 < 2" by simp
  then have "length bs mod 2 \<le> 1" by linarith
  then show ?thesis by (simp add: evens_def)
qed

lemma chksum_tail_spec:
  assumes "holds m ps r" "length r \<le> 1" "unat s \<le> 4294836224"
  shows "\<exists>c. chksum_tail m ps (length r) s hi od = Inr c \<and>
    ceq (unat c) ((if od then 256 else 1) * (unat s + csum r + 256 * unat hi))"
proof -
  define lo where "lo = (if r = [] then 0 else hd r)"
  have lo: "(if 0 < length r then rd8 m ps else Inr 0) = Inr lo" "unat lo = csum r"
    using assms(1,2) by (cases r; simp add: lo_def rd8_def)+
  let ?s1 = "s + ucast (le16 lo hi)"
  let ?s2 = "FOLD_U32T (FOLD_U32T ?s1)"
  let ?s3 = "if od then SWAP_BYTES_IN_WORD ?s2 else ?s2"
  have "unat (le16 lo hi) < 65536" by simp
  with assms(3) have "unat s + unat (le16 lo hi) < 4294967296" by linarith
  then have "unat ?s1 = unat s + (csum r + 256 * unat hi)"
    by (simp only: unat_word_ariths unat_ucast_u16_u32 unat_le16 lo(2)) simp
  then have s2: "ceq (unat ?s2) (unat s + csum r + 256 * unat hi)"
    using ceq_trans [OF ceq_FOLD ceq_FOLD [of ?s1]] by (simp add: add.assoc)
  have s3: "unat ?s3 \<le> 65535" using FOLD_FOLD_le SWAP_le by simp
  have "ceq (unat ?s3) ((if od then 256 else 1) * (unat s + csum r + 256 * unat hi))"
    using s2 ceq_trans [OF ceq_SWAP [OF FOLD_FOLD_le] ceq_mult [OF s2]] by simp
  moreover have "unat (ucast ?s3 :: u16) = unat ?s3"
    using s3 by (simp only: unat_ucast_u32_u16) simp
  moreover have "chksum_tail m ps (length r) s hi od = Inr (ucast ?s3)"
    unfolding chksum_tail_def lo(1) by (simp add: Let_def)
  ultimately show ?thesis by (intro exI [of _ "ucast ?s3"]) simp
qed

lemma be_src: "push_bit 8 (ucast x) OR ucast y = le16 y x"
proof -
  have d: "push_bit 8 (ucast x) AND ucast y = (0 :: u16)"
    by (rule bit_word_eqI) (auto simp: bit_simps dest: bit_imp_le_length)
  have "unat (push_bit 8 (ucast x :: u16)) = 256 * unat x"
  proof -
    have "256 * unat x < 65536" by simp
    moreover have "unat x < 65536" by (rule less_trans [OF unat_u8_lt]) simp
    ultimately show ?thesis
      by (simp only: unsigned_push_bit_eq unsigned_ucast_eq) (simp add: push_bit_eq_mult take_bit_eq_mod mult.commute)
  qed
  moreover have "unat (ucast y :: u16) = unat y"
    by (simp add: unsigned_ucast_eq take_bit_nat_eq_self less_trans [OF unat_u8_lt])
  ultimately have "unat (push_bit 8 (ucast x) OR ucast y :: u16) = unat (le16 y x)"
    unfolding disjunctive_add_eq_or [OF d, symmetric] unat_le16
    using unat_le16 [of y x] unat_u16_lt [of "le16 y x"] by (simp add: unat_word_ariths)
  then show ?thesis by (rule unsigned_word_eqI)
qed

lemma and_hi16: "(w AND 0xffff0000 \<noteq> 0) \<longleftrightarrow> 65536 \<le> unat (w :: u32)"
proof -
  have m: "(0xffff0000 :: u32) = push_bit 16 (mask 16)" by (simp add: mask_eq_exp_minus_1 push_bit_eq_mult)
  have "w AND 0xffff0000 = push_bit 16 (drop_bit 16 w)"
    by (rule bit_word_eqI, simp only: m) (auto simp: bit_simps dest: bit_imp_le_length)
  moreover have "push_bit 16 (drop_bit 16 w) = 0 \<longleftrightarrow> take_bit 16 w = w"
    using bits_ident [of 16 w] by (metis add_cancel_right_left add_diff_cancel_right')
  moreover have "take_bit 16 w = w \<longleftrightarrow> unat w mod 65536 = unat w"
  proof -
    have "unat (take_bit 16 w) = unat w mod 65536"
      by (simp only: unsigned_take_bit_eq) (simp add: take_bit_eq_mod)
    then show ?thesis by (metis unsigned_word_eqI)
  qed
  ultimately show ?thesis by (simp add: mod_eq_self_iff_div_eq_0 div_eq_0_iff not_less)
qed

section \<open>The three algorithms compute the same sum\<close>

definition ones_sum :: "u8 list \<Rightarrow> u16" where
  "ones_sum bs = of_nat (oc (csum bs))"

lemma unat_ones_sum: "unat (ones_sum bs) = oc (csum bs)"
  unfolding ones_sum_def using oc_le [of "csum bs"]
  by (simp only: unsigned_of_nat) (simp add: take_bit_nat_eq_self)

lemma ones_sumI: "ceq (unat c) (csum bs) \<Longrightarrow> c = ones_sum bs"
proof -
  assume "ceq (unat c) (csum bs)"
  moreover have "unat c \<le> 65535" using unat_u16_lt [of c] by linarith
  ultimately have "unat c = unat (ones_sum bs)" by (simp add: ceq_small_oc unat_ones_sum)
  then show ?thesis by (rule unsigned_word_eqI)
qed

text \<open>The two ways the code enters its loops: at an even address, or after one byte at an odd one.\<close>

lemma odd_entry:
  assumes "holds m a bs" "odd a \<and> bs \<noteq> []"
  shows "rd8 m a = Inr (hd bs)" "holds m (a + 1) (tl bs)"
    "ceq (256 * (csum (tl bs) + 256 * unat (hd bs))) (csum bs)"
proof -
  from assms(2) obtain b cs where bs: "bs = b # cs" by (cases bs) auto
  show "rd8 m a = Inr (hd bs)" "holds m (a + 1) (tl bs)" using assms(1) by (simp_all add: bs rd8_def)
  have "ceq (256 * csum cs + 65536 * unat b) (256 * csum cs + unat b)"
    by (intro ceq_add ceq_refl ceq_shift_mult) simp
  then show "ceq (256 * (csum (tl bs) + 256 * unat (hd bs))) (csum bs)"
    by (simp add: bs algebra_simps)
qed

lemma chksum_alg2_spec:
  assumes "holds m a bs" "length bs \<le> 65535"
  shows "chksum_alg2 m a (length bs) = Inr (ones_sum bs)"
proof -
  define skip where "skip \<longleftrightarrow> odd a \<and> bs \<noteq> []"
  define cs where "cs = (if skip then tl bs else bs)"
  define hi where "hi = (if skip then hd bs else 0)"
  have h: "holds m (if skip then a + 1 else a) cs" "(if skip then rd8 m a else Inr 0) = Inr hi"
    "(if skip then length bs - 1 else length bs) = length cs"
    using odd_entry [OF assms(1)] assms(1) by (auto simp: cs_def hi_def skip_def)
  have "length cs \<le> 65535" using assms(2) by (cases skip) (auto simp: cs_def)
  then have l: "unat (0 :: u32) + 65536 * length cs \<le> 4294967295" by simp
  from sum16_loop_spec [OF h(1) l] obtain s where
    s: "sum16_loop m (if skip then a + 1 else a) (length cs) 0
          = Inr ((if skip then a + 1 else a) + evens (length cs), length cs mod 2, s)"
    "ceq (unat s) (csum (take (evens (length cs)) cs))" "unat s \<le> 65536 * evens (length cs)"
    by auto
  note td = take_drop_evens [OF h(1)]
  have "evens (length cs) \<le> 65534"
    using assms(2) by (auto simp: cs_def evens_def) presburger+
  then have sb: "unat s \<le> 4294836224" using s(3) by linarith
  from chksum_tail_spec [OF td(1) drop_evens_le sb, of hi "odd a"] obtain c where
    c: "chksum_tail m ((if skip then a + 1 else a) + evens (length cs)) (length cs mod 2) s hi (odd a) = Inr c"
    "ceq (unat c) ((if odd a then 256 else 1) * (unat s + csum (drop (evens (length cs)) cs) + 256 * unat hi))"
    unfolding td(2) by auto
  have "ceq (unat s + csum (drop (evens (length cs)) cs)) (csum cs)"
    using ceq_trans [OF ceq_add [OF s(2) ceq_refl] ceq_sym [OF td(3)]] .
  then have "ceq (unat c) ((if odd a then 256 else 1) * (csum cs + 256 * unat hi))"
    by (intro ceq_trans [OF c(2)] ceq_mult ceq_add ceq_refl)
  also have "ceq \<dots> (csum bs)"
    using odd_entry(3) [OF assms(1)] by (auto simp: cs_def hi_def skip_def)
  finally have "c = ones_sum bs" by (rule ones_sumI)
  moreover have "chksum_alg2 m a (length bs) = Inr c"
    unfolding chksum_alg2_def using h(2,3) s(1) c(1) by (simp add: Let_def skip_def [symmetric])
  ultimately show ?thesis by simp
qed

lemma chksum_alg3_spec:
  assumes "holds m a bs"
  shows "lwip_standard_chksum m a (length bs) = Inr (ones_sum bs)"
proof -
  define skip where "skip \<longleftrightarrow> odd a \<and> bs \<noteq> []"
  define cs where "cs = (if skip then tl bs else bs)"
  define hi where "hi = (if skip then hd bs else 0)"
  define pb where "pb = (if skip then a + 1 else a)"
  have h: "holds m pb cs" "(if skip then rd8 m a else Inr 0) = Inr hi"
    "(if skip then length bs - 1 else length bs) = length cs"
    using odd_entry [OF assms(1)] assms(1) by (auto simp: cs_def hi_def skip_def pb_def)
  define lead where "lead \<longleftrightarrow> pb mod 4 \<noteq> 0 \<and> 1 < length cs"
  define ds where "ds = (if lead then drop 2 cs else cs)"
  define w where "w = (if lead then le16 (cs ! 0) (cs ! 1) else 0)"
  define pl where "pl = (if lead then pb + 2 else pb)"
  have l: "holds m pl ds" "(if lead then rd16 m pb else Inr 0) = Inr w"
    "(if lead then length cs - 2 else length cs) = length ds"
    "ceq (csum cs) (unat w + csum ds)"
  proof -
    show "holds m pl ds" using h(1) holds_drop [OF h(1), of 2] by (simp add: ds_def pl_def lead_def)
    show "(if lead then rd16 m pb else Inr 0) = Inr w"
      using rd16_holds [OF h(1), of 0] by (auto simp: w_def lead_def)
    show "(if lead then length cs - 2 else length cs) = length ds" by (simp add: ds_def)
    show "ceq (csum cs) (unat w + csum ds)"
    proof (cases lead)
      case True
      then obtain x y es where "cs = x # y # es" unfolding lead_def using length_ge_2 by blast
      with True show ?thesis
        by (simp add: w_def ds_def unat_le16 add.assoc ceq_add ceq_shift_mult)
    qed (simp add: w_def ds_def)
  qed
  from sum32_loop_spec [OF l(1), of "ucast w"] obtain s where
    s: "sum32_loop m pl (length ds) (ucast w)
          = Inr (pl + (length ds - length ds mod 8), length ds mod 8, s)"
    "ceq (unat s) (unat w + csum (take (length ds - length ds mod 8) ds))" by auto
  define k where "k = length ds - length ds mod 8"
  define es where "es = drop k ds"
  have k: "k \<le> length ds" "even k" by (simp_all add: k_def minus_mod_eq_mult_div)
  have e: "holds m (pl + k) es" "length es = length ds mod 8"
    using holds_drop [OF l(1) k(1)] by (simp_all add: es_def k_def)
  have ds: "ceq (csum ds) (csum (take k ds) + csum es)"
    using csum_append_even [of "take k ds" es] k by (simp add: es_def min_absorb2)
  have fs: "unat (FOLD_U32T s) \<le> 131070"
    unfolding unat_FOLD using unat_u32_lt [of s] mod_less_divisor [of 65536 "unat s"]
      less_mult_imp_div_less [of "unat s" 65536 65536] by linarith
  have el: "length es < 8" by (simp add: e(2))
  from sum16_loop_spec [OF e(1), of "FOLD_U32T s"] fs el obtain t where
    t: "sum16_loop m (pl + k) (length es) (FOLD_U32T s)
          = Inr (pl + k + evens (length es), length es mod 2, t)"
    "ceq (unat t) (unat (FOLD_U32T s) + csum (take (evens (length es)) es))"
    "unat t \<le> unat (FOLD_U32T s) + 65536 * evens (length es)" by auto
  note td = take_drop_evens [OF e(1)]
  have "evens (length es) \<le> length es" by (simp add: evens_def)
  then have tb: "unat t \<le> 4294836224" using t(3) fs el by linarith
  from chksum_tail_spec [OF td(1) drop_evens_le tb, of hi "odd a"] obtain c where
    c: "chksum_tail m (pl + k + evens (length es)) (length es mod 2) t hi (odd a) = Inr c"
    "ceq (unat c) ((if odd a then 256 else 1) * (unat t + csum (drop (evens (length es)) es) + 256 * unat hi))"
    unfolding td(2) by auto
  let ?e1 = "csum (take (evens (length es)) es)" and ?e2 = "csum (drop (evens (length es)) es)"
  have "ceq (unat t + ?e2) (unat (FOLD_U32T s) + (?e1 + ?e2))"
    using ceq_add [OF t(2) ceq_refl, of ?e2] by (simp only: add.assoc)
  also have "ceq \<dots> (unat s + csum es)" by (intro ceq_add ceq_FOLD ceq_sym [OF td(3)])
  also have "ceq \<dots> (unat w + (csum (take k ds) + csum es))"
    using ceq_add [OF s(2) ceq_refl, of "csum es"] by (simp only: add.assoc k_def)
  also have "ceq \<dots> (unat w + csum ds)" by (intro ceq_add ceq_refl ceq_sym [OF ds])
  also have "ceq \<dots> (csum cs)" by (rule ceq_sym [OF l(4)])
  finally have "ceq (unat c) ((if odd a then 256 else 1) * (csum cs + 256 * unat hi))"
    by (intro ceq_trans [OF c(2)] ceq_mult ceq_add ceq_refl)
  also have "ceq \<dots> (csum bs)"
    using odd_entry(3) [OF assms(1)] by (auto simp: cs_def hi_def skip_def)
  finally have "c = ones_sum bs" by (rule ones_sumI)
  moreover have "lwip_standard_chksum m a (length bs) = Inr c"
  proof -
    have sk: "(odd a \<and> 0 < length bs) = skip" by (simp add: skip_def)
    have s': "sum32_loop m pl (length ds) (ucast w) = Inr (pl + k, length es, s)"
      using s(1) by (simp only: k_def e(2))
    show ?thesis
      unfolding lwip_standard_chksum_def Let_def sk h(2,3) rbind_Inr pb_def [symmetric]
        lead_def [symmetric] l(2,3) pl_def [symmetric] s' t(1) prod.case c(1) ..
  qed
  ultimately show ?thesis by simp
qed

lemma alg1_loop_spec:
  assumes "holds m a bs" "unat s + 65536 * length bs \<le> 4294967295"
  shows "\<exists>s'. alg1_loop m a (length bs) s = Inr (a + evens (length bs), length bs mod 2, s')
      \<and> ceq (256 * unat s') (256 * unat s + csum (take (evens (length bs)) bs))
      \<and> unat s' \<le> unat s + 65536 * evens (length bs)"
  using assms
proof (induction "length bs" arbitrary: bs a s rule: less_induct)
  case less
  show ?case
  proof (cases "1 < length bs")
    case False
    then consider "bs = []" | x where "bs = [x]" by (cases bs) auto
    then show ?thesis by cases (simp_all add: alg1_loop.simps)
  next
    case True
    then obtain x y cs where bs: "bs = x # y # cs" using length_ge_2 by blast
    let ?s = "s + ucast (le16 y x)"
    have le: "unat (le16 y x) < 65536" by simp
    have "unat s + unat (le16 y x) < 4294967296"
      using less.prems(2) le unfolding bs by (simp del: unat_u16_lt)
    then have u: "unat ?s = unat s + unat (le16 y x)"
      by (simp only: unat_word_ariths unat_ucast_u16_u32) simp
    have h2: "holds m (a + 2) cs" using less.prems(1) unfolding bs by simp
    have l2: "unat ?s + 65536 * length cs \<le> 4294967295"
      using less.prems(2) le unfolding bs u by (simp del: unat_u16_lt)
    from less.hyps [OF _ h2 l2] obtain s' where
      s': "alg1_loop m (a + 2) (length cs) ?s = Inr (a + 2 + evens (length cs), length cs mod 2, s')"
      "ceq (256 * unat s') (256 * unat ?s + csum (take (evens (length cs)) cs))"
      "unat s' \<le> unat ?s + 65536 * evens (length cs)"
      unfolding bs by auto
    have e: "alg1_loop m a (length bs) s = alg1_loop m (a + 2) (length cs) ?s"
      using less.prems(1) unfolding bs
      by (subst alg1_loop.simps) (simp add: rd8_def Let_def be_src)
    let ?r = "csum (take (evens (length cs)) cs)"
    have "256 * unat ?s + ?r = 256 * unat s + (65536 * unat x + 256 * unat y + ?r)"
      unfolding u unat_le16 by (simp add: algebra_simps)
    also have "ceq \<dots> (256 * unat s + (unat x + 256 * unat y + 65536 * ?r))"
      by (intro ceq_add ceq_refl ceq_shift_mult ceq_sym [OF ceq_shift_mult]) simp_all
    finally have c1: "ceq (256 * unat ?s + ?r) (256 * unat s + (unat x + 256 * unat y + 65536 * ?r))" .
    have c2: "csum (take (evens (length bs)) bs) = unat x + 256 * unat y + 65536 * ?r"
      by (simp add: bs)
    have "ceq (256 * unat s') (256 * unat s + csum (take (evens (length bs)) bs))"
      unfolding c2 by (rule ceq_trans [OF s'(2) c1])
    moreover have "unat s' \<le> unat s + 65536 * evens (length bs)"
      using s'(3) le unfolding bs u by (simp del: unat_u16_lt)
    ultimately show ?thesis using s'(1) unfolding e by (auto simp: bs)
  qed
qed

lemma chksum_alg1_spec:
  assumes "holds m a bs" "length bs \<le> 65535"
  shows "chksum_alg1 m a (of_nat (length bs)) = Inr (ones_sum bs)"
proof -
  have ln: "unat (of_nat (length bs) :: u16) = length bs"
    using assms(2) by (simp only: unsigned_of_nat) (simp add: take_bit_nat_eq_self)
  have "unat (0 :: u32) + 65536 * length bs \<le> 4294967295" using assms(2) by simp
  from alg1_loop_spec [OF assms(1) this] obtain s where
    s: "alg1_loop m a (length bs) 0 = Inr (a + evens (length bs), length bs mod 2, s)"
    "ceq (256 * unat s) (csum (take (evens (length bs)) bs))" "unat s \<le> 65536 * evens (length bs)"
    by auto
  define r where "r = drop (evens (length bs)) bs"
  note td = take_drop_evens [OF assms(1), folded r_def]
  define t where "t = (if r = [] then s else s + ucast (push_bit 8 (ucast (hd r)) :: u16))"
  have rl: "length r \<le> 1" using td(2) by simp
  have "evens (length bs) \<le> 65534" using assms(2) by (auto simp: evens_def) presburger
  then have sb: "unat s \<le> 4294836224" using s(3) by linarith
  have t: "(if 0 < length bs mod 2 then rbind (rd8 m (a + evens (length bs))) (\<lambda>b.
       let src = push_bit 8 (ucast b) :: u16 in Inr (s + ucast src)) else Inr s) = Inr t"
    "ceq (256 * unat t) (256 * unat s + csum r)"
    unfolding td(2) [symmetric] atomize_conj
  proof (cases r)
    case (Cons b q)
    with rl have r: "r = [b]" by simp
    have p: "(push_bit 8 (ucast b) :: u16) = le16 0 b" using be_src [of b 0] by simp
    have "256 * unat b < 65536" by simp
    then have "unat s + 256 * unat b < 4294967296" using sb by linarith
    then have "unat t = unat s + 256 * unat b"
      unfolding t_def r p list.sel(1)
      by (simp only: unat_word_ariths unat_ucast_u16_u32 unat_le16 list.distinct if_False) simp
    then have "256 * unat t = 256 * unat s + 65536 * unat b" by simp
    then have "ceq (256 * unat t) (256 * unat s + csum r)"
      using ceq_add [OF ceq_refl [of "256 * unat s"] ceq_shift_mult [of 65536 "unat b"]] by (simp add: r)
    with td(1) show "(if 0 < length r then rbind (rd8 m (a + evens (length bs))) (\<lambda>b.
         let src = push_bit 8 (ucast b) :: u16 in Inr (s + ucast src)) else Inr s) = Inr t \<and>
       ceq (256 * unat t) (256 * unat s + csum r)"
      by (simp add: r t_def rd8_def Let_def)
  qed (simp add: t_def)
  let ?f = "if FOLD_U32T t AND 0xffff0000 \<noteq> 0 then FOLD_U32T (FOLD_U32T t) else FOLD_U32T t"
  have hi: "(w AND 0xffff0000 \<noteq> 0) \<longleftrightarrow> 65536 \<le> unat w" for w :: u32
    by (rule and_hi16)
  have f: "unat ?f \<le> 65535" "ceq (unat ?f) (unat t)"
    using FOLD_FOLD_le [of t] ceq_trans [OF ceq_FOLD ceq_FOLD [of t]] ceq_FOLD [of t]
    by (auto simp: hi)
  let ?c = "lwip_htons (ucast ?f)"
  have "ceq (unat ?c) (256 * unat ?f)"
    using ceq_htons [of "ucast ?f"] f(1) by (simp add: unat_ucast_u32_u16)
  also have "ceq \<dots> (256 * unat t)" by (rule ceq_mult [OF f(2)])
  also have "ceq \<dots> (256 * unat s + csum r)" by (rule t(2))
  also have "ceq \<dots> (csum (take (evens (length bs)) bs) + csum r)" by (rule ceq_add [OF s(2) ceq_refl])
  also have "ceq \<dots> (csum bs)" by (rule ceq_sym [OF td(3)])
  finally have "?c = ones_sum bs" by (rule ones_sumI)
  moreover have "chksum_alg1 m a (of_nat (length bs)) = Inr ?c"
    unfolding chksum_alg1_def ln s(1) rbind_Inr prod.case t(1) by (simp add: FOLD_U32T_def Let_def)
  ultimately show ?thesis by simp
qed

section \<open>Chains of pbufs\<close>

lemma word_mod2: "(w :: u16) mod 2 = 0 \<longleftrightarrow> even (unat w)"
proof -
  have "unat (w mod 2) = unat w mod 2" by (simp add: unat_mod)
  then show ?thesis by (metis even_iff_mod_2_eq_zero unat_eq_zero)
qed

text \<open>The accumulator after the bytes \<open>P\<close> of a chain.\<close>

definition chain_acc :: "u8 list \<Rightarrow> u32 \<Rightarrow> bool \<Rightarrow> bool" where
  "chain_acc P acc swapped \<longleftrightarrow> unat acc \<le> 65535 \<and> swapped = odd (length P)
     \<and> ceq (unat acc) (if swapped then 256 * csum P else csum P)"

lemma chain_acc_step:
  fixes q :: "u8 list" and acc :: u32
  defines "acc1 \<equiv> FOLD_U32T (acc + ucast (ones_sum q))"
  assumes "chain_acc P acc sw"
  shows "odd (length q) \<Longrightarrow> chain_acc (P @ q) (SWAP_BYTES_IN_WORD acc1) (\<not> sw)"
    "even (length q) \<Longrightarrow> chain_acc (P @ q) acc1 sw"
proof -
  let ?k = "if sw then 256 else 1 :: nat"
  have a: "unat acc \<le> 65535" "sw = odd (length P)" "ceq (unat acc) (?k * csum P)"
    using assms(2) by (auto simp: chain_acc_def)
  have c: "unat (ones_sum q) \<le> 65535" using oc_le [of "csum q"] by (simp add: unat_ones_sum)
  have "unat acc + unat (ones_sum q) < 4294967296" using a(1) c by linarith
  then have u: "unat (acc + ucast (ones_sum q)) = unat acc + unat (ones_sum q)"
    by (simp only: unat_word_ariths unat_ucast_u16_u32) simp
  then have le: "unat acc1 \<le> 65535" unfolding acc1_def using a(1) c by (intro FOLD_le) linarith
  have "ceq (unat acc1) (?k * csum P + csum q)"
    unfolding acc1_def
    by (rule ceq_trans [OF ceq_FOLD]) (simp add: u unat_ones_sum ceq_add a(3) ceq_oc)
  also have "ceq \<dots> (?k * csum (P @ q))"
  proof (cases sw)
    case True
    have "ceq (256 * csum P + csum q) (256 * csum P + 65536 * csum q)"
      by (intro ceq_add ceq_refl ceq_sym [OF ceq_shift_mult]) simp
    also have "\<dots> = 256 * (csum P + 256 * csum q)" by simp
    also have "ceq \<dots> (256 * csum (P @ q))"
      using True a(2) by (intro ceq_mult ceq_sym [OF csum_append_odd]) simp
    finally show ?thesis using True by simp
  qed (use a(2) in \<open>simp add: ceq_sym [OF csum_append_even]\<close>)
  finally have acc1: "ceq (unat acc1) (?k * csum (P @ q))" .
  show "odd (length q) \<Longrightarrow> chain_acc (P @ q) (SWAP_BYTES_IN_WORD acc1) (\<not> sw)"
  proof -
    assume o: "odd (length q)"
    have "ceq (unat (SWAP_BYTES_IN_WORD acc1)) (256 * (?k * csum (P @ q)))"
      by (rule ceq_trans [OF ceq_SWAP [OF le] ceq_mult [OF acc1]])
    moreover have "ceq (65536 * csum (P @ q)) (csum (P @ q))" by (rule ceq_shift_mult) simp
    ultimately have "ceq (unat (SWAP_BYTES_IN_WORD acc1)) (if \<not> sw then 256 * csum (P @ q) else csum (P @ q))"
      by (cases sw) (auto simp: mult.assoc [symmetric] intro: ceq_trans)
    then show ?thesis using o a(2) SWAP_le by (simp add: chain_acc_def)
  qed
  show "even (length q) \<Longrightarrow> chain_acc (P @ q) acc1 sw"
    using acc1 le a(2) by (auto simp: chain_acc_def)
qed

lemma chksum_chain_spec:
  assumes "pchain (pbufs st) p xs" "chain_data (bytes st) (pbufs st) xs bs" "length xs \<le> fuel"
    "chain_acc P acc sw"
  shows "\<exists>acc' sw'. chksum_chain fuel st p acc sw = Inr (acc', sw') \<and> chain_acc (P @ bs) acc' sw'"
  using assms
proof (induction fuel arbitrary: p xs bs P acc sw)
  case (Suc fuel)
  show ?case
  proof (cases xs)
    case (Cons x xr)
    with Suc.prems(1) obtain b where p: "p = x" "x \<noteq> 0" and b: "pbufs st x = Some b"
      and ch: "pchain (pbufs st) (pb_next b) xr" unfolding Cons pchain_Cons_iff by blast
    let ?n = "unat (pb_len b)"
    have d: "?n \<le> length bs" "holds (bytes st) (payload b) (take ?n bs)"
      "chain_data (bytes st) (pbufs st) xr (drop ?n bs)"
      using Suc.prems(2) b by (simp_all add: Cons)
    have fl: "length xr \<le> fuel" using Suc.prems(3) Cons by simp
    have lt: "length (take ?n bs) = ?n" using d(1) by simp
    have c: "lwip_standard_chksum (bytes st) (payload b) ?n = Inr (ones_sum (take ?n bs))"
      using chksum_alg3_spec [OF d(2)] by (simp only: lt)
    note step = chain_acc_step [OF Suc.prems(4), of "take ?n bs", unfolded lt]
    show ?thesis
    proof (cases "odd ?n")
      case True
      from Suc.IH [OF ch d(3) fl step(1) [OF True]] True show ?thesis
        using p b by (simp add: res_simps c Let_def word_mod2)
    next
      case False
      then have ev: "even ?n" by simp
      from Suc.IH [OF ch d(3) fl step(2) [OF ev]] ev show ?thesis
        using p b by (simp add: res_simps c Let_def word_mod2)
    qed
  qed (use Suc.prems in auto)
qed auto

lemma chain_acc_result:
  assumes "chain_acc bs acc sw"
  defines "r \<equiv> if sw then SWAP_BYTES_IN_WORD acc else acc"
  shows "unat r \<le> 65535" "ceq (unat r) (csum bs)"
proof -
  have a: "unat acc \<le> 65535" "ceq (unat acc) (if sw then 256 * csum bs else csum bs)"
    using assms(1) by (auto simp: chain_acc_def)
  show "unat r \<le> 65535" using a(1) SWAP_le by (simp add: r_def)
  show "ceq (unat r) (csum bs)"
  proof (cases sw)
    case True
    have "ceq (unat r) (256 * (256 * csum bs))"
      using True a ceq_trans [OF ceq_SWAP [OF a(1)] ceq_mult [OF a(2)]] by (simp add: r_def)
    also have "ceq \<dots> (csum bs)" by (simp only: mult.assoc [symmetric]) (rule ceq_shift_mult, simp)
    finally show ?thesis .
  qed (use a(2) in \<open>simp add: r_def\<close>)
qed

lemma chain_acc_Nil: "chain_acc [] 0 False"
  by (simp add: chain_acc_def)

lemma inet_chksum_pbuf_spec:
  assumes "pchain (pbufs st) p xs" "chain_data (bytes st) (pbufs st) xs bs" "length xs \<le> chain_fuel"
  shows "inet_chksum_pbuf st p = Inr (NOT (ones_sum bs))"
proof -
  from chksum_chain_spec [OF assms chain_acc_Nil] obtain acc sw where
    r: "chksum_chain chain_fuel st p 0 False = Inr (acc, sw)" "chain_acc bs acc sw" by auto
  let ?r = "if sw then SWAP_BYTES_IN_WORD acc else acc"
  note cr = chain_acc_result [OF r(2)]
  have "unat (ucast ?r :: u16) = unat ?r" using cr(1) by (simp only: unat_ucast_u32_u16) simp
  then have "(ucast ?r :: u16) = ones_sum bs" using cr(2) by (intro ones_sumI) simp
  with r(1) show ?thesis by (simp add: inet_chksum_pbuf_def)
qed

text \<open>The pseudo header of TCP and UDP in network byte order.\<close>

definition pseudo_header :: "u32 \<Rightarrow> u32 \<Rightarrow> u8 \<Rightarrow> u16 \<Rightarrow> u8 list" where
  "pseudo_header src dest proto proto_len =
     bytes32 src @ bytes32 dest @ [0, proto] @ bytes16 (lwip_htons proto_len)"

lemma csum_bytes16: "csum (bytes16 v) = unat v"
  using unat_le16 [of "ucast v" "ucast (drop_bit 8 v)"] by (simp add: bytes16_def le16_bytes16)

lemma csum_bytes32: "csum (bytes32 v) = unat v"
  using unat_le32 [of "ucast v" "ucast (drop_bit 8 v)" "ucast (drop_bit 16 v)" "ucast (drop_bit 24 v)"]
  by (simp add: bytes32_def le32_bytes32)

lemma unat_drop16_and: "unat (drop_bit 16 (w :: u32) AND 0xffff) = unat w div 65536"
proof -
  have "unat w div 65536 < 65536" using unat_u32_lt [of w] by (simp add: less_mult_imp_div_less)
  then show ?thesis by (simp only: unat_and_ffff unat_drop_bit) simp
qed

lemma ceq_halves: "ceq (unat (w AND 0xffff) + unat (drop_bit 16 w AND 0xffff)) (unat (w :: u32))"
  using ceq_FOLD [of w] unfolding unat_FOLD unat_drop16_and unat_and_ffff [of w] by (simp add: add.commute)

lemma unat_htons_proto: "unat (lwip_htons (ucast (proto :: u8))) = 256 * unat proto"
proof -
  have "unat (ucast proto :: u16) = unat proto"
    by (simp add: unsigned_ucast_eq take_bit_nat_eq_self less_trans [OF unat_u8_lt])
  then show ?thesis by (simp add: unat_htons)
qed

lemma pseudo_finish_spec:
  assumes "unat acc \<le> 65535" "ceq (unat acc) (csum bs)"
  shows "pseudo_finish acc src dest proto n = NOT (ones_sum (pseudo_header src dest proto n @ bs))"
proof -
  let ?s = "acc + (src AND 0xffff) + (drop_bit 16 src AND 0xffff)
     + (dest AND 0xffff) + (drop_bit 16 dest AND 0xffff)
     + ucast (lwip_htons (ucast proto)) + ucast (lwip_htons n)"
  have h: "unat (w AND 0xffff) \<le> 65535" "unat (drop_bit 16 w AND 0xffff) \<le> 65535" for w :: u32
    using mod_less_divisor [of 65536 "unat w"] mod_less_divisor [of 65536 "unat (drop_bit 16 w)"]
    by (simp_all only: unat_and_ffff)
  have h16: "unat (w :: u16) \<le> 65535" for w using unat_u16_lt [of w] by linarith
  have u: "unat ?s = unat acc + unat (src AND 0xffff) + unat (drop_bit 16 src AND 0xffff)
     + unat (dest AND 0xffff) + unat (drop_bit 16 dest AND 0xffff)
     + unat (lwip_htons (ucast proto)) + unat (lwip_htons n)"
    using assms(1) h [of src] h [of dest] h16 [of "lwip_htons (ucast proto)"] h16 [of "lwip_htons n"]
    by (simp only: unat_word_ariths unat_ucast_u16_u32 mod_less) simp
  let ?hd = "[0, proto] @ bytes16 (lwip_htons n)"
  have hd: "csum (pseudo_header src dest proto n @ bs)
      = unat src + 4294967296 * (unat dest + 4294967296 * (256 * unat proto + 65536 * (unat (lwip_htons n) + 65536 * csum bs)))"
    by (simp add: pseudo_header_def csum_append csum_bytes16 csum_bytes32) (simp add: bytes16_def bytes32_def)
  have "ceq (unat ?s) (unat src + (unat dest + (256 * unat proto + (unat (lwip_htons n) + csum bs))))"
  proof -
    have "unat ?s = (unat (src AND 0xffff) + unat (drop_bit 16 src AND 0xffff))
       + ((unat (dest AND 0xffff) + unat (drop_bit 16 dest AND 0xffff))
          + (256 * unat proto + (unat (lwip_htons n) + unat acc)))"
      unfolding u unat_htons_proto by simp
    then show ?thesis by (simp only:) (intro ceq_add ceq_halves ceq_refl assms(2))
  qed
  also have "ceq \<dots> (csum (pseudo_header src dest proto n @ bs))"
    unfolding hd
    by (intro ceq_add ceq_refl ceq_trans [OF _ ceq_sym [OF ceq_shift_mult]]) simp_all
  finally have "ceq (unat (FOLD_U32T (FOLD_U32T ?s))) (csum (pseudo_header src dest proto n @ bs))"
    by (rule ceq_trans [OF ceq_trans [OF ceq_FOLD ceq_FOLD]])
  moreover have "unat (ucast (FOLD_U32T (FOLD_U32T ?s)) :: u16) = unat (FOLD_U32T (FOLD_U32T ?s))"
    using FOLD_FOLD_le [of ?s] by (simp only: unat_ucast_u32_u16) simp
  ultimately have "(ucast (FOLD_U32T (FOLD_U32T ?s)) :: u16) = ones_sum (pseudo_header src dest proto n @ bs)"
    by (intro ones_sumI) simp
  then show ?thesis by (simp add: pseudo_finish_def Let_def)
qed

lemma inet_chksum_pseudo_spec:
  assumes "pchain (pbufs st) p xs" "chain_data (bytes st) (pbufs st) xs bs" "length xs \<le> chain_fuel"
  shows "inet_chksum_pseudo st p src dest proto n = Inr (NOT (ones_sum (pseudo_header src dest proto n @ bs)))"
proof -
  from chksum_chain_spec [OF assms chain_acc_Nil] obtain acc sw where
    r: "chksum_chain chain_fuel st p 0 False = Inr (acc, sw)" "chain_acc bs acc sw" by auto
  from pseudo_finish_spec [OF chain_acc_result [OF r(2)]] r(1) show ?thesis
    by (simp add: inet_chksum_pseudo_def)
qed

section \<open>Inserting a checksum\<close>

lemma not_zero_eq_ffff: "NOT (w :: u16) = 0 \<longleftrightarrow> w = 0xffff"
proof -
  have "NOT w = 0 \<longleftrightarrow> NOT (NOT w) = NOT 0" by (metis bit.double_compl)
  moreover have "(- 1 :: u16) = 0xffff" by (simp add: word_unat_eq_iff unsigned_minus_1_eq_mask mask_eq_exp_minus_1)
  ultimately show ?thesis by simp
qed

lemma csum_eq_0: "csum bs = 0 \<longleftrightarrow> (\<forall>b \<in> set bs. b = 0)"
  by (induction bs) (auto simp: unsigned_eq_0_iff)

lemma ones_sum_ffff: "ones_sum bs = 0xffff \<longleftrightarrow> csum bs mod 65535 = 0 \<and> csum bs \<noteq> 0"
proof -
  have "ones_sum bs = 0xffff \<longleftrightarrow> oc (csum bs) = 65535" using unat_ones_sum [of bs] by (auto simp: word_unat_eq_iff)
  also have "\<dots> \<longleftrightarrow> ceq 65535 (csum bs)"
    using ceq_small_oc [of 65535 "csum bs"] ceq_oc [of "csum bs"] by auto
  also have "\<dots> \<longleftrightarrow> csum bs mod 65535 = 0 \<and> csum bs \<noteq> 0" by (auto simp: ceq_def)
  finally show ?thesis .
qed

lemma csum_append2:
  assumes "even (length xs)"
  shows "ceq (csum (xs @ bytes16 w @ ys)) (csum xs + unat w + csum ys)"
proof -
  have "ceq (csum (xs @ bytes16 w @ ys)) (csum xs + csum (bytes16 w @ ys))" by (rule csum_append_even [OF assms])
  also have "ceq (csum xs + csum (bytes16 w @ ys)) (csum xs + (unat w + csum ys))"
    using csum_append_even [of "bytes16 w" ys] by (intro ceq_add ceq_refl) (simp add: bytes16_len csum_bytes16)
  finally show ?thesis by (simp add: add.assoc)
qed

lemma ones_sum_insert:
  assumes "even (length xs)"
  shows "ones_sum (xs @ bytes16 (NOT (ones_sum (xs @ bytes16 0 @ ys))) @ ys) = 0xffff"
proof -
  let ?o = "ones_sum (xs @ bytes16 0 @ ys)"
  note split = csum_append2 [OF assms]
  have o: "ceq (unat ?o) (csum xs + csum ys)"
    using ceq_trans [OF ceq_oc split [of 0 ys]] by (simp add: unat_ones_sum)
  have n: "unat (NOT ?o) = 65535 - unat ?o"
  proof -
    have "NOT ?o = 65535 - ?o" by (simp add: not_eq_complement)
    moreover have "unat ?o \<le> 65535" using unat_u16_lt [of ?o] by linarith
    ultimately show ?thesis by (simp add: unat_sub word_le_nat_alt)
  qed
  have "ceq (csum (xs @ bytes16 (NOT ?o) @ ys)) (csum xs + csum ys + (65535 - unat ?o))"
    using split [of "NOT ?o" ys] n by (simp add: ac_simps)
  also have "ceq \<dots> (unat ?o + (65535 - unat ?o))" by (intro ceq_add ceq_sym [OF o] ceq_refl)
  also have "unat ?o + (65535 - unat ?o) = 65535" using unat_u16_lt [of ?o] by linarith
  finally have "ceq (unat (0xffff :: u16)) (csum (xs @ bytes16 (NOT ?o) @ ys))" by (simp add: ceq_sym)
  then show ?thesis by (rule ones_sumI [symmetric])
qed

lemma inet_chksum_holds:
  "holds m a bs \<Longrightarrow> length bs \<le> 65535 \<Longrightarrow> inet_chksum m a (of_nat (length bs)) = Inr (NOT (ones_sum bs))"
  using chksum_alg3_spec [of m a bs] by (simp add: inet_chksum_def unat_of_nat)

section \<open>Properties\<close>

text \<open>C19: the optimised checksum of the build (algorithm 3, with unrolled word sums and treatment of
  odd addresses) and algorithm 2 return what the byte-wise reference algorithm 1 returns, on every
  buffer of at most 65535 bytes at any address.\<close>

theorem chksum_algorithms_agree:
  assumes "holds m a bs" "length bs \<le> 65535"
  shows "lwip_standard_chksum m a (length bs) = chksum_alg1 m a (of_nat (length bs))
    \<and> chksum_alg2 m a (length bs) = chksum_alg1 m a (of_nat (length bs))"
  using chksum_alg1_spec [OF assms] chksum_alg2_spec [OF assms] chksum_alg3_spec [OF assms(1)] by simp

theorem chksum_algorithms_agree_witness:
  "lwip_standard_chksum [101 \<mapsto> 0x45, 102 \<mapsto> 0xff, 103 \<mapsto> 0x80] 101 3
     = chksum_alg1 [101 \<mapsto> 0x45, 102 \<mapsto> 0xff, 103 \<mapsto> 0x80] 101 3"
  using chksum_algorithms_agree [of "[101 \<mapsto> 0x45, 102 \<mapsto> 0xff, 103 \<mapsto> 0x80]" 101 "[0x45, 0xff, 0x80]"]
  by (simp add: numeral_3_eq_3)

text \<open>The checksum of a pbuf chain does not depend on how the bytes are split into pbufs: it is the
  checksum \<open>inet_chksum\<close> of the same bytes in one buffer, wherever that buffer lies.\<close>

theorem inet_chksum_pbuf_correct:
  assumes "pchain (pbufs st) p xs" "chain_data (bytes st) (pbufs st) xs bs" "length xs \<le> chain_fuel"
    "holds m a bs" "length bs \<le> 65535"
  shows "inet_chksum_pbuf st p = inet_chksum m a (of_nat (length bs))"
proof -
  have "unat (of_nat (length bs) :: u16) = length bs"
    using assms(5) by (simp only: unsigned_of_nat) (simp add: take_bit_nat_eq_self)
  then show ?thesis
    using inet_chksum_pbuf_spec [OF assms(1-3)] chksum_alg3_spec [OF assms(4)]
    by (simp add: inet_chksum_def)
qed

theorem inet_chksum_pbuf_correct_witness:
  "inet_chksum_pbuf sample_chain 100
     = inet_chksum [601 \<mapsto> 0x45, 602 \<mapsto> 0x67, 603 \<mapsto> 0x89, 604 \<mapsto> 0xab, 605 \<mapsto> 0xcd] 601 5"
proof -
  have c: "pchain (pbufs sample_chain) 100 [100, 200]" by (simp add: sample_defs)
  have d: "chain_data (bytes sample_chain) (pbufs sample_chain) [100, 200] [0x45, 0x67, 0x89, 0xab, 0xcd]"
    by (simp add: sample_defs)
  show ?thesis
    using inet_chksum_pbuf_correct [OF c d, of "[601 \<mapsto> 0x45, 602 \<mapsto> 0x67, 603 \<mapsto> 0x89, 604 \<mapsto> 0xab, 605 \<mapsto> 0xcd]" 601]
    by (simp add: chain_fuel_def)
qed

end
