(* ===== verification/IpAddr.thy ===== *)
theory IpAddr
  imports Byteorder
begin

text \<open>
  IPv4 addresses: \<^verbatim>\<open>lwip-1.4.1/src/core/ipv4/ip_addr.c\<close> and the macros of
  \<^verbatim>\<open>ipv4/lwip/ip_addr.h\<close>, and the network interface structure of \<^verbatim>\<open>lwip/netif.h\<close>. Addresses are
  32-bit words in network byte order, as in \<^verbatim>\<open>struct ip_addr\<close>: on the little endian processor the
  first part of the dotted notation is the lowest byte. Strings are lists of bytes; reading past the
  end of the list yields the terminating 0 of a C string.
\<close>

section \<open>Macros\<close>

definition IPADDR_ANY :: u32 where "IPADDR_ANY = 0"
definition IPADDR_BROADCAST :: u32 where "IPADDR_BROADCAST = 0xffffffff"
definition IPADDR_NONE :: u32 where "IPADDR_NONE = 0xffffffff"

definition IP4_ADDR :: "u32 \<Rightarrow> u32 \<Rightarrow> u32 \<Rightarrow> u32 \<Rightarrow> u32" where
  "IP4_ADDR a b c d =
     push_bit 24 (d AND 0xff) OR push_bit 16 (c AND 0xff) OR push_bit 8 (b AND 0xff) OR (a AND 0xff)"

definition ip4_addr1 :: "u32 \<Rightarrow> u8" where "ip4_addr1 a = bytes32 a ! 0"
definition ip4_addr2 :: "u32 \<Rightarrow> u8" where "ip4_addr2 a = bytes32 a ! 1"
definition ip4_addr3 :: "u32 \<Rightarrow> u8" where "ip4_addr3 a = bytes32 a ! 2"
definition ip4_addr4 :: "u32 \<Rightarrow> u8" where "ip4_addr4 a = bytes32 a ! 3"

definition ip_addr_netcmp :: "u32 \<Rightarrow> u32 \<Rightarrow> u32 \<Rightarrow> bool" where
  "ip_addr_netcmp a1 a2 m \<longleftrightarrow> a1 AND m = a2 AND m"

definition ip_addr_isany :: "u32 \<Rightarrow> bool" where "ip_addr_isany a \<longleftrightarrow> a = IPADDR_ANY"

definition ip_addr_ismulticast :: "u32 \<Rightarrow> bool" where
  "ip_addr_ismulticast a \<longleftrightarrow> a AND lwip_htonl 0xf0000000 = lwip_htonl 0xe0000000"

section \<open>Network interfaces\<close>

record netif =
  ip_addr :: u32
  netmask :: u32
  gw :: u32
  mtu :: u16
  hwaddr :: "u8 list"
  nif_flags :: u8
  nif_num :: u8

definition NETIF_FLAG_UP :: u8 where "NETIF_FLAG_UP = 0x01"
definition NETIF_FLAG_BROADCAST :: u8 where "NETIF_FLAG_BROADCAST = 0x02"
definition NETIF_FLAG_LINK_UP :: u8 where "NETIF_FLAG_LINK_UP = 0x10"
definition NETIF_FLAG_ETHARP :: u8 where "NETIF_FLAG_ETHARP = 0x20"

definition netif_is_up :: "netif \<Rightarrow> bool" where
  "netif_is_up n \<longleftrightarrow> nif_flags n AND NETIF_FLAG_UP \<noteq> 0"

definition ip4_addr_isbroadcast :: "u32 \<Rightarrow> netif \<Rightarrow> bool" where
  "ip4_addr_isbroadcast addr n =
     (if NOT addr = IPADDR_ANY \<or> addr = IPADDR_ANY then True
      else if nif_flags n AND NETIF_FLAG_BROADCAST = 0 then False
      else if addr = ip_addr n then False
      else if ip_addr_netcmp addr (ip_addr n) (netmask n)
              \<and> addr AND NOT (netmask n) = IPADDR_BROADCAST AND NOT (netmask n) then True
      else False)"

section \<open>Netmasks\<close>

text \<open>The two loops over the single-bit \<open>msk\<close>, from bit 31 down.\<close>

lemma unat_drop1_less: "msk \<noteq> 0 \<Longrightarrow> unat (drop_bit 1 msk :: u32) < unat msk"
  by (simp only: unat_drop_bit) (simp add: unat_gt_0 word_gt_0)

function nm_skip_ones :: "u32 \<Rightarrow> u32 \<Rightarrow> u32" where
  "nm_skip_ones nm msk =
     (if msk \<noteq> 0 \<and> nm AND msk \<noteq> 0 then nm_skip_ones nm (drop_bit 1 msk) else msk)"
  by pat_completeness auto
termination by (relation "measure (\<lambda>(nm, msk). unat msk)") (auto simp del: One_nat_def intro: unat_drop1_less [simplified])

function nm_rest_zero :: "u32 \<Rightarrow> u32 \<Rightarrow> bool" where
  "nm_rest_zero nm msk =
     (if msk = 0 then True
      else if nm AND msk \<noteq> 0 then False
      else nm_rest_zero nm (drop_bit 1 msk))"
  by pat_completeness auto
termination by (relation "measure (\<lambda>(nm, msk). unat msk)") (auto simp del: One_nat_def intro: unat_drop1_less [simplified])

declare nm_skip_ones.simps [simp del] nm_rest_zero.simps [simp del]

definition ip4_addr_netmask_valid :: "u32 \<Rightarrow> bool" where
  "ip4_addr_netmask_valid nm =
     (let nm_hostorder = lwip_htonl nm
      in nm_rest_zero nm_hostorder (nm_skip_ones nm_hostorder (push_bit 31 1)))"

section \<open>Parsing\<close>

definition in_range :: "u8 \<Rightarrow> u8 \<Rightarrow> u8 \<Rightarrow> bool" where
  "in_range c lo up \<longleftrightarrow> lo \<le> c \<and> c \<le> up"

definition is_digit :: "u8 \<Rightarrow> bool" where "is_digit c = in_range c 48 57"
definition is_xdigit :: "u8 \<Rightarrow> bool" where
  "is_xdigit c \<longleftrightarrow> is_digit c \<or> in_range c 97 102 \<or> in_range c 65 70"
definition is_lower :: "u8 \<Rightarrow> bool" where "is_lower c = in_range c 97 122"
definition is_space :: "u8 \<Rightarrow> bool" where "is_space c \<longleftrightarrow> c \<in> {32, 12, 10, 13, 9, 11}"

definition peek :: "u8 list \<Rightarrow> u8" where "peek cs = (case cs of [] \<Rightarrow> 0 | c # _ \<Rightarrow> c)"

text \<open>The inner loop: collect one number in the given base, modulo \<open>2 ^ 32\<close>.\<close>

fun aton_number :: "u8 \<Rightarrow> u32 \<Rightarrow> u8 list \<Rightarrow> u32 \<times> u8 list" where
  "aton_number base val [] = (val, [])"
| "aton_number base val (c # cs) =
     (if is_digit c then aton_number base (val * ucast base + ucast (c - 48)) cs
      else if base = 16 \<and> is_xdigit c then
        aton_number base (push_bit 4 val OR ucast (c + 10 - (if is_lower c then 97 else 65))) cs
      else (val, c # cs))"

text \<open>The base that the prefix of a number selects.\<close>

definition aton_prefix :: "u8 list \<Rightarrow> u8 \<times> u8 list" where
  "aton_prefix cs =
     (if peek cs = 48 then
        (if peek (tl cs) = 120 \<or> peek (tl cs) = 88 then (16, tl (tl cs)) else (8, tl cs))
      else (10, cs))"

text \<open>
  The outer loop; \<open>k\<close> is the number of entries left in the array \<^verbatim>\<open>parts\<close> of which the code uses
  three. The result is the parts, the last value and the rest of the string.
\<close>

fun aton_parts :: "nat \<Rightarrow> u32 list \<Rightarrow> u8 list \<Rightarrow> (u32 list \<times> u32 \<times> u8 list) option" where
  "aton_parts k parts cs =
     (if \<not> is_digit (peek cs) then None
      else case aton_prefix cs of (base, cs1) \<Rightarrow>
        (case aton_number base 0 cs1 of (val, cs2) \<Rightarrow>
          (if peek cs2 = 46 then
             (case k of 0 \<Rightarrow> None | Suc k' \<Rightarrow> aton_parts k' (parts @ [val]) (tl cs2))
           else Some (parts, val, cs2))))"

declare aton_parts.simps [simp del]

definition aton_value :: "u32 list \<Rightarrow> u32 \<Rightarrow> u32 option" where
  "aton_value parts val =
     (case parts of
        [] \<Rightarrow> Some val
      | [a] \<Rightarrow> if 0xffffff < val then None else Some (val OR push_bit 24 a)
      | [a, b] \<Rightarrow> if 0xffff < val then None else Some (val OR (push_bit 24 a OR push_bit 16 b))
      | [a, b, c] \<Rightarrow>
          if 0xff < val then None else Some (val OR (push_bit 24 a OR push_bit 16 b OR push_bit 8 c))
      | _ \<Rightarrow> Some val)"

definition ipaddr_aton :: "u8 list \<Rightarrow> u32 option" where
  "ipaddr_aton cp =
     (case aton_parts 3 [] cp of
        None \<Rightarrow> None
      | Some (parts, val, rest) \<Rightarrow>
          if peek rest \<noteq> 0 \<and> \<not> is_space (peek rest) then None
          else map_option lwip_htonl (aton_value parts val))"

definition ipaddr_addr :: "u8 list \<Rightarrow> u32" where
  "ipaddr_addr cp = (case ipaddr_aton cp of Some a \<Rightarrow> a | None \<Rightarrow> IPADDR_NONE)"

section \<open>Printing\<close>

text \<open>The digits of a byte in the order the code stores them in \<^verbatim>\<open>inv\<close>, least significant first.\<close>

function ntoa_inv :: "u8 \<Rightarrow> u8 list" where
  "ntoa_inv b = (48 + b mod 10) # (if b div 10 = 0 then [] else ntoa_inv (b div 10))"
  by pat_completeness auto
termination
proof (relation "measure unat")
  fix b :: u8 assume "b div 10 \<noteq> 0"
  then have "b \<noteq> 0" by auto
  then have "unat b div 10 < unat b" by (simp add: unat_gt_0 word_gt_0)
  then show "(b div 10, b) \<in> measure unat" by (simp add: unat_div)
qed simp

declare ntoa_inv.simps [simp del]

text \<open>Writing characters into a buffer of \<open>buflen\<close> bytes of which \<open>out\<close> are written.\<close>

fun ntoa_put :: "nat \<Rightarrow> u8 list \<Rightarrow> u8 list \<Rightarrow> u8 list option" where
  "ntoa_put buflen out [] = Some out"
| "ntoa_put buflen out (c # cs) =
     (if buflen \<le> length out then None else ntoa_put buflen (out @ [c]) cs)"

fun ntoa_loop :: "nat \<Rightarrow> u8 list \<Rightarrow> u8 list \<Rightarrow> u8 list option" where
  "ntoa_loop buflen out [] = Some out"
| "ntoa_loop buflen out (b # bs) =
     (case ntoa_put buflen out (rev (ntoa_inv b) @ [46]) of
        None \<Rightarrow> None | Some out' \<Rightarrow> ntoa_loop buflen out' bs)"

text \<open>The result is the string without its terminating 0, which replaces the last dot.\<close>

definition ipaddr_ntoa_r :: "u32 \<Rightarrow> nat \<Rightarrow> u8 list option" where
  "ipaddr_ntoa_r addr buflen = map_option butlast (ntoa_loop buflen [] (bytes32 addr))"

definition ipaddr_ntoa :: "u32 \<Rightarrow> u8 list option" where
  "ipaddr_ntoa addr = ipaddr_ntoa_r addr 16"

section \<open>Facts on netmasks\<close>

lemma and_push_bit_0: "(nm :: u32) AND push_bit i 1 = 0 \<longleftrightarrow> \<not> bit nm i"
  by (simp add: bit_iff_and_push_bit_not_eq_0)

lemma push_bit_1_nonzero: "i < 32 \<Longrightarrow> push_bit i 1 \<noteq> (0 :: u32)"
  using and_push_bit_0 [of "NOT 0" i] by (auto simp: bit_simps)

lemma drop_push: "Suc i < 32 \<Longrightarrow> drop_bit 1 (push_bit (Suc i) 1) = (push_bit i 1 :: u32)"
  by (rule bit_word_eqI) (auto simp: bit_simps)

lemma nm_rest_zero_iff: "i < 32 \<Longrightarrow> nm_rest_zero nm (push_bit i 1) \<longleftrightarrow> (\<forall>j \<le> i. \<not> bit nm j)"
proof (induction i)
  case 0
  have "drop_bit 1 (1 :: u32) = 0" by (rule bit_word_eqI) (auto simp: bit_simps)
  then have "nm_rest_zero nm (drop_bit 1 1)" by (simp only:) (simp add: nm_rest_zero.simps)
  then show ?case
    using and_push_bit_0 [of nm 0] by (subst nm_rest_zero.simps) (auto simp del: One_nat_def)
next
  case (Suc i)
  then show ?case
    using push_bit_1_nonzero [of "Suc i"] drop_push [of i] and_push_bit_0 [of nm "Suc i"]
    by (subst nm_rest_zero.simps) (simp del: One_nat_def push_bit_Suc drop_bit_Suc add: le_Suc_eq all_conj_distrib)
qed

lemma netmask_loops_iff:
  "i < 32 \<Longrightarrow> nm_rest_zero nm (nm_skip_ones nm (push_bit i 1)) \<longleftrightarrow> (\<exists>k \<le> Suc i. \<forall>j \<le> i. bit nm j \<longleftrightarrow> k \<le> j)"
proof (induction i)
  case 0
  have d: "drop_bit 1 (1 :: u32) = 0" by (rule bit_word_eqI) (auto simp: bit_simps)
  show ?case
  proof (cases "bit nm 0")
    case True
    then have "nm_skip_ones nm (push_bit 0 1) = 0"
      using and_push_bit_0 [of nm 0] d by (subst nm_skip_ones.simps) (simp add: nm_skip_ones.simps del: One_nat_def)
    then show ?thesis using True by (auto simp: nm_rest_zero.simps)
  next
    case False
    then have "nm_skip_ones nm (push_bit 0 1) = push_bit 0 1"
      using and_push_bit_0 [of nm 0] by (subst nm_skip_ones.simps) simp
    then show ?thesis using False nm_rest_zero_iff [of 0 nm] by auto
  qed
next
  case (Suc i)
  have m: "push_bit (Suc i) 1 \<noteq> (0 :: u32)" using Suc.prems by (rule push_bit_1_nonzero)
  show ?case
  proof (cases "bit nm (Suc i)")
    case True
    have "nm_skip_ones nm (push_bit (Suc i) 1) = nm_skip_ones nm (push_bit i 1)"
      using m True Suc.prems drop_push [of i] and_push_bit_0 [of nm "Suc i"]
      by (subst nm_skip_ones.simps) (simp del: One_nat_def push_bit_Suc drop_bit_Suc)
    moreover have "(\<exists>k \<le> Suc i. \<forall>j \<le> i. bit nm j \<longleftrightarrow> k \<le> j) \<longleftrightarrow> (\<exists>k \<le> Suc (Suc i). \<forall>j \<le> Suc i. bit nm j \<longleftrightarrow> k \<le> j)"
      using True by (metis le_Suc_eq nat_le_linear)
    ultimately show ?thesis using Suc by simp
  next
    case False
    have "nm_skip_ones nm (push_bit (Suc i) 1) = push_bit (Suc i) 1"
      using False and_push_bit_0 [of nm "Suc i"]
      by (subst nm_skip_ones.simps) (simp del: One_nat_def push_bit_Suc drop_bit_Suc)
    moreover have "(\<forall>j \<le> Suc i. \<not> bit nm j) \<longleftrightarrow> (\<exists>k \<le> Suc (Suc i). \<forall>j \<le> Suc i. bit nm j \<longleftrightarrow> k \<le> j)"
    proof
      assume "\<forall>j \<le> Suc i. \<not> bit nm j"
      then show "\<exists>k \<le> Suc (Suc i). \<forall>j \<le> Suc i. bit nm j \<longleftrightarrow> k \<le> j"
        by (intro exI [of _ "Suc (Suc i)"]) auto
    next
      assume "\<exists>k \<le> Suc (Suc i). \<forall>j \<le> Suc i. bit nm j \<longleftrightarrow> k \<le> j"
      then obtain k where k: "\<forall>j \<le> Suc i. bit nm j \<longleftrightarrow> k \<le> j" by blast
      with False have "\<not> k \<le> Suc i" by blast
      with k show "\<forall>j \<le> Suc i. \<not> bit nm j" by auto
    qed
    ultimately show ?thesis using nm_rest_zero_iff [OF Suc.prems] by (simp only:)
  qed
qed

section \<open>Decimal notation\<close>

fun dec :: "nat \<Rightarrow> nat list" where
  "dec n = (if n < 10 then [n] else dec (n div 10) @ [n mod 10])"

declare dec.simps [simp del]

definition digit :: "nat \<Rightarrow> u8" where "digit d = 48 + of_nat d"

lemma ntoa_inv_dec: "rev (ntoa_inv b) = map digit (dec (unat b))"
proof (induction b rule: ntoa_inv.induct)
  case (1 b)
  have q: "unat (b div 10) = unat b div 10" by (simp add: unat_div)
  have r: "48 + b mod 10 = digit (unat b mod 10)"
  proof -
    have "b mod 10 = of_nat (unat b mod 10)" 
    proof (rule unsigned_word_eqI)
      have "unat b mod 10 < 10" by simp
      then have "unat b mod 10 < 256" by linarith
      then have "unat (of_nat (unat b mod 10) :: u8) = unat b mod 10"
        by (simp only: unsigned_of_nat) (simp add: take_bit_nat_eq_self)
      then show "unat (b mod 10) = unat (of_nat (unat b mod 10) :: u8)" by (simp add: unat_mod)
    qed
    then show ?thesis by (simp add: digit_def)
  qed
  show ?case
  proof (cases "unat b < 10")
    case True
    then have "b div 10 = 0" using q by (simp add: unat_eq_zero)
    with True r show ?thesis by (subst ntoa_inv.simps, subst dec.simps) simp
  next
    case False
    then have "b div 10 \<noteq> 0" using q by (metis div_eq_0_iff unat_0 zero_neq_numeral)
    with False r 1 show ?thesis
      by (subst ntoa_inv.simps, subst dec.simps) (simp add: q)
  qed
qed

lemma dec_digits: "\<forall>d \<in> set (dec n). d < 10"
proof (induction n rule: dec.induct)
  case (1 n)
  then show ?case by (subst dec.simps) auto
qed

lemma dec_nonempty: "dec n \<noteq> []"
  by (subst dec.simps) simp

lemma dec_value: "foldl (\<lambda>a d. 10 * a + d) 0 (dec n) = n"
proof (induction n rule: dec.induct)
  case (1 n)
  then show ?case by (subst dec.simps) simp
qed

lemma dec_hd: "hd (dec n) = 0 \<longleftrightarrow> n = 0"
proof (induction n rule: dec.induct)
  case (1 n)
  show ?case
  proof (cases "n < 10")
    case False
    then show ?thesis using 1 dec_nonempty [of "n div 10"] by (subst dec.simps) (auto simp: hd_append)
  qed (simp add: dec.simps)
qed

lemma dec_length: "n < 256 \<Longrightarrow> length (dec n) \<le> 3"
proof -
  assume n: "n < 256"
  then have "n div 10 div 10 < 10" by simp
  then have "length (dec (n div 10)) \<le> 2"
    by (subst dec.simps, cases "n div 10 < 10") (simp_all add: dec.simps)
  then show "length (dec n) \<le> 3" by (subst dec.simps) simp
qed

lemma digit_facts:
  assumes "d < 10"
  shows "is_digit (digit d)" "ucast (digit d - 48) = (of_nat d :: u32)" "digit d = 48 \<longleftrightarrow> d = 0"
proof -
  have "d \<in> set [0..<10]" using assms by simp
  then have d: "d = 0 \<or> d = 1 \<or> d = 2 \<or> d = 3 \<or> d = 4 \<or> d = 5 \<or> d = 6 \<or> d = 7 \<or> d = 8 \<or> d = 9"
    using assms by presburger
  show "is_digit (digit d)" "ucast (digit d - 48) = (of_nat d :: u32)" "digit d = 48 \<longleftrightarrow> d = 0"
    using d by (elim disjE; simp add: digit_def is_digit_def in_range_def)+
qed

lemma aton_number_digits:
  "\<forall>d \<in> set ds. d < 10 \<Longrightarrow>
   aton_number 10 (of_nat v) (map digit ds @ rest) = aton_number 10 (of_nat (foldl (\<lambda>a d. 10 * a + d) v ds)) rest"
proof (induction ds arbitrary: v)
  case (Cons d ds)
  have "aton_number 10 (of_nat v) (map digit (d # ds) @ rest)
      = aton_number 10 (of_nat v * 10 + of_nat d) (map digit ds @ rest)"
    using digit_facts [of d] Cons.prems by simp
  also have "of_nat v * 10 + of_nat d = (of_nat (10 * v + d) :: u32)" by simp
  finally have e: "aton_number 10 (of_nat v) (map digit (d # ds) @ rest)
      = aton_number 10 (of_nat (10 * v + d)) (map digit ds @ rest)" .
  show ?case unfolding e using Cons.IH [of "10 * v + d"] Cons.prems by simp
qed simp

definition dotted :: "u8 \<Rightarrow> u8 list" where "dotted b = rev (ntoa_inv b)"

lemma of_nat_unat_u32: "of_nat (unat (b :: u8)) = (ucast b :: u32)"
  by simp

lemma aton_one:
  assumes "rest = [] \<or> hd rest = 46"
  shows "is_digit (peek (dotted b @ rest))"
    "(case aton_prefix (dotted b @ rest) of (base, cs1) \<Rightarrow> aton_number base 0 cs1) = (ucast b, rest)"
proof -
  obtain d ds where dd: "dec (unat b) = d # ds" using dec_nonempty by (cases "dec (unat b)") auto
  have d: "d < 10" using dec_digits [of "unat b"] dd by simp
  have s: "dotted b @ rest = digit d # map digit ds @ rest" by (simp add: dotted_def ntoa_inv_dec dd)
  show "is_digit (peek (dotted b @ rest))" by (simp add: s peek_def digit_facts d)
  have nd: "\<not> is_digit 46" by (simp add: is_digit_def in_range_def)
  have stop: "aton_number base v rest = (v, rest)" if "base \<noteq> 16" for base v
    using assms that nd by (cases rest) auto
  show "(case aton_prefix (dotted b @ rest) of (base, cs1) \<Rightarrow> aton_number base 0 cs1) = (ucast b, rest)"
  proof (cases "b = 0")
    case True
    then have "dec (unat b) = [0]" by (simp add: dec.simps)
    then have "dotted b @ rest = 48 # rest" by (simp add: dotted_def ntoa_inv_dec digit_def)
    moreover have "peek rest \<noteq> 120" "peek rest \<noteq> 88" using assms by (cases rest; simp add: peek_def)+
    ultimately show ?thesis using True stop [of 8 0] by (simp add: aton_prefix_def peek_def)
  next
    case False
    then have "d \<noteq> 0" using dec_hd [of "unat b"] dd by (simp add: unat_eq_zero)
    then have "aton_prefix (dotted b @ rest) = (10, dotted b @ rest)"
      using digit_facts(3) [OF d] by (simp add: aton_prefix_def s peek_def)
    moreover have "aton_number 10 0 (dotted b @ rest) = (ucast b, rest)"
      using aton_number_digits [OF dec_digits, of 0 "unat b" rest] stop [of 10]
      by (simp add: dotted_def ntoa_inv_dec dec_value of_nat_unat_u32)
    ultimately show ?thesis by simp
  qed
qed

lemma aton_parts_dot: "aton_parts (Suc k) parts (dotted b @ 46 # r) = aton_parts k (parts @ [ucast b]) r"
  using aton_one [of "46 # r" b]
  by (subst aton_parts.simps) (auto simp: peek_def split: prod.splits)

lemma aton_parts_end: "aton_parts k parts (dotted b) = Some (parts, ucast b, [])"
  using aton_one [of "[]" b]
  by (subst aton_parts.simps) (auto simp: peek_def split: prod.splits)

lemma ntoa_put_eq: "length out + length cs \<le> buflen \<Longrightarrow> ntoa_put buflen out cs = Some (out @ cs)"
  by (induction cs arbitrary: out) auto

lemma ntoa_loop_eq:
  "length out + 4 * length bs \<le> buflen \<Longrightarrow>
   ntoa_loop buflen out bs = Some (out @ concat (map (\<lambda>b. dotted b @ [46]) bs))"
proof (induction bs arbitrary: out)
  case (Cons b bs)
  have l: "length (dotted b) \<le> 3" using dec_length [of "unat b"] by (simp add: dotted_def ntoa_inv_dec)
  then have "ntoa_put buflen out (dotted b @ [46]) = Some (out @ dotted b @ [46])"
    using Cons.prems by (intro ntoa_put_eq) simp
  moreover have "length (out @ dotted b @ [46]) + 4 * length bs \<le> buflen" using l Cons.prems by simp
  ultimately show ?case using Cons.IH [of "out @ dotted b @ [46]"] by (simp add: dotted_def)
qed simp

lemma aton_value_htonl:
  "lwip_htonl (ucast (ip4_addr4 a) OR (push_bit 24 (ucast (ip4_addr1 a)) OR push_bit 16 (ucast (ip4_addr2 a))
     OR push_bit 8 (ucast (ip4_addr3 a)))) = a"
  (is "lwip_htonl ?x = a")
proof -
  have "?x = lwip_htonl a"
  proof (rule bit_word_eqI)
    fix k :: nat assume "k < LENGTH(32)"
    then have k: "k < 32" by simp
    show "bit ?x k = bit (lwip_htonl a) k"
      using k by (auto simp: bit_htonl bit_simps ip4_addr1_def ip4_addr2_def ip4_addr3_def ip4_addr4_def
          bytes32_def add.commute dest: bit_imp_le_length)
  qed
  then show ?thesis by simp
qed

lemma ucast_u8_le: "\<not> 0xff < (ucast (b :: u8) :: u32)"
proof -
  have "unat b < 256" by simp
  then have "unat b \<le> 255" by linarith
  then show ?thesis by (simp add: word_less_nat_alt)
qed

section \<open>Properties\<close>

text \<open>\<^verbatim>\<open>ip4_addr_netmask_valid\<close> accepts exactly the netmasks whose bits, in host order, are ones
  down to some position and zeros below it.\<close>

theorem netmask_valid_iff:
  "ip4_addr_netmask_valid nm \<longleftrightarrow> lwip_htonl nm \<in> (\<lambda>k. NOT (mask k)) ` {..32}"
proof -
  have "(\<forall>i < 32. bit (w :: u32) i = (k \<le> i)) \<longleftrightarrow> w = NOT (mask k)" if "k \<le> 32" for w k
    using that by (auto simp: bit_eq_iff bit_simps dest: bit_imp_le_length)
  then have "(\<exists>k \<le> 32. \<forall>i < 32. bit (lwip_htonl nm) i = (k \<le> i)) \<longleftrightarrow> (\<exists>k \<le> 32. lwip_htonl nm = NOT (mask k))"
    by blast
  moreover have "ip4_addr_netmask_valid nm \<longleftrightarrow> (\<exists>k \<le> 32. \<forall>i < 32. bit (lwip_htonl nm) i = (k \<le> i))"
    using netmask_loops_iff [of 31 "lwip_htonl nm"]
    by (simp add: ip4_addr_netmask_valid_def Let_def less_Suc_eq_le [symmetric] del: push_bit_of_1)
  ultimately show ?thesis by (auto simp: image_iff)
qed

text \<open>C26: \<^verbatim>\<open>ipaddr_ntoa\<close> always fits its static buffer of 16 bytes, and \<^verbatim>\<open>ipaddr_aton\<close> reads its
  output back as the same address.\<close>

theorem aton_ntoa:
  "\<exists>s. ipaddr_ntoa addr = Some s \<and> length s \<le> 15 \<and> ipaddr_aton s = Some addr"
proof -
  let ?s = "dotted (ip4_addr1 addr) @ 46 # dotted (ip4_addr2 addr) @ 46 # dotted (ip4_addr3 addr) @ 46
     # dotted (ip4_addr4 addr)"
  have b: "bytes32 addr = [ip4_addr1 addr, ip4_addr2 addr, ip4_addr3 addr, ip4_addr4 addr]"
    by (simp add: bytes32_def ip4_addr1_def ip4_addr2_def ip4_addr3_def ip4_addr4_def)
  have n: "ipaddr_ntoa addr = Some ?s"
    using ntoa_loop_eq [of "[]" "bytes32 addr" 16]
    by (simp add: ipaddr_ntoa_def ipaddr_ntoa_r_def b butlast_append)
  have l: "length (dotted b) \<le> 3" for b using dec_length [of "unat b"] by (simp add: dotted_def ntoa_inv_dec)
  have "length ?s \<le> 15"
    using l [of "ip4_addr1 addr"] l [of "ip4_addr2 addr"] l [of "ip4_addr3 addr"] l [of "ip4_addr4 addr"] by simp
  moreover have "aton_parts 3 [] ?s
      = Some ([ucast (ip4_addr1 addr), ucast (ip4_addr2 addr), ucast (ip4_addr3 addr)], ucast (ip4_addr4 addr), [])"
    by (simp add: numeral_3_eq_3 aton_parts_dot aton_parts_end)
  then have "ipaddr_aton ?s = Some addr"
    by (simp add: ipaddr_aton_def aton_value_def peek_def ucast_u8_le aton_value_htonl)
  ultimately show ?thesis using n by blast
qed

end
