(* ===== verification/Xpqueue.thy ===== *)
theory Xpqueue
  imports Prelude
begin

text \<open>
  The packet queue of the Ethernet adapter: \<^verbatim>\<open>netif/xpqueue.c\<close> of the Xilinx port, a ring of
  \<^verbatim>\<open>PQ_QUEUE_SIZE\<close> pointers. The interrupt handler puts packets in and the main loop takes them
  out, without a lock; \<open>pq_dequeue_irq\<close> is the dequeue operation with an interrupt between two of its
  memory accesses.
\<close>

section \<open>Operations\<close>

definition PQ_QUEUE_SIZE :: nat where "PQ_QUEUE_SIZE = 4096"
definition NUM_QUEUES :: nat where "NUM_QUEUES = 2"

record pq_queue =
  pq_data :: "nat \<Rightarrow> addr"
  pq_head :: nat
  pq_tail :: nat
  pq_len :: int

text \<open>The static array of queues and the static counter of \<^verbatim>\<open>pq_create_queue\<close>.\<close>

record pq_pool =
  pq_queues :: "nat \<Rightarrow> pq_queue"
  pq_created :: nat

definition pq_create_queue :: "pq_pool \<Rightarrow> nat option \<times> pq_pool" where
  "pq_create_queue s =
     (if NUM_QUEUES \<le> pq_created s then (None, s)
      else let i = pq_created s in
        (Some i, s\<lparr>pq_created := i + 1,
           pq_queues := (pq_queues s)(i := (pq_queues s i)\<lparr>pq_head := 0, pq_tail := 0, pq_len := 0\<rparr>)\<rparr>))"

definition pq_enqueue :: "pq_queue \<Rightarrow> addr \<Rightarrow> int \<times> pq_queue" where
  "pq_enqueue q p =
     (if pq_len q = int PQ_QUEUE_SIZE then (- 1, q)
      else (0, q\<lparr>pq_data := (pq_data q)(pq_head q := p),
                 pq_head := (pq_head q + 1) mod PQ_QUEUE_SIZE, pq_len := pq_len q + 1\<rparr>))"

definition pq_dequeue :: "pq_queue \<Rightarrow> addr \<times> pq_queue" where
  "pq_dequeue q =
     (if pq_len q = 0 then (0, q)
      else let ptail = pq_tail q; q1 = q\<lparr>pq_tail := (pq_tail q + 1) mod PQ_QUEUE_SIZE, pq_len := pq_len q - 1\<rparr>
           in (pq_data q1 ptail, q1))"

definition pq_qlength :: "pq_queue \<Rightarrow> int" where
  "pq_qlength q = pq_len q"

section \<open>What a queue holds\<close>

definition pq_contents :: "pq_queue \<Rightarrow> addr list" where
  "pq_contents q = map (\<lambda>i. pq_data q ((pq_tail q + i) mod PQ_QUEUE_SIZE)) [0 ..< nat (pq_len q)]"

definition pq_ok :: "pq_queue \<Rightarrow> bool" where
  "pq_ok q \<longleftrightarrow> 0 \<le> pq_len q \<and> pq_len q \<le> int PQ_QUEUE_SIZE \<and> pq_tail q < PQ_QUEUE_SIZE
     \<and> pq_head q = (pq_tail q + nat (pq_len q)) mod PQ_QUEUE_SIZE"

lemma PQ_QUEUE_SIZE_pos [simp]: "0 < PQ_QUEUE_SIZE"
  by (simp add: PQ_QUEUE_SIZE_def)

lemma length_pq_contents [simp]: "length (pq_contents q) = nat (pq_len q)"
  by (simp add: pq_contents_def)

lemma pq_contents_Nil_iff: "pq_ok q \<Longrightarrow> pq_contents q = [] \<longleftrightarrow> pq_len q = 0"
  by (auto simp: pq_contents_def pq_ok_def)

lemma mod_ring_inj:
  assumes "i < n" "j < n" "(t + i) mod n = (t + j) mod (n :: nat)"
  shows "i = j"
proof -
  have *: "b = a" if "a \<le> b" "b < n" "(t + b) mod n = (t + a) mod n" for a b
  proof -
    have "n dvd (t + b) - (t + a)" using that mod_eq_dvd_iff_nat [of "t + a" "t + b" n] by simp
    then have "n dvd b - a" by simp
    moreover have "b - a < n" using that by simp
    ultimately have "b - a = 0" using nat_dvd_not_less by blast
    with that show ?thesis by simp
  qed
  show ?thesis
  proof (cases "i \<le> j")
    case True
    then show ?thesis using * [OF True assms(2) assms(3) [symmetric]] by simp
  next
    case False
    then have "j \<le> i" by simp
    then show ?thesis using * [OF _ assms(1,3)] by simp
  qed
qed

lemma ring_slot: "i < l \<Longrightarrow> l < n \<Longrightarrow> (t + i) mod n \<noteq> (t + l) mod (n :: nat)"
  using mod_ring_inj [of i n l t] by auto

lemma pq_enqueue_ok:
  assumes "pq_ok q" "length (pq_contents q) < PQ_QUEUE_SIZE"
  shows "\<exists>q'. pq_enqueue q p = (0, q') \<and> pq_ok q' \<and> pq_contents q' = pq_contents q @ [p]"
proof -
  obtain l where l: "pq_len q = int l" "l < PQ_QUEUE_SIZE"
    using assms by (auto simp: pq_ok_def dest: nonneg_int_cases)
  let ?q = "q\<lparr>pq_data := (pq_data q)(pq_head q := p), pq_head := (pq_head q + 1) mod PQ_QUEUE_SIZE, pq_len := pq_len q + 1\<rparr>"
  have h: "pq_head q = (pq_tail q + l) mod PQ_QUEUE_SIZE" using assms l by (simp add: pq_ok_def)
  have n: "nat (int l + 1) = Suc l" by simp
  have "pq_contents ?q = map (\<lambda>i. pq_data q ((pq_tail q + i) mod PQ_QUEUE_SIZE)) [0 ..< l] @ [p]"
    unfolding pq_contents_def using l h by (simp add: n ring_slot)
  moreover have "pq_ok ?q" using assms(1) l h by (simp add: pq_ok_def n mod_Suc_eq)
  moreover have "pq_enqueue q p = (0, ?q)" using l by (simp add: pq_enqueue_def)
  ultimately show ?thesis using l by (simp add: pq_contents_def)
qed

lemma pq_enqueue_full: "pq_ok q \<Longrightarrow> length (pq_contents q) = PQ_QUEUE_SIZE \<Longrightarrow> pq_enqueue q p = (- 1, q)"
  by (auto simp: pq_enqueue_def pq_ok_def PQ_QUEUE_SIZE_def)

lemma pq_contents_shift:
  "pq_tail q' = (pq_tail q + 1) mod PQ_QUEUE_SIZE \<Longrightarrow> pq_data q' = pq_data q \<Longrightarrow> pq_len q = 1 + pq_len q' \<Longrightarrow> 0 \<le> pq_len q' \<Longrightarrow>
   pq_contents q = pq_data q (pq_tail q mod PQ_QUEUE_SIZE) # pq_contents q'"
  unfolding pq_contents_def
  by (simp add: nat_add_distrib upt_conv_Cons map_Suc_upt [symmetric] mod_simps del: upt_Suc)

lemma pq_dequeue_ok:
  assumes "pq_ok q" "pq_contents q = p # ps"
  shows "\<exists>q'. pq_dequeue q = (p, q') \<and> pq_ok q' \<and> pq_contents q' = ps"
proof -
  let ?q = "q\<lparr>pq_tail := (pq_tail q + 1) mod PQ_QUEUE_SIZE, pq_len := pq_len q - 1\<rparr>"
  have pos: "0 < pq_len q" using assms pq_contents_Nil_iff [of q] by (auto simp: pq_ok_def)
  have c: "pq_contents q = pq_data q (pq_tail q mod PQ_QUEUE_SIZE) # pq_contents ?q"
    by (rule pq_contents_shift) (use pos in auto)
  have "pq_ok ?q"
  proof -
    have "(pq_tail q + nat (pq_len q)) mod PQ_QUEUE_SIZE
        = ((pq_tail q + 1) mod PQ_QUEUE_SIZE + nat (pq_len q - 1)) mod PQ_QUEUE_SIZE"
      using pos by (simp add: mod_add_left_eq) (simp add: nat_diff_distrib)
    then show ?thesis using assms pos by (simp add: pq_ok_def)
  qed
  then show ?thesis using assms pos c by (auto simp: pq_dequeue_def pq_ok_def)
qed

lemma pq_dequeue_empty: "pq_ok q \<Longrightarrow> pq_contents q = [] \<Longrightarrow> pq_dequeue q = (0, q)"
  by (simp add: pq_dequeue_def pq_contents_Nil_iff)

section \<open>A bounded queue as an interface\<close>

datatype pq_op = Enq addr | Deq

datatype pq_result = Status int | Got addr

text \<open>The results of a history of operations, and the queue they leave.\<close>

fun pq_run ::
  "('q \<Rightarrow> addr \<Rightarrow> int \<times> 'q) \<Rightarrow> ('q \<Rightarrow> addr \<times> 'q) \<Rightarrow> 'q \<Rightarrow> pq_op list \<Rightarrow> pq_result list \<times> 'q" where
  "pq_run enq deq q [] = ([], q)"
| "pq_run enq deq q (Enq p # ops) =
     (case enq q p of (r, q1) \<Rightarrow> case pq_run enq deq q1 ops of (rs, q2) \<Rightarrow> (Status r # rs, q2))"
| "pq_run enq deq q (Deq # ops) =
     (case deq q of (p, q1) \<Rightarrow> case pq_run enq deq q1 ops of (rs, q2) \<Rightarrow> (Got p # rs, q2))"

text \<open>The specification: a list that refuses an element when it has \<open>n\<close>.\<close>

definition list_enq :: "nat \<Rightarrow> addr list \<Rightarrow> addr \<Rightarrow> int \<times> addr list" where
  "list_enq n xs p = (if length xs = n then (- 1, xs) else (0, xs @ [p]))"

definition list_deq :: "addr list \<Rightarrow> addr \<times> addr list" where
  "list_deq xs = (case xs of [] \<Rightarrow> (0, []) | x # ys \<Rightarrow> (x, ys))"

locale bounded_fifo =
  fixes enq :: "'q \<Rightarrow> addr \<Rightarrow> int \<times> 'q"
    and deq :: "'q \<Rightarrow> addr \<times> 'q"
    and contents :: "'q \<Rightarrow> addr list"
    and ok :: "'q \<Rightarrow> bool"
    and cap :: nat
  assumes enq_ok: "ok q \<Longrightarrow> length (contents q) < cap \<Longrightarrow>
      \<exists>q'. enq q p = (0, q') \<and> ok q' \<and> contents q' = contents q @ [p]"
    and enq_full: "ok q \<Longrightarrow> length (contents q) = cap \<Longrightarrow> enq q p = (- 1, q)"
    and deq_ok: "ok q \<Longrightarrow> contents q = p # ps \<Longrightarrow> \<exists>q'. deq q = (p, q') \<and> ok q' \<and> contents q' = ps"
    and deq_empty: "ok q \<Longrightarrow> contents q = [] \<Longrightarrow> deq q = (0, q)"
    and within: "ok q \<Longrightarrow> length (contents q) \<le> cap"
begin

lemma enq_refines:
  assumes "ok q"
  shows "\<exists>r q'. enq q p = (r, q') \<and> ok q' \<and> list_enq cap (contents q) p = (r, contents q')"
proof (cases "length (contents q) = cap")
  case True
  with assms show ?thesis by (simp add: enq_full list_enq_def)
next
  case False
  with within [OF assms] have "length (contents q) < cap" by simp
  with enq_ok [OF assms, of p] False show ?thesis by (auto simp: list_enq_def)
qed

lemma deq_refines:
  assumes "ok q"
  shows "\<exists>p q'. deq q = (p, q') \<and> ok q' \<and> list_deq (contents q) = (p, contents q')"
proof (cases "contents q")
  case Nil
  with assms show ?thesis by (simp add: deq_empty list_deq_def)
next
  case (Cons x xs)
  with deq_ok [OF assms Cons] show ?thesis by (auto simp: list_deq_def)
qed

lemma run_refines:
  assumes "ok q"
  shows "\<exists>rs q'. pq_run enq deq q ops = (rs, q') \<and> ok q'
    \<and> pq_run (list_enq cap) list_deq (contents q) ops = (rs, contents q')"
  using assms
proof (induction ops arbitrary: q)
  case (Cons a ops)
  show ?case
  proof (cases a)
    case (Enq p)
    from enq_refines [OF Cons.prems, of p] obtain r q1 where
      "enq q p = (r, q1)" "ok q1" "list_enq cap (contents q) p = (r, contents q1)" by blast
    with Cons.IH [of q1] Enq show ?thesis by auto
  next
    case Deq
    from deq_refines [OF Cons.prems] obtain p q1 where
      "deq q = (p, q1)" "ok q1" "list_deq (contents q) = (p, contents q1)" by blast
    with Cons.IH [of q1] Deq show ?thesis by auto
  qed
qed simp

end

interpretation ring: bounded_fifo pq_enqueue pq_dequeue pq_contents pq_ok PQ_QUEUE_SIZE
proof unfold_locales
  show "pq_ok q \<Longrightarrow> length (pq_contents q) < PQ_QUEUE_SIZE \<Longrightarrow>
      \<exists>q'. pq_enqueue q p = (0, q') \<and> pq_ok q' \<and> pq_contents q' = pq_contents q @ [p]" for q p
    by (rule pq_enqueue_ok)
  show "pq_ok q \<Longrightarrow> length (pq_contents q) = PQ_QUEUE_SIZE \<Longrightarrow> pq_enqueue q p = (- 1, q)" for q p
    by (rule pq_enqueue_full)
  show "pq_ok q \<Longrightarrow> pq_contents q = p # ps \<Longrightarrow>
      \<exists>q'. pq_dequeue q = (p, q') \<and> pq_ok q' \<and> pq_contents q' = ps" for q p ps
    by (rule pq_dequeue_ok)
  show "pq_ok q \<Longrightarrow> pq_contents q = [] \<Longrightarrow> pq_dequeue q = (0, q)" for q
    by (rule pq_dequeue_empty)
qed (auto simp: pq_ok_def)

section \<open>An interrupt in the middle\<close>

text \<open>
  \<^verbatim>\<open>pq_dequeue\<close> called with interrupts enabled, the handler's \<^verbatim>\<open>pq_enqueue\<close> of \<open>p\<close> running at point
  \<open>k\<close>: before the test (0), before \<^verbatim>\<open>tail\<close> is read and written (1), before \<^verbatim>\<open>len\<close> is loaded (2), between
  its load and its store (3), or before the element is read (4). \<open>q->len--\<close> is a load, a subtraction
  and a store on this processor.
\<close>

definition pq_dequeue_irq :: "nat \<Rightarrow> addr \<Rightarrow> pq_queue \<Rightarrow> addr \<times> pq_queue" where
  "pq_dequeue_irq k p q =
     (let irq = (\<lambda>j s. if j = k then snd (pq_enqueue s p) else s); q0 = irq 0 q in
      if pq_len q0 = 0 then (0, q0)
      else let q1 = irq 1 q0; ptail = pq_tail q1;
               q2 = irq 2 (q1\<lparr>pq_tail := (pq_tail q1 + 1) mod PQ_QUEUE_SIZE\<rparr>); n = pq_len q2;
               q3 = irq 3 q2; q4 = irq 4 (q3\<lparr>pq_len := n - 1\<rparr>)
           in (pq_data q4 ptail, q4))"

section \<open>Properties\<close>

definition pq_empty :: pq_queue where
  "pq_empty = \<lparr>pq_data = (\<lambda>_. 0), pq_head = 0, pq_tail = 0, pq_len = 0\<rparr>"

text \<open>C33: every history of operations on a queue that \<^verbatim>\<open>pq_create_queue\<close> has set up returns what a list
  bounded by 4096 elements returns, whatever the ring held before: elements come out in the order they
  went in, an element is refused exactly when 4096 are inside, and \<^verbatim>\<open>NULL\<close> comes out exactly when
  none is.\<close>

theorem pq_history_refines:
  assumes "pq_create_queue s = (Some i, s')"
  shows "fst (pq_run pq_enqueue pq_dequeue (pq_queues s' i) ops)
    = fst (pq_run (list_enq 4096) list_deq [] ops)"
proof -
  have q: "pq_ok (pq_queues s' i)" "pq_contents (pq_queues s' i) = []"
    using assms by (auto simp: pq_create_queue_def pq_ok_def pq_contents_def Let_def split: if_splits)
  from ring.run_refines [OF q(1), of ops] q(2) show ?thesis
    by (auto simp: PQ_QUEUE_SIZE_def)
qed

theorem pq_history_refines_witness:
  "fst (pq_run pq_enqueue pq_dequeue
      (pq_queues (snd (pq_create_queue \<lparr>pq_queues = (\<lambda>_. pq_empty), pq_created = 1\<rparr>)) 1) [Enq 7, Enq 9, Deq, Deq, Deq])
    = [Status 0, Status 0, Got 7, Got 9, Got 0]"
proof -
  have "pq_create_queue \<lparr>pq_queues = (\<lambda>_. pq_empty), pq_created = 1\<rparr>
      = (Some 1, snd (pq_create_queue \<lparr>pq_queues = (\<lambda>_. pq_empty), pq_created = 1\<rparr>))"
    by (simp add: pq_create_queue_def NUM_QUEUES_def Let_def)
  from pq_history_refines [OF this, of "[Enq 7, Enq 9, Deq, Deq, Deq]"] show ?thesis
    by (simp only: pq_run.simps list_enq_def list_deq_def) simp
qed

text \<open>C37: when the interrupt handler puts a packet into the queue while the main loop takes one out, the
  main loop still gets the oldest packet; but if the interrupt comes between the load and the store of
  the length, the length is one short: the newest packet is no longer counted, and from then on every
  packet is handed on only when the next one arrives.\<close>

theorem pq_dequeue_race:
  assumes "pq_ok q" "pq_contents q = x # xs" "length (pq_contents q) < PQ_QUEUE_SIZE" "k < 5"
  shows "fst (pq_dequeue_irq k p q) = x
    \<and> pq_contents (snd (pq_dequeue_irq k p q)) = (if k = 3 then xs else xs @ [p])
    \<and> (pq_ok (snd (pq_dequeue_irq k p q)) \<longleftrightarrow> k \<noteq> 3)"
proof -
  have len: "nat (pq_len q) = Suc (length xs)" using assms(2) by (simp flip: length_pq_contents)
  then have l: "pq_len q = int (Suc (length xs))" by linarith
  have le: "Suc (length xs) < PQ_QUEUE_SIZE" using assms(3) len by simp
  let ?N = PQ_QUEUE_SIZE
  obtain q1 where e: "pq_enqueue q p = (0, q1)" "pq_ok q1" "pq_contents q1 = x # xs @ [p]"
    using pq_enqueue_ok [OF assms(1,3), of p] assms(2) by auto
  have q1: "q1 = q\<lparr>pq_data := (pq_data q)(pq_head q := p), pq_head := (pq_head q + 1) mod ?N, pq_len := pq_len q + 1\<rparr>"
    using e(1) l le by (auto simp: pq_enqueue_def split: if_splits)
  obtain q2 where d: "pq_dequeue q1 = (x, q2)" "pq_ok q2" "pq_contents q2 = xs @ [p]"
    using pq_dequeue_ok [OF e(2,3)] by blast
  have q2: "q2 = q1\<lparr>pq_tail := (pq_tail q1 + 1) mod ?N, pq_len := pq_len q1 - 1\<rparr>" "pq_data q1 (pq_tail q1) = x"
    using d(1) q1 l by (auto simp: pq_dequeue_def Let_def)
  have r: "pq_dequeue_irq k p q = (x, if k = 3 then q2\<lparr>pq_len := pq_len q2 - 1\<rparr> else q2)"
  proof -
    have "k = 0 \<or> k = 1 \<or> k = 2 \<or> k = 3 \<or> k = 4" using assms(4) by linarith
    then show ?thesis
      using q2 l le by (elim disjE) (simp_all add: pq_dequeue_irq_def Let_def e(1) q1 pq_enqueue_def)
  qed
  have l2: "pq_len q2 = int (Suc (length xs))" using q2(1) q1 l by simp
  have n2: "nat (pq_len q2) = Suc (length xs)" "nat (pq_len q2 - 1) = length xs" using l2 by simp_all
  have "pq_contents (q2\<lparr>pq_len := pq_len q2 - 1\<rparr>) = butlast (pq_contents q2)"
    unfolding pq_contents_def using n2 by simp
  moreover have "\<not> pq_ok (q2\<lparr>pq_len := pq_len q2 - 1\<rparr>)"
    using d(2) n2 le ring_slot [of "length xs" "Suc (length xs)" ?N "pq_tail q2"] by (auto simp: pq_ok_def)
  ultimately show ?thesis using r d by simp
qed

definition pq_one :: "pq_queue" where
  "pq_one = \<lparr>pq_data = (\<lambda>_. 7), pq_head = 1, pq_tail = 0, pq_len = 1\<rparr>"

theorem pq_dequeue_race_witness:
  "fst (pq_dequeue_irq 3 9 pq_one) = 7 \<and> pq_contents (snd (pq_dequeue_irq 3 9 pq_one)) = []"
proof -
  have c: "pq_contents pq_one = 7 # []" by (simp add: pq_contents_def pq_one_def)
  have "pq_ok pq_one" by (simp add: pq_ok_def pq_one_def PQ_QUEUE_SIZE_def)
  moreover have "length (pq_contents pq_one) < PQ_QUEUE_SIZE" by (simp add: pq_one_def PQ_QUEUE_SIZE_def)
  ultimately show ?thesis using pq_dequeue_race [OF _ c, of 3 9] by simp
qed

end
