(* ===== verification/EmacLite.thy ===== *)
theory EmacLite
  imports Byteorder
begin

text \<open>
  The driver of the Ethernet core: \<^verbatim>\<open>emaclite_v4_3/src/xemaclite.c\<close>, \<^verbatim>\<open>xemaclite_l.c\<close> and
  \<^verbatim>\<open>xemaclite_intr.c\<close>, in the little endian configuration. The device is its registers and
  buffers, 32-bit words at bus addresses; it changes them only between the calls of the driver, except
  in the loop that waits for the address to be programmed, where the device's step is an argument.
\<close>

section \<open>Registers\<close>

type_synonym regs = "u32 \<Rightarrow> u32"

definition XEL_TSR_OFFSET :: u32 where "XEL_TSR_OFFSET = 0x07FC"
definition XEL_TPLR_OFFSET :: u32 where "XEL_TPLR_OFFSET = 0x07F4"
definition XEL_GIER_OFFSET :: u32 where "XEL_GIER_OFFSET = 0x07F8"
definition XEL_RXBUFF_OFFSET :: u32 where "XEL_RXBUFF_OFFSET = 0x1000"
definition XEL_RSR_OFFSET :: u32 where "XEL_RSR_OFFSET = XEL_RXBUFF_OFFSET + 0x07FC"
definition XEL_BUFFER_OFFSET :: u32 where "XEL_BUFFER_OFFSET = 0x0800"
definition XEL_GIER_GIE_MASK :: u32 where "XEL_GIER_GIE_MASK = 0x80000000"
definition XEL_TSR_XMIT_BUSY_MASK :: u32 where "XEL_TSR_XMIT_BUSY_MASK = 1"
definition XEL_TSR_PROGRAM_MASK :: u32 where "XEL_TSR_PROGRAM_MASK = 2"
definition XEL_TSR_XMIT_IE_MASK :: u32 where "XEL_TSR_XMIT_IE_MASK = 8"
definition XEL_TSR_XMIT_ACTIVE_MASK :: u32 where "XEL_TSR_XMIT_ACTIVE_MASK = 0x80000000"
definition XEL_TSR_PROG_MAC_ADDR :: u32 where
  "XEL_TSR_PROG_MAC_ADDR = XEL_TSR_XMIT_BUSY_MASK OR XEL_TSR_PROGRAM_MASK"
definition XEL_RSR_RECV_DONE_MASK :: u32 where "XEL_RSR_RECV_DONE_MASK = 1"
definition XEL_RSR_RECV_IE_MASK :: u32 where "XEL_RSR_RECV_IE_MASK = 8"
definition XEL_HEADER_SIZE :: u16 where "XEL_HEADER_SIZE = 14"
definition XEL_MTU_SIZE :: u16 where "XEL_MTU_SIZE = 1500"
definition XEL_FCS_SIZE :: u16 where "XEL_FCS_SIZE = 4"
definition XEL_MAX_FRAME_SIZE :: u16 where "XEL_MAX_FRAME_SIZE = XEL_HEADER_SIZE + XEL_MTU_SIZE + XEL_FCS_SIZE"
definition XEL_MAX_TX_FRAME_SIZE :: nat where "XEL_MAX_TX_FRAME_SIZE = 1514"
definition XEL_MAC_ADDR_SIZE :: nat where "XEL_MAC_ADDR_SIZE = 6"
definition XEL_ETHER_PROTO_TYPE_IP :: u16 where "XEL_ETHER_PROTO_TYPE_IP = 0x0800"
definition XEL_ETHER_PROTO_TYPE_ARP :: u16 where "XEL_ETHER_PROTO_TYPE_ARP = 0x0806"
definition XEL_ARP_PACKET_SIZE :: u16 where "XEL_ARP_PACKET_SIZE = 28"
definition XEL_HEADER_OFFSET :: u32 where "XEL_HEADER_OFFSET = 12"
definition XEL_HEADER_IP_LENGTH_OFFSET :: u32 where "XEL_HEADER_IP_LENGTH_OFFSET = 16"

lemmas xel_masks = XEL_TSR_XMIT_BUSY_MASK_def XEL_TSR_XMIT_ACTIVE_MASK_def XEL_TSR_XMIT_IE_MASK_def
  XEL_RSR_RECV_DONE_MASK_def XEL_RSR_RECV_IE_MASK_def XEL_TSR_PROGRAM_MASK_def XEL_TSR_PROG_MAC_ADDR_def

lemmas xel_offsets = XEL_TSR_OFFSET_def XEL_TPLR_OFFSET_def XEL_GIER_OFFSET_def XEL_RSR_OFFSET_def
  XEL_RXBUFF_OFFSET_def XEL_BUFFER_OFFSET_def XEL_HEADER_OFFSET_def XEL_HEADER_IP_LENGTH_OFFSET_def

record emaclite =
  em_regs :: regs
  em_base :: u32
  TxPingPong :: bool
  RxPingPong :: bool
  NextTxBufferToUse :: u32
  NextRxBufferToUse :: u32
  em_handlers :: bool

definition GetTxStatus :: "regs \<Rightarrow> u32 \<Rightarrow> u32" where "GetTxStatus r a = r (a + XEL_TSR_OFFSET)"
definition SetTxStatus :: "regs \<Rightarrow> u32 \<Rightarrow> u32 \<Rightarrow> regs" where "SetTxStatus r a v = r(a + XEL_TSR_OFFSET := v)"
definition GetRxStatus :: "regs \<Rightarrow> u32 \<Rightarrow> u32" where "GetRxStatus r a = r (a + XEL_RSR_OFFSET)"
definition SetRxStatus :: "regs \<Rightarrow> u32 \<Rightarrow> u32 \<Rightarrow> regs" where "SetRxStatus r a v = r(a + XEL_RSR_OFFSET := v)"
definition IsRxEmpty :: "regs \<Rightarrow> u32 \<Rightarrow> bool" where "IsRxEmpty r a \<longleftrightarrow> GetRxStatus r a AND XEL_RSR_RECV_DONE_MASK = 0"

definition NextTransmitAddr :: "emaclite \<Rightarrow> u32" where "NextTransmitAddr d = em_base d + NextTxBufferToUse d"
definition NextReceiveAddr :: "emaclite \<Rightarrow> u32" where "NextReceiveAddr d = em_base d + NextRxBufferToUse d"

section \<open>Copying to and from the device\<close>

text \<open>
  One word of a buffer in memory, read according to the alignment of the buffer: at once, byte by byte
  or in two halves.
\<close>

definition load_word :: "memory \<Rightarrow> addr \<Rightarrow> u32 res" where
  "load_word m a =
     (if a mod 4 = 0 then rd32 m a
      else if a mod 2 \<noteq> 0 then
        rbind (rd8 m a) (\<lambda>b0. rbind (rd8 m (a + 1)) (\<lambda>b1. rbind (rd8 m (a + 2)) (\<lambda>b2. rbind (rd8 m (a + 3)) (\<lambda>b3.
          Inr (le32 b0 b1 b2 b3)))))
      else rbind (rd16 m a) (\<lambda>h0. rbind (rd16 m (a + 2)) (\<lambda>h1. Inr (ucast h0 OR push_bit 16 (ucast h1)))))"

definition store_word :: "memory \<Rightarrow> addr \<Rightarrow> u32 \<Rightarrow> memory res" where
  "store_word m a w =
     (if a mod 4 = 0 then wr32 m a w
      else if a mod 2 \<noteq> 0 then
        rbind (wr8 m a (ucast w)) (\<lambda>m. rbind (wr8 m (a + 1) (ucast (drop_bit 8 w))) (\<lambda>m.
        rbind (wr8 m (a + 2) (ucast (drop_bit 16 w))) (\<lambda>m. wr8 m (a + 3) (ucast (drop_bit 24 w)))))
      else rbind (wr16 m a (ucast w)) (\<lambda>m. wr16 m (a + 2) (ucast (drop_bit 16 w))))"

text \<open>The alignment buffer, cleared and then filled from its first byte on.\<close>

definition align_buffer :: "u8 list \<Rightarrow> u32" where
  "align_buffer bs = (let c = bs @ replicate (4 - length bs) 0 in le32 (c ! 0) (c ! 1) (c ! 2) (c ! 3))"

function XEmacLite_AlignedWrite :: "memory \<Rightarrow> addr \<Rightarrow> regs \<Rightarrow> u32 \<Rightarrow> nat \<Rightarrow> regs res" where
  "XEmacLite_AlignedWrite m src r dest n =
     (if 3 < n then rbind (load_word m src) (\<lambda>w. XEmacLite_AlignedWrite m (src + 4) (r(dest := w)) (dest + 4) (n - 4))
      else if n = 0 then Inr r
      else rbind (rd_bytes m src n) (\<lambda>bs. Inr (r(dest := align_buffer bs))))"
  by pat_completeness auto
termination by (relation "measure (\<lambda>(m, src, r, dest, n). n)") auto

declare XEmacLite_AlignedWrite.simps [simp del]

function XEmacLite_AlignedRead :: "regs \<Rightarrow> u32 \<Rightarrow> memory \<Rightarrow> addr \<Rightarrow> nat \<Rightarrow> memory res" where
  "XEmacLite_AlignedRead r src m dest n =
     (if 3 < n then rbind (store_word m dest (r src)) (\<lambda>m1. XEmacLite_AlignedRead r (src + 4) m1 (dest + 4) (n - 4))
      else wr_bytes m dest (take n (bytes32 (r src))))"
  by pat_completeness auto
termination by (relation "measure (\<lambda>(r, src, m, dest, n). n)") auto

declare XEmacLite_AlignedRead.simps [simp del]

section \<open>Sending\<close>

definition tx_free :: "u32 \<Rightarrow> bool" where
  "tx_free status \<longleftrightarrow> status AND (XEL_TSR_XMIT_BUSY_MASK OR XEL_TSR_XMIT_ACTIVE_MASK) = 0"

text \<open>The frame goes into the buffer at \<open>a\<close> and the buffer is handed to the device.\<close>

definition fill_tx :: "memory \<Rightarrow> addr \<Rightarrow> emaclite \<Rightarrow> u32 \<Rightarrow> nat \<Rightarrow> emaclite res" where
  "fill_tx m frame d a n =
     rbind (XEmacLite_AlignedWrite m frame (em_regs d) a n) (\<lambda>r.
       let r1 = r(a + XEL_TPLR_OFFSET := of_nat n AND 0xFFFF);
           register = GetTxStatus r1 a OR XEL_TSR_XMIT_BUSY_MASK;
           status = (if GetTxStatus r1 (em_base d) AND XEL_TSR_XMIT_IE_MASK \<noteq> 0
                     then register OR XEL_TSR_XMIT_ACTIVE_MASK else register)
       in Inr (d\<lparr>em_regs := SetTxStatus r1 a status\<rparr>))"

definition XEmacLite_Send :: "memory \<Rightarrow> emaclite \<Rightarrow> addr \<Rightarrow> nat \<Rightarrow> (bool \<times> emaclite) res" where
  "XEmacLite_Send m d frame count =
     (let a = NextTransmitAddr d; n = (if XEL_MAX_TX_FRAME_SIZE < count then XEL_MAX_TX_FRAME_SIZE else count) in
      if tx_free (GetTxStatus (em_regs d) a) then
        let d1 = (if TxPingPong d then d\<lparr>NextTxBufferToUse := NextTxBufferToUse d XOR XEL_BUFFER_OFFSET\<rparr> else d)
        in rbind (fill_tx m frame d1 a n) (\<lambda>d2. Inr (True, d2))
      else if TxPingPong d \<and> tx_free (GetTxStatus (em_regs d) (a XOR XEL_BUFFER_OFFSET)) then
        rbind (fill_tx m frame d (a XOR XEL_BUFFER_OFFSET) n) (\<lambda>d2. Inr (True, d2))
      else Inr (False, d))"

definition XEmacLite_TxBufferAvailable :: "emaclite \<Rightarrow> bool" where
  "XEmacLite_TxBufferAvailable d =
     (let ping = \<not> tx_free (GetTxStatus (em_regs d) (em_base d)) in
      if TxPingPong d then
        \<not> (ping \<and> \<not> tx_free (GetTxStatus (em_regs d) (em_base d + XEL_BUFFER_OFFSET)))
      else \<not> ping)"

section \<open>Receiving\<close>

definition swap16 :: "u16 \<Rightarrow> u16" where
  "swap16 v = drop_bit 8 (v AND 0xFF00) OR push_bit 8 (v AND 0x00FF)"

definition XEmacLite_GetReceiveDataLength :: "regs \<Rightarrow> u32 \<Rightarrow> u16" where
  "XEmacLite_GetReceiveDataLength r a = swap16 (ucast (r (a + (XEL_HEADER_OFFSET + XEL_RXBUFF_OFFSET)) AND 0xFFFF))"

definition ip_length_field :: "regs \<Rightarrow> u32 \<Rightarrow> u16" where
  "ip_length_field r a = swap16 (ucast (r (a + (XEL_HEADER_IP_LENGTH_OFFSET + XEL_RXBUFF_OFFSET)) AND 0xFFFF))"

text \<open>The length of the frame at \<open>a\<close>, from the length or type field and the IP header.\<close>

definition frame_length :: "regs \<Rightarrow> u32 \<Rightarrow> u16" where
  "frame_length r a =
     (let LengthType = XEmacLite_GetReceiveDataLength r a in
      if XEL_MAX_FRAME_SIZE < LengthType then
        if LengthType = XEL_ETHER_PROTO_TYPE_IP then
          ip_length_field r a + (XEL_HEADER_SIZE + XEL_FCS_SIZE)
        else if LengthType = XEL_ETHER_PROTO_TYPE_ARP then XEL_ARP_PACKET_SIZE + XEL_HEADER_SIZE + XEL_FCS_SIZE
        else XEL_MAX_FRAME_SIZE
      else LengthType + XEL_HEADER_SIZE + XEL_FCS_SIZE)"

definition take_frame :: "memory \<Rightarrow> emaclite \<Rightarrow> u32 \<Rightarrow> addr \<Rightarrow> (u16 \<times> memory \<times> emaclite) res" where
  "take_frame m d a frame =
     (let n = frame_length (em_regs d) a in
      rbind (XEmacLite_AlignedRead (em_regs d) (a + XEL_RXBUFF_OFFSET) m frame (unat n)) (\<lambda>m1.
        Inr (n, m1, d\<lparr>em_regs := SetRxStatus (em_regs d) a
                          (GetRxStatus (em_regs d) a AND NOT XEL_RSR_RECV_DONE_MASK)\<rparr>)))"

definition XEmacLite_Recv :: "memory \<Rightarrow> emaclite \<Rightarrow> addr \<Rightarrow> (u16 \<times> memory \<times> emaclite) res" where
  "XEmacLite_Recv m d frame =
     (let a = NextReceiveAddr d in
      if GetRxStatus (em_regs d) a AND XEL_RSR_RECV_DONE_MASK = XEL_RSR_RECV_DONE_MASK then
        take_frame m (if RxPingPong d then d\<lparr>NextRxBufferToUse := NextRxBufferToUse d XOR XEL_BUFFER_OFFSET\<rparr> else d) a frame
      else if RxPingPong d then
        let a1 = a XOR XEL_BUFFER_OFFSET in
        if GetRxStatus (em_regs d) a1 AND XEL_RSR_RECV_DONE_MASK \<noteq> XEL_RSR_RECV_DONE_MASK then Inr (0, m, d)
        else take_frame m d a1 frame
      else Inr (0, m, d))"

section \<open>Set-up and interrupts\<close>

definition XEmacLite_CfgInitialize :: "regs \<Rightarrow> u32 \<Rightarrow> bool \<Rightarrow> bool \<Rightarrow> emaclite" where
  "XEmacLite_CfgInitialize r base txpp rxpp =
     \<lparr>em_regs = r(base + XEL_TSR_OFFSET := 0, base + (XEL_BUFFER_OFFSET + XEL_TSR_OFFSET) := 0), em_base = base,
      TxPingPong = txpp, RxPingPong = rxpp, NextTxBufferToUse = 0, NextRxBufferToUse = 0, em_handlers = False\<rparr>"

partial_function (option) wait_programmed :: "(regs \<Rightarrow> regs) \<Rightarrow> u32 \<Rightarrow> regs \<Rightarrow> regs option" where
  "wait_programmed hw a r =
     (if GetTxStatus r a AND XEL_TSR_PROG_MAC_ADDR \<noteq> 0 then wait_programmed hw a (hw r) else Some r)"

definition XEmacLite_SetMacAddress :: "(regs \<Rightarrow> regs) \<Rightarrow> memory \<Rightarrow> emaclite \<Rightarrow> addr \<Rightarrow> emaclite option res" where
  "XEmacLite_SetMacAddress hw m d mac =
     (let a = NextTransmitAddr d in
      rbind (XEmacLite_AlignedWrite m mac (em_regs d) a XEL_MAC_ADDR_SIZE) (\<lambda>r.
        let r1 = SetTxStatus (r(a + XEL_TPLR_OFFSET := of_nat XEL_MAC_ADDR_SIZE)) a XEL_TSR_PROG_MAC_ADDR
        in Inr (case wait_programmed hw a r1 of None \<Rightarrow> None | Some r2 \<Rightarrow> Some (d\<lparr>em_regs := r2\<rparr>))))"

definition XEmacLite_FlushReceive :: "emaclite \<Rightarrow> emaclite" where
  "XEmacLite_FlushReceive d =
     (let b = em_base d;
          r1 = SetRxStatus (em_regs d) b (GetRxStatus (em_regs d) b AND XEL_RSR_RECV_IE_MASK)
      in if RxPingPong d then
           d\<lparr>em_regs := SetRxStatus r1 (b + XEL_BUFFER_OFFSET) (GetRxStatus r1 (b + XEL_BUFFER_OFFSET) AND XEL_RSR_RECV_IE_MASK)\<rparr>
         else d\<lparr>em_regs := r1\<rparr>)"

text \<open>The result \<open>False\<close> is \<^verbatim>\<open>XST_NO_CALLBACK\<close>.\<close>

definition XEmacLite_EnableInterrupts :: "emaclite \<Rightarrow> bool \<times> emaclite" where
  "XEmacLite_EnableInterrupts d =
     (if \<not> em_handlers d then (False, d)
      else let b = em_base d;
               r1 = SetTxStatus (em_regs d) b (GetTxStatus (em_regs d) b OR XEL_TSR_XMIT_IE_MASK);
               r2 = SetRxStatus r1 b (GetRxStatus r1 b OR XEL_RSR_RECV_IE_MASK)
           in (True, d\<lparr>em_regs := r2(b + XEL_GIER_OFFSET := XEL_GIER_GIE_MASK)\<rparr>))"

definition XEmacLite_DisableInterrupts :: "emaclite \<Rightarrow> emaclite" where
  "XEmacLite_DisableInterrupts d =
     (let b = em_base d; r0 = (em_regs d)(b + XEL_GIER_OFFSET := 0);
          r1 = SetTxStatus r0 b (GetTxStatus r0 b AND NOT XEL_TSR_XMIT_IE_MASK);
          r2 = SetRxStatus r1 b (GetRxStatus r1 b AND NOT XEL_RSR_RECV_IE_MASK)
      in d\<lparr>em_regs := r2\<rparr>)"

text \<open>
  The part of \<^verbatim>\<open>XEmacLite_InterruptHandler\<close> for one transmit buffer: a transmission that has ended is
  no longer active, and the send handler is to be called.
\<close>

definition tx_complete :: "u32 \<Rightarrow> regs \<Rightarrow> bool \<times> regs" where
  "tx_complete a r =
     (let s = GetTxStatus r a in
      if s AND XEL_TSR_XMIT_BUSY_MASK = 0 \<and> s AND XEL_TSR_XMIT_ACTIVE_MASK \<noteq> 0
      then (True, SetTxStatus r a (s AND NOT XEL_TSR_XMIT_ACTIVE_MASK)) else (False, r))"

section \<open>Copying is bytewise\<close>

lemma digit: "unat (a :: u8) + 256 * y = x \<Longrightarrow> x mod 256 = unat a \<and> x div 256 = y"
  using unat_u8_lt [of a] by (auto simp: div_mult_self2)

lemma bytes32_le32: "bytes32 (le32 a b c d) = [a, b, c, d]"
proof -
  define n where "n = unat a + 256 * unat b + 65536 * unat c + 16777216 * unat d"
  have a: "n mod 256 = unat a" "n div 256 = unat b + 256 * (unat c + 256 * unat d)"
    using digit [of a "unat b + 256 * (unat c + 256 * unat d)" n] by (simp_all add: n_def)
  have b: "n div 256 mod 256 = unat b" "n div 256 div 256 = unat c + 256 * unat d"
    using digit [of b "unat c + 256 * unat d" "n div 256"] a by simp_all
  have c: "n div 256 div 256 mod 256 = unat c" "n div 256 div 256 div 256 = unat d"
    using digit [of c "unat d" "n div 256 div 256"] b by simp_all
  have dd: "n div 65536 = n div 256 div 256" "n div 16777216 = n div 256 div 256 div 256"
    by (simp_all flip: div_mult2_eq)
  have u: "unat (le32 a b c d) = n" by (simp add: unat_le32 n_def)
  show ?thesis
    unfolding bytes32_def list.inject
    using a(1) b(1) c(1,2) unat_u8_lt [of d] by (simp add: word_unat_eq_iff unat_ucast_u32_u8 unat_drop_bit u dd)
qed

lemma bytes16_le16: "bytes16 (le16 a b) = [a, b]"
proof -
  have d: "unat (le16 a b) mod 256 = unat a" "unat (le16 a b) div 256 = unat b"
    using digit [of a "unat b" "unat (le16 a b)"] by (simp_all add: unat_le16)
  have "ucast (le16 a b) = a"
    by (rule word_unat_eq_iff [THEN iffD2]) (simp only: unat_low8_u16 d)
  moreover have "ucast (drop_bit 8 (le16 a b)) = b"
    by (rule word_unat_eq_iff [THEN iffD2]) (simp only: unat_high8_u16 d)
  ultimately show ?thesis by (simp only: bytes16_def)
qed

lemma le32_inj_bytes:
  assumes "bytes32 v = bytes32 w"
  shows "v = w"
proof -
  have "le32 (ucast v) (ucast (drop_bit 8 v)) (ucast (drop_bit 16 v)) (ucast (drop_bit 24 v))
      = le32 (ucast w) (ucast (drop_bit 8 w)) (ucast (drop_bit 16 w)) (ucast (drop_bit 24 w))"
    using assms unfolding bytes32_def list.inject by (elim conjE) (simp only:)
  then show ?thesis by (simp only: le32_bytes32)
qed

lemma bytes32_halves: "bytes32 w = bytes16 (ucast w) @ bytes16 (ucast (drop_bit 16 w))"
proof -
  have "ucast w = (ucast (ucast w :: u16) :: u8)"
    "ucast (drop_bit 8 w) = (ucast (drop_bit 8 (ucast w :: u16)) :: u8)"
    "ucast (drop_bit 16 w) = (ucast (ucast (drop_bit 16 w) :: u16) :: u8)"
    "ucast (drop_bit 24 w) = (ucast (drop_bit 8 (ucast (drop_bit 16 w) :: u16)) :: u8)"
    by (rule bit_word_eqI; simp add: bit_simps)+
  then show ?thesis by (simp add: bytes32_def bytes16_def)
qed

lemma le32_halves: "ucast (le16 a b) OR push_bit 16 (ucast (le16 c d)) = le32 a b c d"
proof -
  let ?w = "ucast (le16 a b) OR push_bit 16 (ucast (le16 c d)) :: u32"
  have "(ucast ?w :: u16) = le16 a b" "(ucast (drop_bit 16 ?w) :: u16) = le16 c d"
    by (rule bit_word_eqI; auto simp: bit_simps dest: bit_imp_le_length)+
  then have "bytes32 ?w = bytes32 (le32 a b c d)"
    unfolding bytes32_halves [of ?w] by (simp add: bytes16_le16 bytes32_le32)
  then show ?thesis by (rule le32_inj_bytes)
qed

lemma load_word_eq: "load_word m a = rd32 m a"
  by (simp add: load_word_def rd32_def rd16_def rbind_assoc le32_halves numeral_3_eq_3 numeral_2_eq_2)

lemma wr_bytes_append: "wr_bytes m a (xs @ ys) = rbind (wr_bytes m a xs) (\<lambda>m1. wr_bytes m1 (a + length xs) ys)"
  by (induction xs arbitrary: m a) (simp_all add: rbind_assoc)

lemma store_word_eq: "store_word m a w = wr_bytes m a (bytes32 w)"
proof -
  have "wr_bytes m a (bytes32 w) = rbind (wr16 m a (ucast w)) (\<lambda>m. wr16 m (a + 2) (ucast (drop_bit 16 w)))"
    unfolding bytes32_halves wr_bytes_append wr16_def by (simp add: bytes16_def)
  moreover have "wr_bytes m a (bytes32 w) = rbind (wr8 m a (ucast w)) (\<lambda>m. rbind (wr8 m (a + 1) (ucast (drop_bit 8 w))) (\<lambda>m.
        rbind (wr8 m (a + 2) (ucast (drop_bit 16 w))) (\<lambda>m. wr8 m (a + 3) (ucast (drop_bit 24 w)))))"
    by (simp add: bytes32_def numeral_3_eq_3 numeral_2_eq_2) (simp add: rbind_def split: sum.splits)
  ultimately show ?thesis by (simp add: store_word_def wr32_def)
qed

text \<open>The bytes of the device from address \<open>a\<close> on.\<close>

function dev_bytes :: "regs \<Rightarrow> u32 \<Rightarrow> nat \<Rightarrow> u8 list" where
  "dev_bytes r a n = (if 3 < n then bytes32 (r a) @ dev_bytes r (a + 4) (n - 4) else take n (bytes32 (r a)))"
  by pat_completeness auto
termination by (relation "measure (\<lambda>(r, a, n). n)") auto

declare dev_bytes.simps [simp del]

lemma length_bytes32 [simp]: "length (bytes32 w) = 4"
  by (simp add: bytes32_def)

lemma length_dev_bytes [simp]: "length (dev_bytes r a n) = n"
  by (induction r a n rule: dev_bytes.induct) (subst dev_bytes.simps, auto)

lemma AlignedRead_bytes: "XEmacLite_AlignedRead r src m dest n = wr_bytes m dest (dev_bytes r src n)"
proof (induction n arbitrary: src m dest rule: less_induct)
  case (less n)
  show ?case
    by (subst XEmacLite_AlignedRead.simps, subst dev_bytes.simps)
      (simp add: less.IH store_word_eq wr_bytes_append)
qed

lemma unat_sub_4:
  fixes x a :: u32
  assumes "3 < unat (x - a)"
  shows "unat (x - (a + 4)) = unat (x - a) - (4 :: nat)"
proof -
  have "x - (a + 4) = (x - a) - (4 :: u32)" by simp
  moreover have "(4 :: u32) \<le> x - a" using assms by (simp add: word_le_nat_alt)
  ultimately show ?thesis by (simp only: unat_sub) simp
qed

lemma AlignedWrite_spec:
  assumes "holds m src bs" "length bs < 4294967296"
  shows "\<exists>r'. XEmacLite_AlignedWrite m src r dest (length bs) = Inr r'
    \<and> dev_bytes r' dest (length bs) = bs \<and> (\<forall>x. length bs \<le> unat (x - dest) \<longrightarrow> r' x = r x)"
  using assms
proof (induction "length bs" arbitrary: bs src r dest rule: less_induct)
  case less
  show ?case
  proof (cases "3 < length bs")
    case True
    define w where "w = le32 (bs ! 0) (bs ! 1) (bs ! 2) (bs ! 3)"
    have l: "load_word m src = Inr w"
      using rd32_holds [of m src bs 0] less.prems(1) True by (simp add: load_word_eq w_def numeral_2_eq_2)
    have h: "holds m (src + 4) (drop 4 bs)" using holds_drop [OF less.prems(1), of 4] True by simp
    have n: "length (drop 4 bs) < length bs" "length (drop 4 bs) = length bs - 4" using True by simp_all
    obtain r' where r': "XEmacLite_AlignedWrite m (src + 4) (r(dest := w)) (dest + 4) (length bs - 4) = Inr r'"
      "dev_bytes r' (dest + 4) (length bs - 4) = drop 4 bs"
      "\<forall>x. length bs - 4 \<le> unat (x - (dest + 4)) \<longrightarrow> r' x = (r(dest := w)) x"
    proof -
      have "length bs - 4 < 4294967296" using less.prems(2) by linarith
      then show ?thesis using less.hyps [OF n(1) h, of "r(dest := w)" "dest + 4"] that unfolding n(2) by blast
    qed
    have "dest - (dest + 4) = (0xFFFFFFFC :: u32)" by simp
    then have "unat (dest - (dest + 4)) = 0xFFFFFFFC" by simp
    then have "r' dest = w" using r'(3) less.prems(2) by simp
    moreover have "bytes32 w = take 4 bs"
      using True by (simp add: w_def bytes32_le32) (simp add: list_eq_iff_nth_eq less_Suc_eq numeral_eq_Suc nth_Cons')
    ultimately have "dev_bytes r' dest (length bs) = bs"
      using True r'(2) by (subst dev_bytes.simps) simp
    moreover have "\<forall>x. length bs \<le> unat (x - dest) \<longrightarrow> r' x = r x"
    proof (intro allI impI)
      fix x :: u32 assume x: "length bs \<le> unat (x - dest)"
      then have "3 < unat (x - dest)" "x \<noteq> dest" using True by auto
      then show "r' x = r x" using r'(3) x unat_sub_4 [of x dest] by simp
    qed
    ultimately show ?thesis using True l r'(1) by (subst XEmacLite_AlignedWrite.simps) auto
  next
    case False
    show ?thesis
    proof (cases "bs = []")
      case True
      then show ?thesis by (simp add: XEmacLite_AlignedWrite.simps dev_bytes.simps)
    next
      case ne: False
      have "take (length bs) (bytes32 (align_buffer bs)) = bs"
      proof -
        have "length bs = 1 \<or> length bs = 2 \<or> length bs = 3"
          using False ne length_greater_0_conv [of bs] by linarith
        then show ?thesis
          by (auto simp: align_buffer_def bytes32_le32 Let_def length_Suc_conv numeral_eq_Suc)
      qed
      moreover have "x \<noteq> dest" if "length bs \<le> unat (x - dest)" for x using that ne by auto
      ultimately show ?thesis using False ne rd_bytes_holds [OF less.prems(1)]
        by (subst XEmacLite_AlignedWrite.simps, subst dev_bytes.simps) auto
    qed
  qed
qed

lemma dev_bytes_cong:
  "(\<And>x. unat (x - a) < n \<Longrightarrow> r' x = r x) \<Longrightarrow> dev_bytes r' a n = dev_bytes r a n"
proof (induction r a n rule: dev_bytes.induct)
  case (1 r a n)
  have "dev_bytes r' (a + 4) (n - 4) = dev_bytes r (a + 4) (n - 4)" if n: "3 < n"
  proof (rule 1(1) [OF that])
    fix x assume x: "unat (x - (a + 4)) < n - 4"
    have "unat (x - a) = unat ((x - (a + 4)) + 4)" by simp
    also have "\<dots> \<le> unat (x - (a + 4)) + 4" by (simp only: unat_word_ariths) simp
    finally have "unat (x - a) < n" using x n by simp
    then show "r' x = r x" by (rule 1(2))
  qed
  moreover have "n \<noteq> 0 \<Longrightarrow> r' a = r a" using 1(2) [of a] by simp
  ultimately show ?case by (subst (1 2) dev_bytes.simps) (cases "n = 0"; simp)
qed

section \<open>Sending\<close>

lemma or_and_same: "(s OR t) AND t = (t :: 'a :: len word)"
  by (rule bit_word_eqI) (auto simp: bit_simps)

lemma fill_tx_spec:
  assumes "holds m frame bs" "length bs \<le> XEL_MAX_TX_FRAME_SIZE"
  shows "\<exists>r. fill_tx m frame d a (length bs) = Inr (d\<lparr>em_regs := r\<rparr>) \<and> dev_bytes r a (length bs) = bs
    \<and> r (a + XEL_TPLR_OFFSET) = of_nat (length bs) \<and> GetTxStatus r a AND XEL_TSR_XMIT_BUSY_MASK \<noteq> 0
    \<and> (\<forall>x. 0x800 \<le> unat (x - a) \<longrightarrow> r x = em_regs d x)"
proof -
  have n: "length bs \<le> 1514" using assms(2) by (simp add: XEL_MAX_TX_FRAME_SIZE_def)
  then have "length bs < 4294967296" by simp
  from AlignedWrite_spec [OF assms(1) this, of "em_regs d" a] obtain r where
    r: "XEmacLite_AlignedWrite m frame (em_regs d) a (length bs) = Inr r" "dev_bytes r a (length bs) = bs"
      "\<And>x. length bs \<le> unat (x - a) \<Longrightarrow> r x = em_regs d x" by blast
  have n16: "of_nat (length bs) AND 0xFFFF = (of_nat (length bs) :: u32)"
  proof -
    have "(0xFFFF :: u32) = mask 16" by (simp add: mask_eq_exp_minus_1)
    moreover have "take_bit 16 (length bs) = length bs" using n by (intro take_bit_nat_eq_self) simp
    ultimately show ?thesis by (simp only: take_bit_eq_mask [symmetric] take_bit_of_nat)
  qed
  define r1 where "r1 = r(a + XEL_TPLR_OFFSET := of_nat (length bs))"
  define s where "s = (if GetTxStatus r1 (em_base d) AND XEL_TSR_XMIT_IE_MASK \<noteq> 0
     then (GetTxStatus r1 a OR XEL_TSR_XMIT_BUSY_MASK) OR XEL_TSR_XMIT_ACTIVE_MASK else GetTxStatus r1 a OR XEL_TSR_XMIT_BUSY_MASK)"
  let ?r = "SetTxStatus r1 a s"
  have f: "fill_tx m frame d a (length bs) = Inr (d\<lparr>em_regs := ?r\<rparr>)"
    by (simp add: fill_tx_def r(1) n16 Let_def r1_def s_def)
  have out: "?r x = r x" if "x \<noteq> a + XEL_TPLR_OFFSET" "x \<noteq> a + XEL_TSR_OFFSET" for x
    using that by (simp add: SetTxStatus_def r1_def)
  have off: "unat ((a + XEL_TPLR_OFFSET) - a) = 0x7F4" "unat ((a + XEL_TSR_OFFSET) - a) = 0x7FC"
    by (simp_all add: xel_offsets)
  have "dev_bytes ?r a (length bs) = dev_bytes r a (length bs)"
  proof (rule dev_bytes_cong)
    fix x assume "unat (x - a) < length bs"
    then have "x \<noteq> a + XEL_TPLR_OFFSET" "x \<noteq> a + XEL_TSR_OFFSET" using n off by auto
    then show "?r x = r x" by (rule out)
  qed
  moreover have "?r (a + XEL_TPLR_OFFSET) = of_nat (length bs)"
    by (simp add: SetTxStatus_def r1_def xel_offsets)
  moreover have "GetTxStatus ?r a AND XEL_TSR_XMIT_BUSY_MASK \<noteq> 0"
  proof -
    have "s AND XEL_TSR_XMIT_BUSY_MASK = XEL_TSR_XMIT_BUSY_MASK"
      by (simp add: s_def or.assoc or.commute [of _ XEL_TSR_XMIT_ACTIVE_MASK] or_and_same flip: or.assoc)
    moreover have "GetTxStatus ?r a = s" by (simp add: SetTxStatus_def GetTxStatus_def)
    ultimately show ?thesis by (simp add: XEL_TSR_XMIT_BUSY_MASK_def)
  qed
  moreover have "?r x = em_regs d x" if "0x800 \<le> unat (x - a)" for x
  proof -
    have "x \<noteq> a + XEL_TPLR_OFFSET" "x \<noteq> a + XEL_TSR_OFFSET" using that off by auto
    then show ?thesis using out r(3) that n by simp
  qed
  ultimately show ?thesis using f r(2) by auto
qed

text \<open>How the driver leaves the choice of the buffer: the base address has no bit of the offset.\<close>

definition em_ok :: "emaclite \<Rightarrow> bool" where
  "em_ok d \<longleftrightarrow> em_base d AND XEL_BUFFER_OFFSET = 0 \<and> NextTxBufferToUse d \<in> {0, XEL_BUFFER_OFFSET}
     \<and> (\<not> TxPingPong d \<longrightarrow> NextTxBufferToUse d = 0)"

lemma base_xor: "b AND XEL_BUFFER_OFFSET = 0 \<Longrightarrow> b XOR XEL_BUFFER_OFFSET = b + XEL_BUFFER_OFFSET"
  by (simp add: disjunctive_add_eq_xor)

lemma base_add_xor: "b AND XEL_BUFFER_OFFSET = 0 \<Longrightarrow> (b + XEL_BUFFER_OFFSET) XOR XEL_BUFFER_OFFSET = b"
  by (simp flip: base_xor add: xor.assoc)

section \<open>Properties\<close>

text \<open>A buffer of bytes, however it is aligned, that is copied into the device and read back into
  memory at any alignment arrives byte for byte.\<close>

theorem aligned_copy_roundtrip:
  assumes "holds m src bs" "length bs < 4294967296"
  shows "\<exists>r'. XEmacLite_AlignedWrite m src r a (length bs) = Inr r'
    \<and> XEmacLite_AlignedRead r' a m2 dest (length bs) = wr_bytes m2 dest bs"
  using AlignedWrite_spec [OF assms, of r a] by (auto simp: AlignedRead_bytes)

definition sample_frame :: memory where
  "sample_frame = [1 \<mapsto> 0x10, 2 \<mapsto> 0x20, 3 \<mapsto> 0x30, 4 \<mapsto> 0x40, 5 \<mapsto> 0x50, 6 \<mapsto> 0, 7 \<mapsto> 0, 8 \<mapsto> 0, 9 \<mapsto> 0, 10 \<mapsto> 0]"

theorem aligned_copy_roundtrip_witness:
  "\<exists>r'. XEmacLite_AlignedWrite sample_frame 1 (\<lambda>_. 0) 0x40E00000 (length [0x10, 0x20, 0x30, 0x40, 0x50 :: u8]) = Inr r'
    \<and> XEmacLite_AlignedRead r' 0x40E00000 sample_frame 6 (length [0x10, 0x20, 0x30, 0x40, 0x50 :: u8])
      = wr_bytes sample_frame 6 [0x10, 0x20, 0x30, 0x40, 0x50]"
proof -
  have "holds sample_frame 1 [0x10, 0x20, 0x30, 0x40, 0x50]" by (simp add: sample_frame_def)
  then show ?thesis by (rule aligned_copy_roundtrip) simp
qed

text \<open>When the driver says that a transmit buffer is available, sending a frame of at most 1514 bytes
  succeeds: it goes byte for byte into a buffer that was free, with its length, the buffer is handed to the
  device, and neither the other buffer nor any other register changes.\<close>

theorem emac_send_delivers:
  assumes "XEmacLite_TxBufferAvailable d" "em_ok d" "holds m frame bs" "length bs \<le> XEL_MAX_TX_FRAME_SIZE"
  shows "\<exists>a d'. XEmacLite_Send m d frame (length bs) = Inr (True, d') \<and> a \<in> {em_base d, em_base d + XEL_BUFFER_OFFSET}
    \<and> tx_free (GetTxStatus (em_regs d) a) \<and> dev_bytes (em_regs d') a (length bs) = bs
    \<and> em_regs d' (a + XEL_TPLR_OFFSET) = of_nat (length bs)
    \<and> GetTxStatus (em_regs d') a AND XEL_TSR_XMIT_BUSY_MASK \<noteq> 0
    \<and> (\<forall>x. 0x800 \<le> unat (x - a) \<longrightarrow> em_regs d' x = em_regs d x)"
proof -
  let ?a = "NextTransmitAddr d" and ?b = "NextTransmitAddr d XOR XEL_BUFFER_OFFSET"
  have b: "em_base d AND XEL_BUFFER_OFFSET = 0" using assms(2) by (simp add: em_ok_def)
  have a: "?a \<in> {em_base d, em_base d + XEL_BUFFER_OFFSET}" "?b \<in> {em_base d, em_base d + XEL_BUFFER_OFFSET}"
    "?a = em_base d \<and> ?b = em_base d + XEL_BUFFER_OFFSET \<or> ?a = em_base d + XEL_BUFFER_OFFSET \<and> ?b = em_base d"
    using assms(2) base_xor [OF b] base_add_xor [OF b] by (auto simp: em_ok_def NextTransmitAddr_def)
  note fill = fill_tx_spec [OF assms(3,4)]
  have n: "\<not> XEL_MAX_TX_FRAME_SIZE < length bs" using assms(4) by simp
  show ?thesis
  proof (cases "tx_free (GetTxStatus (em_regs d) ?a)")
    case True
    let ?d = "if TxPingPong d then d\<lparr>NextTxBufferToUse := NextTxBufferToUse d XOR XEL_BUFFER_OFFSET\<rparr> else d"
    obtain r where r: "fill_tx m frame ?d ?a (length bs) = Inr (?d\<lparr>em_regs := r\<rparr>)" "dev_bytes r ?a (length bs) = bs"
      "r (?a + XEL_TPLR_OFFSET) = of_nat (length bs)" "GetTxStatus r ?a AND XEL_TSR_XMIT_BUSY_MASK \<noteq> 0"
      "\<forall>x. 0x800 \<le> unat (x - ?a) \<longrightarrow> r x = em_regs ?d x" using fill [of ?d ?a] by blast
    have e: "em_regs ?d = em_regs d" by simp
    have "XEmacLite_Send m d frame (length bs) = Inr (True, ?d\<lparr>em_regs := r\<rparr>)"
      unfolding XEmacLite_Send_def Let_def if_P [OF True] if_not_P [OF n] r(1) by simp
    then show ?thesis using a(1) True r(2-4) r(5) [unfolded e] by (intro exI [of _ ?a] exI [of _ "?d\<lparr>em_regs := r\<rparr>"]) simp
  next
    case False
    then have f: "TxPingPong d" "tx_free (GetTxStatus (em_regs d) ?b)"
      using assms(1,2) a(3) by (auto simp: XEmacLite_TxBufferAvailable_def Let_def em_ok_def NextTransmitAddr_def split: if_splits)
    obtain r where r: "fill_tx m frame d ?b (length bs) = Inr (d\<lparr>em_regs := r\<rparr>)" "dev_bytes r ?b (length bs) = bs"
      "r (?b + XEL_TPLR_OFFSET) = of_nat (length bs)" "GetTxStatus r ?b AND XEL_TSR_XMIT_BUSY_MASK \<noteq> 0"
      "\<forall>x. 0x800 \<le> unat (x - ?b) \<longrightarrow> r x = em_regs d x" using fill [of d ?b] by blast
    have "XEmacLite_Send m d frame (length bs) = Inr (True, d\<lparr>em_regs := r\<rparr>)"
      unfolding XEmacLite_Send_def Let_def if_not_P [OF False] if_not_P [OF n] using f r(1) by simp
    then show ?thesis using a(2) f r(2-5) by (intro exI [of _ ?b] exI [of _ "d\<lparr>em_regs := r\<rparr>"]) simp
  qed
qed

definition sample_emac :: "regs \<Rightarrow> emaclite" where
  "sample_emac r = XEmacLite_CfgInitialize r 0x40E00000 True True"

theorem emac_send_delivers_witness:
  "\<exists>a d'. XEmacLite_Send sample_frame (sample_emac (\<lambda>_. 0)) 1 (length [0x10, 0x20, 0x30, 0x40, 0x50 :: u8]) = Inr (True, d')
    \<and> dev_bytes (em_regs d') a 5 = [0x10, 0x20, 0x30, 0x40, 0x50]"
proof -
  have "holds sample_frame 1 [0x10, 0x20, 0x30, 0x40, 0x50]" by (simp add: sample_frame_def)
  moreover have "XEmacLite_TxBufferAvailable (sample_emac (\<lambda>_. 0))"
    by (simp add: XEmacLite_TxBufferAvailable_def sample_emac_def XEmacLite_CfgInitialize_def GetTxStatus_def tx_free_def)
  moreover have "em_ok (sample_emac (\<lambda>_. 0))"
    by (simp add: em_ok_def sample_emac_def XEmacLite_CfgInitialize_def XEL_BUFFER_OFFSET_def)
  moreover have "length [0x10, 0x20, 0x30, 0x40, 0x50 :: u8] \<le> XEL_MAX_TX_FRAME_SIZE" by (simp add: XEL_MAX_TX_FRAME_SIZE_def)
  ultimately obtain a d' where
    "XEmacLite_Send sample_frame (sample_emac (\<lambda>_. 0)) 1 (length [0x10, 0x20, 0x30, 0x40, 0x50 :: u8]) = Inr (True, d')"
    "dev_bytes (em_regs d') a (length [0x10, 0x20, 0x30, 0x40, 0x50 :: u8]) = [0x10, 0x20, 0x30, 0x40, 0x50]"
    using emac_send_delivers [of "sample_emac (\<lambda>_. 0)" sample_frame 1 "[0x10, 0x20, 0x30, 0x40, 0x50]"] by blast
  then show ?thesis by (intro exI [of _ a] exI [of _ d']) (simp add: eval_nat_numeral)
qed

text \<open>C36: the driver believes the length in the IP header of a frame: a frame whose IP header claims more
  than 1500 bytes is copied whole, so that bytes of the device land behind the 1518 bytes that the caller
  has made room for.\<close>

theorem emac_recv_overruns:
  assumes "GetRxStatus (em_regs d) (NextReceiveAddr d) AND XEL_RSR_RECV_DONE_MASK = XEL_RSR_RECV_DONE_MASK"
    "XEmacLite_GetReceiveDataLength (em_regs d) (NextReceiveAddr d) = XEL_ETHER_PROTO_TYPE_IP"
    "ip_length_field (em_regs d) (NextReceiveAddr d) = v" "1500 < unat v" "unat v < 65518"
    "{frame ..< frame + (unat v + 18)} \<subseteq> dom m"
  shows "\<exists>m' d'. XEmacLite_Recv m d frame = Inr (v + 18, m', d') \<and> 1518 < unat (v + 18)
    \<and> (\<forall>i < unat v + 18. m' (frame + i) = Some (dev_bytes (em_regs d) (NextReceiveAddr d + XEL_RXBUFF_OFFSET) (unat v + 18) ! i))"
proof -
  let ?a = "NextReceiveAddr d" and ?d = "if RxPingPong d then d\<lparr>NextRxBufferToUse := NextRxBufferToUse d XOR XEL_BUFFER_OFFSET\<rparr> else d"
  let ?bs = "dev_bytes (em_regs d) (?a + XEL_RXBUFF_OFFSET) (unat v + 18)"
  have e: "em_regs ?d = em_regs d" by simp
  have n: "frame_length (em_regs d) ?a = v + 18"
    by (simp add: frame_length_def assms(2,3) XEL_MAX_FRAME_SIZE_def XEL_ETHER_PROTO_TYPE_IP_def XEL_HEADER_SIZE_def
        XEL_MTU_SIZE_def XEL_FCS_SIZE_def)
  have u: "unat (v + 18) = unat v + 18" using assms(5) by (simp add: unat_word_ariths)
  obtain m' where m': "wr_bytes m frame ?bs = Inr m'"
    using wr_bytes_total [of frame ?bs m] assms(6) by auto
  have "\<forall>i < unat v + 18. m' (frame + i) = Some (?bs ! i)"
    using wr_bytes_Inr [OF m'] by (simp add: holds_iff_nth)
  moreover have "\<exists>d'. XEmacLite_Recv m d frame = Inr (v + 18, m', d')"
    unfolding XEmacLite_Recv_def Let_def if_P [OF assms(1)]
    by (simp add: take_frame_def e n u AlignedRead_bytes m')
  ultimately show ?thesis using assms(4) u by auto
qed

text \<open>A frame of type IP whose length field says 3000, ready in the first buffer.\<close>

definition long_regs :: regs where
  "long_regs = (\<lambda>_. 0)(0x40E017FC := 1, 0x40E0100C := 0x0008, 0x40E01010 := 0xB80B)"

theorem emac_recv_overruns_witness:
  "\<exists>m' d'. XEmacLite_Recv (\<lambda>_. Some 0) (sample_emac long_regs) 64 = Inr (3018, m', d') \<and> 1518 < unat (3018 :: u16)"
proof -
  let ?d = "sample_emac long_regs"
  have r: "em_regs ?d = long_regs(0x40E007FC := 0, 0x40E00FFC := 0)" "NextReceiveAddr ?d = 0x40E00000"
    by (simp_all add: sample_emac_def XEmacLite_CfgInitialize_def NextReceiveAddr_def xel_offsets)
  have "GetRxStatus (em_regs ?d) (NextReceiveAddr ?d) AND XEL_RSR_RECV_DONE_MASK = XEL_RSR_RECV_DONE_MASK"
    by (simp only: r) (simp add: GetRxStatus_def xel_offsets xel_masks long_regs_def)
  moreover have "XEmacLite_GetReceiveDataLength (em_regs ?d) (NextReceiveAddr ?d) = XEL_ETHER_PROTO_TYPE_IP"
    by (simp only: r) (simp add: XEmacLite_GetReceiveDataLength_def xel_offsets long_regs_def swap16_def XEL_ETHER_PROTO_TYPE_IP_def)
  moreover have "ip_length_field (em_regs ?d) (NextReceiveAddr ?d) = 3000"
    by (simp only: r) (simp add: ip_length_field_def xel_offsets long_regs_def swap16_def)
  ultimately show ?thesis using emac_recv_overruns [of ?d 3000 64 "\<lambda>_. Some 0"] by auto
qed

end
