(* ===== verification/Link.thy ===== *)
theory Link
  imports Pbuf Xpqueue EmacLite
begin

text \<open>
  The Ethernet adapter: \<^verbatim>\<open>netif/xemacliteif.c\<close> of the Xilinx port, between the driver and the network
  stack, and the state of everything below IP: the driver's device, the two packet queues, the frame
  buffer, and the ARP table of \<^verbatim>\<open>netif/etharp.c\<close>. There is one adapter; the pointers from the
  network interface to it are not modelled. The statistics counters are left out.
\<close>

section \<open>State\<close>

datatype etharp_state =
  ETHARP_STATE_EMPTY | ETHARP_STATE_PENDING | ETHARP_STATE_STABLE | ETHARP_STATE_STABLE_REREQUESTING

text \<open>The queue of an entry is the list of its \<^verbatim>\<open>struct etharp_q_entry\<close>, each with its address and packet.\<close>

record etharp_entry =
  arp_q :: "(addr \<times> addr) list"
  arp_ipaddr :: u32
  arp_netif :: addr
  arp_ethaddr :: "u8 list"
  arp_state :: etharp_state
  arp_ctime :: u8

text \<open>
  \<open>intc_acks\<close> are the masks written to the acknowledge register of the interrupt controller.
\<close>

record link_st = pbuf_st +
  emac :: emaclite
  recv_q :: pq_queue
  send_q :: pq_queue
  xemac_tx_frame :: addr
  intc_acks :: "u32 list"
  arp_table :: "etharp_entry list"
  etharp_cached_entry :: nat

section \<open>Receiving a frame\<close>

definition EMAC_INTR_MASK :: u32 where "EMAC_INTR_MASK = 2"

definition XIntc_AckIntr :: "'a link_st_scheme \<Rightarrow> u32 \<Rightarrow> 'a link_st_scheme" where
  "XIntc_AckIntr st v = st\<lparr>intc_acks := intc_acks st @ [v]\<rparr>"

definition emac_recv :: "'a link_st_scheme \<Rightarrow> addr \<Rightarrow> (u16 \<times> 'a link_st_scheme) res" where
  "emac_recv st a = rbind (XEmacLite_Recv (bytes st) (emac st) a) (\<lambda>(n, m, d). Inr (n, st\<lparr>bytes := m, emac := d\<rparr>))"

definition xemacif_recv_handler :: "'a link_st_scheme \<Rightarrow> 'a link_st_scheme res" where
  "xemacif_recv_handler st =
     rbind (pbuf_alloc (XIntc_AckIntr st EMAC_INTR_MASK) PBUF_RAW XEL_MAX_FRAME_SIZE PBUF_POOL) (\<lambda>(p, st1).
       if p = 0 then rbind (emac_recv st1 (xemac_tx_frame st1)) (\<lambda>(_, st2). Inr st2)
       else
         rbind (get_pbuf st1 p) (\<lambda>b. rbind (emac_recv st1 (payload b)) (\<lambda>(n, st2).
           if n = 0 then rbind (pbuf_free st2 p) (\<lambda>(_, st3). Inr st3)
           else case pq_enqueue (recv_q st2) p of (r, q) \<Rightarrow>
             if r < 0 then rbind (pbuf_free st2 p) (\<lambda>(_, st3). Inr st3) else Inr (st2\<lparr>recv_q := q\<rparr>))))"

definition low_level_input :: "'a link_st_scheme \<Rightarrow> addr \<times> 'a link_st_scheme" where
  "low_level_input st =
     (if pq_qlength (recv_q st) = 0 then (0, st)
      else case pq_dequeue (recv_q st) of (p, q) \<Rightarrow> (p, st\<lparr>recv_q := q\<rparr>))"

section \<open>Sending a frame\<close>

text \<open>The loop that assembles the packet \<open>q\<close> at \<open>xemac_tx_frame\<close>: \<open>n\<close> bytes are there already.\<close>

primrec gather :: "nat \<Rightarrow> 'a link_st_scheme \<Rightarrow> addr \<Rightarrow> nat \<Rightarrow> (nat \<times> 'a link_st_scheme) res" where
  "gather 0 st q n = (if q = 0 then Inr (n, st) else Inl Out_of_fuel)"
| "gather (Suc fuel) st q n =
     (if q = 0 then Inr (n, st)
      else rbind (get_pbuf st q) (\<lambda>b.
        rbind (memcpy (bytes st) (xemac_tx_frame st + n) (payload b) (unat (pb_len b))) (\<lambda>m.
          gather fuel (st\<lparr>bytes := m\<rparr>) (pb_next b) (n + unat (pb_len b)))))"

text \<open>A frame that cannot be sent is dropped, and the result is \<open>ERR_OK\<close> all the same.\<close>

definition unbuffered_low_level_output :: "'a link_st_scheme \<Rightarrow> addr \<Rightarrow> 'a link_st_scheme res" where
  "unbuffered_low_level_output st p =
     rbind (gather chain_fuel st p 0) (\<lambda>(n, st1).
       rbind (XEmacLite_Send (bytes st1) (emac st1) (xemac_tx_frame st1) n) (\<lambda>(_, d). Inr (st1\<lparr>emac := d\<rparr>)))"

text \<open>The loop that copies the packet \<open>p\<close> behind the bytes that \<open>q\<close> has.\<close>

primrec copy_into :: "nat \<Rightarrow> 'a link_st_scheme \<Rightarrow> addr \<Rightarrow> addr \<Rightarrow> 'a link_st_scheme res" where
  "copy_into 0 st q p = (if p = 0 then Inr st else Inl Out_of_fuel)"
| "copy_into (Suc fuel) st q p =
     (if p = 0 then Inr st
      else rbind (get_pbuf st q) (\<lambda>c. rbind (get_pbuf st p) (\<lambda>b.
        rbind (memcpy (bytes st) (payload c + unat (pb_len c)) (payload b) (unat (pb_len b))) (\<lambda>m.
          copy_into fuel (put_pbuf (st\<lparr>bytes := m\<rparr>) q (c\<lparr>pb_len := pb_len c + pb_len b\<rparr>)) q (pb_next b)))))"

definition queue_copy :: "'a link_st_scheme \<Rightarrow> addr \<Rightarrow> (err_t \<times> 'a link_st_scheme) res" where
  "queue_copy st p =
     rbind (get_pbuf st p) (\<lambda>b. rbind (pbuf_alloc st PBUF_RAW (tot_len b) PBUF_POOL) (\<lambda>(q, st1).
       if q = 0 then Inr (ERR_MEM, st1)
       else
         rbind (upd_pbuf st1 q (\<lambda>c. c\<lparr>pb_len := 0\<rparr>)) (\<lambda>st2. rbind (copy_into chain_fuel st2 q p) (\<lambda>st3.
           case pq_enqueue (send_q st3) q of (r, s) \<Rightarrow>
             if r < 0 then Inr (ERR_MEM, st3) else Inr (ERR_OK, st3\<lparr>send_q := s\<rparr>)))))"

definition low_level_output :: "'a link_st_scheme \<Rightarrow> addr \<Rightarrow> (err_t \<times> 'a link_st_scheme) res" where
  "low_level_output st p =
     (if XEmacLite_TxBufferAvailable (emac st) then
        if pq_qlength (send_q st) \<noteq> 0 then
          (case pq_dequeue (send_q st) of (x, s) \<Rightarrow>
             rbind (unbuffered_low_level_output (st\<lparr>send_q := s\<rparr>) x) (\<lambda>st1. queue_copy st1 p))
        else rbind (unbuffered_low_level_output st p) (\<lambda>st1. Inr (ERR_OK, st1))
      else queue_copy st p)"

definition xemacif_send_handler :: "'a link_st_scheme \<Rightarrow> 'a link_st_scheme res" where
  "xemacif_send_handler st0 =
     (let st = XIntc_AckIntr st0 EMAC_INTR_MASK in
      if pq_qlength (send_q st) \<noteq> 0 \<and> XEmacLite_TxBufferAvailable (emac st) then
        (case pq_dequeue (send_q st) of (p, s) \<Rightarrow>
           rbind (unbuffered_low_level_output (st\<lparr>send_q := s\<rparr>) p) (\<lambda>st1.
             rbind (pbuf_free st1 p) (\<lambda>(_, st2). Inr st2)))
      else Inr st)"

section \<open>The interrupt of the Ethernet core\<close>

text \<open>\<^verbatim>\<open>XEmacLite_InterruptHandler\<close> with the two handlers that the adapter installs.\<close>

definition XEmacLite_InterruptHandler :: "'a link_st_scheme \<Rightarrow> 'a link_st_scheme res" where
  "XEmacLite_InterruptHandler st =
     rbind (if \<not> IsRxEmpty (em_regs (emac st)) (em_base (emac st))
               \<or> \<not> IsRxEmpty (em_regs (emac st)) (em_base (emac st) + XEL_BUFFER_OFFSET)
            then xemacif_recv_handler st else Inr st) (\<lambda>st1.
       case tx_complete (em_base (emac st1)) (em_regs (emac st1)) of (ping, r1) \<Rightarrow>
       case tx_complete (em_base (emac st1) + XEL_BUFFER_OFFSET) r1 of (pong, r2) \<Rightarrow>
         let st2 = st1\<lparr>emac := (emac st1)\<lparr>em_regs := r2\<rparr>\<rparr>
         in if ping \<or> pong then xemacif_send_handler st2 else Inr st2)"

section \<open>What the adapter leaves alone\<close>

lemma gather_keeps:
  "gather fuel st q n = Inr (k, st') \<Longrightarrow> \<exists>m. st' = st\<lparr>bytes := m\<rparr>"
proof (induction fuel arbitrary: st q n)
  case 0
  then have "st' = st\<lparr>bytes := bytes st\<rparr>" by (simp split: if_splits)
  then show ?case by blast
next
  case (Suc fuel)
  show ?case
  proof (cases "q = 0")
    case True
    with Suc.prems have "st' = st\<lparr>bytes := bytes st\<rparr>" by simp
    then show ?thesis by blast
  next
    case False
    with Suc.prems show ?thesis by (auto simp: rbind_eq_Inr dest!: Suc.IH)
  qed
qed

lemma unbuffered_keeps:
  assumes "unbuffered_low_level_output st p = Inr st'"
  shows "\<exists>m d. st' = st\<lparr>bytes := m, emac := d\<rparr>"
proof -
  from assms obtain n st1 d where "gather chain_fuel st p 0 = Inr (n, st1)" "st' = st1\<lparr>emac := d\<rparr>"
    by (auto simp: unbuffered_low_level_output_def rbind_eq_Inr)
  with gather_keeps [of chain_fuel st p 0 n st1] show ?thesis by auto
qed

lemma copy_into_keeps: "copy_into fuel st q p = Inr st' \<Longrightarrow> pbuf_st.more st' = pbuf_st.more st"
  by (induction fuel arbitrary: st p) (auto simp: rbind_eq_Inr split: if_splits)

text \<open>The part of the state that the adapter's output does not reach.\<close>

definition above :: "'a link_st_scheme \<Rightarrow> addr \<times> u32 list \<times> pq_queue \<times> etharp_entry list \<times> nat \<times> 'a" where
  "above st = (xemac_tx_frame st, intc_acks st, recv_q st, arp_table st, etharp_cached_entry st, link_st.more st)"

lemma above_more: "pbuf_st.more st' = pbuf_st.more st \<Longrightarrow> above st' = above st"
proof -
  assume "pbuf_st.more st' = pbuf_st.more st"
  then have "\<exists>a b c d e f. st' = st\<lparr>bytes := a, pbufs := b, pools := c, mheap := d, pbuf_free_ooseq_pending := e, custom_freed := f\<rparr>"
    by (intro exI [of _ "bytes st'"] exI [of _ "pbufs st'"] exI [of _ "pools st'"] exI [of _ "mheap st'"]
        exI [of _ "pbuf_free_ooseq_pending st'"] exI [of _ "custom_freed st'"]) (cases st; cases st'; simp)
  then show "above st' = above st" by (auto simp: above_def)
qed

lemma above_frame [simp]:
  "above (st\<lparr>bytes := m\<rparr>) = above st" "above (st\<lparr>emac := d\<rparr>) = above st" "above (st\<lparr>send_q := q\<rparr>) = above st"
  by (simp_all add: above_def)

lemma above_unbuffered: "unbuffered_low_level_output st p = Inr st' \<Longrightarrow> above st' = above st"
  by (auto dest!: unbuffered_keeps)

lemma above_queue_copy:
  assumes "queue_copy st p = Inr (e, st')"
  shows "above st' = above st"
proof (cases "st' = st")
  case False
  from assms obtain b q st1 where a: "get_pbuf st p = Inr b" "pbuf_alloc st PBUF_RAW (tot_len b) PBUF_POOL = Inr (q, st1)"
    and r: "(if q = 0 then Inr (ERR_MEM, st1)
       else
         rbind (upd_pbuf st1 q (\<lambda>c. c\<lparr>pb_len := 0\<rparr>)) (\<lambda>st2. rbind (copy_into chain_fuel st2 q p) (\<lambda>st3.
           case pq_enqueue (send_q st3) q of (r, s) \<Rightarrow>
             if r < 0 then Inr (ERR_MEM, st3) else Inr (ERR_OK, st3\<lparr>send_q := s\<rparr>)))) = Inr (e, st')"
    by (auto simp: queue_copy_def rbind_eq_Inr)
  have 1: "above st1 = above st" using pbuf_alloc_keeps [OF a(2)] by (rule above_more)
  show ?thesis
  proof (cases "q = 0")
    case True
    with r 1 show ?thesis by simp
  next
    case False
    with r obtain st2 st3 where 2: "upd_pbuf st1 q (\<lambda>c. c\<lparr>pb_len := 0\<rparr>) = Inr st2" "copy_into chain_fuel st2 q p = Inr st3"
      "(case pq_enqueue (send_q st3) q of (r, s) \<Rightarrow>
             if r < 0 then Inr (ERR_MEM, st3) else Inr (ERR_OK, st3\<lparr>send_q := s\<rparr>)) = (Inr (e, st') :: _ res)"
      unfolding if_not_P [OF False] rbind_eq_Inr by (elim exE conjE) (rule that)
    have "above st' = above st3" using 2(3) by (cases "pq_enqueue (send_q st3) q") (auto split: if_splits)
    also have "\<dots> = above st2" using copy_into_keeps [OF 2(2)] by (rule above_more)
    also have "\<dots> = above st1" using upd_pbuf_keeps [OF 2(1)] by (rule above_more)
    finally show ?thesis using 1 by simp
  qed
qed simp

lemma above_low_level_output: "low_level_output st p = Inr (e, st') \<Longrightarrow> above st' = above st"
  by (auto simp: low_level_output_def rbind_eq_Inr split: if_splits prod.splits dest!: above_queue_copy above_unbuffered)

section \<open>Assembling a frame\<close>

lemma gather_spec:
  assumes "pchain (pbufs st) q xs" "length xs \<le> fuel" "chain_data (bytes st) (pbufs st) xs bs"
    "holds (bytes st) (xemac_tx_frame st) cs" "length cs = n"
    "off_chain (pbufs st) xs (xemac_tx_frame st) (n + length bs)"
    "{xemac_tx_frame st ..< xemac_tx_frame st + (n + length bs)} \<subseteq> dom (bytes st)"
  shows "\<exists>m. gather fuel st q n = Inr (n + length bs, st\<lparr>bytes := m\<rparr>) \<and> holds m (xemac_tx_frame st) (cs @ bs)"
  using assms
proof (induction xs arbitrary: st q n bs cs fuel)
  case Nil
  then have "gather fuel st q n = Inr (n + length bs, st\<lparr>bytes := bytes st\<rparr>) \<and> holds (bytes st) (xemac_tx_frame st) (cs @ bs)"
    by (cases fuel) simp_all
  then show ?case by blast
next
  case (Cons x xs)
  from Cons.prems(1) obtain b where b: "q = x" "x \<noteq> 0" "pbufs st x = Some b" "pchain (pbufs st) (pb_next b) xs"
    using iffD1 [OF pchain_Cons_iff Cons.prems(1)] by blast
  from Cons.prems(2) obtain f where f: "fuel = Suc f" "length xs \<le> f" by (cases fuel) auto
  let ?l = "unat (pb_len b)" and ?t = "xemac_tx_frame st"
  have d: "?l \<le> length bs" "holds (bytes st) (payload b) (take ?l bs)" "chain_data (bytes st) (pbufs st) xs (drop ?l bs)"
    using Cons.prems(3) b by simp_all
  have o: "payload b + ?l \<le> ?t \<or> ?t + (n + length bs) \<le> payload b" "off_chain (pbufs st) xs ?t (n + length bs)"
    using Cons.prems(6) b by (simp_all add: off_chain_Cons)
  obtain m where m: "memcpy (bytes st) (?t + n) (payload b) ?l = Inr m" "holds m (?t + n) (take ?l bs)" "dom m = dom (bytes st)"
    "\<forall>c. c < ?t + n \<or> ?t + n + ?l \<le> c \<longrightarrow> m c = bytes st c"
  proof -
    have "{?t + n ..< ?t + n + ?l} \<subseteq> dom (bytes st)" using Cons.prems(7) d(1) by (auto simp: subset_iff)
    then show ?thesis using memcpy_spec [OF d(2), of ?l "?t + n"] d(1) that by auto
  qed
  let ?s = "st\<lparr>bytes := m\<rparr>"
  have "holds m ?t cs" using Cons.prems(4,5) m(4) by (auto intro: holds_frame)
  then have h: "holds m ?t (cs @ take ?l bs)" using m(2) Cons.prems(5) by (simp add: holds_append)
  have c: "chain_data m (pbufs st) xs (drop ?l bs)"
    by (rule chain_data_frame [OF d(3) _ m(4)]) (use o(2) d(1) in \<open>auto elim: off_chain_sub\<close>)
  have "\<exists>m'. gather f ?s (pb_next b) (n + ?l) = Inr (n + ?l + length (drop ?l bs), ?s\<lparr>bytes := m'\<rparr>)
      \<and> holds m' (xemac_tx_frame ?s) ((cs @ take ?l bs) @ drop ?l bs)"
    by (rule Cons.IH) (use b f c h d(1) o(2) m(3) Cons.prems(5,7) in auto)
  then show ?case using b f m(1) d(1) by (auto simp: get_pbuf_Some)
qed

text \<open>C32: with a free transmit buffer and no backlog, a packet of at most 1514 bytes, in however many
  pbufs, goes out as one frame of exactly its bytes; the packet itself stays as it is.\<close>

theorem low_level_output_sends:
  assumes "pchain (pbufs st) p xs" "length xs \<le> chain_fuel" "chain_data (bytes st) (pbufs st) xs bs"
    "length bs \<le> XEL_MAX_TX_FRAME_SIZE" "off_chain (pbufs st) xs (xemac_tx_frame st) (length bs)"
    "{xemac_tx_frame st ..< xemac_tx_frame st + length bs} \<subseteq> dom (bytes st)"
    "XEmacLite_TxBufferAvailable (emac st)" "em_ok (emac st)" "pq_qlength (send_q st) = 0"
  shows "\<exists>a st'. low_level_output st p = Inr (ERR_OK, st') \<and> tx_free (GetTxStatus (em_regs (emac st)) a)
    \<and> dev_bytes (em_regs (emac st')) a (length bs) = bs \<and> em_regs (emac st') (a + XEL_TPLR_OFFSET) = of_nat (length bs)
    \<and> GetTxStatus (em_regs (emac st')) a AND XEL_TSR_XMIT_BUSY_MASK \<noteq> 0 \<and> pbufs st' = pbufs st"
proof -
  obtain m where g: "gather chain_fuel st p 0 = Inr (length bs, st\<lparr>bytes := m\<rparr>)" "holds m (xemac_tx_frame st) bs"
    using gather_spec [OF assms(1-3), of "[]" 0] assms(5,6) by auto
  from emac_send_delivers [OF assms(7,8) g(2) assms(4)] obtain a d where
    d: "XEmacLite_Send m (emac st) (xemac_tx_frame st) (length bs) = Inr (True, d)" "tx_free (GetTxStatus (em_regs (emac st)) a)"
      "dev_bytes (em_regs d) a (length bs) = bs" "em_regs d (a + XEL_TPLR_OFFSET) = of_nat (length bs)"
      "GetTxStatus (em_regs d) a AND XEL_TSR_XMIT_BUSY_MASK \<noteq> 0" by blast
  have "low_level_output st p = Inr (ERR_OK, st\<lparr>bytes := m, emac := d\<rparr>)"
    using assms(7,9) g(1) d(1) by (simp add: low_level_output_def unbuffered_low_level_output_def)
  with d show ?thesis by (intro exI [of _ a] exI [of _ "st\<lparr>bytes := m, emac := d\<rparr>"]) simp
qed

definition sample_link :: "memory \<Rightarrow> (addr \<rightharpoonup> pbuf) \<Rightarrow> pq_queue \<Rightarrow> link_st" where
  "sample_link m h q = \<lparr>bytes = m, pbufs = h, pools = \<lparr>memp_tab = (\<lambda>_. 0), memp_next = (\<lambda>_. 0)\<rparr>,
     mheap = \<lparr>ram_base = 0, hdr = (\<lambda>_. \<lparr>mh_next = 0, mh_prev = 0, mh_used = False\<rparr>), lfree = 0\<rparr>,
     pbuf_free_ooseq_pending = 0, custom_freed = [], emac = sample_emac (\<lambda>_. 0), recv_q = pq_empty, send_q = q,
     xemac_tx_frame = 64, intc_acks = [], arp_table = [], etharp_cached_entry = 0\<rparr>"

definition wide_mem :: memory where "wide_mem = (\<lambda>a. if a < 1000 then Some (of_nat a) else None)"

lemma sample_emac_ready: "XEmacLite_TxBufferAvailable (sample_emac (\<lambda>_. 0))" "em_ok (sample_emac (\<lambda>_. 0))"
  by (simp_all add: XEmacLite_TxBufferAvailable_def sample_emac_def XEmacLite_CfgInitialize_def GetTxStatus_def
      tx_free_def em_ok_def XEL_BUFFER_OFFSET_def)

theorem low_level_output_sends_witness:
  "\<exists>a st'. low_level_output (sample_link wide_mem [100 \<mapsto> sample_pbuf 200 300 5 3 1, 200 \<mapsto> sample_pbuf 0 400 2 2 1] pq_empty) 100
      = Inr (ERR_OK, st') \<and> dev_bytes (em_regs (emac st')) a 5 = [44, 45, 46, 144, 145]"
proof -
  let ?st = "sample_link wide_mem [100 \<mapsto> sample_pbuf 200 300 5 3 1, 200 \<mapsto> sample_pbuf 0 400 2 2 1] pq_empty"
  have c: "pchain (pbufs ?st) 100 [100, 200]" "length [100, 200 :: addr] \<le> chain_fuel"
    "chain_data (bytes ?st) (pbufs ?st) [100, 200] [44, 45, 46, 144, 145]"
    by (simp_all add: sample_link_def sample_pbuf_def chain_fuel_def wide_mem_def)
  have l: "length [44, 45, 46, 144, 145 :: u8] \<le> XEL_MAX_TX_FRAME_SIZE"
    "off_chain (pbufs ?st) [100, 200] (xemac_tx_frame ?st) (length [44, 45, 46, 144, 145 :: u8])"
    "{xemac_tx_frame ?st ..< xemac_tx_frame ?st + length [44, 45, 46, 144, 145 :: u8]} \<subseteq> dom (bytes ?st)"
    by (auto simp: sample_link_def XEL_MAX_TX_FRAME_SIZE_def off_chain_def sample_pbuf_def wide_mem_def)
  have e: "XEmacLite_TxBufferAvailable (emac ?st)" "em_ok (emac ?st)" "pq_qlength (send_q ?st) = 0"
    using sample_emac_ready by (simp_all add: sample_link_def pq_qlength_def pq_empty_def)
  from low_level_output_sends [OF c l e] obtain a st' where
    "low_level_output ?st 100 = Inr (ERR_OK, st')"
    "dev_bytes (em_regs (emac st')) a (length [44, 45, 46, 144, 145 :: u8]) = [44, 45, 46, 144, 145]" by blast
  then show ?thesis by (intro exI [of _ a] exI [of _ st']) (simp add: eval_nat_numeral)
qed

section \<open>The backlog\<close>

lemma send_q_more: "pbuf_st.more st' = pbuf_st.more st \<Longrightarrow> send_q st' = send_q (st :: 'a link_st_scheme)"
  by (cases st; cases st'; simp)

lemma pool_tail_0 [simp]: "pool_tail p st r 0 = Inr (True, st)"
  by (subst pool_tail.simps) simp

lemma pool_alloc_fresh:
  assumes "pbuf_alloc st PBUF_RAW n PBUF_POOL = Inr (q, st')" "memp_repr (pools st) F" "x \<notin> set (F MEMP_PBUF_POOL)"
    "unat n \<le> 1728" "x \<noteq> 0"
  shows "q \<noteq> x \<and> pbufs st' x = pbufs st x"
proof -
  obtain q0 ps where q0: "memp_malloc (pools st) MEMP_PBUF_POOL = (q0, ps)" by (cases "memp_malloc (pools st) MEMP_PBUF_POOL")
  have ne: "q0 \<noteq> x"
  proof (cases "q0 = 0")
    case False
    with mp.alloc_fresh [OF assms(2) q0] assms(3) show ?thesis by auto
  qed (use assms(5) in simp)
  have "align_offset 0 = 0" by (simp add: align_offset_def LWIP_MEM_ALIGN_SIZE_def)
  then have m: "min (unat n) (PBUF_POOL_BUFSIZE_ALIGNED - align_offset 0) = unat n"
    using assms(4) by (simp add: PBUF_POOL_BUFSIZE_ALIGNED_def)
  show ?thesis
  proof (cases "q0 = 0")
    case True
    with assms(1) q0 assms(5) show ?thesis by (auto simp: pbuf_alloc_def PBUF_POOL_IS_EMPTY_def)
  next
    case False
    with assms(1) q0 m ne show ?thesis
      by (auto simp: pbuf_alloc_def Let_def)
  qed
qed

lemma copy_into_others: "copy_into fuel st q p = Inr st' \<Longrightarrow> x \<noteq> q \<Longrightarrow> pbufs st' x = pbufs st x"
proof (induction fuel arbitrary: st p)
  case (Suc fuel)
  then show ?case
  proof (cases "p = 0")
    case False
    with Suc.prems show ?thesis by (auto simp: rbind_eq_Inr dest: Suc.IH)
  qed simp
qed (simp split: if_splits)

lemma queue_copy_others:
  fixes st :: "'a link_st_scheme"
  assumes "queue_copy st p = Inr (e, st')" "memp_repr (pools st) F" "x \<notin> set (F MEMP_PBUF_POOL)" "x \<noteq> 0"
    "pbufs st p = Some b" "unat (tot_len b) \<le> 1728" "pq_ok (send_q st)" "x \<notin> set (pq_contents (send_q st))"
  shows "pbufs st' x = pbufs st x \<and> x \<notin> set (pq_contents (send_q st'))"
proof -
  have "p \<noteq> 0" using assms(1) by (cases "p = 0") (simp_all add: queue_copy_def get_pbuf_def)
  then have g: "get_pbuf st p = Inr b" using assms(5) by (simp add: get_pbuf_def)
  from assms(1) obtain q st1 where a: "pbuf_alloc st PBUF_RAW (tot_len b) PBUF_POOL = Inr (q, st1)"
    and r: "(if q = 0 then Inr (ERR_MEM, st1)
       else
         rbind (upd_pbuf st1 q (\<lambda>c. c\<lparr>pb_len := 0\<rparr>)) (\<lambda>st2. rbind (copy_into chain_fuel st2 q p) (\<lambda>st3.
           case pq_enqueue (send_q st3) q of (r, s) \<Rightarrow>
             if r < 0 then Inr (ERR_MEM, st3) else Inr (ERR_OK, st3\<lparr>send_q := s\<rparr>)))) = Inr (e, st')"
    unfolding queue_copy_def g rbind_Inr by (auto simp: rbind_eq_Inr)
  have f: "q \<noteq> x" "pbufs st1 x = pbufs st x" using pool_alloc_fresh [OF a assms(2,3,6,4)] by simp_all
  have s1: "send_q st1 = send_q st" using pbuf_alloc_keeps [OF a] by (rule send_q_more)
  show ?thesis
  proof (cases "q = 0")
    case True
    with r f s1 assms(8) show ?thesis by simp
  next
    case False
    with r obtain st2 st3 where 2: "upd_pbuf st1 q (\<lambda>c. c\<lparr>pb_len := 0\<rparr>) = Inr st2" "copy_into chain_fuel st2 q p = Inr st3"
      "(case pq_enqueue (send_q st3) q of (r, s) \<Rightarrow>
             if r < 0 then Inr (ERR_MEM, st3) else Inr (ERR_OK, st3\<lparr>send_q := s\<rparr>)) = (Inr (e, st') :: _ res)"
      unfolding if_not_P [OF False] rbind_eq_Inr by (elim exE conjE) (rule that)
    have h: "pbufs st3 x = pbufs st x"
      using copy_into_others [OF 2(2), of x] 2(1) f by (auto simp: upd_pbuf_def rbind_eq_Inr)
    have s3: "send_q st3 = send_q st"
      using send_q_more [OF copy_into_keeps [OF 2(2)]] send_q_more [OF upd_pbuf_keeps [OF 2(1)]] s1 by simp
    from ring.enq_refines [OF assms(7), of q] obtain k s where
      k: "pq_enqueue (send_q st) q = (k, s)" "list_enq PQ_QUEUE_SIZE (pq_contents (send_q st)) q = (k, pq_contents s)" by blast
    have "x \<notin> set (pq_contents s)"
    proof (cases "length (pq_contents (send_q st)) = PQ_QUEUE_SIZE")
      case True
      with k(2) have "pq_contents s = pq_contents (send_q st)" by (simp add: list_enq_def)
      with assms(8) show ?thesis by simp
    next
      case False
      with k(2) have "pq_contents s = pq_contents (send_q st) @ [q]" by (simp add: list_enq_def)
      with assms(8) f show ?thesis by simp
    qed
    then show ?thesis using 2(3) k(1) s3 h assms(8) by (auto split: if_splits)
  qed
qed

text \<open>C38: a frame that waited because both transmit buffers were busy is sent when the next packet goes
  out, but the pbuf that holds it is never freed: it stays allocated and no queue refers to it any more.
  (Only a frame that the transmit interrupt sends is freed.)\<close>

theorem send_backlog_leaks:
  assumes "low_level_output st p = Inr (e, st')" "XEmacLite_TxBufferAvailable (emac st)"
    "pq_ok (send_q st)" "pq_contents (send_q st) = x # ys" "x \<notin> set ys" "x \<noteq> 0"
    "memp_repr (pools st) F" "x \<notin> set (F MEMP_PBUF_POOL)" "pbufs st p = Some b" "unat (tot_len b) \<le> 1728"
  shows "pbufs st' x = pbufs st x \<and> x \<notin> set (pq_contents (send_q st'))"
proof -
  from ring.deq_ok [OF assms(3,4)] obtain s where s: "pq_dequeue (send_q st) = (x, s)" "pq_ok s" "pq_contents s = ys" by blast
  have n: "pq_qlength (send_q st) \<noteq> 0" using assms(3,4) pq_contents_Nil_iff [of "send_q st"] by (simp add: pq_qlength_def)
  from assms(1,2) n s(1) obtain st1 where o: "unbuffered_low_level_output (st\<lparr>send_q := s\<rparr>) x = Inr st1" "queue_copy st1 p = Inr (e, st')"
    by (auto simp: low_level_output_def rbind_eq_Inr)
  from unbuffered_keeps [OF o(1)] obtain m d where st1: "st1 = st\<lparr>send_q := s, bytes := m, emac := d\<rparr>" by blast
  have "pbufs st' x = pbufs st1 x \<and> x \<notin> set (pq_contents (send_q st'))"
    by (rule queue_copy_others [OF o(2), of F _ b]) (use st1 assms s in simp_all)
  then show ?thesis using st1 by simp
qed

definition waiting_queue :: pq_queue where
  "waiting_queue = \<lparr>pq_data = (\<lambda>_. 0)(0 := 200), pq_head = 1, pq_tail = 0, pq_len = 1\<rparr>"

theorem send_backlog_leaks_witness:
  "\<exists>st'. low_level_output (sample_link wide_mem [100 \<mapsto> sample_pbuf 0 300 3 3 1, 200 \<mapsto> sample_pbuf 0 400 2 2 1] waiting_queue) 100
      = Inr (ERR_MEM, st') \<and> pbufs st' 200 = Some (sample_pbuf 0 400 2 2 1) \<and> 200 \<notin> set (pq_contents (send_q st'))"
proof -
  let ?st = "sample_link wide_mem [100 \<mapsto> sample_pbuf 0 300 3 3 1, 200 \<mapsto> sample_pbuf 0 400 2 2 1] waiting_queue"
  let ?s = "\<lparr>pq_data = (\<lambda>_. 0)(0 := 200), pq_head = 1, pq_tail = 1, pq_len = 0\<rparr>"
  have c: "pq_ok waiting_queue" "pq_contents waiting_queue = [200]" "pq_dequeue waiting_queue = (200, ?s)"
    by (simp_all add: pq_ok_def pq_contents_def waiting_queue_def PQ_QUEUE_SIZE_def pq_dequeue_def)
  have m: "memp_repr (pools ?st) (\<lambda>_. [])" by (simp add: memp_repr_def sample_link_def)
  have ch: "pchain (pbufs ?st) 200 [200]" "chain_data (bytes ?st) (pbufs ?st) [200] [144, 145]"
    by (simp_all add: sample_link_def sample_pbuf_def wide_mem_def)
  obtain mm where g: "gather chain_fuel (?st\<lparr>send_q := ?s\<rparr>) 200 0 = Inr (2, ?st\<lparr>send_q := ?s, bytes := mm\<rparr>)" "holds mm 64 [144, 145]"
  proof -
    have "{64 ..< 64 + 2} \<subseteq> dom (bytes ?st)" "off_chain (pbufs ?st) [200] 64 2"
      by (auto simp: sample_link_def wide_mem_def off_chain_def sample_pbuf_def)
    then show ?thesis
      using gather_spec [of "?st\<lparr>send_q := ?s\<rparr>" 200 "[200]" chain_fuel "[144, 145]" "[]" 0] ch that
      by (auto simp: sample_link_def chain_fuel_def eval_nat_numeral)
  qed
  obtain d where d: "XEmacLite_Send mm (sample_emac (\<lambda>_. 0)) 64 2 = Inr (True, d)"
    using emac_send_delivers [OF sample_emac_ready g(2)] by (auto simp: XEL_MAX_TX_FRAME_SIZE_def eval_nat_numeral)
  have u: "unbuffered_low_level_output (?st\<lparr>send_q := ?s\<rparr>) 200 = Inr (?st\<lparr>send_q := ?s, bytes := mm, emac := d\<rparr>)"
    using g(1) d by (simp add: unbuffered_low_level_output_def) (simp add: sample_link_def)
  have "queue_copy (?st\<lparr>send_q := ?s, bytes := mm, emac := d\<rparr>) 100
      = Inr (ERR_MEM, PBUF_POOL_IS_EMPTY (?st\<lparr>send_q := ?s, bytes := mm, emac := d\<rparr>))"
    by (simp add: queue_copy_def get_pbuf_def pbuf_alloc_def memp_malloc_def sample_link_def PBUF_POOL_IS_EMPTY_def)
  then have e: "\<exists>st'. low_level_output ?st 100 = Inr (ERR_MEM, st')"
    using u c sample_emac_ready by (simp add: low_level_output_def sample_link_def pq_qlength_def waiting_queue_def)
  then obtain st' where o: "low_level_output ?st 100 = Inr (ERR_MEM, st')" by blast
  have "pbufs st' 200 = pbufs ?st 200 \<and> 200 \<notin> set (pq_contents (send_q st'))"
    by (rule send_backlog_leaks [OF o _ _ _ _ _ m]) (use sample_emac_ready c in \<open>auto simp: sample_link_def sample_pbuf_def\<close>)
  then show ?thesis using o by (auto simp: sample_link_def)
qed

end
