(* ===== verification/Ip.thy ===== *)
theory Ip
  imports InetChksum IpAddr Link
begin

text \<open>
  The network interface list and IP output: \<^verbatim>\<open>lwip-1.4.1/src/core/netif.c\<close> and the output half of
  \<^verbatim>\<open>lwip-1.4.1/src/core/ipv4/ip.c\<close>. The functions that a network interface carries as function
  pointers, and \<^verbatim>\<open>ip_frag\<close> (\<^verbatim>\<open>ip_frag.c\<close>, reached only for packets longer than the MTU), are
  arguments, collected in the record \<open>ip_env\<close>.
\<close>

section \<open>State\<close>

text \<open>
  The control blocks of the raw and UDP modules share the members of \<^verbatim>\<open>IP_PCB\<close> with those of TCP. A
  receive function is its address, 0 when none is set.
\<close>

record ip_pcb =
  local_ip :: u32
  remote_ip :: u32
  so_options :: u8
  tos :: u8
  ttl :: u8

record raw_pcb = ip_pcb +
  raw_next :: addr
  raw_protocol :: u8
  raw_recv_fn :: addr
  raw_recv_arg :: u32

record udp_pcb = ip_pcb +
  udp_next :: addr
  udp_flags :: u8
  udp_local_port :: u16
  udp_remote_port :: u16
  udp_recv_fn :: addr
  udp_recv_arg :: u32

text \<open>
  A datagram under reassembly. The header of the fragment kept is its 20 bytes; the fragments
  themselves are linked through the pbufs' memory.
\<close>

record ip_reassdata =
  rd_next :: addr
  rd_p :: addr
  rd_iphdr :: "u8 list"
  rd_datagram_len :: u16
  rd_flags :: u8
  rd_timer :: u8

text \<open>
  The state of the IP layer and of the datagram protocols above it: the global variables of
  \<^verbatim>\<open>netif.c\<close>, \<^verbatim>\<open>ip.c\<close>, \<^verbatim>\<open>ip_frag.c\<close>, \<^verbatim>\<open>raw.c\<close> and \<^verbatim>\<open>udp.c\<close>. \<open>frag_refs\<close> holds the member
  \<^verbatim>\<open>original\<close> of the \<^verbatim>\<open>struct pbuf_custom_ref\<close> in use.
\<close>

record ip_st = link_st +
  netifs :: "addr \<rightharpoonup> netif"
  netif_list :: "addr list"
  netif_default :: addr
  netif_num :: u8
  ip_id :: u16
  current_netif :: addr
  current_header :: addr
  current_iphdr_src :: u32
  current_iphdr_dest :: u32
  reass :: "addr \<rightharpoonup> ip_reassdata"
  reassdatagrams :: addr
  ip_reass_pbufcount :: u16
  frag_refs :: "addr \<rightharpoonup> addr"
  raw_tab :: "addr \<rightharpoonup> raw_pcb"
  raw_pcbs :: addr
  udp_tab :: "addr \<rightharpoonup> udp_pcb"
  udp_pcbs :: addr
  udp_port :: u16

record 'st ip_env =
  netif_output :: "addr \<Rightarrow> addr \<Rightarrow> u32 \<Rightarrow> 'st \<Rightarrow> (err_t \<times> 'st) res"
  ip_frag :: "addr \<Rightarrow> addr \<Rightarrow> u32 \<Rightarrow> 'st \<Rightarrow> (err_t \<times> 'st) res"
  etharp_gratuitous :: "addr \<Rightarrow> 'st \<Rightarrow> 'st res"
  etharp_cleanup_netif :: "addr \<Rightarrow> 'st \<Rightarrow> 'st res"

definition get_netif :: "'a ip_st_scheme \<Rightarrow> addr \<Rightarrow> netif res" where
  "get_netif st n = (if n = 0 then Inl Null_deref
     else case netifs st n of None \<Rightarrow> Inl (Dangling n) | Some x \<Rightarrow> Inr x)"

definition put_netif :: "'a ip_st_scheme \<Rightarrow> addr \<Rightarrow> netif \<Rightarrow> 'a ip_st_scheme" where
  "put_netif st n x = st\<lparr>netifs := (netifs st)(n \<mapsto> x)\<rparr>"

section \<open>Interface configuration\<close>

definition netif_set_default :: "'a ip_st_scheme \<Rightarrow> addr \<Rightarrow> 'a ip_st_scheme" where
  "netif_set_default st n = st\<lparr>netif_default := n\<rparr>"

definition netif_set_up :: "('a ip_st_scheme) ip_env \<Rightarrow> 'a ip_st_scheme \<Rightarrow> addr \<Rightarrow> 'a ip_st_scheme res" where
  "netif_set_up env st n =
     rbind (get_netif st n) (\<lambda>x.
       if nif_flags x AND NETIF_FLAG_UP = 0 then
         let x1 = x\<lparr>nif_flags := nif_flags x OR NETIF_FLAG_UP\<rparr>; st1 = put_netif st n x1 in
         if nif_flags x1 AND NETIF_FLAG_LINK_UP \<noteq> 0 \<and> nif_flags x1 AND NETIF_FLAG_ETHARP \<noteq> 0
         then etharp_gratuitous env n st1 else Inr st1
       else Inr st)"

definition netif_set_down :: "('a ip_st_scheme) ip_env \<Rightarrow> 'a ip_st_scheme \<Rightarrow> addr \<Rightarrow> 'a ip_st_scheme res" where
  "netif_set_down env st n =
     rbind (get_netif st n) (\<lambda>x.
       if nif_flags x AND NETIF_FLAG_UP \<noteq> 0 then
         let x1 = x\<lparr>nif_flags := nif_flags x AND NOT NETIF_FLAG_UP\<rparr>; st1 = put_netif st n x1 in
         if nif_flags x1 AND NETIF_FLAG_ETHARP \<noteq> 0 then etharp_cleanup_netif env n st1 else Inr st1
       else Inr st)"

definition netif_set_netmask :: "'a ip_st_scheme \<Rightarrow> addr \<Rightarrow> u32 \<Rightarrow> 'a ip_st_scheme res" where
  "netif_set_netmask st n m = rbind (get_netif st n) (\<lambda>x. Inr (put_netif st n (x\<lparr>netmask := m\<rparr>)))"

definition netif_set_gw :: "'a ip_st_scheme \<Rightarrow> addr \<Rightarrow> u32 \<Rightarrow> 'a ip_st_scheme res" where
  "netif_set_gw st n g = rbind (get_netif st n) (\<lambda>x. Inr (put_netif st n (x\<lparr>gw := g\<rparr>)))"

section \<open>Routing\<close>

text \<open>The loop over the interface list: the first interface that is up and on whose network \<open>dest\<close> lies.\<close>

fun route_scan :: "'a ip_st_scheme \<Rightarrow> u32 \<Rightarrow> addr list \<Rightarrow> addr res" where
  "route_scan st dest [] = Inr 0"
| "route_scan st dest (n # ns) =
     rbind (get_netif st n) (\<lambda>x.
       if netif_is_up x \<and> ip_addr_netcmp dest (ip_addr x) (netmask x) then Inr n
       else route_scan st dest ns)"

definition ip_route :: "'a ip_st_scheme \<Rightarrow> u32 \<Rightarrow> addr res" where
  "ip_route st dest =
     rbind (route_scan st dest (netif_list st)) (\<lambda>n.
       if n \<noteq> 0 then Inr n
       else if netif_default st = 0 then Inr 0
       else rbind (get_netif st (netif_default st)) (\<lambda>x.
         if \<not> netif_is_up x then Inr 0 else Inr (netif_default st)))"

section \<open>Output\<close>

definition IP_HLEN :: nat where "IP_HLEN = 20"
definition IP_PROTO_TCP :: u8 where "IP_PROTO_TCP = 6"

definition LWIP_MAKE_U16 :: "u8 \<Rightarrow> u8 \<Rightarrow> u32" where
  "LWIP_MAKE_U16 a b = push_bit 8 (ucast a) OR ucast b"

text \<open>The inline checksum: the header's halfwords added up, folded twice and inverted.\<close>

definition ip_chksum_of :: "u32 \<Rightarrow> u32 \<Rightarrow> u8 \<Rightarrow> u8 \<Rightarrow> u8 \<Rightarrow> u16 \<Rightarrow> u16 \<Rightarrow> u16" where
  "ip_chksum_of src dest ttl0 tos0 proto tot ident =
     (let s = LWIP_MAKE_U16 proto ttl0 + (dest AND 0xffff) + drop_bit 16 dest + LWIP_MAKE_U16 tos0 0x45
              + ucast (lwip_htons tot) + ucast (lwip_htons ident) + (src AND 0xffff) + drop_bit 16 src;
          s1 = drop_bit 16 s + (s AND 0xffff);
          s2 = drop_bit 16 s1 + s1
      in ucast (NOT s2))"

text \<open>
  The header of \<^verbatim>\<open>struct ip_hdr\<close> at \<open>h\<close>, field by field in the order of the code, with the
  inline checksum.
\<close>

definition ip_fill_header ::
  "memory \<Rightarrow> addr \<Rightarrow> u32 \<Rightarrow> u32 \<Rightarrow> u8 \<Rightarrow> u8 \<Rightarrow> u8 \<Rightarrow> u16 \<Rightarrow> u16 \<Rightarrow> memory res" where
  "ip_fill_header m h src dest ttl0 tos0 proto tot ident =
     rbind (wr8 m (h + 8) ttl0) (\<lambda>m. rbind (wr8 m (h + 9) proto) (\<lambda>m.
     rbind (wr32 m (h + 16) dest) (\<lambda>m. rbind (wr8 m h 0x45) (\<lambda>m. rbind (wr8 m (h + 1) tos0) (\<lambda>m.
     rbind (wr16 m (h + 2) (lwip_htons tot)) (\<lambda>m. rbind (wr16 m (h + 6) 0) (\<lambda>m.
     rbind (wr16 m (h + 4) (lwip_htons ident)) (\<lambda>m. rbind (wr32 m (h + 12) src) (\<lambda>m.
       wr16 m (h + 10) (ip_chksum_of src dest ttl0 tos0 proto tot ident))))))))))"

text \<open>\<open>dest = None\<close> is \<^verbatim>\<open>IP_HDRINCL\<close>: the packet has its IP header already.\<close>

definition ip_output_if ::
  "('a ip_st_scheme) ip_env \<Rightarrow> 'a ip_st_scheme \<Rightarrow> addr \<Rightarrow> u32 \<Rightarrow> u32 option \<Rightarrow> u8 \<Rightarrow> u8 \<Rightarrow> u8 \<Rightarrow> addr
     \<Rightarrow> (err_t \<times> 'a ip_st_scheme) res" where
  "ip_output_if env st p src dest ttl0 tos0 proto n =
     (let send = (\<lambda>st1 d.
        rbind (get_netif st1 n) (\<lambda>x. rbind (get_pbuf st1 p) (\<lambda>b.
          if mtu x \<noteq> 0 \<and> mtu x < tot_len b then ip_frag env p n d st1
          else netif_output env n p d st1)))
      in case dest of
        None \<Rightarrow> rbind (get_pbuf st p) (\<lambda>b. rbind (rd32 (bytes st) (payload b + 16)) (\<lambda>d. send st d))
      | Some d \<Rightarrow>
          rbind (pbuf_header st p (of_nat IP_HLEN)) (\<lambda>(failed, st1).
            if failed \<noteq> 0 then Inr (ERR_BUF, st1)
            else rbind (get_pbuf st1 p) (\<lambda>b. rbind (get_netif st1 n) (\<lambda>x.
              rbind (ip_fill_header (bytes st1) (payload b)
                       (if ip_addr_isany src then ip_addr x else src) d ttl0 tos0 proto (tot_len b) (ip_id st1))
                (\<lambda>m. send (st1\<lparr>bytes := m, ip_id := ip_id st1 + 1\<rparr>) d)))))"

definition ip_output ::
  "('a ip_st_scheme) ip_env \<Rightarrow> 'a ip_st_scheme \<Rightarrow> addr \<Rightarrow> u32 \<Rightarrow> u32 \<Rightarrow> u8 \<Rightarrow> u8 \<Rightarrow> u8
     \<Rightarrow> (err_t \<times> 'a ip_st_scheme) res" where
  "ip_output env st p src dest ttl0 tos0 proto =
     rbind (ip_route st dest) (\<lambda>n.
       if n = 0 then Inr (ERR_RTE, st)
       else ip_output_if env st p src (Some dest) ttl0 tos0 proto n)"

section \<open>The IP header\<close>

lemma unat_MAKE_U16: "unat (LWIP_MAKE_U16 a b) = unat b + 256 * unat a"
proof -
  have "LWIP_MAKE_U16 a b = ucast (push_bit 8 (ucast a) OR ucast b :: u16)"
    unfolding LWIP_MAKE_U16_def by (rule bit_word_eqI) (auto simp: bit_simps dest: bit_imp_le_length)
  then show ?thesis by (simp only: be_src unat_ucast_u16_u32 unat_le16)
qed

lemma wr8_map: "m a \<noteq> None \<Longrightarrow> wr8 m a v = Inr (m(a \<mapsto> v))"
  by (auto simp: wr8_def)

lemma wr16_map:
  "m a \<noteq> None \<Longrightarrow> m (Suc a) \<noteq> None \<Longrightarrow>
   wr16 m a v = Inr (m(a \<mapsto> ucast v, Suc a \<mapsto> ucast (drop_bit 8 v)))"
  by (simp add: wr16_def bytes16_def wr8_map)

lemma wr32_map:
  "m a \<noteq> None \<Longrightarrow> m (Suc a) \<noteq> None \<Longrightarrow> m (Suc (Suc a)) \<noteq> None \<Longrightarrow> m (Suc (Suc (Suc a))) \<noteq> None \<Longrightarrow>
   wr32 m a v = Inr (m(a \<mapsto> ucast v, Suc a \<mapsto> ucast (drop_bit 8 v),
     Suc (Suc a) \<mapsto> ucast (drop_bit 16 v), Suc (Suc (Suc a)) \<mapsto> ucast (drop_bit 24 v)))"
  by (simp add: wr32_def bytes32_def wr8_map)

text \<open>The 20 bytes of the header.\<close>

definition ip_hdr_bytes :: "u32 \<Rightarrow> u32 \<Rightarrow> u8 \<Rightarrow> u8 \<Rightarrow> u8 \<Rightarrow> u16 \<Rightarrow> u16 \<Rightarrow> u16 \<Rightarrow> u8 list" where
  "ip_hdr_bytes src dest ttl0 tos0 proto tot ident ck =
     [0x45, tos0] @ bytes16 (lwip_htons tot) @ bytes16 (lwip_htons ident) @ bytes16 0 @ [ttl0, proto]
     @ bytes16 ck @ bytes32 src @ bytes32 dest"

lemma ip_fill_header_spec:
  assumes "{h ..< h + 20} \<subseteq> dom m"
  shows "\<exists>m'. ip_fill_header m h src dest ttl0 tos0 proto tot ident = Inr m'
    \<and> holds m' h (ip_hdr_bytes src dest ttl0 tos0 proto tot ident (ip_chksum_of src dest ttl0 tos0 proto tot ident))
    \<and> dom m' = dom m \<and> (\<forall>c. c < h \<or> h + 20 \<le> c \<longrightarrow> m' c = m c)"
proof -
  have d: "m (h + k) \<noteq> None" if "k < 20" for k
  proof -
    have "h + k \<in> {h ..< h + 20}" using that by simp
    then have "h + k \<in> dom m" using assms by blast
    then show ?thesis by (simp add: domIff)
  qed
  have ds: "m h \<noteq> None" "m (Suc h) \<noteq> None" "m (h + 2) \<noteq> None" "m (Suc (h + 2)) \<noteq> None"
    "m (h + 4) \<noteq> None" "m (Suc (h + 4)) \<noteq> None" "m (h + 6) \<noteq> None" "m (Suc (h + 6)) \<noteq> None"
    "m (h + 8) \<noteq> None" "m (h + 9) \<noteq> None" "m (h + 10) \<noteq> None" "m (Suc (h + 10)) \<noteq> None"
    "m (h + 12) \<noteq> None" "m (Suc (h + 12)) \<noteq> None" "m (Suc (Suc (h + 12))) \<noteq> None"
    "m (Suc (Suc (Suc (h + 12)))) \<noteq> None"
    "m (h + 16) \<noteq> None" "m (Suc (h + 16)) \<noteq> None" "m (Suc (Suc (h + 16))) \<noteq> None"
    "m (Suc (Suc (Suc (h + 16)))) \<noteq> None"
    using d [of 0] d [of 1] d [of 2] d [of 3] d [of 4] d [of 5] d [of 6] d [of 7] d [of 8] d [of 9]
      d [of 10] d [of 11] d [of 12] d [of 13] d [of 14] d [of 15] d [of 16] d [of 17] d [of 18] d [of 19]
    by (simp_all add: eval_nat_numeral)
  let ?ck = "ip_chksum_of src dest ttl0 tos0 proto tot ident"
  define m' where "m' = m(h + 8 \<mapsto> ttl0, h + 9 \<mapsto> proto, h + 16 \<mapsto> ucast dest, h + 17 \<mapsto> ucast (drop_bit 8 dest),
     h + 18 \<mapsto> ucast (drop_bit 16 dest), h + 19 \<mapsto> ucast (drop_bit 24 dest), h \<mapsto> 0x45, h + 1 \<mapsto> tos0,
     h + 2 \<mapsto> ucast (lwip_htons tot), Suc (Suc (Suc h)) \<mapsto> ucast (drop_bit 8 (lwip_htons tot)),
     h + 6 \<mapsto> ucast (0 :: u16), h + 7 \<mapsto> ucast (drop_bit 8 (0 :: u16)),
     h + 4 \<mapsto> ucast (lwip_htons ident), h + 5 \<mapsto> ucast (drop_bit 8 (lwip_htons ident)),
     h + 12 \<mapsto> ucast src, h + 13 \<mapsto> ucast (drop_bit 8 src), h + 14 \<mapsto> ucast (drop_bit 16 src),
     h + 15 \<mapsto> ucast (drop_bit 24 src), h + 10 \<mapsto> ucast ?ck, h + 11 \<mapsto> ucast (drop_bit 8 ?ck))"
  have n: "Suc (h + 2) = h + 3" "Suc (h + 4) = h + 5" "Suc (h + 6) = h + 7" "Suc (h + 10) = h + 11"
    "Suc (h + 12) = h + 13" "Suc (h + 13) = h + 14" "Suc (h + 14) = h + 15" "Suc (h + 16) = h + 17"
    "Suc (h + 17) = h + 18" "Suc (h + 18) = h + 19" by simp_all
  have "ip_fill_header m h src dest ttl0 tos0 proto tot ident = Inr m'"
    unfolding ip_fill_header_def m'_def
    using ds by (simp add: wr8_map wr16_map wr32_map n)
  moreover have "holds m' h (ip_hdr_bytes src dest ttl0 tos0 proto tot ident ?ck)"
    unfolding m'_def by (simp add: ip_hdr_bytes_def bytes16_def bytes32_def)
  moreover have "dom m' = dom m"
    unfolding m'_def using ds by (simp add: n dom_def) auto
  moreover have "\<forall>c. c < h \<or> h + 20 \<le> c \<longrightarrow> m' c = m c" unfolding m'_def by auto
  ultimately show ?thesis by blast
qed

lemma unat_and_drop: "unat ((w :: u32) AND 0xffff) + unat (drop_bit 16 w) \<le> 131070"
  "ceq (unat (w AND 0xffff) + unat (drop_bit 16 w)) (unat w)"
proof -
  have "unat w div 65536 < 65536" using unat_u32_lt [of w] by (simp add: less_mult_imp_div_less)
  moreover have "unat w mod 65536 < 65536" by simp
  ultimately show "unat (w AND 0xffff) + unat (drop_bit 16 w) \<le> 131070"
    unfolding unat_and_ffff unat_drop_bit by simp
  show "ceq (unat (w AND 0xffff) + unat (drop_bit 16 w)) (unat w)"
    using ceq_FOLD [of w] unfolding unat_FOLD unat_and_ffff unat_drop_bit by (simp add: add.commute)
qed

lemma ip_header_sum:
  "ones_sum (ip_hdr_bytes src dest ttl0 tos0 proto tot ident (ip_chksum_of src dest ttl0 tos0 proto tot ident)) = 0xffff"
proof -
  define t where "t = lwip_htons tot"
  define i where "i = lwip_htons ident"
  define s where "s = LWIP_MAKE_U16 proto ttl0 + (dest AND 0xffff) + drop_bit 16 dest + LWIP_MAKE_U16 tos0 0x45
     + ucast t + ucast i + (src AND 0xffff) + drop_bit 16 src"
  define s1 where "s1 = FOLD_U32T s"
  define s2 where "s2 = drop_bit 16 s1 + s1"
  let ?ck = "ip_chksum_of src dest ttl0 tos0 proto tot ident"
  have ck: "?ck = ucast (NOT s2)"
    by (simp add: ip_chksum_of_def Let_def s2_def s1_def s_def FOLD_U32T_def t_def i_def)
  have b: "unat ttl0 < 256" "unat proto < 256" "unat tos0 < 256" "unat t < 65536" "unat i < 65536" by simp_all
  define S where "S = (unat ttl0 + 256 * unat proto) + ((unat (dest AND 0xffff) + unat (drop_bit 16 dest))
     + ((69 + 256 * unat tos0) + (unat t + (unat i + (unat (src AND 0xffff) + unat (drop_bit 16 src))))))"
  have Sb: "S \<le> 655350" "0 < S" unfolding S_def using b unat_and_drop(1) [of dest] unat_and_drop(1) [of src] by linarith+
  have us: "unat s = S"
  proof -
    have "unat s = S mod 4294967296"
      unfolding s_def S_def
      by (simp only: unat_word_ariths unat_MAKE_U16 unat_ucast_u16_u32) (simp add: mod_simps add.assoc)
    then show ?thesis using Sb(1) by simp
  qed
  have s1: "unat s1 = S div 65536 + S mod 65536" by (simp add: s1_def unat_FOLD us)
  have "S div 65536 \<le> 9" using Sb(1) by linarith
  moreover have "S mod 65536 < 65536" by simp
  ultimately have s1b: "unat s1 \<le> 65544" unfolding s1 by linarith
  define f where "f = unat (FOLD_U32T s1)"
  have fc: "ceq f S" unfolding f_def us [symmetric] s1_def by (rule ceq_trans [OF ceq_FOLD ceq_FOLD])
  have fb: "f \<le> 65535" unfolding f_def using s1b by (intro FOLD_le) simp
  have f: "f = unat s1 div 65536 + unat s1 mod 65536" by (simp add: f_def unat_FOLD)
  have u2: "unat s2 = unat s1 div 65536 + unat s1"
  proof -
    have "unat s1 div 65536 \<le> 1" using s1b by linarith
    then have "unat s1 div 65536 + unat s1 < 4294967296" using s1b by linarith
    then show ?thesis unfolding s2_def by (simp only: unat_word_ariths unat_drop_bit) simp
  qed
  have m2: "unat s2 mod 65536 = f"
  proof -
    have "unat s1 div 65536 + unat s1 = f + 65536 * (unat s1 div 65536)" using f by simp
    then have "unat s2 mod 65536 = f mod 65536" unfolding u2 by (metis mod_mult_self2)
    then show ?thesis using fb by simp
  qed
  have uck: "unat ?ck = 65535 - f"
  proof -
    have "ucast (NOT s2) = (NOT (ucast s2) :: u16)" by (rule bit_word_eqI) (auto simp: bit_simps)
    moreover have "unat (NOT (x :: u16)) = 65535 - unat x" for x
    proof -
      have "NOT x = 65535 - x" by (simp add: not_eq_complement)
      moreover have "unat x \<le> 65535" using unat_u16_lt [of x] by linarith
      ultimately show ?thesis by (simp add: unat_sub word_le_nat_alt)
    qed
    ultimately show ?thesis unfolding ck by (simp add: unat_ucast_u32_u16 m2)
  qed
  let ?bs = "ip_hdr_bytes src dest ttl0 tos0 proto tot ident ?ck"
  have "ceq (csum ?bs) (S + (65535 - f))"
  proof -
    have split: "csum (bytes16 w @ xs) = unat w + 65536 * csum xs"
      "csum (bytes32 v @ xs) = unat v + 4294967296 * csum xs" for w v xs
      using csum_append [of "bytes16 w" xs] csum_append [of "bytes32 v" xs]
      by (simp_all add: csum_bytes16 csum_bytes32 bytes16_len)
    have "csum ?bs = (69 + 256 * unat tos0) + 65536 * (unat t + 65536 * (unat i + 65536 * (0 + 65536 *
        ((unat ttl0 + 256 * unat proto) + 65536 * (unat ?ck + 65536 * (unat src + 4294967296 * unat dest))))))"
      unfolding ip_hdr_bytes_def t_def [symmetric] i_def [symmetric]
      by (simp add: split csum_bytes32)
    also have "ceq \<dots> ((69 + 256 * unat tos0) + (unat t + (unat i + (0 +
        ((unat ttl0 + 256 * unat proto) + (unat ?ck + (unat src + unat dest)))))))"
      by (intro ceq_add ceq_refl ceq_trans [OF ceq_shift_mult]) simp_all
    also have "ceq \<dots> ((69 + 256 * unat tos0) + (unat t + (unat i + (0 +
        ((unat ttl0 + 256 * unat proto) + (unat ?ck + ((unat (src AND 0xffff) + unat (drop_bit 16 src))
          + (unat (dest AND 0xffff) + unat (drop_bit 16 dest)))))))))"
      by (intro ceq_add ceq_refl ceq_sym [OF unat_and_drop(2)])
    also have "\<dots> = S + (65535 - f)" by (simp only: S_def uck ac_simps add_0)
    finally show ?thesis .
  qed
  also have "ceq (S + (65535 - f)) 65535"
  proof -
    have "ceq (S + (65535 - f)) (f + (65535 - f))" by (intro ceq_add ceq_sym [OF fc] ceq_refl)
    then show ?thesis using fb by simp
  qed
  finally have "ceq (unat (0xffff :: u16)) (csum ?bs)" by (simp add: ceq_sym)
  then show ?thesis by (rule ones_sumI [symmetric])
qed

text \<open>A network interface that takes every packet and does nothing with it.\<close>

definition sample_env :: "'st ip_env" where
  "sample_env = \<lparr>netif_output = (\<lambda>_ _ _ st. Inr (ERR_OK, st)), ip_frag = (\<lambda>_ _ _ st. Inr (ERR_OK, st)),
     etharp_gratuitous = (\<lambda>_ st. Inr st), etharp_cleanup_netif = (\<lambda>_ st. Inr st)\<rparr>"

section \<open>Properties\<close>

text \<open>C20: the IP header that \<^verbatim>\<open>ip_output_if\<close> builds, with its inline checksum, passes the checksum
  test a receiver makes (\<^verbatim>\<open>inet_chksum\<close> over the header is 0), for all field values, and only the
  20 header bytes are written.\<close>

theorem ip_header_checksum_verifies:
  assumes "{h ..< h + 20} \<subseteq> dom m"
  shows "\<exists>m'. ip_fill_header m h src dest ttl0 tos0 proto tot ident = Inr m'
    \<and> inet_chksum m' h 20 = Inr 0 \<and> (\<forall>c. c < h \<or> h + 20 \<le> c \<longrightarrow> m' c = m c)"
proof -
  let ?bs = "ip_hdr_bytes src dest ttl0 tos0 proto tot ident (ip_chksum_of src dest ttl0 tos0 proto tot ident)"
  from ip_fill_header_spec [OF assms] obtain m' where
    m': "ip_fill_header m h src dest ttl0 tos0 proto tot ident = Inr m'" "holds m' h ?bs"
    "\<forall>c. c < h \<or> h + 20 \<le> c \<longrightarrow> m' c = m c" by blast
  have l: "length ?bs = 20" by (simp add: ip_hdr_bytes_def bytes16_def bytes32_def)
  have "lwip_standard_chksum m' h 20 = Inr 0xffff"
    using chksum_alg3_spec [OF m'(2)] unfolding l ip_header_sum .
  then have "inet_chksum m' h 20 = Inr 0" by (simp add: inet_chksum_def)
  with m' show ?thesis by blast
qed

theorem ip_header_checksum_verifies_witness:
  "\<exists>m'. ip_fill_header (\<lambda>a. if 200 \<le> a \<and> a < 220 then Some 0 else None) 200 0xc701a8c0 0x0201a8c0 255 0 6 40 7 = Inr m'
     \<and> inet_chksum m' 200 20 = Inr 0"
proof -
  have "{200 ..< 200 + 20} \<subseteq> dom (\<lambda>a. if 200 \<le> a \<and> a < 220 then Some (0 :: u8) else None)" by (auto simp: dom_def)
  from ip_header_checksum_verifies [OF this] show ?thesis by blast
qed

end
