(* ===== verification/Raw.thy ===== *)
theory Raw
  imports Ip
begin

text \<open>
  Raw sockets, \<^verbatim>\<open>lwip-1.4.1/src/core/raw.c\<close>: control blocks in the list \<^verbatim>\<open>raw_pcbs\<close>, each bound to an IP
  protocol, that see every packet before the protocols of the stack. A block is created in the list; the
  pool has \<open>4\<close> of them, so that \<open>raw_fuel\<close> rounds reach the end of the list. The receive functions are
  called through the argument \<open>cb\<close>; a result other than 0 means that the packet was eaten.
\<close>

type_synonym 'st raw_cb = "addr \<Rightarrow> u32 \<Rightarrow> addr \<Rightarrow> addr \<Rightarrow> u32 \<Rightarrow> 'st \<Rightarrow> (u8 \<times> 'st) res"

definition raw_fuel :: nat where "raw_fuel = 5"

definition RAW_TTL :: u8 where "RAW_TTL = 255"

definition get_raw :: "'a ip_st_scheme \<Rightarrow> addr \<Rightarrow> raw_pcb res" where
  "get_raw st p = (if p = 0 then Inl Null_deref
     else case raw_tab st p of None \<Rightarrow> Inl (Dangling p) | Some c \<Rightarrow> Inr c)"

definition put_raw :: "'a ip_st_scheme \<Rightarrow> addr \<Rightarrow> raw_pcb \<Rightarrow> 'a ip_st_scheme" where
  "put_raw st p c = st\<lparr>raw_tab := (raw_tab st)(p \<mapsto> c)\<rparr>"

definition upd_raw :: "'a ip_st_scheme \<Rightarrow> addr \<Rightarrow> (raw_pcb \<Rightarrow> raw_pcb) \<Rightarrow> 'a ip_st_scheme res" where
  "upd_raw st p f = rbind (get_raw st p) (\<lambda>c. Inr (put_raw st p (f c)))"

section \<open>Input\<close>

text \<open>The block \<open>pcb\<close>, whose predecessor is \<open>prev\<close>, moved to the front of the list.\<close>

definition raw_to_front :: "'a ip_st_scheme \<Rightarrow> addr \<Rightarrow> addr \<Rightarrow> 'a ip_st_scheme res" where
  "raw_to_front st prev pcb =
     (if prev = 0 then Inr st
      else rbind (get_raw st pcb) (\<lambda>c. rbind (upd_raw st prev (\<lambda>d. d\<lparr>raw_next := raw_next c\<rparr>)) (\<lambda>st1.
        rbind (upd_raw st1 pcb (\<lambda>d. d\<lparr>raw_next := raw_pcbs st1\<rparr>)) (\<lambda>st2. Inr (st2\<lparr>raw_pcbs := pcb\<rparr>)))))"

primrec raw_loop ::
  "nat \<Rightarrow> ('a ip_st_scheme) raw_cb \<Rightarrow> 'a ip_st_scheme \<Rightarrow> addr \<Rightarrow> u8 \<Rightarrow> addr \<Rightarrow> addr \<Rightarrow> (bool \<times> 'a ip_st_scheme) res" where
  "raw_loop 0 cb st p proto prev pcb = (if pcb = 0 then Inr (False, st) else Inl Out_of_fuel)"
| "raw_loop (Suc fuel) cb st p proto prev pcb =
     (if pcb = 0 then Inr (False, st)
      else rbind (get_raw st pcb) (\<lambda>c.
        rbind (if raw_protocol c = proto \<and> (ip_addr_isany (local_ip c) \<or> local_ip c = current_iphdr_dest st) \<and> raw_recv_fn c \<noteq> 0
               then cb (raw_recv_fn c) (raw_recv_arg c) pcb p (current_iphdr_src st) st
               else Inr (0, st)) (\<lambda>(r, st1).
          if r \<noteq> 0 then rbind (raw_to_front st1 prev pcb) (\<lambda>st2. rbind (get_raw st2 pcb) (\<lambda>_. Inr (True, st2)))
          else rbind (get_raw st1 pcb) (\<lambda>c1. raw_loop fuel cb st1 p proto pcb (raw_next c1)))))"

definition raw_input :: "('a ip_st_scheme) raw_cb \<Rightarrow> 'a ip_st_scheme \<Rightarrow> addr \<Rightarrow> (bool \<times> 'a ip_st_scheme) res" where
  "raw_input cb st p =
     rbind (get_pbuf st p) (\<lambda>b. rbind (rd8 (bytes st) (payload b + 9)) (\<lambda>proto.
       raw_loop raw_fuel cb st p proto 0 (raw_pcbs st)))"

section \<open>The interface of the application\<close>

definition raw_bind :: "'a ip_st_scheme \<Rightarrow> addr \<Rightarrow> u32 \<Rightarrow> (err_t \<times> 'a ip_st_scheme) res" where
  "raw_bind st pcb a = rbind (upd_raw st pcb (\<lambda>c. c\<lparr>local_ip := a\<rparr>)) (\<lambda>st1. Inr (ERR_OK, st1))"

definition raw_connect :: "'a ip_st_scheme \<Rightarrow> addr \<Rightarrow> u32 \<Rightarrow> (err_t \<times> 'a ip_st_scheme) res" where
  "raw_connect st pcb a = rbind (upd_raw st pcb (\<lambda>c. c\<lparr>remote_ip := a\<rparr>)) (\<lambda>st1. Inr (ERR_OK, st1))"

definition raw_recv :: "'a ip_st_scheme \<Rightarrow> addr \<Rightarrow> addr \<Rightarrow> u32 \<Rightarrow> 'a ip_st_scheme res" where
  "raw_recv st pcb f arg = upd_raw st pcb (\<lambda>c. c\<lparr>raw_recv_fn := f, raw_recv_arg := arg\<rparr>)"

text \<open>
  Room for a header of \<open>n\<close> bytes in front of the packet \<open>p\<close>: in \<open>p\<close> itself, or in a new pbuf chained in
  front of it (\<^verbatim>\<open>raw_sendto\<close> reserves none there, \<^verbatim>\<open>udp_sendto_if\<close> its own header). The result is the packet
  to send, \<open>None\<close> when there is no memory.
\<close>

definition chain_header :: "'a pbuf_st_scheme \<Rightarrow> u16 \<Rightarrow> addr \<Rightarrow> (addr option \<times> 'a pbuf_st_scheme) res" where
  "chain_header st n p =
     rbind (pbuf_alloc st PBUF_IP n PBUF_RAM) (\<lambda>(q, st1).
       if q = 0 then Inr (None, st1)
       else rbind (get_pbuf st1 p) (\<lambda>b.
         rbind (if tot_len b \<noteq> 0 then pbuf_chain st1 q p else Inr st1) (\<lambda>st2. Inr (Some q, st2))))"

definition raw_room :: "'a pbuf_st_scheme \<Rightarrow> addr \<Rightarrow> (addr option \<times> 'a pbuf_st_scheme) res" where
  "raw_room st p =
     rbind (pbuf_header st p (of_nat IP_HLEN)) (\<lambda>(failed, st1).
       if failed \<noteq> 0 then chain_header st1 0 p
       else rbind (pbuf_header st1 p (- of_nat IP_HLEN)) (\<lambda>(failed, st2).
         if failed \<noteq> 0 then Inr (None, st2) else Inr (Some p, st2)))"

definition raw_sendto ::
  "('a ip_st_scheme) ip_env \<Rightarrow> 'a ip_st_scheme \<Rightarrow> addr \<Rightarrow> addr \<Rightarrow> u32 \<Rightarrow> (err_t \<times> 'a ip_st_scheme) res" where
  "raw_sendto env st pcb p a =
     rbind (raw_room st p) (\<lambda>(room, st1).
       case room of
         None \<Rightarrow> Inr (ERR_MEM, st1)
       | Some q \<Rightarrow>
           rbind (ip_route st1 a) (\<lambda>n.
           rbind (if n = 0 then Inr (ERR_RTE, st1)
                  else rbind (get_raw st1 pcb) (\<lambda>c. rbind (get_netif st1 n) (\<lambda>x.
                    ip_output_if env st1 q (if ip_addr_isany (local_ip c) then ip_addr x else local_ip c) (Some a)
                      (ttl c) (tos c) (raw_protocol c) n))) (\<lambda>(e, st2).
             rbind (if q \<noteq> p then free_only st2 q else Inr st2) (\<lambda>st3. Inr (e, st3)))))"

definition raw_send :: "('a ip_st_scheme) ip_env \<Rightarrow> 'a ip_st_scheme \<Rightarrow> addr \<Rightarrow> addr \<Rightarrow> (err_t \<times> 'a ip_st_scheme) res" where
  "raw_send env st pcb p = rbind (get_raw st pcb) (\<lambda>c. raw_sendto env st pcb p (remote_ip c))"

section \<open>Creating and removing\<close>

primrec raw_unlink :: "nat \<Rightarrow> 'a ip_st_scheme \<Rightarrow> addr \<Rightarrow> addr \<Rightarrow> 'a ip_st_scheme res" where
  "raw_unlink 0 st pcb q = (if q = 0 then Inr st else Inl Out_of_fuel)"
| "raw_unlink (Suc fuel) st pcb q =
     (if q = 0 then Inr st
      else rbind (get_raw st q) (\<lambda>d.
        rbind (if raw_next d \<noteq> 0 \<and> raw_next d = pcb
               then rbind (get_raw st pcb) (\<lambda>c. Inr (put_raw st q (d\<lparr>raw_next := raw_next c\<rparr>))) else Inr st) (\<lambda>st1.
        rbind (get_raw st1 q) (\<lambda>d1. raw_unlink fuel st1 pcb (raw_next d1)))))"

definition raw_remove :: "'a ip_st_scheme \<Rightarrow> addr \<Rightarrow> 'a ip_st_scheme res" where
  "raw_remove st pcb =
     rbind (if raw_pcbs st = pcb then rbind (get_raw st pcb) (\<lambda>c. Inr (st\<lparr>raw_pcbs := raw_next c\<rparr>))
            else raw_unlink raw_fuel st pcb (raw_pcbs st)) (\<lambda>st1.
       Inr (st1\<lparr>raw_tab := (raw_tab st1)(pcb := None), pools := memp_free (pools st1) MEMP_RAW_PCB pcb\<rparr>))"

definition raw_new :: "'a ip_st_scheme \<Rightarrow> u8 \<Rightarrow> addr \<times> 'a ip_st_scheme" where
  "raw_new st proto =
     (case memp_malloc (pools st) MEMP_RAW_PCB of (pcb, ps) \<Rightarrow>
        if pcb = 0 then (0, st\<lparr>pools := ps\<rparr>)
        else (pcb, (put_raw (st\<lparr>pools := ps\<rparr>) pcb
               \<lparr>local_ip = 0, remote_ip = 0, so_options = 0, tos = 0, ttl = RAW_TTL, raw_next = raw_pcbs st,
                raw_protocol = proto, raw_recv_fn = 0, raw_recv_arg = 0\<rparr>)\<lparr>raw_pcbs := pcb\<rparr>))"

end
