(* ===== verification/Icmp.thy ===== *)
theory Icmp
  imports Ip
begin

text \<open>
  ICMP: \<^verbatim>\<open>core/ipv4/icmp.c\<close>, echo requests and the error messages. Pings to broadcast and multicast
  addresses are not answered (\<^verbatim>\<open>LWIP_BROADCAST_PING\<close> and \<^verbatim>\<open>LWIP_MULTICAST_PING\<close> are 0), ICMP and IP
  checksums are computed in software, and \<^verbatim>\<open>LWIP_ICMP_ECHO_CHECK_INPUT_PBUF_LEN\<close> is 1.
\<close>

section \<open>Constants\<close>

definition ICMP_ER :: u8 where "ICMP_ER = 0"
definition ICMP_DUR :: u8 where "ICMP_DUR = 3"
definition ICMP_ECHO :: u8 where "ICMP_ECHO = 8"
definition ICMP_TE :: u8 where "ICMP_TE = 11"
definition ICMP_DUR_PROTO :: u8 where "ICMP_DUR_PROTO = 2"
definition ICMP_DUR_PORT :: u8 where "ICMP_DUR_PORT = 3"
definition ICMP_TE_FRAG :: u8 where "ICMP_TE_FRAG = 1"
definition ICMP_TTL :: u8 where "ICMP_TTL = 255"
definition IP_PROTO_ICMP :: u8 where "IP_PROTO_ICMP = 1"
definition SIZEOF_ICMP_ECHO_HDR :: nat where "SIZEOF_ICMP_ECHO_HDR = 8"
definition ICMP_DEST_UNREACH_DATASIZE :: nat where "ICMP_DEST_UNREACH_DATASIZE = 8"

section \<open>Error messages\<close>

text \<open>The message at \<open>h\<close> about the packet at \<open>iphdr\<close>, field by field in the order of the code.\<close>

definition fill_response :: "memory \<Rightarrow> addr \<Rightarrow> addr \<Rightarrow> u8 \<Rightarrow> u8 \<Rightarrow> u16 \<Rightarrow> memory res" where
  "fill_response m h iphdr type code len =
     rbind (wr8 m h type) (\<lambda>m. rbind (wr8 m (h + 1) code) (\<lambda>m. rbind (wr16 m (h + 4) 0) (\<lambda>m. rbind (wr16 m (h + 6) 0) (\<lambda>m.
     rbind (memcpy m (h + SIZEOF_ICMP_ECHO_HDR) iphdr (IP_HLEN + ICMP_DEST_UNREACH_DATASIZE)) (\<lambda>m.
     rbind (wr16 m (h + 2) 0) (\<lambda>m. rbind (inet_chksum m h len) (\<lambda>ck. wr16 m (h + 2) ck)))))))"

definition icmp_send_response ::
  "('a ip_st_scheme) ip_env \<Rightarrow> 'a ip_st_scheme \<Rightarrow> addr \<Rightarrow> u8 \<Rightarrow> u8 \<Rightarrow> 'a ip_st_scheme res" where
  "icmp_send_response env st p type code =
     rbind (pbuf_alloc st PBUF_IP (of_nat (SIZEOF_ICMP_ECHO_HDR + IP_HLEN + ICMP_DEST_UNREACH_DATASIZE)) PBUF_RAM) (\<lambda>(q, st1).
       if q = 0 then Inr st1
       else
         rbind (get_pbuf st1 p) (\<lambda>b. rbind (get_pbuf st1 q) (\<lambda>c.
         rbind (fill_response (bytes st1) (payload c) (payload b) type code (pb_len c)) (\<lambda>m.
         rbind (rd32 m (payload b + 12)) (\<lambda>src.
         rbind (ip_output env (st1\<lparr>bytes := m\<rparr>) q IPADDR_ANY src ICMP_TTL 0 IP_PROTO_ICMP) (\<lambda>(_, st2).
           free_only st2 q))))))"

definition icmp_dest_unreach :: "('a ip_st_scheme) ip_env \<Rightarrow> 'a ip_st_scheme \<Rightarrow> addr \<Rightarrow> u8 \<Rightarrow> 'a ip_st_scheme res" where
  "icmp_dest_unreach env st p t = icmp_send_response env st p ICMP_DUR t"

definition icmp_time_exceeded :: "('a ip_st_scheme) ip_env \<Rightarrow> 'a ip_st_scheme \<Rightarrow> addr \<Rightarrow> u8 \<Rightarrow> 'a ip_st_scheme res" where
  "icmp_time_exceeded env st p t = icmp_send_response env st p ICMP_TE t"

section \<open>Echo\<close>

text \<open>
  Room for the link header in front of the packet \<open>p\<close>, whose payload is the ICMP header: the IP header
  and the packet to answer with, which is \<open>p\<close> or a copy; \<open>None\<close> is the jump to \<^verbatim>\<open>memerr\<close>.
\<close>

definition echo_room ::
  "'a ip_st_scheme \<Rightarrow> addr \<Rightarrow> addr \<Rightarrow> nat \<Rightarrow> ((addr \<times> addr) option \<times> 'a ip_st_scheme) res" where
  "echo_room st p iphdr hlen =
     rbind (pbuf_header st p (20 + 16)) (\<lambda>(failed, st1).
       if failed \<noteq> 0 then
         rbind (pbuf_header st1 p (of_nat hlen)) (\<lambda>(failed, st2).
           if failed \<noteq> 0 then Inr (None, st2)
           else rbind (get_pbuf st2 p) (\<lambda>b. rbind (pbuf_alloc st2 PBUF_LINK (tot_len b) PBUF_RAM) (\<lambda>(r, st3).
             if r = 0 then Inr (None, st3)
             else rbind (pbuf_copy st3 r p) (\<lambda>(e, st4).
               if e \<noteq> ERR_OK then Inr (None, st4)
               else rbind (get_pbuf st4 r) (\<lambda>c. rbind (pbuf_header st4 r (- of_nat hlen)) (\<lambda>(failed, st5).
                 if failed \<noteq> 0 then Inr (None, st5)
                 else rbind (free_only st5 p) (\<lambda>st6. Inr (Some (payload c, r), st6))))))))
       else
         rbind (pbuf_header st1 p (- (20 + 16))) (\<lambda>(failed, st2).
           if failed \<noteq> 0 then Inr (None, st2) else Inr (Some (iphdr, p), st2)))"

text \<open>The checksum after the type has changed from 8 to 0.\<close>

definition adjust_chksum :: "u16 \<Rightarrow> u16" where
  "adjust_chksum c =
     (if lwip_htons (0xffff - push_bit 8 (ucast ICMP_ECHO)) \<le> c then c + lwip_htons (push_bit 8 (ucast ICMP_ECHO)) + 1
      else c + lwip_htons (push_bit 8 (ucast ICMP_ECHO)))"

text \<open>The request turned into the reply in place; \<open>iphdr\<close> and \<open>h\<close> are its IP and ICMP headers.\<close>

definition make_echo_reply :: "memory \<Rightarrow> addr \<Rightarrow> addr \<Rightarrow> u32 \<Rightarrow> u32 \<Rightarrow> memory res" where
  "make_echo_reply m iphdr h src dest =
     rbind (wr32 m (iphdr + 12) src) (\<lambda>m. rbind (wr32 m (iphdr + 16) dest) (\<lambda>m. rbind (wr8 m h ICMP_ER) (\<lambda>m.
     rbind (rd16 m (h + 2)) (\<lambda>c. rbind (wr16 m (h + 2) (adjust_chksum c)) (\<lambda>m.
     rbind (wr8 m (iphdr + 8) ICMP_TTL) (\<lambda>m. rbind (wr16 m (iphdr + 10) 0) (\<lambda>m.
     rbind (inet_chksum m iphdr (of_nat IP_HLEN)) (\<lambda>ck. wr16 m (iphdr + 10) ck))))))))"

definition icmp_echo ::
  "('a ip_st_scheme) ip_env \<Rightarrow> 'a ip_st_scheme \<Rightarrow> addr \<Rightarrow> addr \<Rightarrow> addr \<Rightarrow> nat \<Rightarrow> 'a ip_st_scheme res" where
  "icmp_echo env st p inp iphdr0 hlen =
     rbind (get_netif st inp) (\<lambda>x. rbind (get_pbuf st p) (\<lambda>b.
       if ip_addr_ismulticast (current_iphdr_dest st) \<or> ip4_addr_isbroadcast (current_iphdr_dest st) x then free_only st p
       else if unat (tot_len b) < SIZEOF_ICMP_ECHO_HDR then free_only st p
       else rbind (inet_chksum_pbuf st p) (\<lambda>ck.
         if ck \<noteq> 0 then free_only st p
         else rbind (echo_room st p iphdr0 hlen) (\<lambda>(room, st1).
           case room of
             None \<Rightarrow> free_only st1 p
           | Some (iphdr, q) \<Rightarrow>
               rbind (get_pbuf st1 q) (\<lambda>c.
               rbind (make_echo_reply (bytes st1) iphdr (payload c) (current_iphdr_dest st1) (current_iphdr_src st1)) (\<lambda>m.
               rbind (pbuf_header (st1\<lparr>bytes := m\<rparr>) q (of_nat hlen)) (\<lambda>(failed, st2).
               rbind (if failed \<noteq> 0 then Inr st2
                      else rbind (ip_output_if env st2 q (current_iphdr_dest st2) None ICMP_TTL 0 IP_PROTO_ICMP inp)
                             (\<lambda>(_, st3). Inr st3)) (\<lambda>st3.
                 free_only st3 q))))))))"

definition icmp_input ::
  "('a ip_st_scheme) ip_env \<Rightarrow> 'a ip_st_scheme \<Rightarrow> addr \<Rightarrow> addr \<Rightarrow> 'a ip_st_scheme res" where
  "icmp_input env st p inp =
     rbind (get_pbuf st p) (\<lambda>b0. rbind (rd8 (bytes st) (payload b0)) (\<lambda>vhl.
     let hlen = unat (vhl AND 0x0f) * 4 in
     rbind (pbuf_header st p (- of_nat hlen)) (\<lambda>(failed, st1).
     rbind (get_pbuf st1 p) (\<lambda>b.
       if failed \<noteq> 0 \<or> unat (tot_len b) < 4 then free_only st1 p
       else rbind (rd8 (bytes st1) (payload b)) (\<lambda>type.
         if type = ICMP_ECHO then icmp_echo env st1 p inp (payload b0) hlen
         else free_only st1 p)))))"

section \<open>The checksum of the reply\<close>

lemma adjust_chksum_eq: "adjust_chksum c = (if 0xfff7 \<le> c then c + 9 else c + 8)"
  by (simp add: adjust_chksum_def ICMP_ECHO_def lwip_htons_def)

lemma ceq_adjust: "ceq (unat (adjust_chksum c)) (unat c + 8) \<or> c = 0xfff7"
proof (cases "0xfff7 \<le> c")
  case True
  have u: "unat (c + 9) = (unat c + 9) mod 65536" by (simp add: unat_word_ariths)
  have "0xfff7 \<le> unat c" using True by (simp add: word_le_nat_alt)
  moreover have "unat c < 65536" by simp
  ultimately show ?thesis
  proof (cases "unat c = 0xfff7")
    case False
    with \<open>0xfff7 \<le> unat c\<close> have "0xfff8 \<le> unat c" by simp
    then obtain k where k: "unat c = 0xfff8 + k" using le_Suc_ex by blast
    with \<open>unat c < 65536\<close> have "k < 8" by simp
    have w: "(0xfff8 + k + 9) mod 65536 = (k + 1) mod 65536" "(0xfff8 + k + 8) mod 65535 = (k + 1) mod 65535"
      using mod_add_self2 [of "k + 1" 65536] mod_add_self2 [of "k + 1" 65535] by (simp_all add: add.commute)
    have "unat (adjust_chksum c) = (0xfff8 + k + 9) mod 65536" using True k by (simp only: adjust_chksum_eq u if_True)
    also have "\<dots> = k + 1" unfolding w using \<open>k < 8\<close> by simp
    finally have a: "unat (adjust_chksum c) = k + 1" .
    have "ceq (k + 1) (0xfff8 + k + 8)" unfolding ceq_def w(2) by simp
    then show ?thesis using k a by simp
  qed (simp add: word_unat_eq_iff)
next
  case False
  then have "unat c < 0xfff7" by (simp add: word_le_nat_alt not_le)
  then have "unat (c + 8) = unat c + 8" by (simp add: unat_word_ariths)
  with False show ?thesis by (simp add: adjust_chksum_eq)
qed

lemma inet_chksum_20:
  "length bs = 20 \<Longrightarrow> holds m a bs \<Longrightarrow> inet_chksum m a (of_nat IP_HLEN) = Inr (NOT (ones_sum bs))"
  using inet_chksum_holds [of m a bs] by (simp add: IP_HLEN_def)

lemma reply_sum:
  assumes "ones_sum (ICMP_ECHO # code # bytes16 c @ rest) = 0xffff"
  shows "ones_sum (ICMP_ER # code # bytes16 (adjust_chksum c) @ rest) = 0xffff \<longleftrightarrow> \<not> (code = 0 \<and> (\<forall>b \<in> set rest. b = 0))"
proof -
  let ?q = "ICMP_ECHO # code # bytes16 c @ rest" and ?r = "ICMP_ER # code # bytes16 (adjust_chksum c) @ rest"
  have split: "ceq (csum (t # code # bytes16 w @ rest)) (unat t + 256 * unat code + unat w + csum rest)" for t w
    using csum_append2 [of "[t, code]" w rest] by simp
  have q: "ceq (csum ?q) (8 + 256 * unat code + unat c + csum rest)" using split [of ICMP_ECHO c] by (simp add: ICMP_ECHO_def)
  have r: "ceq (csum ?r) (256 * unat code + unat (adjust_chksum c) + csum rest)" using split [of ICMP_ER] by (simp add: ICMP_ER_def)
  have q0: "(8 + 256 * unat code + unat c + csum rest) mod 65535 = 0"
    using q assms unfolding ones_sum_ffff ceq_def by simp
  show ?thesis
  proof (cases "c = 0xfff7")
    case True
    then have a: "unat (adjust_chksum c) = 0" by (simp add: adjust_chksum_eq)
    from q0 True have "(256 * unat code + csum rest) mod 65535 = 0" by (simp add: add.assoc)
    with r a have "csum ?r mod 65535 = 0" by (simp add: ceq_def)
    moreover have "csum ?r = 0 \<longleftrightarrow> code = 0 \<and> (\<forall>b \<in> set rest. b = 0)"
      using True by (auto simp: csum_eq_0 adjust_chksum_eq bytes16_def ICMP_ER_def unsigned_eq_0_iff)
    ultimately show ?thesis by (simp add: ones_sum_ffff)
  next
    case False
    with ceq_adjust [of c] have "ceq (unat (adjust_chksum c)) (unat c + 8)" by simp
    then have "ceq (256 * unat code + unat (adjust_chksum c) + csum rest) (256 * unat code + (unat c + 8) + csum rest)"
      by (intro ceq_add ceq_refl)
    also have "ceq (256 * unat code + (unat c + 8) + csum rest) (csum ?q)" using ceq_sym [OF q] by (simp add: ac_simps)
    finally have "ceq (csum ?r) (csum ?q)" using r ceq_trans by blast
    with assms have "ones_sum ?r = 0xffff" unfolding ones_sum_ffff ceq_def by simp
    moreover have "\<not> (code = 0 \<and> (\<forall>b \<in> set rest. b = 0))"
    proof
      assume "code = 0 \<and> (\<forall>b \<in> set rest. b = 0)"
      then have "(8 + unat c) mod 65535 = 0" using q0 csum_eq_0 [of rest] by simp
      then obtain k where k: "8 + unat c = 65535 * k" by (metis mod_0_imp_dvd dvdE)
      moreover have "8 + unat c < 65535 * 2" using unat_u16_lt [of c] by linarith
      ultimately have "k = 1" by simp
      with k False show False by (simp add: word_unat_eq_iff)
    qed
    ultimately show ?thesis by simp
  qed
qed

section \<open>Properties\<close>

text \<open>C35: an echo request in memory whose ICMP checksum is right becomes a reply with the type 0, the addresses
  exchanged and a right IP header checksum; its ICMP checksum is right unless code, identifier, sequence
  number and data are all zero, and then it is wrong.\<close>

theorem echo_reply_checksum:
  assumes m: "holds m iphdr (h8 @ [t0, proto] @ ck @ sa @ da @ opts @ ICMP_ECHO # code # bytes16 c @ rest)"
    and l: "length h8 = 8" "length ck = 2" "length sa = 4" "length da = 4" "h = iphdr + 20 + length opts" "length rest \<le> 65531"
    and q: "ones_sum (ICMP_ECHO # code # bytes16 c @ rest) = 0xffff"
  shows "\<exists>m' rep ck'. make_echo_reply m iphdr h src dest = Inr m' \<and> rep = ICMP_ER # code # bytes16 (adjust_chksum c) @ rest
    \<and> holds m' iphdr (h8 @ [ICMP_TTL, proto] @ bytes16 ck' @ bytes32 src @ bytes32 dest @ opts @ rep) \<and> inet_chksum m' iphdr 20 = Inr 0
    \<and> (inet_chksum m' h (of_nat (length rep)) = Inr 0 \<longleftrightarrow> \<not> (code = 0 \<and> (\<forall>b \<in> set rest. b = 0)))"
proof -
  have b: "length (bytes16 v) = 2" "length (bytes32 w) = 4" for v w by (simp_all add: bytes16_def bytes32_def)
  note [simp] = b l(1-4)
  let ?A = "h8 @ [t0, proto] @ ck" and ?rep = "ICMP_ER # code # bytes16 (adjust_chksum c) @ rest"
  have f0: "holds m iphdr (?A @ sa @ (da @ opts @ ICMP_ECHO # code # bytes16 c @ rest))" using m by simp
  obtain m1 where 1: "wr32 m (iphdr + 12) src = Inr m1"
    and f1: "holds m1 iphdr ((?A @ bytes32 src) @ da @ (opts @ ICMP_ECHO # code # bytes16 c @ rest))"
    using wr_mid [OF f0, of "bytes32 src" "iphdr + 12"] by (auto simp: wr32_def)
  obtain m2 where 2: "wr32 m1 (iphdr + 16) dest = Inr m2"
    and f2: "holds m2 iphdr ((?A @ bytes32 src @ bytes32 dest @ opts) @ [ICMP_ECHO] @ (code # bytes16 c @ rest))"
    using wr_mid [OF f1, of "bytes32 dest" "iphdr + 16"] by (auto simp: wr32_def)
  obtain m3 where 3: "wr8 m2 h ICMP_ER = Inr m3"
    and f3: "holds m3 iphdr ((?A @ bytes32 src @ bytes32 dest @ opts @ [ICMP_ER, code]) @ bytes16 c @ rest)"
    using wr_mid [OF f2, of "[ICMP_ER]" h] l(5) by (auto simp: rbind_right)
  have 4: "rd16 m3 (h + 2) = Inr c"
    by (rule rd16_bytes16, rule holds_mid [OF f3]) (use l(5) in simp)
  obtain m5 where 5: "wr16 m3 (h + 2) (adjust_chksum c) = Inr m5"
    and f5: "holds m5 iphdr (h8 @ [t0] @ (proto # ck @ bytes32 src @ bytes32 dest @ opts @ ?rep))"
    using wr_mid [OF f3, of "bytes16 (adjust_chksum c)" "h + 2"] l(5) by (auto simp: wr16_def)
  obtain m6 where 6: "wr8 m5 (iphdr + 8) ICMP_TTL = Inr m6"
    and f6: "holds m6 iphdr ((h8 @ [ICMP_TTL, proto]) @ ck @ (bytes32 src @ bytes32 dest @ opts @ ?rep))"
    using wr_mid [OF f5, of "[ICMP_TTL]" "iphdr + 8"] by (auto simp: rbind_right)
  obtain m7 where 7: "wr16 m6 (iphdr + 10) 0 = Inr m7"
    and f7: "holds m7 iphdr ((h8 @ [ICMP_TTL, proto]) @ bytes16 0 @ (bytes32 src @ bytes32 dest @ opts @ ?rep))"
    using wr_mid [OF f6, of "bytes16 0" "iphdr + 10"] by (auto simp: wr16_def)
  let ?ck = "NOT (ones_sum ((h8 @ [ICMP_TTL, proto]) @ bytes16 0 @ (bytes32 src @ bytes32 dest)))"
  have 8: "inet_chksum m7 iphdr (of_nat IP_HLEN) = Inr ?ck"
    by (rule inet_chksum_20) (use f7 in \<open>simp_all add: holds_append IP_HLEN_def\<close>)
  obtain m9 where 9: "wr16 m7 (iphdr + 10) ?ck = Inr m9"
    and f9: "holds m9 iphdr ((h8 @ [ICMP_TTL, proto]) @ bytes16 ?ck @ (bytes32 src @ bytes32 dest @ opts @ ?rep))"
    using wr_mid [OF f7, of "bytes16 ?ck" "iphdr + 10"] by (auto simp: wr16_def)
  have ip: "inet_chksum m9 iphdr 20 = Inr 0"
  proof -
    have "inet_chksum m9 iphdr (of_nat IP_HLEN) = Inr (NOT (ones_sum ((h8 @ [ICMP_TTL, proto]) @ bytes16 ?ck @ (bytes32 src @ bytes32 dest))))"
      by (rule inet_chksum_20) (use f9 in \<open>simp_all add: holds_append IP_HLEN_def\<close>)
    also have "ones_sum ((h8 @ [ICMP_TTL, proto]) @ bytes16 ?ck @ (bytes32 src @ bytes32 dest)) = 0xffff"
      by (rule ones_sum_insert) simp
    finally show ?thesis by (simp add: IP_HLEN_def)
  qed
  have r: "holds m9 h ?rep"
    by (rule holds_mid [where a = iphdr and xs = "h8 @ [ICMP_TTL, proto] @ bytes16 ?ck @ bytes32 src @ bytes32 dest @ opts" and zs = "[]"])
      (use f9 l(5) in simp_all)
  have "inet_chksum m9 h (of_nat (length ?rep)) = Inr (NOT (ones_sum ?rep))"
    by (rule inet_chksum_holds [OF r]) (use l(6) in simp)
  moreover have "NOT (ones_sum ?rep) = 0 \<longleftrightarrow> ones_sum ?rep = 0xffff" by (metis not_zero_eq_ffff)
  ultimately have rc: "inet_chksum m9 h (of_nat (length ?rep)) = Inr 0 \<longleftrightarrow> \<not> (code = 0 \<and> (\<forall>b \<in> set rest. b = 0))"
    using reply_sum [OF q] by simp
  have "make_echo_reply m iphdr h src dest = Inr m9"
    using 1 2 3 4 5 6 7 8 9 by (simp add: make_echo_reply_def)
  with f9 ip rc show ?thesis by (intro exI [of _ m9] exI [of _ ?rep] exI [of _ ?ck]) simp
qed

theorem echo_reply_checksum_witness:
  "\<exists>m'. make_echo_reply (mem_of ([0x45, 0, 0, 28, 0, 1, 0, 0] @ [64, 1] @ [0, 0] @ [192, 168, 1, 10] @ [192, 168, 1, 199] @ []
        @ ICMP_ECHO # 0 # bytes16 0xfdf7 @ [0, 1, 0, 1])) 300 320 0xC701A8C0 0x0A01A8C0 = Inr m' \<and> inet_chksum m' 320 8 = Inr 0"
proof -
  let ?bs = "[0x45, 0, 0, 28, 0, 1, 0, 0] @ [64, 1] @ [0, 0] @ [192, 168, 1, 10] @ [192, 168, 1, 199] @ []
        @ ICMP_ECHO # 0 # bytes16 0xfdf7 @ [0, 1, 0, 1 :: u8]"
  have q: "ones_sum (ICMP_ECHO # 0 # bytes16 0xfdf7 @ [0, 1, 0, 1]) = 0xffff"
    by (simp add: ones_sum_ffff ICMP_ECHO_def bytes16_def)
  from echo_reply_checksum [OF holds_mem_of [of ?bs] _ _ _ _ _ _ q, where h = 320 and src = "0xC701A8C0" and dest = "0x0A01A8C0"]
  show ?thesis by (auto simp: bytes16_def)
qed

end
