(* ===== verification/Udp.thy ===== *)
theory Udp
  imports Raw Icmp
begin

text \<open>
  UDP, \<^verbatim>\<open>lwip-1.4.1/src/core/udp.c\<close>: control blocks in the list \<^verbatim>\<open>udp_pcbs\<close>, the search for the block of a
  datagram, and sending. The pool has \<open>4\<close> blocks, so that \<open>udp_fuel\<close> rounds reach the end of the list;
  the search for a free port ends after \<open>0x4000\<close> ports. A receive function is called through the argument \<open>cb\<close>.
\<close>

type_synonym 'st udp_cb = "addr \<Rightarrow> u32 \<Rightarrow> addr \<Rightarrow> addr \<Rightarrow> u32 \<Rightarrow> u16 \<Rightarrow> 'st \<Rightarrow> 'st res"

definition udp_fuel :: nat where "udp_fuel = 5"

definition UDP_TTL :: u8 where "UDP_TTL = 255"
definition UDP_HLEN :: nat where "UDP_HLEN = 8"
definition IP_PROTO_UDP :: u8 where "IP_PROTO_UDP = 17"
definition UDP_FLAGS_NOCHKSUM :: u8 where "UDP_FLAGS_NOCHKSUM = 0x01"
definition UDP_FLAGS_CONNECTED :: u8 where "UDP_FLAGS_CONNECTED = 0x04"
definition UDP_LOCAL_PORT_RANGE_START :: u16 where "UDP_LOCAL_PORT_RANGE_START = 0xc000"
definition UDP_LOCAL_PORT_RANGE_END :: u16 where "UDP_LOCAL_PORT_RANGE_END = 0xffff"

definition get_udp :: "'a ip_st_scheme \<Rightarrow> addr \<Rightarrow> udp_pcb res" where
  "get_udp st p = (if p = 0 then Inl Null_deref
     else case udp_tab st p of None \<Rightarrow> Inl (Dangling p) | Some c \<Rightarrow> Inr c)"

definition put_udp :: "'a ip_st_scheme \<Rightarrow> addr \<Rightarrow> udp_pcb \<Rightarrow> 'a ip_st_scheme" where
  "put_udp st p c = st\<lparr>udp_tab := (udp_tab st)(p \<mapsto> c)\<rparr>"

definition upd_udp :: "'a ip_st_scheme \<Rightarrow> addr \<Rightarrow> (udp_pcb \<Rightarrow> udp_pcb) \<Rightarrow> 'a ip_st_scheme res" where
  "upd_udp st p f = rbind (get_udp st p) (\<lambda>c. Inr (put_udp st p (f c)))"

section \<open>Input\<close>

text \<open>The tests on a block: its local side takes the datagram, and its remote side does.\<close>

definition udp_local_match :: "u16 \<Rightarrow> u32 \<Rightarrow> netif \<Rightarrow> udp_pcb \<Rightarrow> bool" where
  "udp_local_match dport dest x c \<longleftrightarrow>
     (let broadcast = ip4_addr_isbroadcast dest x in
      udp_local_port c = dport \<and>
      (\<not> broadcast \<and> ip_addr_isany (local_ip c) \<or> local_ip c = dest \<or>
       broadcast \<and> (ip_addr_isany (local_ip c) \<or> ip_addr_netcmp (local_ip c) dest (netmask x))))"

definition udp_remote_match :: "u16 \<Rightarrow> u32 \<Rightarrow> udp_pcb \<Rightarrow> bool" where
  "udp_remote_match sport src c \<longleftrightarrow> udp_remote_port c = sport \<and> (ip_addr_isany (remote_ip c) \<or> remote_ip c = src)"

text \<open>
  The search: the first block that matches on both sides with its predecessor, and the first that is not
  connected and matches on the local side among those seen.
\<close>

primrec udp_find ::
  "nat \<Rightarrow> 'a ip_st_scheme \<Rightarrow> u16 \<Rightarrow> u16 \<Rightarrow> netif \<Rightarrow> addr \<Rightarrow> addr \<Rightarrow> addr \<Rightarrow> (addr \<times> addr \<times> addr) res" where
  "udp_find 0 st sport dport x prev uncon pcb = (if pcb = 0 then Inr (0, prev, uncon) else Inl Out_of_fuel)"
| "udp_find (Suc fuel) st sport dport x prev uncon pcb =
     (if pcb = 0 then Inr (0, prev, uncon)
      else rbind (get_udp st pcb) (\<lambda>c.
        let m = udp_local_match dport (current_iphdr_dest st) x c;
            uncon' = (if m \<and> uncon = 0 \<and> udp_flags c AND UDP_FLAGS_CONNECTED = 0 then pcb else uncon)
        in if m \<and> udp_remote_match sport (current_iphdr_src st) c then Inr (pcb, prev, uncon')
           else udp_find fuel st sport dport x pcb uncon' (udp_next c)))"

definition udp_to_front :: "'a ip_st_scheme \<Rightarrow> addr \<Rightarrow> addr \<Rightarrow> 'a ip_st_scheme res" where
  "udp_to_front st prev pcb =
     (if prev = 0 then Inr st
      else rbind (get_udp st pcb) (\<lambda>c. rbind (upd_udp st prev (\<lambda>d. d\<lparr>udp_next := udp_next c\<rparr>)) (\<lambda>st1.
        rbind (upd_udp st1 pcb (\<lambda>d. d\<lparr>udp_next := udp_pcbs st1\<rparr>)) (\<lambda>st2. Inr (st2\<lparr>udp_pcbs := pcb\<rparr>)))))"

text \<open>The block for the datagram, moved to the front when it matches on both sides.\<close>

definition udp_demux :: "'a ip_st_scheme \<Rightarrow> u16 \<Rightarrow> u16 \<Rightarrow> netif \<Rightarrow> (addr \<times> 'a ip_st_scheme) res" where
  "udp_demux st sport dport x =
     rbind (udp_find udp_fuel st sport dport x 0 0 (udp_pcbs st)) (\<lambda>(pcb, prev, uncon).
       if pcb \<noteq> 0 then rbind (udp_to_front st prev pcb) (\<lambda>st1. Inr (pcb, st1)) else Inr (uncon, st))"

text \<open>The datagram \<open>p\<close>, whose UDP header is at \<open>h\<close>, for the block \<open>pcb\<close>, or for none.\<close>

definition udp_deliver ::
  "('a ip_st_scheme) ip_env \<Rightarrow> ('a ip_st_scheme) udp_cb \<Rightarrow> 'a ip_st_scheme \<Rightarrow> addr \<Rightarrow> addr \<Rightarrow> nat \<Rightarrow> u16 \<Rightarrow> netif \<Rightarrow> 'a ip_st_scheme res" where
  "udp_deliver env cb st p pcb hlen sport x =
     rbind (pbuf_header st p (- of_nat UDP_HLEN)) (\<lambda>(failed, st1).
       if failed \<noteq> 0 then free_only st1 p
       else if pcb \<noteq> 0 then
         rbind (get_udp st1 pcb) (\<lambda>c.
           if udp_recv_fn c \<noteq> 0 then cb (udp_recv_fn c) (udp_recv_arg c) pcb p (current_iphdr_src st1) sport st1
           else free_only st1 p)
       else
         rbind (if \<not> ip4_addr_isbroadcast (current_iphdr_dest st1) x \<and> \<not> ip_addr_ismulticast (current_iphdr_dest st1)
                then rbind (pbuf_header st1 p (of_nat (hlen + UDP_HLEN))) (\<lambda>(_, st2). icmp_dest_unreach env st2 p ICMP_DUR_PORT)
                else Inr st1) (\<lambda>st2. free_only st2 p))"

definition udp_input ::
  "('a ip_st_scheme) ip_env \<Rightarrow> ('a ip_st_scheme) udp_cb \<Rightarrow> 'a ip_st_scheme \<Rightarrow> addr \<Rightarrow> addr \<Rightarrow> 'a ip_st_scheme res" where
  "udp_input env cb st p inp =
     rbind (get_pbuf st p) (\<lambda>b0. rbind (rd8 (bytes st) (payload b0)) (\<lambda>vhl.
     let hlen = unat (vhl AND 0x0f) * 4 in
     rbind (if unat (tot_len b0) < hlen + UDP_HLEN then Inr (1, st) else pbuf_header st p (- of_nat hlen)) (\<lambda>(short, st1).
       if short \<noteq> 0 then free_only st1 p
       else
         rbind (get_pbuf st1 p) (\<lambda>b. let h = payload b in
         rbind (get_netif st1 inp) (\<lambda>x.
         rbind (rd16 (bytes st1) h) (\<lambda>sport. rbind (rd16 (bytes st1) (h + 2)) (\<lambda>dport.
         rbind (udp_demux st1 (lwip_ntohs sport) (lwip_ntohs dport) x) (\<lambda>(pcb, st2).
           if pcb \<noteq> 0 \<or> ip_addr x = current_iphdr_dest st2 then
             rbind (rd16 (bytes st2) (h + 6)) (\<lambda>ck.
             rbind (if ck \<noteq> 0
                    then inet_chksum_pseudo st2 p (current_iphdr_src st2) (current_iphdr_dest st2) IP_PROTO_UDP (tot_len b)
                    else Inr 0) (\<lambda>bad.
               if bad \<noteq> 0 then free_only st2 p else udp_deliver env cb st2 p pcb hlen (lwip_ntohs sport) x))
           else free_only st2 p))))))))"

section \<open>Ports\<close>

primrec udp_port_used :: "nat \<Rightarrow> 'a ip_st_scheme \<Rightarrow> u16 \<Rightarrow> addr \<Rightarrow> bool res" where
  "udp_port_used 0 st port p = (if p = 0 then Inr False else Inl Out_of_fuel)"
| "udp_port_used (Suc fuel) st port p =
     (if p = 0 then Inr False
      else rbind (get_udp st p) (\<lambda>c. if udp_local_port c = port then Inr True else udp_port_used fuel st port (udp_next c)))"

text \<open>The loop from the label \<^verbatim>\<open>again\<close>; \<open>n\<close> counts the ports found in use, so that 16386 rounds are enough.\<close>

primrec udp_port_loop :: "nat \<Rightarrow> 'a ip_st_scheme \<Rightarrow> u16 \<Rightarrow> (u16 \<times> 'a ip_st_scheme) res" where
  "udp_port_loop 0 st n = Inl Out_of_fuel"
| "udp_port_loop (Suc fuel) st n =
     (let port = (if udp_port st = UDP_LOCAL_PORT_RANGE_END then UDP_LOCAL_PORT_RANGE_START else udp_port st + 1);
          st1 = st\<lparr>udp_port := port\<rparr>
      in rbind (udp_port_used udp_fuel st1 port (udp_pcbs st1)) (\<lambda>used.
        if used then
          (if UDP_LOCAL_PORT_RANGE_END - UDP_LOCAL_PORT_RANGE_START < n + 1 then Inr (0, st1)
           else udp_port_loop fuel st1 (n + 1))
        else Inr (port, st1)))"

definition udp_new_port :: "'a ip_st_scheme \<Rightarrow> (u16 \<times> 'a ip_st_scheme) res" where
  "udp_new_port st = udp_port_loop 16386 st 0"

text \<open>The loop of \<^verbatim>\<open>udp_bind\<close>: \<open>None\<close> when the address is in use, else whether \<open>pcb\<close> is in the list.\<close>

primrec udp_bind_scan :: "nat \<Rightarrow> 'a ip_st_scheme \<Rightarrow> addr \<Rightarrow> u32 \<Rightarrow> u16 \<Rightarrow> bool \<Rightarrow> addr \<Rightarrow> bool option res" where
  "udp_bind_scan 0 st pcb a port rebind p = (if p = 0 then Inr (Some rebind) else Inl Out_of_fuel)"
| "udp_bind_scan (Suc fuel) st pcb a port rebind p =
     (if p = 0 then Inr (Some rebind)
      else rbind (get_udp st p) (\<lambda>c.
        if p = pcb then udp_bind_scan fuel st pcb a port True (udp_next c)
        else if udp_local_port c = port \<and> (ip_addr_isany (local_ip c) \<or> ip_addr_isany a \<or> local_ip c = a) then Inr None
        else udp_bind_scan fuel st pcb a port rebind (udp_next c)))"

definition udp_push :: "'a ip_st_scheme \<Rightarrow> addr \<Rightarrow> 'a ip_st_scheme res" where
  "udp_push st pcb = rbind (upd_udp st pcb (\<lambda>c. c\<lparr>udp_next := udp_pcbs st\<rparr>)) (\<lambda>st1. Inr (st1\<lparr>udp_pcbs := pcb\<rparr>))"

definition udp_bind :: "'a ip_st_scheme \<Rightarrow> addr \<Rightarrow> u32 \<Rightarrow> u16 \<Rightarrow> (err_t \<times> 'a ip_st_scheme) res" where
  "udp_bind st pcb a port0 =
     rbind (udp_bind_scan udp_fuel st pcb a port0 False (udp_pcbs st)) (\<lambda>scan.
       case scan of
         None \<Rightarrow> Inr (ERR_USE, st)
       | Some again \<Rightarrow>
           rbind (upd_udp st pcb (\<lambda>c. c\<lparr>local_ip := a\<rparr>)) (\<lambda>st1.
           rbind (if port0 = 0 then udp_new_port st1 else Inr (port0, st1)) (\<lambda>(port, st2).
             if port = 0 then Inr (ERR_USE, st2)
             else rbind (upd_udp st2 pcb (\<lambda>c. c\<lparr>udp_local_port := port\<rparr>)) (\<lambda>st3.
               rbind (if again then Inr st3 else udp_push st3 pcb) (\<lambda>st4. Inr (ERR_OK, st4))))))"

text \<open>\<open>udp_ensure_port\<close>: the beginning of \<^verbatim>\<open>udp_connect\<close> and \<^verbatim>\<open>udp_sendto_if\<close>, which binds a block that has no port.\<close>

definition udp_ensure_port :: "'a ip_st_scheme \<Rightarrow> addr \<Rightarrow> (err_t \<times> 'a ip_st_scheme) res" where
  "udp_ensure_port st pcb =
     rbind (get_udp st pcb) (\<lambda>c. if udp_local_port c = 0 then udp_bind st pcb (local_ip c) (udp_local_port c) else Inr (ERR_OK, st))"

primrec udp_in_list :: "nat \<Rightarrow> 'a ip_st_scheme \<Rightarrow> addr \<Rightarrow> addr \<Rightarrow> bool res" where
  "udp_in_list 0 st pcb p = (if p = 0 then Inr False else Inl Out_of_fuel)"
| "udp_in_list (Suc fuel) st pcb p =
     (if p = 0 then Inr False else if p = pcb then Inr True
      else rbind (get_udp st p) (\<lambda>c. udp_in_list fuel st pcb (udp_next c)))"

definition udp_connect :: "'a ip_st_scheme \<Rightarrow> addr \<Rightarrow> u32 \<Rightarrow> u16 \<Rightarrow> (err_t \<times> 'a ip_st_scheme) res" where
  "udp_connect st pcb a port =
     rbind (udp_ensure_port st pcb) (\<lambda>(e, st1).
       if e \<noteq> ERR_OK then Inr (e, st1)
       else rbind (upd_udp st1 pcb (\<lambda>c. c\<lparr>remote_ip := a, udp_remote_port := port, udp_flags := udp_flags c OR UDP_FLAGS_CONNECTED\<rparr>)) (\<lambda>st2.
         rbind (udp_in_list udp_fuel st2 pcb (udp_pcbs st2)) (\<lambda>found.
           rbind (if found then Inr st2 else udp_push st2 pcb) (\<lambda>st3. Inr (ERR_OK, st3)))))"

definition udp_disconnect :: "'a ip_st_scheme \<Rightarrow> addr \<Rightarrow> 'a ip_st_scheme res" where
  "udp_disconnect st pcb =
     upd_udp st pcb (\<lambda>c. c\<lparr>remote_ip := 0, udp_remote_port := 0, udp_flags := udp_flags c AND NOT UDP_FLAGS_CONNECTED\<rparr>)"

definition udp_recv :: "'a ip_st_scheme \<Rightarrow> addr \<Rightarrow> addr \<Rightarrow> u32 \<Rightarrow> 'a ip_st_scheme res" where
  "udp_recv st pcb f arg = upd_udp st pcb (\<lambda>c. c\<lparr>udp_recv_fn := f, udp_recv_arg := arg\<rparr>)"

section \<open>Output\<close>

definition udp_room :: "'a pbuf_st_scheme \<Rightarrow> addr \<Rightarrow> (addr option \<times> 'a pbuf_st_scheme) res" where
  "udp_room st p =
     rbind (pbuf_header st p (of_nat UDP_HLEN)) (\<lambda>(failed, st1).
       if failed \<noteq> 0 then chain_header st1 (of_nat UDP_HLEN) p else Inr (Some p, st1))"

text \<open>Length and checksum of the header at \<open>h\<close> of the packet \<open>q\<close>; a checksum of 0 is sent as \<open>0xffff\<close>.\<close>

definition udp_finish ::
  "'a pbuf_st_scheme \<Rightarrow> addr \<Rightarrow> addr \<Rightarrow> u16 \<Rightarrow> bool \<Rightarrow> u32 \<Rightarrow> u32 \<Rightarrow> 'a pbuf_st_scheme res" where
  "udp_finish st q h tot with_chksum src dst =
     rbind (wr16 (bytes st) (h + 4) (lwip_htons tot)) (\<lambda>m. let st1 = st\<lparr>bytes := m\<rparr> in
       if with_chksum then
         rbind (inet_chksum_pseudo st1 q src dst IP_PROTO_UDP tot) (\<lambda>ck.
         rbind (wr16 m (h + 6) (if ck = 0 then 0xffff else ck)) (\<lambda>m1. Inr (st1\<lparr>bytes := m1\<rparr>)))
       else Inr st1)"

definition udp_sendto_if ::
  "('a ip_st_scheme) ip_env \<Rightarrow> 'a ip_st_scheme \<Rightarrow> addr \<Rightarrow> addr \<Rightarrow> u32 \<Rightarrow> u16 \<Rightarrow> addr \<Rightarrow> (err_t \<times> 'a ip_st_scheme) res" where
  "udp_sendto_if env st pcb p dst dport n =
     rbind (udp_ensure_port st pcb) (\<lambda>(e, st1).
       if e \<noteq> ERR_OK then Inr (e, st1)
       else rbind (udp_room st1 p) (\<lambda>(room, st2).
         case room of
           None \<Rightarrow> Inr (ERR_MEM, st2)
         | Some q \<Rightarrow>
             rbind (get_pbuf st2 q) (\<lambda>b. rbind (get_udp st2 pcb) (\<lambda>c. let h = payload b in
             rbind (wr16 (bytes st2) h (lwip_htons (udp_local_port c))) (\<lambda>m. rbind (wr16 m (h + 2) (lwip_htons dport)) (\<lambda>m.
             rbind (wr16 m (h + 6) 0) (\<lambda>m. let st3 = st2\<lparr>bytes := m\<rparr> in
             rbind (get_netif st3 n) (\<lambda>x.
               if \<not> ip_addr_isany (local_ip c) \<and> local_ip c \<noteq> ip_addr x then
                 rbind (if q \<noteq> p then free_only st3 q else Inr st3) (\<lambda>st4. Inr (ERR_VAL, st4))
               else
                 let src = (if ip_addr_isany (local_ip c) then ip_addr x else local_ip c) in
                 rbind (udp_finish st3 q h (tot_len b) (udp_flags c AND UDP_FLAGS_NOCHKSUM = 0) src dst) (\<lambda>st4.
                 rbind (ip_output_if env st4 q src (Some dst) (ttl c) (tos c) IP_PROTO_UDP n) (\<lambda>(e, st5).
                 rbind (if q \<noteq> p then free_only st5 q else Inr st5) (\<lambda>st6. Inr (e, st6))))))))))))"

definition udp_sendto ::
  "('a ip_st_scheme) ip_env \<Rightarrow> 'a ip_st_scheme \<Rightarrow> addr \<Rightarrow> addr \<Rightarrow> u32 \<Rightarrow> u16 \<Rightarrow> (err_t \<times> 'a ip_st_scheme) res" where
  "udp_sendto env st pcb p dst dport =
     rbind (ip_route st dst) (\<lambda>n. if n = 0 then Inr (ERR_RTE, st) else udp_sendto_if env st pcb p dst dport n)"

definition udp_send :: "('a ip_st_scheme) ip_env \<Rightarrow> 'a ip_st_scheme \<Rightarrow> addr \<Rightarrow> addr \<Rightarrow> (err_t \<times> 'a ip_st_scheme) res" where
  "udp_send env st pcb p = rbind (get_udp st pcb) (\<lambda>c. udp_sendto env st pcb p (remote_ip c) (udp_remote_port c))"

section \<open>Creating and removing\<close>

primrec udp_unlink :: "nat \<Rightarrow> 'a ip_st_scheme \<Rightarrow> addr \<Rightarrow> addr \<Rightarrow> 'a ip_st_scheme res" where
  "udp_unlink 0 st pcb q = (if q = 0 then Inr st else Inl Out_of_fuel)"
| "udp_unlink (Suc fuel) st pcb q =
     (if q = 0 then Inr st
      else rbind (get_udp st q) (\<lambda>d.
        rbind (if udp_next d \<noteq> 0 \<and> udp_next d = pcb
               then rbind (get_udp st pcb) (\<lambda>c. Inr (put_udp st q (d\<lparr>udp_next := udp_next c\<rparr>))) else Inr st) (\<lambda>st1.
        rbind (get_udp st1 q) (\<lambda>d1. udp_unlink fuel st1 pcb (udp_next d1)))))"

definition udp_remove :: "'a ip_st_scheme \<Rightarrow> addr \<Rightarrow> 'a ip_st_scheme res" where
  "udp_remove st pcb =
     rbind (if udp_pcbs st = pcb then rbind (get_udp st pcb) (\<lambda>c. Inr (st\<lparr>udp_pcbs := udp_next c\<rparr>))
            else udp_unlink udp_fuel st pcb (udp_pcbs st)) (\<lambda>st1.
       Inr (st1\<lparr>udp_tab := (udp_tab st1)(pcb := None), pools := memp_free (pools st1) MEMP_UDP_PCB pcb\<rparr>))"

definition udp_new :: "'a ip_st_scheme \<Rightarrow> addr \<times> 'a ip_st_scheme" where
  "udp_new st =
     (case memp_malloc (pools st) MEMP_UDP_PCB of (pcb, ps) \<Rightarrow>
        if pcb = 0 then (0, st\<lparr>pools := ps\<rparr>)
        else (pcb, put_udp (st\<lparr>pools := ps\<rparr>) pcb
               \<lparr>local_ip = 0, remote_ip = 0, so_options = 0, tos = 0, ttl = UDP_TTL, udp_next = 0, udp_flags = 0,
                udp_local_port = 0, udp_remote_port = 0, udp_recv_fn = 0, udp_recv_arg = 0\<rparr>))"

section \<open>The search is a search in a list\<close>

definition udp_nx :: "'a ip_st_scheme \<Rightarrow> addr \<Rightarrow> addr" where
  "udp_nx st p = (case udp_tab st p of Some c \<Rightarrow> udp_next c | None \<Rightarrow> 0)"

text \<open>The block takes the datagram; the block is not connected and takes it on its local side.\<close>

definition udp_full :: "'a ip_st_scheme \<Rightarrow> u16 \<Rightarrow> u16 \<Rightarrow> netif \<Rightarrow> addr \<Rightarrow> bool" where
  "udp_full st sport dport x p = (case udp_tab st p of None \<Rightarrow> False | Some c \<Rightarrow>
     udp_local_match dport (current_iphdr_dest st) x c \<and> udp_remote_match sport (current_iphdr_src st) c)"

definition udp_half :: "'a ip_st_scheme \<Rightarrow> u16 \<Rightarrow> netif \<Rightarrow> addr \<Rightarrow> bool" where
  "udp_half st dport x p = (case udp_tab st p of None \<Rightarrow> False | Some c \<Rightarrow>
     udp_local_match dport (current_iphdr_dest st) x c \<and> udp_flags c AND UDP_FLAGS_CONNECTED = 0)"

lemma udp_nx_Some [simp]: "udp_tab st p = Some c \<Longrightarrow> udp_nx st p = udp_next c"
  by (simp add: udp_nx_def)

lemma find_split: "find P xs = Some q \<Longrightarrow> \<exists>ys zs. xs = ys @ q # zs \<and> P q \<and> (\<forall>y \<in> set ys. \<not> P y)"
proof (induction xs)
  case (Cons x xs)
  show ?case
  proof (cases "P x")
    case True
    with Cons show ?thesis by (intro exI [of _ "[]"] exI [of _ xs]) simp
  next
    case False
    with Cons obtain ys zs where "xs = ys @ q # zs" "P q" "\<forall>y \<in> set ys. \<not> P y" by auto
    with False show ?thesis by (intro exI [of _ "x # ys"] exI [of _ zs]) simp
  qed
qed simp

lemma get_udp_Inr: "p \<noteq> 0 \<Longrightarrow> udp_tab st p = Some c \<Longrightarrow> get_udp st p = Inr c"
  by (simp add: get_udp_def)

lemma udp_find_none:
  assumes "linked (udp_nx st) pcb xs" "\<forall>p \<in> set xs. udp_tab st p \<noteq> None" "length xs \<le> fuel"
    "\<forall>p \<in> set xs. \<not> udp_full st sport dport x p"
  shows "udp_find fuel st sport dport x prev uncon pcb = Inr (0, last (prev # xs),
    if uncon \<noteq> 0 then uncon else case find (udp_half st dport x) xs of None \<Rightarrow> 0 | Some p \<Rightarrow> p)"
  using assms
proof (induction fuel arbitrary: pcb xs prev uncon)
  case (Suc fuel)
  show ?case
  proof (cases xs)
    case (Cons p ps)
    with Suc.prems obtain c where c: "udp_tab st p = Some c" "pcb = p" "p \<noteq> 0" "linked (udp_nx st) (udp_next c) ps"
      by fastforce
    have h: "udp_half st dport x p \<longleftrightarrow> udp_local_match dport (current_iphdr_dest st) x c \<and> udp_flags c AND UDP_FLAGS_CONNECTED = 0"
      and f: "\<not> (udp_local_match dport (current_iphdr_dest st) x c \<and> udp_remote_match sport (current_iphdr_src st) c)"
      using c Cons Suc.prems(4) by (auto simp: udp_half_def udp_full_def)
    show ?thesis
      using Suc.IH [OF c(4), of p] Suc.prems(2-4) Cons c f
      by (auto simp: get_udp_Inr Let_def h)
  qed (use Suc.prems in simp)
qed simp

lemma udp_find_some:
  assumes "linked (udp_nx st) pcb (ys @ q # zs)" "\<forall>p \<in> set ys. udp_tab st p \<noteq> None" "length ys < fuel"
    "\<forall>p \<in> set ys. \<not> udp_full st sport dport x p" "udp_full st sport dport x q"
  shows "\<exists>u. udp_find fuel st sport dport x prev uncon pcb = Inr (q, last (prev # ys), u)"
  using assms
proof (induction ys arbitrary: fuel pcb prev uncon)
  case Nil
  then obtain fuel' where "fuel = Suc fuel'" by (cases fuel) auto
  with Nil show ?case by (auto simp: udp_full_def get_udp_def Let_def split: option.splits)
next
  case (Cons p ps)
  from Cons.prems obtain fuel' c where c: "fuel = Suc fuel'" "udp_tab st p = Some c" "pcb = p" "p \<noteq> 0"
      "linked (udp_nx st) (udp_next c) (ps @ q # zs)"
    by (cases fuel) fastforce+
  have f: "\<not> (udp_local_match dport (current_iphdr_dest st) x c \<and> udp_remote_match sport (current_iphdr_src st) c)"
    using c Cons.prems(4) by (auto simp: udp_full_def)
  from Cons.IH [OF c(5), of fuel' p] Cons.prems(2-5) c f show ?case
    by (auto simp: get_udp_Inr Let_def)
qed

text \<open>Nothing of the blocks but their links changes.\<close>

definition udp_unlinked :: "'a ip_st_scheme \<Rightarrow> addr \<Rightarrow> udp_pcb option" where
  "udp_unlinked st p = map_option (\<lambda>c. c\<lparr>udp_next := 0\<rparr>) (udp_tab st p)"

lemma udp_to_front_spec:
  assumes l: "linked (udp_nx st) (udp_pcbs st) (ys @ q # zs)" "distinct (ys @ q # zs)"
    and d: "\<forall>p \<in> set (ys @ [q]). udp_tab st p \<noteq> None"
  shows "\<exists>st'. udp_to_front st (last (0 # ys)) q = Inr st' \<and> linked (udp_nx st') (udp_pcbs st') (q # ys @ zs)
    \<and> udp_unlinked st' = udp_unlinked st"
proof (cases ys rule: rev_cases)
  case Nil
  then show ?thesis using l by (simp add: udp_to_front_def)
next
  case (snoc ws r)
  have nz: "r \<noteq> 0" "q \<noteq> 0" using linked_nonzero [OF l(1)] snoc by auto
  have ne: "r \<noteq> q" "r \<notin> set ws" "q \<notin> set ws" "q \<notin> set zs" "r \<notin> set zs" using l(2) snoc by auto
  from d snoc obtain c e where c: "udp_tab st q = Some c" "udp_tab st r = Some e" by auto
  let ?st = "st\<lparr>udp_tab := (udp_tab st)(r \<mapsto> e\<lparr>udp_next := udp_next c\<rparr>, q \<mapsto> c\<lparr>udp_next := udp_pcbs st\<rparr>), udp_pcbs := q\<rparr>"
  have run: "udp_to_front st (last (0 # ys)) q = Inr ?st"
    using snoc nz ne c by (simp add: udp_to_front_def upd_udp_def get_udp_def put_udp_def)
  have nx: "udp_nx ?st = (udp_nx st)(r := udp_nx st q, q := udp_pcbs st)"
    using c ne by (auto simp: udp_nx_def fun_eq_iff)
  have "linked ((udp_nx st)(r := udp_nx st q)) (udp_pcbs st) (ws @ r # zs)"
    using linked_remove [of "udp_nx st" "udp_pcbs st" ws r q zs] l snoc by simp
  then have "linked (udp_nx ?st) (udp_pcbs st) (ws @ r # zs)"
    unfolding nx using ne by (subst linked_upd) auto
  then have "linked (udp_nx ?st) q (q # ws @ r # zs)" using nz by (simp add: nx)
  moreover have "udp_unlinked ?st = udp_unlinked st" using c by (auto simp: udp_unlinked_def fun_eq_iff)
  ultimately show ?thesis using run snoc by auto
qed

section \<open>Properties\<close>

text \<open>C39: A datagram goes to the first block of the list that matches both its ends, which is moved to the
  front, the others keeping their order; when there is none, to the first that matches its local end
  and is not connected, and the list stays; when there is none either, to no block. Nothing else of
  the blocks changes.\<close>

theorem udp_demux_correct:
  assumes "linked (udp_nx st) (udp_pcbs st) xs" "distinct xs" "\<forall>p \<in> set xs. udp_tab st p \<noteq> None" "length xs < udp_fuel"
  shows "case find (udp_full st sport dport x) xs of
      None \<Rightarrow> udp_demux st sport dport x = Inr (case find (udp_half st dport x) xs of None \<Rightarrow> 0 | Some p \<Rightarrow> p, st)
    | Some q \<Rightarrow> \<exists>st'. udp_demux st sport dport x = Inr (q, st') \<and> linked (udp_nx st') (udp_pcbs st') (q # remove1 q xs)
        \<and> udp_unlinked st' = udp_unlinked st"
proof (cases "find (udp_full st sport dport x) xs")
  case None
  then have "\<forall>p \<in> set xs. \<not> udp_full st sport dport x p" by (simp add: find_None_iff)
  from udp_find_none [OF assms(1,3) _ this, of udp_fuel 0 0] None assms(4) show ?thesis by (simp add: udp_demux_def)
next
  case (Some q)
  then obtain ys zs where ys: "xs = ys @ q # zs" "\<forall>p \<in> set ys. \<not> udp_full st sport dport x p" "udp_full st sport dport x q"
    using find_split [OF Some] by blast
  have "q \<noteq> 0" "remove1 q xs = ys @ zs" using linked_nonzero [OF assms(1)] ys(1) assms(2) by (auto simp: remove1_append)
  moreover from udp_find_some [OF assms(1) [unfolded ys(1)] _ _ ys(2,3), of udp_fuel 0 0] assms(3,4) ys(1)
  obtain u where "udp_find udp_fuel st sport dport x 0 0 (udp_pcbs st) = Inr (q, last (0 # ys), u)" by auto
  moreover from udp_to_front_spec [of st ys q zs] assms(1-3) ys(1) obtain st' where
    "udp_to_front st (last (0 # ys)) q = Inr st'" "linked (udp_nx st') (udp_pcbs st') (q # ys @ zs)" "udp_unlinked st' = udp_unlinked st"
    by auto
  ultimately show ?thesis using Some by (simp add: udp_demux_def)
qed

text \<open>Two blocks for port 9: the first is open to everyone, the second connected to the sender.\<close>

definition sample_udp :: "u16 \<Rightarrow> u32 \<Rightarrow> u8 \<Rightarrow> addr \<Rightarrow> udp_pcb" where
  "sample_udp rport rip fl nx = \<lparr>local_ip = 0, remote_ip = rip, so_options = 0, tos = 0, ttl = UDP_TTL, udp_next = nx, udp_flags = fl,
     udp_local_port = 9, udp_remote_port = rport, udp_recv_fn = 1, udp_recv_arg = 0\<rparr>"

definition two_udp :: ip_st where
  "two_udp = link_st.extend (sample_link Map.empty Map.empty pq_empty)
     (ip_st.fields Map.empty [] 0 0 0 0 0 0x0201A8C0 0xC701A8C0 Map.empty 0 0 Map.empty Map.empty 0
       [100 \<mapsto> sample_udp 0 0 0 200, 200 \<mapsto> sample_udp 5 0x0201A8C0 UDP_FLAGS_CONNECTED 0] 100 0xc000)"

lemma two_udp_simps [simp]:
  "udp_tab two_udp = [100 \<mapsto> sample_udp 0 0 0 200, 200 \<mapsto> sample_udp 5 0x0201A8C0 UDP_FLAGS_CONNECTED 0]" "udp_pcbs two_udp = 100"
  "current_iphdr_src two_udp = 0x0201A8C0" "current_iphdr_dest two_udp = 0xC701A8C0"
  by (simp_all add: two_udp_def link_st.extend_def ip_st.fields_def sample_link_def)

definition udp_nif :: netif where
  "udp_nif = \<lparr>ip_addr = 0xC701A8C0, netmask = 0x00FFFFFF, gw = 0x0101A8C0, mtu = 1500, hwaddr = [0, 0x0a, 0x35, 0, 1, 2],
     nif_flags = NETIF_FLAG_UP OR NETIF_FLAG_BROADCAST, nif_num = 0\<rparr>"

theorem udp_demux_correct_witness:
  "\<exists>st'. udp_demux two_udp 5 9 udp_nif = Inr (200, st') \<and> linked (udp_nx st') (udp_pcbs st') [200, 100]
     \<and> udp_unlinked st' = udp_unlinked two_udp"
proof -
  have n: "udp_nx two_udp 100 = 200" "udp_nx two_udp 200 = 0" by (simp_all add: udp_nx_def sample_udp_def)
  have b: "\<not> ip4_addr_isbroadcast 0xC701A8C0 udp_nif" by (simp add: ip4_addr_isbroadcast_def udp_nif_def IPADDR_ANY_def)
  have f: "\<not> udp_full two_udp 5 9 udp_nif 100" "udp_full two_udp 5 9 udp_nif 200"
    using b by (simp_all add: udp_full_def udp_local_match_def udp_remote_match_def sample_udp_def Let_def ip_addr_isany_def IPADDR_ANY_def)
  from udp_demux_correct [of two_udp "[100, 200]" 5 9 udp_nif] n f show ?thesis by (simp add: udp_fuel_def)
qed

end
