(* ===== verification/IpFrag.thy ===== *)
theory IpFrag
  imports Icmp
begin

text \<open>
  Reassembly and fragmentation of IP datagrams: \<^verbatim>\<open>core/ipv4/ip_frag.c\<close> with the structures of
  \<^verbatim>\<open>ip_frag.h\<close>. The fragments of a datagram are linked through a \<^verbatim>\<open>struct ip_reass_helper\<close>, which
  the code writes over the IP header of each fragment: at the payload address of its pbuf stand the
  pointer to the next fragment (4 bytes) and the first and the last offset (2 bytes each).
  Overlaps are checked (\<^verbatim>\<open>IP_REASS_CHECK_OVERLAP\<close> 1), the oldest datagram makes room
  (\<^verbatim>\<open>IP_REASS_FREE_OLDEST\<close> 1), and \<^verbatim>\<open>ip_frag\<close> mirrors the packet with custom pbufs
  (\<^verbatim>\<open>IP_FRAG_USES_STATIC_BUF\<close> and \<^verbatim>\<open>LWIP_NETIF_TX_SINGLE_PBUF\<close> 0).
\<close>

section \<open>Constants and access\<close>

definition IP_REASS_FLAG_LASTFRAG :: u8 where "IP_REASS_FLAG_LASTFRAG = 1"
definition IP_REASS_MAXAGE :: u8 where "IP_REASS_MAXAGE = 3"
definition IP_REASS_MAX_PBUFS :: nat where "IP_REASS_MAX_PBUFS = 128"
definition IP_OFFMASK :: u16 where "IP_OFFMASK = 0x1fff"
definition IP_MF :: u16 where "IP_MF = 0x2000"

text \<open>
  Every fragment holds a pbuf and at most 128 pbufs wait, and the pool \<^verbatim>\<open>MEMP_REASSDATA\<close> has 5
  elements: these bound the two lists.
\<close>

definition frag_fuel :: nat where "frag_fuel = 129"
definition dgram_fuel :: nat where "dgram_fuel = 6"

definition get_reass :: "'a ip_st_scheme \<Rightarrow> addr \<Rightarrow> ip_reassdata res" where
  "get_reass st r = (if r = 0 then Inl Null_deref
     else case reass st r of None \<Rightarrow> Inl (Dangling r) | Some d \<Rightarrow> Inr d)"

definition put_reass :: "'a ip_st_scheme \<Rightarrow> addr \<Rightarrow> ip_reassdata \<Rightarrow> 'a ip_st_scheme" where
  "put_reass st r d = st\<lparr>reass := (reass st)(r \<mapsto> d)\<rparr>"

definition upd_reass :: "'a ip_st_scheme \<Rightarrow> addr \<Rightarrow> (ip_reassdata \<Rightarrow> ip_reassdata) \<Rightarrow> 'a ip_st_scheme res" where
  "upd_reass st r f = rbind (get_reass st r) (\<lambda>d. Inr (put_reass st r (f d)))"

definition rh_next :: "memory \<Rightarrow> addr \<Rightarrow> addr res" where
  "rh_next m h = rbind (rd32 m h) (\<lambda>w. Inr (unat w))"

definition rh_start :: "memory \<Rightarrow> addr \<Rightarrow> u16 res" where "rh_start m h = rd16 m (h + 4)"

definition rh_end :: "memory \<Rightarrow> addr \<Rightarrow> u16 res" where "rh_end m h = rd16 m (h + 6)"

definition set_rh_next :: "memory \<Rightarrow> addr \<Rightarrow> addr \<Rightarrow> memory res" where
  "set_rh_next m h p = wr32 m h (of_nat p)"

text \<open>\<^verbatim>\<open>IP_ADDRESSES_AND_ID_MATCH\<close> on the bytes of two headers.\<close>

definition IP_ADDRESSES_AND_ID_MATCH :: "u8 list \<Rightarrow> u8 list \<Rightarrow> bool" where
  "IP_ADDRESSES_AND_ID_MATCH a b \<longleftrightarrow>
     take 4 (drop 12 a) = take 4 (drop 12 b) \<and> take 4 (drop 16 a) = take 4 (drop 16 b) \<and> take 2 (drop 4 a) = take 2 (drop 4 b)"

section \<open>Freeing datagrams\<close>

definition ip_reass_dequeue_datagram :: "'a ip_st_scheme \<Rightarrow> addr \<Rightarrow> addr \<Rightarrow> 'a ip_st_scheme res" where
  "ip_reass_dequeue_datagram st ipr prev =
     rbind (get_reass st ipr) (\<lambda>r.
     rbind (if reassdatagrams st = ipr then Inr (st\<lparr>reassdatagrams := rd_next r\<rparr>)
            else upd_reass st prev (\<lambda>q. q\<lparr>rd_next := rd_next r\<rparr>)) (\<lambda>st1.
       Inr (st1\<lparr>reass := (reass st1)(ipr := None), pools := memp_free (pools st1) MEMP_REASSDATA ipr\<rparr>)))"

primrec free_frags :: "nat \<Rightarrow> 'a ip_st_scheme \<Rightarrow> addr \<Rightarrow> u16 \<Rightarrow> (u16 \<times> 'a ip_st_scheme) res" where
  "free_frags 0 st p freed = (if p = 0 then Inr (freed, st) else Inl Out_of_fuel)"
| "free_frags (Suc fuel) st p freed =
     (if p = 0 then Inr (freed, st)
      else rbind (get_pbuf st p) (\<lambda>b. rbind (rh_next (bytes st) (payload b)) (\<lambda>n.
        rbind (pbuf_clen st p) (\<lambda>clen. rbind (free_only st p) (\<lambda>st1.
          free_frags fuel st1 n (freed + ucast clen))))))"

definition ip_reass_free_complete_datagram ::
  "('a ip_st_scheme) ip_env \<Rightarrow> 'a ip_st_scheme \<Rightarrow> addr \<Rightarrow> addr \<Rightarrow> (u16 \<times> 'a ip_st_scheme) res" where
  "ip_reass_free_complete_datagram env st ipr prev =
     rbind (get_reass st ipr) (\<lambda>r. rbind (get_pbuf st (rd_p r)) (\<lambda>b. rbind (rh_start (bytes st) (payload b)) (\<lambda>start.
     rbind (if start = 0 then
              rbind (rh_next (bytes st) (payload b)) (\<lambda>n.
              rbind (wr_bytes (bytes st) (payload b) (rd_iphdr r)) (\<lambda>m.
              rbind (icmp_time_exceeded env ((put_reass st ipr (r\<lparr>rd_p := n\<rparr>))\<lparr>bytes := m\<rparr>) (rd_p r) ICMP_TE_FRAG) (\<lambda>st1.
              rbind (pbuf_clen st1 (rd_p r)) (\<lambda>clen. rbind (free_only st1 (rd_p r)) (\<lambda>st2. Inr (ucast clen, st2))))))
            else Inr (0, st)) (\<lambda>(freed0, st3).
     rbind (get_reass st3 ipr) (\<lambda>r1.
     rbind (free_frags frag_fuel st3 (rd_p r1) freed0) (\<lambda>(freed, st4).
     rbind (ip_reass_dequeue_datagram st4 ipr prev) (\<lambda>st5.
       Inr (freed, st5\<lparr>ip_reass_pbufcount := ip_reass_pbufcount st5 - freed\<rparr>))))))))"

primrec tmr_walk ::
  "nat \<Rightarrow> ('a ip_st_scheme) ip_env \<Rightarrow> 'a ip_st_scheme \<Rightarrow> addr \<Rightarrow> addr \<Rightarrow> 'a ip_st_scheme res" where
  "tmr_walk 0 env st r prev = (if r = 0 then Inr st else Inl Out_of_fuel)"
| "tmr_walk (Suc fuel) env st r prev =
     (if r = 0 then Inr st
      else rbind (get_reass st r) (\<lambda>d.
        if 0 < rd_timer d then tmr_walk fuel env (put_reass st r (d\<lparr>rd_timer := rd_timer d - 1\<rparr>)) (rd_next d) r
        else rbind (ip_reass_free_complete_datagram env st r prev) (\<lambda>(_, st1). tmr_walk fuel env st1 (rd_next d) prev)))"

definition ip_reass_tmr :: "('a ip_st_scheme) ip_env \<Rightarrow> 'a ip_st_scheme \<Rightarrow> 'a ip_st_scheme res" where
  "ip_reass_tmr env st = tmr_walk dgram_fuel env st (reassdatagrams st) 0"

text \<open>
  The inner loop of \<^verbatim>\<open>ip_reass_remove_oldest_datagram\<close>: the oldest datagram that is not the one of
  the fragment, the value of \<^verbatim>\<open>prev\<close> and the number of other datagrams. As in the code, \<^verbatim>\<open>prev\<close> ends
  as the last datagram but one of the list, whichever datagram is the oldest.
\<close>

primrec oldest_scan ::
  "nat \<Rightarrow> 'a ip_st_scheme \<Rightarrow> u8 list \<Rightarrow> addr \<Rightarrow> addr \<Rightarrow> addr \<Rightarrow> nat \<Rightarrow> (addr \<times> addr \<times> nat) res" where
  "oldest_scan 0 st f r oldest prev others = (if r = 0 then Inr (oldest, prev, others) else Inl Out_of_fuel)"
| "oldest_scan (Suc fuel) st f r oldest prev others =
     (if r = 0 then Inr (oldest, prev, others)
      else rbind (get_reass st r) (\<lambda>d.
        rbind (if IP_ADDRESSES_AND_ID_MATCH (rd_iphdr d) f then Inr (oldest, others)
               else if oldest = 0 then Inr (r, others + 1)
               else rbind (get_reass st oldest) (\<lambda>q. Inr (if rd_timer d \<le> rd_timer q then r else oldest, others + 1)))
          (\<lambda>(oldest1, others1).
             oldest_scan fuel st f (rd_next d) oldest1 (if rd_next d \<noteq> 0 then r else prev) others1)))"

primrec remove_loop ::
  "nat \<Rightarrow> ('a ip_st_scheme) ip_env \<Rightarrow> 'a ip_st_scheme \<Rightarrow> addr \<Rightarrow> nat \<Rightarrow> nat \<Rightarrow> (nat \<times> 'a ip_st_scheme) res" where
  "remove_loop 0 env st fraghdr needed freed = Inl Out_of_fuel"
| "remove_loop (Suc fuel) env st fraghdr needed freed =
     rbind (rd_bytes (bytes st) fraghdr IP_HLEN) (\<lambda>f.
     rbind (oldest_scan dgram_fuel st f (reassdatagrams st) 0 0 0) (\<lambda>(oldest, prev, others).
     rbind (if oldest \<noteq> 0 then
              rbind (ip_reass_free_complete_datagram env st oldest prev) (\<lambda>(n, st1). Inr (freed + unat n, st1))
            else Inr (freed, st)) (\<lambda>(freed1, st1).
       if freed1 < needed \<and> 1 < others then remove_loop fuel env st1 fraghdr needed freed1 else Inr (freed1, st1))))"

definition ip_reass_remove_oldest_datagram ::
  "('a ip_st_scheme) ip_env \<Rightarrow> 'a ip_st_scheme \<Rightarrow> addr \<Rightarrow> nat \<Rightarrow> (nat \<times> 'a ip_st_scheme) res" where
  "ip_reass_remove_oldest_datagram env st fraghdr needed = remove_loop dgram_fuel env st fraghdr needed 0"

section \<open>New datagrams\<close>

definition malloc_reass :: "'a ip_st_scheme \<Rightarrow> addr \<times> 'a ip_st_scheme" where
  "malloc_reass st = (case memp_malloc (pools st) MEMP_REASSDATA of (r, ps) \<Rightarrow> (r, st\<lparr>pools := ps\<rparr>))"

definition ip_reass_enqueue_new_datagram ::
  "('a ip_st_scheme) ip_env \<Rightarrow> 'a ip_st_scheme \<Rightarrow> addr \<Rightarrow> nat \<Rightarrow> (addr \<times> 'a ip_st_scheme) res" where
  "ip_reass_enqueue_new_datagram env st fraghdr clen =
     rbind (case malloc_reass st of (r, st1) \<Rightarrow>
              if r \<noteq> 0 then Inr (r, st1)
              else rbind (ip_reass_remove_oldest_datagram env st1 fraghdr clen) (\<lambda>(n, st2).
                Inr (if clen \<le> n then malloc_reass st2 else (0, st2)))) (\<lambda>(r, st1).
       if r = 0 then Inr (0, st1)
       else rbind (rd_bytes (bytes st1) fraghdr IP_HLEN) (\<lambda>f.
         Inr (r, (put_reass st1 r \<lparr>rd_next = reassdatagrams st1, rd_p = 0, rd_iphdr = f, rd_datagram_len = 0,
                    rd_flags = 0, rd_timer = IP_REASS_MAXAGE\<rparr>)\<lparr>reassdatagrams := r\<rparr>)))"

section \<open>Chaining a fragment\<close>

text \<open>
  The loop that looks for the place of the new fragment \<open>new_p\<close>, whose helper is at \<open>hn\<close>. \<open>prev\<close> is the
  address \<^verbatim>\<open>iprh_prev\<close>. The result is \<open>None\<close> for the jump to \<^verbatim>\<open>freepbuf\<close>; otherwise the value
  of \<^verbatim>\<open>q\<close> at the end of the loop, \<^verbatim>\<open>iprh_prev\<close> and \<^verbatim>\<open>valid\<close>.
\<close>

primrec chain_walk ::
  "nat \<Rightarrow> 'a ip_st_scheme \<Rightarrow> addr \<Rightarrow> addr \<Rightarrow> addr \<Rightarrow> addr \<Rightarrow> addr \<Rightarrow> bool
     \<Rightarrow> ((addr \<times> addr \<times> bool) option \<times> 'a ip_st_scheme) res" where
  "chain_walk 0 st ipr new_p hn q prev valid = (if q = 0 then Inr (Some (0, prev, valid), st) else Inl Out_of_fuel)"
| "chain_walk (Suc fuel) st ipr new_p hn q prev valid =
     (if q = 0 then Inr (Some (0, prev, valid), st)
      else rbind (get_pbuf st q) (\<lambda>b. let ht = payload b; m = bytes st in
        rbind (rh_start m hn) (\<lambda>s. rbind (rh_start m ht) (\<lambda>ts. rbind (rh_end m ht) (\<lambda>te.
          if s < ts then
            rbind (set_rh_next m hn q) (\<lambda>m1.
              if prev \<noteq> 0 then
                rbind (rh_end m1 prev) (\<lambda>pe. rbind (rh_end m1 hn) (\<lambda>e.
                  if s < pe \<or> ts < e then Inr (None, st\<lparr>bytes := m1\<rparr>)
                  else rbind (set_rh_next m1 prev new_p) (\<lambda>m2. Inr (Some (q, prev, valid), st\<lparr>bytes := m2\<rparr>))))
              else rbind (upd_reass (st\<lparr>bytes := m1\<rparr>) ipr (\<lambda>d. d\<lparr>rd_p := new_p\<rparr>)) (\<lambda>st1. Inr (Some (q, prev, valid), st1)))
          else if s = ts then Inr (None, st)
          else if s < te then Inr (None, st)
          else
            rbind (if prev \<noteq> 0 then rbind (rh_end m prev) (\<lambda>pe. Inr (valid \<and> pe = ts)) else Inr valid) (\<lambda>valid1.
            rbind (rh_next m ht) (\<lambda>n. chain_walk fuel st ipr new_p hn n ht valid1)))))))"

text \<open>The loop that checks for holes after the new fragment.\<close>

primrec holes_walk :: "nat \<Rightarrow> 'a ip_st_scheme \<Rightarrow> addr \<Rightarrow> addr \<Rightarrow> bool res" where
  "holes_walk 0 st prev q = (if q = 0 then Inr True else Inl Out_of_fuel)"
| "holes_walk (Suc fuel) st prev q =
     (if q = 0 then Inr True
      else rbind (get_pbuf st q) (\<lambda>b. rbind (rh_end (bytes st) prev) (\<lambda>pe. rbind (rh_start (bytes st) (payload b)) (\<lambda>s.
        if pe \<noteq> s then Inr False
        else rbind (rh_next (bytes st) (payload b)) (\<lambda>n. holes_walk fuel st (payload b) n)))))"

text \<open>The part after the loop: the append at the end, and the validation.\<close>

definition chain_append ::
  "'a ip_st_scheme \<Rightarrow> addr \<Rightarrow> addr \<Rightarrow> addr \<Rightarrow> addr \<Rightarrow> addr \<Rightarrow> bool \<Rightarrow> (bool \<times> 'a ip_st_scheme) res" where
  "chain_append st ipr new_p hn q prev valid =
     (if q = 0 then
        if prev \<noteq> 0 then
          rbind (set_rh_next (bytes st) prev new_p) (\<lambda>m.
          rbind (rh_end m prev) (\<lambda>pe. rbind (rh_start m hn) (\<lambda>s. Inr (valid \<and> pe = s, st\<lparr>bytes := m\<rparr>))))
        else rbind (upd_reass st ipr (\<lambda>d. d\<lparr>rd_p := new_p\<rparr>)) (\<lambda>st1. Inr (valid, st1))
      else Inr (valid, st))"

definition chain_validate :: "'a ip_st_scheme \<Rightarrow> addr \<Rightarrow> addr \<Rightarrow> bool \<Rightarrow> bool res" where
  "chain_validate st ipr hn valid =
     rbind (get_reass st ipr) (\<lambda>d.
       if rd_flags d AND IP_REASS_FLAG_LASTFRAG \<noteq> 0 then
         if valid then
           rbind (get_pbuf st (rd_p d)) (\<lambda>b. rbind (rh_start (bytes st) (payload b)) (\<lambda>s.
             if s \<noteq> 0 then Inr False
             else rbind (rh_next (bytes st) hn) (\<lambda>n. holes_walk frag_fuel st hn n)))
         else Inr False
       else Inr False)"

definition fill_helper :: "memory \<Rightarrow> addr \<Rightarrow> u16 \<Rightarrow> u16 \<Rightarrow> memory res" where
  "fill_helper m h offset len =
     rbind (set_rh_next m h 0) (\<lambda>m. rbind (wr16 m (h + 4) offset) (\<lambda>m. wr16 m (h + 6) (offset + len)))"

definition ip_reass_chain_frag_into_datagram_and_validate ::
  "'a ip_st_scheme \<Rightarrow> addr \<Rightarrow> addr \<Rightarrow> (bool \<times> 'a ip_st_scheme) res" where
  "ip_reass_chain_frag_into_datagram_and_validate st ipr new_p =
     rbind (get_pbuf st new_p) (\<lambda>b. let h = payload b in
     rbind (rd16 (bytes st) (h + 2)) (\<lambda>iplen. rbind (rd8 (bytes st) h) (\<lambda>vhl. rbind (rd16 (bytes st) (h + 6)) (\<lambda>off.
     let len = lwip_ntohs iplen - ucast (vhl AND 0x0f) * 4; offset = (lwip_ntohs off AND IP_OFFMASK) * 8 in
     rbind (fill_helper (bytes st) h offset len) (\<lambda>m. let st1 = st\<lparr>bytes := m\<rparr> in
     rbind (get_reass st1 ipr) (\<lambda>d.
     rbind (chain_walk frag_fuel st1 ipr new_p h (rd_p d) 0 True) (\<lambda>(place, st2).
       case place of
         None \<Rightarrow>
           rbind (pbuf_clen st2 new_p) (\<lambda>clen.
           rbind (free_only (st2\<lparr>ip_reass_pbufcount := ip_reass_pbufcount st2 - ucast clen\<rparr>) new_p) (\<lambda>st3. Inr (False, st3)))
       | Some (q, prev, valid) \<Rightarrow>
           rbind (chain_append st2 ipr new_p h q prev valid) (\<lambda>(valid1, st3).
           rbind (chain_validate st3 ipr h valid1) (\<lambda>valid2. Inr (valid2, st3))))))))))"

section \<open>Reassembly\<close>

text \<open>The datagram a fragment belongs to, and the one before it in the list.\<close>

primrec find_datagram :: "nat \<Rightarrow> 'a ip_st_scheme \<Rightarrow> u8 list \<Rightarrow> addr \<Rightarrow> addr \<Rightarrow> (addr \<times> addr) res" where
  "find_datagram 0 st f r prev = (if r = 0 then Inr (0, prev) else Inl Out_of_fuel)"
| "find_datagram (Suc fuel) st f r prev =
     (if r = 0 then Inr (0, prev)
      else rbind (get_reass st r) (\<lambda>d.
        if IP_ADDRESSES_AND_ID_MATCH (rd_iphdr d) f then Inr (r, prev) else find_datagram fuel st f (rd_next d) r))"

text \<open>The fragment's offset field, from the 20 bytes of a header.\<close>

definition hdr_offset :: "u8 list \<Rightarrow> u16" where
  "hdr_offset f = lwip_ntohs (le16 (f ! 6) (f ! 7))"

text \<open>The loop that chains the pbufs of a complete datagram.\<close>

primrec chain_frags :: "nat \<Rightarrow> 'a ip_st_scheme \<Rightarrow> addr \<Rightarrow> addr \<Rightarrow> 'a ip_st_scheme res" where
  "chain_frags 0 st p r = (if r = 0 then Inr st else Inl Out_of_fuel)"
| "chain_frags (Suc fuel) st p r =
     (if r = 0 then Inr st
      else rbind (get_pbuf st r) (\<lambda>b. rbind (pbuf_header st r (- of_nat IP_HLEN)) (\<lambda>(_, st1).
        rbind (pbuf_cat st1 p r) (\<lambda>st2. rbind (rh_next (bytes st2) (payload b)) (\<lambda>n. chain_frags fuel st2 p n)))))"

definition set_ip_header :: "memory \<Rightarrow> addr \<Rightarrow> u8 list \<Rightarrow> u16 \<Rightarrow> memory res" where
  "set_ip_header m h iphdr len =
     rbind (wr_bytes m h iphdr) (\<lambda>m. rbind (wr16 m (h + 2) (lwip_htons len)) (\<lambda>m. rbind (wr16 m (h + 6) 0) (\<lambda>m.
     rbind (wr16 m (h + 10) 0) (\<lambda>m. rbind (inet_chksum m h (of_nat IP_HLEN)) (\<lambda>ck. wr16 m (h + 10) ck)))))"

definition reass_finish :: "'a ip_st_scheme \<Rightarrow> addr \<Rightarrow> addr \<Rightarrow> (addr \<times> 'a ip_st_scheme) res" where
  "reass_finish st0 ipr ipr_prev =
     rbind (upd_reass st0 ipr (\<lambda>d. d\<lparr>rd_datagram_len := rd_datagram_len d + of_nat IP_HLEN\<rparr>)) (\<lambda>st.
     rbind (get_reass st ipr) (\<lambda>d. rbind (get_pbuf st (rd_p d)) (\<lambda>b.
     rbind (rh_next (bytes st) (payload b)) (\<lambda>r.
     rbind (set_ip_header (bytes st) (payload b) (rd_iphdr d) (rd_datagram_len d)) (\<lambda>m.
     rbind (chain_frags frag_fuel (st\<lparr>bytes := m\<rparr>) (rd_p d) r) (\<lambda>st1.
     rbind (ip_reass_dequeue_datagram st1 ipr ipr_prev) (\<lambda>st2.
     rbind (pbuf_clen st2 (rd_p d)) (\<lambda>clen.
       Inr (rd_p d, st2\<lparr>ip_reass_pbufcount := ip_reass_pbufcount st2 - ucast clen\<rparr>)))))))))"

definition ip_reass :: "('a ip_st_scheme) ip_env \<Rightarrow> 'a ip_st_scheme \<Rightarrow> addr \<Rightarrow> (addr \<times> 'a ip_st_scheme) res" where
  "ip_reass env st p =
     rbind (get_pbuf st p) (\<lambda>b. let fraghdr = payload b; nullreturn = (\<lambda>st. rbind (free_only st p) (\<lambda>st1. Inr (0, st1))) in
     rbind (rd_bytes (bytes st) fraghdr IP_HLEN) (\<lambda>f.
       if unat (f ! 0 AND 0x0f) * 4 \<noteq> IP_HLEN then nullreturn st
       else
         rbind (pbuf_clen st p) (\<lambda>clen.
         let offset = (hdr_offset f AND IP_OFFMASK) * 8;
             len = lwip_ntohs (le16 (f ! 2) (f ! 3)) - ucast (f ! 0 AND 0x0f) * 4 in
         rbind (if IP_REASS_MAX_PBUFS < unat (ip_reass_pbufcount st) + unat clen then
                  rbind (ip_reass_remove_oldest_datagram env st fraghdr (unat clen)) (\<lambda>(n, st1).
                    Inr (n = 0 \<or> IP_REASS_MAX_PBUFS < unat (ip_reass_pbufcount st1) + unat clen, st1))
                else Inr (False, st)) (\<lambda>(full, st1).
           if full then nullreturn st1
           else
             rbind (find_datagram dgram_fuel st1 f (reassdatagrams st1) 0) (\<lambda>(ipr0, ipr_prev).
             rbind (if ipr0 = 0 then ip_reass_enqueue_new_datagram env st1 fraghdr (unat clen)
                    else rbind (upd_reass st1 ipr0 (\<lambda>d.
                           if hdr_offset f AND IP_OFFMASK = 0 \<and> hdr_offset (rd_iphdr d) AND IP_OFFMASK \<noteq> 0
                           then d\<lparr>rd_iphdr := f\<rparr> else d)) (\<lambda>st2. Inr (ipr0, st2))) (\<lambda>(ipr, st2).
               if ipr = 0 then nullreturn st2
               else
                 let st3 = st2\<lparr>ip_reass_pbufcount := ip_reass_pbufcount st2 + ucast clen\<rparr> in
                 rbind (if hdr_offset f AND IP_MF = 0 then
                          upd_reass st3 ipr (\<lambda>d. d\<lparr>rd_flags := rd_flags d OR IP_REASS_FLAG_LASTFRAG, rd_datagram_len := offset + len\<rparr>)
                        else Inr st3) (\<lambda>st4.
                 rbind (ip_reass_chain_frag_into_datagram_and_validate st4 ipr p) (\<lambda>(valid, st5).
                   if valid then reass_finish st5 ipr ipr_prev else Inr (0, st5)))))))))"

section \<open>Fragmentation\<close>

text \<open>
  \<^verbatim>\<open>ipfrag_free_pbuf_custom\<close> for the custom pbufs that \<^verbatim>\<open>pbuf_free\<close> has released. The code calls it
  from within \<^verbatim>\<open>pbuf_free\<close>; only the pools' free lists could tell the difference.
\<close>

primrec ipfrag_free_pbuf_custom :: "nat \<Rightarrow> 'a ip_st_scheme \<Rightarrow> 'a ip_st_scheme res" where
  "ipfrag_free_pbuf_custom 0 st = (if custom_freed st = [] then Inr st else Inl Out_of_fuel)"
| "ipfrag_free_pbuf_custom (Suc fuel) st =
     (case custom_freed st of
        [] \<Rightarrow> Inr st
      | p # ps \<Rightarrow>
          let st1 = st\<lparr>custom_freed := ps\<rparr> in
          case frag_refs st p of
            None \<Rightarrow> Inl (Dangling p)
          | Some original \<Rightarrow>
              rbind (if original \<noteq> 0 then free_only st1 original else Inr st1) (\<lambda>st2.
                ipfrag_free_pbuf_custom fuel
                  (st2\<lparr>frag_refs := (frag_refs st2)(p := None), pools := memp_free (pools st2) MEMP_FRAG_PBUF p\<rparr>)))"

definition free_mirrored :: "'a ip_st_scheme \<Rightarrow> addr \<Rightarrow> 'a ip_st_scheme res" where
  "free_mirrored st p = rbind (free_only st p) (ipfrag_free_pbuf_custom chain_fuel)"

text \<open>
  The loop that mirrors \<open>left_to_copy\<close> bytes of the packet from the pbuf \<open>p\<close> on; the result is \<open>p\<close> and
  \<^verbatim>\<open>newpbuflen\<close> at its end, \<open>None\<close> for \<^verbatim>\<open>ERR_MEM\<close> (\<open>rambuf\<close> freed).
\<close>

primrec mirror_loop ::
  "nat \<Rightarrow> 'a ip_st_scheme \<Rightarrow> addr \<Rightarrow> addr \<Rightarrow> u16 \<Rightarrow> u16 \<Rightarrow> ((addr \<times> u16) option \<times> 'a ip_st_scheme) res" where
  "mirror_loop 0 st rambuf p left_to_copy newpbuflen =
     (if left_to_copy = 0 then Inr (Some (p, newpbuflen), st) else Inl Out_of_fuel)"
| "mirror_loop (Suc fuel) st rambuf p left_to_copy newpbuflen =
     (if left_to_copy = 0 then Inr (Some (p, newpbuflen), st)
      else rbind (get_pbuf st p) (\<lambda>b.
        let n = (if left_to_copy < pb_len b then left_to_copy else pb_len b) in
        if n = 0 then mirror_loop fuel st rambuf (pb_next b) left_to_copy n
        else case memp_malloc (pools st) MEMP_FRAG_PBUF of (pcr, ps) \<Rightarrow>
          if pcr = 0 then rbind (free_mirrored (st\<lparr>pools := ps\<rparr>) rambuf) (\<lambda>st1. Inr (None, st1))
          else case pbuf_alloced_custom (st\<lparr>pools := ps\<rparr>) PBUF_RAW n PBUF_REF pcr (payload b) n of (newpbuf, st1) \<Rightarrow>
            if newpbuf = 0 then
              rbind (free_mirrored (st1\<lparr>pools := memp_free (pools st1) MEMP_FRAG_PBUF pcr\<rparr>) rambuf) (\<lambda>st2. Inr (None, st2))
            else
              rbind (pbuf_ref st1 p) (\<lambda>st2.
              rbind (pbuf_cat (st2\<lparr>frag_refs := (frag_refs st2)(pcr \<mapsto> p)\<rparr>) rambuf newpbuf) (\<lambda>st3.
                let l = left_to_copy - n in
                mirror_loop fuel st3 rambuf (if l \<noteq> 0 then pb_next b else p) l n))))"

definition fill_frag_header :: "memory \<Rightarrow> addr \<Rightarrow> u16 \<Rightarrow> u16 \<Rightarrow> memory res" where
  "fill_frag_header m h off len =
     rbind (wr16 m (h + 6) (lwip_htons off)) (\<lambda>m. rbind (wr16 m (h + 2) (lwip_htons len)) (\<lambda>m.
     rbind (wr16 m (h + 10) 0) (\<lambda>m. rbind (inet_chksum m h (of_nat IP_HLEN)) (\<lambda>ck. wr16 m (h + 10) ck))))"

text \<open>
  The outer loop: one fragment of at most \<^verbatim>\<open>nfb\<close> blocks of 8 bytes each. A packet has at most 65535
  bytes; with an MTU of at least 28 every round takes at least 8.
\<close>

definition cut_fuel :: nat where "cut_fuel = 8192"

primrec frag_loop ::
  "nat \<Rightarrow> (addr \<Rightarrow> addr \<Rightarrow> u32 \<Rightarrow> 'a ip_st_scheme \<Rightarrow> (err_t \<times> 'a ip_st_scheme) res) \<Rightarrow> 'a ip_st_scheme \<Rightarrow> addr \<Rightarrow> addr \<Rightarrow> u32
     \<Rightarrow> addr \<Rightarrow> u16 \<Rightarrow> u16 \<Rightarrow> u16 \<Rightarrow> u16 \<Rightarrow> u16 \<Rightarrow> (err_t \<times> 'a ip_st_scheme) res" where
  "frag_loop 0 outp st n p dest hdr0 mtu0 omf ofo left poff = (if left = 0 then Inr (ERR_OK, st) else Inl Out_of_fuel)"
| "frag_loop (Suc fuel) outp st n p dest hdr0 mtu0 omf ofo left poff =
     (if left = 0 then Inr (ERR_OK, st)
      else
        let nfb = (if IP_HLEN \<le> unat mtu0 then of_nat ((unat mtu0 - IP_HLEN) div 8) else - of_nat ((IP_HLEN - unat mtu0) div 8));
            last = (int (unat left) \<le> int (unat mtu0) - int IP_HLEN);
            tmp0 = omf OR (IP_OFFMASK AND ofo); off = (if last then tmp0 else tmp0 OR IP_MF);
            cop = (if last then left else nfb * 8) in
        rbind (pbuf_alloc st PBUF_LINK (of_nat IP_HLEN) PBUF_RAM) (\<lambda>(rambuf, st1).
          if rambuf = 0 then Inr (ERR_MEM, st1)
          else
            rbind (get_pbuf st1 rambuf) (\<lambda>rb.
            rbind (memcpy (bytes st1) (payload rb) hdr0 IP_HLEN) (\<lambda>m.
            rbind (upd_pbuf (st1\<lparr>bytes := m\<rparr>) p (\<lambda>b. b\<lparr>payload := payload b + unat poff, pb_len := pb_len b - poff\<rparr>)) (\<lambda>st2.
            rbind (mirror_loop chain_fuel st2 rambuf p cop 0) (\<lambda>(r, st3).
              case r of
                None \<Rightarrow> Inr (ERR_MEM, st3)
              | Some (p1, newpbuflen) \<Rightarrow>
                  rbind (fill_frag_header (bytes st3) (payload rb) off (cop + of_nat IP_HLEN)) (\<lambda>m3.
                  rbind (outp n rambuf dest (st3\<lparr>bytes := m3\<rparr>)) (\<lambda>(_, st4).
                  rbind (free_mirrored st4 rambuf) (\<lambda>st5.
                    frag_loop fuel outp st5 n p1 dest hdr0 mtu0 omf (ofo + nfb) (left - cop) newpbuflen)))))))))"

definition ip_frag_run ::
  "(addr \<Rightarrow> addr \<Rightarrow> u32 \<Rightarrow> 'a ip_st_scheme \<Rightarrow> (err_t \<times> 'a ip_st_scheme) res) \<Rightarrow> addr \<Rightarrow> addr \<Rightarrow> u32
     \<Rightarrow> 'a ip_st_scheme \<Rightarrow> (err_t \<times> 'a ip_st_scheme) res" where
  "ip_frag_run outp p n dest st =
     rbind (get_pbuf st p) (\<lambda>b. rbind (get_netif st n) (\<lambda>x.
     rbind (rd16 (bytes st) (payload b + 6)) (\<lambda>off. let tmp0 = lwip_ntohs off in
       frag_loop cut_fuel outp st n p dest (payload b) (mtu x) (tmp0 AND IP_MF) (tmp0 AND IP_OFFMASK)
         (tot_len b - of_nat IP_HLEN) (of_nat IP_HLEN))))"

section \<open>The fragments as a list\<close>

type_synonym frag = "addr \<times> u16 \<times> u16"

definition helper :: "addr \<Rightarrow> u16 \<Rightarrow> u16 \<Rightarrow> u8 list" where
  "helper n s e = bytes32 (of_nat n) @ bytes16 s @ bytes16 e"

definition ptr_ok :: "addr \<Rightarrow> bool" where "ptr_ok n \<longleftrightarrow> n < 4294967296"

definition helper_of :: "(addr \<rightharpoonup> pbuf) \<Rightarrow> addr \<Rightarrow> addr" where "helper_of h p = payload (the (h p))"

text \<open>\<open>fseg m h a fs c\<close>: from \<open>a\<close> the links lead through the fragments \<open>fs\<close> to \<open>c\<close>.\<close>

fun fseg :: "memory \<Rightarrow> (addr \<rightharpoonup> pbuf) \<Rightarrow> addr \<Rightarrow> frag list \<Rightarrow> addr \<Rightarrow> bool" where
  "fseg m h a [] c = (a = c)"
| "fseg m h a ((p, s, e) # fs) c = (a = p \<and> p \<noteq> 0 \<and> ptr_ok p \<and> h p \<noteq> None \<and> helper_of h p \<noteq> 0
     \<and> (\<exists>n. ptr_ok n \<and> holds m (helper_of h p) (helper n s e) \<and> fseg m h n fs c))"

lemma fseg_append: "fseg m h a (xs @ ys) c \<longleftrightarrow> (\<exists>b. fseg m h a xs b \<and> fseg m h b ys c)"
proof (induction xs arbitrary: a)
  case (Cons f xs)
  show ?case by (cases f) (simp only: append_Cons fseg.simps Cons.IH, blast)
qed simp

lemma length_helper [simp]: "length (helper n s e) = 8"
  by (simp add: helper_def bytes16_len)

lemma helper_reads:
  assumes "holds m h (helper n s e)" "ptr_ok n"
  shows "rh_next m h = Inr n" "rh_start m h = Inr s" "rh_end m h = Inr e"
proof -
  have "unat (of_nat n :: u32) = n" using assms(2) by (simp add: unat_of_nat ptr_ok_def)
  moreover have "rd32 m h = Inr (of_nat n)" using assms(1) by (intro rd32_bytes32) (simp add: helper_def holds_append)
  ultimately show "rh_next m h = Inr n" by (simp add: rh_next_def)
  show "rh_start m h = Inr s" "rh_end m h = Inr e"
    unfolding rh_start_def rh_end_def using assms(1)
    by (auto intro!: rd16_bytes16 simp: helper_def holds_append bytes16_len add.commute [of 6])
qed

lemma helper_set:
  assumes "holds m h (helper n s e)"
  shows "\<exists>m'. set_rh_next m h k = Inr m' \<and> holds m' h (helper k s e) \<and> (\<forall>c. c < h \<or> h + 8 \<le> c \<longrightarrow> m' c = m c)"
proof -
  from assms have "holds m h ([] @ bytes32 (of_nat n) @ (bytes16 s @ bytes16 e))" by (simp add: helper_def)
  from wr_mid [OF this, of "bytes32 (of_nat k)" h] obtain m' where
    m': "wr_bytes m h (bytes32 (of_nat k)) = Inr m'" "holds m' h (helper k s e)" by (auto simp: bytes16_len helper_def)
  with wr_bytes_Inr [OF m'(1)] show ?thesis by (auto simp: set_rh_next_def wr32_def bytes16_len)
qed

text \<open>The helpers of different fragments do not overlap.\<close>

definition apart :: "(addr \<rightharpoonup> pbuf) \<Rightarrow> addr list \<Rightarrow> bool" where
  "apart h ps \<longleftrightarrow> distinct ps \<and> (\<forall>p \<in> set ps. \<forall>q \<in> set ps. p \<noteq> q \<longrightarrow>
     helper_of h p + 8 \<le> helper_of h q \<or> helper_of h q + 8 \<le> helper_of h p)"

lemma fseg_other:
  assumes "fseg m h a fs c" "\<And>p d. p \<in> fst ` set fs \<Longrightarrow> helper_of h p \<le> d \<Longrightarrow> d < helper_of h p + 8 \<Longrightarrow> m' d = m d"
  shows "fseg m' h a fs c"
  using assms
proof (induction fs arbitrary: a)
  case (Cons f fs)
  obtain p s e where f: "f = (p, s, e)" by (cases f)
  from Cons.prems(1) f obtain n where a: "a = p" "p \<noteq> 0" "ptr_ok p" "h p \<noteq> None" "helper_of h p \<noteq> 0" and n: "ptr_ok n" "holds m (helper_of h p) (helper n s e)" "fseg m h n fs c"
    by auto
  have "holds m' (helper_of h p) (helper n s e)"
    using n(2) Cons.prems(2) [of p] f by (auto simp: holds_iff_nth)
  moreover have "fseg m' h n fs c" using Cons.IH [OF n(3)] Cons.prems(2) f by auto
  ultimately show ?case using a n(1) f by auto
qed simp

text \<open>Writing the link of the fragment \<open>p\<close> leaves the others alone.\<close>

lemma fseg_set_other:
  assumes "fseg m h a fs c" "apart h ps" "fst ` set fs \<subseteq> set ps" "p \<in> set ps" "p \<notin> fst ` set fs"
    "\<forall>d. d < helper_of h p \<or> helper_of h p + 8 \<le> d \<longrightarrow> m' d = m d"
  shows "fseg m' h a fs c"
proof (rule fseg_other [OF assms(1)])
  fix q d assume q: "q \<in> fst ` set fs" "helper_of h q \<le> d" "d < helper_of h q + 8"
  then have "q \<noteq> p" "q \<in> set ps" using assms(3,5) by auto
  with assms(2,4) have "helper_of h p + 8 \<le> helper_of h q \<or> helper_of h q + 8 \<le> helper_of h p"
    unfolding apart_def by blast
  with q assms(6) show "m' d = m d" by force
qed

lemma fseg_relink:
  assumes "fseg m h a (xs @ [(p, s, e)]) c" "apart h ps" "set (p # map fst xs) \<subseteq> set ps" "p \<notin> fst ` set xs" "ptr_ok k"
  shows "\<exists>m'. set_rh_next m (helper_of h p) k = Inr m' \<and> fseg m' h a (xs @ [(p, s, e)]) k
    \<and> (\<forall>d. d < helper_of h p \<or> helper_of h p + 8 \<le> d \<longrightarrow> m' d = m d)"
proof -
  from assms(1) obtain n where xs: "fseg m h a xs p" and p: "p \<noteq> 0" "ptr_ok p" "h p \<noteq> None" "holds m (helper_of h p) (helper n s e)"
    and p0: "helper_of h p \<noteq> 0" by (auto simp: fseg_append)
  from helper_set [OF p(4)] obtain m' where m': "set_rh_next m (helper_of h p) k = Inr m'" "holds m' (helper_of h p) (helper k s e)"
    "\<forall>d. d < helper_of h p \<or> helper_of h p + 8 \<le> d \<longrightarrow> m' d = m d" by blast
  have "fseg m' h a xs p" by (rule fseg_set_other [OF xs assms(2) _ _ assms(4) m'(3)]) (use assms(3) in auto)
  with p p0 m' assms(5) show ?thesis by (auto simp: fseg_append)
qed

text \<open>
  The place of the fragment \<open>(s, e)\<close> in the list, with the code's \<^verbatim>\<open>valid\<close>; \<open>pe\<close> is the end of the
  fragment before, if there is one. \<open>None\<close> when the fragment is thrown away.
\<close>

fun place :: "u16 \<Rightarrow> u16 \<Rightarrow> u16 option \<Rightarrow> bool \<Rightarrow> frag list \<Rightarrow> (nat \<times> bool) option" where
  "place s e pe v [] = Some (0, v \<and> (case pe of None \<Rightarrow> True | Some x \<Rightarrow> x = s))"
| "place s e pe v ((p, a, b) # fs) =
     (if s < a then (case pe of Some x \<Rightarrow> if s < x \<or> a < e then None else Some (0, v) | None \<Rightarrow> Some (0, v))
      else if s = a \<or> s < b then None
      else map_option (\<lambda>(k, v1). (Suc k, v1)) (place s e (Some b) (case pe of Some x \<Rightarrow> v \<and> x = a | None \<Rightarrow> v) fs))"

definition insert_at :: "nat \<Rightarrow> 'b \<Rightarrow> 'b list \<Rightarrow> 'b list" where
  "insert_at k x xs = take k xs @ x # drop k xs"

text \<open>The loop and the append, in the order of the code.\<close>

definition chain_place :: "nat \<Rightarrow> 'a ip_st_scheme \<Rightarrow> addr \<Rightarrow> addr \<Rightarrow> addr \<Rightarrow> addr \<Rightarrow> addr \<Rightarrow> bool \<Rightarrow> (bool option \<times> 'a ip_st_scheme) res" where
  "chain_place fuel st ipr new_p hn q prev valid =
     rbind (chain_walk fuel st ipr new_p hn q prev valid) (\<lambda>(pl, st2).
       case pl of
         None \<Rightarrow> Inr (None, st2)
       | Some (q, prev, valid) \<Rightarrow> rbind (chain_append st2 ipr new_p hn q prev valid) (\<lambda>(valid1, st3). Inr (Some valid1, st3)))"

definition prev_of :: "(addr \<rightharpoonup> pbuf) \<Rightarrow> frag list \<Rightarrow> addr" where
  "prev_of h dn = (if dn = [] then 0 else helper_of h (fst (last dn)))"

definition end_of :: "frag list \<Rightarrow> u16 option" where
  "end_of dn = (if dn = [] then None else Some (snd (snd (last dn))))"

lemma prev_of_snoc [simp]: "prev_of h (dn @ [f]) = helper_of h (fst f)"
  by (simp add: prev_of_def)

text \<open>What the placing leaves: the list of the datagram, with or without the new fragment.\<close>

definition placed :: "'a ip_st_scheme \<Rightarrow> addr \<Rightarrow> frag list \<Rightarrow> 'a ip_st_scheme \<Rightarrow> bool" where
  "placed st ipr fs st' \<longleftrightarrow> (\<exists>m d hp. st' = st\<lparr>bytes := m, reass := (reass st)(ipr \<mapsto> d\<lparr>rd_p := hp\<rparr>)\<rparr>
     \<and> reass st ipr = Some d \<and> fseg m (pbufs st) hp fs 0)"

lemma fseg_hd: "fseg m h a fs c \<Longrightarrow> a = (case fs of [] \<Rightarrow> c | f # _ \<Rightarrow> fst f)"
  by (cases fs) auto

lemma set_next_new:
  assumes "fseg m h hp (dn @ fs) 0" "apart h (new_p # map fst (dn @ fs))" "holds m (helper_of h new_p) (helper 0 s e)"
    "h new_p \<noteq> None \<and> helper_of h new_p \<noteq> 0" "new_p \<noteq> 0" "ptr_ok new_p" "fseg m h q fs 0" "fseg m h hp dn q"
  shows "\<exists>m'. set_rh_next m (helper_of h new_p) q = Inr m' \<and> fseg m' h new_p ((new_p, s, e) # fs) 0 \<and> fseg m' h hp dn q
     \<and> holds m' (helper_of h new_p) (helper q s e)"
proof -
  let ?ps = "new_p # map fst (dn @ fs)"
  from helper_set [OF assms(3)] obtain m' where m': "set_rh_next m (helper_of h new_p) q = Inr m'" "holds m' (helper_of h new_p) (helper q s e)"
    "\<forall>c. c < helper_of h new_p \<or> helper_of h new_p + 8 \<le> c \<longrightarrow> m' c = m c" by blast
  have n: "new_p \<notin> fst ` set (dn @ fs)" using assms(2) by (simp add: apart_def image_Un)
  have "fseg m' h hp dn q" "fseg m' h q fs 0"
    by (rule fseg_set_other [OF assms(8) assms(2) _ _ _ m'(3)], use n in auto)
      (rule fseg_set_other [OF assms(7) assms(2) _ _ _ m'(3)], use n in auto)
  moreover have "ptr_ok q" using assms(7) by (cases fs) (auto simp: ptr_ok_def)
  ultimately show ?thesis using m' assms(4-6) by auto
qed

lemma placed_same:
  "reass st ipr = Some d \<Longrightarrow> fseg m (pbufs st) (rd_p d) fs 0 \<Longrightarrow> placed st ipr fs (st\<lparr>bytes := m\<rparr>)"
proof -
  assume d: "reass st ipr = Some d" and f: "fseg m (pbufs st) (rd_p d) fs 0"
  have "d\<lparr>rd_p := rd_p d\<rparr> = d" by simp
  then have "(reass st)(ipr \<mapsto> d\<lparr>rd_p := rd_p d\<rparr>) = reass st" using d by (simp only: map_upd_triv)
  then have "st\<lparr>bytes := m\<rparr> = st\<lparr>bytes := m, reass := (reass st)(ipr \<mapsto> d\<lparr>rd_p := rd_p d\<rparr>)\<rparr>" by simp
  with d f show ?thesis unfolding placed_def by blast
qed

lemma insert_at_simps [simp]: "insert_at 0 x fs = x # fs" "insert_at (Suc k) x (f # fs) = f # insert_at k x fs"
  by (simp_all add: insert_at_def)

lemma fseg_last:
  assumes "fseg m h hp dn q" "dn \<noteq> []"
  obtains ys p a b n where "dn = ys @ [(p, a, b)]" "prev_of h dn = helper_of h p" "prev_of h dn \<noteq> 0" "end_of dn = Some b"
    "rh_end m (prev_of h dn) = Inr b"
proof -
  obtain ys p a b where dn: "dn = ys @ [(p, a, b)]" using assms(2) by (metis prod_cases3 rev_exhaust)
  with assms(1) obtain n where n: "ptr_ok n" "holds m (helper_of h p) (helper n a b)" "helper_of h p \<noteq> 0" by (auto simp: fseg_append)
  have "prev_of h dn = helper_of h p" "end_of dn = Some b" using dn by (simp_all add: prev_of_def end_of_def)
  with that dn n(3) helper_reads(3) [OF n(2,1)] show ?thesis by metis
qed

lemma fseg_end:
  assumes "fseg m h hp dn q" "end_of dn = Some b"
  shows "rh_end m (prev_of h dn) = Inr b" "prev_of h dn \<noteq> 0"
proof -
  from assms(2) have "dn \<noteq> []" by (auto simp: end_of_def)
  from fseg_last [OF assms(1) this] obtain ys p a b' where
    "end_of dn = Some b'" "rh_end m (prev_of h dn) = Inr b'" "prev_of h dn \<noteq> 0" .
  with assms(2) show "rh_end m (prev_of h dn) = Inr b" "prev_of h dn \<noteq> 0" by simp_all
qed

text \<open>Linking the last of the fragments \<open>dn\<close> to the new fragment.\<close>

lemma link_prev:
  assumes "fseg m h hp dn q" "dn \<noteq> []" "fseg m h new_p fs c" "apart h ps" "fst ` set (dn @ fs) \<subseteq> set ps" "fst ` set dn \<inter> fst ` set fs = {}"
    "distinct (map fst dn)" "ptr_ok new_p"
  shows "\<exists>m'. set_rh_next m (prev_of h dn) new_p = Inr m' \<and> fseg m' h hp (dn @ fs) c \<and> fseg m' h hp dn new_p \<and> fseg m' h new_p fs c"
proof -
  from fseg_last [OF assms(1,2)] obtain ys p a b n where dn: "dn = ys @ [(p, a, b)]" "prev_of h dn = helper_of h p" .
  have p: "p \<notin> fst ` set ys" "p \<notin> fst ` set fs" using assms(6,7) dn(1) by auto
  from fseg_relink [OF assms(1) [unfolded dn(1)] assms(4) _ p(1) assms(8)] obtain m' where
    m': "set_rh_next m (helper_of h p) new_p = Inr m'" "fseg m' h hp dn new_p" "\<forall>d. d < helper_of h p \<or> helper_of h p + 8 \<le> d \<longrightarrow> m' d = m d"
    using assms(5) dn(1) by auto
  have "fseg m' h new_p fs c"
    by (rule fseg_set_other [OF assms(3,4) _ _ p(2) m'(3)]) (use assms(5) dn(1) in auto)
  with m' dn(2) show ?thesis by (auto simp: fseg_append)
qed

lemma chain_place_spec:
  fixes st :: "'a ip_st_scheme"
  assumes "fseg (bytes st) (pbufs st) hp (dn @ fs) 0" "fseg (bytes st) (pbufs st) hp dn q" "fseg (bytes st) (pbufs st) q fs 0"
    and ap: "apart (pbufs st) (new_p # map fst (dn @ fs))"
    and new: "holds (bytes st) hn (helper 0 s e)" "hn = helper_of (pbufs st) new_p"
      "pbufs st new_p \<noteq> None \<and> helper_of (pbufs st) new_p \<noteq> 0" "new_p \<noteq> 0" "ptr_ok new_p"
    and d: "ipr \<noteq> 0" "reass st ipr = Some d" "rd_p d = hp" and f: "length fs \<le> fuel"
  shows "case place s e (end_of dn) v fs of
      None \<Rightarrow> \<exists>st'. chain_place fuel st ipr new_p hn q (prev_of (pbufs st) dn) v = Inr (None, st') \<and> placed st ipr (dn @ fs) st'
    | Some (k, v') \<Rightarrow> \<exists>st'. chain_place fuel st ipr new_p hn q (prev_of (pbufs st) dn) v = Inr (Some v', st')
        \<and> placed st ipr (dn @ insert_at k (new_p, s, e) fs) st'"
  using assms(1-3) ap f
proof (induction fs arbitrary: dn q v fuel)
  case Nil
  note ap = Nil.prems(4)
  have q: "q = 0" using Nil.prems(3) by simp
  have w: "chain_walk fuel st ipr new_p hn q pr v = Inr (Some (0, pr, v), st)" for pr using q by (cases fuel) simp_all
  show ?case
  proof (cases dn rule: rev_cases)
    case Nil
    have "placed st ipr [(new_p, s, e)] (put_reass st ipr (d\<lparr>rd_p := new_p\<rparr>))"
      unfolding placed_def put_reass_def using d new
      by (intro exI [of _ "bytes st"] exI [of _ d] exI [of _ new_p]) (auto simp: ptr_ok_def)
    then show ?thesis using w d Nil q
      by (auto simp: chain_place_def chain_append_def prev_of_def end_of_def insert_at_def upd_reass_def get_reass_def)
  next
    case (snoc ys y)
    obtain p a b where y: "y = (p, a, b)" by (cases y)
    have eb: "end_of dn = Some b" using snoc y by (simp add: end_of_def)
    note l = fseg_end(2) [OF Nil.prems(2) eb] eb
    have nw: "fseg (bytes st) (pbufs st) new_p [(new_p, s, e)] 0" using new by (auto simp: ptr_ok_def)
    have "\<exists>m'. set_rh_next (bytes st) (prev_of (pbufs st) dn) new_p = Inr m' \<and> fseg m' (pbufs st) hp (dn @ [(new_p, s, e)]) 0
        \<and> fseg m' (pbufs st) hp dn new_p \<and> fseg m' (pbufs st) new_p [(new_p, s, e)] 0"
      by (rule link_prev [OF Nil.prems(2) _ nw ap]) (use snoc Nil.prems(4) new(5) in \<open>auto simp: apart_def\<close>)
    then obtain m' where m': "set_rh_next (bytes st) (prev_of (pbufs st) dn) new_p = Inr m'" "fseg m' (pbufs st) hp (dn @ [(new_p, s, e)]) 0"
      "fseg m' (pbufs st) hp dn new_p" "fseg m' (pbufs st) new_p [(new_p, s, e)] 0" by blast
    have "rh_end m' (prev_of (pbufs st) dn) = Inr b" by (rule fseg_end(1) [OF m'(3) eb])
    moreover have "rh_start m' hn = Inr s" using m'(4) new(2) helper_reads(2) by auto
    moreover have "placed st ipr (dn @ [(new_p, s, e)]) (st\<lparr>bytes := m'\<rparr>)" using placed_same d(2,3) m'(2) by blast
    ultimately show ?thesis using w q l m'(1) by (auto simp: chain_place_def chain_append_def)
  qed
next
  case (Cons f fs)
  obtain p a b where y: "f = (p, a, b)" by (cases f)
  let ?P = "prev_of (pbufs st) dn" and ?m = "bytes st"
  from Cons.prems(3) y obtain n where q: "q = p" "p \<noteq> 0" "ptr_ok p" "pbufs st p \<noteq> None" "helper_of (pbufs st) p \<noteq> 0"
    and n: "ptr_ok n" "holds ?m (helper_of (pbufs st) p) (helper n a b)" "fseg ?m (pbufs st) n fs 0" by auto
  from q(4) obtain bb where bb: "get_pbuf st q = Inr bb" "payload bb = helper_of (pbufs st) p"
    using q(1,2) by (auto simp: get_pbuf_def helper_of_def)
  note r = helper_reads [OF n(2,1)]
  have rn: "rh_start ?m hn = Inr s" using helper_reads(2) [OF new(1)] by (simp add: ptr_ok_def)
  obtain fuel' where fuel: "fuel = Suc fuel'" "length fs \<le> fuel'" using Cons.prems(5) by (cases fuel) auto
  have pv: "?P = 0 \<longleftrightarrow> dn = []" using fseg_last [OF Cons.prems(2)] by (metis prev_of_def)
  consider "s < a" | "\<not> s < a" "s = a \<or> s < b" | "\<not> s < a" "s \<noteq> a" "\<not> s < b" by blast
  then show ?case
  proof cases
    case 1
    from set_next_new [OF Cons.prems(1,4) new(1) [unfolded new(2)] new(3,4,5) Cons.prems(3,2)] obtain m1 where
      m1: "set_rh_next ?m hn q = Inr m1" "fseg m1 (pbufs st) new_p ((new_p, s, e) # f # fs) 0" "fseg m1 (pbufs st) hp dn q"
        "holds m1 hn (helper q s e)" unfolding new(2) by blast
    show ?thesis
    proof (cases "dn = []")
      case True
      have "chain_place fuel st ipr new_p hn q ?P v = Inr (Some v, st\<lparr>bytes := m1, reass := (reass st)(ipr \<mapsto> d\<lparr>rd_p := new_p\<rparr>)\<rparr>)"
        using 1 q bb r rn fuel(1) True m1(1) d
        by (simp add: chain_place_def chain_append_def Let_def prev_of_def upd_reass_def get_reass_def put_reass_def)
      moreover have "placed st ipr (dn @ (new_p, s, e) # f # fs) (st\<lparr>bytes := m1, reass := (reass st)(ipr \<mapsto> d\<lparr>rd_p := new_p\<rparr>)\<rparr>)"
        unfolding placed_def using True d(2) m1(2) by auto
      ultimately show ?thesis using 1 y True by (simp add: end_of_def)
    next
      case False
      then obtain x where x: "end_of dn = Some x" by (auto simp: end_of_def)
      note pe = fseg_end [OF m1(3) x]
      have e: "rh_end m1 hn = Inr e" using helper_reads(3) [OF m1(4)] q by simp
      show ?thesis
      proof (cases "s < x \<or> a < e")
        case True
        have "chain_place fuel st ipr new_p hn q ?P v = Inr (None, st\<lparr>bytes := m1\<rparr>)"
          using 1 True q bb r rn fuel(1) m1(1) pe e by (simp add: chain_place_def Let_def)
        moreover have "fseg m1 (pbufs st) q (f # fs) 0"
        proof -
          from m1(2) obtain k where k: "fseg m1 (pbufs st) k (f # fs) 0" by auto
          then have "k = q" using y q(1) by auto
          with k show ?thesis by simp
        qed
        then have "placed st ipr (dn @ f # fs) (st\<lparr>bytes := m1\<rparr>)"
          using m1(3) d(3) by (intro placed_same [OF d(2)]) (auto simp: fseg_append)
        ultimately show ?thesis using 1 True y x by auto
      next
        case no: False
        have "\<exists>m'. set_rh_next m1 ?P new_p = Inr m' \<and> fseg m' (pbufs st) hp (dn @ (new_p, s, e) # f # fs) 0
            \<and> fseg m' (pbufs st) hp dn new_p \<and> fseg m' (pbufs st) new_p ((new_p, s, e) # f # fs) 0"
          by (rule link_prev [OF m1(3) False m1(2) Cons.prems(4)]) (use Cons.prems(4) new(5) in \<open>auto simp: apart_def\<close>)
        then obtain m2 where m2: "set_rh_next m1 ?P new_p = Inr m2" "fseg m2 (pbufs st) hp (dn @ (new_p, s, e) # f # fs) 0" by blast
        have "chain_place fuel st ipr new_p hn q ?P v = Inr (Some v, st\<lparr>bytes := m2\<rparr>)"
          using 1 no q bb r rn fuel(1) m1(1) m2(1) pe e by (simp add: chain_place_def chain_append_def Let_def)
        moreover have "placed st ipr (dn @ (new_p, s, e) # f # fs) (st\<lparr>bytes := m2\<rparr>)"
          using placed_same d(2,3) m2(2) by blast
        ultimately show ?thesis using 1 no y x by auto
      qed
    qed
  next
    case 2
    have "placed st ipr (dn @ f # fs) (st\<lparr>bytes := ?m\<rparr>)" using placed_same d(2,3) Cons.prems(1) by blast
    moreover have "chain_walk fuel st ipr new_p hn q ?P v = Inr (None, st)"
      using 2 q bb r rn fuel(1) by (auto simp: Let_def)
    ultimately show ?thesis using 2 y by (auto simp: chain_place_def)
  next
    case 3
    let ?v = "case end_of dn of Some x \<Rightarrow> v \<and> x = a | None \<Rightarrow> v"
    have w: "chain_place fuel st ipr new_p hn q ?P v = chain_place fuel' st ipr new_p hn n (prev_of (pbufs st) (dn @ [f])) ?v"
    proof (cases "end_of dn")
      case None
      then have "?P = 0" by (simp add: end_of_def prev_of_def split: if_splits)
      with 3 None q bb r rn fuel(1) y show ?thesis by (simp add: chain_place_def Let_def)
    next
      case (Some x)
      note x = fseg_end [OF Cons.prems(2) Some]
      from 3 Some x q bb r rn fuel(1) y show ?thesis by (simp add: chain_place_def Let_def)
    qed
    have s: "fseg ?m (pbufs st) hp ((dn @ [f]) @ fs) 0" using Cons.prems(1) by simp
    have s2: "fseg ?m (pbufs st) hp (dn @ [f]) n" using Cons.prems(2) y q n by (auto simp: fseg_append)
    have s3: "apart (pbufs st) (new_p # map fst ((dn @ [f]) @ fs))" using Cons.prems(4) by simp
    have e: "end_of (dn @ [f]) = Some b" using y by (simp add: end_of_def)
    from Cons.IH [OF s s2 n(3) s3 fuel(2), of ?v] show ?thesis
      using 3 y unfolding w e by (auto split: option.splits)
  qed
qed

section \<open>The validation\<close>

abbreviation f_start :: "frag \<Rightarrow> u16" where "f_start x \<equiv> fst (snd x)"
abbreviation f_end :: "frag \<Rightarrow> u16" where "f_end x \<equiv> snd (snd x)"

fun adj_from :: "u16 option \<Rightarrow> frag list \<Rightarrow> bool" where
  "adj_from pe [] = True"
| "adj_from pe (f # fs) = ((case pe of Some x \<Rightarrow> x = f_start f | None \<Rightarrow> True) \<and> adj_from (Some (f_end f)) fs)"

lemma adj_from_nth:
  "adj_from pe fs \<longleftrightarrow> (case pe of Some x \<Rightarrow> fs \<noteq> [] \<longrightarrow> x = f_start (fs ! 0) | None \<Rightarrow> True)
     \<and> (\<forall>i. Suc i < length fs \<longrightarrow> f_end (fs ! i) = f_start (fs ! Suc i))"
proof (induction fs arbitrary: pe)
  case (Cons f fs)
  have "(\<forall>i. Suc i < length (f # fs) \<longrightarrow> f_end ((f # fs) ! i) = f_start ((f # fs) ! Suc i))
    \<longleftrightarrow> (fs \<noteq> [] \<longrightarrow> f_end f = f_start (fs ! 0)) \<and> (\<forall>i. Suc i < length fs \<longrightarrow> f_end (fs ! i) = f_start (fs ! Suc i))"
    by (auto simp: nth_Cons split: nat.splits)
  with Cons.IH [of "Some (f_end f)"] show ?case by (auto split: option.splits)
qed (simp split: option.splits)

lemma place_valid:
  "place s e pe v fs = Some (k, v') \<Longrightarrow> k \<le> length fs
     \<and> (v' \<longleftrightarrow> v \<and> adj_from pe (take k fs @ (if k = length fs then [(0, s, e)] else [])))"
proof (induction s e pe v fs arbitrary: k v' rule: place.induct)
  case (2 s e pe v p a b fs)
  show ?case
  proof (cases "s < a")
    case True
    with 2(2) show ?thesis by (auto split: option.splits if_splits)
  next
    case False
    with 2(2) obtain k1 where k: "k = Suc k1" "s \<noteq> a" "\<not> s < b"
      "place s e (Some b) (case pe of Some x \<Rightarrow> v \<and> x = a | None \<Rightarrow> v) fs = Some (k1, v')"
      by (auto split: if_splits)
    from 2(1) [OF False _ k(4)] k False show ?thesis by (auto split: option.splits)
  qed
qed (auto split: option.splits)

lemma holes_walk_spec:
  assumes "fseg (bytes st) (pbufs st) q fs 0" "rh_end (bytes st) prev = Inr pe" "length fs \<le> fuel"
  shows "holes_walk fuel st prev q = Inr (adj_from (Some pe) fs)"
  using assms
proof (induction fs arbitrary: q prev pe fuel)
  case Nil
  then show ?case by (cases fuel) auto
next
  case (Cons f fs)
  obtain p a b where f: "f = (p, a, b)" by (cases f)
  from Cons.prems(1) f obtain n where q: "q = p" "p \<noteq> 0" "pbufs st p \<noteq> None"
    and n: "ptr_ok n" "holds (bytes st) (helper_of (pbufs st) p) (helper n a b)" "fseg (bytes st) (pbufs st) n fs 0" by auto
  from q obtain bb where bb: "get_pbuf st q = Inr bb" "payload bb = helper_of (pbufs st) p" by (auto simp: get_pbuf_def helper_of_def)
  obtain fuel' where fuel: "fuel = Suc fuel'" "length fs \<le> fuel'" using Cons.prems(3) by (cases fuel) auto
  note r = helper_reads [OF n(2,1)]
  from Cons.IH [OF n(3) r(3) fuel(2)] show ?case using q bb r fuel(1) f Cons.prems(2) by auto
qed

lemma chain_frag_place:
  "ip_reass_chain_frag_into_datagram_and_validate st ipr new_p =
     rbind (get_pbuf st new_p) (\<lambda>b. let h = payload b in
     rbind (rd16 (bytes st) (h + 2)) (\<lambda>iplen. rbind (rd8 (bytes st) h) (\<lambda>vhl. rbind (rd16 (bytes st) (h + 6)) (\<lambda>off.
     let len = lwip_ntohs iplen - ucast (vhl AND 0x0f) * 4; offset = (lwip_ntohs off AND IP_OFFMASK) * 8 in
     rbind (fill_helper (bytes st) h offset len) (\<lambda>m. let st1 = st\<lparr>bytes := m\<rparr> in
     rbind (get_reass st1 ipr) (\<lambda>d.
     rbind (chain_place frag_fuel st1 ipr new_p h (rd_p d) 0 True) (\<lambda>(pl, st2).
       case pl of
         None \<Rightarrow>
           rbind (pbuf_clen st2 new_p) (\<lambda>clen.
           rbind (free_only (st2\<lparr>ip_reass_pbufcount := ip_reass_pbufcount st2 - ucast clen\<rparr>) new_p) (\<lambda>st3. Inr (False, st3)))
       | Some valid1 \<Rightarrow> rbind (chain_validate st2 ipr h valid1) (\<lambda>valid2. Inr (valid2, st2)))))))))"
  unfolding ip_reass_chain_frag_into_datagram_and_validate_def chain_place_def Let_def rbind_assoc
  by (intro rbind_cong refl) (auto simp: rbind_assoc intro!: rbind_cong split: option.splits prod.splits)

lemma fill_helper_spec:
  assumes "holds m h f" "8 \<le> length f"
  shows "\<exists>m'. fill_helper m h off len = Inr m' \<and> holds m' h (helper 0 off (off + len)) \<and> (\<forall>d. d < h \<or> h + 8 \<le> d \<longrightarrow> m' d = m d)"
proof -
  define t where "t = drop 8 f"
  obtain a b c where f: "f = (a @ b @ c) @ t" "length a = 4" "length b = 2" "length c = 2"
  proof
    have "take 4 f @ take 2 (drop 4 f) @ take 2 (drop 6 f) = take 8 f"
      using take_add [of 4 4 f] take_add [of 2 2 "drop 4 f"] by simp
    then show "f = (take 4 f @ take 2 (drop 4 f) @ take 2 (drop 6 f)) @ t" by (simp add: t_def)
  qed (use assms(2) in auto)
  note [simp] = bytes16_len f(2-4)
  have h0: "holds m h ([] @ a @ (b @ c @ t))" using assms(1) f(1) by simp
  obtain m1 where m1: "wr32 m h 0 = Inr m1" "holds m1 h ((bytes32 0) @ b @ (c @ t))" "\<forall>d. d < h \<or> h + 4 \<le> d \<longrightarrow> m1 d = m d"
    using wr_mid [OF h0, of "bytes32 0" h] wr_bytes_Inr [of m h "bytes32 0"] by (auto simp: wr32_def)
  obtain m2 where m2: "wr16 m1 (h + 4) off = Inr m2" "holds m2 h ((bytes32 0 @ bytes16 off) @ c @ t)" "\<forall>d. d < h + 4 \<or> h + 4 + 2 \<le> d \<longrightarrow> m2 d = m1 d"
    using wr_mid [OF m1(2), of "bytes16 off" "h + 4"] wr_bytes_Inr [of m1 "h + 4" "bytes16 off"] by (auto simp: wr16_def)
  obtain m3 where m3: "wr16 m2 (h + 6) (off + len) = Inr m3" "holds m3 h ((bytes32 0 @ bytes16 off) @ bytes16 (off + len) @ t)"
    "\<forall>d. d < h + 6 \<or> h + 6 + 2 \<le> d \<longrightarrow> m3 d = m2 d"
    using wr_mid [OF m2(2), of "bytes16 (off + len)" "h + 6"] wr_bytes_Inr [of m2 "h + 6" "bytes16 (off + len)"] by (auto simp: wr16_def)
  have "holds m3 h (helper 0 off (off + len))" using m3(2) by (simp add: helper_def holds_append)
  moreover have "\<forall>d. d < h \<or> h + 8 \<le> d \<longrightarrow> m3 d = m d" using m1(3) m2(3) m3(3) by auto
  ultimately show ?thesis using m1(1) m2(1) m3(1) by (auto simp: fill_helper_def set_rh_next_def)
qed

abbreviation sorted_frags :: "frag list \<Rightarrow> bool" where
  "sorted_frags \<equiv> sorted_wrt (\<lambda>x y. f_start x < f_start y)"

lemma place_pos:
  "place s e pe v fs = Some (k, v') \<Longrightarrow> (\<forall>f \<in> set (take k fs). f_start f < s) \<and> (k < length fs \<longrightarrow> s < f_start (fs ! k))"
proof (induction s e pe v fs arbitrary: k v' rule: place.induct)
  case (2 s e pe v p a b fs)
  show ?case
  proof (cases "s < a")
    case True
    with 2(2) show ?thesis by (auto split: option.splits if_splits)
  next
    case False
    with 2(2) obtain k1 where k: "k = Suc k1" "s \<noteq> a" "\<not> s < b"
      "place s e (Some b) (case pe of Some x \<Rightarrow> v \<and> x = a | None \<Rightarrow> v) fs = Some (k1, v')"
      by (auto split: if_splits)
    from 2(1) [OF False _ k(4)] k False show ?thesis by auto
  qed
qed auto

lemma place_sorted:
  assumes "place s e pe v fs = Some (k, v')" "sorted_frags fs" "k \<le> length fs"
  shows "sorted_frags (insert_at k (p, s, e) fs)"
proof -
  note pos = place_pos [OF assms(1)]
  have srt: "sorted_frags (take k fs)" "sorted_frags (drop k fs)" "\<forall>x \<in> set (take k fs). \<forall>y \<in> set (drop k fs). f_start x < f_start y"
  proof -
    from assms(2) have "sorted_frags (take k fs @ drop k fs)" by simp
    then have "sorted_frags (take k fs) \<and> sorted_frags (drop k fs) \<and> (\<forall>x \<in> set (take k fs). \<forall>y \<in> set (drop k fs). f_start x < f_start y)"
      unfolding sorted_wrt_append .
    then show "sorted_frags (take k fs)" "sorted_frags (drop k fs)" "\<forall>x \<in> set (take k fs). \<forall>y \<in> set (drop k fs). f_start x < f_start y"
      by blast+
  qed
  have "\<forall>y \<in> set (drop k fs). s < f_start y"
  proof (cases "k < length fs")
    case True
    then have d: "drop k fs = fs ! k # drop (Suc k) fs" by (simp add: Cons_nth_drop_Suc)
    have "s < f_start (fs ! k)" using pos True by blast
    then show ?thesis using srt(2) unfolding d by auto
  qed simp
  then show ?thesis using srt pos unfolding insert_at_def by (auto simp: sorted_wrt_append)
qed

lemma place_None:
  "place s e pe v fs = None \<Longrightarrow> (\<exists>x. pe = Some x \<and> s < x)
     \<or> (\<exists>f \<in> set fs. f_start f \<le> s \<and> s < f_end f \<or> f_start f = s \<or> s < f_start f \<and> f_start f < e)"
proof (induction s e pe v fs rule: place.induct)
  case (2 s e pe v p a b fs)
  show ?case
  proof (cases "s < a")
    case True
    with 2(2) show ?thesis by (auto split: option.splits if_splits)
  next
    case False
    show ?thesis
    proof (cases "s = a \<or> s < b")
      case True
      with False show ?thesis by auto
    next
      case no: False
      with False 2(2) have "place s e (Some b) (case pe of Some x \<Rightarrow> v \<and> x = a | None \<Rightarrow> v) fs = None" by simp
      from 2(1) [OF False no this] no show ?thesis by auto
    qed
  qed
qed simp

lemma adj_from_last: "adj_from pe (xs @ [(a, s, e)]) = adj_from pe (xs @ [(b, s, e)])"
  by (induction xs arbitrary: pe) (simp_all split: option.splits)

lemma adj_split:
  assumes "k \<le> length fs"
  shows "adj_from None (take k fs @ (if k = length fs then [x] else [])) \<and> adj_from None (x # drop k fs)
    \<longleftrightarrow> (\<forall>i. Suc i < length (insert_at k x fs) \<longrightarrow>
          Suc i = k \<and> k < length fs \<or> f_end (insert_at k x fs ! i) = f_start (insert_at k x fs ! Suc i))"
    (is "?A \<and> ?B \<longleftrightarrow> ?C")
proof (cases "k = length fs")
  case True
  then show ?thesis by (simp add: adj_from_nth insert_at_def)
next
  case False
  let ?L = "insert_at k x fs"
  have A: "?A \<longleftrightarrow> (\<forall>i. Suc i < k \<longrightarrow> f_end (?L ! i) = f_start (?L ! Suc i))"
    using False assms by (auto simp: adj_from_nth insert_at_def nth_append)
  have B: "?B \<longleftrightarrow> (\<forall>i. Suc (k + i) < length ?L \<longrightarrow> f_end (?L ! (k + i)) = f_start (?L ! Suc (k + i)))"
    using assms by (simp add: adj_from_nth insert_at_def nth_append less_diff_conv add.commute Suc_diff_le)
  show ?thesis
  proof
    assume ab: "?A \<and> ?B"
    show ?C
    proof (intro allI impI)
      fix i assume i: "Suc i < length ?L"
      consider "Suc i < k" | "Suc i = k" | "k \<le> i" by linarith
      then show "Suc i = k \<and> k < length fs \<or> f_end (?L ! i) = f_start (?L ! Suc i)"
      proof cases
        case 3
        then obtain j where "i = k + j" using le_Suc_ex by blast
        with ab i show ?thesis unfolding B by auto
      qed (use ab False assms A in auto)
    qed
  next
    assume c: ?C
    have len: "length ?L = Suc (length fs)" using assms by (simp add: insert_at_def)
    have "f_end (?L ! i) = f_start (?L ! Suc i)" if "Suc i < k" for i
    proof -
      have "Suc i < length ?L" "Suc i \<noteq> k" using that assms len by linarith+
      with c show ?thesis by blast
    qed
    moreover have "f_end (?L ! (k + i)) = f_start (?L ! Suc (k + i))" if "Suc (k + i) < length ?L" for i
    proof -
      have "Suc (k + i) \<noteq> k" by linarith
      with c that show ?thesis by blast
    qed
    ultimately show "?A \<and> ?B" unfolding A B by blast
  qed
qed

lemma placed_bytes: "placed (st\<lparr>bytes := m\<rparr>) ipr fs st' \<Longrightarrow> placed st ipr fs st'"
  by (auto simp: placed_def)

text \<open>Whether the code takes the datagram for complete.\<close>

lemma chain_validate_spec:
  assumes pl: "placed st ipr (insert_at k (p, s, e) fs) st'" and d: "ipr \<noteq> 0" "reass st ipr = Some d"
    and k: "k \<le> length fs" "length fs \<le> frag_fuel"
  shows "chain_validate st' ipr (helper_of (pbufs st) p) v = Inr (rd_flags d AND IP_REASS_FLAG_LASTFRAG \<noteq> 0 \<and> v
    \<and> f_start (hd (insert_at k (p, s, e) fs)) = 0 \<and> adj_from None ((p, s, e) # drop k fs))"
proof -
  let ?L = "insert_at k (p, s, e) fs"
  from pl d obtain m hp where st': "st' = st\<lparr>bytes := m, reass := (reass st)(ipr \<mapsto> d\<lparr>rd_p := hp\<rparr>)\<rparr>" and L: "fseg m (pbufs st) hp ?L 0"
    by (auto simp: placed_def)
  have "?L \<noteq> []" by (simp add: insert_at_def)
  then obtain q a b ys where q: "?L = (q, a, b) # ys" by (metis list.exhaust prod_cases3)
  with L obtain n0 where q0: "hp = q" "q \<noteq> 0" "pbufs st q \<noteq> None" "ptr_ok n0" "holds m (helper_of (pbufs st) q) (helper n0 a b)" by auto
  then obtain bb where bb: "get_pbuf st' hp = Inr bb" "payload bb = helper_of (pbufs st) q"
    using st' by (auto simp: get_pbuf_def helper_of_def)
  have start: "rh_start m (payload bb) = Inr a" using helper_reads(2) [OF q0(5,4)] bb by simp
  from L obtain j where "fseg m (pbufs st) j ((p, s, e) # drop k fs) 0" by (auto simp: insert_at_def fseg_append)
  then obtain n where n: "ptr_ok n" "holds m (helper_of (pbufs st) p) (helper n s e)" "fseg m (pbufs st) n (drop k fs) 0" by auto
  have hw: "holes_walk frag_fuel st' (helper_of (pbufs st) p) n = Inr (adj_from (Some e) (drop k fs))"
    by (rule holes_walk_spec) (use n k helper_reads(3) [OF n(2,1)] st' in auto)
  have g: "get_reass st' ipr = Inr (d\<lparr>rd_p := hp\<rparr>)" using st' d by (simp add: get_reass_def)
  show ?thesis
    using g bb start hw helper_reads(1) [OF n(2,1)] st' q by (simp add: chain_validate_def)
qed

lemma chain_frag_cases:
  assumes fs: "fseg (bytes st) (pbufs st) (rd_p d) fs 0" "sorted_frags fs" "length fs < frag_fuel"
    and ap: "apart (pbufs st) (p # map fst fs)"
    and p: "get_pbuf st p = Inr b" "payload b \<noteq> 0" "ptr_ok p" "holds (bytes st) (payload b) f" "length f = 20"
    and d: "ipr \<noteq> 0" "reass st ipr = Some d"
    and s: "s = (hdr_offset f AND IP_OFFMASK) * 8" "e = s + (lwip_ntohs (le16 (f ! 2) (f ! 3)) - ucast (f ! 0 AND 0x0f) * 4)"
  shows "(\<exists>st1. placed st ipr fs st1
      \<and> (\<exists>x \<in> set fs. f_start x \<le> s \<and> s < f_end x \<or> f_start x = s \<or> s < f_start x \<and> f_start x < e)
      \<and> ip_reass_chain_frag_into_datagram_and_validate st ipr p = rbind (pbuf_clen st1 p) (\<lambda>clen.
          rbind (free_only (st1\<lparr>ip_reass_pbufcount := ip_reass_pbufcount st1 - ucast clen\<rparr>) p) (\<lambda>st2. Inr (False, st2))))
    \<or> (\<exists>k st1 L. k \<le> length fs \<and> L = insert_at k (p, s, e) fs \<and> placed st ipr L st1 \<and> sorted_frags L
      \<and> ip_reass_chain_frag_into_datagram_and_validate st ipr p = Inr (rd_flags d AND IP_REASS_FLAG_LASTFRAG \<noteq> 0
          \<and> f_start (hd L) = 0 \<and> (\<forall>i. Suc i < length L \<longrightarrow> Suc i = k \<and> k < length fs \<or> f_end (L ! i) = f_start (L ! Suc i)), st1))"
proof -
  let ?h = "payload b"
  have h: "?h = helper_of (pbufs st) p" "pbufs st p \<noteq> None" "p \<noteq> 0"
    using p(1) by (auto simp: get_pbuf_def helper_of_def split: if_splits option.splits)
  have r: "rd16 (bytes st) (?h + 2) = Inr (le16 (f ! 2) (f ! 3))" "rd8 (bytes st) ?h = Inr (f ! 0)"
    "rd16 (bytes st) (?h + 6) = Inr (le16 (f ! 6) (f ! 7))"
    using rd16_holds [OF p(4), of 2] rd16_holds [OF p(4), of 6] holds_rd8 [OF p(4), of 0] p(5) by simp_all
  from fill_helper_spec [OF p(4), of s] p(5) s(2) obtain m' where m': "fill_helper (bytes st) ?h s (e - s) = Inr m'"
    "holds m' ?h (helper 0 s e)" "\<forall>c. c < ?h \<or> ?h + 8 \<le> c \<longrightarrow> m' c = bytes st c" by fastforce
  have fs': "fseg m' (pbufs st) (rd_p d) fs 0"
    by (rule fseg_set_other [OF fs(1) ap _ _ _ m'(3) [unfolded h(1)]]) (use ap in \<open>auto simp: apart_def\<close>)
  let ?st = "st\<lparr>bytes := m'\<rparr>"
  have pl: "case place s e (end_of []) True fs of
      None \<Rightarrow> \<exists>st'. chain_place frag_fuel ?st ipr p ?h (rd_p d) (prev_of (pbufs ?st) []) True = Inr (None, st') \<and> placed ?st ipr ([] @ fs) st'
    | Some (k, v') \<Rightarrow> \<exists>st'. chain_place frag_fuel ?st ipr p ?h (rd_p d) (prev_of (pbufs ?st) []) True = Inr (Some v', st')
        \<and> placed ?st ipr ([] @ insert_at k (p, s, e) fs) st'"
    by (rule chain_place_spec [where hp = "rd_p d"]) (use fs' fs(3) ap m'(2) h p d in auto)
  have run: "ip_reass_chain_frag_into_datagram_and_validate st ipr p =
     rbind (chain_place frag_fuel ?st ipr p ?h (rd_p d) 0 True) (\<lambda>(pl, st2).
       case pl of
         None \<Rightarrow>
           rbind (pbuf_clen st2 p) (\<lambda>clen.
           rbind (free_only (st2\<lparr>ip_reass_pbufcount := ip_reass_pbufcount st2 - ucast clen\<rparr>) p) (\<lambda>st3. Inr (False, st3)))
       | Some valid1 \<Rightarrow> rbind (chain_validate st2 ipr ?h valid1) (\<lambda>valid2. Inr (valid2, st2)))"
    using p(1) r m'(1) d s by (simp add: chain_frag_place Let_def get_reass_def hdr_offset_def)
  show ?thesis
  proof (cases "place s e (end_of []) True fs")
    case None
    with pl obtain st' where "chain_place frag_fuel ?st ipr p ?h (rd_p d) 0 True = Inr (None, st')" "placed ?st ipr fs st'"
      by (auto simp: prev_of_def)
    moreover have "\<exists>x \<in> set fs. f_start x \<le> s \<and> s < f_end x \<or> f_start x = s \<or> s < f_start x \<and> f_start x < e"
      using place_None [OF None] by (simp add: end_of_def)
    ultimately show ?thesis using run placed_bytes by (intro disjI1 exI [of _ st']) auto
  next
    case (Some kv)
    obtain k v where kv: "kv = (k, v)" by (cases kv)
    let ?L = "insert_at k (p, s, e) fs"
    from pl Some kv obtain st' where c: "chain_place frag_fuel ?st ipr p ?h (rd_p d) 0 True = Inr (Some v, st')" "placed ?st ipr ?L st'"
      by (auto simp: prev_of_def)
    note v = place_valid [OF Some [unfolded kv]]
    have "chain_validate st' ipr ?h v = Inr (rd_flags d AND IP_REASS_FLAG_LASTFRAG \<noteq> 0 \<and> v \<and> f_start (hd ?L) = 0
        \<and> adj_from None ((p, s, e) # drop k fs))"
      unfolding h(1) by (rule chain_validate_spec [OF placed_bytes [OF c(2)] d]) (use v fs(3) in auto)
    moreover have "v \<and> adj_from None ((p, s, e) # drop k fs) \<longleftrightarrow>
        (\<forall>i. Suc i < length ?L \<longrightarrow> Suc i = k \<and> k < length fs \<or> f_end (?L ! i) = f_start (?L ! Suc i))"
      using v adj_split [of k fs "(p, s, e)"] adj_from_last [of None "take k fs" 0 s e p]
      by (cases "k = length fs") (simp_all add: end_of_def)
    ultimately show ?thesis
      using run c placed_bytes [OF c(2)] v place_sorted [OF Some [unfolded kv] fs(2)]
      by (intro disjI2 exI [of _ k] exI [of _ st'] exI [of _ ?L]) auto
  qed
qed

section \<open>Properties\<close>

text \<open>C30: a fragment is thrown away only when it overlaps one already there, or else put at its place among
  the fragments, which stay sorted; the datagram is then taken for complete exactly when the last
  fragment has been seen, the first starts at 0 and every fragment starts where the one before ends,
  except that a gap before a fragment put in the middle is not noticed.\<close>

theorem reass_chain_correct:
  assumes fs: "fseg (bytes st) (pbufs st) (rd_p d) fs 0" "sorted_frags fs" "length fs < frag_fuel"
    and ap: "apart (pbufs st) (p # map fst fs)"
    and p: "get_pbuf st p = Inr b" "payload b \<noteq> 0" "ptr_ok p" "holds (bytes st) (payload b) f" "length f = 20"
    and d: "ipr \<noteq> 0" "reass st ipr = Some d"
    and s: "s = (hdr_offset f AND IP_OFFMASK) * 8" "e = s + (lwip_ntohs (le16 (f ! 2) (f ! 3)) - ucast (f ! 0 AND 0x0f) * 4)"
  shows "(\<exists>st1. placed st ipr fs st1
      \<and> (\<exists>x \<in> set fs. f_start x \<le> s \<and> s < f_end x \<or> f_start x = s \<or> s < f_start x \<and> f_start x < e)
      \<and> ip_reass_chain_frag_into_datagram_and_validate st ipr p = rbind (pbuf_clen st1 p) (\<lambda>clen.
          rbind (free_only (st1\<lparr>ip_reass_pbufcount := ip_reass_pbufcount st1 - ucast clen\<rparr>) p) (\<lambda>st2. Inr (False, st2))))
    \<or> (\<exists>k st1 L. k \<le> length fs \<and> L = insert_at k (p, s, e) fs \<and> placed st ipr L st1 \<and> sorted_frags L
      \<and> ip_reass_chain_frag_into_datagram_and_validate st ipr p = Inr (rd_flags d AND IP_REASS_FLAG_LASTFRAG \<noteq> 0
          \<and> f_start (hd L) = 0 \<and> (\<forall>i. Suc i < length L \<longrightarrow> Suc i = k \<and> k < length fs \<or> f_end (L ! i) = f_start (L ! Suc i)), st1))"
  by (rule chain_frag_cases [OF assms])

text \<open>Three fragments in the memory at 300, 400 and 500 with the pbufs at 100, 110 and 120.\<close>

definition frag_hdr :: "u16 \<Rightarrow> u16 \<Rightarrow> u8 list" where
  "frag_hdr tot off = [0x45, 0] @ bytes16 (lwip_htons tot) @ bytes16 7 @ bytes16 (lwip_htons off) @ [64, 17, 0, 0]
     @ bytes32 0x0A01A8C0 @ bytes32 0xC701A8C0"

definition frag_mem :: memory where
  "frag_mem a = (if 300 \<le> a \<and> a < 308 then Some (helper 110 0 8 ! (a - 300))
     else if 400 \<le> a \<and> a < 408 then Some (helper 0 24 32 ! (a - 400))
     else if 500 \<le> a \<and> a < 520 then Some (frag_hdr 28 0x2002 ! (a - 500)) else None)"

definition frag_pbufs :: "addr \<rightharpoonup> pbuf" where
  "frag_pbufs = [100 \<mapsto> sample_pbuf 0 300 28 28 1, 110 \<mapsto> sample_pbuf 0 400 28 28 1, 120 \<mapsto> sample_pbuf 0 500 28 28 1]"

definition frag_dgram :: ip_reassdata where
  "frag_dgram = \<lparr>rd_next = 0, rd_p = 100, rd_iphdr = frag_hdr 28 0x2000, rd_datagram_len = 32, rd_flags = IP_REASS_FLAG_LASTFRAG, rd_timer = 3\<rparr>"

definition frag_st :: ip_st where
  "frag_st = (link_st.extend (sample_link frag_mem frag_pbufs pq_empty)
     (ip_st.fields Map.empty [] 0 0 0 0 0 0 0 [200 \<mapsto> frag_dgram] 200 2 Map.empty Map.empty 0 Map.empty 0 0xc000))"

lemma frag_st_simps [simp]:
  "bytes frag_st = frag_mem" "pbufs frag_st = frag_pbufs" "reass frag_st = [200 \<mapsto> frag_dgram]"
  by (simp_all add: frag_st_def sample_link_def link_st.extend_def ip_st.fields_def)

lemma frag_hdr_len: "length (frag_hdr tot off) = 20"
  by (simp add: frag_hdr_def bytes16_len)

lemma frag_mem_holds: "holds frag_mem 300 (helper 110 0 8)" "holds frag_mem 400 (helper 0 24 32)" "holds frag_mem 500 (frag_hdr 28 0x2002)"
  by (simp_all add: holds_iff_nth frag_mem_def frag_hdr_len)

lemma frag_st_list:
  "fseg (bytes frag_st) (pbufs frag_st) (rd_p frag_dgram) [(100, 0, 8), (110, 24, 32)] 0"
  "apart (pbufs frag_st) (120 # map fst [(100 :: addr, 0 :: u16, 8 :: u16), (110, 24, 32)])"
proof -
  have h: "helper_of frag_pbufs 100 = 300" "helper_of frag_pbufs 110 = 400" "helper_of frag_pbufs 120 = 500"
    "frag_pbufs 100 \<noteq> None" "frag_pbufs 110 \<noteq> None"
    by (simp_all add: helper_of_def frag_pbufs_def sample_pbuf_def)
  show "fseg (bytes frag_st) (pbufs frag_st) (rd_p frag_dgram) [(100, 0, 8), (110, 24, 32)] 0"
    using frag_mem_holds(1,2) h by (auto simp: frag_dgram_def ptr_ok_def intro!: exI [of _ "110 :: addr"] exI [of _ "0 :: addr"])
  show "apart (pbufs frag_st) (120 # map fst [(100 :: addr, 0 :: u16, 8 :: u16), (110, 24, 32)])"
    using h by (auto simp: apart_def)
qed

lemma frag_st_new:
  "get_pbuf frag_st 120 = Inr (sample_pbuf 0 500 28 28 1)" "payload (sample_pbuf 0 500 28 28 1) = 500"
  "hdr_offset (frag_hdr 28 0x2002) = 0x2002" "le16 (frag_hdr 28 0x2002 ! 2) (frag_hdr 28 0x2002 ! 3) = lwip_htons 28"
  "frag_hdr 28 0x2002 ! 0 = 0x45"
  by (simp_all add: get_pbuf_def frag_pbufs_def sample_pbuf_def hdr_offset_def frag_hdr_def bytes16_def le16_def lwip_htons_def lwip_ntohs_def)

theorem reass_chain_correct_witness:
  "\<exists>st1. ip_reass_chain_frag_into_datagram_and_validate frag_st 200 120 = Inr (True, st1)
     \<and> placed frag_st 200 [(100, 0, 8), (120, 16, 24), (110, 24, 32)] st1"
proof -
  let ?fs = "[(100 :: addr, 0 :: u16, 8 :: u16), (110, 24, 32)]"
  have d: "reass frag_st 200 = Some frag_dgram" by simp
  have se: "(16 :: u16) = (hdr_offset (frag_hdr 28 0x2002) AND IP_OFFMASK) * 8"
    "(24 :: u16) = 16 + (lwip_ntohs (le16 (frag_hdr 28 0x2002 ! 2) (frag_hdr 28 0x2002 ! 3)) - ucast (frag_hdr 28 0x2002 ! 0 AND 0x0f) * 4)"
    by (simp_all add: frag_st_new IP_OFFMASK_def lwip_ntohs_htons)
  have g: "\<not> (\<exists>x \<in> set ?fs. f_start x \<le> 16 \<and> 16 < f_end x \<or> f_start x = 16 \<or> 16 < f_start x \<and> f_start x < 24)" by simp
  have k1: "k = 1" if "k \<le> length ?fs" "sorted_frags (insert_at k (120, 16, 24) ?fs)" for k
  proof -
    from that(1) consider "k = 0" | "k = 1" | "k = 2" by fastforce
    then show ?thesis using that(2) by cases (simp_all add: insert_at_def)
  qed
  have ok: "\<forall>i. Suc i < 3 \<longrightarrow> Suc i = 1 \<and> (1 :: nat) < 2 \<or> f_end ([(100, 0, 8), (120, 16, 24), (110 :: addr, 24 :: u16, 32 :: u16)] ! i)
      = f_start ([(100, 0, 8), (120, 16, 24), (110, 24, 32)] ! Suc i)" by (auto simp: less_Suc_eq numeral_3_eq_3)
  have x: "sorted_frags ?fs" "length ?fs < frag_fuel" "payload (sample_pbuf 0 500 28 28 1) \<noteq> 0" "ptr_ok 120"
    "holds (bytes frag_st) (payload (sample_pbuf 0 500 28 28 1)) (frag_hdr 28 0x2002)" "length (frag_hdr 28 0x2002) = 20" "(200 :: addr) \<noteq> 0"
    using frag_mem_holds(3) by (simp_all add: frag_st_new(2) frag_fuel_def ptr_ok_def frag_hdr_len)
  from reass_chain_correct [OF frag_st_list(1) x(1,2) frag_st_list(2) frag_st_new(1) x(3-7) d se] g
  obtain k st1 where k: "k \<le> length ?fs" "placed frag_st 200 (insert_at k (120, 16, 24) ?fs) st1" "sorted_frags (insert_at k (120, 16, 24) ?fs)"
    and run: "ip_reass_chain_frag_into_datagram_and_validate frag_st 200 120 = Inr (rd_flags frag_dgram AND IP_REASS_FLAG_LASTFRAG \<noteq> 0
      \<and> f_start (hd (insert_at k (120, 16, 24) ?fs)) = 0 \<and> (\<forall>i. Suc i < length (insert_at k (120, 16, 24) ?fs) \<longrightarrow>
        Suc i = k \<and> k < length ?fs \<or> f_end (insert_at k (120, 16, 24) ?fs ! i) = f_start (insert_at k (120, 16, 24) ?fs ! Suc i)), st1)"
    by blast
  have L: "insert_at k (120, 16, 24) ?fs = [(100, 0, 8), (120, 16, 24), (110, 24, 32)]" using k1 [OF k(1,3)] by (simp add: insert_at_def)
  have "ip_reass_chain_frag_into_datagram_and_validate frag_st 200 120 = Inr (True, st1)"
    using run ok unfolding L k1 [OF k(1,3)] by (simp add: frag_dgram_def IP_REASS_FLAG_LASTFRAG_def)
  with k(2) show ?thesis unfolding L by blast
qed

text \<open>When the fragment that comes last is put in the middle, right before a fragment it meets, the
  datagram is taken for complete although the bytes between the fragment before and the new one have
  not arrived.\<close>

theorem reass_hole_accepted:
  assumes fs: "fseg (bytes st) (pbufs st) (rd_p d) [(p1, 0, e1), (p3, s3, e3)] 0"
    and ap: "apart (pbufs st) [p, p1, p3]"
    and p: "get_pbuf st p = Inr b" "payload b \<noteq> 0" "ptr_ok p" "holds (bytes st) (payload b) f" "length f = 20"
    and d: "ipr \<noteq> 0" "reass st ipr = Some d" "rd_flags d AND IP_REASS_FLAG_LASTFRAG \<noteq> 0"
    and s: "s = (hdr_offset f AND IP_OFFMASK) * 8" "s3 = s + (lwip_ntohs (le16 (f ! 2) (f ! 3)) - ucast (f ! 0 AND 0x0f) * 4)"
    and gap: "e1 < s" "s < s3"
  shows "\<exists>st1. ip_reass_chain_frag_into_datagram_and_validate st ipr p = Inr (True, st1)
    \<and> placed st ipr [(p1, 0, e1), (p, s, s3), (p3, s3, e3)] st1"
proof -
  let ?fs = "[(p1, 0, e1), (p3, s3, e3)]"
  have nz: "0 < s" "0 < s3" using gap by (metis word_gt_0 word_not_simps(1))+
  have srt: "sorted_frags ?fs" using nz by simp
  have k1: "k = 1" if "k \<le> length ?fs" "sorted_frags (insert_at k (p, s, s3) ?fs)" for k
  proof -
    from that(1) consider "k = 0" | "k = 1" | "k = 2" by fastforce
    then show ?thesis using that(2) gap by cases (auto simp: insert_at_def)
  qed
  have g: "\<not> (\<exists>x \<in> set ?fs. f_start x \<le> s \<and> s < f_end x \<or> f_start x = s \<or> s < f_start x \<and> f_start x < s3)" 
    using gap nz by auto
  have x: "length ?fs < frag_fuel" "apart (pbufs st) (p # map fst ?fs)" using ap by (simp_all add: frag_fuel_def)
  from chain_frag_cases [OF fs srt x p d(1,2) s] g
  obtain k st1 where k: "k \<le> length ?fs" "placed st ipr (insert_at k (p, s, s3) ?fs) st1" "sorted_frags (insert_at k (p, s, s3) ?fs)"
    and run: "ip_reass_chain_frag_into_datagram_and_validate st ipr p = Inr (rd_flags d AND IP_REASS_FLAG_LASTFRAG \<noteq> 0
      \<and> f_start (hd (insert_at k (p, s, s3) ?fs)) = 0 \<and> (\<forall>i. Suc i < length (insert_at k (p, s, s3) ?fs) \<longrightarrow>
        Suc i = k \<and> k < length ?fs \<or> f_end (insert_at k (p, s, s3) ?fs ! i) = f_start (insert_at k (p, s, s3) ?fs ! Suc i)), st1)"
    by blast
  have L: "insert_at k (p, s, s3) ?fs = [(p1, 0, e1), (p, s, s3), (p3, s3, e3)]" using k1 [OF k(1,3)] by (simp add: insert_at_def)
  have ok: "\<forall>i. Suc i < 3 \<longrightarrow> Suc i = 1 \<and> (1 :: nat) < 2 \<or> f_end ([(p1, 0, e1), (p, s, s3), (p3, s3, e3)] ! i)
      = f_start ([(p1, 0, e1), (p, s, s3), (p3, s3, e3)] ! Suc i)" by (auto simp: less_Suc_eq numeral_3_eq_3)
  have "ip_reass_chain_frag_into_datagram_and_validate st ipr p = Inr (True, st1)"
    using run ok d(3) unfolding L k1 [OF k(1,3)] by simp
  with k(2) show ?thesis unfolding L by blast
qed

theorem reass_hole_accepted_witness:
  "\<exists>st1. ip_reass_chain_frag_into_datagram_and_validate frag_st 200 120 = Inr (True, st1)"
proof -
  have x: "payload (sample_pbuf 0 500 28 28 1) \<noteq> 0" "ptr_ok 120"
    "holds (bytes frag_st) (payload (sample_pbuf 0 500 28 28 1)) (frag_hdr 28 0x2002)" "length (frag_hdr 28 0x2002) = 20" "(200 :: addr) \<noteq> 0"
    "reass frag_st 200 = Some frag_dgram" "rd_flags frag_dgram AND IP_REASS_FLAG_LASTFRAG \<noteq> 0"
    "apart (pbufs frag_st) [120, 100, 110]"
    using frag_mem_holds(3) frag_st_list(2) by (simp_all add: frag_st_new(2) ptr_ok_def frag_hdr_len frag_dgram_def IP_REASS_FLAG_LASTFRAG_def)
  have se: "(16 :: u16) = (hdr_offset (frag_hdr 28 0x2002) AND IP_OFFMASK) * 8"
    "(24 :: u16) = 16 + (lwip_ntohs (le16 (frag_hdr 28 0x2002 ! 2) (frag_hdr 28 0x2002 ! 3)) - ucast (frag_hdr 28 0x2002 ! 0 AND 0x0f) * 4)"
    by (simp_all add: frag_st_new IP_OFFMASK_def lwip_ntohs_htons)
  from reass_hole_accepted [OF frag_st_list(1) x(8) frag_st_new(1) x(1-7) se] show ?thesis by auto
qed

section \<open>Making room\<close>

lemma pbuf_more_reass:
  "pbuf_st.more st' = pbuf_st.more st \<Longrightarrow> reass st' = reass st \<and> reassdatagrams st' = reassdatagrams (st :: 'a ip_st_scheme)"
  by (cases st; cases st'; simp)

lemma free_frags_reass:
  fixes st :: "'a ip_st_scheme"
  shows "free_frags fuel st p n = Inr (k, st') \<Longrightarrow> reass st' = reass st \<and> reassdatagrams st' = reassdatagrams st"
proof (induction fuel arbitrary: st p n)
  case (Suc fuel)
  then show ?case
    by (auto simp: rbind_eq_Inr free_only_def split: if_splits dest!: pbuf_free_keeps pbuf_more_reass)
qed (auto split: if_splits)

text \<open>C40: making room frees the wrong link: when the fragment's own datagram is the oldest of three, the
  next oldest is freed but stays in the list, because \<^verbatim>\<open>prev\<close> is then this datagram itself and not the
  one before; the next timer tick dereferences the freed structure.\<close>

theorem reass_oldest_dangles:
  assumes list: "reassdatagrams st = a" "reass st a = Some da" "rd_next da = b" "reass st b = Some db" "rd_next db = c"
      "reass st c = Some dc" "rd_next dc = 0" "a \<noteq> 0" "b \<noteq> 0" "c \<noteq> 0" "a \<noteq> b"
    and f: "rd_bytes (bytes st) fraghdr IP_HLEN = Inr f" "\<not> IP_ADDRESSES_AND_ID_MATCH (rd_iphdr da) f"
      "\<not> IP_ADDRESSES_AND_ID_MATCH (rd_iphdr db) f" "IP_ADDRESSES_AND_ID_MATCH (rd_iphdr dc) f"
    and age: "rd_timer db \<le> rd_timer da" "0 < rd_timer da"
    and frag: "get_pbuf st (rd_p db) = Inr pb" "rh_start (bytes st) (payload pb) = Inr s" "s \<noteq> 0"
      "free_frags frag_fuel st (rd_p db) 0 = Inr (n, st4)" "needed \<le> unat n"
  shows "\<exists>st'. ip_reass_remove_oldest_datagram env st fraghdr needed = Inr (unat n, st') \<and> reass st' b = None
    \<and> ip_reass_tmr env st' = Inl (Dangling b)"
proof -
  have df: "dgram_fuel = Suc (Suc (Suc (Suc 2)))" by (simp add: dgram_fuel_def)
  have scan: "oldest_scan dgram_fuel st f (reassdatagrams st) 0 0 0 = Inr (b, b, 2)"
    using list f age by (simp add: df get_reass_def numeral_2_eq_2)
  from free_frags_reass [OF frag(4)] have r4: "reass st4 = reass st" "reassdatagrams st4 = a" using list(1) by simp_all
  define st' where "st' = st4\<lparr>reass := (reass st)(b := None), pools := memp_free (pools st4) MEMP_REASSDATA b,
      ip_reass_pbufcount := ip_reass_pbufcount st4 - n\<rparr>"
  have free: "ip_reass_free_complete_datagram env st b b = Inr (n, st')"
    using list frag r4
    by (simp add: ip_reass_free_complete_datagram_def get_reass_def ip_reass_dequeue_datagram_def upd_reass_def put_reass_def st'_def)
  have run: "ip_reass_remove_oldest_datagram env st fraghdr needed = Inr (unat n, st')"
    unfolding ip_reass_remove_oldest_datagram_def df remove_loop.simps
    using f(1) scan free frag(5) list(9) by (simp add: df)
  have "ip_reass_tmr env st' = Inl (Dangling b)"
    unfolding ip_reass_tmr_def df tmr_walk.simps
    using list r4 age(2) by (simp add: st'_def get_reass_def put_reass_def)
  with run show ?thesis by (auto simp: st'_def)
qed

text \<open>Three datagrams; the fragment at 500 belongs to the last.\<close>

definition three_dgrams :: ip_st where
  "three_dgrams = frag_st\<lparr>reassdatagrams := 210, reass := [210 \<mapsto> frag_dgram\<lparr>rd_next := 220, rd_iphdr := (frag_hdr 40 0x2000)[4 := 1]\<rparr>,
     220 \<mapsto> frag_dgram\<lparr>rd_next := 230, rd_p := 110, rd_iphdr := (frag_hdr 40 0x2003)[4 := 2]\<rparr>, 230 \<mapsto> frag_dgram]\<rparr>"

theorem reass_oldest_dangles_witness:
  "\<exists>n st'. ip_reass_remove_oldest_datagram sample_env three_dgrams 500 1 = Inr (n, st') \<and> ip_reass_tmr sample_env st' = Inl (Dangling 220)"
proof -
  have l: "reassdatagrams three_dgrams = 210" "reass three_dgrams 210 = Some (frag_dgram\<lparr>rd_next := 220, rd_iphdr := (frag_hdr 40 0x2000)[4 := 1]\<rparr>)"
    "reass three_dgrams 220 = Some (frag_dgram\<lparr>rd_next := 230, rd_p := 110, rd_iphdr := (frag_hdr 40 0x2003)[4 := 2]\<rparr>)"
    "reass three_dgrams 230 = Some frag_dgram" "bytes three_dgrams = frag_mem" "pbufs three_dgrams = frag_pbufs"
    by (simp_all add: three_dgrams_def)
  have f: "rd_bytes frag_mem 500 IP_HLEN = Inr (frag_hdr 28 0x2002)"
    using rd_bytes_holds [OF frag_mem_holds(3)] by (simp add: frag_hdr_len IP_HLEN_def)
  have h: "rh_start frag_mem 400 = Inr 24" "rh_next frag_mem 400 = Inr 0"
    using helper_reads [OF frag_mem_holds(2)] by (simp_all add: ptr_ok_def)
  have "\<exists>st4. free_frags frag_fuel three_dgrams 110 0 = Inr (1, st4)"
  proof -
    have fu: "chain_fuel = Suc (Suc 2046)" "frag_fuel = Suc (Suc 127)" by (simp_all add: chain_fuel_def frag_fuel_def)
    have g: "get_pbuf three_dgrams 110 = Inr (sample_pbuf 0 400 28 28 1)" by (simp add: get_pbuf_def l frag_pbufs_def)
    have c: "pbuf_clen three_dgrams 110 = Inr 1"
      unfolding pbuf_clen_def fu(1) clen_loop.simps by (simp add: g sample_pbuf_def)
    have "\<exists>st4. pbuf_free three_dgrams 110 = Inr (1, st4)"
      unfolding pbuf_free_def fu(1) pbuf_free_loop.simps by (simp add: g sample_pbuf_def)
    then show ?thesis
      unfolding fu(2) free_frags.simps by (auto simp: g l h sample_pbuf_def c free_only_def)
  qed
  then obtain st4 where st4: "free_frags frag_fuel three_dgrams 110 0 = Inr (1, st4)" ..
  from reass_oldest_dangles [OF l(1) l(2) _ l(3) _ l(4), of 500 "frag_hdr 28 0x2002" "sample_pbuf 0 400 28 28 1" 24 1 st4 1 sample_env]
  show ?thesis
    using st4 f h
    by (force simp: l frag_dgram_def get_pbuf_def frag_pbufs_def sample_pbuf_def IP_ADDRESSES_AND_ID_MATCH_def frag_hdr_def bytes16_def bytes32_def)
qed

end
