(* ===== verification/IpIn.thy ===== *)
theory IpIn
  imports Udp IpFrag
begin

text \<open>
  IP input, the function \<^verbatim>\<open>ip_input\<close> of \<^verbatim>\<open>lwip-1.4.1/src/core/ipv4/ip.c\<close>: the tests on the header, the search
  for the interface the packet is for, reassembly, and the choice of the protocol. TCP, which is above this
  layer, is the member \<open>tcp_in\<close> of the record of the protocols; it gets packet, interface, source and
  destination. \<^verbatim>\<open>IP_FORWARD\<close>, \<^verbatim>\<open>IP_OPTIONS_ALLOWED\<close> and \<^verbatim>\<open>LWIP_IGMP\<close> are 0, and no link layer addressing is
  accepted since \<^verbatim>\<open>LWIP_DHCP\<close> is 0. The function always returns \<^verbatim>\<open>ERR_OK\<close>; the result is the state.
\<close>

record 'st protocols =
  net :: "'st ip_env"
  raw_callback :: "'st raw_cb"
  udp_callback :: "'st udp_cb"
  tcp_in :: "addr \<Rightarrow> addr \<Rightarrow> u32 \<Rightarrow> u32 \<Rightarrow> 'st \<Rightarrow> 'st res"

text \<open>The loop over the interfaces: the receiving one first, then the others in the order of the list.\<close>

definition accepts :: "netif \<Rightarrow> u32 \<Rightarrow> bool" where
  "accepts x dest \<longleftrightarrow> netif_is_up x \<and> \<not> ip_addr_isany (ip_addr x) \<and> (dest = ip_addr x \<or> ip4_addr_isbroadcast dest x)"

fun find_netif :: "'a ip_st_scheme \<Rightarrow> u32 \<Rightarrow> addr list \<Rightarrow> addr res" where
  "find_netif st dest [] = Inr 0"
| "find_netif st dest (n # ns) = rbind (get_netif st n) (\<lambda>x. if accepts x dest then Inr n else find_netif st dest ns)"

text \<open>
  The tests on the header at \<open>h\<close> of the packet \<open>p\<close>: version, lengths, checksum. The result is the length
  of the header and that of the packet, \<open>None\<close> when the packet is dropped.
\<close>

definition ip_header_checks :: "'a ip_st_scheme \<Rightarrow> addr \<Rightarrow> (nat \<times> u16) option res" where
  "ip_header_checks st p =
     rbind (get_pbuf st p) (\<lambda>b. let h = payload b in
     rbind (rd8 (bytes st) h) (\<lambda>vhl.
       if drop_bit 4 vhl \<noteq> 4 then Inr None
       else let hlen = unat (vhl AND 0x0f) * 4 in
         rbind (rd16 (bytes st) (h + 2)) (\<lambda>l. let len = lwip_ntohs l in
           if unat (pb_len b) < hlen \<or> tot_len b < len then Inr None
           else rbind (inet_chksum (bytes st) h (of_nat hlen)) (\<lambda>ck.
             if ck \<noteq> 0 then Inr None else Inr (Some (hlen, len))))))"

text \<open>The packet \<open>p\<close> with its IP header at \<open>iphdr\<close> handed to its protocol.\<close>

definition ip_dispatch :: "('a ip_st_scheme) protocols \<Rightarrow> 'a ip_st_scheme \<Rightarrow> addr \<Rightarrow> addr \<Rightarrow> addr \<Rightarrow> 'a ip_st_scheme res" where
  "ip_dispatch pr st p inp iphdr =
     rbind (raw_input (raw_callback pr) st p) (\<lambda>(eaten, st1).
       if eaten then Inr st1
       else rbind (rd8 (bytes st1) (iphdr + 9)) (\<lambda>proto.
         if proto = IP_PROTO_UDP then udp_input (net pr) (udp_callback pr) st1 p inp
         else if proto = IP_PROTO_TCP then tcp_in pr p inp (current_iphdr_src st1) (current_iphdr_dest st1) st1
         else if proto = IP_PROTO_ICMP then icmp_input (net pr) st1 p inp
         else
           rbind (get_netif st1 inp) (\<lambda>x.
           rbind (if \<not> ip4_addr_isbroadcast (current_iphdr_dest st1) x \<and> \<not> ip_addr_ismulticast (current_iphdr_dest st1)
                  then rbind (upd_pbuf st1 p (\<lambda>b. b\<lparr>payload := iphdr\<rparr>)) (\<lambda>st2. icmp_dest_unreach (net pr) st2 p ICMP_DUR_PROTO)
                  else Inr st1) (\<lambda>st2. free_only st2 p))))"

text \<open>A fragment goes to reassembly, which returns the datagram or keeps the fragment (0).\<close>

definition reassemble :: "('a ip_st_scheme) ip_env \<Rightarrow> 'a ip_st_scheme \<Rightarrow> addr \<Rightarrow> (addr \<times> 'a ip_st_scheme) res" where
  "reassemble env st p =
     rbind (get_pbuf st p) (\<lambda>b. rbind (rd16 (bytes st) (payload b + 6)) (\<lambda>off.
       if off AND lwip_htons (IP_OFFMASK OR IP_MF) \<noteq> 0 then ip_reass env st p else Inr (p, st)))"

definition ip_deliver :: "('a ip_st_scheme) protocols \<Rightarrow> 'a ip_st_scheme \<Rightarrow> addr \<Rightarrow> addr \<Rightarrow> nat \<Rightarrow> 'a ip_st_scheme res" where
  "ip_deliver pr st p0 inp hlen =
     rbind (reassemble (net pr) st p0) (\<lambda>(p, st1).
       if p = 0 then Inr st1
       else if IP_HLEN < hlen then free_only st1 p
       else rbind (get_pbuf st1 p) (\<lambda>b.
         rbind (ip_dispatch pr (st1\<lparr>current_netif := inp, current_header := payload b\<rparr>) p inp (payload b)) (\<lambda>st2.
           Inr (st2\<lparr>current_netif := 0, current_header := 0, current_iphdr_src := IPADDR_ANY, current_iphdr_dest := IPADDR_ANY\<rparr>))))"

definition ip_input :: "('a ip_st_scheme) protocols \<Rightarrow> addr \<Rightarrow> addr \<Rightarrow> 'a ip_st_scheme \<Rightarrow> 'a ip_st_scheme res" where
  "ip_input pr p inp st =
     rbind (ip_header_checks st p) (\<lambda>checked.
       case checked of
         None \<Rightarrow> free_only st p
       | Some (hlen, len) \<Rightarrow>
           rbind (pbuf_realloc st p len) (\<lambda>st1. rbind (get_pbuf st1 p) (\<lambda>b.
           rbind (rd32 (bytes st1) (payload b + 16)) (\<lambda>dest. rbind (rd32 (bytes st1) (payload b + 12)) (\<lambda>src.
           let st2 = st1\<lparr>current_iphdr_dest := dest, current_iphdr_src := src\<rparr> in
           rbind (find_netif st2 dest (inp # filter (\<lambda>n. n \<noteq> inp) (netif_list st2))) (\<lambda>n.
           rbind (get_netif st2 inp) (\<lambda>x.
             if ip4_addr_isbroadcast src x \<or> ip_addr_ismulticast src \<or> n = 0 then free_only st2 p
             else ip_deliver pr st2 p inp hlen)))))))"

end
