(* ===== verification/Etharp.thy ===== *)
theory Etharp
  imports Ip
begin

text \<open>
  Address resolution: \<^verbatim>\<open>netif/etharp.c\<close>, with the frame formats of \<^verbatim>\<open>netif/etharp.h\<close>. The table is
  the list \<open>arp_table\<close> of the state. The interface's \<^verbatim>\<open>linkoutput\<close> is the argument \<open>lo\<close>; that it
  leaves the table and the state above IP alone is the locale \<open>link_device\<close>, which the Ethernet adapter
  satisfies. Queueing is on (\<^verbatim>\<open>ARP_QUEUEING\<close> 1); static entries, VLANs, address hints and learning
  from IP packets are not compiled.
\<close>

section \<open>Constants\<close>

definition ARP_TABLE_SIZE :: nat where "ARP_TABLE_SIZE = 10"
definition ARP_MAXAGE :: u8 where "ARP_MAXAGE = 240"
definition ARP_AGE_REREQUEST_USED :: u8 where "ARP_AGE_REREQUEST_USED = ARP_MAXAGE - 12"
definition ARP_MAXPENDING :: u8 where "ARP_MAXPENDING = 2"
definition HWTYPE_ETHERNET :: u16 where "HWTYPE_ETHERNET = 1"
definition ETHARP_FLAG_TRY_HARD :: u8 where "ETHARP_FLAG_TRY_HARD = 1"
definition ETHARP_FLAG_FIND_ONLY :: u8 where "ETHARP_FLAG_FIND_ONLY = 2"
definition ETHARP_HWADDR_LEN :: nat where "ETHARP_HWADDR_LEN = 6"
definition SIZEOF_ETH_HDR :: nat where "SIZEOF_ETH_HDR = 14"
definition SIZEOF_ETHARP_HDR :: nat where "SIZEOF_ETHARP_HDR = 28"
definition SIZEOF_ETHARP_PACKET :: nat where "SIZEOF_ETHARP_PACKET = SIZEOF_ETH_HDR + SIZEOF_ETHARP_HDR"
definition ETHTYPE_ARP :: u16 where "ETHTYPE_ARP = 0x0806"
definition ETHTYPE_IP :: u16 where "ETHTYPE_IP = 0x0800"
definition ARP_REQUEST :: u16 where "ARP_REQUEST = 1"
definition ARP_REPLY :: u16 where "ARP_REPLY = 2"
definition ethbroadcast :: "u8 list" where "ethbroadcast = [0xff, 0xff, 0xff, 0xff, 0xff, 0xff]"
definition ethzero :: "u8 list" where "ethzero = [0, 0, 0, 0, 0, 0]"
definition LL_MULTICAST_ADDR :: "u8 list" where "LL_MULTICAST_ADDR = [0x01, 0x00, 0x5e]"
definition PBUF_FLAG_LLBCAST :: u8 where "PBUF_FLAG_LLBCAST = 0x08"
definition PBUF_FLAG_LLMCAST :: u8 where "PBUF_FLAG_LLMCAST = 0x10"

definition state_is_stable :: "etharp_state \<Rightarrow> bool" where
  "state_is_stable s \<longleftrightarrow> s = ETHARP_STATE_STABLE \<or> s = ETHARP_STATE_STABLE_REREQUESTING"

definition ip_addr_islinklocal :: "u32 \<Rightarrow> bool" where
  "ip_addr_islinklocal a \<longleftrightarrow> a AND lwip_htonl 0xffff0000 = lwip_htonl 0xa9fe0000"

type_synonym 'st linkoutput = "addr \<Rightarrow> addr \<Rightarrow> 'st \<Rightarrow> (err_t \<times> 'st) res"

definition arp_at :: "'a ip_st_scheme \<Rightarrow> nat \<Rightarrow> etharp_entry res" where
  "arp_at st i = nth_res (arp_table st) i"

definition arp_put :: "'a ip_st_scheme \<Rightarrow> nat \<Rightarrow> etharp_entry \<Rightarrow> 'a ip_st_scheme" where
  "arp_put st i e = st\<lparr>arp_table := (arp_table st)[i := e]\<rparr>"

definition arp_upd :: "'a ip_st_scheme \<Rightarrow> nat \<Rightarrow> (etharp_entry \<Rightarrow> etharp_entry) \<Rightarrow> 'a ip_st_scheme res" where
  "arp_upd st i f = rbind (arp_at st i) (\<lambda>e. Inr (arp_put st i (f e)))"

section \<open>Entries\<close>

fun free_etharp_q :: "'a ip_st_scheme \<Rightarrow> (addr \<times> addr) list \<Rightarrow> 'a ip_st_scheme res" where
  "free_etharp_q st [] = Inr st"
| "free_etharp_q st ((r, p) # q) =
     rbind (pbuf_free st p) (\<lambda>(_, st1). free_etharp_q (st1\<lparr>pools := memp_free (pools st1) MEMP_ARP_QUEUE r\<rparr>) q)"

definition etharp_free_entry :: "'a ip_st_scheme \<Rightarrow> nat \<Rightarrow> 'a ip_st_scheme res" where
  "etharp_free_entry st i =
     rbind (arp_at st i) (\<lambda>e.
       rbind (if arp_q e \<noteq> [] then
                rbind (free_etharp_q st (arp_q e)) (\<lambda>st1. arp_upd st1 i (\<lambda>e. e\<lparr>arp_q := []\<rparr>))
              else Inr st) (\<lambda>st2.
         arp_upd st2 i (\<lambda>e. e\<lparr>arp_state := ETHARP_STATE_EMPTY\<rparr>)))"

text \<open>One round of the loop of \<^verbatim>\<open>etharp_tmr\<close>.\<close>

definition tmr_entry :: "'a ip_st_scheme \<Rightarrow> nat \<Rightarrow> 'a ip_st_scheme res" where
  "tmr_entry st i =
     rbind (arp_at st i) (\<lambda>e0.
       if arp_state e0 \<noteq> ETHARP_STATE_EMPTY then
         let e = e0\<lparr>arp_ctime := arp_ctime e0 + 1\<rparr>; st1 = arp_put st i e in
         if ARP_MAXAGE \<le> arp_ctime e \<or> arp_state e = ETHARP_STATE_PENDING \<and> ARP_MAXPENDING \<le> arp_ctime e
         then etharp_free_entry st1 i
         else if arp_state e = ETHARP_STATE_STABLE_REREQUESTING
         then Inr (arp_put st1 i (e\<lparr>arp_state := ETHARP_STATE_STABLE\<rparr>))
         else Inr st1
       else Inr st)"

fun tmr_loop :: "'a ip_st_scheme \<Rightarrow> nat list \<Rightarrow> 'a ip_st_scheme res" where
  "tmr_loop st [] = Inr st"
| "tmr_loop st (i # is) = rbind (tmr_entry st i) (\<lambda>st1. tmr_loop st1 is)"

definition etharp_tmr :: "'a ip_st_scheme \<Rightarrow> 'a ip_st_scheme res" where
  "etharp_tmr st = tmr_loop st [0 ..< ARP_TABLE_SIZE]"

section \<open>Searching the table\<close>

text \<open>The candidates that the sweep of \<^verbatim>\<open>etharp_find_entry\<close> remembers, with their ages.\<close>

record arp_cands =
  c_empty :: nat
  c_old_pending :: nat
  c_old_stable :: nat
  c_old_queue :: nat
  age_pending :: u8
  age_stable :: u8
  age_queue :: u8

definition no_cands :: arp_cands where
  "no_cands = \<lparr>c_empty = ARP_TABLE_SIZE, c_old_pending = ARP_TABLE_SIZE, c_old_stable = ARP_TABLE_SIZE,
     c_old_queue = ARP_TABLE_SIZE, age_pending = 0, age_stable = 0, age_queue = 0\<rparr>"

definition note_cand :: "etharp_entry \<Rightarrow> nat \<Rightarrow> arp_cands \<Rightarrow> arp_cands" where
  "note_cand e i c =
     (if arp_state e = ETHARP_STATE_PENDING then
        if arp_q e \<noteq> [] then
          (if age_queue c \<le> arp_ctime e then c\<lparr>c_old_queue := i, age_queue := arp_ctime e\<rparr> else c)
        else (if age_pending c \<le> arp_ctime e then c\<lparr>c_old_pending := i, age_pending := arp_ctime e\<rparr> else c)
      else (if age_stable c \<le> arp_ctime e then c\<lparr>c_old_stable := i, age_stable := arp_ctime e\<rparr> else c))"

text \<open>The sweep from index \<open>i\<close> on: the index of the matching entry, or the candidates.\<close>

fun find_sweep :: "etharp_entry list \<Rightarrow> u32 option \<Rightarrow> nat \<Rightarrow> arp_cands \<Rightarrow> nat + arp_cands" where
  "find_sweep [] ipaddr i c = Inr c"
| "find_sweep (e # es) ipaddr i c =
     (if c_empty c = ARP_TABLE_SIZE \<and> arp_state e = ETHARP_STATE_EMPTY then find_sweep es ipaddr (i + 1) (c\<lparr>c_empty := i\<rparr>)
      else if arp_state e \<noteq> ETHARP_STATE_EMPTY then
        if ipaddr = Some (arp_ipaddr e) then Inl i else find_sweep es ipaddr (i + 1) (note_cand e i c)
      else find_sweep es ipaddr (i + 1) c)"

text \<open>Which candidate is taken: empty, oldest stable, oldest pending without queue, oldest pending with queue.\<close>

definition choose_cand :: "arp_cands \<Rightarrow> nat option" where
  "choose_cand c =
     (if c_empty c < ARP_TABLE_SIZE then Some (c_empty c)
      else if c_old_stable c < ARP_TABLE_SIZE then Some (c_old_stable c)
      else if c_old_pending c < ARP_TABLE_SIZE then Some (c_old_pending c)
      else if c_old_queue c < ARP_TABLE_SIZE then Some (c_old_queue c)
      else None)"

text \<open>The result \<open>None\<close> is \<^verbatim>\<open>ERR_MEM\<close>.\<close>

definition etharp_find_entry ::
  "'a ip_st_scheme \<Rightarrow> u32 option \<Rightarrow> u8 \<Rightarrow> (nat option \<times> 'a ip_st_scheme) res" where
  "etharp_find_entry st ipaddr flags =
     (case find_sweep (arp_table st) ipaddr 0 no_cands of
        Inl i \<Rightarrow> Inr (Some i, st)
      | Inr c \<Rightarrow>
          if flags AND ETHARP_FLAG_FIND_ONLY \<noteq> 0
             \<or> c_empty c = ARP_TABLE_SIZE \<and> flags AND ETHARP_FLAG_TRY_HARD = 0
          then Inr (None, st)
          else case choose_cand c of
            None \<Rightarrow> Inr (None, st)
          | Some i \<Rightarrow>
              rbind (if c_empty c < ARP_TABLE_SIZE then Inr st else etharp_free_entry st i) (\<lambda>st1.
              rbind (case ipaddr of Some ip \<Rightarrow> arp_upd st1 i (\<lambda>e. e\<lparr>arp_ipaddr := ip\<rparr>) | None \<Rightarrow> Inr st1) (\<lambda>st2.
              rbind (arp_upd st2 i (\<lambda>e. e\<lparr>arp_ctime := 0\<rparr>)) (\<lambda>st3. Inr (Some i, st3)))))"

section \<open>Sending\<close>

definition etharp_send_ip ::
  "('a ip_st_scheme) linkoutput \<Rightarrow> 'a ip_st_scheme \<Rightarrow> addr \<Rightarrow> addr \<Rightarrow> u8 list \<Rightarrow> u8 list \<Rightarrow> (err_t \<times> 'a ip_st_scheme) res" where
  "etharp_send_ip lo st n p src dst =
     rbind (get_pbuf st p) (\<lambda>b.
     rbind (wr_bytes (bytes st) (payload b) dst) (\<lambda>m. rbind (wr_bytes m (payload b + 6) src) (\<lambda>m.
     rbind (wr16 m (payload b + 12) (lwip_htons ETHTYPE_IP)) (\<lambda>m.
       lo n p (st\<lparr>bytes := m\<rparr>)))))"

text \<open>
  The loop of \<^verbatim>\<open>etharp_update_arp_entry\<close> that sends the queued packets of entry \<open>i\<close>. The pool
  \<^verbatim>\<open>MEMP_ARP_QUEUE\<close> has 30 elements, so that a queue is never longer.
\<close>

definition arp_fuel :: nat where "arp_fuel = 31"

primrec flush_queue ::
  "nat \<Rightarrow> ('a ip_st_scheme) linkoutput \<Rightarrow> 'a ip_st_scheme \<Rightarrow> addr \<Rightarrow> u8 list \<Rightarrow> nat \<Rightarrow> 'a ip_st_scheme res" where
  "flush_queue 0 lo st n ethaddr i =
     rbind (arp_at st i) (\<lambda>e. if arp_q e = [] then Inr st else Inl Out_of_fuel)"
| "flush_queue (Suc fuel) lo st n ethaddr i =
     rbind (arp_at st i) (\<lambda>e.
       case arp_q e of
         [] \<Rightarrow> Inr st
       | (r, p) # q \<Rightarrow>
           let st1 = arp_put st i (e\<lparr>arp_q := q\<rparr>); st2 = st1\<lparr>pools := memp_free (pools st1) MEMP_ARP_QUEUE r\<rparr> in
           rbind (get_netif st2 n) (\<lambda>x.
           rbind (etharp_send_ip lo st2 n p (hwaddr x) ethaddr) (\<lambda>(_, st3).
           rbind (pbuf_free st3 p) (\<lambda>(_, st4). flush_queue fuel lo st4 n ethaddr i))))"

definition etharp_update_arp_entry ::
  "('a ip_st_scheme) linkoutput \<Rightarrow> 'a ip_st_scheme \<Rightarrow> addr \<Rightarrow> u32 \<Rightarrow> u8 list \<Rightarrow> u8 \<Rightarrow> (err_t \<times> 'a ip_st_scheme) res" where
  "etharp_update_arp_entry lo st n ipaddr ethaddr flags =
     rbind (get_netif st n) (\<lambda>x.
       if ip_addr_isany ipaddr \<or> ip4_addr_isbroadcast ipaddr x \<or> ip_addr_ismulticast ipaddr then Inr (ERR_ARG, st)
       else
         rbind (etharp_find_entry st (Some ipaddr) flags) (\<lambda>(found, st1).
           case found of
             None \<Rightarrow> Inr (ERR_MEM, st1)
           | Some i \<Rightarrow>
               rbind (arp_upd st1 i (\<lambda>e. e\<lparr>arp_state := ETHARP_STATE_STABLE, arp_netif := n, arp_ethaddr := ethaddr, arp_ctime := 0\<rparr>))
                 (\<lambda>st2. rbind (flush_queue arp_fuel lo st2 n ethaddr i) (\<lambda>st3. Inr (ERR_OK, st3)))))"

fun cleanup_loop :: "'a ip_st_scheme \<Rightarrow> addr \<Rightarrow> nat list \<Rightarrow> 'a ip_st_scheme res" where
  "cleanup_loop st n [] = Inr st"
| "cleanup_loop st n (i # is) =
     rbind (arp_at st i) (\<lambda>e.
       rbind (if arp_state e \<noteq> ETHARP_STATE_EMPTY \<and> arp_netif e = n then etharp_free_entry st i else Inr st) (\<lambda>st1.
         cleanup_loop st1 n is))"

definition etharp_cleanup :: "'a ip_st_scheme \<Rightarrow> addr \<Rightarrow> 'a ip_st_scheme res" where
  "etharp_cleanup st n = cleanup_loop st n [0 ..< ARP_TABLE_SIZE]"

text \<open>The addresses of a stable entry, with its index.\<close>

definition etharp_find_addr :: "'a ip_st_scheme \<Rightarrow> u32 \<Rightarrow> ((nat \<times> u8 list \<times> u32) option \<times> 'a ip_st_scheme) res" where
  "etharp_find_addr st ipaddr =
     rbind (etharp_find_entry st (Some ipaddr) ETHARP_FLAG_FIND_ONLY) (\<lambda>(found, st1).
       case found of
         None \<Rightarrow> Inr (None, st1)
       | Some i \<Rightarrow> rbind (arp_at st1 i) (\<lambda>e.
           Inr (if state_is_stable (arp_state e) then Some (i, arp_ethaddr e, arp_ipaddr e) else None, st1)))"

section \<open>Requests\<close>

text \<open>
  The ARP packet of 42 bytes at \<open>h\<close>, field by field in the order of the code. IP addresses are
  \<^verbatim>\<open>u32\<close> values in network byte order.
\<close>

definition fill_arp ::
  "memory \<Rightarrow> addr \<Rightarrow> u8 list \<Rightarrow> u8 list \<Rightarrow> u8 list \<Rightarrow> u32 \<Rightarrow> u8 list \<Rightarrow> u32 \<Rightarrow> u16 \<Rightarrow> memory res" where
  "fill_arp m h ethsrc ethdst hwsrc ipsrc hwdst ipdst opcode =
     rbind (wr16 m (h + 20) (lwip_htons opcode)) (\<lambda>m. rbind (wr_bytes m (h + 22) hwsrc) (\<lambda>m.
     rbind (wr_bytes m (h + 32) hwdst) (\<lambda>m. rbind (wr_bytes m h ethdst) (\<lambda>m. rbind (wr_bytes m (h + 6) ethsrc) (\<lambda>m.
     rbind (wr32 m (h + 28) ipsrc) (\<lambda>m. rbind (wr32 m (h + 38) ipdst) (\<lambda>m.
     rbind (wr16 m (h + 14) (lwip_htons HWTYPE_ETHERNET)) (\<lambda>m. rbind (wr16 m (h + 16) (lwip_htons ETHTYPE_IP)) (\<lambda>m.
     rbind (wr8 m (h + 18) (of_nat ETHARP_HWADDR_LEN)) (\<lambda>m. rbind (wr8 m (h + 19) 4) (\<lambda>m.
       wr16 m (h + 12) (lwip_htons ETHTYPE_ARP))))))))))))"

definition etharp_raw ::
  "('a ip_st_scheme) linkoutput \<Rightarrow> 'a ip_st_scheme \<Rightarrow> addr \<Rightarrow> u8 list \<Rightarrow> u8 list \<Rightarrow> u8 list \<Rightarrow> u32 \<Rightarrow> u8 list \<Rightarrow> u32 \<Rightarrow> u16
     \<Rightarrow> (err_t \<times> 'a ip_st_scheme) res" where
  "etharp_raw lo st n ethsrc ethdst hwsrc ipsrc hwdst ipdst opcode =
     rbind (pbuf_alloc st PBUF_RAW (of_nat SIZEOF_ETHARP_PACKET) PBUF_RAM) (\<lambda>(p, st1).
       if p = 0 then Inr (ERR_MEM, st1)
       else rbind (get_pbuf st1 p) (\<lambda>b.
         rbind (fill_arp (bytes st1) (payload b) ethsrc ethdst hwsrc ipsrc hwdst ipdst opcode) (\<lambda>m.
         rbind (lo n p (st1\<lparr>bytes := m\<rparr>)) (\<lambda>(result, st2).
         rbind (pbuf_free st2 p) (\<lambda>(_, st3). Inr (result, st3))))))"

definition etharp_request :: "('a ip_st_scheme) linkoutput \<Rightarrow> 'a ip_st_scheme \<Rightarrow> addr \<Rightarrow> u32 \<Rightarrow> (err_t \<times> 'a ip_st_scheme) res" where
  "etharp_request lo st n ipaddr =
     rbind (get_netif st n) (\<lambda>x.
       etharp_raw lo st n (hwaddr x) ethbroadcast (hwaddr x) (ip_addr x) ethzero ipaddr ARP_REQUEST)"

section \<open>Output\<close>

text \<open>The loop of \<^verbatim>\<open>etharp_query\<close> over the pbufs: the first that is no \<^verbatim>\<open>PBUF_ROM\<close>, or \<^verbatim>\<open>NULL\<close>.\<close>

primrec first_not_rom :: "nat \<Rightarrow> 'a ip_st_scheme \<Rightarrow> addr \<Rightarrow> addr res" where
  "first_not_rom 0 st p = (if p = 0 then Inr 0 else Inl Out_of_fuel)"
| "first_not_rom (Suc fuel) st p =
     (if p = 0 then Inr 0
      else rbind (get_pbuf st p) (\<lambda>b. if pb_type b \<noteq> PBUF_ROM then Inr p else first_not_rom fuel st (pb_next b)))"

text \<open>The packet that is queued: a copy in the heap, or \<open>q\<close> itself with one more reference; 0 without memory.\<close>

definition take_packet :: "'a ip_st_scheme \<Rightarrow> addr \<Rightarrow> (addr \<times> 'a ip_st_scheme) res" where
  "take_packet st q =
     rbind (first_not_rom chain_fuel st q) (\<lambda>r.
       if r \<noteq> 0 then
         rbind (get_pbuf st r) (\<lambda>b. rbind (pbuf_alloc st PBUF_RAW (tot_len b) PBUF_RAM) (\<lambda>(p, st1).
           if p = 0 then Inr (0, st1)
           else rbind (pbuf_copy st1 p q) (\<lambda>(e, st2).
             if e \<noteq> ERR_OK then rbind (pbuf_free st2 p) (\<lambda>(_, st3). Inr (0, st3)) else Inr (p, st2))))
       else rbind (pbuf_ref st q) (\<lambda>st1. Inr (q, st1)))"

definition queue_packet :: "'a ip_st_scheme \<Rightarrow> nat \<Rightarrow> addr \<Rightarrow> (err_t \<times> 'a ip_st_scheme) res" where
  "queue_packet st i q =
     rbind (take_packet st q) (\<lambda>(p, st1).
       if p = 0 then Inr (ERR_MEM, st1)
       else case memp_malloc (pools st1) MEMP_ARP_QUEUE of (r, pools') \<Rightarrow>
         let st2 = st1\<lparr>pools := pools'\<rparr> in
         if r \<noteq> 0 then rbind (arp_upd st2 i (\<lambda>e. e\<lparr>arp_q := arp_q e @ [(r, p)]\<rparr>)) (\<lambda>st3. Inr (ERR_OK, st3))
         else rbind (pbuf_free st2 p) (\<lambda>(_, st3). Inr (ERR_MEM, st3)))"

definition etharp_query :: "('a ip_st_scheme) linkoutput \<Rightarrow> 'a ip_st_scheme \<Rightarrow> addr \<Rightarrow> u32 \<Rightarrow> addr \<Rightarrow> (err_t \<times> 'a ip_st_scheme) res" where
  "etharp_query lo st n ipaddr q =
     rbind (get_netif st n) (\<lambda>x.
       if ip4_addr_isbroadcast ipaddr x \<or> ip_addr_ismulticast ipaddr \<or> ip_addr_isany ipaddr then Inr (ERR_ARG, st)
       else
         rbind (etharp_find_entry st (Some ipaddr) ETHARP_FLAG_TRY_HARD) (\<lambda>(found, st1).
           case found of
             None \<Rightarrow> Inr (ERR_MEM, st1)
           | Some i \<Rightarrow>
               rbind (arp_upd st1 i (\<lambda>e. if arp_state e = ETHARP_STATE_EMPTY then e\<lparr>arp_state := ETHARP_STATE_PENDING\<rparr> else e)) (\<lambda>st2.
               rbind (arp_at st2 i) (\<lambda>e.
               rbind (if arp_state e = ETHARP_STATE_PENDING \<or> q = 0 then etharp_request lo st2 n ipaddr else Inr (ERR_MEM, st2)) (\<lambda>(result, st3).
                 if q = 0 then Inr (result, st3)
                 else rbind (arp_at st3 i) (\<lambda>e.
                   if state_is_stable (arp_state e) then
                     etharp_send_ip lo (st3\<lparr>etharp_cached_entry := i\<rparr>) n q (hwaddr x) (arp_ethaddr e)
                   else if arp_state e = ETHARP_STATE_PENDING then queue_packet st3 i q
                   else Inr (result, st3)))))))"

definition etharp_output_to_arp_index ::
  "('a ip_st_scheme) linkoutput \<Rightarrow> 'a ip_st_scheme \<Rightarrow> addr \<Rightarrow> addr \<Rightarrow> nat \<Rightarrow> (err_t \<times> 'a ip_st_scheme) res" where
  "etharp_output_to_arp_index lo st n q i =
     rbind (arp_at st i) (\<lambda>e.
       rbind (if arp_state e = ETHARP_STATE_STABLE \<and> ARP_AGE_REREQUEST_USED \<le> arp_ctime e then
                rbind (etharp_request lo st n (arp_ipaddr e)) (\<lambda>(r, st1).
                  if r = ERR_OK then arp_upd st1 i (\<lambda>e. e\<lparr>arp_state := ETHARP_STATE_STABLE_REREQUESTING\<rparr>) else Inr st1)
              else Inr st) (\<lambda>st1.
       rbind (get_netif st1 n) (\<lambda>x. rbind (arp_at st1 i) (\<lambda>e. etharp_send_ip lo st1 n q (hwaddr x) (arp_ethaddr e)))))"

text \<open>The first stable entry for an address, from index \<open>i\<close> on.\<close>

fun find_stable :: "etharp_entry list \<Rightarrow> u32 \<Rightarrow> nat \<Rightarrow> nat option" where
  "find_stable [] ip i = None"
| "find_stable (e # es) ip i =
     (if state_is_stable (arp_state e) \<and> ip = arp_ipaddr e then Some i else find_stable es ip (i + 1))"

definition mcast_addr :: "u32 \<Rightarrow> u8 list" where
  "mcast_addr ip = LL_MULTICAST_ADDR @ [ip4_addr2 ip AND 0x7f, ip4_addr3 ip, ip4_addr4 ip]"

definition etharp_output :: "('a ip_st_scheme) linkoutput \<Rightarrow> 'a ip_st_scheme \<Rightarrow> addr \<Rightarrow> addr \<Rightarrow> u32 \<Rightarrow> (err_t \<times> 'a ip_st_scheme) res" where
  "etharp_output lo st0 n q ipaddr =
     rbind (pbuf_header st0 q (of_nat SIZEOF_ETH_HDR)) (\<lambda>(failed, st).
       if failed \<noteq> 0 then Inr (ERR_BUF, st)
       else rbind (get_netif st n) (\<lambda>x.
         if ip4_addr_isbroadcast ipaddr x then etharp_send_ip lo st n q (hwaddr x) ethbroadcast
         else if ip_addr_ismulticast ipaddr then etharp_send_ip lo st n q (hwaddr x) (mcast_addr ipaddr)
         else
           let outside = \<not> ip_addr_netcmp ipaddr (ip_addr x) (netmask x) \<and> \<not> ip_addr_islinklocal ipaddr in
           if outside \<and> ip_addr_isany (gw x) then Inr (ERR_RTE, st)
           else
             let dst_addr = (if outside then gw x else ipaddr) in
             rbind (arp_at st (etharp_cached_entry st)) (\<lambda>c.
               if state_is_stable (arp_state c) \<and> dst_addr = arp_ipaddr c
               then etharp_output_to_arp_index lo st n q (etharp_cached_entry st)
               else case find_stable (arp_table st) dst_addr 0 of
                 Some i \<Rightarrow> etharp_output_to_arp_index lo (st\<lparr>etharp_cached_entry := i\<rparr>) n q i
               | None \<Rightarrow> etharp_query lo st n dst_addr q)))"

section \<open>Input\<close>

text \<open>The ARP packet at \<open>h\<close> turned into the reply, field by field in the order of the code.\<close>

definition make_reply :: "memory \<Rightarrow> addr \<Rightarrow> u32 \<Rightarrow> u8 list \<Rightarrow> memory res" where
  "make_reply m h ip ethaddr =
     rbind (wr16 m (h + 20) (lwip_htons ARP_REPLY)) (\<lambda>m. rbind (memcpy m (h + 38) (h + 28) 4) (\<lambda>m.
     rbind (wr32 m (h + 28) ip) (\<lambda>m. rbind (memcpy m (h + 32) (h + 22) ETHARP_HWADDR_LEN) (\<lambda>m.
     rbind (memcpy m h (h + 22) ETHARP_HWADDR_LEN) (\<lambda>m. rbind (wr_bytes m (h + 22) ethaddr) (\<lambda>m.
       wr_bytes m (h + 6) ethaddr))))))"

definition etharp_arp_input ::
  "('a ip_st_scheme) linkoutput \<Rightarrow> 'a ip_st_scheme \<Rightarrow> addr \<Rightarrow> u8 list \<Rightarrow> addr \<Rightarrow> 'a ip_st_scheme res" where
  "etharp_arp_input lo st n ethaddr p =
     rbind (get_pbuf st p) (\<lambda>b. let h = payload b; drop_it = rbind (pbuf_free st p) (\<lambda>(_, st1). Inr st1) in
       if unat (pb_len b) < SIZEOF_ETHARP_PACKET then drop_it
       else
         rbind (rd16 (bytes st) (h + 14)) (\<lambda>hwtype. rbind (rd8 (bytes st) (h + 18)) (\<lambda>hwlen.
         rbind (rd8 (bytes st) (h + 19)) (\<lambda>protolen. rbind (rd16 (bytes st) (h + 16)) (\<lambda>proto.
           if hwtype \<noteq> lwip_htons HWTYPE_ETHERNET \<or> hwlen \<noteq> of_nat ETHARP_HWADDR_LEN \<or> protolen \<noteq> 4
              \<or> proto \<noteq> lwip_htons ETHTYPE_IP then drop_it
           else
             rbind (rd32 (bytes st) (h + 28)) (\<lambda>sipaddr. rbind (rd32 (bytes st) (h + 38)) (\<lambda>dipaddr.
             rbind (get_netif st n) (\<lambda>x.
               let for_us = (\<not> ip_addr_isany (ip_addr x) \<and> dipaddr = ip_addr x) in
               rbind (rd_bytes (bytes st) (h + 22) ETHARP_HWADDR_LEN) (\<lambda>shwaddr.
               rbind (etharp_update_arp_entry lo st n sipaddr shwaddr
                        (if for_us then ETHARP_FLAG_TRY_HARD else ETHARP_FLAG_FIND_ONLY)) (\<lambda>(_, st1).
               rbind (rd16 (bytes st1) (h + 20)) (\<lambda>opcode.
               rbind (if opcode = lwip_htons ARP_REQUEST \<and> for_us then
                        rbind (make_reply (bytes st1) h (ip_addr x) ethaddr) (\<lambda>m.
                        rbind (lo n p (st1\<lparr>bytes := m\<rparr>)) (\<lambda>(_, st2). Inr st2))
                      else Inr st1) (\<lambda>st2.
               rbind (pbuf_free st2 p) (\<lambda>(_, st3). Inr st3)))))))))))))"

text \<open>\<^verbatim>\<open>ethernet_input\<close>; the IP layer is the argument \<open>ip_in\<close>. It always returns \<^verbatim>\<open>ERR_OK\<close>.\<close>

definition ethernet_input ::
  "(addr \<Rightarrow> addr \<Rightarrow> 'a ip_st_scheme \<Rightarrow> 'a ip_st_scheme res) \<Rightarrow> ('a ip_st_scheme) linkoutput \<Rightarrow> 'a ip_st_scheme \<Rightarrow> addr \<Rightarrow> addr
     \<Rightarrow> (err_t \<times> 'a ip_st_scheme) res" where
  "ethernet_input ip_in lo st p n =
     rbind (get_pbuf st p) (\<lambda>b. let h = payload b; free_and_return = (\<lambda>st. rbind (pbuf_free st p) (\<lambda>(_, st1). Inr (ERR_OK, st1))) in
       if unat (pb_len b) \<le> SIZEOF_ETH_HDR then free_and_return st
       else
         rbind (rd16 (bytes st) (h + 12)) (\<lambda>type. rbind (rd_bytes (bytes st) h ETHARP_HWADDR_LEN) (\<lambda>dest.
         let fl = (if dest ! 0 AND 1 \<noteq> 0 then
                     if dest ! 0 = LL_MULTICAST_ADDR ! 0 then
                       if dest ! 1 = LL_MULTICAST_ADDR ! 1 \<and> dest ! 2 = LL_MULTICAST_ADDR ! 2 then PBUF_FLAG_LLMCAST else 0
                     else if dest = ethbroadcast then PBUF_FLAG_LLBCAST else 0
                   else 0);
             st1 = put_pbuf st p (b\<lparr>pb_flags := pb_flags b OR fl\<rparr>)
         in rbind (get_netif st1 n) (\<lambda>x.
           if type = lwip_htons ETHTYPE_IP then
             if nif_flags x AND NETIF_FLAG_ETHARP = 0 then free_and_return st1
             else rbind (pbuf_header st1 p (- of_nat SIZEOF_ETH_HDR)) (\<lambda>(failed, st2).
               if failed \<noteq> 0 then free_and_return st2
               else rbind (ip_in p n st2) (\<lambda>st3. Inr (ERR_OK, st3)))
           else if type = lwip_htons ETHTYPE_ARP then
             if nif_flags x AND NETIF_FLAG_ETHARP = 0 then free_and_return st1
             else rbind (etharp_arp_input lo st1 n (hwaddr x) p) (\<lambda>st2. Inr (ERR_OK, st2))
           else free_and_return st1))))"

section \<open>What the operations keep\<close>

text \<open>
  The invariant of the table: it has its size, only a pending entry has packets waiting, no two entries
  in use have the same address, and the cached index lies in the table.
\<close>

definition arp_used :: "etharp_entry \<Rightarrow> bool" where
  "arp_used e \<longleftrightarrow> arp_state e \<noteq> ETHARP_STATE_EMPTY"

definition arp_ok :: "etharp_entry list \<Rightarrow> bool" where
  "arp_ok t \<longleftrightarrow> length t = ARP_TABLE_SIZE
     \<and> (\<forall>i < ARP_TABLE_SIZE. arp_q (t ! i) \<noteq> [] \<longrightarrow> arp_state (t ! i) = ETHARP_STATE_PENDING)
     \<and> (\<forall>i < ARP_TABLE_SIZE. \<forall>j < ARP_TABLE_SIZE. arp_used (t ! i) \<longrightarrow> arp_used (t ! j) \<longrightarrow>
          arp_ipaddr (t ! i) = arp_ipaddr (t ! j) \<longrightarrow> i = j)"

definition arp_inv :: "'a ip_st_scheme \<Rightarrow> bool" where
  "arp_inv st \<longleftrightarrow> arp_ok (arp_table st) \<and> etharp_cached_entry st < ARP_TABLE_SIZE"

lemma arp_okD:
  "arp_ok t \<Longrightarrow> length t = ARP_TABLE_SIZE"
  "arp_ok t \<Longrightarrow> i < ARP_TABLE_SIZE \<Longrightarrow> arp_q (t ! i) \<noteq> [] \<Longrightarrow> arp_state (t ! i) = ETHARP_STATE_PENDING"
  "arp_ok t \<Longrightarrow> i < ARP_TABLE_SIZE \<Longrightarrow> j < ARP_TABLE_SIZE \<Longrightarrow> arp_used (t ! i) \<Longrightarrow> arp_used (t ! j) \<Longrightarrow>
     arp_ipaddr (t ! i) = arp_ipaddr (t ! j) \<Longrightarrow> i = j"
  unfolding arp_ok_def by blast+

text \<open>Replacing an entry by one that is no more in use and has the same address.\<close>

lemma arp_ok_update:
  assumes "arp_ok t" "i < ARP_TABLE_SIZE" "arp_q e \<noteq> [] \<longrightarrow> arp_state e = ETHARP_STATE_PENDING"
    "arp_used e \<longrightarrow> (\<forall>j < ARP_TABLE_SIZE. j \<noteq> i \<longrightarrow> arp_used (t ! j) \<longrightarrow> arp_ipaddr (t ! j) \<noteq> arp_ipaddr e)"
  shows "arp_ok (t[i := e])"
  unfolding arp_ok_def
proof (intro conjI allI impI)
  show "length (t[i := e]) = ARP_TABLE_SIZE" using arp_okD(1) [OF assms(1)] by simp
  show "arp_state (t[i := e] ! j) = ETHARP_STATE_PENDING" if "j < ARP_TABLE_SIZE" "arp_q (t[i := e] ! j) \<noteq> []" for j
    using that assms(1-3) arp_okD(1,2) [OF assms(1)] by (cases "j = i") auto
  show "j = k" if "j < ARP_TABLE_SIZE" "k < ARP_TABLE_SIZE" "arp_used (t[i := e] ! j)" "arp_used (t[i := e] ! k)"
    "arp_ipaddr (t[i := e] ! j) = arp_ipaddr (t[i := e] ! k)" for j k
  proof -
    consider "j = i" "k = i" | "j = i" "k \<noteq> i" | "j \<noteq> i" "k = i" | "j \<noteq> i" "k \<noteq> i" by blast
    then show ?thesis
    proof cases
      case 2
      with that assms(2,4) arp_okD(1) [OF assms(1)] show ?thesis by (metis nth_list_update_eq nth_list_update_neq)
    next
      case 3
      with that assms(2,4) arp_okD(1) [OF assms(1)] show ?thesis by (metis nth_list_update_eq nth_list_update_neq)
    next
      case 4
      with that have "arp_used (t ! j)" "arp_used (t ! k)" "arp_ipaddr (t ! j) = arp_ipaddr (t ! k)" by simp_all
      with that arp_okD(3) [OF assms(1)] show ?thesis by blast
    qed simp
  qed
qed

text \<open>The table, the cached index and the state above, which the layers below do not reach.\<close>

definition arpv :: "'a link_st_scheme \<Rightarrow> etharp_entry list \<times> nat \<times> 'a" where
  "arpv st = (arp_table st, etharp_cached_entry st, link_st.more st)"

lemma arpv_more: "pbuf_st.more st' = pbuf_st.more st \<Longrightarrow> arpv st' = arpv st"
  by (cases st; cases st'; simp add: arpv_def)

lemma arpv_simps [simp]:
  "arpv (st\<lparr>bytes := m\<rparr>) = arpv st" "arpv (st\<lparr>pools := ps\<rparr>) = arpv st" "arpv (st\<lparr>mheap := hp\<rparr>) = arpv st"
  "arpv (put_pbuf st p b) = arpv st"
  by (simp_all add: arpv_def put_pbuf_def)

lemma arpv_put [simp]: "arpv (arp_put st i e) = ((arp_table st)[i := e], etharp_cached_entry st, link_st.more st)"
  by (cases st; simp add: arpv_def arp_put_def)

lemma arpv_cached: "arpv (st\<lparr>etharp_cached_entry := i\<rparr>) = (arp_table st, i, link_st.more st)"
  by (simp add: arpv_def)

lemma arpv_eqD:
  "arpv st' = arpv st \<Longrightarrow> arp_table st' = arp_table st"
  "arpv st' = arpv st \<Longrightarrow> etharp_cached_entry st' = etharp_cached_entry st"
  "arpv st' = arpv st \<Longrightarrow> link_st.more st' = link_st.more st"
  by (simp_all add: arpv_def)

lemma arpv_iff: "arpv st = (t, c, u) \<longleftrightarrow> arp_table st = t \<and> etharp_cached_entry st = c \<and> link_st.more st = u"
  by (simp add: arpv_def)

lemma arp_lower:
  "res_all (\<lambda>x. arpv (snd x) = arpv st) (pbuf_free st p)"
  "res_all (\<lambda>x. arpv (snd x) = arpv st) (pbuf_alloc st l n t)"
  "res_all (\<lambda>x. arpv (snd x) = arpv st) (pbuf_header st p k)"
  "res_all (\<lambda>x. arpv (snd x) = arpv st) (pbuf_copy st a b)"
  "res_all (\<lambda>x. arpv x = arpv st) (pbuf_ref st p)"
  by (rule res_allI; auto dest!: pbuf_free_keeps pbuf_alloc_keeps pbuf_header_keeps pbuf_copy_keeps pbuf_ref_keeps arpv_more)+

lemma free_etharp_q_arpv: "res_all (\<lambda>x. arpv x = arpv st) (free_etharp_q st q)"
proof (induction q arbitrary: st rule: list.induct)
  case (Cons a q)
  obtain r p where a: "a = (r, p)" by (cases a)
  show ?case
    unfolding a free_etharp_q.simps res_all_simps(3)
    by (rule arp_lower(1) [THEN res_all_weaken]) (auto intro!: Cons [THEN res_all_weaken])
qed simp

lemma take_packet_arpv: "res_all (\<lambda>x. arpv (snd x) = arpv st) (take_packet st q)"
  unfolding take_packet_def
  by (auto intro!: res_all_any [where r = "first_not_rom chain_fuel st q"] res_all_any [where r = "get_pbuf st p" for p]
      arp_lower [THEN res_all_weaken] split: prod.splits)

lemma arp_at_eq: "arp_at st i = Inr e \<longleftrightarrow> i < length (arp_table st) \<and> e = arp_table st ! i"
  by (auto simp: arp_at_def nth_res_def)

lemma arp_upd_arpv:
  "res_all (\<lambda>x. i < length (arp_table st) \<and> arpv x = ((arp_table st)[i := f (arp_table st ! i)], etharp_cached_entry st, link_st.more st)) (arp_upd st i f)"
  by (rule res_allI) (auto simp: arp_upd_def rbind_eq_Inr arp_at_eq)

lemma free_entry_arpv:
  "res_all (\<lambda>x. i < length (arp_table st) \<and> arpv x = ((arp_table st)[i := (arp_table st ! i)\<lparr>arp_q := [], arp_state := ETHARP_STATE_EMPTY\<rparr>],
       etharp_cached_entry st, link_st.more st)) (etharp_free_entry st i)"
proof (rule res_allI)
  fix st' assume "etharp_free_entry st i = Inr st'"
  then obtain st2 where i: "i < length (arp_table st)"
    and 2: "(if arp_q (arp_table st ! i) \<noteq> [] then
                rbind (free_etharp_q st (arp_q (arp_table st ! i))) (\<lambda>st1. arp_upd st1 i (\<lambda>e. e\<lparr>arp_q := []\<rparr>))
              else Inr st) = Inr st2"
    and 3: "arp_upd st2 i (\<lambda>e. e\<lparr>arp_state := ETHARP_STATE_EMPTY\<rparr>) = Inr st'"
    by (auto simp: etharp_free_entry_def rbind_eq_Inr arp_at_eq)
  have "arpv st2 = ((arp_table st)[i := (arp_table st ! i)\<lparr>arp_q := []\<rparr>], etharp_cached_entry st, link_st.more st)"
  proof (cases "arp_q (arp_table st ! i) = []")
    case True
    then have "(arp_table st ! i)\<lparr>arp_q := []\<rparr> = arp_table st ! i" by (cases "arp_table st ! i") simp
    then have "(arp_table st)[i := (arp_table st ! i)\<lparr>arp_q := []\<rparr>] = arp_table st" by (simp only: list_update_id)
    with True 2 show ?thesis by (simp add: arpv_def)
  next
    case False
    with 2 obtain st1 where 1: "free_etharp_q st (arp_q (arp_table st ! i)) = Inr st1" "arp_upd st1 i (\<lambda>e. e\<lparr>arp_q := []\<rparr>) = Inr st2"
      by (auto simp: rbind_eq_Inr)
    from res_allD [OF free_etharp_q_arpv 1(1)] res_allD [OF arp_upd_arpv 1(2)] show ?thesis
      by (simp add: arpv_iff [of st1] arpv_def [of st])
  qed
  with res_allD [OF arp_upd_arpv 3] i
  show "i < length (arp_table st) \<and> arpv st' = ((arp_table st)[i := (arp_table st ! i)\<lparr>arp_q := [], arp_state := ETHARP_STATE_EMPTY\<rparr>],
       etharp_cached_entry st, link_st.more st)"
    by (simp add: arpv_iff [of st2])
qed

section \<open>What a search finds\<close>

text \<open>The candidates point at entries of the table \<open>t\<close>, the empty one at an empty entry.\<close>

definition cands_ok :: "etharp_entry list \<Rightarrow> arp_cands \<Rightarrow> bool" where
  "cands_ok t c \<longleftrightarrow> (c_empty c < ARP_TABLE_SIZE \<longrightarrow> arp_state (t ! c_empty c) = ETHARP_STATE_EMPTY)"

lemma cands_ok_note [simp]: "cands_ok t (note_cand e i c) = cands_ok t c"
  by (simp add: cands_ok_def note_cand_def)

lemma find_sweep_spec:
  assumes "cands_ok t c" "i \<le> length t" "length t = ARP_TABLE_SIZE"
  shows "case find_sweep (drop i t) ip i c of
      Inl j \<Rightarrow> j < ARP_TABLE_SIZE \<and> arp_used (t ! j) \<and> ip = Some (arp_ipaddr (t ! j))
    | Inr c' \<Rightarrow> cands_ok t c' \<and> (\<forall>j. i \<le> j \<longrightarrow> j < ARP_TABLE_SIZE \<longrightarrow> arp_used (t ! j) \<longrightarrow> ip \<noteq> Some (arp_ipaddr (t ! j)))"
  using assms(1,2)
proof (induction "length t - i" arbitrary: i c)
  case 0
  then show ?case using assms(3) by simp
next
  case (Suc k)
  then have i: "i < length t" by simp
  have d: "drop i t = t ! i # drop (i + 1) t" using i by (simp add: Cons_nth_drop_Suc)
  have k: "k = length t - (i + 1)" "i + 1 \<le> length t" using Suc.hyps(2) i by simp_all
  have IH: "case find_sweep (drop (i + 1) t) ip (i + 1) c' of
      Inl j \<Rightarrow> j < ARP_TABLE_SIZE \<and> arp_used (t ! j) \<and> ip = Some (arp_ipaddr (t ! j))
    | Inr c'' \<Rightarrow> cands_ok t c'' \<and> (\<forall>j. i + 1 \<le> j \<longrightarrow> j < ARP_TABLE_SIZE \<longrightarrow> arp_used (t ! j) \<longrightarrow> ip \<noteq> Some (arp_ipaddr (t ! j)))"
    if "cands_ok t c'" for c' using Suc.hyps(1) [OF k(1) that k(2)] .
  have step: "case find_sweep (drop (i + 1) t) ip (i + 1) c' of
      Inl j \<Rightarrow> j < ARP_TABLE_SIZE \<and> arp_used (t ! j) \<and> ip = Some (arp_ipaddr (t ! j))
    | Inr c'' \<Rightarrow> cands_ok t c'' \<and> (\<forall>j. i \<le> j \<longrightarrow> j < ARP_TABLE_SIZE \<longrightarrow> arp_used (t ! j) \<longrightarrow> ip \<noteq> Some (arp_ipaddr (t ! j)))"
    if "cands_ok t c'" "arp_used (t ! i) \<longrightarrow> ip \<noteq> Some (arp_ipaddr (t ! i))" for c'
    using IH [OF that(1)] that(2) by (auto simp: le_less [of i] Suc_le_eq split: sum.splits)
  have e: "cands_ok t (c\<lparr>c_empty := i\<rparr>)" if "arp_state (t ! i) = ETHARP_STATE_EMPTY"
    using that by (simp add: cands_ok_def)
  show ?case
    unfolding d find_sweep.simps
    using step [of "c\<lparr>c_empty := i\<rparr>"] step [of "note_cand (t ! i) i c"] step [of c] Suc.prems(1) i assms(3) e
    by (auto simp: arp_used_def split: if_splits)
qed

text \<open>What \<^verbatim>\<open>etharp_find_entry\<close> does when it is asked for an address.\<close>

definition found_new :: "etharp_entry list \<Rightarrow> nat \<Rightarrow> u32 \<Rightarrow> etharp_entry" where
  "found_new t i ip = (t ! i)\<lparr>arp_q := [], arp_state := ETHARP_STATE_EMPTY, arp_ipaddr := ip, arp_ctime := 0\<rparr>"

lemma find_entry_arpv:
  assumes "arp_inv st"
  shows "res_all (\<lambda>(r, st'). case r of
      None \<Rightarrow> arpv st' = arpv st \<and> (\<forall>j < ARP_TABLE_SIZE. arp_used (arp_table st ! j) \<longrightarrow> arp_ipaddr (arp_table st ! j) \<noteq> ip)
    | Some i \<Rightarrow> i < ARP_TABLE_SIZE \<and>
        (arp_used (arp_table st ! i) \<and> arp_ipaddr (arp_table st ! i) = ip \<and> st' = st
         \<or> flags AND ETHARP_FLAG_FIND_ONLY = 0
           \<and> (\<forall>j < ARP_TABLE_SIZE. arp_used (arp_table st ! j) \<longrightarrow> arp_ipaddr (arp_table st ! j) \<noteq> ip)
           \<and> arpv st' = ((arp_table st)[i := found_new (arp_table st) i ip], etharp_cached_entry st, link_st.more st)))
    (etharp_find_entry st (Some ip) flags)"
proof (rule res_allI)
  fix x assume x: "etharp_find_entry st (Some ip) flags = Inr x"
  let ?t = "arp_table st"
  have t: "arp_ok ?t" "length ?t = ARP_TABLE_SIZE" using assms arp_okD(1) by (auto simp: arp_inv_def)
  have "cands_ok ?t no_cands" by (simp add: cands_ok_def no_cands_def)
  from find_sweep_spec [OF this, of 0 "Some ip"] t(2) have
    sw: "case find_sweep ?t (Some ip) 0 no_cands of
      Inl j \<Rightarrow> j < ARP_TABLE_SIZE \<and> arp_used (?t ! j) \<and> Some ip = Some (arp_ipaddr (?t ! j))
    | Inr c' \<Rightarrow> cands_ok ?t c' \<and> (\<forall>j. 0 \<le> j \<longrightarrow> j < ARP_TABLE_SIZE \<longrightarrow> arp_used (?t ! j) \<longrightarrow> Some ip \<noteq> Some (arp_ipaddr (?t ! j)))"
    by simp
  show "case x of (r, st') \<Rightarrow> case r of
      None \<Rightarrow> arpv st' = arpv st \<and> (\<forall>j < ARP_TABLE_SIZE. arp_used (arp_table st ! j) \<longrightarrow> arp_ipaddr (arp_table st ! j) \<noteq> ip)
    | Some i \<Rightarrow> i < ARP_TABLE_SIZE \<and>
        (arp_used (arp_table st ! i) \<and> arp_ipaddr (arp_table st ! i) = ip \<and> st' = st
         \<or> flags AND ETHARP_FLAG_FIND_ONLY = 0
           \<and> (\<forall>j < ARP_TABLE_SIZE. arp_used (arp_table st ! j) \<longrightarrow> arp_ipaddr (arp_table st ! j) \<noteq> ip)
           \<and> arpv st' = ((arp_table st)[i := found_new (arp_table st) i ip], etharp_cached_entry st, link_st.more st))"
  proof (cases "find_sweep ?t (Some ip) 0 no_cands")
    case (Inl j)
    with x sw show ?thesis by (auto simp: etharp_find_entry_def)
  next
    case (Inr c)
    with sw have c: "cands_ok ?t c" and none: "\<forall>j < ARP_TABLE_SIZE. arp_used (?t ! j) \<longrightarrow> arp_ipaddr (?t ! j) \<noteq> ip" by auto
    show ?thesis
    proof (cases "flags AND ETHARP_FLAG_FIND_ONLY \<noteq> 0 \<or> c_empty c = ARP_TABLE_SIZE \<and> flags AND ETHARP_FLAG_TRY_HARD = 0 \<or> choose_cand c = None")
      case True
      with x Inr none show ?thesis by (auto simp: etharp_find_entry_def split: if_splits)
    next
      case False
      then obtain i where i: "choose_cand c = Some i" by auto
      then have lt: "i < ARP_TABLE_SIZE" and em: "c_empty c < ARP_TABLE_SIZE \<longrightarrow> i = c_empty c"
        by (auto simp: choose_cand_def split: if_splits)
      from x Inr False i obtain st1 st2 st3 where
        1: "(if c_empty c < ARP_TABLE_SIZE then Inr st else etharp_free_entry st i) = Inr st1"
        and 2: "arp_upd st1 i (\<lambda>e. e\<lparr>arp_ipaddr := ip\<rparr>) = Inr st2"
        and 3: "arp_upd st2 i (\<lambda>e. e\<lparr>arp_ctime := 0\<rparr>) = Inr st3" and xx: "x = (Some i, st3)"
        by (auto simp: etharp_find_entry_def rbind_eq_Inr split: if_splits)
      have "arpv st1 = (?t[i := (?t ! i)\<lparr>arp_q := [], arp_state := ETHARP_STATE_EMPTY\<rparr>], etharp_cached_entry st, link_st.more st)"
      proof (cases "c_empty c < ARP_TABLE_SIZE")
        case True
        then have s: "arp_state (?t ! i) = ETHARP_STATE_EMPTY" using c em by (simp add: cands_ok_def)
        then have "arp_q (?t ! i) = []" using arp_okD(2) [OF t(1) lt] by auto
        with s have "(?t ! i)\<lparr>arp_q := [], arp_state := ETHARP_STATE_EMPTY\<rparr> = ?t ! i" by (cases "?t ! i") simp
        then have "?t[i := (?t ! i)\<lparr>arp_q := [], arp_state := ETHARP_STATE_EMPTY\<rparr>] = ?t" by (simp only: list_update_id)
        with True 1 show ?thesis by (simp add: arpv_def)
      next
        case False
        with 1 res_allD [OF free_entry_arpv, of st i st1] show ?thesis by simp
      qed
      with res_allD [OF arp_upd_arpv 2] res_allD [OF arp_upd_arpv 3] lt t(2)
      have "arpv st3 = (?t[i := found_new ?t i ip], etharp_cached_entry st, link_st.more st)"
        by (simp add: arpv_iff [of st1] arpv_iff [of st2] found_new_def)
      with xx lt none False show ?thesis by auto
    qed
  qed
qed

text \<open>What an operation may do: nothing above the link layer, and nothing that breaks the table.\<close>

definition arp_keeps :: "'a ip_st_scheme \<Rightarrow> 'a ip_st_scheme \<Rightarrow> bool" where
  "arp_keeps st st' \<longleftrightarrow> link_st.more st' = link_st.more st \<and> (arp_inv st \<longrightarrow> arp_inv st')"

lemma arp_keeps_refl [simp]: "arp_keeps st st"
  by (simp add: arp_keeps_def)

lemma arp_keeps_trans: "arp_keeps st st' \<Longrightarrow> arp_keeps st' st'' \<Longrightarrow> arp_keeps st st''"
  by (simp add: arp_keeps_def)

lemma arp_keeps_eq: "arpv st' = arpv st \<Longrightarrow> arp_keeps st st'"
  by (simp add: arp_keeps_def arp_inv_def arpv_def)

lemma arp_keepsI:
  "arpv st' = (t, c, link_st.more st) \<Longrightarrow> (arp_inv st \<Longrightarrow> arp_ok t \<and> c < ARP_TABLE_SIZE) \<Longrightarrow> arp_keeps st st'"
  by (simp add: arp_keeps_def arp_inv_def arpv_iff)

lemma arp_inv_put:
  "arp_inv st \<Longrightarrow> i < ARP_TABLE_SIZE \<Longrightarrow> arp_q e \<noteq> [] \<longrightarrow> arp_state e = ETHARP_STATE_PENDING \<Longrightarrow>
   arp_used e \<longrightarrow> (\<forall>j < ARP_TABLE_SIZE. j \<noteq> i \<longrightarrow> arp_used (arp_table st ! j) \<longrightarrow> arp_ipaddr (arp_table st ! j) \<noteq> arp_ipaddr e) \<Longrightarrow>
   arp_ok ((arp_table st)[i := e]) \<and> etharp_cached_entry st < ARP_TABLE_SIZE"
  by (simp add: arp_inv_def arp_ok_update)

text \<open>An entry that keeps its address and is in use only if it was.\<close>

lemma arp_inv_same:
  "arp_inv st \<Longrightarrow> i < ARP_TABLE_SIZE \<Longrightarrow> arp_q e \<noteq> [] \<longrightarrow> arp_state e = ETHARP_STATE_PENDING \<Longrightarrow>
   arp_used e \<longrightarrow> arp_used (arp_table st ! i) \<and> arp_ipaddr e = arp_ipaddr (arp_table st ! i) \<Longrightarrow>
   arp_ok ((arp_table st)[i := e]) \<and> etharp_cached_entry st < ARP_TABLE_SIZE"
  by (rule arp_inv_put) (auto simp: arp_inv_def dest: arp_okD(3))

lemma free_entry_keeps: "res_all (\<lambda>x. arp_keeps st x) (etharp_free_entry st i)"
proof (rule res_allI)
  fix x assume x: "etharp_free_entry st i = Inr x"
  from res_allD [OF free_entry_arpv x] have i: "i < length (arp_table st)" and
    v: "arpv x = ((arp_table st)[i := (arp_table st ! i)\<lparr>arp_q := [], arp_state := ETHARP_STATE_EMPTY\<rparr>], etharp_cached_entry st, link_st.more st)"
    by simp_all
  from v show "arp_keeps st x"
    by (rule arp_keepsI, intro arp_inv_same) (use i arp_okD(1) in \<open>auto simp: arp_used_def arp_inv_def\<close>)
qed

lemma arp_put_keeps:
  assumes "i < length (arp_table st)" "arp_q e = arp_q (arp_table st ! i)" "arp_ipaddr e = arp_ipaddr (arp_table st ! i)"
    "arp_state e = arp_state (arp_table st ! i) \<or> state_is_stable (arp_state e) \<and> state_is_stable (arp_state (arp_table st ! i))"
  shows "arp_keeps st (arp_put st i e)"
proof (rule arp_keepsI)
  assume inv: "arp_inv st"
  then have i: "i < ARP_TABLE_SIZE" and t: "arp_ok (arp_table st)" using assms(1) arp_okD(1) by (auto simp: arp_inv_def)
  show "arp_ok ((arp_table st)[i := e]) \<and> etharp_cached_entry st < ARP_TABLE_SIZE"
    by (rule arp_inv_same [OF inv i])
      (use assms(2-4) arp_okD(2) [OF t i] in \<open>auto simp: arp_used_def state_is_stable_def\<close>)
qed simp

lemma tmr_entry_keeps: "res_all (\<lambda>x. arp_keeps st x) (tmr_entry st i)"
proof (cases "arp_at st i")
  case (Inl a)
  then show ?thesis by (simp add: tmr_entry_def)
next
  case (Inr e0)
  then have i: "i < length (arp_table st)" and e0: "e0 = arp_table st ! i" by (simp_all add: arp_at_eq)
  let ?e = "e0\<lparr>arp_ctime := arp_ctime e0 + 1\<rparr>" and ?st1 = "arp_put st i (e0\<lparr>arp_ctime := arp_ctime e0 + 1\<rparr>)"
  have k1: "arp_keeps st ?st1" by (rule arp_put_keeps [OF i]) (simp_all add: e0)
  have k2: "arp_keeps ?st1 (arp_put ?st1 i (?e\<lparr>arp_state := ETHARP_STATE_STABLE\<rparr>))"
    if "arp_state ?e = ETHARP_STATE_STABLE_REREQUESTING"
    by (rule arp_put_keeps) (use i e0 that in \<open>auto simp: arp_put_def state_is_stable_def\<close>)
  show ?thesis
    unfolding tmr_entry_def Inr rbind_Inr Let_def
    by (intro res_all_if free_entry_keeps [THEN res_all_weaken] arp_keeps_trans [OF k1])
      (simp_all add: k1 k2 arp_keeps_trans [OF k1 k2])
qed

lemma tmr_loop_keeps: "res_all (\<lambda>x. arp_keeps st x) (tmr_loop st is)"
proof (induction "is" arbitrary: st)
  case (Cons i "is")
  show ?case
    unfolding tmr_loop.simps res_all_simps(3)
    by (rule tmr_entry_keeps [THEN res_all_weaken]) (blast intro: Cons [THEN res_all_weaken] arp_keeps_trans)
qed simp

lemma cleanup_loop_keeps: "res_all (\<lambda>x. arp_keeps st x) (cleanup_loop st n is)"
proof (induction "is" arbitrary: st)
  case (Cons i "is")
  have "res_all (\<lambda>x. arp_keeps st x) (if c then etharp_free_entry st i else Inr st)" for c
    by (simp add: free_entry_keeps)
  then show ?case
    unfolding cleanup_loop.simps
    by (intro res_all_bind res_all_simps(3) [THEN iffD2])
      (rule res_all_weaken, blast, blast intro: Cons [THEN res_all_weaken] arp_keeps_trans)
qed simp

lemma find_entry_more: "res_all (\<lambda>x. link_st.more (snd x) = link_st.more st) (etharp_find_entry st (Some ip) flags)"
proof (rule res_allI)
  fix x assume x: "etharp_find_entry st (Some ip) flags = Inr x"
  show "link_st.more (snd x) = link_st.more st"
  proof (cases "snd x = st")
    case False
    with x obtain i st1 st2 where
      1: "(if True then Inr st else Inr st) = Inr st1 \<or> etharp_free_entry st i = Inr st1"
      and 2: "arp_upd st1 i (\<lambda>e. e\<lparr>arp_ipaddr := ip\<rparr>) = Inr st2"
      and 3: "arp_upd st2 i (\<lambda>e. e\<lparr>arp_ctime := 0\<rparr>) = Inr (snd x)"
      by (auto simp: etharp_find_entry_def rbind_eq_Inr split: if_splits sum.splits option.splits) blast+
    have "link_st.more st1 = link_st.more st" using 1 res_allD [OF free_entry_arpv, of st i st1] by (auto simp: arpv_iff)
    with res_allD [OF arp_upd_arpv 2] res_allD [OF arp_upd_arpv 3] show ?thesis by (simp add: arpv_iff)
  qed simp
qed

lemma find_entry_keeps: "res_all (\<lambda>x. arp_keeps st (snd x)) (etharp_find_entry st (Some ip) flags)"
proof (rule res_allI)
  fix x assume x: "etharp_find_entry st (Some ip) flags = Inr x"
  obtain r st' where r: "x = (r, st')" by (cases x)
  have "arp_inv st'" if inv: "arp_inv st"
  proof (cases r)
    case None
    with res_allD [OF find_entry_arpv [OF inv] x] r inv show ?thesis by (simp add: arp_inv_def arpv_def)
  next
    case (Some i)
    from res_allD [OF find_entry_arpv [OF inv] x] r Some have i: "i < ARP_TABLE_SIZE"
      and v: "st' = st \<or> arpv st' = ((arp_table st)[i := found_new (arp_table st) i ip], etharp_cached_entry st, link_st.more st)"
      by auto
    have "arp_ok ((arp_table st)[i := found_new (arp_table st) i ip]) \<and> etharp_cached_entry st < ARP_TABLE_SIZE"
      by (rule arp_inv_put [OF inv i]) (simp_all add: found_new_def arp_used_def)
    with v inv show ?thesis by (auto simp: arp_inv_def arpv_iff)
  qed
  with res_allD [OF find_entry_more x] r show "arp_keeps st (snd x)" by (simp add: arp_keeps_def)
qed

section \<open>The device below\<close>

locale link_device =
  fixes lo :: "('a ip_st_scheme) linkoutput"
  assumes lo_frame: "lo n p st = Inr (e, st') \<Longrightarrow> arpv st' = arpv st"
begin

lemma lo_arpv: "res_all (\<lambda>x. arpv (snd x) = arpv st) (lo n p st)"
  by (rule res_allI) (auto dest: lo_frame)

lemma send_ip_arpv: "res_all (\<lambda>x. arpv (snd x) = arpv st) (etharp_send_ip lo st n p src dst)"
  unfolding etharp_send_ip_def
  by (intro res_all_bind lo_arpv [THEN res_all_weaken]) simp

lemma raw_arpv: "res_all (\<lambda>x. arpv (snd x) = arpv st) (etharp_raw lo st n a b c d e f g)"
  unfolding etharp_raw_def res_all_simps(3)
  by (rule arp_lower(2) [THEN res_all_weaken])
    (auto intro!: res_all_any [where r = "get_pbuf s p" for s p] res_all_any [where r = "fill_arp u v a b c d e f g" for u v]
      lo_arpv [THEN res_all_weaken] arp_lower(1) [THEN res_all_weaken])

lemma request_arpv: "res_all (\<lambda>x. arpv (snd x) = arpv st) (etharp_request lo st n ip)"
  unfolding etharp_request_def by (intro res_all_bind raw_arpv)

lemma flush_arpv:
  "res_all (\<lambda>x. i < length (arp_table st) \<and> arpv x = ((arp_table st)[i := (arp_table st ! i)\<lparr>arp_q := []\<rparr>], etharp_cached_entry st, link_st.more st))
     (flush_queue fuel lo st n mac i)"
proof (induction fuel arbitrary: st)
  case 0
  show ?case
  proof (rule res_allI)
    fix x assume "flush_queue 0 lo st n mac i = Inr x"
    then have i: "i < length (arp_table st)" "arp_q (arp_table st ! i) = []" "x = st"
      by (auto simp: rbind_eq_Inr arp_at_eq split: if_splits)
    then have "(arp_table st ! i)\<lparr>arp_q := []\<rparr> = arp_table st ! i" by (cases "arp_table st ! i") simp
    then have "(arp_table st)[i := (arp_table st ! i)\<lparr>arp_q := []\<rparr>] = arp_table st" by (simp only: list_update_id)
    with i show "i < length (arp_table st) \<and> arpv x = ((arp_table st)[i := (arp_table st ! i)\<lparr>arp_q := []\<rparr>], etharp_cached_entry st, link_st.more st)"
      by (simp add: arpv_def)
  qed
next
  case (Suc fuel)
  show ?case
  proof (cases "arp_at st i")
    case (Inr e)
    then have i: "i < length (arp_table st)" "e = arp_table st ! i" by (simp_all add: arp_at_eq)
    show ?thesis
    proof (cases "arp_q e")
      case Nil
      then have "(arp_table st ! i)\<lparr>arp_q := []\<rparr> = arp_table st ! i" using i by (cases "arp_table st ! i") simp
      then have "(arp_table st)[i := (arp_table st ! i)\<lparr>arp_q := []\<rparr>] = arp_table st" by (simp only: list_update_id)
      with i Nil Inr show ?thesis by (simp add: arpv_def)
    next
      case (Cons a q)
      obtain r p where a: "a = (r, p)" by (cases a)
      let ?st1 = "arp_put st i (e\<lparr>arp_q := q\<rparr>)"
      let ?st2 = "?st1\<lparr>pools := memp_free (pools ?st1) MEMP_ARP_QUEUE r\<rparr>"
      have v: "i < length (arp_table x) \<and> arpv y = ((arp_table x)[i := (arp_table x ! i)\<lparr>arp_q := []\<rparr>], etharp_cached_entry x, link_st.more x)
          \<Longrightarrow> arpv x = arpv ?st2
          \<Longrightarrow> i < length (arp_table st) \<and> arpv y = ((arp_table st)[i := (arp_table st ! i)\<lparr>arp_q := []\<rparr>], etharp_cached_entry st, link_st.more st)" for x y
        using i by (simp add: arpv_iff)
      show ?thesis
        unfolding flush_queue.simps Inr rbind_Inr Cons a list.case prod.case Let_def
        by (intro res_all_bind res_all_simps(3) [THEN iffD2] send_ip_arpv [THEN res_all_weaken])
          (auto intro!: arp_lower(1) [THEN res_all_weaken] Suc.IH [THEN res_all_weaken] elim!: v)
    qed
  qed simp
qed

lemma update_more: "res_all (\<lambda>x. link_st.more (snd x) = link_st.more st) (etharp_update_arp_entry lo st n ip mac flags)"
proof -
  have e: "res_all (\<lambda>x. link_st.more (snd x) = link_st.more st)
      (rbind (arp_upd st1 i (\<lambda>e. e\<lparr>arp_state := ETHARP_STATE_STABLE, arp_netif := n, arp_ethaddr := mac, arp_ctime := 0\<rparr>))
                 (\<lambda>st2. rbind (flush_queue arp_fuel lo st2 n mac i) (\<lambda>st3. Inr (ERR_OK, st3))))"
    if "link_st.more st1 = link_st.more st" for st1 i
    by (intro res_all_simps(3) [THEN iffD2] arp_upd_arpv [THEN res_all_weaken] flush_arpv [THEN res_all_weaken])
      (use that in \<open>simp add: arpv_iff\<close>)
  have f: "res_all (\<lambda>x. link_st.more (snd x) = link_st.more st)
      (case y of (found, st1) \<Rightarrow>
        case found of None \<Rightarrow> Inr (ERR_MEM, st1)
        | Some i \<Rightarrow> rbind (arp_upd st1 i (\<lambda>e. e\<lparr>arp_state := ETHARP_STATE_STABLE, arp_netif := n, arp_ethaddr := mac, arp_ctime := 0\<rparr>))
                 (\<lambda>st2. rbind (flush_queue arp_fuel lo st2 n mac i) (\<lambda>st3. Inr (ERR_OK, st3))))"
    if "link_st.more (snd y) = link_st.more st" for y
    using that e by (cases y) (auto split: option.split)
  show ?thesis
    unfolding etharp_update_arp_entry_def
    by (rule res_all_bind, rule res_all_if, simp, rule res_all_simps(3) [THEN iffD2],
        rule find_entry_more [THEN res_all_weaken], rule f)
qed

text \<open>After an update that succeeds, the entry of the address is stable and has the hardware address.\<close>

lemma update_arpv:
  assumes "arp_inv st"
  shows "res_all (\<lambda>(r, st'). r = ERR_OK \<longrightarrow> arp_inv st' \<and>
      (\<exists>i e. i < ARP_TABLE_SIZE \<and> arp_table st' = (arp_table st)[i := e] \<and> arp_ipaddr e = ip \<and> arp_ethaddr e = mac
         \<and> arp_state e = ETHARP_STATE_STABLE \<and> arp_q e = [] \<and> arp_ctime e = 0 \<and> arp_netif e = n))
    (etharp_update_arp_entry lo st n ip mac flags)"
proof (rule res_allI)
  fix x assume x: "etharp_update_arp_entry lo st n ip mac flags = Inr x"
  have len: "length (arp_table st) = ARP_TABLE_SIZE" using assms arp_okD(1) by (auto simp: arp_inv_def)
  show "case x of (r, st') \<Rightarrow> r = ERR_OK \<longrightarrow> arp_inv st' \<and>
      (\<exists>i e. i < ARP_TABLE_SIZE \<and> arp_table st' = (arp_table st)[i := e] \<and> arp_ipaddr e = ip \<and> arp_ethaddr e = mac
         \<and> arp_state e = ETHARP_STATE_STABLE \<and> arp_q e = [] \<and> arp_ctime e = 0 \<and> arp_netif e = n)"
  proof (cases "fst x = ERR_OK")
    case True
    with x obtain i st1 st2 st3 where f: "etharp_find_entry st (Some ip) flags = Inr (Some i, st1)"
      and 2: "arp_upd st1 i (\<lambda>e. e\<lparr>arp_state := ETHARP_STATE_STABLE, arp_netif := n, arp_ethaddr := mac, arp_ctime := 0\<rparr>) = Inr st2"
      and 3: "flush_queue arp_fuel lo st2 n mac i = Inr st3" and xx: "x = (ERR_OK, st3)"
      by (auto simp: etharp_update_arp_entry_def rbind_eq_Inr split: if_splits option.splits)
    define e where "e = (arp_table st1 ! i)\<lparr>arp_state := ETHARP_STATE_STABLE, arp_netif := n, arp_ethaddr := mac, arp_ctime := 0, arp_q := []\<rparr>"
    from res_allD [OF find_entry_arpv [OF assms] f] have i: "i < ARP_TABLE_SIZE"
      and v: "arp_used (arp_table st ! i) \<and> arp_ipaddr (arp_table st ! i) = ip \<and> st1 = st
         \<or> (\<forall>j < ARP_TABLE_SIZE. arp_used (arp_table st ! j) \<longrightarrow> arp_ipaddr (arp_table st ! j) \<noteq> ip)
           \<and> arpv st1 = ((arp_table st)[i := found_new (arp_table st) i ip], etharp_cached_entry st, link_st.more st)"
      by auto
    have ip: "arp_ipaddr e = ip" using v i len by (auto simp: e_def arpv_iff found_new_def)
    have t3: "arp_table st3 = (arp_table st1)[i := e]" "etharp_cached_entry st3 = etharp_cached_entry st1"
      using res_allD [OF arp_upd_arpv 2] res_allD [OF flush_arpv 3] by (auto simp: arpv_iff e_def)
    have t: "arp_table st3 = (arp_table st)[i := e]" "etharp_cached_entry st3 = etharp_cached_entry st"
      using v t3 by (auto simp: arpv_iff)
    have "arp_ok ((arp_table st)[i := e]) \<and> etharp_cached_entry st < ARP_TABLE_SIZE"
    proof (rule arp_inv_put [OF assms i])
      show "arp_q e \<noteq> [] \<longrightarrow> arp_state e = ETHARP_STATE_PENDING" by (simp add: e_def)
      have t0: "arp_ok (arp_table st)" using assms by (simp add: arp_inv_def)
      show "arp_used e \<longrightarrow> (\<forall>j < ARP_TABLE_SIZE. j \<noteq> i \<longrightarrow> arp_used (arp_table st ! j) \<longrightarrow> arp_ipaddr (arp_table st ! j) \<noteq> arp_ipaddr e)"
        unfolding ip using v i arp_okD(3) [OF t0] by metis
    qed
    then have "arp_inv st3" by (simp add: arp_inv_def t)
    then show ?thesis using xx i t(1) ip by (auto simp: e_def intro!: exI [of _ i] exI [of _ e])
  qed (cases x; simp)
qed

lemma update_keeps: "res_all (\<lambda>x. arp_keeps st (snd x)) (etharp_update_arp_entry lo st n ip mac flags)"
proof (rule res_allI)
  fix x assume x: "etharp_update_arp_entry lo st n ip mac flags = Inr x"
  have "arp_inv (snd x)" if inv: "arp_inv st"
  proof (cases "fst x = ERR_OK")
    case True
    with res_allD [OF update_arpv [OF inv] x] show ?thesis by (cases x) auto
  next
    case False
    with x have "snd x = st \<or> etharp_find_entry st (Some ip) flags = Inr (None, snd x)"
      by (auto simp: etharp_update_arp_entry_def rbind_eq_Inr split: if_splits option.splits)
    then show ?thesis
    proof
      assume f: "etharp_find_entry st (Some ip) flags = Inr (None, snd x)"
      from res_allD [OF find_entry_keeps f] inv show ?thesis by (simp add: arp_keeps_def)
    qed (use inv in simp)
  qed
  with res_allD [OF update_more x] show "arp_keeps st (snd x)" by (simp add: arp_keeps_def)
qed

lemma cached_keeps: "i < length (arp_table st) \<Longrightarrow> arp_keeps st (st\<lparr>etharp_cached_entry := i\<rparr>)"
  by (rule arp_keepsI [OF arpv_cached]) (auto simp: arp_inv_def dest: arp_okD(1))

lemma queue_packet_keeps:
  fixes st :: "'a ip_st_scheme"
  assumes "arp_state (arp_table st ! i) = ETHARP_STATE_PENDING"
  shows "res_all (\<lambda>x. arp_keeps st (snd x)) (queue_packet st i q)"
proof -
  have put: "arp_keeps st st3" if "arpv st2 = arpv st" "i < length (arp_table st2)"
    "arpv st3 = ((arp_table st2)[i := (arp_table st2 ! i)\<lparr>arp_q := q'\<rparr>], etharp_cached_entry st2, link_st.more st2)"
    for st2 :: "'a ip_st_scheme" and st3 q'
  proof (rule arp_keepsI)
    show "arpv st3 = ((arp_table st)[i := (arp_table st ! i)\<lparr>arp_q := q'\<rparr>], etharp_cached_entry st, link_st.more st)"
      using that by (simp add: arpv_iff arpv_def [of st])
    assume inv: "arp_inv st"
    then have "i < ARP_TABLE_SIZE" using that(1,2) arp_okD(1) by (auto simp: arp_inv_def arpv_def)
    then show "arp_ok ((arp_table st)[i := (arp_table st ! i)\<lparr>arp_q := q'\<rparr>]) \<and> etharp_cached_entry st < ARP_TABLE_SIZE"
      by (rule arp_inv_same [OF inv]) (simp_all add: assms arp_used_def)
  qed
  have step: "res_all (\<lambda>x. arp_keeps st (snd x))
     (if p = 0 then Inr (ERR_MEM, st1)
       else case memp_malloc (pools st1) MEMP_ARP_QUEUE of (r, pools') \<Rightarrow>
         let st2 = st1\<lparr>pools := pools'\<rparr> in
         if r \<noteq> 0 then rbind (arp_upd st2 i (\<lambda>e. e\<lparr>arp_q := arp_q e @ [(r, p)]\<rparr>)) (\<lambda>st3. Inr (ERR_OK, st3))
         else rbind (pbuf_free st2 p) (\<lambda>(_, st3). Inr (ERR_MEM, st3)))"
    if "arpv st1 = arpv st" for p and st1 :: "'a ip_st_scheme"
    unfolding Let_def
    by (intro res_all_if res_all_pair res_all_simps(3) [THEN iffD2] arp_upd_arpv [THEN res_all_weaken] arp_lower(1) [THEN res_all_weaken])
      (use that in \<open>auto intro: arp_keeps_eq put [OF that] split: prod.splits\<close>)
  show ?thesis
    unfolding queue_packet_def res_all_simps(3)
    by (rule take_packet_arpv [THEN res_all_weaken], rule res_all_pair, rule step) simp
qed

text \<open>What \<^verbatim>\<open>etharp_query\<close> does once its entry \<open>i\<close> is there and in use.\<close>

lemma query_rest_keeps:
  fixes st2 :: "'a ip_st_scheme"
  shows "res_all (\<lambda>x. arp_keeps st2 (snd x))
    (rbind (arp_at st2 i) (\<lambda>e.
     rbind (if arp_state e = ETHARP_STATE_PENDING \<or> q = 0 then etharp_request lo st2 n ip else Inr (ERR_MEM, st2)) (\<lambda>(result, st3).
       if q = 0 then Inr (result, st3)
       else rbind (arp_at st3 i) (\<lambda>e.
         if state_is_stable (arp_state e) then
           etharp_send_ip lo (st3\<lparr>etharp_cached_entry := i\<rparr>) n q hw (arp_ethaddr e)
         else if arp_state e = ETHARP_STATE_PENDING then queue_packet st3 i q
         else Inr (result, st3)))))"
proof -
  have a: "res_all (\<lambda>x. arp_keeps st3 (snd x)) (rbind (arp_at st3 i) (\<lambda>e.
         if state_is_stable (arp_state e) then
           etharp_send_ip lo (st3\<lparr>etharp_cached_entry := i\<rparr>) n q hw (arp_ethaddr e)
         else if arp_state e = ETHARP_STATE_PENDING then queue_packet st3 i q
         else Inr (result, st3)))" for st3 :: "'a ip_st_scheme" and result
  proof (cases "arp_at st3 i")
    case (Inr e)
    then have i: "i < length (arp_table st3)" "e = arp_table st3 ! i" by (simp_all add: arp_at_eq)
    show ?thesis
      unfolding Inr rbind_Inr
      by (intro res_all_if send_ip_arpv [THEN res_all_weaken] queue_packet_keeps [THEN res_all_weaken])
        (use i in \<open>auto intro: arp_keeps_trans [OF cached_keeps arp_keeps_eq]\<close>)
  qed simp
  have b: "res_all (\<lambda>x. arpv (snd x) = arpv st2)
      (if c then etharp_request lo st2 n ip else Inr (ERR_MEM, st2))" for c
    by (simp add: request_arpv)
  have c: "res_all (\<lambda>x. arp_keeps st2 (snd x)) (case y of (result, st3) \<Rightarrow>
       if q = 0 then Inr (result, st3)
       else rbind (arp_at st3 i) (\<lambda>e.
         if state_is_stable (arp_state e) then
           etharp_send_ip lo (st3\<lparr>etharp_cached_entry := i\<rparr>) n q hw (arp_ethaddr e)
         else if arp_state e = ETHARP_STATE_PENDING then queue_packet st3 i q
         else Inr (result, st3)))" if y: "arpv (snd y) = arpv st2" for y
  proof (cases y)
    case (Pair result st3)
    with y have k: "arp_keeps st2 st3" by (simp add: arp_keeps_eq)
    show ?thesis
      unfolding Pair prod.case
      by (intro res_all_if a [THEN res_all_weaken]) (use k in \<open>auto intro: arp_keeps_trans [OF k]\<close>)
  qed
  show ?thesis
    by (rule res_all_bind, rule res_all_simps(3) [THEN iffD2], rule b [THEN res_all_weaken], rule c)
qed

lemma query_keeps: "res_all (\<lambda>x. arp_keeps st (snd x)) (etharp_query lo st n ip q)"
proof (rule res_allI)
  fix x assume x: "etharp_query lo st n ip q = Inr x"
  let ?rest = "\<lambda>xn st2 i. rbind (arp_at st2 i) (\<lambda>e.
     rbind (if arp_state e = ETHARP_STATE_PENDING \<or> q = 0 then etharp_request lo st2 n ip else Inr (ERR_MEM, st2)) (\<lambda>(result, st3).
       if q = 0 then Inr (result, st3)
       else rbind (arp_at st3 i) (\<lambda>e.
         if state_is_stable (arp_state e) then
           etharp_send_ip lo (st3\<lparr>etharp_cached_entry := i\<rparr>) n q (hwaddr xn) (arp_ethaddr e)
         else if arp_state e = ETHARP_STATE_PENDING then queue_packet st3 i q
         else Inr (result, st3))))"
  obtain xn where xn: "get_netif st n = Inr xn" using x by (cases "get_netif st n") (simp_all add: etharp_query_def)
  show "arp_keeps st (snd x)"
  proof (cases "ip4_addr_isbroadcast ip xn \<or> ip_addr_ismulticast ip \<or> ip_addr_isany ip")
    case True
    with x xn show ?thesis by (auto simp: etharp_query_def)
  next
    case False
    with x xn obtain found st1 where f: "etharp_find_entry st (Some ip) ETHARP_FLAG_TRY_HARD = Inr (found, st1)"
      and r: "(case found of
             None \<Rightarrow> Inr (ERR_MEM, st1)
           | Some i \<Rightarrow>
               rbind (arp_upd st1 i (\<lambda>e. if arp_state e = ETHARP_STATE_EMPTY then e\<lparr>arp_state := ETHARP_STATE_PENDING\<rparr> else e)) (\<lambda>st2.
                 ?rest xn st2 i)) = Inr x"
      by (auto simp: etharp_query_def rbind_eq_Inr)
    have k: "arp_keeps st st1" using res_allD [OF find_entry_keeps f] by simp
    show ?thesis
    proof (cases found)
      case None
      with r k show ?thesis by auto
    next
      case (Some i)
      with r obtain st2 where 2: "arp_upd st1 i (\<lambda>e. if arp_state e = ETHARP_STATE_EMPTY then e\<lparr>arp_state := ETHARP_STATE_PENDING\<rparr> else e) = Inr st2"
        and 3: "?rest xn st2 i = Inr x" by (auto simp: rbind_eq_Inr)
      note u = res_allD [OF arp_upd_arpv 2]
      have "arp_keeps st st2"
      proof (rule arp_keepsI)
        let ?e = "if arp_state (arp_table st1 ! i) = ETHARP_STATE_EMPTY then (arp_table st1 ! i)\<lparr>arp_state := ETHARP_STATE_PENDING\<rparr> else arp_table st1 ! i"
        show "arpv st2 = ((arp_table st1)[i := ?e], etharp_cached_entry st1, link_st.more st)"
          using u k by (simp add: arp_keeps_def)
        assume inv: "arp_inv st"
        with k have inv1: "arp_inv st1" by (simp add: arp_keeps_def)
        from res_allD [OF find_entry_arpv [OF inv] f] Some have i: "i < ARP_TABLE_SIZE"
          and v: "arp_used (arp_table st ! i) \<and> st1 = st
            \<or> (\<forall>j < ARP_TABLE_SIZE. arp_used (arp_table st ! j) \<longrightarrow> arp_ipaddr (arp_table st ! j) \<noteq> ip)
              \<and> arp_table st1 = (arp_table st)[i := found_new (arp_table st) i ip]"
          by (auto simp: arpv_iff)
        show "arp_ok ((arp_table st1)[i := ?e]) \<and> etharp_cached_entry st1 < ARP_TABLE_SIZE"
        proof (cases "arp_used (arp_table st1 ! i)")
          case True
          then show ?thesis using inv1 by (simp add: arp_used_def arp_inv_def)
        next
          case False
          have len: "length (arp_table st) = ARP_TABLE_SIZE" using inv arp_okD(1) by (auto simp: arp_inv_def)
          from v False have n: "\<forall>j < ARP_TABLE_SIZE. arp_used (arp_table st ! j) \<longrightarrow> arp_ipaddr (arp_table st ! j) \<noteq> ip"
            and t: "arp_table st1 = (arp_table st)[i := found_new (arp_table st) i ip]" by auto
          show ?thesis
            by (rule arp_inv_put [OF inv1 i]) (use False n t i len in \<open>auto simp: arp_used_def found_new_def\<close>)
        qed
      qed
      with res_allD [OF query_rest_keeps 3] show ?thesis by (blast intro: arp_keeps_trans)
    qed
  qed
qed

lemma output_index_keeps: "res_all (\<lambda>x. arp_keeps st (snd x)) (etharp_output_to_arp_index lo st n q i)"
proof (cases "arp_at st i")
  case (Inr e)
  then have i: "i < length (arp_table st)" "e = arp_table st ! i" by (simp_all add: arp_at_eq)
  have rereq: "arp_keeps st st2" if "arpv st1 = arpv st" "arp_state e = ETHARP_STATE_STABLE"
    "arpv st2 = ((arp_table st1)[i := (arp_table st1 ! i)\<lparr>arp_state := ETHARP_STATE_STABLE_REREQUESTING\<rparr>], etharp_cached_entry st1, link_st.more st1)"
    for st1 st2 :: "'a ip_st_scheme"
  proof -
    have "arp_keeps st (arp_put st i (e\<lparr>arp_state := ETHARP_STATE_STABLE_REREQUESTING\<rparr>))"
      by (rule arp_put_keeps) (use i that(2) in \<open>simp_all add: state_is_stable_def\<close>)
    moreover have "arpv st2 = arpv (arp_put st i (e\<lparr>arp_state := ETHARP_STATE_STABLE_REREQUESTING\<rparr>))"
      using that i by (simp add: arpv_iff [of st1] arpv_def [of st])
    ultimately show ?thesis by (blast intro: arp_keeps_trans arp_keeps_eq)
  qed
  have "res_all (\<lambda>x. arp_keeps st x)
      (if arp_state e = ETHARP_STATE_STABLE \<and> ARP_AGE_REREQUEST_USED \<le> arp_ctime e then
                rbind (etharp_request lo st n (arp_ipaddr e)) (\<lambda>(r, st1).
                  if r = ERR_OK then arp_upd st1 i (\<lambda>e. e\<lparr>arp_state := ETHARP_STATE_STABLE_REREQUESTING\<rparr>) else Inr st1)
              else Inr st)"
    by (intro res_all_if res_all_simps(3) [THEN iffD2] request_arpv [THEN res_all_weaken])
      (auto intro!: arp_upd_arpv [THEN res_all_weaken] intro: rereq arp_keeps_eq)
  then show ?thesis
    unfolding etharp_output_to_arp_index_def Inr rbind_Inr
    by (intro res_all_simps(3) [THEN iffD2]) (erule res_all_weaken,
        intro res_all_simps(3) [THEN iffD2, OF res_all_any] res_all_bind send_ip_arpv [THEN res_all_weaken],
        blast intro: arp_keeps_trans arp_keeps_eq)
qed (simp add: etharp_output_to_arp_index_def)

lemma find_stable_less: "find_stable t ip k = Some i \<Longrightarrow> i < k + length t"
  by (induction t arbitrary: k) (force split: if_splits)+

lemma output_keeps: "res_all (\<lambda>x. arp_keeps st (snd x)) (etharp_output lo st n q ip)"
proof -
  have body: "res_all (\<lambda>x. arp_keeps st1 (snd x))
     (rbind (get_netif st1 n) (\<lambda>x.
         if ip4_addr_isbroadcast ip x then etharp_send_ip lo st1 n q (hwaddr x) ethbroadcast
         else if ip_addr_ismulticast ip then etharp_send_ip lo st1 n q (hwaddr x) (mcast_addr ip)
         else
           let outside = \<not> ip_addr_netcmp ip (ip_addr x) (netmask x) \<and> \<not> ip_addr_islinklocal ip in
           if outside \<and> ip_addr_isany (gw x) then Inr (ERR_RTE, st1)
           else
             let dst_addr = (if outside then gw x else ip) in
             rbind (arp_at st1 (etharp_cached_entry st1)) (\<lambda>c.
               if state_is_stable (arp_state c) \<and> dst_addr = arp_ipaddr c
               then etharp_output_to_arp_index lo st1 n q (etharp_cached_entry st1)
               else case find_stable (arp_table st1) dst_addr 0 of
                 Some i \<Rightarrow> etharp_output_to_arp_index lo (st1\<lparr>etharp_cached_entry := i\<rparr>) n q i
               | None \<Rightarrow> etharp_query lo st1 n dst_addr q)))" for st1 :: "'a ip_st_scheme"
  proof -
    have f: "res_all (\<lambda>x. arp_keeps st1 (snd x))
      (case find_stable (arp_table st1) d 0 of
         Some i \<Rightarrow> etharp_output_to_arp_index lo (st1\<lparr>etharp_cached_entry := i\<rparr>) n q i
       | None \<Rightarrow> etharp_query lo st1 n d q)" for d
    proof (cases "find_stable (arp_table st1) d 0")
      case (Some i)
      then have "arp_keeps st1 (st1\<lparr>etharp_cached_entry := i\<rparr>)" using find_stable_less [OF Some] by (intro cached_keeps) simp
      then show ?thesis
        unfolding Some option.case by (intro output_index_keeps [THEN res_all_weaken]) (rule arp_keeps_trans)
    qed (simp add: query_keeps)
    show ?thesis
      unfolding Let_def
      by (intro res_all_bind res_all_if f output_index_keeps send_ip_arpv [THEN res_all_weaken]) (auto intro: arp_keeps_eq)
  qed
  show ?thesis
    unfolding etharp_output_def
    by (rule res_all_simps(3) [THEN iffD2], rule arp_lower(3) [THEN res_all_weaken], rule res_all_pair, rule res_all_if,
        simp add: arp_keeps_eq, rule body [THEN res_all_weaken], rule arp_keeps_trans [OF arp_keeps_eq]) simp_all
qed

lemma arp_input_keeps: "res_all (\<lambda>x. arp_keeps st x) (etharp_arp_input lo st n mac p)"
proof -
  have fr: "res_all (\<lambda>x. arp_keeps st x) (rbind (pbuf_free st1 p) (\<lambda>(_, st2). Inr st2))" if "arp_keeps st st1" for st1
    by (rule res_all_simps(3) [THEN iffD2], rule arp_lower(1) [THEN res_all_weaken], rule res_all_pair)
      (auto intro: arp_keeps_trans [OF that arp_keeps_eq])
  have reply: "res_all (\<lambda>x. arp_keeps st x)
      (rbind (rd16 (bytes st1) (h + 20)) (\<lambda>opcode.
               rbind (if opcode = lwip_htons ARP_REQUEST \<and> for_us then
                        rbind (make_reply (bytes st1) h ip mac) (\<lambda>m.
                        rbind (lo n p (st1\<lparr>bytes := m\<rparr>)) (\<lambda>(_, st2). Inr st2))
                      else Inr st1) (\<lambda>st2.
               rbind (pbuf_free st2 p) (\<lambda>(_, st3). Inr st3))))" if k: "arp_keeps st st1" for st1 h ip for_us
  proof -
    have m2: "res_all (\<lambda>x. arp_keeps st x) (if c then
                        rbind (make_reply (bytes st1) h ip mac) (\<lambda>m.
                        rbind (lo n p (st1\<lparr>bytes := m\<rparr>)) (\<lambda>(_, st2). Inr st2))
                      else Inr st1)" for c
      by (intro res_all_if res_all_bind res_all_simps(3) [THEN iffD2] lo_arpv [THEN res_all_weaken] res_all_pair)
        (use k in \<open>auto intro: arp_keeps_trans [OF k arp_keeps_eq]\<close>)
    show ?thesis
      by (rule res_all_bind, rule res_all_simps(3) [THEN iffD2], rule m2 [THEN res_all_weaken], rule fr)
  qed
  show ?thesis
    unfolding etharp_arp_input_def Let_def
    by (rule res_all_bind, rule res_all_if, rule fr, rule arp_keeps_refl,
        rule res_all_bind, rule res_all_bind, rule res_all_bind, rule res_all_bind, rule res_all_if, rule fr, rule arp_keeps_refl,
        rule res_all_bind, rule res_all_bind, rule res_all_bind, rule res_all_bind,
        rule res_all_simps(3) [THEN iffD2], rule update_keeps [THEN res_all_weaken], rule res_all_pair, rule reply) simp
qed

end

text \<open>The Ethernet adapter's \<^verbatim>\<open>linkoutput\<close>.\<close>

definition adapter_output :: "('a link_st_scheme) linkoutput" where
  "adapter_output n p st = low_level_output st p"

interpretation adapter: link_device adapter_output
proof unfold_locales
  fix n p e and st st' :: "'a ip_st_scheme"
  assume "adapter_output n p st = Inr (e, st')"
  then show "arpv st' = arpv st"
    using above_low_level_output [of st p e st'] by (simp add: adapter_output_def above_def arpv_def)
qed

section \<open>Histories\<close>

definition empty_entry :: etharp_entry where
  "empty_entry = \<lparr>arp_q = [], arp_ipaddr = 0, arp_netif = 0, arp_ethaddr = ethzero, arp_state = ETHARP_STATE_EMPTY, arp_ctime = 0\<rparr>"

text \<open>
  The states that the calls of the module reach from a cleared table, whatever the rest of the program
  does in between as long as it leaves the table alone.
\<close>

inductive arp_reach :: "'a ip_st_scheme \<Rightarrow> bool" where
  start: "arp_table st = replicate ARP_TABLE_SIZE empty_entry \<Longrightarrow> etharp_cached_entry st = 0 \<Longrightarrow> arp_reach st"
| tmr: "arp_reach st \<Longrightarrow> etharp_tmr st = Inr st' \<Longrightarrow> arp_reach st'"
| send: "arp_reach st \<Longrightarrow> etharp_output adapter_output st n q ip = Inr (e, st') \<Longrightarrow> arp_reach st'"
| query: "arp_reach st \<Longrightarrow> etharp_query adapter_output st n ip q = Inr (e, st') \<Longrightarrow> arp_reach st'"
| input: "arp_reach st \<Longrightarrow> etharp_arp_input adapter_output st n mac p = Inr st' \<Longrightarrow> arp_reach st'"
| cleanup: "arp_reach st \<Longrightarrow> etharp_cleanup st n = Inr st' \<Longrightarrow> arp_reach st'"
| find: "arp_reach st \<Longrightarrow> etharp_find_addr st ip = Inr (r, st') \<Longrightarrow> arp_reach st'"
| other: "arp_reach st \<Longrightarrow> arp_table st' = arp_table st \<Longrightarrow> etharp_cached_entry st' = etharp_cached_entry st \<Longrightarrow> arp_reach st'"

lemma find_addr_keeps: "etharp_find_addr st ip = Inr (r, st') \<Longrightarrow> arp_keeps st st'"
  using find_entry_keeps [of st ip ETHARP_FLAG_FIND_ONLY]
  by (auto simp: etharp_find_addr_def rbind_eq_Inr split: option.splits dest!: res_allD)

lemmas arp_ops_keep = tmr_loop_keeps [THEN res_allD] adapter.output_keeps [THEN res_allD] adapter.query_keeps [THEN res_allD]
  adapter.arp_input_keeps [THEN res_allD] cleanup_loop_keeps [THEN res_allD]

section \<open>Properties\<close>

text \<open>C31: whatever packets and requests arrive and however the ARP timer runs, the table never has two
  entries in use for one address, only an entry whose address is being resolved has packets waiting, and
  the cached index lies inside the table.\<close>

theorem arp_table_consistent:
  assumes "arp_reach st"
  shows "arp_inv st"
  using assms
proof induction
  case (start st)
  then show ?case by (simp add: arp_inv_def arp_ok_def empty_entry_def arp_used_def ARP_TABLE_SIZE_def nth_replicate)
next
  case (tmr st st')
  then show ?case using arp_ops_keep(1) [of st "[0 ..< ARP_TABLE_SIZE]"] by (simp add: etharp_tmr_def arp_keeps_def)
next
  case (send st n q ip e st')
  then show ?case using arp_ops_keep(2) [OF send(2)] by (simp add: arp_keeps_def)
next
  case (query st n ip q e st')
  then show ?case using arp_ops_keep(3) [OF query(2)] by (simp add: arp_keeps_def)
next
  case (input st n mac p st')
  then show ?case using arp_ops_keep(4) [OF input(2)] by (simp add: arp_keeps_def)
next
  case (cleanup st n st')
  then show ?case using arp_ops_keep(5) [of st n "[0 ..< ARP_TABLE_SIZE]"] by (simp add: etharp_cleanup_def arp_keeps_def)
next
  case (find st ip r st')
  then show ?case using find_addr_keeps [OF find(2)] by (simp add: arp_keeps_def)
qed (simp add: arp_inv_def)

text \<open>A state with a table whose first entry waits for the address \<open>ip\<close>.\<close>

definition sample_arp :: "memory \<Rightarrow> (addr \<rightharpoonup> pbuf) \<Rightarrow> etharp_entry list \<Rightarrow> ip_st" where
  "sample_arp m h t = link_st.extend ((sample_link m h pq_empty)\<lparr>arp_table := t\<rparr>)
     (ip_st.fields [7 \<mapsto> \<lparr>ip_addr = 0xC701A8C0, netmask = 0x00FFFFFF, gw = 0x0101A8C0, mtu = 1500,
        hwaddr = [0, 0x0a, 0x35, 0, 1, 2], nif_flags = NETIF_FLAG_UP OR NETIF_FLAG_BROADCAST OR NETIF_FLAG_ETHARP, nif_num = 0\<rparr>]
        [7] 7 1 0 0 0 0 0 Map.empty 0 0 Map.empty Map.empty 0 Map.empty 0 0xc000)"

lemma sample_arp_simps [simp]:
  "arp_table (sample_arp m h t) = t" "etharp_cached_entry (sample_arp m h t) = 0" "bytes (sample_arp m h t) = m"
  "pbufs (sample_arp m h t) = h"
  by (simp_all add: sample_arp_def sample_link_def link_st.extend_def)

lemma sample_netif_at: "netifs (sample_arp m h t) 7 = Some \<lparr>ip_addr = 0xC701A8C0, netmask = 0x00FFFFFF, gw = 0x0101A8C0, mtu = 1500,
        hwaddr = [0, 0x0a, 0x35, 0, 1, 2], nif_flags = NETIF_FLAG_UP OR NETIF_FLAG_BROADCAST OR NETIF_FLAG_ETHARP, nif_num = 0\<rparr>"
  by (simp add: sample_arp_def sample_link_def link_st.extend_def ip_st.fields_def)

lemma flush_queue_none: "arp_at st i = Inr e \<Longrightarrow> arp_q e = [] \<Longrightarrow> flush_queue fuel lo st n mac i = Inr st"
  by (cases fuel) simp_all

definition pending_entry :: "u32 \<Rightarrow> etharp_entry" where
  "pending_entry ip = empty_entry\<lparr>arp_ipaddr := ip, arp_state := ETHARP_STATE_PENDING\<rparr>"

definition sample_table :: "u32 \<Rightarrow> etharp_entry list" where
  "sample_table ip = pending_entry ip # replicate 9 empty_entry"

theorem arp_table_consistent_witness:
  "arp_inv (sample_arp (\<lambda>_. None) (\<lambda>_. None) (replicate ARP_TABLE_SIZE empty_entry))"
  by (rule arp_table_consistent, rule arp_reach.start) simp_all

text \<open>After an update of the table that succeeds, a look-up of the address returns the hardware address
  just learnt, and no packet waits for it any more.\<close>

theorem arp_update_then_find:
  assumes "arp_inv st" "etharp_update_arp_entry adapter_output st n ip mac flags = Inr (ERR_OK, st')"
  shows "\<exists>i. etharp_find_addr st' ip = Inr (Some (i, mac, ip), st') \<and> arp_q (arp_table st' ! i) = []"
proof -
  from res_allD [OF adapter.update_arpv [OF assms(1)] assms(2)] obtain i e where inv: "arp_inv st'" and i: "i < ARP_TABLE_SIZE"
    and t: "arp_table st' = (arp_table st)[i := e]" and e: "arp_ipaddr e = ip" "arp_ethaddr e = mac" "arp_state e = ETHARP_STATE_STABLE" "arp_q e = []"
    by auto
  have tok: "arp_ok (arp_table st')" "length (arp_table st') = ARP_TABLE_SIZE" using inv arp_okD(1) by (auto simp: arp_inv_def)
  have ei: "arp_table st' ! i = e" using t i tok(2) by simp
  obtain r st2 where f: "etharp_find_entry st' (Some ip) ETHARP_FLAG_FIND_ONLY = Inr (r, st2)"
    by (cases "find_sweep (arp_table st') (Some ip) 0 no_cands") (auto simp: etharp_find_entry_def ETHARP_FLAG_FIND_ONLY_def)
  from res_allD [OF find_entry_arpv [OF inv] f] have "r = Some i \<and> st2 = st'"
    using i ei e arp_okD(3) [OF tok(1)]
    by (auto simp: arp_used_def ETHARP_FLAG_FIND_ONLY_def split: option.splits)
  with f have "etharp_find_addr st' ip = Inr (Some (i, mac, ip), st')"
    using i tok(2) ei e by (simp add: etharp_find_addr_def arp_at_def nth_res_def state_is_stable_def)
  with ei e show ?thesis by auto
qed

lemma sample_update:
  "\<exists>st'. etharp_update_arp_entry adapter_output (sample_arp m h (sample_table 0x0A01A8C0)) 7 0x0A01A8C0 mac 1 = Inr (ERR_OK, st')
     \<and> bytes st' = m"
  by (simp add: etharp_update_arp_entry_def get_netif_def sample_netif_at etharp_find_entry_def sample_table_def pending_entry_def
      empty_entry_def no_cands_def ARP_TABLE_SIZE_def arp_upd_def arp_at_def nth_res_def arp_put_def flush_queue_none
      ip_addr_isany_def ip4_addr_isbroadcast_def ip_addr_ismulticast_def ip_addr_netcmp_def IPADDR_ANY_def IPADDR_BROADCAST_def
      NETIF_FLAG_BROADCAST_def NETIF_FLAG_UP_def NETIF_FLAG_ETHARP_def lwip_htonl_def)

theorem arp_update_then_find_witness:
  "\<exists>st'. etharp_update_arp_entry adapter_output (sample_arp (\<lambda>_. None) (\<lambda>_. None) (sample_table 0x0A01A8C0)) 7 0x0A01A8C0 [2, 0, 0, 0, 0, 9] 1
      = Inr (ERR_OK, st') \<and> (\<exists>i. etharp_find_addr st' 0x0A01A8C0 = Inr (Some (i, [2, 0, 0, 0, 0, 9], 0x0A01A8C0), st'))"
proof -
  let ?st = "sample_arp (\<lambda>_. None) (\<lambda>_. None) (sample_table 0x0A01A8C0)"
  have inv: "arp_inv ?st"
    by (auto simp: arp_inv_def arp_ok_def sample_table_def ARP_TABLE_SIZE_def pending_entry_def empty_entry_def arp_used_def nth_Cons' less_Suc_eq)
  from sample_update obtain st' where u: "etharp_update_arp_entry adapter_output ?st 7 0x0A01A8C0 [2, 0, 0, 0, 0, 9] 1 = Inr (ERR_OK, st')" by blast
  from arp_update_then_find [OF inv u] u show ?thesis by blast
qed

section \<open>Replies\<close>

text \<open>The fields of an ARP packet, in the order of the frame.\<close>

definition arp_frame :: "u8 list \<Rightarrow> u8 list \<Rightarrow> u8 list \<Rightarrow> u16 \<Rightarrow> u8 list \<Rightarrow> u32 \<Rightarrow> u8 list \<Rightarrow> u32 \<Rightarrow> u8 list \<Rightarrow> u8 list" where
  "arp_frame dst src hw opcode sha sip tha tip rest =
     dst @ src @ bytes16 (lwip_htons ETHTYPE_ARP) @ hw @ bytes16 (lwip_htons opcode) @ sha @ bytes32 sip @ tha @ bytes32 tip @ rest"

lemma make_reply_spec:
  assumes h: "holds m h (arp_frame dst src hw ARP_REQUEST sha sip tha tip rest)"
    and l: "length dst = 6" "length src = 6" "length hw = 6" "length sha = 6" "length tha = 6" "length mac = 6"
  shows "\<exists>m'. make_reply m h ip mac = Inr m' \<and> holds m' h (arp_frame sha mac hw ARP_REPLY mac ip sha sip rest)"
proof -
  let ?ty = "bytes16 (lwip_htons ETHTYPE_ARP)" and ?rep = "bytes16 (lwip_htons ARP_REPLY)" and ?req = "bytes16 (lwip_htons ARP_REQUEST)"
  have b: "length (bytes16 v) = 2" "length (bytes32 w) = 4" for v w by (simp_all add: bytes16_def bytes32_def)
  note [simp] = b l ETHARP_HWADDR_LEN_def
  have f0: "holds m h ((dst @ src @ ?ty @ hw) @ ?req @ (sha @ bytes32 sip @ tha @ bytes32 tip @ rest))"
    using h by (simp add: arp_frame_def)
  obtain m1 where 1: "wr16 m (h + 20) (lwip_htons ARP_REPLY) = Inr m1"
    and f1: "holds m1 h ((dst @ src @ ?ty @ hw @ ?rep @ sha @ bytes32 sip @ tha) @ bytes32 tip @ rest)"
    using wr_mid [OF f0, of ?rep "h + 20"] by (auto simp: wr16_def)
  have s1: "holds m1 (h + 28) (bytes32 sip)"
    by (rule holds_mid [where a = h and xs = "dst @ src @ ?ty @ hw @ ?rep @ sha" and zs = "tha @ bytes32 tip @ rest"]) (use f1 in simp_all)
  obtain m2 where 2: "memcpy m1 (h + 38) (h + 28) 4 = Inr m2"
    and f2: "holds m2 h ((dst @ src @ ?ty @ hw @ ?rep @ sha) @ bytes32 sip @ (tha @ bytes32 sip @ rest))"
    by (rule exE [OF memcpy_mid [OF f1 _ s1, of "h + 38" 4]], simp, simp, simp) (use that in \<open>simp\<close>)
  obtain m3 where 3: "wr32 m2 (h + 28) ip = Inr m3"
    and f3: "holds m3 h ((dst @ src @ ?ty @ hw @ ?rep @ sha @ bytes32 ip) @ tha @ (bytes32 sip @ rest))"
    using wr_mid [OF f2, of "bytes32 ip" "h + 28"] by (auto simp: wr32_def)
  have s3: "holds m3 (h + 22) sha"
    by (rule holds_mid [where a = h and xs = "dst @ src @ ?ty @ hw @ ?rep" and zs = "bytes32 ip @ tha @ bytes32 sip @ rest"]) (use f3 in simp_all)
  obtain m4 where 4: "memcpy m3 (h + 32) (h + 22) ETHARP_HWADDR_LEN = Inr m4"
    and f4: "holds m4 h ([] @ dst @ (src @ ?ty @ hw @ ?rep @ sha @ bytes32 ip @ sha @ bytes32 sip @ rest))"
    by (rule exE [OF memcpy_mid [OF f3 _ s3, of "h + 32" 6]], simp, simp, simp) (use that in \<open>simp\<close>)
  have s4: "holds m4 (h + 22) sha"
    by (rule holds_mid [where a = h and xs = "dst @ src @ ?ty @ hw @ ?rep" and zs = "bytes32 ip @ sha @ bytes32 sip @ rest"]) (use f4 in simp_all)
  obtain m5 where 5: "memcpy m4 h (h + 22) ETHARP_HWADDR_LEN = Inr m5"
    and f5: "holds m5 h ((sha @ src @ ?ty @ hw @ ?rep) @ sha @ (bytes32 ip @ sha @ bytes32 sip @ rest))"
    by (rule exE [OF memcpy_mid [OF f4 _ s4, of h 6]], simp, simp, simp) (use that in \<open>simp\<close>)
  obtain m6 where 6: "wr_bytes m5 (h + 22) mac = Inr m6"
    and f6: "holds m6 h (sha @ src @ (?ty @ hw @ ?rep @ mac @ bytes32 ip @ sha @ bytes32 sip @ rest))"
    using wr_mid [OF f5, of mac "h + 22"] by auto
  obtain m7 where 7: "wr_bytes m6 (h + 6) mac = Inr m7"
    and f7: "holds m7 h (sha @ mac @ (?ty @ hw @ ?rep @ mac @ bytes32 ip @ sha @ bytes32 sip @ rest))"
    using wr_mid [OF f6, of mac "h + 6"] by auto
  show ?thesis using 1 2 3 4 5 6 7 f7 by (simp add: make_reply_def arp_frame_def)
qed

text \<open>C34: an ARP request for the address of the interface, as an Ethernet frame, is turned in place into the
  reply (the requester's addresses as the targets, the interface's as the sender's), handed to
  \<^verbatim>\<open>linkoutput\<close>, and freed.\<close>

theorem arp_request_answered:
  assumes p: "get_pbuf st p = Inr b" "SIZEOF_ETHARP_PACKET \<le> unat (pb_len b)"
    and n: "get_netif st n = Inr x" "\<not> ip_addr_isany (ip_addr x)"
    and f: "holds (bytes st) (payload b) (arp_frame dst src [0, 1, 8, 0, 6, 4] ARP_REQUEST sha sip tha (ip_addr x) rest)"
    and l: "length dst = 6" "length src = 6" "length sha = 6" "length tha = 6" "length mac = 6"
    and u: "etharp_update_arp_entry lo st n sip sha ETHARP_FLAG_TRY_HARD = Inr (e, st1)"
    and same: "holds (bytes st1) (payload b) (arp_frame dst src [0, 1, 8, 0, 6, 4] ARP_REQUEST sha sip tha (ip_addr x) rest)"
  shows "\<exists>m. holds m (payload b) (arp_frame sha mac [0, 1, 8, 0, 6, 4] ARP_REPLY mac (ip_addr x) sha sip rest)
    \<and> etharp_arp_input lo st n mac p
      = rbind (lo n p (st1\<lparr>bytes := m\<rparr>)) (\<lambda>(_, st2). rbind (pbuf_free st2 p) (\<lambda>(_, st3). Inr st3))"
proof -
  have ll: "length (bytes16 v) = 2" "length (bytes32 w) = 4" for v w by (simp_all add: bytes16_def bytes32_def)
  note [simp] = l ll ETHARP_HWADDR_LEN_def
  let ?h = "payload b"
  let ?ty = "bytes16 (lwip_htons ETHTYPE_ARP)" and ?req = "bytes16 (lwip_htons ARP_REQUEST)"
  have hw: "holds (bytes st) (?h + 14) [0, 1, 8, 0, 6, 4]" and sha: "holds (bytes st) (?h + 22) sha"
    and ips: "holds (bytes st) (?h + 28) (bytes32 sip)" "holds (bytes st) (?h + 38) (bytes32 (ip_addr x))"
    using f by (simp_all add: arp_frame_def holds_append add.commute [of "payload b"])
  have op: "holds (bytes st1) (?h + 20) ?req" using same by (simp add: arp_frame_def holds_append add.commute [of "payload b"])
  have r: "rd16 (bytes st) (?h + 14) = Inr (lwip_htons HWTYPE_ETHERNET)" "rd8 (bytes st) (?h + 18) = Inr 6"
    "rd8 (bytes st) (?h + 19) = Inr 4" "rd16 (bytes st) (?h + 16) = Inr (lwip_htons ETHTYPE_IP)"
    using hw by (simp_all add: rd16_def rd8_def le16_def lwip_htons_def HWTYPE_ETHERNET_def ETHTYPE_IP_def add.commute [of _ "payload b"])
  have r32: "rd32 (bytes st) (?h + 28) = Inr sip" "rd32 (bytes st) (?h + 38) = Inr (ip_addr x)"
    using ips rd32_bytes32 by blast+
  have ro: "rd16 (bytes st1) (?h + 20) = Inr (lwip_htons ARP_REQUEST)" using op rd16_bytes16 by blast
  have rs: "rd_bytes (bytes st) (?h + 22) 6 = Inr sha" using rd_bytes_holds [OF sha] by simp
  from make_reply_spec [OF same l(1,2) _ l(3,4,5)] obtain m where m: "make_reply (bytes st1) ?h (ip_addr x) mac = Inr m"
    "holds m ?h (arp_frame sha mac [0, 1, 8, 0, 6, 4] ARP_REPLY mac (ip_addr x) sha sip rest)" by auto
  show ?thesis
    using p n r r32 ro rs m u
    by (intro exI [of _ m]) (simp add: etharp_arp_input_def Let_def rbind_assoc case_prod_unfold)
qed

definition sample_request :: "u8 list" where
  "sample_request = arp_frame ethbroadcast [2, 0, 0, 0, 0, 9] [0, 1, 8, 0, 6, 4] ARP_REQUEST [2, 0, 0, 0, 0, 9] 0x0A01A8C0 ethzero 0xC701A8C0 []"

theorem arp_request_answered_witness:
  "\<exists>m st1. holds m 300 (arp_frame [2, 0, 0, 0, 0, 9] [0, 0x0a, 0x35, 0, 1, 2] [0, 1, 8, 0, 6, 4] ARP_REPLY
        [0, 0x0a, 0x35, 0, 1, 2] 0xC701A8C0 [2, 0, 0, 0, 0, 9] 0x0A01A8C0 [])
     \<and> etharp_arp_input adapter_output (sample_arp (mem_of sample_request) [100 \<mapsto> sample_pbuf 0 300 42 42 1] (sample_table 0x0A01A8C0))
         7 [0, 0x0a, 0x35, 0, 1, 2] 100
       = rbind (adapter_output 7 100 (st1\<lparr>bytes := m\<rparr>)) (\<lambda>(_, st2). rbind (pbuf_free st2 100) (\<lambda>(_, st3). Inr st3))"
proof -
  let ?st = "sample_arp (mem_of sample_request) [100 \<mapsto> sample_pbuf 0 300 42 42 1] (sample_table 0x0A01A8C0)"
  let ?b = "sample_pbuf 0 300 42 42 1"
  from sample_update obtain st1 where u: "etharp_update_arp_entry adapter_output ?st 7 0x0A01A8C0 [2, 0, 0, 0, 0, 9] ETHARP_FLAG_TRY_HARD
      = Inr (ERR_OK, st1)" "bytes st1 = mem_of sample_request"
    unfolding ETHARP_FLAG_TRY_HARD_def by blast
  have p: "get_pbuf ?st 100 = Inr ?b" "SIZEOF_ETHARP_PACKET \<le> unat (pb_len ?b)" "payload ?b = 300"
    by (simp_all add: get_pbuf_def sample_pbuf_def SIZEOF_ETHARP_PACKET_def SIZEOF_ETH_HDR_def SIZEOF_ETHARP_HDR_def)
  note n = sample_netif_at [of "mem_of sample_request" "[100 \<mapsto> sample_pbuf 0 300 42 42 1]" "sample_table 0x0A01A8C0"]
  obtain x where x: "get_netif ?st 7 = Inr x" "\<not> ip_addr_isany (ip_addr x)" "ip_addr x = 0xC701A8C0"
    using n by (simp add: get_netif_def ip_addr_isany_def IPADDR_ANY_def)
  from arp_request_answered [OF p(1,2) x(1,2) _ _ _ _ _ _ u(1),
      where dst = ethbroadcast and src = "[2, 0, 0, 0, 0, 9]" and tha = ethzero and rest = "[]" and mac = "[0, 0x0a, 0x35, 0, 1, 2]"]
  show ?thesis
    using holds_mem_of [of sample_request] u(2) x(3) p(3)
    by (auto simp: sample_request_def ethbroadcast_def ethzero_def)
qed

end
