(* ===== verification/Below.thy ===== *)
theory Below
  imports IpIn Etharp
begin

text \<open>
  What the layers below TCP leave alone: everything above \<open>ip_st\<close> in the state, and the head of the
  pool of the TCP control blocks. One fact for each operation, from the pbufs to \<^verbatim>\<open>ip_input\<close>; the
  callbacks of raw sockets and UDP and the device are only assumed to do the same.
\<close>

named_theorems bwp \<open>rules for operations that keep \<open>below\<close>\<close>

definition pcb_pool :: "'a pbuf_st_scheme \<Rightarrow> addr" where "pcb_pool st = memp_tab (pools st) MEMP_TCP_PCB"

definition below :: "'a ip_st_scheme \<Rightarrow> 'a \<times> addr" where "below st = (ip_st.more st, pcb_pool st)"

section \<open>Packet buffers\<close>

lemma pcb_pool_simps [simp]:
  "pcb_pool (put_pbuf st p b) = pcb_pool st" "pcb_pool (st\<lparr>bytes := m\<rparr>) = pcb_pool st" "pcb_pool (st\<lparr>mheap := h\<rparr>) = pcb_pool st"
  "pcb_pool (PBUF_POOL_IS_EMPTY st) = pcb_pool st" "pcb_pool (pbuf_release st p b) = pcb_pool st"
  "k \<noteq> MEMP_TCP_PCB \<Longrightarrow> pcb_pool (st\<lparr>pools := memp_free (pools st) k p\<rparr>) = pcb_pool st"
  by (simp_all add: pcb_pool_def put_pbuf_def PBUF_POOL_IS_EMPTY_def pbuf_release_def memp_free_def Let_def split: pbuf_type.split)

lemma malloc_pool: "memp_malloc (pools st) k = (q, ps) \<Longrightarrow> k \<noteq> MEMP_TCP_PCB \<Longrightarrow> pcb_pool (st\<lparr>pools := ps\<rparr>) = pcb_pool st"
  by (auto simp: pcb_pool_def memp_malloc_def Let_def split: if_splits)

lemma upd_pbuf_pool: "upd_pbuf st p f = Inr st' \<Longrightarrow> pcb_pool st' = pcb_pool st"
  by (auto simp: upd_pbuf_def rbind_eq_Inr)

lemma pbuf_free_loop_pool: "res_all (\<lambda>x. pcb_pool (snd x) = pcb_pool st) (pbuf_free_loop fuel st p c)"
proof (induction fuel arbitrary: st p c)
  case (Suc fuel)
  show ?case
    by (auto simp: Let_def intro!: res_all_any [where r = "get_pbuf st p"] Suc [THEN res_all_weaken])
qed simp

lemma pbuf_free_pool: "pbuf_free st p = Inr (n, st') \<Longrightarrow> pcb_pool st' = pcb_pool st"
  by (auto simp: pbuf_free_def split: if_splits dest: res_allD [OF pbuf_free_loop_pool])

lemma pool_tail_pool: "pool_tail p st r n = Inr (ok, st') \<Longrightarrow> pcb_pool st' = pcb_pool st"
proof (induction p st r n rule: pool_tail.induct)
  case (1 p st r n)
  show ?case
  proof (cases "n = 0")
    case False
    obtain q ps where q: "memp_malloc (pools st) MEMP_PBUF_POOL = (q, ps)" by fastforce
    show ?thesis
    proof (cases "q = 0")
      case True
      from "1.prems" False True malloc_pool [OF q] show ?thesis
        by (subst (asm) pool_tail.simps) (auto simp: q rbind_eq_Inr dest!: pbuf_free_pool)
    next
      case q0: False
      from "1.prems" False q0 obtain st1 where
        u: "upd_pbuf (st\<lparr>pools := ps\<rparr>) r (\<lambda>b. b\<lparr>pb_next := q\<rparr>) = Inr st1" and
        rest: "pool_tail p (put_pbuf st1 q \<lparr>pb_next = 0, payload = q + SIZEOF_STRUCT_PBUF,
                 tot_len = of_nat n, pb_len = of_nat (min n PBUF_POOL_BUFSIZE_ALIGNED),
                 pb_type = PBUF_POOL, pb_flags = 0, pb_ref = 1\<rparr>) q (n - min n PBUF_POOL_BUFSIZE_ALIGNED) = Inr (ok, st')"
        by (subst (asm) pool_tail.simps) (auto simp: q rbind_eq_Inr)
      from "1.IH" [OF False q [symmetric] q0 u rest] upd_pbuf_pool [OF u] malloc_pool [OF q] show ?thesis by simp
    qed
  next
    case True
    with "1.prems" show ?thesis by (subst (asm) pool_tail.simps) simp
  qed
qed

lemma pbuf_alloc_pool: "pbuf_alloc st l n t = Inr (p, st') \<Longrightarrow> pcb_pool st' = pcb_pool st"
  by (auto simp: pbuf_alloc_def Let_def rbind_eq_Inr malloc_pool
      split: pbuf_type.splits prod.splits if_splits option.splits dest!: pool_tail_pool)

lemma pbuf_header_pool: "pbuf_header st p n = Inr (r, st') \<Longrightarrow> pcb_pool st' = pcb_pool st"
  by (auto simp: pbuf_header_def Let_def rbind_eq_Inr split: if_splits)

lemma pbuf_ref_pool: "pbuf_ref st p = Inr st' \<Longrightarrow> pcb_pool st' = pcb_pool st"
  by (auto simp: pbuf_ref_def split: if_splits dest: upd_pbuf_pool)

lemma cat_walk_pool: "cat_walk fuel st t p = Inr (q, st') \<Longrightarrow> pcb_pool st' = pcb_pool st"
  by (induction fuel arbitrary: st p) (auto simp: rbind_eq_Inr split: if_splits)

lemma pbuf_cat_pool: "pbuf_cat st h t = Inr st' \<Longrightarrow> pcb_pool st' = pcb_pool st"
  by (auto simp: pbuf_cat_def rbind_eq_Inr split: if_splits dest!: cat_walk_pool upd_pbuf_pool)

lemma pbuf_copy_loop_pool: "res_all (\<lambda>x. pcb_pool (snd x) = pcb_pool st) (pbuf_copy_loop fuel st a m b n)"
proof (induction fuel arbitrary: st a m b n)
  case (Suc fuel)
  show ?case
    unfolding pbuf_copy_loop.simps Let_def
    by (intro res_all_bind res_all_if res_all_pair Suc.IH [THEN res_all_weaken]) simp_all
qed simp

lemma pbuf_copy_pool: "pbuf_copy st a b = Inr (e, st') \<Longrightarrow> pcb_pool st' = pcb_pool st"
  by (auto simp: pbuf_copy_def rbind_eq_Inr Let_def split: if_splits dest!: res_allD [OF pbuf_copy_loop_pool])

lemma realloc_skip_pool: "realloc_skip fuel st p n g = Inr (q, r, st') \<Longrightarrow> pcb_pool st' = pcb_pool st"
  by (induction fuel arbitrary: st p n) (auto simp: rbind_eq_Inr Let_def split: if_splits)

lemma realloc_skip_more: "realloc_skip fuel st p n g = Inr (q, r, st') \<Longrightarrow> pbuf_st.more st' = pbuf_st.more st"
  by (induction fuel arbitrary: st p n) (auto simp: rbind_eq_Inr Let_def split: if_splits)

lemma pbuf_realloc_pool: "pbuf_realloc st p n = Inr st' \<Longrightarrow> pcb_pool st' = pcb_pool st"
  by (auto simp: pbuf_realloc_def rbind_eq_Inr Let_def split: if_splits prod.splits
      dest!: realloc_skip_pool upd_pbuf_pool pbuf_free_pool)

lemma pbuf_realloc_more: "pbuf_realloc st p n = Inr st' \<Longrightarrow> pbuf_st.more st' = pbuf_st.more st"
  by (auto simp: pbuf_realloc_def rbind_eq_Inr Let_def split: if_splits prod.splits
      dest!: realloc_skip_more upd_pbuf_keeps pbuf_free_keeps)

section \<open>The rules for the pbufs\<close>

lemma more_of_pbuf: "pbuf_st.more st' = pbuf_st.more st \<Longrightarrow> ip_st.more st' = ip_st.more st"
  by (cases st; cases st') auto

lemma below_pbuf: "pbuf_st.more st' = pbuf_st.more st \<Longrightarrow> pcb_pool st' = pcb_pool st \<Longrightarrow> below st' = below st"
  by (drule more_of_pbuf) (simp add: below_def)

lemma pbuf_free_below: "pbuf_free st p = Inr (n, st') \<Longrightarrow> below st' = below st"
  by (blast intro: below_pbuf pbuf_free_keeps pbuf_free_pool)

lemma pbuf_alloc_below: "pbuf_alloc st l n t = Inr (q, st') \<Longrightarrow> below st' = below st"
  by (blast intro: below_pbuf pbuf_alloc_keeps pbuf_alloc_pool)

lemma pbuf_header_below: "pbuf_header st p k = Inr (e, st') \<Longrightarrow> below st' = below st"
  by (blast intro: below_pbuf pbuf_header_keeps pbuf_header_pool)

lemma pbuf_ref_below: "pbuf_ref st p = Inr st' \<Longrightarrow> below st' = below st"
  by (blast intro: below_pbuf pbuf_ref_keeps pbuf_ref_pool)

lemma pbuf_cat_below: "pbuf_cat st p q = Inr st' \<Longrightarrow> below st' = below st"
  by (blast intro: below_pbuf pbuf_cat_keeps pbuf_cat_pool)

lemma upd_pbuf_below: "upd_pbuf st p f = Inr st' \<Longrightarrow> below st' = below st"
  by (blast intro: below_pbuf upd_pbuf_keeps upd_pbuf_pool)

lemma pbuf_copy_below: "pbuf_copy st p q = Inr (e, st') \<Longrightarrow> below st' = below st"
  by (blast intro: below_pbuf pbuf_copy_keeps pbuf_copy_pool)

lemma pbuf_realloc_below: "pbuf_realloc st p n = Inr st' \<Longrightarrow> below st' = below st"
  by (blast intro: below_pbuf pbuf_realloc_more pbuf_realloc_pool)

lemma below_pbufs:
  "res_all (\<lambda>x. below (snd x) = below st) (pbuf_free st p)"
  "res_all (\<lambda>x. below (snd x) = below st) (pbuf_alloc st l n t)"
  "res_all (\<lambda>x. below (snd x) = below st) (pbuf_header st p k)"
  "res_all (\<lambda>x. below x = below st) (pbuf_ref st p)"
  "res_all (\<lambda>x. below x = below st) (pbuf_cat st p q)"
  "res_all (\<lambda>x. below x = below st) (upd_pbuf st p f)"
  "res_all (\<lambda>x. below (snd x) = below st) (pbuf_copy st p q)"
  "res_all (\<lambda>x. below x = below st) (pbuf_realloc st p n)"
  by (rule res_allI; auto dest!: pbuf_free_below pbuf_alloc_below pbuf_header_below pbuf_ref_below pbuf_cat_below upd_pbuf_below pbuf_copy_below pbuf_realloc_below)+

lemmas below_pbufs_bwp [bwp] = below_pbufs [THEN res_all_weaken]

lemma below_simps [simp]:
  "below (st\<lparr>bytes := m\<rparr>) = below st" "below (put_pbuf st p b) = below st" "below (put_raw st q c) = below st" "below (put_udp st q d) = below st"
  "below (arp_put st i e) = below st" "below (st\<lparr>etharp_cached_entry := i\<rparr>) = below st" "below (put_reass st r z) = below st"
  "k \<noteq> MEMP_TCP_PCB \<Longrightarrow> below (st\<lparr>pools := memp_free (pools st) k a\<rparr>) = below st"
  "below (st\<lparr>ip_id := n\<rparr>) = below st" "below (st\<lparr>custom_freed := cf\<rparr>) = below st" "below (st\<lparr>frag_refs := fr\<rparr>) = below st"
  "below (st\<lparr>reassdatagrams := a\<rparr>) = below st" "below (st\<lparr>reass := rt\<rparr>) = below st" "below (st\<lparr>ip_reass_pbufcount := n\<rparr>) = below st"
  "below (st\<lparr>raw_pcbs := a\<rparr>) = below st" "below (st\<lparr>udp_pcbs := a\<rparr>) = below st" "below (st\<lparr>udp_port := n\<rparr>) = below st"
  "below (st\<lparr>current_netif := a\<rparr>) = below st" "below (st\<lparr>current_header := a\<rparr>) = below st"
  "below (st\<lparr>current_iphdr_src := w\<rparr>) = below st" "below (st\<lparr>current_iphdr_dest := w\<rparr>) = below st"
  by (simp_all add: below_def pcb_pool_def put_pbuf_def put_raw_def put_udp_def arp_put_def put_reass_def memp_free_def)

lemma malloc_below: "memp_malloc (pools st) k = (q, ps) \<Longrightarrow> k \<noteq> MEMP_TCP_PCB \<Longrightarrow> below (st\<lparr>pools := ps\<rparr>) = below st"
  using malloc_pool [of st k q ps] by (simp add: below_def)

section \<open>What only is read\<close>

lemmas read_bwp [bwp] =
  res_all_any [where r = "get_pbuf st p" for st p] res_all_any [where r = "get_netif st n" for st n]
  res_all_any [where r = "get_raw st n" for st n] res_all_any [where r = "get_udp st n" for st n]
  res_all_any [where r = "get_reass st n" for st n] res_all_any [where r = "arp_at st i" for st i]
  res_all_any [where r = "ip_route st d" for st d] res_all_any [where r = "rd8 m a" for m a]
  res_all_any [where r = "rd16 m a" for m a] res_all_any [where r = "rd32 m a" for m a]
  res_all_any [where r = "wr8 m a b" for m a b] res_all_any [where r = "wr16 m a h" for m a h]
  res_all_any [where r = "wr32 m a w" for m a w] res_all_any [where r = "rd_bytes m a k" for m a k]
  res_all_any [where r = "wr_bytes m a bs" for m a bs] res_all_any [where r = "memcpy m a b k" for m a b k]
  res_all_any [where r = "inet_chksum m a k" for m a k] res_all_any [where r = "inet_chksum_pbuf st p" for st p]
  res_all_any [where r = "inet_chksum_pseudo st p a b c d" for st p a b c d] res_all_any [where r = "pbuf_clen st p" for st p]

section \<open>ARP\<close>

lemma free_etharp_q_below: "res_all (\<lambda>x. below x = below st) (free_etharp_q st q)"
proof (induction q arbitrary: st)
  case (Cons a q)
  then show ?case by (cases a) (auto intro!: bwp Cons [THEN res_all_weaken])
qed simp

lemma arp_upd_below: "res_all (\<lambda>x. below x = below st) (arp_upd st i f)"
  by (auto simp: arp_upd_def intro!: bwp)

lemmas arp_bwp [bwp] = free_etharp_q_below [THEN res_all_weaken] arp_upd_below [THEN res_all_weaken]

lemma free_entry_below: "res_all (\<lambda>x. below x = below st) (etharp_free_entry st i)"
  by (auto simp: etharp_free_entry_def intro!: bwp)

lemmas free_entry_bwp [bwp] = free_entry_below [THEN res_all_weaken]

lemma find_entry_below: "res_all (\<lambda>x. below (snd x) = below st) (etharp_find_entry st ip flags)"
  by (auto simp: etharp_find_entry_def intro!: bwp split: sum.split option.split)

lemmas find_entry_bwp [bwp] = find_entry_below [THEN res_all_weaken]

lemma cleanup_below: "res_all (\<lambda>x. below x = below st) (cleanup_loop st n is)"
proof (induction "is" arbitrary: st)
  case (Cons i "is")
  then show ?case by (auto intro!: bwp Cons [THEN res_all_weaken])
qed simp

lemma take_packet_below: "res_all (\<lambda>x. below (snd x) = below st) (take_packet st q)"
  by (auto simp: take_packet_def intro!: bwp res_all_any [where r = "first_not_rom fuel st q" for fuel])

lemmas take_packet_bwp [bwp] = take_packet_below [THEN res_all_weaken]

lemma queue_packet_below: "res_all (\<lambda>x. below (snd x) = below st) (queue_packet st i q)"
  by (auto simp: queue_packet_def Let_def malloc_below intro!: bwp split: prod.split)

lemmas queue_packet_bwp [bwp] = queue_packet_below [THEN res_all_weaken]

locale quiet_device =
  fixes lo :: "('a ip_st_scheme) linkoutput"
  assumes lo_below: "lo n p st = Inr (e, st') \<Longrightarrow> below st' = below st"
begin

lemma lo_res: "res_all (\<lambda>x. below (snd x) = below st) (lo n p st)"
  by (rule res_allI) (auto dest: lo_below)

lemmas lo_bwp [bwp] = lo_res [THEN res_all_weaken]

lemma send_ip_below: "res_all (\<lambda>x. below (snd x) = below st) (etharp_send_ip lo st n p src dst)"
  by (auto simp: etharp_send_ip_def intro!: bwp)

lemmas send_ip_bwp [bwp] = send_ip_below [THEN res_all_weaken]

lemma flush_queue_below: "res_all (\<lambda>x. below x = below st) (flush_queue fuel lo st n mac i)"
proof (induction fuel arbitrary: st)
  case 0
  show ?case by (auto intro!: bwp)
next
  case (Suc fuel)
  show ?case by (auto simp: Let_def intro!: bwp Suc [THEN res_all_weaken] split: list.split)
qed

lemmas flush_queue_bwp [bwp] = flush_queue_below [THEN res_all_weaken]

lemma update_below: "res_all (\<lambda>x. below (snd x) = below st) (etharp_update_arp_entry lo st n ip mac flags)"
  by (auto simp: etharp_update_arp_entry_def intro!: bwp split: option.split)

lemmas update_bwp [bwp] = update_below [THEN res_all_weaken]

lemma etharp_raw_below: "res_all (\<lambda>x. below (snd x) = below st) (etharp_raw lo st n a b c d e f g)"
  by (auto simp: etharp_raw_def intro!: bwp res_all_any [where r = "fill_arp m u a b c d e f g" for m u])

lemma request_below: "res_all (\<lambda>x. below (snd x) = below st) (etharp_request lo st n ip)"
  by (auto simp: etharp_request_def intro!: bwp etharp_raw_below [THEN res_all_weaken])

lemmas request_bwp [bwp] = request_below [THEN res_all_weaken]

lemma query_below: "res_all (\<lambda>x. below (snd x) = below st) (etharp_query lo st n ip q)"
  by (auto simp: etharp_query_def intro!: bwp split: option.split)

lemmas query_bwp [bwp] = query_below [THEN res_all_weaken]

lemma to_index_below: "res_all (\<lambda>x. below (snd x) = below st) (etharp_output_to_arp_index lo st n q i)"
  by (auto simp: etharp_output_to_arp_index_def intro!: bwp)

lemmas to_index_bwp [bwp] = to_index_below [THEN res_all_weaken]

lemma output_below: "res_all (\<lambda>x. below (snd x) = below st) (etharp_output lo st n q ip)"
  by (auto simp: etharp_output_def Let_def intro!: bwp split: option.split)

lemma arp_input_below: "res_all (\<lambda>x. below x = below st) (etharp_arp_input lo st n mac p)"
  by (auto simp: etharp_arp_input_def Let_def intro!: bwp res_all_any [where r = "make_reply m h ip mac" for m h ip])

end

text \<open>The Ethernet adapter is such a device.\<close>

lemma copy_into_pool: "copy_into fuel st q p = Inr st' \<Longrightarrow> pcb_pool st' = pcb_pool st"
  by (induction fuel arbitrary: st p) (auto simp: rbind_eq_Inr split: if_splits)

lemma link_pool [simp]: "pcb_pool (st\<lparr>send_q := s\<rparr>) = pcb_pool st" "pcb_pool (st\<lparr>bytes := m, emac := d\<rparr>) = pcb_pool st"
  by (simp_all add: pcb_pool_def)

lemma queue_copy_pool: "queue_copy st p = Inr (e, st') \<Longrightarrow> pcb_pool st' = pcb_pool st"
  by (auto simp: queue_copy_def rbind_eq_Inr case_prod_beta split: if_splits dest!: pbuf_alloc_pool upd_pbuf_pool copy_into_pool)

lemma unbuffered_pool: "unbuffered_low_level_output st p = Inr st' \<Longrightarrow> pcb_pool st' = pcb_pool st"
  using unbuffered_keeps [of st p st'] by auto

lemma low_level_output_pool: "low_level_output st p = Inr (e, st') \<Longrightarrow> pcb_pool st' = pcb_pool st"
  by (auto simp: low_level_output_def rbind_eq_Inr split: if_splits prod.splits dest!: queue_copy_pool unbuffered_pool)

lemma more_of_link: "link_st.more st' = link_st.more st \<Longrightarrow> ip_st.more st' = ip_st.more st"
  by (cases st; cases st') auto

interpretation quiet_adapter: quiet_device adapter_output
proof unfold_locales
  fix n p e and st st' :: "'a ip_st_scheme"
  assume "adapter_output n p st = Inr (e, st')"
  then have o: "low_level_output st p = Inr (e, st')" by (simp add: adapter_output_def)
  from above_low_level_output [OF o] have "link_st.more st' = link_st.more st" by (simp add: above_def)
  from more_of_link [OF this] low_level_output_pool [OF o] show "below st' = below st" by (simp add: below_def)
qed

lemma free_only_below: "res_all (\<lambda>x. below x = below st) (free_only st p)"
  by (auto simp: free_only_def intro!: bwp)

lemmas free_only_bwp [bwp] = free_only_below [THEN res_all_weaken]

section \<open>Reassembly, what does not send\<close>

lemma upd_reass_below: "res_all (\<lambda>x. below x = below st) (upd_reass st r f)"
  by (auto simp: upd_reass_def intro!: bwp)

lemmas upd_reass_bwp [bwp] = upd_reass_below [THEN res_all_weaken]

lemmas frag_read_bwp [bwp] =
  res_all_any [where r = "rh_next m h" for m h] res_all_any [where r = "rh_start m h" for m h]
  res_all_any [where r = "rh_end m h" for m h] res_all_any [where r = "set_rh_next m h p" for m h p]
  res_all_any [where r = "fill_helper m h a b" for m h a b] res_all_any [where r = "chain_validate st i h v" for st i h v]
  res_all_any [where r = "oldest_scan fuel st f r a b c" for fuel st f r a b c]
  res_all_any [where r = "find_datagram fuel st f r a" for fuel st f r a]
  res_all_any [where r = "set_ip_header m h f k" for m h f k] res_all_any [where r = "fill_frag_header m h a b" for m h a b]

lemma dequeue_below: "res_all (\<lambda>x. below x = below st) (ip_reass_dequeue_datagram st r prev)"
  by (auto simp: ip_reass_dequeue_datagram_def below_def pcb_pool_def memp_free_def intro!: bwp)

lemmas dequeue_bwp [bwp] = dequeue_below [THEN res_all_weaken]

lemma free_frags_below: "res_all (\<lambda>x. below (snd x) = below st) (free_frags fuel st p n)"
proof (induction fuel arbitrary: st p n)
  case (Suc fuel)
  show ?case by (auto intro!: bwp Suc [THEN res_all_weaken])
qed simp

lemmas free_frags_bwp [bwp] = free_frags_below [THEN res_all_weaken]

lemma malloc_reass_below: "malloc_reass st = (r, st') \<Longrightarrow> below st' = below st"
  by (auto simp: malloc_reass_def malloc_below split: prod.splits)

lemma chain_walk_below: "res_all (\<lambda>x. below (snd x) = below st) (chain_walk fuel st ipr p h q prev v)"
proof (induction fuel arbitrary: q prev v)
  case (Suc fuel)
  show ?case by (auto simp: Let_def intro!: bwp Suc [THEN res_all_weaken] res_all_any [where r = "if b then f else g" for b f g])
qed simp

lemmas chain_walk_bwp [bwp] = chain_walk_below [THEN res_all_weaken]

lemma chain_append_below: "res_all (\<lambda>x. below (snd x) = below st) (chain_append st ipr p h q prev v)"
  by (auto simp: chain_append_def intro!: bwp)

lemmas chain_append_bwp [bwp] = chain_append_below [THEN res_all_weaken]

lemma chain_frag_below: "res_all (\<lambda>x. below (snd x) = below st) (ip_reass_chain_frag_into_datagram_and_validate st ipr p)"
  by (auto simp: ip_reass_chain_frag_into_datagram_and_validate_def Let_def intro!: bwp split: option.split)

lemmas chain_frag_bwp [bwp] = chain_frag_below [THEN res_all_weaken]

lemma chain_frags_below: "res_all (\<lambda>x. below x = below st) (chain_frags fuel st p r)"
proof (induction fuel arbitrary: st r)
  case (Suc fuel)
  show ?case by (auto intro!: bwp Suc [THEN res_all_weaken])
qed simp

lemmas chain_frags_bwp [bwp] = chain_frags_below [THEN res_all_weaken]

lemma reass_finish_below: "res_all (\<lambda>x. below (snd x) = below st) (reass_finish st ipr prev)"
  by (auto simp: reass_finish_def intro!: bwp)

lemmas reass_finish_bwp [bwp] = reass_finish_below [THEN res_all_weaken]

section \<open>Fragmentation\<close>

lemma custom_below: "res_all (\<lambda>x. below x = below st) (ipfrag_free_pbuf_custom fuel st)"
proof (induction fuel arbitrary: st)
  case (Suc fuel)
  show ?case by (auto simp: Let_def below_def pcb_pool_def memp_free_def intro!: bwp Suc [THEN res_all_weaken] split: list.split option.split)
qed simp

lemmas custom_bwp [bwp] = custom_below [THEN res_all_weaken]

lemma free_mirrored_below: "res_all (\<lambda>x. below x = below st) (free_mirrored st p)"
  by (auto simp: free_mirrored_def intro!: bwp)

lemmas free_mirrored_bwp [bwp] = free_mirrored_below [THEN res_all_weaken]

lemma alloced_custom_below: "pbuf_alloced_custom st l n t q d k = (r, st') \<Longrightarrow> below st' = below st"
  by (auto simp: pbuf_alloced_custom_def Let_def split: if_splits prod.splits pbuf_layer.splits)

lemma malloc_frag_bwp:
  "(\<And>q ps. below (st\<lparr>pools := ps\<rparr>) = below st \<Longrightarrow> res_all P (f q ps)) \<Longrightarrow> res_all P (case memp_malloc (pools st) MEMP_FRAG_PBUF of (q, ps) \<Rightarrow> f q ps)"
  by (cases "memp_malloc (pools st) MEMP_FRAG_PBUF") (simp add: malloc_below)

lemma alloced_custom_bwp:
  "(\<And>r st'. below st' = below st \<Longrightarrow> res_all P (f r st')) \<Longrightarrow> res_all P (case pbuf_alloced_custom st l n t q d k of (r, st') \<Rightarrow> f r st')"
  by (cases "pbuf_alloced_custom st l n t q d k") (simp add: alloced_custom_below)

lemma mirror_loop_below: "res_all (\<lambda>x. below (snd x) = below st) (mirror_loop fuel st r p l n)"
proof (induction fuel arbitrary: st p l n)
  case (Suc fuel)
  show ?case
    unfolding mirror_loop.simps Let_def
    by (auto intro!: bwp Suc [THEN res_all_weaken] malloc_frag_bwp alloced_custom_bwp)
qed simp

lemmas mirror_loop_bwp [bwp] = mirror_loop_below [THEN res_all_weaken]

lemma frag_loop_below:
  assumes "\<And>n p d st e st'. outp n p d st = Inr (e, st') \<Longrightarrow> below st' = below st"
  shows "res_all (\<lambda>x. below (snd x) = below st) (frag_loop fuel outp st n p d h mt omf ofo l po)"
proof (induction fuel arbitrary: st p omf ofo l po)
  case (Suc fuel)
  have o: "res_all (\<lambda>x. below (snd x) = below s) (outp a b c s)" for a b c s by (rule res_allI) (auto dest: assms)
  show ?case
    unfolding frag_loop.simps Let_def
    by (intro res_all_if impI) (auto intro!: bwp o [THEN res_all_weaken] Suc [THEN res_all_weaken] split: option.split)
qed simp

lemma frag_run_below:
  assumes "\<And>n p d st e st'. outp n p d st = Inr (e, st') \<Longrightarrow> below st' = below st"
  shows "res_all (\<lambda>x. below (snd x) = below st) (ip_frag_run outp p n d st)"
  by (auto simp: ip_frag_run_def Let_def intro!: bwp frag_loop_below [OF assms])

section \<open>IP\<close>

text \<open>A network that keeps \<open>below\<close>: sending a packet and cutting it into fragments.\<close>

locale quiet_net =
  fixes env :: "('a ip_st_scheme) ip_env"
  assumes out_below: "netif_output env n p d st = Inr (e, st') \<Longrightarrow> below st' = below st"
    and cut_below: "ip_frag env n p d st = Inr (e, st') \<Longrightarrow> below st' = below st"
begin

lemma out_res: "res_all (\<lambda>x. below (snd x) = below st) (netif_output env n p d st)"
  "res_all (\<lambda>x. below (snd x) = below st) (ip_frag env n p d st)"
  by (rule res_allI; auto dest: out_below cut_below)+

lemmas out_bwp [bwp] = out_res [THEN res_all_weaken]

lemma output_if_below: "res_all (\<lambda>x. below (snd x) = below st) (ip_output_if env st p src d t s pr n)"
  by (auto simp: ip_output_if_def Let_def intro!: bwp res_all_any [where r = "ip_fill_header m a b c d e f g h" for m a b c d e f g h]
      split: option.split)

lemmas output_if_bwp [bwp] = output_if_below [THEN res_all_weaken]

lemma ip_output_below: "res_all (\<lambda>x. below (snd x) = below st) (ip_output env st p src d t s pr)"
  by (auto simp: ip_output_def intro!: bwp)

lemmas ip_output_bwp [bwp] = ip_output_below [THEN res_all_weaken]

end

section \<open>What sends: ICMP, reassembly with its time-outs, raw sockets and UDP\<close>

context quiet_net begin

lemma send_response_below: "res_all (\<lambda>x. below x = below st) (icmp_send_response env st p a b)"
  by (auto simp: icmp_send_response_def intro!: bwp res_all_any [where r = "fill_response m h q t c l" for m h q t c l])

lemma icmp_errors_below:
  "res_all (\<lambda>x. below x = below st) (icmp_dest_unreach env st p a)" "res_all (\<lambda>x. below x = below st) (icmp_time_exceeded env st p a)"
  by (simp_all add: icmp_dest_unreach_def icmp_time_exceeded_def send_response_below)

lemmas icmp_errors_bwp [bwp] = icmp_errors_below [THEN res_all_weaken]

lemma echo_room_below: "res_all (\<lambda>x. below (snd x) = below st) (echo_room st p h n)"
  by (auto simp: echo_room_def intro!: bwp)

lemmas echo_room_bwp [bwp] = echo_room_below [THEN res_all_weaken]

lemma icmp_echo_below: "res_all (\<lambda>x. below x = below st) (icmp_echo env st p inp h n)"
  by (auto simp: icmp_echo_def intro!: bwp res_all_any [where r = "make_echo_reply m h q s d" for m h q s d] split: option.split)

lemmas icmp_echo_bwp [bwp] = icmp_echo_below [THEN res_all_weaken]

lemma icmp_input_below: "res_all (\<lambda>x. below x = below st) (icmp_input env st p inp)"
  by (auto simp: icmp_input_def Let_def intro!: bwp)

lemma complete_datagram_below: "res_all (\<lambda>x. below (snd x) = below st) (ip_reass_free_complete_datagram env st r prev)"
  by (auto simp: ip_reass_free_complete_datagram_def intro!: bwp)

lemmas complete_datagram_bwp [bwp] = complete_datagram_below [THEN res_all_weaken]

lemma remove_loop_below: "res_all (\<lambda>x. below (snd x) = below st) (remove_loop fuel env st f n k)"
proof (induction fuel arbitrary: st k)
  case (Suc fuel)
  show ?case by (auto intro!: bwp Suc [THEN res_all_weaken])
qed simp

lemma remove_oldest_below: "res_all (\<lambda>x. below (snd x) = below st) (ip_reass_remove_oldest_datagram env st f n)"
  by (simp add: ip_reass_remove_oldest_datagram_def remove_loop_below)

lemmas remove_oldest_bwp [bwp] = remove_oldest_below [THEN res_all_weaken]

lemma enqueue_new_below: "res_all (\<lambda>x. below (snd x) = below st) (ip_reass_enqueue_new_datagram env st f n)"
  by (auto simp: ip_reass_enqueue_new_datagram_def malloc_reass_below intro!: bwp split: prod.split)

lemmas enqueue_new_bwp [bwp] = enqueue_new_below [THEN res_all_weaken]

lemma ip_reass_below: "res_all (\<lambda>x. below (snd x) = below st) (ip_reass env st p)"
  unfolding ip_reass_def Let_def
  by (auto intro!: bwp)

lemma tmr_walk_below: "res_all (\<lambda>x. below x = below st) (tmr_walk fuel env st r prev)"
proof (induction fuel arbitrary: st r prev)
  case (Suc fuel)
  show ?case by (auto intro!: bwp Suc [THEN res_all_weaken])
qed simp

end

section \<open>Raw sockets and UDP\<close>

lemma upd_raw_below: "res_all (\<lambda>x. below x = below st) (upd_raw st q f)"
  by (auto simp: upd_raw_def intro!: bwp)

lemma upd_udp_below: "res_all (\<lambda>x. below x = below st) (upd_udp st q g)"
  by (auto simp: upd_udp_def intro!: bwp)

lemmas upd_bwp [bwp] = upd_raw_below [THEN res_all_weaken] upd_udp_below [THEN res_all_weaken]

lemma raw_to_front_below: "res_all (\<lambda>x. below x = below st) (raw_to_front st a b)"
  by (auto simp: raw_to_front_def intro!: bwp)

lemma udp_demux_below: "res_all (\<lambda>x. below (snd x) = below st) (udp_demux st a b x)"
  by (auto simp: udp_demux_def udp_to_front_def intro!: bwp res_all_any [where r = "udp_find fuel st a b x c d e" for fuel c d e])

lemmas demux_bwp [bwp] = raw_to_front_below [THEN res_all_weaken] udp_demux_below [THEN res_all_weaken]

text \<open>The receive functions of the two modules, when they leave the layers above IP alone.\<close>

definition raw_quiet :: "('a ip_st_scheme) raw_cb \<Rightarrow> bool" where
  "raw_quiet cb \<longleftrightarrow> (\<forall>f a q p src st r st'. cb f a q p src st = Inr (r, st') \<longrightarrow> below st' = below st)"

definition udp_quiet :: "('a ip_st_scheme) udp_cb \<Rightarrow> bool" where
  "udp_quiet cb \<longleftrightarrow> (\<forall>f a q p src port st st'. cb f a q p src port st = Inr st' \<longrightarrow> below st' = below st)"

lemma raw_loop_below:
  assumes "raw_quiet cb"
  shows "res_all (\<lambda>x. below (snd x) = below st) (raw_loop fuel cb st p pr prev q)"
proof (induction fuel arbitrary: st prev q pr)
  case (Suc fuel)
  have c: "res_all (\<lambda>x. below (snd x) = below s) (cb f a q p src s)" for f a q src s
    using assms by (auto simp: raw_quiet_def intro: res_allI)
  show ?case by (auto intro!: bwp c [THEN res_all_weaken] Suc [THEN res_all_weaken])
qed simp

lemma raw_input_below: "raw_quiet cb \<Longrightarrow> res_all (\<lambda>x. below (snd x) = below st) (raw_input cb st p)"
  by (auto simp: raw_input_def intro!: bwp raw_loop_below)

section \<open>IP input\<close>

text \<open>
  A layer above IP that is ready (\<open>R\<close>) is left well (\<open>Q\<close>) by a packet from below, whatever the packet is,
  when its own input function does so: both must only depend on \<open>below\<close>.
\<close>

locale layered = quiet_net "net pr" for pr :: "('a ip_st_scheme) protocols" +
  fixes R Q :: "'a ip_st_scheme \<Rightarrow> bool"
  assumes raw_cb: "raw_quiet (raw_callback pr)" and udp_cb: "udp_quiet (udp_callback pr)"
    and R_below: "R st \<Longrightarrow> below st' = below st \<Longrightarrow> R st'" and Q_below: "Q st \<Longrightarrow> below st' = below st \<Longrightarrow> Q st'"
    and R_Q: "R st \<Longrightarrow> Q st" and tcp_in_Q: "R st \<Longrightarrow> res_all Q (tcp_in pr p n a b st)"
begin

lemma RQ: "R st \<Longrightarrow> below st' = below st \<Longrightarrow> Q st'"
  by (blast intro: R_below R_Q)

lemma udp_cb_res: "res_all (\<lambda>x. below x = below s) (udp_callback pr f a q p src port s)"
  using udp_cb by (auto simp: udp_quiet_def intro: res_allI)

lemmas udp_cb_bwp [bwp] = udp_cb_res [THEN res_all_weaken]

lemma udp_deliver_below: "res_all (\<lambda>x. below x = below st) (udp_deliver (net pr) (udp_callback pr) st p q h s x)"
  by (auto simp: udp_deliver_def intro!: bwp)

lemmas udp_deliver_bwp [bwp] = udp_deliver_below [THEN res_all_weaken]

lemma udp_input_below: "res_all (\<lambda>x. below x = below st) (udp_input (net pr) (udp_callback pr) st p inp)"
  by (auto simp: udp_input_def Let_def intro!: bwp)

lemmas in_bwp [bwp] = udp_input_below [THEN res_all_weaken] raw_input_below [OF raw_cb, THEN res_all_weaken]
  icmp_input_below [THEN res_all_weaken] ip_reass_below [THEN res_all_weaken]

lemma dispatch_Q: "R st \<Longrightarrow> res_all Q (ip_dispatch pr st p inp h)"
  by (auto simp: ip_dispatch_def intro!: bwp tcp_in_Q elim!: R_below RQ)

lemma reassemble_below: "res_all (\<lambda>x. below (snd x) = below st) (reassemble (net pr) st p)"
  by (auto simp: reassemble_def intro!: bwp)

lemma deliver_Q:
  assumes "R st"
  shows "res_all Q (ip_deliver pr st p inp n)"
proof -
  have d: "res_all Q (ip_dispatch pr (s\<lparr>current_netif := a, current_header := b\<rparr>) q inp h)" if "below s = below st" for s a b q h
    by (rule dispatch_Q [OF R_below [OF assms]]) (simp add: that)
  have "Q (x\<lparr>current_netif := 0, current_header := 0, current_iphdr_src := IPADDR_ANY, current_iphdr_dest := IPADDR_ANY\<rparr>)"
    if "Q x" for x by (rule Q_below [OF that]) simp
  with d show ?thesis
    by (auto simp: ip_deliver_def intro!: bwp reassemble_below [THEN res_all_weaken] d [THEN res_all_weaken] elim!: RQ [OF assms])
qed

lemma ip_input_Q: "R st \<Longrightarrow> res_all Q (ip_input pr p inp st)"
  by (auto simp: ip_input_def Let_def split: option.split elim!: RQ R_below
      intro!: bwp deliver_Q res_all_any [where r = "ip_header_checks st p"] res_all_any [where r = "find_netif s d ns" for s d ns])

end

end
