(* ===== verification/TcpState.thy ===== *)
theory TcpState
  imports Ip
begin

text \<open>
  The data of the TCP module: \<^verbatim>\<open>lwip/tcp.h\<close> and \<^verbatim>\<open>lwip/tcp_impl.h\<close>. Protocol control blocks are
  records stored at their addresses, chained through \<open>pcb_next\<close> into the four lists of
  \<^verbatim>\<open>tcp_impl.h\<close>; a freed block is taken out of the store, so that a later use of it is the
  fault \<open>Dangling\<close>. The segment queues of a block (\<^verbatim>\<open>unsent\<close>, \<^verbatim>\<open>unacked\<close>, \<^verbatim>\<open>ooseq\<close>, chained
  through \<^verbatim>\<open>tcp_seg.next\<close>) are lists of segment records in the order of the chain. TCP headers
  are bytes in memory, in network order.
\<close>

section \<open>Configuration\<close>

definition TCP_WND :: u16 where "TCP_WND = 2048"
definition TCP_MSS :: u16 where "TCP_MSS = 1460"
definition TCP_SND_BUF :: u16 where "TCP_SND_BUF = 8192"
definition TCP_SND_QUEUELEN :: u16 where "TCP_SND_QUEUELEN = 89"
definition TCP_SNDQUEUELEN_OVERFLOW :: u16 where "TCP_SNDQUEUELEN_OVERFLOW = 0xfffc"
definition TCP_WND_UPDATE_THRESHOLD :: int where "TCP_WND_UPDATE_THRESHOLD = 512"
definition TCP_TTL :: u8 where "TCP_TTL = 255"
definition TCP_MAXRTX :: u8 where "TCP_MAXRTX = 12"
definition TCP_SYNMAXRTX :: u8 where "TCP_SYNMAXRTX = 4"
definition TCP_SLOW_INTERVAL :: u32 where "TCP_SLOW_INTERVAL = 500"
definition TCP_FIN_WAIT_TIMEOUT :: u32 where "TCP_FIN_WAIT_TIMEOUT = 20000"
definition TCP_SYN_RCVD_TIMEOUT :: u32 where "TCP_SYN_RCVD_TIMEOUT = 20000"
definition TCP_MSL :: u32 where "TCP_MSL = 60000"
definition TCP_OOSEQ_TIMEOUT :: u32 where "TCP_OOSEQ_TIMEOUT = 6"
definition TCP_KEEPIDLE_DEFAULT :: u32 where "TCP_KEEPIDLE_DEFAULT = 7200000"
definition TCP_KEEPINTVL_DEFAULT :: u32 where "TCP_KEEPINTVL_DEFAULT = 75000"
definition TCP_KEEPCNT_DEFAULT :: u32 where "TCP_KEEPCNT_DEFAULT = 9"
definition TCP_MAXIDLE :: u32 where "TCP_MAXIDLE = TCP_KEEPCNT_DEFAULT * TCP_KEEPINTVL_DEFAULT"

definition TCP_PRIO_MIN :: u8 where "TCP_PRIO_MIN = 1"
definition TCP_PRIO_NORMAL :: u8 where "TCP_PRIO_NORMAL = 64"
definition TCP_PRIO_MAX :: u8 where "TCP_PRIO_MAX = 127"

definition TCP_WRITE_FLAG_COPY :: u8 where "TCP_WRITE_FLAG_COPY = 1"
definition TCP_WRITE_FLAG_MORE :: u8 where "TCP_WRITE_FLAG_MORE = 2"

definition SOF_ACCEPTCONN :: u8 where "SOF_ACCEPTCONN = 0x02"
definition SOF_KEEPALIVE :: u8 where "SOF_KEEPALIVE = 0x08"

text \<open>Flags of a control block.\<close>

definition TF_ACK_DELAY :: u8 where "TF_ACK_DELAY = 0x01"
definition TF_ACK_NOW :: u8 where "TF_ACK_NOW = 0x02"
definition TF_INFR :: u8 where "TF_INFR = 0x04"
definition TF_RXCLOSED :: u8 where "TF_RXCLOSED = 0x10"
definition TF_FIN :: u8 where "TF_FIN = 0x20"
definition TF_NODELAY :: u8 where "TF_NODELAY = 0x40"
definition TF_NAGLEMEMERR :: u8 where "TF_NAGLEMEMERR = 0x80"

text \<open>Flags of a header and of a segment.\<close>

definition TCP_FIN :: u8 where "TCP_FIN = 0x01"
definition TCP_SYN :: u8 where "TCP_SYN = 0x02"
definition TCP_RST :: u8 where "TCP_RST = 0x04"
definition TCP_PSH :: u8 where "TCP_PSH = 0x08"
definition TCP_ACK :: u8 where "TCP_ACK = 0x10"
definition TCP_FLAGS :: u16 where "TCP_FLAGS = 0x3f"
definition TCP_HLEN :: u16 where "TCP_HLEN = 20"
definition TF_SEG_OPTS_MSS :: u8 where "TF_SEG_OPTS_MSS = 0x01"
definition TF_SEG_OPTS_TS :: u8 where "TF_SEG_OPTS_TS = 0x02"

definition PBUF_FLAG_TCP_FIN :: u8 where "PBUF_FLAG_TCP_FIN = 0x20"

text \<open>The option flags of a segment select 4 and 12 bytes of options.\<close>

definition LWIP_TCP_OPT_LENGTH :: "u8 \<Rightarrow> u8" where
  "LWIP_TCP_OPT_LENGTH fl =
     (if fl AND TF_SEG_OPTS_MSS \<noteq> 0 then 4 else 0) + (if fl AND TF_SEG_OPTS_TS \<noteq> 0 then 12 else 0)"

definition TCP_BUILD_MSS_OPTION :: "u16 \<Rightarrow> u32" where
  "TCP_BUILD_MSS_OPTION m = lwip_htonl (0x02040000 OR (ucast m AND 0xFFFF))"

section \<open>Sequence number arithmetic\<close>

definition TCP_SEQ_LT :: "u32 \<Rightarrow> u32 \<Rightarrow> bool" where "TCP_SEQ_LT a b = (sint (a - b) < 0)"
definition TCP_SEQ_LEQ :: "u32 \<Rightarrow> u32 \<Rightarrow> bool" where "TCP_SEQ_LEQ a b = (sint (a - b) \<le> 0)"
definition TCP_SEQ_GT :: "u32 \<Rightarrow> u32 \<Rightarrow> bool" where "TCP_SEQ_GT a b = (0 < sint (a - b))"
definition TCP_SEQ_GEQ :: "u32 \<Rightarrow> u32 \<Rightarrow> bool" where "TCP_SEQ_GEQ a b = (0 \<le> sint (a - b))"
definition TCP_SEQ_BETWEEN :: "u32 \<Rightarrow> u32 \<Rightarrow> u32 \<Rightarrow> bool" where
  "TCP_SEQ_BETWEEN a b c = (TCP_SEQ_GEQ a b \<and> TCP_SEQ_LEQ a c)"

section \<open>Control blocks and segments\<close>

datatype tcp_state =
    CLOSED | LISTEN | SYN_SENT | SYN_RCVD | ESTABLISHED | FIN_WAIT_1 | FIN_WAIT_2
  | CLOSE_WAIT | CLOSING | LAST_ACK | TIME_WAIT

text \<open>The code compares states as the numbers of the enumeration.\<close>

primrec state_code :: "tcp_state \<Rightarrow> nat" where
  "state_code CLOSED = 0"
| "state_code LISTEN = 1"
| "state_code SYN_SENT = 2"
| "state_code SYN_RCVD = 3"
| "state_code ESTABLISHED = 4"
| "state_code FIN_WAIT_1 = 5"
| "state_code FIN_WAIT_2 = 6"
| "state_code CLOSE_WAIT = 7"
| "state_code CLOSING = 8"
| "state_code LAST_ACK = 9"
| "state_code TIME_WAIT = 10"

lemma state_code_inj: "state_code a = state_code b \<Longrightarrow> a = b"
  by (cases a; cases b; simp)

instantiation tcp_state :: linorder
begin

definition less_eq_tcp_state :: "tcp_state \<Rightarrow> tcp_state \<Rightarrow> bool" where
  "less_eq_tcp_state a b = (state_code a \<le> state_code b)"

definition less_tcp_state :: "tcp_state \<Rightarrow> tcp_state \<Rightarrow> bool" where
  "less_tcp_state a b = (state_code a < state_code b)"

instance
  by standard (auto simp: less_eq_tcp_state_def less_tcp_state_def dest: state_code_inj)

end

text \<open>
  The values a function pointer of a control block takes in this program: \<^verbatim>\<open>NULL\<close>, the default
  callbacks of \<^verbatim>\<open>tcp.c\<close>, the callbacks of the application, or any other function.
\<close>

datatype fn =
    FN_NULL
  | FN_tcp_recv_null | FN_tcp_accept_null
  | FN_seq_recv_callback | FN_seq_accept_callback
  | FN_data_recv_callback | FN_data_accept_callback
  | FN_other nat

record tcp_seg =
  seg_at :: addr
  seg_p :: addr
  seg_len :: u16
  seg_flags :: u8
  tcphdr :: addr

text \<open>
  \<^verbatim>\<open>IP_PCB\<close> and \<^verbatim>\<open>TCP_PCB_COMMON\<close>: the members that connection and listen blocks share. A
  \<^verbatim>\<open>struct tcp_pcb_listen\<close> has only these (\<^verbatim>\<open>TCP_LISTEN_BACKLOG\<close> is 0).
\<close>

record pcb_common = ip_pcb +
  pcb_next :: addr
  callback_arg :: u32
  accept_fn :: fn
  pcb_state :: tcp_state
  prio :: u8
  local_port :: u16

type_synonym tcp_pcb_listen = pcb_common

text \<open>The signed 16-bit fields \<open>rtime\<close>, \<open>sa\<close>, \<open>sv\<close> and \<open>rto\<close> are read with \<open>sint\<close>.\<close>

record tcp_pcb = pcb_common +
  remote_port :: u16
  pcb_flags :: u8
  polltmr :: u8
  pollinterval :: u8
  last_timer :: u8
  tmr :: u32
  rcv_nxt :: u32
  rcv_wnd :: u16
  rcv_ann_wnd :: u16
  rcv_ann_right_edge :: u32
  rtime :: u16
  mss :: u16
  rttest :: u32
  rtseq :: u32
  sa :: u16
  sv :: u16
  rto :: u16
  nrtx :: u8
  dupacks :: u8
  lastack :: u32
  cwnd :: u16
  ssthresh :: u16
  snd_nxt :: u32
  snd_wl1 :: u32
  snd_wl2 :: u32
  snd_lbb :: u32
  snd_wnd :: u16
  snd_wnd_max :: u16
  acked :: u16
  snd_buf :: u16
  snd_queuelen :: u16
  unsent :: "tcp_seg list"
  unacked :: "tcp_seg list"
  ooseq :: "tcp_seg list"
  refused_data :: addr
  sent_fn :: fn
  recv_fn :: fn
  connected_fn :: fn
  poll_fn :: fn
  errf :: fn
  keep_idle :: u32
  persist_cnt :: u8
  persist_backoff :: u8
  keep_cnt_sent :: u8

text \<open>
  The state: both kinds of control blocks, the heads of the four lists, and the static variables of
  \<^verbatim>\<open>tcp.c\<close> and \<^verbatim>\<open>tcp_in.c\<close> (\<open>tcp_input_pcb\<close>; \<open>tcp_iss\<close> is the static local of \<^verbatim>\<open>tcp_next_iss\<close>).
  \<open>tcp_tmp_pcb\<close>, the loop variable of \<^verbatim>\<open>TCP_RMV\<close>, is not kept.
\<close>

record tcp_st = ip_st +
  tcp_pcbs :: "addr \<rightharpoonup> tcp_pcb"
  tcp_lpcbs :: "addr \<rightharpoonup> tcp_pcb_listen"
  tcp_listen_pcbs :: addr
  tcp_bound_pcbs :: addr
  tcp_active_pcbs :: addr
  tcp_tw_pcbs :: addr
  tcp_active_pcbs_changed :: u8
  tcp_port :: u16
  tcp_ticks :: u32
  tcp_timer :: u8
  tcp_timer_ctr :: u8
  tcp_iss :: u32
  tcp_input_pcb :: addr

section \<open>Access to the control blocks\<close>

definition get_pcb :: "'a tcp_st_scheme \<Rightarrow> addr \<Rightarrow> tcp_pcb res" where
  "get_pcb st p = (if p = 0 then Inl Null_deref
     else case tcp_pcbs st p of None \<Rightarrow> Inl (Dangling p) | Some b \<Rightarrow> Inr b)"

definition put_pcb :: "'a tcp_st_scheme \<Rightarrow> addr \<Rightarrow> tcp_pcb \<Rightarrow> 'a tcp_st_scheme" where
  "put_pcb st p b = st\<lparr>tcp_pcbs := (tcp_pcbs st)(p \<mapsto> b)\<rparr>"

definition upd_pcb :: "'a tcp_st_scheme \<Rightarrow> addr \<Rightarrow> (tcp_pcb \<Rightarrow> tcp_pcb) \<Rightarrow> 'a tcp_st_scheme res" where
  "upd_pcb st p f = rbind (get_pcb st p) (\<lambda>b. Inr (put_pcb st p (f b)))"

text \<open>
  The common members through a pointer that may be to either kind of block. The two kinds come from
  different pools, so an address is in at most one of the maps.
\<close>

definition get_common :: "'a tcp_st_scheme \<Rightarrow> addr \<Rightarrow> pcb_common res" where
  "get_common st p = (if p = 0 then Inl Null_deref
     else case tcp_pcbs st p of Some b \<Rightarrow> Inr (pcb_common.truncate b)
        | None \<Rightarrow> (case tcp_lpcbs st p of Some b \<Rightarrow> Inr b | None \<Rightarrow> Inl (Dangling p)))"

definition upd_common ::
  "'a tcp_st_scheme \<Rightarrow> addr \<Rightarrow> (tcp_pcb \<Rightarrow> tcp_pcb) \<Rightarrow> (tcp_pcb_listen \<Rightarrow> tcp_pcb_listen) \<Rightarrow> 'a tcp_st_scheme res" where
  "upd_common st p f g = (if p = 0 then Inl Null_deref
     else case tcp_pcbs st p of Some b \<Rightarrow> Inr (st\<lparr>tcp_pcbs := (tcp_pcbs st)(p \<mapsto> f b)\<rparr>)
        | None \<Rightarrow> (case tcp_lpcbs st p of
              Some b \<Rightarrow> Inr (st\<lparr>tcp_lpcbs := (tcp_lpcbs st)(p \<mapsto> g b)\<rparr>)
            | None \<Rightarrow> Inl (Dangling p)))"

definition set_next :: "'a tcp_st_scheme \<Rightarrow> addr \<Rightarrow> addr \<Rightarrow> 'a tcp_st_scheme res" where
  "set_next st p n = upd_common st p (\<lambda>b. b\<lparr>pcb_next := n\<rparr>) (\<lambda>b. b\<lparr>pcb_next := n\<rparr>)"

section \<open>The lists of control blocks\<close>

text \<open>\<open>tcp_pcb_lists\<close>: the four lists, in the order of the array of \<^verbatim>\<open>tcp.c\<close>.\<close>

datatype pcb_list = L_listen | L_bound | L_active | L_tw

definition tcp_pcb_lists :: "pcb_list list" where
  "tcp_pcb_lists = [L_listen, L_bound, L_active, L_tw]"

fun head_of :: "'a tcp_st_scheme \<Rightarrow> pcb_list \<Rightarrow> addr" where
  "head_of st L_listen = tcp_listen_pcbs st"
| "head_of st L_bound = tcp_bound_pcbs st"
| "head_of st L_active = tcp_active_pcbs st"
| "head_of st L_tw = tcp_tw_pcbs st"

fun set_head :: "'a tcp_st_scheme \<Rightarrow> pcb_list \<Rightarrow> addr \<Rightarrow> 'a tcp_st_scheme" where
  "set_head st L_listen p = st\<lparr>tcp_listen_pcbs := p\<rparr>"
| "set_head st L_bound p = st\<lparr>tcp_bound_pcbs := p\<rparr>"
| "set_head st L_active p = st\<lparr>tcp_active_pcbs := p\<rparr>"
| "set_head st L_tw p = st\<lparr>tcp_tw_pcbs := p\<rparr>"

text \<open>The pools hold 32 connection blocks and 8 listen blocks, so no list is longer than 40.\<close>

definition pcb_fuel :: nat where "pcb_fuel = 64"

text \<open>\<open>tcp_timer_needed\<close> (\<^verbatim>\<open>timers.c\<close>) is empty with \<^verbatim>\<open>NO_SYS_NO_TIMERS\<close>.\<close>

definition TCP_REG :: "'a tcp_st_scheme \<Rightarrow> pcb_list \<Rightarrow> addr \<Rightarrow> 'a tcp_st_scheme res" where
  "TCP_REG st l npcb = rbind (set_next st npcb (head_of st l)) (\<lambda>st1. Inr (set_head st1 l npcb))"

text \<open>The loop of \<open>TCP_RMV\<close>: find the block before \<open>npcb\<close> and unlink \<open>npcb\<close> there.\<close>

primrec rmv_loop :: "nat \<Rightarrow> 'a tcp_st_scheme \<Rightarrow> addr \<Rightarrow> addr \<Rightarrow> 'a tcp_st_scheme res" where
  "rmv_loop 0 st npcb t = (if t = 0 then Inr st else Inl Out_of_fuel)"
| "rmv_loop (Suc fuel) st npcb t =
     (if t = 0 then Inr st
      else rbind (get_common st t) (\<lambda>b.
        if pcb_next b = npcb
        then rbind (get_common st npcb) (\<lambda>n. set_next st t (pcb_next n))
        else rmv_loop fuel st npcb (pcb_next b)))"

definition TCP_RMV :: "'a tcp_st_scheme \<Rightarrow> pcb_list \<Rightarrow> addr \<Rightarrow> 'a tcp_st_scheme res" where
  "TCP_RMV st l npcb =
     rbind (if head_of st l = npcb
            then rbind (get_common st npcb) (\<lambda>b. Inr (set_head st l (pcb_next b)))
            else rmv_loop pcb_fuel st npcb (head_of st l))
       (\<lambda>st1. set_next st1 npcb 0)"

definition TCP_REG_ACTIVE :: "'a tcp_st_scheme \<Rightarrow> addr \<Rightarrow> 'a tcp_st_scheme res" where
  "TCP_REG_ACTIVE st npcb =
     rbind (TCP_REG st L_active npcb) (\<lambda>st1. Inr (st1\<lparr>tcp_active_pcbs_changed := 1\<rparr>))"

definition TCP_RMV_ACTIVE :: "'a tcp_st_scheme \<Rightarrow> addr \<Rightarrow> 'a tcp_st_scheme res" where
  "TCP_RMV_ACTIVE st npcb =
     rbind (TCP_RMV st L_active npcb) (\<lambda>st1. Inr (st1\<lparr>tcp_active_pcbs_changed := 1\<rparr>))"

section \<open>TCP headers in memory\<close>

text \<open>
  The offsets of \<^verbatim>\<open>struct tcp_hdr\<close>: \<^verbatim>\<open>src\<close> 0, \<^verbatim>\<open>dest\<close> 2, \<^verbatim>\<open>seqno\<close> 4, \<^verbatim>\<open>ackno\<close> 8,
  \<^verbatim>\<open>_hdrlen_rsvd_flags\<close> 12, \<^verbatim>\<open>wnd\<close> 14, \<^verbatim>\<open>chksum\<close> 16, \<^verbatim>\<open>urgp\<close> 18.
\<close>

definition TCPH_HDRLEN :: "memory \<Rightarrow> addr \<Rightarrow> u16 res" where
  "TCPH_HDRLEN m h = rbind (rd16 m (h + 12)) (\<lambda>x. Inr (drop_bit 12 (lwip_ntohs x)))"

definition TCPH_FLAGS :: "memory \<Rightarrow> addr \<Rightarrow> u8 res" where
  "TCPH_FLAGS m h = rbind (rd16 m (h + 12)) (\<lambda>x. Inr (ucast (lwip_ntohs x AND TCP_FLAGS)))"

definition TCPH_FLAGS_SET :: "memory \<Rightarrow> addr \<Rightarrow> u8 \<Rightarrow> memory res" where
  "TCPH_FLAGS_SET m h fl = rbind (rd16 m (h + 12)) (\<lambda>x.
     wr16 m (h + 12) ((x AND lwip_htons (NOT TCP_FLAGS)) OR lwip_htons (ucast fl)))"

definition TCPH_HDRLEN_FLAGS_SET :: "memory \<Rightarrow> addr \<Rightarrow> u16 \<Rightarrow> u8 \<Rightarrow> memory res" where
  "TCPH_HDRLEN_FLAGS_SET m h len fl = wr16 m (h + 12) (lwip_htons (push_bit 12 len OR ucast fl))"

definition TCPH_SET_FLAG :: "memory \<Rightarrow> addr \<Rightarrow> u8 \<Rightarrow> memory res" where
  "TCPH_SET_FLAG m h fl = rbind (rd16 m (h + 12)) (\<lambda>x. wr16 m (h + 12) (x OR lwip_htons (ucast fl)))"

definition seg_seqno :: "memory \<Rightarrow> tcp_seg \<Rightarrow> u32 res" where
  "seg_seqno m s = rbind (rd32 m (tcphdr s + 4)) (\<lambda>x. Inr (lwip_ntohl x))"

text \<open>\<open>TCP_TCPLEN\<close>: \<^verbatim>\<open>SYN\<close> and \<^verbatim>\<open>FIN\<close> count for one sequence number. The sum is an \<^verbatim>\<open>int\<close>.\<close>

definition TCP_TCPLEN :: "memory \<Rightarrow> tcp_seg \<Rightarrow> u32 res" where
  "TCP_TCPLEN m s = rbind (TCPH_FLAGS m (tcphdr s)) (\<lambda>fl.
     Inr (ucast (seg_len s) + (if fl AND (TCP_FIN OR TCP_SYN) \<noteq> 0 then 1 else 0)))"

section \<open>Frame\<close>

text \<open>
  \<open>ip_st.more\<close> is the state of the TCP module and of what extends it; operations on pbufs and on
  the IP layer leave it alone.
\<close>

lemma ip_more_of_pbuf: "pbuf_st.more st' = pbuf_st.more st \<Longrightarrow> ip_st.more st' = ip_st.more st"
  by (cases st; cases st') auto

lemma tcp_fields_cong:
  assumes "ip_st.more st' = ip_st.more (st :: 'a tcp_st_scheme)"
  shows "tcp_pcbs st' = tcp_pcbs st" "tcp_lpcbs st' = tcp_lpcbs st"
    "tcp_listen_pcbs st' = tcp_listen_pcbs st" "tcp_bound_pcbs st' = tcp_bound_pcbs st"
    "tcp_active_pcbs st' = tcp_active_pcbs st" "tcp_tw_pcbs st' = tcp_tw_pcbs st"
    "tcp_active_pcbs_changed st' = tcp_active_pcbs_changed st" "tcp_port st' = tcp_port st"
    "tcp_ticks st' = tcp_ticks st" "tcp_timer st' = tcp_timer st" "tcp_timer_ctr st' = tcp_timer_ctr st"
    "tcp_iss st' = tcp_iss st" "tcp_input_pcb st' = tcp_input_pcb st" "tcp_st.more st' = tcp_st.more st"
  using assms by (cases st; cases st'; auto)+

lemma get_pcb_keeps:
  assumes "ip_st.more st' = ip_st.more st"
  shows "get_pcb st' p = get_pcb st p"
  unfolding get_pcb_def tcp_fields_cong [OF assms] ..

lemma get_common_keeps:
  assumes "ip_st.more st' = ip_st.more st"
  shows "get_common st' p = get_common st p"
  unfolding get_common_def tcp_fields_cong [OF assms] ..

section \<open>A new block\<close>

definition initial_mss :: u16 where "initial_mss = (if 536 < TCP_MSS then 536 else TCP_MSS)"

text \<open>The block that \<open>tcp_alloc\<close> hands out: cleared, then initialised.\<close>

definition tcp_pcb_init :: "u8 \<Rightarrow> u32 \<Rightarrow> u32 \<Rightarrow> u8 \<Rightarrow> tcp_pcb" where
  "tcp_pcb_init pr iss ticks ctr =
     \<lparr>local_ip = 0, remote_ip = 0, so_options = 0, tos = 0, ttl = TCP_TTL, pcb_next = 0, callback_arg = 0,
      accept_fn = FN_NULL, pcb_state = CLOSED, prio = pr, local_port = 0,
      remote_port = 0, pcb_flags = 0, polltmr = 0, pollinterval = 0, last_timer = ctr, tmr = ticks,
      rcv_nxt = 0, rcv_wnd = TCP_WND, rcv_ann_wnd = TCP_WND, rcv_ann_right_edge = 0, rtime = - 1,
      mss = initial_mss, rttest = 0, rtseq = 0, sa = 0, sv = 3000 div 500, rto = 3000 div 500, nrtx = 0,
      dupacks = 0, lastack = iss, cwnd = 1, ssthresh = 0, snd_nxt = iss, snd_wl1 = 0, snd_wl2 = iss,
      snd_lbb = iss, snd_wnd = 0, snd_wnd_max = 0, acked = 0, snd_buf = TCP_SND_BUF, snd_queuelen = 0,
      unsent = [], unacked = [], ooseq = [], refused_data = 0, sent_fn = FN_NULL,
      recv_fn = FN_tcp_recv_null, connected_fn = FN_NULL, poll_fn = FN_NULL, errf = FN_NULL,
      keep_idle = TCP_KEEPIDLE_DEFAULT, persist_cnt = 0, persist_backoff = 0, keep_cnt_sent = 0\<rparr>"

section \<open>Concrete states\<close>

text \<open>
  A state with the given memory, pbufs and control blocks, empty lists and pools, a used up heap
  and no network interface, for the concrete instances.
\<close>

definition sample_tcp :: "memory \<Rightarrow> (addr \<rightharpoonup> pbuf) \<Rightarrow> (addr \<rightharpoonup> tcp_pcb) \<Rightarrow> tcp_st" where
  "sample_tcp m h t =
     \<lparr>bytes = m, pbufs = h, pools = \<lparr>memp_tab = (\<lambda>_. 0), memp_next = (\<lambda>_. 0)\<rparr>,
      mheap = \<lparr>ram_base = 0, hdr = (\<lambda>_. \<lparr>mh_next = 0, mh_prev = 0, mh_used = False\<rparr>), lfree = 131072\<rparr>,
      pbuf_free_ooseq_pending = 0, custom_freed = [],
      emac = XEmacLite_CfgInitialize (\<lambda>_. 0) 0x40E00000 True True, recv_q = pq_empty, send_q = pq_empty,
      xemac_tx_frame = 0, intc_acks = [], arp_table = [], etharp_cached_entry = 0,
      netifs = Map.empty, netif_list = [], netif_default = 0, netif_num = 0, ip_id = 0, current_netif = 0, current_header = 0,
      current_iphdr_src = 0, current_iphdr_dest = 0, reass = Map.empty, reassdatagrams = 0, ip_reass_pbufcount = 0,
      frag_refs = Map.empty, raw_tab = Map.empty, raw_pcbs = 0, udp_tab = Map.empty, udp_pcbs = 0, udp_port = 0xc000,
      tcp_pcbs = t, tcp_lpcbs = Map.empty, tcp_listen_pcbs = 0, tcp_bound_pcbs = 0, tcp_active_pcbs = 0,
      tcp_tw_pcbs = 0, tcp_active_pcbs_changed = 0, tcp_port = 0xc000, tcp_ticks = 0, tcp_timer = 0,
      tcp_timer_ctr = 0, tcp_iss = 6510, tcp_input_pcb = 0\<rparr>"

definition sample_pcb :: tcp_pcb where "sample_pcb = tcp_pcb_init 64 6510 0 0"

lemmas tcp_samples = sample_tcp_def sample_pcb_def tcp_pcb_init_def

lemma put_pcb_simps [simp]:
  "tcp_pcbs (put_pcb st p c) = (tcp_pcbs st)(p \<mapsto> c)"
  "tcp_lpcbs (put_pcb st p c) = tcp_lpcbs st"
  "pbufs (put_pcb st p c) = pbufs st" "bytes (put_pcb st p c) = bytes st"
  "pools (put_pcb st p c) = pools st" "mheap (put_pcb st p c) = mheap st"
  "tcp_listen_pcbs (put_pcb st p c) = tcp_listen_pcbs st" "tcp_bound_pcbs (put_pcb st p c) = tcp_bound_pcbs st"
  "tcp_active_pcbs (put_pcb st p c) = tcp_active_pcbs st" "tcp_tw_pcbs (put_pcb st p c) = tcp_tw_pcbs st"
  "tcp_ticks (put_pcb st p c) = tcp_ticks st" "tcp_timer_ctr (put_pcb st p c) = tcp_timer_ctr st"
  "tcp_st.more (put_pcb st p c) = tcp_st.more st"
  by (simp_all add: put_pcb_def)

end
