(* ===== verification/TcpOut.thy ===== *)
theory TcpOut
  imports TcpState
begin

text \<open>
  TCP output: \<^verbatim>\<open>lwip-1.4.1/src/core/tcp_out.c\<close>, with \<^verbatim>\<open>tcp_seg_free\<close>, \<^verbatim>\<open>tcp_segs_free\<close> and
  \<^verbatim>\<open>tcp_eff_send_mss\<close> of \<^verbatim>\<open>tcp.c\<close>, which it calls. Segments go out through \<open>ip_output\<close>; the
  functions of the network interface behind it are the argument \<open>env\<close>.
\<close>

section \<open>Segments\<close>

definition tcp_seg_free :: "'a tcp_st_scheme \<Rightarrow> tcp_seg \<Rightarrow> 'a tcp_st_scheme res" where
  "tcp_seg_free st seg =
     rbind (if seg_p seg \<noteq> 0 then rbind (pbuf_free st (seg_p seg)) (\<lambda>(_, st1). Inr st1) else Inr st)
       (\<lambda>st1. Inr (st1\<lparr>pools := memp_free (pools st1) MEMP_TCP_SEG (seg_at seg)\<rparr>))"

fun tcp_segs_free :: "'a tcp_st_scheme \<Rightarrow> tcp_seg list \<Rightarrow> 'a tcp_st_scheme res" where
  "tcp_segs_free st [] = Inr st"
| "tcp_segs_free st (seg # segs) = rbind (tcp_seg_free st seg) (\<lambda>st1. tcp_segs_free st1 segs)"

definition tcp_seg_copy :: "'a tcp_st_scheme \<Rightarrow> tcp_seg \<Rightarrow> (tcp_seg option \<times> 'a tcp_st_scheme) res" where
  "tcp_seg_copy st seg =
     (case memp_malloc (pools st) MEMP_TCP_SEG of (a, pools') \<Rightarrow>
        if a = 0 then Inr (None, st\<lparr>pools := pools'\<rparr>)
        else rbind (pbuf_ref (st\<lparr>pools := pools'\<rparr>) (seg_p seg)) (\<lambda>st1. Inr (Some (seg\<lparr>seg_at := a\<rparr>), st1)))"

definition tcp_eff_send_mss :: "'a tcp_st_scheme \<Rightarrow> u16 \<Rightarrow> u32 \<Rightarrow> u16 res" where
  "tcp_eff_send_mss st sendmss dest =
     rbind (ip_route st dest) (\<lambda>outif.
       if outif = 0 then Inr sendmss
       else rbind (get_netif st outif) (\<lambda>n.
         if mtu n = 0 then Inr sendmss else Inr (min sendmss (mtu n - 20 - 20))))"

section \<open>Building segments\<close>

text \<open>The fields of a header without options, in the order the code writes them.\<close>

definition tcp_fill_header ::
  "memory \<Rightarrow> addr \<Rightarrow> u16 \<Rightarrow> u16 \<Rightarrow> u32 \<Rightarrow> u32 \<Rightarrow> u16 \<Rightarrow> u8 \<Rightarrow> u16 \<Rightarrow> memory res" where
  "tcp_fill_header m h src dest seqno_be ackno hdrlen fl wnd =
     rbind (wr16 m h (lwip_htons src)) (\<lambda>m. rbind (wr16 m (h + 2) (lwip_htons dest)) (\<lambda>m.
     rbind (wr32 m (h + 4) seqno_be) (\<lambda>m. rbind (wr32 m (h + 8) (lwip_htonl ackno)) (\<lambda>m.
     rbind (TCPH_HDRLEN_FLAGS_SET m h hdrlen fl) (\<lambda>m. rbind (wr16 m (h + 14) (lwip_htons wnd)) (\<lambda>m.
     rbind (wr16 m (h + 16) 0) (\<lambda>m. wr16 m (h + 18) 0)))))))"

definition tcp_output_alloc_header ::
  "'a tcp_st_scheme \<Rightarrow> addr \<Rightarrow> u16 \<Rightarrow> u16 \<Rightarrow> u32 \<Rightarrow> (addr \<times> 'a tcp_st_scheme) res" where
  "tcp_output_alloc_header st pcb optlen datalen seqno_be =
     rbind (pbuf_alloc st PBUF_IP (TCP_HLEN + optlen + datalen) PBUF_RAM) (\<lambda>(p, st1).
       if p = 0 then Inr (0, st1)
       else rbind (get_pbuf st1 p) (\<lambda>b. rbind (get_pcb st1 pcb) (\<lambda>c.
         rbind (tcp_fill_header (bytes st1) (payload b) (local_port c) (remote_port c) seqno_be (rcv_nxt c)
                  (5 + optlen div 4) TCP_ACK (rcv_ann_wnd c)) (\<lambda>m.
         rbind (upd_pcb (st1\<lparr>bytes := m\<rparr>) pcb
                  (\<lambda>c. c\<lparr>rcv_ann_right_edge := rcv_nxt c + ucast (rcv_ann_wnd c)\<rparr>)) (\<lambda>st2.
           Inr (p, st2))))))"

definition tcp_create_segment ::
  "'a tcp_st_scheme \<Rightarrow> addr \<Rightarrow> addr \<Rightarrow> u8 \<Rightarrow> u32 \<Rightarrow> u8 \<Rightarrow> (tcp_seg option \<times> 'a tcp_st_scheme) res" where
  "tcp_create_segment st pcb p fl seqno optflags =
     (let optlen = LWIP_TCP_OPT_LENGTH optflags in
      case memp_malloc (pools st) MEMP_TCP_SEG of (a, pools') \<Rightarrow>
        let st1 = st\<lparr>pools := pools'\<rparr> in
        if a = 0 then rbind (pbuf_free st1 p) (\<lambda>(_, st2). Inr (None, st2))
        else rbind (get_pbuf st1 p) (\<lambda>b.
          let seg = \<lparr>seg_at = a, seg_p = p, seg_len = tot_len b - ucast optlen, seg_flags = optflags, tcphdr = 0\<rparr>
          in rbind (pbuf_header st1 p TCP_HLEN) (\<lambda>(failed, st2).
            if failed \<noteq> 0 then rbind (tcp_seg_free st2 seg) (\<lambda>st3. Inr (None, st3))
            else rbind (get_pbuf st2 p) (\<lambda>b2. rbind (get_pcb st2 pcb) (\<lambda>c.
              let h = payload b2 in
              rbind (wr16 (bytes st2) h (lwip_htons (local_port c))) (\<lambda>m.
              rbind (wr16 m (h + 2) (lwip_htons (remote_port c))) (\<lambda>m.
              rbind (wr32 m (h + 4) (lwip_htonl seqno)) (\<lambda>m.
              rbind (TCPH_HDRLEN_FLAGS_SET m h (5 + ucast optlen div 4) fl) (\<lambda>m.
              rbind (wr16 m (h + 18) 0) (\<lambda>m.
                Inr (Some (seg\<lparr>tcphdr := h\<rparr>), st2\<lparr>bytes := m\<rparr>)))))))))))"

definition tcp_enqueue_flags :: "'a tcp_st_scheme \<Rightarrow> addr \<Rightarrow> u8 \<Rightarrow> (err_t \<times> 'a tcp_st_scheme) res" where
  "tcp_enqueue_flags st pcb fl =
     rbind (get_pcb st pcb) (\<lambda>c.
       let memerr = (\<lambda>st1. rbind (upd_pcb st1 pcb (\<lambda>c. c\<lparr>pcb_flags := pcb_flags c OR TF_NAGLEMEMERR\<rparr>))
                             (\<lambda>st2. Inr (ERR_MEM, st2)))
       in if TCP_SND_QUEUELEN \<le> snd_queuelen c \<or> TCP_SNDQUEUELEN_OVERFLOW < snd_queuelen c then memerr st
       else
         let optflags = (if fl AND TCP_SYN \<noteq> 0 then TF_SEG_OPTS_MSS else 0);
             optlen = LWIP_TCP_OPT_LENGTH optflags
         in if snd_buf c = 0 then Inr (ERR_MEM, st)
         else rbind (pbuf_alloc st PBUF_TRANSPORT (ucast optlen) PBUF_RAM) (\<lambda>(p, st1).
           if p = 0 then memerr st1
           else rbind (tcp_create_segment st1 pcb p fl (snd_lbb c) optflags) (\<lambda>(s, st2).
             case s of None \<Rightarrow> memerr st2
             | Some seg \<Rightarrow>
                 rbind (upd_pcb st2 pcb (\<lambda>c. c\<lparr>unsent := unsent c @ [seg]\<rparr>)) (\<lambda>st3.
                 rbind (if fl AND TCP_SYN \<noteq> 0 \<or> fl AND TCP_FIN \<noteq> 0
                        then upd_pcb st3 pcb (\<lambda>c. c\<lparr>snd_lbb := snd_lbb c + 1, snd_buf := snd_buf c - 1\<rparr>)
                        else Inr st3) (\<lambda>st4.
                 rbind (if fl AND TCP_FIN \<noteq> 0
                        then upd_pcb st4 pcb (\<lambda>c. c\<lparr>pcb_flags := pcb_flags c OR TF_FIN\<rparr>)
                        else Inr st4) (\<lambda>st5.
                 rbind (pbuf_clen st5 (seg_p seg)) (\<lambda>n.
                 rbind (upd_pcb st5 pcb (\<lambda>c. c\<lparr>snd_queuelen := snd_queuelen c + ucast n\<rparr>)) (\<lambda>st6.
                   Inr (ERR_OK, st6)))))))))"

definition tcp_send_fin :: "'a tcp_st_scheme \<Rightarrow> addr \<Rightarrow> (err_t \<times> 'a tcp_st_scheme) res" where
  "tcp_send_fin st pcb =
     rbind (get_pcb st pcb) (\<lambda>c.
       if unsent c = [] then tcp_enqueue_flags st pcb TCP_FIN
       else
         let last_unsent = last (unsent c) in
         rbind (TCPH_FLAGS (bytes st) (tcphdr last_unsent)) (\<lambda>fl.
           if fl AND (TCP_SYN OR TCP_FIN OR TCP_RST) = 0 then
             rbind (TCPH_SET_FLAG (bytes st) (tcphdr last_unsent) TCP_FIN) (\<lambda>m.
             rbind (upd_pcb (st\<lparr>bytes := m\<rparr>) pcb (\<lambda>c. c\<lparr>pcb_flags := pcb_flags c OR TF_FIN\<rparr>)) (\<lambda>st1.
               Inr (ERR_OK, st1)))
           else tcp_enqueue_flags st pcb TCP_FIN))"

section \<open>Sending\<close>

text \<open>
  The tail of every function that sends a packet of its own: the checksum, IP output (the result
  is ignored), and the pbuf is freed.
\<close>

definition tcp_checksum_at :: "'a tcp_st_scheme \<Rightarrow> addr \<Rightarrow> addr \<Rightarrow> u32 \<Rightarrow> u32 \<Rightarrow> 'a tcp_st_scheme res" where
  "tcp_checksum_at st h p src dest =
     rbind (get_pbuf st p) (\<lambda>b.
     rbind (inet_chksum_pseudo st p src dest IP_PROTO_TCP (tot_len b)) (\<lambda>ck.
     rbind (wr16 (bytes st) (h + 16) ck) (\<lambda>m. Inr (st\<lparr>bytes := m\<rparr>))))"

definition tcp_send_packet ::
  "('a tcp_st_scheme) ip_env \<Rightarrow> 'a tcp_st_scheme \<Rightarrow> addr \<Rightarrow> u32 \<Rightarrow> u32 \<Rightarrow> u8 \<Rightarrow> u8 \<Rightarrow> 'a tcp_st_scheme res" where
  "tcp_send_packet env st p src dest ttl0 tos0 =
     rbind (get_pbuf st p) (\<lambda>b.
     rbind (tcp_checksum_at st (payload b) p src dest) (\<lambda>st1.
     rbind (ip_output env st1 p src dest ttl0 tos0 IP_PROTO_TCP) (\<lambda>(_, st2).
     rbind (pbuf_free st2 p) (\<lambda>(_, st3). Inr st3))))"

definition tcp_send_empty_ack ::
  "('a tcp_st_scheme) ip_env \<Rightarrow> 'a tcp_st_scheme \<Rightarrow> addr \<Rightarrow> (err_t \<times> 'a tcp_st_scheme) res" where
  "tcp_send_empty_ack env st pcb =
     rbind (get_pcb st pcb) (\<lambda>c.
     rbind (tcp_output_alloc_header st pcb 0 0 (lwip_htonl (snd_nxt c))) (\<lambda>(p, st1).
       if p = 0 then Inr (ERR_BUF, st1)
       else
         rbind (upd_pcb st1 pcb (\<lambda>c. c\<lparr>pcb_flags := pcb_flags c AND NOT (TF_ACK_DELAY OR TF_ACK_NOW)\<rparr>)) (\<lambda>st2.
         rbind (get_pcb st2 pcb) (\<lambda>c2.
         rbind (tcp_send_packet env st2 p (local_ip c2) (remote_ip c2) (ttl c2) (tos c2)) (\<lambda>st3.
           Inr (ERR_OK, st3))))))"

definition tcp_rst ::
  "('a tcp_st_scheme) ip_env \<Rightarrow> 'a tcp_st_scheme \<Rightarrow> u32 \<Rightarrow> u32 \<Rightarrow> u32 \<Rightarrow> u32 \<Rightarrow> u16 \<Rightarrow> u16
     \<Rightarrow> 'a tcp_st_scheme res" where
  "tcp_rst env st seqno ackno lip rip lport rport =
     rbind (pbuf_alloc st PBUF_IP TCP_HLEN PBUF_RAM) (\<lambda>(p, st1).
       if p = 0 then Inr st1
       else rbind (get_pbuf st1 p) (\<lambda>b.
         rbind (tcp_fill_header (bytes st1) (payload b) lport rport (lwip_htonl seqno) ackno
                  (TCP_HLEN div 4) (TCP_RST OR TCP_ACK) TCP_WND) (\<lambda>m.
           tcp_send_packet env (st1\<lparr>bytes := m\<rparr>) p lip rip TCP_TTL 0)))"

text \<open>\<open>tcp_keepalive\<close> sends the sequence number before \<open>snd_nxt\<close> again.\<close>

definition tcp_keepalive :: "('a tcp_st_scheme) ip_env \<Rightarrow> 'a tcp_st_scheme \<Rightarrow> addr \<Rightarrow> 'a tcp_st_scheme res" where
  "tcp_keepalive env st pcb =
     rbind (get_pcb st pcb) (\<lambda>c.
     rbind (tcp_output_alloc_header st pcb 0 0 (lwip_htonl (snd_nxt c - 1))) (\<lambda>(p, st1).
       if p = 0 then Inr st1
       else rbind (get_pcb st1 pcb) (\<lambda>c1. tcp_send_packet env st1 p (local_ip c1) (remote_ip c1) (ttl c1) 0)))"

definition tcp_zero_window_probe ::
  "('a tcp_st_scheme) ip_env \<Rightarrow> 'a tcp_st_scheme \<Rightarrow> addr \<Rightarrow> 'a tcp_st_scheme res" where
  "tcp_zero_window_probe env st pcb =
     rbind (get_pcb st pcb) (\<lambda>c.
       case unacked c @ unsent c of
         [] \<Rightarrow> Inr st
       | seg # _ \<Rightarrow>
           rbind (TCPH_FLAGS (bytes st) (tcphdr seg)) (\<lambda>fl.
           rbind (rd32 (bytes st) (tcphdr seg + 4)) (\<lambda>seqno_be.
             let is_fin = (fl AND TCP_FIN \<noteq> 0 \<and> seg_len seg = 0);
                 len = (if is_fin then 0 else 1)
             in rbind (tcp_output_alloc_header st pcb 0 len seqno_be) (\<lambda>(p, st1).
               if p = 0 then Inr st1
               else rbind (get_pbuf st1 p) (\<lambda>b.
                 rbind (if is_fin
                        then rbind (TCPH_FLAGS_SET (bytes st1) (payload b) (TCP_ACK OR TCP_FIN))
                               (\<lambda>m. Inr (st1\<lparr>bytes := m\<rparr>))
                        else rbind (get_pbuf st1 (seg_p seg)) (\<lambda>q.
                               rbind (pbuf_copy_partial st1 (seg_p seg) (payload b + 20) 1 (tot_len q - seg_len seg))
                                 (\<lambda>(_, st2). Inr st2))) (\<lambda>st2.
                 rbind (get_pcb st2 pcb) (\<lambda>c2.
                   tcp_send_packet env st2 p (local_ip c2) (remote_ip c2) (ttl c2) 0)))))))"

definition tcp_output_segment ::
  "('a tcp_st_scheme) ip_env \<Rightarrow> 'a tcp_st_scheme \<Rightarrow> tcp_seg \<Rightarrow> addr \<Rightarrow> 'a tcp_st_scheme res" where
  "tcp_output_segment env st seg pcb =
     (let h = tcphdr seg in
      rbind (get_pcb st pcb) (\<lambda>c.
      rbind (wr32 (bytes st) (h + 8) (lwip_htonl (rcv_nxt c))) (\<lambda>m.
      rbind (wr16 m (h + 14) (lwip_htons (rcv_ann_wnd c))) (\<lambda>m.
      rbind (upd_pcb (st\<lparr>bytes := m\<rparr>) pcb
               (\<lambda>c. c\<lparr>rcv_ann_right_edge := rcv_nxt c + ucast (rcv_ann_wnd c)\<rparr>)) (\<lambda>st1.
      rbind (if seg_flags seg AND TF_SEG_OPTS_MSS \<noteq> 0 then
               rbind (tcp_eff_send_mss st1 TCP_MSS (remote_ip c)) (\<lambda>mss0.
               rbind (wr32 (bytes st1) (h + 20) (TCP_BUILD_MSS_OPTION mss0)) (\<lambda>m. Inr (st1\<lparr>bytes := m\<rparr>)))
             else Inr st1) (\<lambda>st2.
      rbind (upd_pcb st2 pcb (\<lambda>c. if rtime c = - 1 then c\<lparr>rtime := 0\<rparr> else c)) (\<lambda>st3.
      rbind (if ip_addr_isany (local_ip c) then
               rbind (ip_route st3 (remote_ip c)) (\<lambda>n.
                 if n = 0 then Inr (False, st3)
                 else rbind (get_netif st3 n) (\<lambda>x.
                      rbind (upd_pcb st3 pcb (\<lambda>c. c\<lparr>local_ip := ip_addr x\<rparr>)) (\<lambda>st4. Inr (True, st4))))
             else Inr (True, st3)) (\<lambda>(routed, st4).
        if \<not> routed then Inr st4
        else
          rbind (seg_seqno (bytes st4) seg) (\<lambda>seqno.
          rbind (upd_pcb st4 pcb
                   (\<lambda>c. if rttest c = 0 then c\<lparr>rttest := tcp_ticks st4, rtseq := seqno\<rparr> else c)) (\<lambda>st5.
          rbind (upd_pbuf st5 (seg_p seg) (\<lambda>b.
                   let len = of_int (int h - int (payload b)) in
                   b\<lparr>pb_len := pb_len b - len, tot_len := tot_len b - len, payload := h\<rparr>)) (\<lambda>st6.
          rbind (wr16 (bytes st6) (h + 16) 0) (\<lambda>m.
          rbind (get_pcb st6 pcb) (\<lambda>c2.
          rbind (tcp_checksum_at (st6\<lparr>bytes := m\<rparr>) h (seg_p seg) (local_ip c2) (remote_ip c2)) (\<lambda>st7.
          rbind (ip_output env st7 (seg_p seg) (local_ip c2) (remote_ip c2) (ttl c2) (tos c2) IP_PROTO_TCP)
            (\<lambda>(_, st8). Inr st8)))))))))))))))"

section \<open>The output loop\<close>

definition tcp_do_output_nagle :: "tcp_pcb \<Rightarrow> bool" where
  "tcp_do_output_nagle c =
     (unacked c = [] \<or> pcb_flags c AND (TF_NODELAY OR TF_INFR) \<noteq> 0 \<or>
      (case unsent c of [] \<Rightarrow> False | s # ss \<Rightarrow> ss \<noteq> [] \<or> mss c \<le> seg_len s) \<or>
      snd_buf c = 0 \<or> TCP_SND_QUEUELEN \<le> snd_queuelen c)"

text \<open>Insertion before the first segment whose sequence number is not below \<open>seqno\<close>.\<close>

fun insert_by_seqno :: "memory \<Rightarrow> u32 \<Rightarrow> tcp_seg \<Rightarrow> tcp_seg list \<Rightarrow> tcp_seg list res" where
  "insert_by_seqno m seqno seg [] = Inr [seg]"
| "insert_by_seqno m seqno seg (x # xs) =
     rbind (seg_seqno m x) (\<lambda>sx.
       if TCP_SEQ_LT sx seqno then rbind (insert_by_seqno m seqno seg xs) (\<lambda>ys. Inr (x # ys))
       else Inr (seg # x # xs))"

text \<open>\<open>useg->next = seg\<close> for a segment \<open>useg\<close> of the queue.\<close>

definition set_next_seg :: "tcp_seg \<Rightarrow> tcp_seg \<Rightarrow> tcp_seg list \<Rightarrow> tcp_seg list" where
  "set_next_seg useg seg xs = takeWhile (\<lambda>x. seg_at x \<noteq> seg_at useg) xs @ [useg, seg]"

text \<open>
  A segment that was sent goes to the \<open>unacked\<close> queue: at its tail \<open>useg\<close>, or before it when it is
  a retransmission. The result has the new \<open>useg\<close>.
\<close>

definition queue_unacked ::
  "'a tcp_st_scheme \<Rightarrow> addr \<Rightarrow> tcp_seg \<Rightarrow> tcp_seg option \<Rightarrow> (tcp_seg option \<times> 'a tcp_st_scheme) res" where
  "queue_unacked st pcb seg useg =
     rbind (get_pcb st pcb) (\<lambda>c.
       if unacked c = [] then
         rbind (upd_pcb st pcb (\<lambda>c. c\<lparr>unacked := [seg]\<rparr>)) (\<lambda>st1. Inr (Some seg, st1))
       else case useg of
         None \<Rightarrow> Inl Null_deref
       | Some u \<Rightarrow>
           rbind (seg_seqno (bytes st) seg) (\<lambda>s. rbind (seg_seqno (bytes st) u) (\<lambda>su.
             if TCP_SEQ_LT s su then
               rbind (insert_by_seqno (bytes st) s seg (unacked c)) (\<lambda>q.
               rbind (upd_pcb st pcb (\<lambda>c. c\<lparr>unacked := q\<rparr>)) (\<lambda>st1. Inr (Some u, st1)))
             else
               rbind (upd_pcb st pcb (\<lambda>c. c\<lparr>unacked := set_next_seg u seg (unacked c)\<rparr>)) (\<lambda>st1.
                 Inr (Some seg, st1)))))"

text \<open>
  One round of the loop of \<open>tcp_output\<close> for the head \<open>seg\<close> of the \<open>unsent\<close> queue: take it off,
  set its \<open>ACK\<close> flag, send it, advance \<open>snd_nxt\<close>, keep it until it is acknowledged.
\<close>

definition output_head ::
  "('a tcp_st_scheme) ip_env \<Rightarrow> 'a tcp_st_scheme \<Rightarrow> addr \<Rightarrow> tcp_seg \<Rightarrow> tcp_seg option
     \<Rightarrow> (tcp_seg option \<times> 'a tcp_st_scheme) res" where
  "output_head env st pcb seg useg =
     rbind (upd_pcb st pcb (\<lambda>c. c\<lparr>unsent := tl (unsent c)\<rparr>)) (\<lambda>st1.
     rbind (get_pcb st1 pcb) (\<lambda>c.
     rbind (if pcb_state c \<noteq> SYN_SENT then
              rbind (TCPH_SET_FLAG (bytes st1) (tcphdr seg) TCP_ACK) (\<lambda>m.
                upd_pcb (st1\<lparr>bytes := m\<rparr>) pcb
                  (\<lambda>c. c\<lparr>pcb_flags := pcb_flags c AND NOT (TF_ACK_DELAY OR TF_ACK_NOW)\<rparr>))
            else Inr st1) (\<lambda>st2.
     rbind (tcp_output_segment env st2 seg pcb) (\<lambda>st3.
     rbind (seg_seqno (bytes st3) seg) (\<lambda>s.
     rbind (TCP_TCPLEN (bytes st3) seg) (\<lambda>n.
     rbind (upd_pcb st3 pcb (\<lambda>c. if TCP_SEQ_LT (snd_nxt c) (s + n) then c\<lparr>snd_nxt := s + n\<rparr> else c)) (\<lambda>st4.
       if 0 < n then queue_unacked st4 pcb seg useg
       else rbind (tcp_seg_free st4 seg) (\<lambda>st5. Inr (useg, st5)))))))))"

text \<open>The pool has 256 segments, so a queue has at most 256.\<close>

definition seg_fuel :: nat where "seg_fuel = 512"

primrec output_loop ::
  "nat \<Rightarrow> ('a tcp_st_scheme) ip_env \<Rightarrow> 'a tcp_st_scheme \<Rightarrow> addr \<Rightarrow> u32 \<Rightarrow> tcp_seg option \<Rightarrow> 'a tcp_st_scheme res" where
  "output_loop 0 env st pcb wnd useg = Inl Out_of_fuel"
| "output_loop (Suc fuel) env st pcb wnd useg =
     rbind (get_pcb st pcb) (\<lambda>c.
       case unsent c of
         [] \<Rightarrow> Inr st
       | seg # _ \<Rightarrow>
           rbind (seg_seqno (bytes st) seg) (\<lambda>s.
             if s - lastack c + ucast (seg_len seg) \<le> wnd then
               if \<not> tcp_do_output_nagle c \<and> pcb_flags c AND (TF_NAGLEMEMERR OR TF_FIN) = 0 then Inr st
               else rbind (output_head env st pcb seg useg) (\<lambda>(useg', st1). output_loop fuel env st1 pcb wnd useg')
             else Inr st))"

definition tcp_output ::
  "('a tcp_st_scheme) ip_env \<Rightarrow> 'a tcp_st_scheme \<Rightarrow> addr \<Rightarrow> (err_t \<times> 'a tcp_st_scheme) res" where
  "tcp_output env st pcb =
     (if tcp_input_pcb st = pcb then Inr (ERR_OK, st)
      else rbind (get_pcb st pcb) (\<lambda>c.
        let wnd = ucast (min (snd_wnd c) (cwnd c)) :: u32 in
        rbind (case unsent c of
                 [] \<Rightarrow> Inr True
               | seg # _ \<Rightarrow> rbind (seg_seqno (bytes st) seg) (\<lambda>s.
                   Inr (wnd < s - lastack c + ucast (seg_len seg)))) (\<lambda>nothing_to_send.
          if pcb_flags c AND TF_ACK_NOW \<noteq> 0 \<and> nothing_to_send then tcp_send_empty_ack env st pcb
          else
            rbind (output_loop seg_fuel env st pcb wnd
                     (if unacked c = [] then None else Some (last (unacked c)))) (\<lambda>st1.
            rbind (upd_pcb st1 pcb (\<lambda>c. c\<lparr>pcb_flags := pcb_flags c AND NOT TF_NAGLEMEMERR\<rparr>)) (\<lambda>st2.
              Inr (ERR_OK, st2))))))"

section \<open>Retransmission\<close>

definition tcp_rexmit_rto :: "('a tcp_st_scheme) ip_env \<Rightarrow> 'a tcp_st_scheme \<Rightarrow> addr \<Rightarrow> 'a tcp_st_scheme res" where
  "tcp_rexmit_rto env st pcb =
     rbind (get_pcb st pcb) (\<lambda>c.
       if unacked c = [] then Inr st
       else
         rbind (tcp_output env (put_pcb st pcb (c\<lparr>unsent := unacked c @ unsent c, unacked := [],
                                                 nrtx := nrtx c + 1, rttest := 0\<rparr>)) pcb)
           (\<lambda>(_, st1). Inr st1))"

definition tcp_rexmit :: "'a tcp_st_scheme \<Rightarrow> addr \<Rightarrow> 'a tcp_st_scheme res" where
  "tcp_rexmit st pcb =
     rbind (get_pcb st pcb) (\<lambda>c.
       case unacked c of
         [] \<Rightarrow> Inr st
       | seg # rest \<Rightarrow>
           rbind (if unsent c = [] then Inr [seg]
                  else rbind (seg_seqno (bytes st) seg) (\<lambda>s. insert_by_seqno (bytes st) s seg (unsent c))) (\<lambda>q.
             Inr (put_pcb st pcb (c\<lparr>unacked := rest, unsent := q, nrtx := nrtx c + 1, rttest := 0\<rparr>))))"

text \<open>The window arithmetic of the fast retransmit is done in \<^verbatim>\<open>int\<close> and stored in 16 bits.\<close>

definition tcp_rexmit_fast :: "'a tcp_st_scheme \<Rightarrow> addr \<Rightarrow> 'a tcp_st_scheme res" where
  "tcp_rexmit_fast st pcb =
     rbind (get_pcb st pcb) (\<lambda>c.
       if unacked c \<noteq> [] \<and> pcb_flags c AND TF_INFR = 0 then
         rbind (tcp_rexmit st pcb) (\<lambda>st1.
           upd_pcb st1 pcb (\<lambda>c.
             let half = (if snd_wnd c < cwnd c then snd_wnd c div 2 else cwnd c div 2);
                 thresh = (if unat half < 2 * unat (mss c) then 2 * mss c else half)
             in c\<lparr>ssthresh := thresh, cwnd := thresh + 3 * mss c, pcb_flags := pcb_flags c OR TF_INFR\<rparr>))
       else Inr st)"

section \<open>Writing data\<close>

definition tcp_write_checks :: "'a tcp_st_scheme \<Rightarrow> addr \<Rightarrow> u16 \<Rightarrow> (err_t \<times> 'a tcp_st_scheme) res" where
  "tcp_write_checks st pcb len =
     rbind (get_pcb st pcb) (\<lambda>c.
       if pcb_state c \<notin> {ESTABLISHED, CLOSE_WAIT, SYN_SENT, SYN_RCVD} then Inr (ERR_CONN, st)
       else if len = 0 then Inr (ERR_OK, st)
       else if snd_buf c < len \<or> TCP_SND_QUEUELEN \<le> snd_queuelen c \<or> TCP_SNDQUEUELEN_OVERFLOW < snd_queuelen c
       then Inr (ERR_MEM, put_pcb st pcb (c\<lparr>pcb_flags := pcb_flags c OR TF_NAGLEMEMERR\<rparr>))
       else Inr (ERR_OK, st))"

text \<open>
  A pbuf of \<open>seglen\<close> bytes of user data at \<open>src\<close>: a copy in a \<^verbatim>\<open>PBUF_RAM\<close> pbuf of the layer, or a
  \<^verbatim>\<open>PBUF_ROM\<close> pbuf that points to the data. \<open>0\<close> is the failed allocation.
\<close>

definition data_pbuf ::
  "'a tcp_st_scheme \<Rightarrow> pbuf_layer \<Rightarrow> bool \<Rightarrow> addr \<Rightarrow> u16 \<Rightarrow> (addr \<times> 'a tcp_st_scheme) res" where
  "data_pbuf st layer copy src seglen =
     (if copy then
        rbind (pbuf_alloc st layer seglen PBUF_RAM) (\<lambda>(p, st1).
          if p = 0 then Inr (0, st1)
          else rbind (get_pbuf st1 p) (\<lambda>b.
               rbind (memcpy (bytes st1) (payload b) src (unat seglen)) (\<lambda>m. Inr (p, st1\<lparr>bytes := m\<rparr>))))
      else
        rbind (pbuf_alloc st layer seglen PBUF_ROM) (\<lambda>(p, st1).
          if p = 0 then Inr (0, st1)
          else rbind (upd_pbuf st1 p (\<lambda>b. b\<lparr>payload := src\<rparr>)) (\<lambda>st2. Inr (p, st2))))"

text \<open>
  The pbufs of a new segment: the data pbuf alone when it is copied, otherwise an empty header pbuf
  chained in front of it.
\<close>

definition segment_pbufs ::
  "'a tcp_st_scheme \<Rightarrow> bool \<Rightarrow> addr \<Rightarrow> u16 \<Rightarrow> (addr \<times> 'a tcp_st_scheme) res" where
  "segment_pbufs st copy src seglen =
     rbind (data_pbuf st PBUF_TRANSPORT copy src seglen) (\<lambda>(p2, st1).
       if p2 = 0 \<or> copy then Inr (p2, st1)
       else rbind (pbuf_alloc st1 PBUF_TRANSPORT 0 PBUF_RAM) (\<lambda>(p, st2).
         if p = 0 then rbind (pbuf_free st2 p2) (\<lambda>(_, st3). Inr (0, st3))
         else rbind (pbuf_cat st2 p p2) (\<lambda>st3. Inr (p, st3))))"

text \<open>
  Phase 3: new segments until the data is used up. The result tells whether memory sufficed, and has
  the queue and its length. Every round adds at least one pbuf to the queue length, which is at most
  \<open>TCP_SND_QUEUELEN\<close> = 89, so 128 rounds are enough.
\<close>

definition write_fuel :: nat where "write_fuel = 128"

primrec write_loop ::
  "nat \<Rightarrow> 'a tcp_st_scheme \<Rightarrow> addr \<Rightarrow> addr \<Rightarrow> u16 \<Rightarrow> u16 \<Rightarrow> bool \<Rightarrow> u16 \<Rightarrow> u16 \<Rightarrow> tcp_seg list
     \<Rightarrow> (bool \<times> tcp_seg list \<times> u16 \<times> 'a tcp_st_scheme) res" where
  "write_loop 0 st pcb arg len mss_local copy pos queuelen queue =
     (if pos < len then Inl Out_of_fuel else Inr (True, queue, queuelen, st))"
| "write_loop (Suc fuel) st pcb arg len mss_local copy pos queuelen queue =
     (if pos < len then
        let left = len - pos; seglen = (if mss_local < left then mss_local else left) in
        rbind (segment_pbufs st copy (arg + unat pos) seglen) (\<lambda>(p, st1).
          if p = 0 then Inr (False, queue, queuelen, st1)
          else rbind (pbuf_clen st1 p) (\<lambda>n.
            let ql = queuelen + ucast n in
            if TCP_SND_QUEUELEN < ql \<or> TCP_SNDQUEUELEN_OVERFLOW < ql then
              rbind (pbuf_free st1 p) (\<lambda>(_, st2). Inr (False, queue, ql, st2))
            else rbind (get_pcb st1 pcb) (\<lambda>c.
              rbind (tcp_create_segment st1 pcb p 0 (snd_lbb c + ucast pos) 0) (\<lambda>(s, st2).
                case s of None \<Rightarrow> Inr (False, queue, ql, st2)
                | Some seg \<Rightarrow> write_loop fuel st2 pcb arg len mss_local copy (pos + seglen) ql (queue @ [seg])))))
      else Inr (True, queue, queuelen, st))"

text \<open>The path \<^verbatim>\<open>memerr\<close>: nothing of the local work is kept.\<close>

definition write_memerr ::
  "'a tcp_st_scheme \<Rightarrow> addr \<Rightarrow> addr \<Rightarrow> tcp_seg list \<Rightarrow> (err_t \<times> 'a tcp_st_scheme) res" where
  "write_memerr st pcb concat_p queue =
     rbind (upd_pcb st pcb (\<lambda>c. c\<lparr>pcb_flags := pcb_flags c OR TF_NAGLEMEMERR\<rparr>)) (\<lambda>st1.
     rbind (if concat_p \<noteq> 0 then rbind (pbuf_free st1 concat_p) (\<lambda>(_, st2). Inr st2) else Inr st1) (\<lambda>st2.
     rbind (tcp_segs_free st2 queue) (\<lambda>st3. Inr (ERR_MEM, st3))))"

text \<open>
  Phase 2: how many bytes go to the end of the last unsent segment, and the pbuf that holds them
  (\<open>None\<close> when the phase does nothing, \<open>Some 0\<close> when its allocation failed).
\<close>

definition write_phase2 ::
  "'a tcp_st_scheme \<Rightarrow> tcp_pcb \<Rightarrow> addr \<Rightarrow> u16 \<Rightarrow> u16 \<Rightarrow> bool \<Rightarrow> (addr option \<times> u16 \<times> 'a tcp_st_scheme) res" where
  "write_phase2 st c arg len mss_local copy =
     (if unsent c = [] then Inr (None, 0, st)
      else
        let last_unsent = last (unsent c);
            space = mss_local - (seg_len last_unsent + ucast (LWIP_TCP_OPT_LENGTH (seg_flags last_unsent)))
        in if 0 < len \<and> 0 < space \<and> 0 < seg_len last_unsent then
             let seglen = (if space < len then space else len) in
             rbind (data_pbuf st PBUF_RAW copy arg seglen) (\<lambda>(p, st1). Inr (Some p, seglen, st1))
           else Inr (None, 0, st))"

text \<open>
  The commit: the concatenated pbuf and the new segments are appended to \<open>unsent\<close>, the counters
  advance, and \<^verbatim>\<open>PSH\<close> is set in the last segment that got data unless \<^verbatim>\<open>TCP_WRITE_FLAG_MORE\<close>.
\<close>

definition write_commit ::
  "'a tcp_st_scheme \<Rightarrow> addr \<Rightarrow> u16 \<Rightarrow> u8 \<Rightarrow> addr option \<Rightarrow> u16 \<Rightarrow> tcp_seg list \<Rightarrow> (err_t \<times> 'a tcp_st_scheme) res" where
  "write_commit st pcb len apiflags concat_p queuelen queue =
     rbind (get_pcb st pcb) (\<lambda>c.
     rbind (case concat_p of
              None \<Rightarrow> Inr (unsent c, st)
            | Some p \<Rightarrow>
                let last_unsent = last (unsent c) in
                rbind (pbuf_cat st (seg_p last_unsent) p) (\<lambda>st1.
                rbind (get_pbuf st1 p) (\<lambda>b.
                  Inr (butlast (unsent c) @ [last_unsent\<lparr>seg_len := seg_len last_unsent + tot_len b\<rparr>], st1))))
       (\<lambda>(uns, st1).
     let st2 = put_pcb st1 pcb (c\<lparr>unsent := uns @ queue, snd_lbb := snd_lbb c + ucast len,
                                  snd_buf := snd_buf c - len, snd_queuelen := queuelen\<rparr>);
         seg = (if queue \<noteq> [] then Some (last queue)
                else if concat_p \<noteq> None then Some (last uns) else None)
     in case seg of
          None \<Rightarrow> Inr (ERR_OK, st2)
        | Some s \<Rightarrow>
            if tcphdr s \<noteq> 0 \<and> apiflags AND TCP_WRITE_FLAG_MORE = 0 then
              rbind (TCPH_SET_FLAG (bytes st2) (tcphdr s) TCP_PSH) (\<lambda>m. Inr (ERR_OK, st2\<lparr>bytes := m\<rparr>))
            else Inr (ERR_OK, st2)))"

definition tcp_write ::
  "'a tcp_st_scheme \<Rightarrow> addr \<Rightarrow> addr \<Rightarrow> u16 \<Rightarrow> u8 \<Rightarrow> (err_t \<times> 'a tcp_st_scheme) res" where
  "tcp_write st pcb arg len apiflags =
     rbind (get_pcb st pcb) (\<lambda>c0.
       let mss_local = min (mss c0) (snd_wnd_max c0 div 2);
           copy = (apiflags AND TCP_WRITE_FLAG_COPY \<noteq> 0)
       in if arg = 0 then Inr (ERR_ARG, st)
       else rbind (tcp_write_checks st pcb len) (\<lambda>(err, st0).
         if err \<noteq> ERR_OK then Inr (err, st0)
         else rbind (get_pcb st0 pcb) (\<lambda>c.
           rbind (write_phase2 st0 c arg len mss_local copy) (\<lambda>(concat_p, pos, st1).
             if concat_p = Some 0 then write_memerr st1 pcb 0 []
             else
               rbind (case concat_p of None \<Rightarrow> Inr (snd_queuelen c)
                      | Some p \<Rightarrow> rbind (pbuf_clen st1 p) (\<lambda>n. Inr (snd_queuelen c + ucast n))) (\<lambda>ql.
               rbind (write_loop write_fuel st1 pcb arg len mss_local copy pos ql []) (\<lambda>(ok, queue, ql', st2).
                 if ok then write_commit st2 pcb len apiflags concat_p ql' queue
                 else write_memerr st2 pcb (case concat_p of None \<Rightarrow> 0 | Some p \<Rightarrow> p) queue))))))"

section \<open>Frame\<close>

lemmas pbuf_keeps_ip [keeps] =
  pbuf_free_keeps [THEN ip_more_of_pbuf] pbuf_alloc_keeps [THEN ip_more_of_pbuf]
  pbuf_header_keeps [THEN ip_more_of_pbuf] pbuf_ref_keeps [THEN ip_more_of_pbuf]
  pbuf_cat_keeps [THEN ip_more_of_pbuf] upd_pbuf_keeps [THEN ip_more_of_pbuf]
  pbuf_copy_partial_keeps [THEN ip_more_of_pbuf]

lemma tcp_seg_free_keeps [keeps]: "tcp_seg_free st seg = Inr st' \<Longrightarrow> ip_st.more st' = ip_st.more st"
  by (auto simp: tcp_seg_free_def rbind_eq_Inr split: if_splits dest!: pbuf_keeps_ip)

lemma tcp_segs_free_keeps [keeps]: "tcp_segs_free st segs = Inr st' \<Longrightarrow> ip_st.more st' = ip_st.more st"
  by (induction segs arbitrary: st) (auto simp: rbind_eq_Inr dest!: tcp_seg_free_keeps)

lemma tcp_create_segment_keeps [keeps]:
  assumes "tcp_create_segment st pcb p fl seqno opt = Inr (s, st')"
  shows "ip_st.more st' = ip_st.more st"
  using assms
  by (auto simp: tcp_create_segment_def Let_def rbind_eq_Inr split: prod.splits if_splits
      dest!: pbuf_keeps_ip tcp_seg_free_keeps)

lemma data_pbuf_keeps [keeps]: "data_pbuf st l copy src n = Inr (p, st') \<Longrightarrow> ip_st.more st' = ip_st.more st"
  by (auto simp: data_pbuf_def rbind_eq_Inr split: if_splits dest!: pbuf_keeps_ip)

lemma segment_pbufs_keeps [keeps]: "segment_pbufs st copy src n = Inr (p, st') \<Longrightarrow> ip_st.more st' = ip_st.more st"
  by (auto simp: segment_pbufs_def rbind_eq_Inr split: if_splits dest!: pbuf_keeps_ip data_pbuf_keeps)

lemma write_phase2_keeps [keeps]:
  "write_phase2 st c arg len mss0 copy = Inr (r, pos, st') \<Longrightarrow> ip_st.more st' = ip_st.more st"
  by (auto simp: write_phase2_def Let_def rbind_eq_Inr split: if_splits dest!: data_pbuf_keeps)

lemma write_loop_keeps [keeps]:
  "write_loop fuel st pcb arg len mss0 copy pos ql q = Inr (ok, q', ql', st') \<Longrightarrow> ip_st.more st' = ip_st.more st"
proof (induction fuel arbitrary: st pos ql q)
  case 0
  then show ?case by (auto split: if_splits)
next
  case (Suc fuel)
  from Suc.prems show ?case
    by (auto simp: Let_def rbind_eq_Inr split: if_splits option.splits
        dest!: Suc.IH segment_pbufs_keeps pbuf_keeps_ip tcp_create_segment_keeps)
qed

lemma write_memerr_spec:
  assumes "write_memerr st pcb p q = Inr (e, st')"
  shows "\<exists>c. tcp_pcbs st pcb = Some c \<and> e = ERR_MEM \<and>
    ip_st.more st' = ip_st.more (put_pcb st pcb (c\<lparr>pcb_flags := pcb_flags c OR TF_NAGLEMEMERR\<rparr>))"
  using assms
  by (auto simp: write_memerr_def upd_pcb_def get_pcb_def rbind_eq_Inr split: if_splits option.splits
      dest!: pbuf_keeps_ip tcp_segs_free_keeps)

section \<open>Writing is atomic\<close>

lemma write_commit_ok: "write_commit st pcb len fl cp ql q = Inr (e, st') \<Longrightarrow> e = ERR_OK"
  by (auto simp: write_commit_def rbind_eq_Inr Let_def split: option.splits if_splits)

lemma write_checks_spec:
  assumes "tcp_write_checks st pcb len = Inr (e, st')" "tcp_pcbs st pcb = Some c" "pcb \<noteq> 0"
  shows "st' = st \<or> e = ERR_MEM \<and> st' = put_pcb st pcb (c\<lparr>pcb_flags := pcb_flags c OR TF_NAGLEMEMERR\<rparr>)"
  using assms by (auto simp: tcp_write_checks_def get_pcb_def rbind_eq_Inr split: if_splits)

text \<open>The ways in which \<open>tcp_write\<close> returns.\<close>

lemma tcp_write_cases:
  assumes "tcp_write st pcb arg len apiflags = Inr (err, st')" and c: "tcp_pcbs st pcb = Some c" "pcb \<noteq> 0"
  shows "err = ERR_OK \<or> st' = st \<or> st' = put_pcb st pcb (c\<lparr>pcb_flags := pcb_flags c OR TF_NAGLEMEMERR\<rparr>)
    \<or> (\<exists>s p q. write_memerr s pcb p q = Inr (err, st') \<and> ip_st.more s = ip_st.more st)"
proof (cases "arg = 0")
  case True
  with assms show ?thesis by (simp add: tcp_write_def get_pcb_def)
next
  case arg: False
  have c0: "get_pcb st pcb = Inr c" using c by (simp add: get_pcb_def)
  let ?copy = "apiflags AND TCP_WRITE_FLAG_COPY \<noteq> 0"
  let ?mss = "min (mss c) (snd_wnd_max c div 2)"
  from arg assms(1) obtain e0 st0 where ck: "tcp_write_checks st pcb len = Inr (e0, st0)"
    by (auto simp: tcp_write_def c0 Let_def rbind_eq_Inr)
  show ?thesis
  proof (cases "e0 = ERR_OK")
    case False
    with assms(1) arg ck have "st' = st0" by (auto simp: tcp_write_def c0 Let_def)
    with write_checks_spec [OF ck c] show ?thesis by blast
  next
    case True
    with write_checks_spec [OF ck c] have s: "st0 = st" by auto
    from assms(1) arg ck s True obtain cp pos st1 where
      p2: "write_phase2 st c arg len ?mss ?copy = Inr (cp, pos, st1)" and
      rest: "(if cp = Some 0 then write_memerr st1 pcb 0 []
         else rbind (case cp of None \<Rightarrow> Inr (snd_queuelen c)
                  | Some p \<Rightarrow> rbind (pbuf_clen st1 p) (\<lambda>n. Inr (snd_queuelen c + ucast n))) (\<lambda>ql.
           rbind (write_loop write_fuel st1 pcb arg len ?mss ?copy pos ql []) (\<lambda>(ok, queue, ql', st2).
             if ok then write_commit st2 pcb len apiflags cp ql' queue
             else write_memerr st2 pcb (case cp of None \<Rightarrow> 0 | Some p \<Rightarrow> p) queue))) = Inr (err, st')"
      by (auto simp: tcp_write_def c0 Let_def rbind_eq_Inr)
    show ?thesis
    proof (cases "cp = Some 0")
      case True
      with rest write_phase2_keeps [OF p2] show ?thesis by auto
    next
      case False
      with rest obtain ql ok queue ql' st2 where
        l: "write_loop write_fuel st1 pcb arg len ?mss ?copy pos ql [] = Inr (ok, queue, ql', st2)" and
        r: "(if ok then write_commit st2 pcb len apiflags cp ql' queue
             else write_memerr st2 pcb (case cp of None \<Rightarrow> 0 | Some p \<Rightarrow> p) queue) = Inr (err, st')"
        by (auto simp: rbind_eq_Inr)
      have "ip_st.more st2 = ip_st.more st" using write_loop_keeps [OF l] write_phase2_keeps [OF p2] by simp
      moreover have "err = ERR_OK" if ok using r that write_commit_ok by simp
      moreover have "write_memerr st2 pcb (case cp of None \<Rightarrow> 0 | Some p \<Rightarrow> p) queue = Inr (err, st')" if "\<not> ok"
        using r that by simp
      ultimately show ?thesis by blast
    qed
  qed
qed

text \<open>C18: \<^verbatim>\<open>tcp_write\<close> is atomic: when it returns an error, of the whole TCP state only the flag
  \<^verbatim>\<open>TF_NAGLEMEMERR\<close> of the block may have changed; no queue, counter or sequence number has.\<close>

theorem tcp_write_error_atomic:
  assumes "tcp_write st pcb arg len apiflags = Inr (err, st')" "err \<noteq> ERR_OK"
    and c: "tcp_pcbs st pcb = Some c"
  shows "\<exists>fl \<in> {pcb_flags c, pcb_flags c OR TF_NAGLEMEMERR}.
     tcp_pcbs st' = (tcp_pcbs st)(pcb \<mapsto> c\<lparr>pcb_flags := fl\<rparr>)
     \<and> ip_st.more (st'\<lparr>tcp_pcbs := Map.empty\<rparr>) = ip_st.more (st\<lparr>tcp_pcbs := Map.empty\<rparr>)"
proof -
  have p0: "pcb \<noteq> 0"
    using assms(1) by (auto simp: tcp_write_def get_pcb_def rbind_eq_Inr split: if_splits)
  from tcp_write_cases [OF assms(1) c p0] assms(2) consider
    (s) "st' = st" | (f) "st' = put_pcb st pcb (c\<lparr>pcb_flags := pcb_flags c OR TF_NAGLEMEMERR\<rparr>)"
    | (m) s p q where "write_memerr s pcb p q = Inr (err, st')" "ip_st.more s = ip_st.more st" by blast
  then show ?thesis
  proof cases
    case s
    then show ?thesis using c by (intro bexI [of _ "pcb_flags c"]) (auto simp: fun_eq_iff)
  next
    case f
    then show ?thesis by (simp add: put_pcb_def)
  next
    case m
    from write_memerr_spec [OF m(1)] obtain d where d: "tcp_pcbs s pcb = Some d"
      "ip_st.more st' = ip_st.more (put_pcb s pcb (d\<lparr>pcb_flags := pcb_flags d OR TF_NAGLEMEMERR\<rparr>))" by blast
    have "d = c" using d(1) c tcp_fields_cong(1) [OF m(2)] by simp
    with d(2) m(2) have "ip_st.more st' = ip_st.more (put_pcb st pcb (c\<lparr>pcb_flags := pcb_flags c OR TF_NAGLEMEMERR\<rparr>))"
      by (cases s; cases st) (auto simp: put_pcb_def)
    then show ?thesis by (cases st'; cases st) (auto simp: put_pcb_def)
  qed
qed

theorem tcp_write_error_atomic_witness:
  "\<exists>st'. tcp_write (sample_tcp Map.empty Map.empty [100 \<mapsto> sample_pcb\<lparr>pcb_state := ESTABLISHED\<rparr>]) 100 500 9000 1
       = Inr (ERR_MEM, st')
     \<and> (\<exists>fl. tcp_pcbs st' = [100 \<mapsto> sample_pcb\<lparr>pcb_state := ESTABLISHED, pcb_flags := fl\<rparr>])"
proof -
  let ?st = "sample_tcp Map.empty Map.empty [100 \<mapsto> sample_pcb\<lparr>pcb_state := ESTABLISHED\<rparr>]"
  obtain st' where w: "tcp_write ?st 100 500 9000 1 = Inr (ERR_MEM, st')"
    by (simp add: tcp_write_def tcp_write_checks_def get_pcb_def tcp_samples TCP_SND_BUF_def)
  have c: "tcp_pcbs ?st 100 = Some (sample_pcb\<lparr>pcb_state := ESTABLISHED\<rparr>)" by (simp add: sample_tcp_def)
  have "ERR_MEM \<noteq> ERR_OK" by simp
  from tcp_write_error_atomic [OF w this c] obtain fl where
    "tcp_pcbs st' = (tcp_pcbs ?st)(100 \<mapsto> sample_pcb\<lparr>pcb_state := ESTABLISHED, pcb_flags := fl\<rparr>)" by blast
  then have "tcp_pcbs st' = [100 \<mapsto> sample_pcb\<lparr>pcb_state := ESTABLISHED, pcb_flags := fl\<rparr>]"
    by (simp add: sample_tcp_def)
  with w show ?thesis by blast
qed

end
