(* ===== verification/Tcp.thy ===== *)
theory Tcp
  imports TcpOut
begin

text \<open>
  \<^verbatim>\<open>lwip-1.4.1/src/core/tcp.c\<close>: opening, binding, closing and aborting connections, the receive
  window, allocation of control blocks, and the two TCP timers. The callbacks a control block
  carries are called through the record \<open>tcp_env\<close>, which also has the network interface; the
  default callback \<^verbatim>\<open>tcp_recv_null\<close> is the code's own.
\<close>

section \<open>Environment\<close>

record 'st tcp_env =
  ipe :: "'st ip_env"
  call_recv :: "fn \<Rightarrow> u32 \<Rightarrow> addr \<Rightarrow> addr \<Rightarrow> err_t \<Rightarrow> 'st \<Rightarrow> (err_t \<times> 'st) res"
  call_poll :: "fn \<Rightarrow> u32 \<Rightarrow> addr \<Rightarrow> 'st \<Rightarrow> (err_t \<times> 'st) res"
  call_err :: "fn \<Rightarrow> u32 \<Rightarrow> err_t \<Rightarrow> 'st \<Rightarrow> 'st res"

definition TCP_LOCAL_PORT_RANGE_START :: u16 where "TCP_LOCAL_PORT_RANGE_START = 0xc000"
definition TCP_LOCAL_PORT_RANGE_END :: u16 where "TCP_LOCAL_PORT_RANGE_END = 0xffff"

definition tcp_backoff :: "nat list" where
  "tcp_backoff = [1, 2, 3, 4, 5, 6, 7, 7, 7, 7, 7, 7, 7]"

definition tcp_persist_backoff :: "u8 list" where
  "tcp_persist_backoff = [3, 6, 12, 24, 48, 96, 120]"

section \<open>Freeing control blocks\<close>

definition free_pcb :: "'a tcp_st_scheme \<Rightarrow> addr \<Rightarrow> 'a tcp_st_scheme" where
  "free_pcb st p = st\<lparr>tcp_pcbs := (tcp_pcbs st)(p := None), pools := memp_free (pools st) MEMP_TCP_PCB p\<rparr>"

definition free_lpcb :: "'a tcp_st_scheme \<Rightarrow> addr \<Rightarrow> 'a tcp_st_scheme" where
  "free_lpcb st p =
     st\<lparr>tcp_lpcbs := (tcp_lpcbs st)(p := None), pools := memp_free (pools st) MEMP_TCP_PCB_LISTEN p\<rparr>"

definition set_state :: "'a tcp_st_scheme \<Rightarrow> addr \<Rightarrow> tcp_state \<Rightarrow> 'a tcp_st_scheme res" where
  "set_state st p s = upd_common st p (\<lambda>b. b\<lparr>pcb_state := s\<rparr>) (\<lambda>b. b\<lparr>pcb_state := s\<rparr>)"

definition tcp_pcb_purge :: "'a tcp_st_scheme \<Rightarrow> addr \<Rightarrow> 'a tcp_st_scheme res" where
  "tcp_pcb_purge st pcb =
     rbind (get_common st pcb) (\<lambda>b.
       if pcb_state b \<noteq> CLOSED \<and> pcb_state b \<noteq> TIME_WAIT \<and> pcb_state b \<noteq> LISTEN then
         rbind (get_pcb st pcb) (\<lambda>c.
         rbind (if refused_data c \<noteq> 0 then
                  rbind (pbuf_free st (refused_data c)) (\<lambda>(_, st1). upd_pcb st1 pcb (\<lambda>c. c\<lparr>refused_data := 0\<rparr>))
                else Inr st) (\<lambda>st1.
         rbind (tcp_segs_free st1 (ooseq c)) (\<lambda>st2.
         rbind (upd_pcb st2 pcb (\<lambda>c. c\<lparr>ooseq := [], rtime := - 1\<rparr>)) (\<lambda>st3.
         rbind (tcp_segs_free st3 (unsent c)) (\<lambda>st4.
         rbind (tcp_segs_free st4 (unacked c)) (\<lambda>st5.
           upd_pcb st5 pcb (\<lambda>c. c\<lparr>unacked := [], unsent := []\<rparr>)))))))
       else Inr st)"

definition tcp_pcb_remove ::
  "('a tcp_st_scheme) ip_env \<Rightarrow> 'a tcp_st_scheme \<Rightarrow> pcb_list \<Rightarrow> addr \<Rightarrow> 'a tcp_st_scheme res" where
  "tcp_pcb_remove env st pcblist pcb =
     rbind (TCP_RMV st pcblist pcb) (\<lambda>st1.
     rbind (tcp_pcb_purge st1 pcb) (\<lambda>st2.
     rbind (get_common st2 pcb) (\<lambda>b.
     rbind (if pcb_state b \<noteq> TIME_WAIT \<and> pcb_state b \<noteq> LISTEN then
              rbind (get_pcb st2 pcb) (\<lambda>c.
                if pcb_flags c AND TF_ACK_DELAY \<noteq> 0 then
                  rbind (tcp_output env (put_pcb st2 pcb (c\<lparr>pcb_flags := pcb_flags c OR TF_ACK_NOW\<rparr>)) pcb)
                    (\<lambda>(_, st3). Inr st3)
                else Inr st2)
            else Inr st2) (\<lambda>st3.
       set_state st3 pcb CLOSED))))"

definition TCP_PCB_REMOVE_ACTIVE ::
  "('a tcp_st_scheme) ip_env \<Rightarrow> 'a tcp_st_scheme \<Rightarrow> addr \<Rightarrow> 'a tcp_st_scheme res" where
  "TCP_PCB_REMOVE_ACTIVE env st pcb =
     rbind (tcp_pcb_remove env st L_active pcb) (\<lambda>st1. Inr (st1\<lparr>tcp_active_pcbs_changed := 1\<rparr>))"

section \<open>Closing\<close>

text \<open>The first half of \<^verbatim>\<open>tcp_close_shutdown\<close>: data was not taken, so the connection is reset.\<close>

definition close_with_rst ::
  "('a tcp_st_scheme) ip_env \<Rightarrow> 'a tcp_st_scheme \<Rightarrow> addr \<Rightarrow> tcp_pcb \<Rightarrow> 'a tcp_st_scheme res" where
  "close_with_rst env st pcb c =
     rbind (tcp_rst env st (snd_nxt c) (rcv_nxt c) (local_ip c) (remote_ip c) (local_port c) (remote_port c)) (\<lambda>st1.
     rbind (tcp_pcb_purge st1 pcb) (\<lambda>st2.
     rbind (TCP_RMV_ACTIVE st2 pcb) (\<lambda>st3.
     rbind (get_pcb st3 pcb) (\<lambda>c3.
       if pcb_state c3 = ESTABLISHED then
         rbind (set_state st3 pcb TIME_WAIT) (\<lambda>st4. TCP_REG st4 L_tw pcb)
       else Inr (free_pcb st3 pcb)))))"

text \<open>The \<^verbatim>\<open>FIN\<close> of the three connected states, the new state, and the output of what is queued.\<close>

definition close_with_fin ::
  "('a tcp_st_scheme) ip_env \<Rightarrow> 'a tcp_st_scheme \<Rightarrow> addr \<Rightarrow> tcp_state \<Rightarrow> (err_t \<times> 'a tcp_st_scheme) res" where
  "close_with_fin env st pcb s =
     rbind (tcp_send_fin st pcb) (\<lambda>(err, st1).
       if err = ERR_OK then
         rbind (set_state st1 pcb s) (\<lambda>st2.
         rbind (tcp_output env st2 pcb) (\<lambda>(_, st3). Inr (ERR_OK, st3)))
       else Inr (err, st1))"

text \<open>The \<^verbatim>\<open>switch\<close> over the state, with the output of what is queued behind it.\<close>

definition close_by_state ::
  "('a tcp_st_scheme) ip_env \<Rightarrow> 'a tcp_st_scheme \<Rightarrow> addr \<Rightarrow> tcp_state \<Rightarrow> u16 \<Rightarrow> (err_t \<times> 'a tcp_st_scheme) res" where
  "close_by_state env st pcb s lport =
     (case s of
        CLOSED \<Rightarrow>
          rbind (if lport \<noteq> 0 then TCP_RMV st L_bound pcb else Inr st) (\<lambda>st1. Inr (ERR_OK, free_pcb st1 pcb))
      | LISTEN \<Rightarrow> rbind (tcp_pcb_remove env st L_listen pcb) (\<lambda>st1. Inr (ERR_OK, free_lpcb st1 pcb))
      | SYN_SENT \<Rightarrow> rbind (TCP_PCB_REMOVE_ACTIVE env st pcb) (\<lambda>st1. Inr (ERR_OK, free_pcb st1 pcb))
      | SYN_RCVD \<Rightarrow> close_with_fin env st pcb FIN_WAIT_1
      | ESTABLISHED \<Rightarrow> close_with_fin env st pcb FIN_WAIT_1
      | CLOSE_WAIT \<Rightarrow> close_with_fin env st pcb LAST_ACK
      | _ \<Rightarrow> Inr (ERR_OK, st))"

text \<open>Is the connection to be reset, because there is data that the application has not taken?\<close>

definition unacked_data :: "tcp_pcb \<Rightarrow> bool" where
  "unacked_data c \<longleftrightarrow> refused_data c \<noteq> 0 \<or> rcv_wnd c \<noteq> TCP_WND"

definition tcp_close_shutdown ::
  "('a tcp_st_scheme) ip_env \<Rightarrow> 'a tcp_st_scheme \<Rightarrow> addr \<Rightarrow> bool \<Rightarrow> (err_t \<times> 'a tcp_st_scheme) res" where
  "tcp_close_shutdown env st pcb rst_on_unacked_data =
     rbind (get_common st pcb) (\<lambda>b.
       if rst_on_unacked_data \<and> (pcb_state b = ESTABLISHED \<or> pcb_state b = CLOSE_WAIT) then
         rbind (get_pcb st pcb) (\<lambda>c.
           if unacked_data c then rbind (close_with_rst env st pcb c) (\<lambda>st1. Inr (ERR_OK, st1))
           else close_by_state env st pcb (pcb_state b) (local_port b))
       else close_by_state env st pcb (pcb_state b) (local_port b))"

definition tcp_close ::
  "('a tcp_st_scheme) ip_env \<Rightarrow> 'a tcp_st_scheme \<Rightarrow> addr \<Rightarrow> (err_t \<times> 'a tcp_st_scheme) res" where
  "tcp_close env st pcb =
     rbind (get_common st pcb) (\<lambda>b.
     rbind (if pcb_state b \<noteq> LISTEN
            then upd_pcb st pcb (\<lambda>c. c\<lparr>pcb_flags := pcb_flags c OR TF_RXCLOSED\<rparr>) else Inr st) (\<lambda>st1.
       tcp_close_shutdown env st1 pcb True))"

definition tcp_shutdown ::
  "('a tcp_st_scheme) ip_env \<Rightarrow> 'a tcp_st_scheme \<Rightarrow> addr \<Rightarrow> bool \<Rightarrow> bool \<Rightarrow> (err_t \<times> 'a tcp_st_scheme) res" where
  "tcp_shutdown env st pcb shut_rx shut_tx =
     rbind (get_common st pcb) (\<lambda>b.
       if pcb_state b = LISTEN then Inr (ERR_CONN, st)
       else
         rbind (if shut_rx then upd_pcb st pcb (\<lambda>c. c\<lparr>pcb_flags := pcb_flags c OR TF_RXCLOSED\<rparr>) else Inr st) (\<lambda>st1.
           if shut_rx \<and> shut_tx then tcp_close_shutdown env st1 pcb True
           else
             rbind (if shut_rx then
                      rbind (get_pcb st1 pcb) (\<lambda>c.
                        if refused_data c \<noteq> 0 then
                          rbind (pbuf_free st1 (refused_data c)) (\<lambda>(_, st2). upd_pcb st2 pcb (\<lambda>c. c\<lparr>refused_data := 0\<rparr>))
                        else Inr st1)
                    else Inr st1) (\<lambda>st2.
               if shut_tx then
                 (if pcb_state b \<in> {SYN_RCVD, ESTABLISHED, CLOSE_WAIT}
                  then tcp_close_shutdown env st2 pcb shut_rx
                  else Inr (ERR_CONN, st2))
               else Inr (ERR_OK, st2))))"

definition TCP_EVENT_ERR ::
  "('a tcp_st_scheme) tcp_env \<Rightarrow> 'a tcp_st_scheme \<Rightarrow> fn \<Rightarrow> u32 \<Rightarrow> err_t \<Rightarrow> 'a tcp_st_scheme res" where
  "TCP_EVENT_ERR env st f arg err = (if f \<noteq> FN_NULL then call_err env f arg err st else Inr st)"

text \<open>The part of \<open>tcp_abandon\<close> for a connection; \<open>c\<close> is the block before it is taken out.\<close>

definition abandon_conn ::
  "('a tcp_st_scheme) tcp_env \<Rightarrow> 'a tcp_st_scheme \<Rightarrow> addr \<Rightarrow> tcp_pcb \<Rightarrow> bool \<Rightarrow> 'a tcp_st_scheme res" where
  "abandon_conn env st pcb c reset =
     rbind (TCP_PCB_REMOVE_ACTIVE (ipe env) st pcb) (\<lambda>st1.
     rbind (get_pcb st1 pcb) (\<lambda>c1.
     rbind (tcp_segs_free st1 (unacked c1)) (\<lambda>st2.
     rbind (tcp_segs_free st2 (unsent c1)) (\<lambda>st3.
     rbind (tcp_segs_free st3 (ooseq c1)) (\<lambda>st4.
     rbind (if reset then tcp_rst (ipe env) st4 (snd_nxt c) (rcv_nxt c) (local_ip c1) (remote_ip c1)
                            (local_port c1) (remote_port c1)
            else Inr st4) (\<lambda>st5.
       TCP_EVENT_ERR env (free_pcb st5 pcb) (errf c) (callback_arg c) ERR_ABRT))))))"

definition tcp_abandon ::
  "('a tcp_st_scheme) tcp_env \<Rightarrow> 'a tcp_st_scheme \<Rightarrow> addr \<Rightarrow> bool \<Rightarrow> 'a tcp_st_scheme res" where
  "tcp_abandon env st pcb reset =
     rbind (get_common st pcb) (\<lambda>b.
       if pcb_state b = TIME_WAIT then
         rbind (tcp_pcb_remove (ipe env) st L_tw pcb) (\<lambda>st1. Inr (free_pcb st1 pcb))
       else rbind (get_pcb st pcb) (\<lambda>c. abandon_conn env st pcb c reset))"

definition tcp_abort :: "('a tcp_st_scheme) tcp_env \<Rightarrow> 'a tcp_st_scheme \<Rightarrow> addr \<Rightarrow> 'a tcp_st_scheme res" where
  "tcp_abort env st pcb = tcp_abandon env st pcb True"

section \<open>Ports and binding\<close>

text \<open>Does a block of the chain from \<open>p\<close> use the local port?\<close>

primrec port_scan :: "nat \<Rightarrow> 'a tcp_st_scheme \<Rightarrow> u16 \<Rightarrow> addr \<Rightarrow> bool res" where
  "port_scan 0 st port p = (if p = 0 then Inr False else Inl Out_of_fuel)"
| "port_scan (Suc fuel) st port p =
     (if p = 0 then Inr False
      else rbind (get_common st p) (\<lambda>b.
        if local_port b = port then Inr True else port_scan fuel st port (pcb_next b)))"

fun port_in_lists :: "'a tcp_st_scheme \<Rightarrow> u16 \<Rightarrow> pcb_list list \<Rightarrow> bool res" where
  "port_in_lists st port [] = Inr False"
| "port_in_lists st port (l # ls) =
     rbind (port_scan pcb_fuel st port (head_of st l)) (\<lambda>used.
       if used then Inr True else port_in_lists st port ls)"

text \<open>
  The loop from the label \<^verbatim>\<open>again\<close>; \<open>n\<close> counts the ports found in use and the search gives up
  when it exceeds \<open>0x3fff\<close>, so 16386 rounds are enough.
\<close>

primrec new_port_loop :: "nat \<Rightarrow> 'a tcp_st_scheme \<Rightarrow> u16 \<Rightarrow> (u16 \<times> 'a tcp_st_scheme) res" where
  "new_port_loop 0 st n = Inl Out_of_fuel"
| "new_port_loop (Suc fuel) st n =
     (let port = (if tcp_port st = TCP_LOCAL_PORT_RANGE_END then TCP_LOCAL_PORT_RANGE_START else tcp_port st + 1);
          st1 = st\<lparr>tcp_port := port\<rparr>
      in rbind (port_in_lists st1 port tcp_pcb_lists) (\<lambda>used.
        if used then
          (if TCP_LOCAL_PORT_RANGE_END - TCP_LOCAL_PORT_RANGE_START < n + 1 then Inr (0, st1)
           else new_port_loop fuel st1 (n + 1))
        else Inr (port, st1)))"

definition tcp_new_port :: "'a tcp_st_scheme \<Rightarrow> (u16 \<times> 'a tcp_st_scheme) res" where
  "tcp_new_port st = new_port_loop 16386 st 0"

text \<open>
  The conflict test of \<open>tcp_bind\<close> along a chain. An address \<open>0\<close> stands for \<^verbatim>\<open>NULL\<close> and for
  \<^verbatim>\<open>IP_ADDR_ANY\<close> (\<open>ip_addr_isany\<close> holds for both, and then the address is not read).
\<close>

primrec bind_scan :: "nat \<Rightarrow> 'a tcp_st_scheme \<Rightarrow> u32 \<Rightarrow> u16 \<Rightarrow> addr \<Rightarrow> bool res" where
  "bind_scan 0 st ipaddr port p = (if p = 0 then Inr False else Inl Out_of_fuel)"
| "bind_scan (Suc fuel) st ipaddr port p =
     (if p = 0 then Inr False
      else rbind (get_common st p) (\<lambda>b.
        if local_port b = port \<and>
           (ip_addr_isany (local_ip b) \<or> ip_addr_isany ipaddr \<or> local_ip b = ipaddr)
        then Inr True else bind_scan fuel st ipaddr port (pcb_next b)))"

fun bind_conflict :: "'a tcp_st_scheme \<Rightarrow> u32 \<Rightarrow> u16 \<Rightarrow> pcb_list list \<Rightarrow> bool res" where
  "bind_conflict st ipaddr port [] = Inr False"
| "bind_conflict st ipaddr port (l # ls) =
     rbind (bind_scan pcb_fuel st ipaddr port (head_of st l)) (\<lambda>used.
       if used then Inr True else bind_conflict st ipaddr port ls)"

definition tcp_bind :: "'a tcp_st_scheme \<Rightarrow> addr \<Rightarrow> u32 \<Rightarrow> u16 \<Rightarrow> (err_t \<times> 'a tcp_st_scheme) res" where
  "tcp_bind st pcb ipaddr port0 =
     rbind (get_common st pcb) (\<lambda>b.
       if pcb_state b \<noteq> CLOSED then Inr (ERR_VAL, st)
       else
         rbind (if port0 = 0 then tcp_new_port st else Inr (port0, st)) (\<lambda>(port, st1).
           if port = 0 then Inr (ERR_BUF, st1)
           else rbind (bind_conflict st1 ipaddr port tcp_pcb_lists) (\<lambda>conflict.
             if conflict then Inr (ERR_USE, st1)
             else
               rbind (upd_common st1 pcb
                 (\<lambda>c. c\<lparr>local_ip := (if ip_addr_isany ipaddr then local_ip c else ipaddr), local_port := port\<rparr>)
                 (\<lambda>c. c\<lparr>local_ip := (if ip_addr_isany ipaddr then local_ip c else ipaddr), local_port := port\<rparr>)) (\<lambda>st2.
               rbind (TCP_REG st2 L_bound pcb) (\<lambda>st3. Inr (ERR_OK, st3))))))"

text \<open>
  \<open>tcp_listen_with_backlog\<close> moves the block into a smaller one from the listen pool. The code never
  writes \<^verbatim>\<open>remote_ip\<close> of the new block (the model gives it 0; no operation reads it). The result
  \<open>0\<close> is \<^verbatim>\<open>NULL\<close>.
\<close>

definition tcp_listen_with_backlog :: "'a tcp_st_scheme \<Rightarrow> addr \<Rightarrow> u8 \<Rightarrow> (addr \<times> 'a tcp_st_scheme) res" where
  "tcp_listen_with_backlog st pcb backlog =
     rbind (get_common st pcb) (\<lambda>b.
       if pcb_state b \<noteq> CLOSED then Inr (0, st)
       else case memp_malloc (pools st) MEMP_TCP_PCB_LISTEN of (lpcb, pools') \<Rightarrow>
         if lpcb = 0 then Inr (0, st\<lparr>pools := pools'\<rparr>)
         else
           let l = \<lparr>local_ip = local_ip b, remote_ip = 0, so_options = so_options b OR SOF_ACCEPTCONN,
                    tos = tos b, ttl = ttl b, pcb_next = 0, callback_arg = callback_arg b,
                    accept_fn = FN_tcp_accept_null, pcb_state = LISTEN, prio = prio b,
                    local_port = local_port b\<rparr>;
               st1 = st\<lparr>pools := pools', tcp_lpcbs := (tcp_lpcbs st)(lpcb \<mapsto> l)\<rparr>
           in rbind (if local_port b \<noteq> 0 then TCP_RMV st1 L_bound pcb else Inr st1) (\<lambda>st2.
              rbind (TCP_REG (free_pcb st2 pcb) L_listen lpcb) (\<lambda>st3. Inr (lpcb, st3))))"

section \<open>The receive window\<close>

definition tcp_update_rcv_ann_wnd :: "tcp_pcb \<Rightarrow> u32 \<times> tcp_pcb" where
  "tcp_update_rcv_ann_wnd c =
     (let new_right_edge = rcv_nxt c + ucast (rcv_wnd c) in
      if TCP_SEQ_GEQ new_right_edge (rcv_ann_right_edge c + ucast (min (TCP_WND div 2) (mss c))) then
        (new_right_edge - rcv_ann_right_edge c, c\<lparr>rcv_ann_wnd := rcv_wnd c\<rparr>)
      else if TCP_SEQ_GT (rcv_nxt c) (rcv_ann_right_edge c) then (0, c\<lparr>rcv_ann_wnd := 0\<rparr>)
      else (0, c\<lparr>rcv_ann_wnd := ucast (rcv_ann_right_edge c - rcv_nxt c)\<rparr>))"

text \<open>\<open>wnd_inflation\<close> is an \<^verbatim>\<open>int\<close>.\<close>

definition tcp_recved :: "('a tcp_st_scheme) ip_env \<Rightarrow> 'a tcp_st_scheme \<Rightarrow> addr \<Rightarrow> u16 \<Rightarrow> 'a tcp_st_scheme res" where
  "tcp_recved env st pcb len =
     rbind (get_pcb st pcb) (\<lambda>c.
       let wnd = rcv_wnd c + len;
           (wnd_inflation, c1) =
             tcp_update_rcv_ann_wnd (c\<lparr>rcv_wnd := (if TCP_WND < wnd then TCP_WND else wnd)\<rparr>)
       in if TCP_WND_UPDATE_THRESHOLD \<le> sint wnd_inflation then
            rbind (tcp_output env (put_pcb st pcb (c1\<lparr>pcb_flags := pcb_flags c1 OR TF_ACK_NOW\<rparr>)) pcb)
              (\<lambda>(_, st1). Inr st1)
          else Inr (put_pcb st pcb c1))"

section \<open>Connecting\<close>

definition tcp_next_iss :: "'a tcp_st_scheme \<Rightarrow> u32 \<times> 'a tcp_st_scheme" where
  "tcp_next_iss st = (let iss = tcp_iss st + tcp_ticks st in (iss, st\<lparr>tcp_iss := iss\<rparr>))"

text \<open>A local address, when the block has none: that of the interface the destination is routed to.\<close>

definition connect_route ::
  "'a tcp_st_scheme \<Rightarrow> addr \<Rightarrow> u32 \<Rightarrow> u32 \<Rightarrow> (bool \<times> 'a tcp_st_scheme) res" where
  "connect_route st pcb lip ip =
     (if ip_addr_isany lip then
        rbind (ip_route st ip) (\<lambda>n.
          if n = 0 then Inr (False, st)
          else rbind (get_netif st n) (\<lambda>x.
               rbind (upd_pcb st pcb (\<lambda>c. c\<lparr>local_ip := ip_addr x\<rparr>)) (\<lambda>st1. Inr (True, st1))))
      else Inr (True, st))"

text \<open>A local port, when the block has none.\<close>

definition connect_port :: "'a tcp_st_scheme \<Rightarrow> addr \<Rightarrow> u16 \<Rightarrow> (u16 \<times> 'a tcp_st_scheme) res" where
  "connect_port st pcb lport =
     (if lport = 0 then
        rbind (tcp_new_port st) (\<lambda>(port, st1).
        rbind (upd_pcb st1 pcb (\<lambda>c. c\<lparr>local_port := port\<rparr>)) (\<lambda>st2. Inr (port, st2)))
      else Inr (lport, st))"

text \<open>The \<^verbatim>\<open>SYN\<close> was queued: the new state, and from the list of bound blocks to the active ones.\<close>

definition connect_start ::
  "('a tcp_st_scheme) ip_env \<Rightarrow> 'a tcp_st_scheme \<Rightarrow> addr \<Rightarrow> u16 \<Rightarrow> 'a tcp_st_scheme res" where
  "connect_start env st pcb old_local_port =
     rbind (set_state st pcb SYN_SENT) (\<lambda>st1.
     rbind (if old_local_port \<noteq> 0 then TCP_RMV st1 L_bound pcb else Inr st1) (\<lambda>st2.
     rbind (TCP_REG_ACTIVE st2 pcb) (\<lambda>st3.
     rbind (tcp_output env st3 pcb) (\<lambda>(_, st4). Inr st4))))"

definition connect_init :: "tcp_pcb \<Rightarrow> u32 \<Rightarrow> u16 \<Rightarrow> fn \<Rightarrow> tcp_pcb" where
  "connect_init c iss mss0 connected =
     c\<lparr>rcv_nxt := 0, snd_nxt := iss, lastack := iss - 1, snd_lbb := iss - 1,
       rcv_wnd := TCP_WND, rcv_ann_wnd := TCP_WND, rcv_ann_right_edge := 0, snd_wnd := TCP_WND,
       mss := mss0, cwnd := 1, ssthresh := mss0 * 10, connected_fn := connected\<rparr>"

definition tcp_connect ::
  "('a tcp_st_scheme) ip_env \<Rightarrow> 'a tcp_st_scheme \<Rightarrow> addr \<Rightarrow> u32 option \<Rightarrow> u16 \<Rightarrow> fn \<Rightarrow> (err_t \<times> 'a tcp_st_scheme) res" where
  "tcp_connect env st pcb ipaddr port connected =
     rbind (get_common st pcb) (\<lambda>b.
       if pcb_state b \<noteq> CLOSED then Inr (ERR_ISCONN, st)
       else case ipaddr of
         None \<Rightarrow> Inr (ERR_VAL, st)
       | Some ip \<Rightarrow>
           rbind (upd_pcb st pcb (\<lambda>c. c\<lparr>remote_ip := ip, remote_port := port\<rparr>)) (\<lambda>st1.
           rbind (connect_route st1 pcb (local_ip b) ip) (\<lambda>(routed, st2).
             if \<not> routed then Inr (ERR_RTE, st2)
             else rbind (connect_port st2 pcb (local_port b)) (\<lambda>(lport, st3).
               if lport = 0 then Inr (ERR_BUF, st3)
               else
                 let (iss, st4) = tcp_next_iss st3 in
                 rbind (tcp_eff_send_mss st4 initial_mss ip) (\<lambda>mss0.
                 rbind (upd_pcb st4 pcb (\<lambda>c. connect_init c iss mss0 connected)) (\<lambda>st5.
                 rbind (tcp_enqueue_flags st5 pcb TCP_SYN) (\<lambda>(ret, st6).
                   if ret = ERR_OK then
                     rbind (connect_start env st6 pcb (local_port b)) (\<lambda>st7. Inr (ERR_OK, st7))
                   else Inr (ret, st6))))))))"

section \<open>Received data that the application refused\<close>

definition tcp_recv_null ::
  "('a tcp_st_scheme) ip_env \<Rightarrow> 'a tcp_st_scheme \<Rightarrow> addr \<Rightarrow> addr \<Rightarrow> err_t \<Rightarrow> (err_t \<times> 'a tcp_st_scheme) res" where
  "tcp_recv_null env st pcb p err =
     (if p \<noteq> 0 then
        rbind (get_pbuf st p) (\<lambda>b.
        rbind (tcp_recved env st pcb (tot_len b)) (\<lambda>st1.
        rbind (pbuf_free st1 p) (\<lambda>(_, st2). Inr (ERR_OK, st2))))
      else if err = ERR_OK then tcp_close env st pcb
      else Inr (ERR_OK, st))"

definition TCP_EVENT_RECV ::
  "('a tcp_st_scheme) tcp_env \<Rightarrow> 'a tcp_st_scheme \<Rightarrow> addr \<Rightarrow> addr \<Rightarrow> err_t \<Rightarrow> (err_t \<times> 'a tcp_st_scheme) res" where
  "TCP_EVENT_RECV env st pcb p err =
     rbind (get_pcb st pcb) (\<lambda>c.
       if recv_fn c = FN_NULL \<or> recv_fn c = FN_tcp_recv_null then tcp_recv_null (ipe env) st pcb p err
       else call_recv env (recv_fn c) (callback_arg c) pcb p err st)"

definition TCP_EVENT_CLOSED ::
  "('a tcp_st_scheme) tcp_env \<Rightarrow> 'a tcp_st_scheme \<Rightarrow> addr \<Rightarrow> (err_t \<times> 'a tcp_st_scheme) res" where
  "TCP_EVENT_CLOSED env st pcb =
     rbind (get_pcb st pcb) (\<lambda>c.
       if recv_fn c = FN_NULL then Inr (ERR_OK, st)
       else if recv_fn c = FN_tcp_recv_null then tcp_recv_null (ipe env) st pcb 0 ERR_OK
       else call_recv env (recv_fn c) (callback_arg c) pcb 0 ERR_OK st)"

definition tcp_process_refused_data ::
  "('a tcp_st_scheme) tcp_env \<Rightarrow> 'a tcp_st_scheme \<Rightarrow> addr \<Rightarrow> (err_t \<times> 'a tcp_st_scheme) res" where
  "tcp_process_refused_data env st pcb =
     rbind (get_pcb st pcb) (\<lambda>c.
     rbind (get_pbuf st (refused_data c)) (\<lambda>b.
     rbind (TCP_EVENT_RECV env (put_pcb st pcb (c\<lparr>refused_data := 0\<rparr>)) pcb (refused_data c) ERR_OK) (\<lambda>(err, st1).
       if err = ERR_OK then
         (if pb_flags b AND PBUF_FLAG_TCP_FIN \<noteq> 0 then
            rbind (upd_pcb st1 pcb (\<lambda>c. if rcv_wnd c \<noteq> TCP_WND then c\<lparr>rcv_wnd := rcv_wnd c + 1\<rparr> else c)) (\<lambda>st2.
            rbind (TCP_EVENT_CLOSED env st2 pcb) (\<lambda>(err', st3).
              Inr (if err' = ERR_ABRT then ERR_ABRT else ERR_OK, st3)))
          else Inr (ERR_OK, st1))
       else if err = ERR_ABRT then Inr (ERR_ABRT, st1)
       else rbind (upd_pcb st1 pcb (\<lambda>c'. c'\<lparr>refused_data := refused_data c\<rparr>)) (\<lambda>st2. Inr (ERR_OK, st2)))))"

section \<open>The slow timer\<close>

text \<open>A retransmission time-out: back off, shrink the windows, requeue what is unacknowledged.\<close>

definition slow_rto :: "('a tcp_st_scheme) ip_env \<Rightarrow> 'a tcp_st_scheme \<Rightarrow> addr \<Rightarrow> 'a tcp_st_scheme res" where
  "slow_rto env st pcb =
     rbind (get_pcb st pcb) (\<lambda>c.
     rbind (if pcb_state c \<noteq> SYN_SENT then
              rbind (nth_res tcp_backoff (unat (nrtx c))) (\<lambda>n.
                Inr (of_int ((sint (sa c) div 8 + sint (sv c)) * 2 ^ n)))
            else Inr (rto c)) (\<lambda>rto'.
       let eff_wnd = min (cwnd c) (snd_wnd c);
           half = drop_bit 1 eff_wnd;
           thresh = (if unat half < 2 * unat (mss c) then push_bit 1 (mss c) else half)
       in tcp_rexmit_rto env (put_pcb st pcb (c\<lparr>rto := rto', rtime := 0, ssthresh := thresh, cwnd := mss c\<rparr>)) pcb))"

text \<open>The first part of the body: retries used up, persist timer, or retransmission timer.\<close>

definition slow_retransmit ::
  "('a tcp_st_scheme) ip_env \<Rightarrow> 'a tcp_st_scheme \<Rightarrow> addr \<Rightarrow> (bool \<times> 'a tcp_st_scheme) res" where
  "slow_retransmit env st pcb =
     rbind (get_pcb st pcb) (\<lambda>c.
       if pcb_state c = SYN_SENT \<and> nrtx c = TCP_SYNMAXRTX then Inr (True, st)
       else if nrtx c = TCP_MAXRTX then Inr (True, st)
       else if 0 < persist_backoff c then
         rbind (nth_res tcp_persist_backoff (unat (persist_backoff c) - 1)) (\<lambda>limit.
           if limit \<le> persist_cnt c + 1 then
             rbind (tcp_zero_window_probe env
                      (put_pcb st pcb (c\<lparr>persist_cnt := 0,
                         persist_backoff := (if persist_backoff c < 7 then persist_backoff c + 1 else persist_backoff c)\<rparr>)) pcb)
               (\<lambda>st1. Inr (False, st1))
           else Inr (False, put_pcb st pcb (c\<lparr>persist_cnt := persist_cnt c + 1\<rparr>)))
       else
         let c1 = (if 0 \<le> sint (rtime c) then c\<lparr>rtime := rtime c + 1\<rparr> else c);
             st1 = put_pcb st pcb c1
         in if unacked c1 \<noteq> [] \<and> sint (rto c1) \<le> sint (rtime c1) then
              rbind (slow_rto env st1 pcb) (\<lambda>st2. Inr (False, st2))
            else Inr (False, st1))"

definition TCP_KEEP_DUR :: u32 where "TCP_KEEP_DUR = TCP_MAXIDLE"
definition TCP_KEEP_INTVL :: u32 where "TCP_KEEP_INTVL = TCP_KEEPINTVL_DEFAULT"

text \<open>The keepalive check: the result tells to remove and reset.\<close>

definition slow_keepalive ::
  "('a tcp_st_scheme) ip_env \<Rightarrow> 'a tcp_st_scheme \<Rightarrow> addr \<Rightarrow> (bool \<times> 'a tcp_st_scheme) res" where
  "slow_keepalive env st pcb =
     rbind (get_pcb st pcb) (\<lambda>c.
       if so_options c AND SOF_KEEPALIVE \<noteq> 0 \<and> (pcb_state c = ESTABLISHED \<or> pcb_state c = CLOSE_WAIT) then
         (if (keep_idle c + TCP_KEEP_DUR) div TCP_SLOW_INTERVAL < tcp_ticks st - tmr c then Inr (True, st)
          else if (keep_idle c + ucast (keep_cnt_sent c) * TCP_KEEP_INTVL) div TCP_SLOW_INTERVAL < tcp_ticks st - tmr c then
            rbind (tcp_keepalive env st pcb) (\<lambda>st1.
            rbind (upd_pcb st1 pcb (\<lambda>c. c\<lparr>keep_cnt_sent := keep_cnt_sent c + 1\<rparr>)) (\<lambda>st2. Inr (False, st2)))
          else Inr (False, st))
       else Inr (False, st))"

text \<open>The body of the loop up to the decision: whether to remove the block, and to reset.\<close>

definition slow_checks ::
  "('a tcp_st_scheme) ip_env \<Rightarrow> 'a tcp_st_scheme \<Rightarrow> addr \<Rightarrow> (bool \<times> bool \<times> 'a tcp_st_scheme) res" where
  "slow_checks env st pcb =
     rbind (slow_retransmit env st pcb) (\<lambda>(retries_up, st1).
     rbind (get_pcb st1 pcb) (\<lambda>c1.
       let fin_wait_2_up = (pcb_state c1 = FIN_WAIT_2 \<and> pcb_flags c1 AND TF_RXCLOSED \<noteq> 0
                            \<and> TCP_FIN_WAIT_TIMEOUT div TCP_SLOW_INTERVAL < tcp_ticks st1 - tmr c1) in
     rbind (slow_keepalive env st1 pcb) (\<lambda>(keepalive_up, st2).
     rbind (get_pcb st2 pcb) (\<lambda>c2.
     rbind (if ooseq c2 \<noteq> [] \<and> scast (rto c2) * TCP_OOSEQ_TIMEOUT \<le> tcp_ticks st2 - tmr c2 then
              rbind (tcp_segs_free st2 (ooseq c2)) (\<lambda>st3. upd_pcb st3 pcb (\<lambda>c. c\<lparr>ooseq := []\<rparr>))
            else Inr st2) (\<lambda>st3.
     rbind (get_pcb st3 pcb) (\<lambda>c3.
       let syn_rcvd_up = (pcb_state c3 = SYN_RCVD
                          \<and> TCP_SYN_RCVD_TIMEOUT div TCP_SLOW_INTERVAL < tcp_ticks st3 - tmr c3);
           last_ack_up = (pcb_state c3 = LAST_ACK
                          \<and> 2 * TCP_MSL div TCP_SLOW_INTERVAL < tcp_ticks st3 - tmr c3)
       in Inr (retries_up \<or> fin_wait_2_up \<or> keepalive_up \<or> syn_rcvd_up \<or> last_ack_up, keepalive_up, st3)))))))"

text \<open>Unlink \<open>pcb\<close> behind \<open>prev\<close> (\<open>0\<close>: at the head); the result has the next block.\<close>

definition unlink_after ::
  "'a tcp_st_scheme \<Rightarrow> pcb_list \<Rightarrow> addr \<Rightarrow> addr \<Rightarrow> (addr \<times> 'a tcp_st_scheme) res" where
  "unlink_after st l prev pcb =
     rbind (get_common st pcb) (\<lambda>b.
     rbind (if prev \<noteq> 0 then set_next st prev (pcb_next b) else Inr (set_head st l (pcb_next b))) (\<lambda>st1.
       Inr (pcb_next b, st1)))"

definition TCP_EVENT_POLL ::
  "('a tcp_st_scheme) tcp_env \<Rightarrow> 'a tcp_st_scheme \<Rightarrow> addr \<Rightarrow> (err_t \<times> 'a tcp_st_scheme) res" where
  "TCP_EVENT_POLL env st pcb =
     rbind (get_pcb st pcb) (\<lambda>c.
       if poll_fn c \<noteq> FN_NULL then call_poll env (poll_fn c) (callback_arg c) pcb st else Inr (ERR_OK, st))"

text \<open>
  The loop over the active blocks. A callback that changed the list of active blocks restarts it at
  the head (\<^verbatim>\<open>goto tcp_slowtmr_start\<close>). Every block is handled once per tick (\<open>last_timer\<close>), and
  only a handled block can cause a restart.
\<close>

primrec slow_active ::
  "nat \<Rightarrow> ('a tcp_st_scheme) tcp_env \<Rightarrow> 'a tcp_st_scheme \<Rightarrow> addr \<Rightarrow> addr \<Rightarrow> 'a tcp_st_scheme res" where
  "slow_active 0 env st prev pcb = (if pcb = 0 then Inr st else Inl Out_of_fuel)"
| "slow_active (Suc fuel) env st prev pcb =
     (if pcb = 0 then Inr st
      else rbind (get_pcb st pcb) (\<lambda>c.
        if last_timer c = tcp_timer_ctr st then slow_active fuel env st prev (pcb_next c)
        else
          rbind (slow_checks (ipe env) (put_pcb st pcb (c\<lparr>last_timer := tcp_timer_ctr st\<rparr>)) pcb)
            (\<lambda>(remove, reset, st1).
          if remove then
            rbind (tcp_pcb_purge st1 pcb) (\<lambda>st2.
            rbind (unlink_after st2 L_active prev pcb) (\<lambda>(nx, st3).
            rbind (get_pcb st3 pcb) (\<lambda>c3.
            rbind (if reset then tcp_rst (ipe env) st3 (snd_nxt c3) (rcv_nxt c3) (local_ip c3) (remote_ip c3)
                                   (local_port c3) (remote_port c3)
                   else Inr st3) (\<lambda>st4.
            rbind (TCP_EVENT_ERR env ((free_pcb st4 pcb)\<lparr>tcp_active_pcbs_changed := 0\<rparr>)
                     (errf c3) (callback_arg c3) ERR_ABRT) (\<lambda>st5.
              if tcp_active_pcbs_changed st5 \<noteq> 0 then slow_active fuel env st5 0 (tcp_active_pcbs st5)
              else slow_active fuel env st5 prev nx)))))
          else
            rbind (get_pcb st1 pcb) (\<lambda>c1.
              if polltmr c1 + 1 \<ge> pollinterval c1 then
                rbind (TCP_EVENT_POLL env
                         ((put_pcb st1 pcb (c1\<lparr>polltmr := 0\<rparr>))\<lparr>tcp_active_pcbs_changed := 0\<rparr>) pcb) (\<lambda>(err, st2).
                  if tcp_active_pcbs_changed st2 \<noteq> 0 then slow_active fuel env st2 0 (tcp_active_pcbs st2)
                  else if err = ERR_OK then
                    rbind (tcp_output (ipe env) st2 pcb) (\<lambda>(_, st3). slow_active fuel env st3 pcb (pcb_next c1))
                  else slow_active fuel env st2 pcb (pcb_next c1))
              else slow_active fuel env (put_pcb st1 pcb (c1\<lparr>polltmr := polltmr c1 + 1\<rparr>)) pcb (pcb_next c1)))))"

text \<open>The loop over the blocks in \<^verbatim>\<open>TIME-WAIT\<close>.\<close>

primrec slow_tw :: "nat \<Rightarrow> 'a tcp_st_scheme \<Rightarrow> addr \<Rightarrow> addr \<Rightarrow> 'a tcp_st_scheme res" where
  "slow_tw 0 st prev pcb = (if pcb = 0 then Inr st else Inl Out_of_fuel)"
| "slow_tw (Suc fuel) st prev pcb =
     (if pcb = 0 then Inr st
      else rbind (get_pcb st pcb) (\<lambda>c.
        if 2 * TCP_MSL div TCP_SLOW_INTERVAL < tcp_ticks st - tmr c then
          rbind (tcp_pcb_purge st pcb) (\<lambda>st1.
          rbind (unlink_after st1 L_tw prev pcb) (\<lambda>(nx, st2). slow_tw fuel (free_pcb st2 pcb) prev nx))
        else slow_tw fuel st pcb (pcb_next c)))"

text \<open>At most 32 blocks are handled in a tick, and at most 32 are walked over between two of them.\<close>

definition tmr_fuel :: nat where "tmr_fuel = 2048"

definition tcp_slowtmr :: "('a tcp_st_scheme) tcp_env \<Rightarrow> 'a tcp_st_scheme \<Rightarrow> 'a tcp_st_scheme res" where
  "tcp_slowtmr env st =
     (let st1 = st\<lparr>tcp_ticks := tcp_ticks st + 1, tcp_timer_ctr := tcp_timer_ctr st + 1\<rparr> in
      rbind (slow_active tmr_fuel env st1 0 (tcp_active_pcbs st1)) (\<lambda>st2.
        slow_tw pcb_fuel st2 0 (tcp_tw_pcbs st2)))"

section \<open>The fast timer\<close>

text \<open>
  The loop advances only past a block it handles: a block with \<open>last_timer = tcp_timer_ctr\<close> is
  looked at again and again.
\<close>

primrec fast_loop :: "nat \<Rightarrow> ('a tcp_st_scheme) tcp_env \<Rightarrow> 'a tcp_st_scheme \<Rightarrow> addr \<Rightarrow> 'a tcp_st_scheme res" where
  "fast_loop 0 env st pcb = (if pcb = 0 then Inr st else Inl Out_of_fuel)"
| "fast_loop (Suc fuel) env st pcb =
     (if pcb = 0 then Inr st
      else rbind (get_pcb st pcb) (\<lambda>c.
        if last_timer c = tcp_timer_ctr st then fast_loop fuel env st pcb
        else
          let st1 = put_pcb st pcb (c\<lparr>last_timer := tcp_timer_ctr st\<rparr>) in
          rbind (if pcb_flags c AND TF_ACK_DELAY \<noteq> 0 then
                   rbind (upd_pcb st1 pcb (\<lambda>c. c\<lparr>pcb_flags := pcb_flags c OR TF_ACK_NOW\<rparr>)) (\<lambda>st2.
                   rbind (tcp_output (ipe env) st2 pcb) (\<lambda>(_, st3).
                     upd_pcb st3 pcb (\<lambda>c. c\<lparr>pcb_flags := pcb_flags c AND NOT (TF_ACK_DELAY OR TF_ACK_NOW)\<rparr>)))
                 else Inr st1) (\<lambda>st4.
          rbind (get_pcb st4 pcb) (\<lambda>c4.
            let nx = pcb_next c4 in
            if refused_data c4 \<noteq> 0 then
              rbind (tcp_process_refused_data env (st4\<lparr>tcp_active_pcbs_changed := 0\<rparr>) pcb) (\<lambda>(_, st5).
                if tcp_active_pcbs_changed st5 \<noteq> 0 then fast_loop fuel env st5 (tcp_active_pcbs st5)
                else fast_loop fuel env st5 nx)
            else fast_loop fuel env st4 nx))))"

definition tcp_fasttmr :: "('a tcp_st_scheme) tcp_env \<Rightarrow> 'a tcp_st_scheme \<Rightarrow> 'a tcp_st_scheme res" where
  "tcp_fasttmr env st =
     (let st1 = st\<lparr>tcp_timer_ctr := tcp_timer_ctr st + 1\<rparr> in
      fast_loop tmr_fuel env st1 (tcp_active_pcbs st1))"

definition tcp_tmr :: "('a tcp_st_scheme) tcp_env \<Rightarrow> 'a tcp_st_scheme \<Rightarrow> 'a tcp_st_scheme res" where
  "tcp_tmr env st =
     rbind (tcp_fasttmr env st) (\<lambda>st1.
       let st2 = st1\<lparr>tcp_timer := tcp_timer st1 + 1\<rparr> in
       if tcp_timer st2 AND 1 \<noteq> 0 then tcp_slowtmr env st2 else Inr st2)"

section \<open>Allocation\<close>

text \<open>
  The loop of \<open>tcp_kill_prio\<close>: \<open>inactive\<close> is the choice so far (0: none), \<open>inactivity\<close> its age,
  \<open>mprio\<close> its priority.
\<close>

primrec kill_prio_scan :: "nat \<Rightarrow> 'a tcp_st_scheme \<Rightarrow> u8 \<Rightarrow> addr \<Rightarrow> addr \<Rightarrow> u32 \<Rightarrow> u8 \<Rightarrow> addr res" where
  "kill_prio_scan 0 st pr p inactive inactivity mprio = (if p = 0 then Inr inactive else Inl Out_of_fuel)"
| "kill_prio_scan (Suc fuel) st pr p inactive inactivity mprio =
     (if p = 0 then Inr inactive
      else rbind (get_pcb st p) (\<lambda>c.
        if prio c \<le> pr \<and> prio c \<le> mprio \<and> inactivity \<le> tcp_ticks st - tmr c
        then kill_prio_scan fuel st pr (pcb_next c) p (tcp_ticks st - tmr c) (prio c)
        else kill_prio_scan fuel st pr (pcb_next c) inactive inactivity mprio))"

definition tcp_kill_prio :: "('a tcp_st_scheme) tcp_env \<Rightarrow> 'a tcp_st_scheme \<Rightarrow> u8 \<Rightarrow> 'a tcp_st_scheme res" where
  "tcp_kill_prio env st pr =
     rbind (kill_prio_scan pcb_fuel st pr (tcp_active_pcbs st) 0 0 TCP_PRIO_MAX) (\<lambda>inactive.
       if inactive \<noteq> 0 then tcp_abort env st inactive else Inr st)"

primrec kill_tw_scan :: "nat \<Rightarrow> 'a tcp_st_scheme \<Rightarrow> addr \<Rightarrow> addr \<Rightarrow> u32 \<Rightarrow> addr res" where
  "kill_tw_scan 0 st p inactive inactivity = (if p = 0 then Inr inactive else Inl Out_of_fuel)"
| "kill_tw_scan (Suc fuel) st p inactive inactivity =
     (if p = 0 then Inr inactive
      else rbind (get_pcb st p) (\<lambda>c.
        if inactivity \<le> tcp_ticks st - tmr c
        then kill_tw_scan fuel st (pcb_next c) p (tcp_ticks st - tmr c)
        else kill_tw_scan fuel st (pcb_next c) inactive inactivity))"

definition tcp_kill_timewait :: "('a tcp_st_scheme) tcp_env \<Rightarrow> 'a tcp_st_scheme \<Rightarrow> 'a tcp_st_scheme res" where
  "tcp_kill_timewait env st =
     rbind (kill_tw_scan pcb_fuel st (tcp_tw_pcbs st) 0 0) (\<lambda>inactive.
       if inactive \<noteq> 0 then tcp_abort env st inactive else Inr st)"

definition malloc_pcb :: "'a tcp_st_scheme \<Rightarrow> addr \<times> 'a tcp_st_scheme" where
  "malloc_pcb st = (case memp_malloc (pools st) MEMP_TCP_PCB of (p, pools') \<Rightarrow> (p, st\<lparr>pools := pools'\<rparr>))"

text \<open>
  A block from the pool; when it is empty, after the oldest connection in \<^verbatim>\<open>TIME-WAIT\<close> and then a
  connection of at most the priority \<open>pr\<close> have been aborted.
\<close>

definition alloc_block :: "('a tcp_st_scheme) tcp_env \<Rightarrow> 'a tcp_st_scheme \<Rightarrow> u8 \<Rightarrow> (addr \<times> 'a tcp_st_scheme) res" where
  "alloc_block env st pr =
     (case malloc_pcb st of (p, st1) \<Rightarrow>
        if p \<noteq> 0 then Inr (p, st1)
        else rbind (tcp_kill_timewait env st1) (\<lambda>st2.
          case malloc_pcb st2 of (p2, st3) \<Rightarrow>
            if p2 \<noteq> 0 then Inr (p2, st3)
            else rbind (tcp_kill_prio env st3 pr) (\<lambda>st4. Inr (malloc_pcb st4))))"

definition tcp_alloc :: "('a tcp_st_scheme) tcp_env \<Rightarrow> 'a tcp_st_scheme \<Rightarrow> u8 \<Rightarrow> (addr \<times> 'a tcp_st_scheme) res" where
  "tcp_alloc env st pr =
     rbind (alloc_block env st pr) (\<lambda>(p, st1).
       if p \<noteq> 0 then
         (case tcp_next_iss st1 of (iss, st2) \<Rightarrow>
            Inr (p, put_pcb st2 p (tcp_pcb_init pr iss (tcp_ticks st2) (tcp_timer_ctr st2))))
       else Inr (0, st1))"

definition tcp_new :: "('a tcp_st_scheme) tcp_env \<Rightarrow> 'a tcp_st_scheme \<Rightarrow> (addr \<times> 'a tcp_st_scheme) res" where
  "tcp_new env st = tcp_alloc env st TCP_PRIO_NORMAL"

section \<open>Callbacks and options\<close>

definition tcp_setprio :: "'a tcp_st_scheme \<Rightarrow> addr \<Rightarrow> u8 \<Rightarrow> 'a tcp_st_scheme res" where
  "tcp_setprio st pcb pr = upd_pcb st pcb (\<lambda>c. c\<lparr>prio := pr\<rparr>)"

definition tcp_arg :: "'a tcp_st_scheme \<Rightarrow> addr \<Rightarrow> u32 \<Rightarrow> 'a tcp_st_scheme res" where
  "tcp_arg st pcb arg = upd_common st pcb (\<lambda>c. c\<lparr>callback_arg := arg\<rparr>) (\<lambda>c. c\<lparr>callback_arg := arg\<rparr>)"

definition tcp_recv :: "'a tcp_st_scheme \<Rightarrow> addr \<Rightarrow> fn \<Rightarrow> 'a tcp_st_scheme res" where
  "tcp_recv st pcb f = upd_pcb st pcb (\<lambda>c. c\<lparr>recv_fn := f\<rparr>)"

definition tcp_sent :: "'a tcp_st_scheme \<Rightarrow> addr \<Rightarrow> fn \<Rightarrow> 'a tcp_st_scheme res" where
  "tcp_sent st pcb f = upd_pcb st pcb (\<lambda>c. c\<lparr>sent_fn := f\<rparr>)"

definition tcp_err :: "'a tcp_st_scheme \<Rightarrow> addr \<Rightarrow> fn \<Rightarrow> 'a tcp_st_scheme res" where
  "tcp_err st pcb f = upd_pcb st pcb (\<lambda>c. c\<lparr>errf := f\<rparr>)"

definition tcp_accept :: "'a tcp_st_scheme \<Rightarrow> addr \<Rightarrow> fn \<Rightarrow> 'a tcp_st_scheme res" where
  "tcp_accept st pcb f = upd_common st pcb (\<lambda>c. c\<lparr>accept_fn := f\<rparr>) (\<lambda>c. c\<lparr>accept_fn := f\<rparr>)"

definition tcp_poll :: "'a tcp_st_scheme \<Rightarrow> addr \<Rightarrow> fn \<Rightarrow> u8 \<Rightarrow> 'a tcp_st_scheme res" where
  "tcp_poll st pcb f interval = upd_pcb st pcb (\<lambda>c. c\<lparr>poll_fn := f, pollinterval := interval\<rparr>)"

end
