(* ===== verification/TcpLists.thy ===== *)
theory TcpLists
  imports TcpState
begin

text \<open>
  The four lists of control blocks as abstract lists: what \<^verbatim>\<open>TCP_REG\<close> and \<^verbatim>\<open>TCP_RMV\<close> of
  \<^verbatim>\<open>lwip/tcp_impl.h\<close> do to them, and the axioms that \<^verbatim>\<open>tcp_impl.h\<close> states about them.
\<close>

section \<open>Blocks and chains\<close>

text \<open>The common part of the block at an address, whichever kind it is.\<close>

definition common :: "'a tcp_st_scheme \<Rightarrow> addr \<Rightarrow> pcb_common option" where
  "common st p = (case tcp_pcbs st p of Some b \<Rightarrow> Some (pcb_common.truncate b) | None \<Rightarrow> tcp_lpcbs st p)"

definition next_of :: "'a tcp_st_scheme \<Rightarrow> addr \<Rightarrow> addr" where
  "next_of st p = (case common st p of Some b \<Rightarrow> pcb_next b | None \<Rightarrow> 0)"

lemma get_common_iff: "get_common st p = Inr b \<longleftrightarrow> p \<noteq> 0 \<and> common st p = Some b"
  by (auto simp: get_common_def common_def split: option.splits)

lemma next_of_common: "common st p = Some b \<Longrightarrow> next_of st p = pcb_next b"
  by (simp add: next_of_def)

text \<open>What the lists are about: the kind of a block (is it a listen block?), its state and its port.\<close>

type_synonym pcb_info = "bool \<times> tcp_state \<times> u16"

definition info :: "'a tcp_st_scheme \<Rightarrow> addr \<Rightarrow> pcb_info option" where
  "info st p = map_option (\<lambda>b. (tcp_pcbs st p = None, pcb_state b, local_port b)) (common st p)"

lemma info_None [simp]: "info st p = None \<longleftrightarrow> common st p = None"
  by (simp add: info_def)

definition lists_repr :: "'a tcp_st_scheme \<Rightarrow> (pcb_list \<Rightarrow> addr list) \<Rightarrow> bool" where
  "lists_repr st F \<longleftrightarrow>
     (\<forall>l. linked (next_of st) (head_of st l) (F l) \<and> distinct (F l) \<and> set (F l) \<subseteq> dom (common st)) \<and>
     (\<forall>l l'. l \<noteq> l' \<longrightarrow> set (F l) \<inter> set (F l') = {})"

lemma lists_reprD:
  assumes "lists_repr st F"
  shows "linked (next_of st) (head_of st l) (F l)" "distinct (F l)" "x \<in> set (F l) \<Longrightarrow> common st x \<noteq> None"
    "l \<noteq> l' \<Longrightarrow> set (F l) \<inter> set (F l') = {}"
  using assms by (auto simp: lists_repr_def)

lemma lists_repr_nonzero: "lists_repr st F \<Longrightarrow> 0 \<notin> set (F l)"
  using lists_reprD(1) linked_nonzero by blast

lemma lists_repr_unique: "lists_repr st F \<Longrightarrow> lists_repr st G \<Longrightarrow> F = G"
  by (intro ext linked_unique) (rule lists_reprD(1), assumption)+

section \<open>The state that the lists depend on\<close>

lemma head_of_set_head [simp]: "head_of (set_head st l p) k = (if k = l then p else head_of st k)"
  by (cases l; cases k) simp_all

lemma set_head_pcbs [simp]:
  "tcp_pcbs (set_head st l p) = tcp_pcbs st" "tcp_lpcbs (set_head st l p) = tcp_lpcbs st"
  by (cases l; simp)+

lemma common_cong:
  assumes "tcp_pcbs st' = tcp_pcbs st" "tcp_lpcbs st' = tcp_lpcbs st"
  shows "common st' = common st" "info st' = info st" "next_of st' = next_of st"
proof -
  show c: "common st' = common st" unfolding common_def assms ..
  show "info st' = info st" unfolding info_def assms c ..
  show "next_of st' = next_of st" unfolding next_of_def c ..
qed

lemmas set_head_common [simp] = common_cong [OF set_head_pcbs]

lemma set_next_spec:
  assumes "common st p = Some b" "p \<noteq> 0"
  shows "\<exists>st'. set_next st p n = Inr st' \<and> next_of st' = (next_of st)(p := n) \<and> info st' = info st
    \<and> head_of st' = head_of st \<and> common st' = (common st)(p \<mapsto> b\<lparr>pcb_next := n\<rparr>)"
proof -
  have head: "head_of (st\<lparr>tcp_pcbs := m\<rparr>) l = head_of st l" "head_of (st\<lparr>tcp_lpcbs := m'\<rparr>) l = head_of st l" for m m' l
    by (cases l; simp)+
  show ?thesis
  proof (cases "tcp_pcbs st p")
    case (Some c)
    then have b: "b = pcb_common.truncate c" using assms(1) by (simp add: common_def)
    have u: "set_next st p n = Inr (st\<lparr>tcp_pcbs := (tcp_pcbs st)(p \<mapsto> c\<lparr>pcb_next := n\<rparr>)\<rparr>)" (is "_ = Inr ?st")
      using Some assms(2) by (simp add: set_next_def upd_common_def)
    have c: "common ?st = (common st)(p \<mapsto> b\<lparr>pcb_next := n\<rparr>)"
      by (auto simp: common_def fun_eq_iff b pcb_common.truncate_def split: option.splits)
    have "info ?st q = info st q" for q
      using Some assms(1) unfolding info_def c by (cases "q = p") simp_all
    moreover have "next_of ?st = (next_of st)(p := n)" unfolding next_of_def c by (auto simp: fun_eq_iff)
    ultimately show ?thesis using u c head by (intro exI [of _ ?st]) (simp add: fun_eq_iff)
  next
    case None
    then have l: "tcp_lpcbs st p = Some b" using assms(1) by (simp add: common_def)
    have u: "set_next st p n = Inr (st\<lparr>tcp_lpcbs := (tcp_lpcbs st)(p \<mapsto> b\<lparr>pcb_next := n\<rparr>)\<rparr>)" (is "_ = Inr ?st")
      using None l assms(2) by (simp add: set_next_def upd_common_def)
    have c: "common ?st = (common st)(p \<mapsto> b\<lparr>pcb_next := n\<rparr>)"
      using None by (auto simp: common_def fun_eq_iff split: option.splits)
    have "info ?st q = info st q" for q
      using None assms(1) unfolding info_def c by (cases "q = p") simp_all
    moreover have "next_of ?st = (next_of st)(p := n)" unfolding next_of_def c by (auto simp: fun_eq_iff)
    ultimately show ?thesis using u c head by (intro exI [of _ ?st]) (simp add: fun_eq_iff)
  qed
qed

lemma lists_repr_cong:
  assumes "next_of st' = next_of st" "head_of st' = head_of st" "dom (common st') = dom (common st)"
  shows "lists_repr st' F = lists_repr st F"
  using assms by (simp add: lists_repr_def)

lemma dom_common_info: "dom (common st) = dom (info st)"
  by (auto simp: dom_def info_def)

section \<open>Registering\<close>

lemma TCP_REG_spec:
  assumes "lists_repr st F" "common st p \<noteq> None" "p \<noteq> 0" "\<forall>k. p \<notin> set (F k)"
  shows "\<exists>st'. TCP_REG st l p = Inr st' \<and> lists_repr st' (F(l := p # F l)) \<and> info st' = info st"
proof -
  from assms(2) obtain b where b: "common st p = Some b" by blast
  from set_next_spec [OF b assms(3), of "head_of st l"] obtain s where
    s: "set_next st p (head_of st l) = Inr s" "next_of s = (next_of st)(p := head_of st l)" "info s = info st"
      "head_of s = head_of st" by blast
  have dom: "dom (common s) = dom (common st)" using s(3) by (simp add: dom_common_info)
  have "lists_repr (set_head s l p) (F(l := p # F l))"
    unfolding lists_repr_def set_head_common head_of_set_head
  proof (intro conjI allI impI)
    fix k
    have k: "linked (next_of st) (head_of st k) (F k)" "distinct (F k)" "set (F k) \<subseteq> dom (common st)"
      using assms(1) by (simp_all add: lists_repr_def)
    have l: "linked (next_of st) (head_of st l) (F l)" using assms(1) by (simp add: lists_repr_def)
    show "linked (next_of s) (if k = l then p else head_of s k) ((F(l := p # F l)) k)"
      using k l assms(3,4) s(2,4) by auto
    show "distinct ((F(l := p # F l)) k)" using k assms(4) by auto
    have "p \<in> dom (common st)" using b by blast
    moreover have "set (F l) \<subseteq> dom (common st)" using assms(1) by (simp add: lists_repr_def)
    ultimately show "set ((F(l := p # F l)) k) \<subseteq> dom (common s)" using k dom by auto
  next
    fix k k' :: pcb_list
    assume "k \<noteq> k'"
    then have "set (F k) \<inter> set (F k') = {}" using assms(1) by (simp add: lists_repr_def)
    then show "set ((F(l := p # F l)) k) \<inter> set ((F(l := p # F l)) k') = {}"
      using assms(4) \<open>k \<noteq> k'\<close> by auto
  qed
  then show ?thesis using s by (auto simp: TCP_REG_def)
qed

section \<open>Removing\<close>

lemma rmv_loop_cases:
  assumes "rmv_loop fuel st p t = Inr st'" "linked (next_of st) t xs" "distinct xs"
    "set xs \<subseteq> dom (common st)" "p \<noteq> 0" "p \<noteq> t" "common st p \<noteq> None"
  shows "p \<notin> set xs \<and> st' = st \<or>
    (\<exists>ys q zs. xs = ys @ q # p # zs \<and> set_next st q (next_of st p) = Inr st')"
  using assms
proof (induction fuel arbitrary: t xs)
  case 0
  then show ?case by (cases xs) (auto split: if_splits)
next
  case (Suc fuel)
  show ?case
  proof (cases xs)
    case Nil
    with Suc.prems show ?thesis by simp
  next
    case (Cons x zs)
    with Suc.prems have t: "t = x" "t \<noteq> 0" "linked (next_of st) (next_of st t) zs" by auto
    from Cons Suc.prems(4) obtain b where b: "common st t = Some b" using t by auto
    have g: "get_common st t = Inr b" using b t by (simp add: get_common_iff)
    have n: "next_of st t = pcb_next b" using b by (simp add: next_of_common)
    from Suc.prems(7) obtain bp where bp: "common st p = Some bp" by blast
    show ?thesis
    proof (cases "pcb_next b = p")
      case True
      from t(3) True n Suc.prems(5) obtain ws where zs: "zs = p # ws" by (cases zs) auto
      have "get_common st p = Inr bp" using bp Suc.prems(5) by (simp add: get_common_iff)
      then have "set_next st t (next_of st p) = Inr st'"
        using Suc.prems(1) g t(2) True bp by (simp add: next_of_common)
      then show ?thesis using Cons zs t(1) by (intro disjI2 exI [of _ "[]"]) auto
    next
      case False
      have "rmv_loop fuel st p (next_of st t) = Inr st'" using Suc.prems(1) g t(2) False n by simp
      from Suc.IH [OF this t(3)] Suc.prems Cons False n have
        "p \<notin> set zs \<and> st' = st \<or> (\<exists>ys q ws. zs = ys @ q # p # ws \<and> set_next st q (next_of st p) = Inr st')"
        by auto
      then show ?thesis
      proof
        assume "p \<notin> set zs \<and> st' = st"
        then show ?thesis using Cons t(1) Suc.prems(6) by simp
      next
        assume "\<exists>ys q ws. zs = ys @ q # p # ws \<and> set_next st q (next_of st p) = Inr st'"
        then obtain ys q ws where "xs = (x # ys) @ q # p # ws" "set_next st q (next_of st p) = Inr st'" using Cons by auto
        then show ?thesis by blast
      qed
    qed
  qed
qed

lemma rmv_loop_total:
  assumes "linked (next_of st) t xs" "set xs \<subseteq> dom (common st)" "p \<noteq> 0" "common st p \<noteq> None" "length xs \<le> fuel"
  shows "\<exists>st'. rmv_loop fuel st p t = Inr st'"
  using assms
proof (induction fuel arbitrary: t xs)
  case 0
  then show ?case by simp
next
  case (Suc fuel)
  show ?case
  proof (cases xs)
    case Nil
    with Suc.prems show ?thesis by simp
  next
    case (Cons x zs)
    with Suc.prems have t: "t = x" "t \<noteq> 0" "linked (next_of st) (next_of st t) zs" by auto
    from Cons Suc.prems(2) obtain b where b: "common st t = Some b" using t by auto
    have g: "get_common st t = Inr b" using b t by (simp add: get_common_iff)
    from Suc.prems(4) obtain bp where bp: "common st p = Some bp" by blast
    have "\<exists>st'. rmv_loop fuel st p (pcb_next b) = Inr st'"
      using Suc.IH [OF t(3)] Suc.prems Cons b by (simp add: next_of_common)
    moreover have "\<exists>st'. set_next st t n = Inr st'" for n using set_next_spec [OF b t(2)] by blast
    moreover have "get_common st p = Inr bp" using bp Suc.prems(3) by (simp add: get_common_iff)
    ultimately show ?thesis using g t(2) by simp
  qed
qed

lemma TCP_RMV_spec:
  assumes "TCP_RMV st l p = Inr st'" "lists_repr st F" "common st p \<noteq> None" "p \<noteq> 0" "\<forall>k. k \<noteq> l \<longrightarrow> p \<notin> set (F k)"
  shows "lists_repr st' (F(l := remove1 p (F l))) \<and> info st' = info st"
proof -
  from assms(3) obtain b where b: "common st p = Some b" by blast
  have L: "linked (next_of st) (head_of st k) (F k)" "distinct (F k)" "set (F k) \<subseteq> dom (common st)" for k
    using assms(2) by (simp_all add: lists_repr_def)
  have dis: "set (F k) \<inter> set (F k') = {}" if "k \<noteq> k'" for k k' using assms(2) that by (simp add: lists_repr_def)
  let ?G = "F(l := remove1 p (F l))"
  have pG: "p \<notin> set (?G k)" for k using assms(5) L(2) [of l] by auto
  from assms(1) obtain s where s: "(if head_of st l = p
            then rbind (get_common st p) (\<lambda>b. Inr (set_head st l (pcb_next b)))
            else rmv_loop pcb_fuel st p (head_of st l)) = Inr s" "set_next s p 0 = Inr st'"
    by (auto simp: TCP_RMV_def rbind_eq_Inr)
  have mid: "lists_repr s ?G \<and> info s = info st"
  proof (cases "head_of st l = p")
    case True
    then obtain zs where zs: "F l = p # zs" "linked (next_of st) (next_of st p) zs"
      using L(1) [of l] assms(4) by (cases "F l") auto
    have sh: "s = set_head st l (pcb_next b)" using s(1) True b assms(4) by (simp add: get_common_iff [THEN iffD2])
    have "linked (next_of st) (if k = l then pcb_next b else head_of st k) (?G k)" for k
      using L(1) [of k] zs b by (simp add: next_of_common)
    moreover have "distinct (?G k)" "set (?G k) \<subseteq> dom (common st)" for k
      using L(2) [of k] L(3) [of k] zs by auto
    moreover have "set (?G k) \<inter> set (?G k') = {}" if "k \<noteq> k'" for k k'
      using dis [OF that] zs by (auto dest: set_mp)
    ultimately show ?thesis unfolding sh lists_repr_def set_head_common head_of_set_head by blast
  next
    case False
    with s(1) have r: "rmv_loop pcb_fuel st p (head_of st l) = Inr s" by simp
    from rmv_loop_cases [OF r L(1) L(2) L(3) assms(4) _ assms(3)] False consider
      "p \<notin> set (F l)" "s = st" | ys q zs where "F l = ys @ q # p # zs" "set_next st q (next_of st p) = Inr s" by blast
    then show ?thesis
    proof cases
      case 1
      then show ?thesis using assms(2) by (simp add: remove1_idem)
    next
      case 2
      have q: "q \<in> set (F l)" using 2(1) by simp
      then obtain bq where bq: "common st q = Some bq" using L(3) by blast
      have q0: "q \<noteq> 0" using q lists_repr_nonzero [OF assms(2), of l] by metis
      from set_next_spec [OF bq q0, of "next_of st p"] 2(2) have
        sq: "next_of s = (next_of st)(q := next_of st p)" "info s = info st" "head_of s = head_of st" by auto
      have dom: "dom (common s) = dom (common st)" using sq(2) by (simp add: dom_common_info)
      have d: "distinct (ys @ q # p # zs)" using L(2) [of l] 2(1) by simp
      have Gl: "?G l = ys @ q # zs" using d 2(1) by (simp add: remove1_mid)
      have "linked (next_of s) (head_of s k) (?G k)" for k
      proof (cases "k = l")
        case True
        have "linked (next_of st) (head_of st l) (ys @ q # p # zs)" using L(1) [of l] 2(1) by simp
        from linked_remove [OF this d] show ?thesis using True Gl sq by simp
      next
        case False
        then have "q \<notin> set (F k)" using dis [of k l] q by blast
        then show ?thesis using False L(1) [of k] sq by simp
      qed
      moreover have "distinct (?G k)" "set (?G k) \<subseteq> dom (common s)" for k
        using L(2) [of k] L(3) [of k] dom by (auto dest: set_mp [OF set_remove1_subset])
      moreover have "set (?G k) \<inter> set (?G k') = {}" if "k \<noteq> k'" for k k'
        using dis [OF that] set_remove1_subset [of p "F l"] by (cases "k = l"; cases "k' = l") auto
      ultimately show ?thesis using sq(2) unfolding lists_repr_def by blast
    qed
  qed
  then obtain bs where bs: "common s p = Some bs" using b by (metis info_None option.exhaust)
  from set_next_spec [OF bs assms(4), of 0] s(2) have
    e: "next_of st' = (next_of s)(p := 0)" "info st' = info s" "head_of st' = head_of s" by auto
  have dom: "dom (common st') = dom (common s)" using e(2) by (simp add: dom_common_info)
  have "lists_repr st' ?G"
    using mid pG unfolding lists_repr_def e dom by simp
  then show ?thesis using e(2) mid by simp
qed

lemma TCP_RMV_total:
  assumes "lists_repr st F" "common st p \<noteq> None" "p \<noteq> 0" "length (F l) \<le> pcb_fuel"
  shows "\<exists>st'. TCP_RMV st l p = Inr st'"
proof -
  from assms(2) obtain b where b: "common st p = Some b" by blast
  have L: "linked (next_of st) (head_of st l) (F l)" "distinct (F l)" "set (F l) \<subseteq> dom (common st)"
    using assms(1) by (simp_all add: lists_repr_def)
  obtain s where s: "(if head_of st l = p
            then rbind (get_common st p) (\<lambda>b. Inr (set_head st l (pcb_next b)))
            else rmv_loop pcb_fuel st p (head_of st l)) = Inr s" "common s p \<noteq> None"
  proof (cases "head_of st l = p")
    case True
    then show ?thesis using that b assms(3) by (simp add: get_common_iff [THEN iffD2])
  next
    case False
    from rmv_loop_total [OF L(1,3) assms(3,2,4)] obtain s where r: "rmv_loop pcb_fuel st p (head_of st l) = Inr s" by blast
    from rmv_loop_cases [OF r L assms(3) _ assms(2)] False have "s = st \<or> (\<exists>q n. set_next st q n = Inr s \<and> q \<in> set (F l))"
      by fastforce
    then have "common s p \<noteq> None"
    proof
      assume "\<exists>q n. set_next st q n = Inr s \<and> q \<in> set (F l)"
      then obtain q n where q: "set_next st q n = Inr s" "q \<in> set (F l)" by blast
      then obtain bq where bq: "common st q = Some bq" using L(3) by blast
      have "q \<noteq> 0" using q(2) lists_repr_nonzero [OF assms(1), of l] by metis
      from set_next_spec [OF bq this, of n] q(1) have "info s = info st" by auto
      then show ?thesis using assms(2) by (metis info_None)
    qed (use assms(2) in simp)
    then show ?thesis using that r False by simp
  qed
  from s(2) obtain bs where bs: "common s p = Some bs" by blast
  from set_next_spec [OF bs assms(3), of 0] s(1) show ?thesis by (auto simp: TCP_RMV_def)
qed

section \<open>The interface of the lists\<close>

text \<open>
  What the rest of the module relies on: lists indexed by \<open>'l\<close>, to which blocks are added at the
  front and from which they are removed; \<open>inf\<close> is what else is known of a block, which neither
  changes.
\<close>

locale registry =
  fixes reg :: "'s \<Rightarrow> 'l \<Rightarrow> addr \<Rightarrow> 's res"
    and rmv :: "'s \<Rightarrow> 'l \<Rightarrow> addr \<Rightarrow> 's res"
    and repr :: "'s \<Rightarrow> ('l \<Rightarrow> addr list) \<Rightarrow> bool"
    and inf :: "'s \<Rightarrow> addr \<Rightarrow> 'i option"
  assumes reg_law: "repr s F \<Longrightarrow> inf s p \<noteq> None \<Longrightarrow> p \<noteq> 0 \<Longrightarrow> \<forall>k. p \<notin> set (F k) \<Longrightarrow>
      \<exists>s'. reg s l p = Inr s' \<and> repr s' (F(l := p # F l)) \<and> inf s' = inf s"
    and rmv_law: "rmv s l p = Inr s' \<Longrightarrow> repr s F \<Longrightarrow> inf s p \<noteq> None \<Longrightarrow> p \<noteq> 0 \<Longrightarrow>
      \<forall>k. k \<noteq> l \<longrightarrow> p \<notin> set (F k) \<Longrightarrow> repr s' (F(l := remove1 p (F l))) \<and> inf s' = inf s"
    and repr_distinct: "repr s F \<Longrightarrow> distinct (F l)"
    and repr_disjoint: "repr s F \<Longrightarrow> l \<noteq> l' \<Longrightarrow> set (F l) \<inter> set (F l') = {}"
    and repr_nonzero: "repr s F \<Longrightarrow> 0 \<notin> set (F l)"
    and repr_known: "repr s F \<Longrightarrow> p \<in> set (F l) \<Longrightarrow> inf s p \<noteq> None"
begin

lemma only_list:
  assumes "repr s F" "p \<in> set (F l)"
  shows "\<forall>k. k \<noteq> l \<longrightarrow> p \<notin> set (F k)"
  using repr_disjoint [OF assms(1)] assms(2) by blast

lemma rmv_gone:
  assumes "rmv s l p = Inr s'" "repr s F" "p \<in> set (F l)"
  shows "repr s' (F(l := remove1 p (F l)))" "inf s' = inf s" "\<forall>k. p \<notin> set ((F(l := remove1 p (F l))) k)"
proof -
  have p0: "p \<noteq> 0" using repr_nonzero [OF assms(2), of l] assms(3) by metis
  note o = only_list [OF assms(2,3)]
  from rmv_law [OF assms(1,2) repr_known [OF assms(2,3)] p0 o]
  show "repr s' (F(l := remove1 p (F l)))" "inf s' = inf s" by simp_all
  show "\<forall>k. p \<notin> set ((F(l := remove1 p (F l))) k)" using o repr_distinct [OF assms(2), of l] by auto
qed

lemma move:
  assumes "rmv s l p = Inr s1" "repr s F" "p \<in> set (F l)" "l \<noteq> k"
  shows "\<exists>s2. reg s1 k p = Inr s2 \<and> repr s2 (F(l := remove1 p (F l), k := p # F k)) \<and> inf s2 = inf s"
proof -
  have p0: "p \<noteq> 0" using repr_nonzero [OF assms(2), of l] assms(3) by metis
  note g = rmv_gone [OF assms(1-3)]
  have "inf s1 p \<noteq> None" using g(2) repr_known [OF assms(2,3)] by simp
  from reg_law [OF g(1) this p0 g(3), of k] g(2) assms(4) show ?thesis by (simp add: fun_upd_def)
qed

lemma reg_rmv:
  assumes "repr s F" "inf s p \<noteq> None" "p \<noteq> 0" "\<forall>k. p \<notin> set (F k)" "reg s l p = Inr s1" "rmv s1 l p = Inr s2"
  shows "repr s2 F" "inf s2 = inf s"
proof -
  from reg_law [OF assms(1-4), of l] assms(5) have r: "repr s1 (F(l := p # F l))" "inf s1 = inf s" by auto
  from rmv_gone(1,2) [OF assms(6) r(1), of] r(2) show "repr s2 F" "inf s2 = inf s" by simp_all
qed

end

interpretation pl: registry TCP_REG TCP_RMV lists_repr info
proof unfold_locales
  show "lists_repr s F \<Longrightarrow> info s p \<noteq> None \<Longrightarrow> p \<noteq> 0 \<Longrightarrow> \<forall>k. p \<notin> set (F k) \<Longrightarrow>
      \<exists>s'. TCP_REG s l p = Inr s' \<and> lists_repr s' (F(l := p # F l)) \<and> info s' = info s"
    for s :: "'a tcp_st_scheme" and F p l using TCP_REG_spec [of s F p l] by simp
  show "TCP_RMV s l p = Inr s' \<Longrightarrow> lists_repr s F \<Longrightarrow> info s p \<noteq> None \<Longrightarrow> p \<noteq> 0 \<Longrightarrow>
      \<forall>k. k \<noteq> l \<longrightarrow> p \<notin> set (F k) \<Longrightarrow> lists_repr s' (F(l := remove1 p (F l))) \<and> info s' = info s"
    for s s' :: "'a tcp_st_scheme" and F p l using TCP_RMV_spec [of s l p s' F] by simp
qed (auto simp: lists_reprD lists_repr_nonzero dest: lists_reprD)

end
