(* ===== verification/TcpFrame.thy ===== *)
theory TcpFrame
  imports Tcp TcpLists
begin

text \<open>
  What the operations of \<^verbatim>\<open>tcp_out.c\<close> and \<^verbatim>\<open>tcp.c\<close> leave alone. Sending on a connection changes the
  memory of the IP layer and the send side of that one block; the blocks' places in the lists, the
  other blocks and the other variables stay. The network interface is only assumed not to change
  the state of the TCP module (\<open>net_keeps\<close>).
\<close>

section \<open>The assumption on the network\<close>

definition net_keeps :: "('a tcp_st_scheme) ip_env \<Rightarrow> bool" where
  "net_keeps env \<longleftrightarrow>
     (\<forall>n p d st e st'. netif_output env n p d st = Inr (e, st') \<longrightarrow> ip_st.more st' = ip_st.more st) \<and>
     (\<forall>n p d st e st'. ip_frag env n p d st = Inr (e, st') \<longrightarrow> ip_st.more st' = ip_st.more st)"

lemma net_keeps_sample: "net_keeps sample_env"
  by (simp add: net_keeps_def sample_env_def)

lemma net_keepsD:
  "netif_output env n p d st = Inr (e, st') \<Longrightarrow> net_keeps env \<Longrightarrow> ip_st.more st' = ip_st.more st"
  "ip_frag env n p d st = Inr (e, st') \<Longrightarrow> net_keeps env \<Longrightarrow> ip_st.more st' = ip_st.more st"
  by (auto simp: net_keeps_def)

lemma ip_output_if_keeps:
  assumes "ip_output_if env st p src d ttl0 tos0 proto n = Inr (e, st')" "net_keeps env"
  shows "ip_st.more st' = ip_st.more st"
  using assms
  by (cases d) (auto simp: ip_output_if_def rbind_eq_Inr split: if_splits dest!: net_keepsD pbuf_keeps_ip)

lemma ip_output_keeps:
  "ip_output env st p src d ttl0 tos0 proto = Inr (e, st') \<Longrightarrow> net_keeps env \<Longrightarrow> ip_st.more st' = ip_st.more st"
  by (auto simp: ip_output_def rbind_eq_Inr split: if_splits dest!: ip_output_if_keeps)

lemma tcp_checksum_at_keeps: "tcp_checksum_at st h p src d = Inr st' \<Longrightarrow> ip_st.more st' = ip_st.more st"
  by (auto simp: tcp_checksum_at_def rbind_eq_Inr)

lemma tcp_send_packet_keeps:
  "tcp_send_packet env st p src d ttl0 tos0 = Inr st' \<Longrightarrow> net_keeps env \<Longrightarrow> ip_st.more st' = ip_st.more st"
  by (auto simp: tcp_send_packet_def rbind_eq_Inr dest!: ip_output_keeps tcp_checksum_at_keeps pbuf_keeps_ip)

lemma tcp_rst_keeps:
  "tcp_rst env st s a li ri lp rp = Inr st' \<Longrightarrow> net_keeps env \<Longrightarrow> ip_st.more st' = ip_st.more st"
  by (auto simp: tcp_rst_def rbind_eq_Inr split: if_splits dest!: tcp_send_packet_keeps pbuf_keeps_ip)

section \<open>The frame of sending\<close>

text \<open>A block without the members that sending changes.\<close>

definition out_core :: "tcp_pcb \<Rightarrow> tcp_pcb" where
  "out_core c = c\<lparr>local_ip := 0, pcb_flags := 0, rcv_ann_right_edge := 0, rtime := 0, rttest := 0, rtseq := 0,
     nrtx := 0, snd_nxt := 0, snd_lbb := 0, snd_buf := 0, snd_queuelen := 0, ssthresh := 0, cwnd := 0,
     unsent := [], unacked := []\<rparr>"

text \<open>Everything of the TCP state but these members of the block \<open>pcb\<close>.\<close>

definition pframe :: "addr \<Rightarrow> 'a tcp_st_scheme \<Rightarrow> _" where
  "pframe pcb st = (ip_st.more (st\<lparr>tcp_pcbs := (tcp_pcbs st)(pcb := None)\<rparr>),
     map_option out_core (tcp_pcbs st pcb))"

lemma pframe_more: "ip_st.more st' = ip_st.more st \<Longrightarrow> pframe p st' = pframe p st"
  by (cases st; cases st') (simp add: pframe_def)

lemma pframe_put_pcb [simp]:
  "tcp_pcbs st p = Some c \<Longrightarrow> out_core c' = out_core c \<Longrightarrow> pframe p (put_pcb st p c') = pframe p st"
  by (cases st) (simp add: pframe_def put_pcb_def fun_upd_def fun_eq_iff)

lemma pframe_upd_pcb:
  "upd_pcb st p f = Inr st' \<Longrightarrow> (\<And>c. out_core (f c) = out_core c) \<Longrightarrow> pframe p st' = pframe p st"
  by (auto simp: upd_pcb_def get_pcb_def rbind_eq_Inr pframe_put_pcb split: if_splits option.splits)

lemma pframe_fields [simp]:
  "pframe p (st\<lparr>bytes := m\<rparr>) = pframe p st" "pframe p (st\<lparr>pools := ps\<rparr>) = pframe p st"
  by (rule pframe_more, simp)+

lemma pframe_all: "ip_st.more st' = ip_st.more st \<Longrightarrow> \<forall>p. pframe p st' = pframe p st"
  by (intro allI pframe_more)

lemma get_pcb_iff: "get_pcb st p = Inr c \<longleftrightarrow> p \<noteq> 0 \<and> tcp_pcbs st p = Some c"
  by (auto simp: get_pcb_def split: option.splits)

lemma get_pcb_wp [wp]: "(\<And>c. p \<noteq> 0 \<Longrightarrow> tcp_pcbs st p = Some c \<Longrightarrow> P c) \<Longrightarrow> res_all P (get_pcb st p)"
  by (auto intro: res_allI simp: get_pcb_iff)

text \<open>Of what is read only the control flow depends; nothing has to be known of it.\<close>

lemmas read_wp [wp] =
  res_all_any [where r = "get_pbuf st p" for st p] res_all_any [where r = "get_netif st n" for st n]
  res_all_any [where r = "ip_route st d" for st d] res_all_any [where r = "tcp_eff_send_mss st m d" for st m d]
  res_all_any [where r = "rd32 m a" for m a] res_all_any [where r = "wr32 m a v" for m a v]
  res_all_any [where r = "wr16 m a v" for m a v] res_all_any [where r = "seg_seqno m s" for m s]
  res_all_any [where r = "TCP_TCPLEN m s" for m s] res_all_any [where r = "TCPH_FLAGS m h" for m h]
  res_all_any [where r = "TCPH_FLAGS_SET m h fl" for m h fl] res_all_any [where r = "TCPH_SET_FLAG m h fl" for m h fl]
  res_all_any [where r = "tcp_fill_header m h a b s k l fl w" for m h a b s k l fl w]
  res_all_any [where r = "insert_by_seqno m s g q" for m s g q] res_all_any [where r = "pbuf_clen st p" for st p]
  res_all_any [where r = "TCPH_HDRLEN_FLAGS_SET m h l fl" for m h l fl]

text \<open>Operations of the layers below.\<close>

lemma pframe_res: "res_all (\<lambda>x. ip_st.more (g x) = ip_st.more st) r \<Longrightarrow> res_all (\<lambda>x. \<forall>p. pframe p (g x) = pframe p st) r"
  by (erule res_all_weaken) (intro allI pframe_more)

lemma lower_wp:
  "res_all (\<lambda>x. ip_st.more (snd x) = ip_st.more st) (pbuf_free st p)"
  "res_all (\<lambda>x. ip_st.more (snd x) = ip_st.more st) (pbuf_alloc st l n t)"
  "res_all (\<lambda>x. ip_st.more (snd x) = ip_st.more st) (pbuf_header st p k)"
  "res_all (\<lambda>x. ip_st.more x = ip_st.more st) (pbuf_ref st p)"
  "res_all (\<lambda>x. ip_st.more x = ip_st.more st) (pbuf_cat st p q)"
  "res_all (\<lambda>x. ip_st.more x = ip_st.more st) (upd_pbuf st p f)"
  "res_all (\<lambda>x. ip_st.more (snd x) = ip_st.more st) (pbuf_copy_partial st p a n off)"
  "res_all (\<lambda>x. ip_st.more x = ip_st.more st) (tcp_seg_free st seg)"
  "res_all (\<lambda>x. ip_st.more x = ip_st.more st) (tcp_segs_free st segs)"
  "res_all (\<lambda>x. ip_st.more (snd x) = ip_st.more st) (tcp_create_segment st a p fl s opt)"
  "res_all (\<lambda>x. ip_st.more x = ip_st.more st) (tcp_checksum_at st h p src d)"
  by (rule res_allI; auto dest: pbuf_keeps_ip tcp_seg_free_keeps tcp_segs_free_keeps
      tcp_create_segment_keeps tcp_checksum_at_keeps)+

lemma net_wp:
  "net_keeps env \<Longrightarrow> res_all (\<lambda>x. ip_st.more (snd x) = ip_st.more st) (ip_output env st p src d ttl0 tos0 proto)"
  "net_keeps env \<Longrightarrow> res_all (\<lambda>x. ip_st.more x = ip_st.more st) (tcp_send_packet env st p src d ttl0 tos0)"
  "net_keeps env \<Longrightarrow> res_all (\<lambda>x. ip_st.more x = ip_st.more st) (tcp_rst env st s a li ri lp rp)"
  by (rule res_allI; auto dest: ip_output_keeps tcp_send_packet_keeps tcp_rst_keeps)+

lemmas lower_pframe [wp] =
  lower_wp [THEN pframe_res, THEN res_all_weaken] net_wp [THEN pframe_res, THEN res_all_weaken]

lemma upd_pcb_wp [wp]:
  "(\<And>c. out_core (f c) = out_core c) \<Longrightarrow> (\<And>st'. pframe p st' = pframe p st \<Longrightarrow> P st') \<Longrightarrow> res_all P (upd_pcb st p f)"
  by (rule res_allI) (simp add: pframe_upd_pcb)

section \<open>Sending\<close>

lemma tcp_output_alloc_header_frame: "res_all (\<lambda>x. pframe pcb (snd x) = pframe pcb st) (tcp_output_alloc_header st pcb ol dl s)"
  by (auto simp: tcp_output_alloc_header_def Let_def out_core_def intro!: wp)

lemmas tcp_output_alloc_header_wp [wp] = tcp_output_alloc_header_frame [THEN res_all_weaken]

lemma tcp_send_empty_ack_frame: "net_keeps env \<Longrightarrow> res_all (\<lambda>x. pframe pcb (snd x) = pframe pcb st) (tcp_send_empty_ack env st pcb)"
  by (auto simp: tcp_send_empty_ack_def Let_def out_core_def intro!: wp)

lemmas tcp_send_empty_ack_wp [wp] = tcp_send_empty_ack_frame [THEN res_all_weaken]

lemma tcp_keepalive_frame: "net_keeps env \<Longrightarrow> res_all (\<lambda>x. pframe pcb (x) = pframe pcb st) (tcp_keepalive env st pcb)"
  by (auto simp: tcp_keepalive_def Let_def out_core_def intro!: wp)

lemmas tcp_keepalive_wp [wp] = tcp_keepalive_frame [THEN res_all_weaken]

lemma tcp_zero_window_probe_frame: "net_keeps env \<Longrightarrow> res_all (\<lambda>x. pframe pcb (x) = pframe pcb st) (tcp_zero_window_probe env st pcb)"
  by (auto simp: tcp_zero_window_probe_def Let_def out_core_def intro!: wp split: list.split)

lemmas tcp_zero_window_probe_wp [wp] = tcp_zero_window_probe_frame [THEN res_all_weaken]

lemma tcp_output_segment_frame: "net_keeps env \<Longrightarrow> res_all (\<lambda>x. pframe pcb (x) = pframe pcb st) (tcp_output_segment env st seg pcb)"
  by (auto simp: tcp_output_segment_def Let_def out_core_def intro!: wp)

lemmas tcp_output_segment_wp [wp] = tcp_output_segment_frame [THEN res_all_weaken]

lemma queue_unacked_frame: "res_all (\<lambda>x. pframe pcb (snd x) = pframe pcb st) (queue_unacked st pcb seg u)"
  by (auto simp: queue_unacked_def Let_def out_core_def intro!: wp split: option.split)

lemmas queue_unacked_wp [wp] = queue_unacked_frame [THEN res_all_weaken]

lemma output_head_frame: "net_keeps env \<Longrightarrow> res_all (\<lambda>x. pframe pcb (snd x) = pframe pcb st) (output_head env st pcb seg u)"
  by (auto simp: output_head_def Let_def out_core_def intro!: wp)

lemmas output_head_wp [wp] = output_head_frame [THEN res_all_weaken]

lemma output_loop_frame:
  assumes "net_keeps env"
  shows "res_all (\<lambda>x. pframe pcb x = pframe pcb st) (output_loop fuel env st pcb wnd u)"
proof (induction fuel arbitrary: st u)
  case 0
  then show ?case by simp
next
  case (Suc fuel)
  note IH = Suc.IH [THEN res_all_weaken]
  show ?case using assms by (auto intro!: wp IH split: list.split)
qed

lemmas output_loop_wp [wp] = output_loop_frame [THEN res_all_weaken]

lemma tcp_output_frame: "net_keeps env \<Longrightarrow> res_all (\<lambda>x. pframe pcb (snd x) = pframe pcb st) (tcp_output env st pcb)"
  by (auto simp: tcp_output_def Let_def out_core_def intro!: wp split: list.split)

lemmas tcp_output_wp [wp] = tcp_output_frame [THEN res_all_weaken]

lemma tcp_rexmit_rto_frame: "net_keeps env \<Longrightarrow> res_all (\<lambda>x. pframe pcb (x) = pframe pcb st) (tcp_rexmit_rto env st pcb)"
  by (auto simp: tcp_rexmit_rto_def Let_def out_core_def intro!: wp)

lemmas tcp_rexmit_rto_wp [wp] = tcp_rexmit_rto_frame [THEN res_all_weaken]

lemma tcp_rexmit_frame: "res_all (\<lambda>x. pframe pcb (x) = pframe pcb st) (tcp_rexmit st pcb)"
  by (auto simp: tcp_rexmit_def Let_def out_core_def intro!: wp split: list.split)

lemmas tcp_rexmit_wp [wp] = tcp_rexmit_frame [THEN res_all_weaken]

lemma tcp_rexmit_fast_frame: "res_all (\<lambda>x. pframe pcb (x) = pframe pcb st) (tcp_rexmit_fast st pcb)"
  by (auto simp: tcp_rexmit_fast_def Let_def out_core_def intro!: wp)

lemmas tcp_rexmit_fast_wp [wp] = tcp_rexmit_fast_frame [THEN res_all_weaken]

lemma tcp_enqueue_flags_frame: "res_all (\<lambda>x. pframe pcb (snd x) = pframe pcb st) (tcp_enqueue_flags st pcb fl)"
  by (auto simp: tcp_enqueue_flags_def Let_def out_core_def intro!: wp split: option.split)

lemmas tcp_enqueue_flags_wp [wp] = tcp_enqueue_flags_frame [THEN res_all_weaken]

lemma tcp_send_fin_frame: "res_all (\<lambda>x. pframe pcb (snd x) = pframe pcb st) (tcp_send_fin st pcb)"
  by (auto simp: tcp_send_fin_def Let_def out_core_def intro!: wp)

lemmas tcp_send_fin_wp [wp] = tcp_send_fin_frame [THEN res_all_weaken]

end
