(* ===== verification/TcpInv.thy ===== *)
theory TcpInv
  imports TcpFrame
begin

text \<open>
  The axioms about the four lists that \<^verbatim>\<open>lwip/tcp_impl.h\<close> states, as an invariant of the state, and
  that the operations of \<^verbatim>\<open>tcp.c\<close> keep it.
\<close>

section \<open>The invariant\<close>

fun list_for :: "tcp_state \<Rightarrow> pcb_list" where
  "list_for CLOSED = L_bound"
| "list_for LISTEN = L_listen"
| "list_for TIME_WAIT = L_tw"
| "list_for _ = L_active"

text \<open>
  The abstract state: the set of blocks in each list, what is known of every block, and the listen
  blocks. A block is in the list of its state; only a closed block may be in no list, and a closed
  block that is in one has a port. Listen blocks are exactly the blocks in the state \<open>LISTEN\<close>.
\<close>

definition filed :: "(pcb_list \<Rightarrow> addr set) \<Rightarrow> addr \<Rightarrow> pcb_info \<Rightarrow> bool" where
  "filed S p i \<longleftrightarrow> (case i of (k, s, q) \<Rightarrow>
     (k \<longleftrightarrow> s = LISTEN) \<and> (s \<noteq> CLOSED \<longrightarrow> p \<in> S (list_for s)) \<and>
     (\<forall>l. p \<in> S l \<longrightarrow> l = list_for s \<and> (s = CLOSED \<longrightarrow> q \<noteq> 0)))"

definition wf_lists :: "(pcb_list \<Rightarrow> addr set) \<Rightarrow> (addr \<Rightarrow> pcb_info option) \<Rightarrow> addr set \<Rightarrow> bool" where
  "wf_lists S I D \<longleftrightarrow>
     (\<forall>p. p \<in> D \<longleftrightarrow> (\<exists>s q. I p = Some (True, s, q))) \<and> I 0 = None \<and>
     (\<forall>p i. I p = Some i \<longrightarrow> filed S p i) \<and> (\<forall>l p. p \<in> S l \<longrightarrow> I p \<noteq> None)"

definition vrel :: "'a tcp_st_scheme \<Rightarrow> (pcb_list \<Rightarrow> addr set) \<Rightarrow> (addr \<Rightarrow> pcb_info option) \<Rightarrow> addr set \<Rightarrow> bool" where
  "vrel st S I D \<longleftrightarrow> (\<exists>F. lists_repr st F \<and> S = (\<lambda>l. set (F l))) \<and> info st = I \<and> dom (tcp_lpcbs st) = D"

definition lists_inv :: "'a tcp_st_scheme \<Rightarrow> bool" where
  "lists_inv st \<longleftrightarrow> (\<exists>S I D. vrel st S I D \<and> wf_lists S I D)"

section \<open>Operations that change nothing of this\<close>

definition lview :: "'a tcp_st_scheme \<Rightarrow> _" where
  "lview st = (next_of st, head_of st, info st, dom (tcp_lpcbs st))"

lemma vrel_lview: "lview st' = lview st \<Longrightarrow> vrel st' S I D = vrel st S I D"
  by (simp add: vrel_def lview_def lists_repr_def dom_common_info)

lemma lists_inv_lview:
  assumes "lview st' = lview st"
  shows "lists_inv st' = lists_inv st"
  unfolding lists_inv_def vrel_lview [OF assms] ..

lemma head_of_cong:
  assumes "tcp_listen_pcbs st' = tcp_listen_pcbs st" "tcp_bound_pcbs st' = tcp_bound_pcbs st"
    "tcp_active_pcbs st' = tcp_active_pcbs st" "tcp_tw_pcbs st' = tcp_tw_pcbs st"
  shows "head_of st' = head_of st"
proof
  show "head_of st' l = head_of st l" for l by (cases l) (simp_all add: assms)
qed

lemma lview_cong:
  assumes "\<And>q. map_option (\<lambda>c. (pcb_next c, pcb_state c, local_port c)) (tcp_pcbs st' q)
             = map_option (\<lambda>c. (pcb_next c, pcb_state c, local_port c)) (tcp_pcbs st q)"
    and l: "tcp_lpcbs st' = tcp_lpcbs st"
    and h: "tcp_listen_pcbs st' = tcp_listen_pcbs st" "tcp_bound_pcbs st' = tcp_bound_pcbs st"
    "tcp_active_pcbs st' = tcp_active_pcbs st" "tcp_tw_pcbs st' = tcp_tw_pcbs st"
  shows "lview st' = lview st"
proof -
  have "next_of st' q = next_of st q \<and> info st' q = info st q" for q
    using assms(1) [of q] l
    by (cases "tcp_pcbs st q"; cases "tcp_pcbs st' q")
      (auto simp: next_of_def info_def common_def pcb_common.truncate_def)
  then have "next_of st' = next_of st" "info st' = info st" by (simp_all add: fun_eq_iff)
  then show ?thesis using l head_of_cong [OF h] by (simp add: lview_def)
qed

lemma pframe_fields_eq:
  assumes "pframe p st' = pframe p (st :: 'a tcp_st_scheme)"
  shows "q \<noteq> p \<Longrightarrow> tcp_pcbs st' q = tcp_pcbs st q"
    "map_option out_core (tcp_pcbs st' p) = map_option out_core (tcp_pcbs st p)"
    "tcp_lpcbs st' = tcp_lpcbs st" "tcp_listen_pcbs st' = tcp_listen_pcbs st"
    "tcp_bound_pcbs st' = tcp_bound_pcbs st" "tcp_active_pcbs st' = tcp_active_pcbs st"
    "tcp_tw_pcbs st' = tcp_tw_pcbs st" "tcp_ticks st' = tcp_ticks st" "tcp_timer_ctr st' = tcp_timer_ctr st"
    "tcp_active_pcbs_changed st' = tcp_active_pcbs_changed st" "tcp_input_pcb st' = tcp_input_pcb st"
    "tcp_st.more st' = tcp_st.more st"
proof -
  let ?e = "\<lambda>s :: 'a tcp_st_scheme. s\<lparr>tcp_pcbs := (tcp_pcbs s)(p := None)\<rparr>"
  have m: "ip_st.more (?e st') = ip_st.more (?e st)" and
    c: "map_option out_core (tcp_pcbs st' p) = map_option out_core (tcp_pcbs st p)"
    using assms by (simp_all add: pframe_def)
  note f = tcp_fields_cong [OF m, simplified]
  show "q \<noteq> p \<Longrightarrow> tcp_pcbs st' q = tcp_pcbs st q" using fun_cong [OF f(1), of q] by simp
  show "map_option out_core (tcp_pcbs st' p) = map_option out_core (tcp_pcbs st p)" by (rule c)
  show "tcp_lpcbs st' = tcp_lpcbs st" "tcp_listen_pcbs st' = tcp_listen_pcbs st"
    "tcp_bound_pcbs st' = tcp_bound_pcbs st" "tcp_active_pcbs st' = tcp_active_pcbs st"
    "tcp_tw_pcbs st' = tcp_tw_pcbs st" "tcp_ticks st' = tcp_ticks st" "tcp_timer_ctr st' = tcp_timer_ctr st"
    "tcp_active_pcbs_changed st' = tcp_active_pcbs_changed st" "tcp_input_pcb st' = tcp_input_pcb st"
    "tcp_st.more st' = tcp_st.more st"
    using f by auto
qed

lemma lview_pframe:
  assumes "pframe p st' = pframe p st"
  shows "lview st' = lview st"
proof (rule lview_cong)
  note f = pframe_fields_eq [OF assms]
  let ?k = "\<lambda>c :: tcp_pcb. (pcb_next c, pcb_state c, local_port c)"
  have k: "?k = ?k \<circ> out_core" by (auto simp: out_core_def)
  show "map_option ?k (tcp_pcbs st' q) = map_option ?k (tcp_pcbs st q)" for q
  proof (cases "q = p")
    case True
    have "map_option ?k (map_option out_core (tcp_pcbs st' p)) = map_option ?k (map_option out_core (tcp_pcbs st p))"
      using f(2) by simp
    then show ?thesis using True by (simp only: option.map_comp k [symmetric])
  qed (use f(1) in simp)
qed (use pframe_fields_eq [OF assms] in simp_all)

lemma lview_more: "ip_st.more st' = ip_st.more st \<Longrightarrow> lview st' = lview st"
  by (rule lview_pframe [OF pframe_more])

lemma lview_put_pcb:
  "tcp_pcbs st p = Some c \<Longrightarrow> pcb_next c' = pcb_next c \<Longrightarrow> pcb_state c' = pcb_state c \<Longrightarrow>
   local_port c' = local_port c \<Longrightarrow> lview (put_pcb st p c') = lview st"
  by (rule lview_cong) simp_all

lemma lview_simps [simp]:
  "lview (st\<lparr>bytes := a1\<rparr>) = lview st" "lview (st\<lparr>pools := a2\<rparr>) = lview st"
  "lview (st\<lparr>tcp_active_pcbs_changed := a3\<rparr>) = lview st" "lview (st\<lparr>tcp_port := a4\<rparr>) = lview st"
  "lview (st\<lparr>tcp_ticks := a5\<rparr>) = lview st" "lview (st\<lparr>tcp_timer := a6\<rparr>) = lview st"
  "lview (st\<lparr>tcp_timer_ctr := a7\<rparr>) = lview st" "lview (st\<lparr>tcp_iss := a8\<rparr>) = lview st"
  "lview (st\<lparr>tcp_input_pcb := a9\<rparr>) = lview st"
  by (rule lview_cong; simp)+

lemma lview_upd_pcb:
  assumes "\<And>c. pcb_next (f c) = pcb_next c \<and> pcb_state (f c) = pcb_state c \<and> local_port (f c) = local_port c"
  shows "res_all (\<lambda>x. lview x = lview st) (upd_pcb st p f)"
  using assms by (auto simp: upd_pcb_def lview_put_pcb intro!: get_pcb_wp)

section \<open>Operations that move blocks\<close>

lemma set_next_lpcbs: "set_next st p n = Inr st' \<Longrightarrow> dom (tcp_lpcbs st') = dom (tcp_lpcbs st)"
  by (auto simp: set_next_def upd_common_def split: if_splits option.splits)

lemma rmv_loop_lpcbs: "rmv_loop fuel st p t = Inr st' \<Longrightarrow> dom (tcp_lpcbs st') = dom (tcp_lpcbs st)"
proof (induction fuel arbitrary: t)
  case 0
  then show ?case by (simp split: if_splits)
next
  case (Suc fuel)
  from Suc.prems show ?case
    by (clarsimp simp: rbind_eq_Inr split: if_splits) (blast dest: set_next_lpcbs Suc.IH)+
qed

lemma TCP_RMV_lpcbs: "TCP_RMV st l p = Inr st' \<Longrightarrow> dom (tcp_lpcbs st') = dom (tcp_lpcbs st)"
  by (clarsimp simp: TCP_RMV_def rbind_eq_Inr split: if_splits dest!: set_next_lpcbs rmv_loop_lpcbs)

lemma TCP_REG_lpcbs: "TCP_REG st l p = Inr st' \<Longrightarrow> dom (tcp_lpcbs st') = dom (tcp_lpcbs st)"
  by (clarsimp simp: TCP_REG_def rbind_eq_Inr dest!: set_next_lpcbs)

lemma TCP_RMV_vrel:
  assumes "vrel st S I D" "I p \<noteq> None" "p \<noteq> 0" "\<forall>k. k \<noteq> l \<longrightarrow> p \<notin> S k"
  shows "res_all (\<lambda>x. vrel x (S(l := S l - {p})) I D) (TCP_RMV st l p)"
proof (rule res_allI)
  fix x
  assume r: "TCP_RMV st l p = Inr x"
  from assms(1) obtain F where F: "lists_repr st F" "S = (\<lambda>l. set (F l))" "info st = I" "dom (tcp_lpcbs st) = D"
    by (auto simp: vrel_def)
  have "lists_repr x (F(l := remove1 p (F l))) \<and> info x = info st"
    by (rule pl.rmv_law [OF r F(1)]) (use assms F in auto)
  moreover have "S(l := S l - {p}) = (\<lambda>k. set ((F(l := remove1 p (F l))) k))"
    using lists_reprD(2) [OF F(1), of l] F(2) by (auto simp: fun_eq_iff)
  ultimately show "vrel x (S(l := S l - {p})) I D" using F(3,4) TCP_RMV_lpcbs [OF r] unfolding vrel_def by auto
qed

lemma TCP_REG_vrel:
  assumes "vrel st S I D" "I p \<noteq> None" "p \<noteq> 0" "\<forall>k. p \<notin> S k"
  shows "res_all (\<lambda>x. vrel x (S(l := insert p (S l))) I D) (TCP_REG st l p)"
proof (rule res_allI)
  fix x
  assume r: "TCP_REG st l p = Inr x"
  from assms(1) obtain F where F: "lists_repr st F" "S = (\<lambda>l. set (F l))" "info st = I" "dom (tcp_lpcbs st) = D"
    by (auto simp: vrel_def)
  have "\<exists>y. TCP_REG st l p = Inr y \<and> lists_repr y (F(l := p # F l)) \<and> info y = info st"
    by (rule pl.reg_law [OF F(1)]) (use assms F in auto)
  with r have "lists_repr x (F(l := p # F l))" "info x = info st" by auto
  moreover have "S(l := insert p (S l)) = (\<lambda>k. set ((F(l := p # F l)) k))" using F(2) by (auto simp: fun_eq_iff)
  ultimately show "vrel x (S(l := insert p (S l))) I D" using F(3,4) TCP_REG_lpcbs [OF r] unfolding vrel_def by auto
qed

lemma info_eq:
  "info st p = (case tcp_pcbs st p of Some c \<Rightarrow> Some (False, pcb_state c, local_port c)
     | None \<Rightarrow> (case tcp_lpcbs st p of Some b \<Rightarrow> Some (True, pcb_state b, local_port b) | None \<Rightarrow> None))"
  by (auto simp: info_def common_def pcb_common.truncate_def split: option.splits)

lemma next_of_eq:
  "next_of st p = (case tcp_pcbs st p of Some c \<Rightarrow> pcb_next c
     | None \<Rightarrow> (case tcp_lpcbs st p of Some b \<Rightarrow> pcb_next b | None \<Rightarrow> 0))"
  by (auto simp: next_of_def common_def pcb_common.truncate_def split: option.splits)

text \<open>A change of one block that keeps its kind and its \<open>next\<close>.\<close>

lemma vrel_change:
  assumes "vrel st S I D" "I p \<noteq> None" "info st' = I(p \<mapsto> i)" "next_of st' = next_of st" "head_of st' = head_of st"
    "dom (tcp_lpcbs st') = dom (tcp_lpcbs st)"
  shows "vrel st' S (I(p \<mapsto> i)) D"
proof -
  have "dom (common st') = dom (common st)"
    using assms(1-3) by (auto simp: dom_common_info vrel_def)
  with assms show ?thesis unfolding vrel_def by (auto simp: lists_repr_def)
qed

lemma upd_common_vrel:
  assumes "vrel st S I D" "I p = Some (k, s, q)"
    and f: "\<And>c. pcb_next (f c) = pcb_next c" "\<And>c. pcb_next (g c) = pcb_next c"
      "\<And>c. pcb_state c = s \<Longrightarrow> local_port c = q \<Longrightarrow> pcb_state (f c) = s' \<and> local_port (f c) = q'"
      "\<And>c. pcb_state c = s \<Longrightarrow> local_port c = q \<Longrightarrow> pcb_state (g c) = s' \<and> local_port (g c) = q'"
  shows "res_all (\<lambda>x. vrel x S (I(p \<mapsto> (k, s', q'))) D) (upd_common st p f g)"
proof (rule res_allI)
  fix x
  assume u: "upd_common st p f g = Inr x"
  have I: "info st = I" using assms(1) by (simp add: vrel_def)
  show "vrel x S (I(p \<mapsto> (k, s', q'))) D"
  proof (cases "tcp_pcbs st p")
    case (Some c)
    with u have x: "x = st\<lparr>tcp_pcbs := (tcp_pcbs st)(p \<mapsto> f c)\<rparr>" by (simp add: upd_common_def split: if_splits)
    have c: "k = False" "pcb_state c = s" "local_port c = q"
      using assms(2) Some unfolding I [symmetric] by (simp_all add: info_eq)
    have "info x r = (if r = p then Some (k, s', q') else info st r)" "next_of x r = next_of st r" for r
      using f(1) [of c] f(3) [OF c(2,3)] c(1) Some unfolding x
      by (simp_all add: info_eq next_of_eq split: option.split)
    then have "info x = I(p \<mapsto> (k, s', q'))" "next_of x = next_of st" using I by (auto simp: fun_eq_iff)
    moreover have "head_of x = head_of st" by (rule head_of_cong) (simp_all add: x)
    ultimately show ?thesis using assms(1,2) by (intro vrel_change) (simp_all add: x)
  next
    case None
    with u obtain c where c: "tcp_lpcbs st p = Some c" "x = st\<lparr>tcp_lpcbs := (tcp_lpcbs st)(p \<mapsto> g c)\<rparr>"
      by (auto simp: upd_common_def split: if_splits option.splits)
    have k: "k = True" "pcb_state c = s" "local_port c = q"
      using assms(2) None c(1) unfolding I [symmetric] by (simp_all add: info_eq)
    have "info x r = (if r = p then Some (k, s', q') else info st r)" "next_of x r = next_of st r" for r
      using f(2) [of c] f(4) [OF k(2,3)] k(1) None c(1) unfolding c(2)
      by (simp_all add: info_eq next_of_eq split: option.split)
    then have "info x = I(p \<mapsto> (k, s', q'))" "next_of x = next_of st" using I by (auto simp: fun_eq_iff)
    moreover have "dom (tcp_lpcbs x) = dom (tcp_lpcbs st)" using c by auto
    moreover have "head_of x = head_of st" by (rule head_of_cong) (simp_all add: c(2))
    ultimately show ?thesis using assms(1,2) by (intro vrel_change) simp_all
  qed
qed

lemma set_state_vrel:
  "vrel st S I D \<Longrightarrow> I p = Some (k, s0, q) \<Longrightarrow> res_all (\<lambda>x. vrel x S (I(p \<mapsto> (k, s, q))) D) (set_state st p s)"
  unfolding set_state_def by (rule upd_common_vrel) simp_all

lemma vrel_free:
  assumes "vrel st S I D" "\<forall>k. p \<notin> S k" "info st' = I(p := None)" "next_of st' = (next_of st)(p := 0)"
    "head_of st' = head_of st" "dom (tcp_lpcbs st') = D'"
  shows "vrel st' S (I(p := None)) D'"
proof -
  from assms(1) obtain F where F: "lists_repr st F" "S = (\<lambda>l. set (F l))" "info st = I" by (auto simp: vrel_def)
  have pF: "p \<notin> set (F l)" for l using assms(2) F(2) by simp
  have "dom (common st') = dom (common st) - {p}" using assms(3) F(3) by (simp add: dom_common_info)
  then have "lists_repr st' F" using F(1) pF unfolding lists_repr_def assms(4,5) by auto
  then show ?thesis using F(2) assms(3,6) unfolding vrel_def by blast
qed

lemma free_pcb_vrel:
  assumes "vrel st S I D" "\<forall>k. p \<notin> S k" "p \<notin> D"
  shows "vrel (free_pcb st p) S (I(p := None)) D"
proof (rule vrel_free [OF assms(1,2)])
  have I: "info st = I" "dom (tcp_lpcbs st) = D" using assms(1) by (auto simp: vrel_def)
  have l: "tcp_lpcbs st p = None" using I(2) assms(3) by auto
  have "info (free_pcb st p) r = (if r = p then None else info st r)"
    "next_of (free_pcb st p) r = (if r = p then 0 else next_of st r)" for r
    using l by (simp_all add: info_eq next_of_eq free_pcb_def split: option.split)
  then show "info (free_pcb st p) = I(p := None)" "next_of (free_pcb st p) = (next_of st)(p := 0)"
    using I(1) by (auto simp: fun_eq_iff)
  show "head_of (free_pcb st p) = head_of st" by (rule head_of_cong) (simp_all add: free_pcb_def)
  show "dom (tcp_lpcbs (free_pcb st p)) = D" using I(2) by (simp add: free_pcb_def)
qed

lemma free_lpcb_vrel:
  assumes "vrel st S I D" "\<forall>k. p \<notin> S k" "I p = Some (True, s, q)"
  shows "vrel (free_lpcb st p) S (I(p := None)) (D - {p})"
proof (rule vrel_free [OF assms(1,2)])
  have I: "info st = I" "dom (tcp_lpcbs st) = D" using assms(1) by (auto simp: vrel_def)
  have l: "tcp_pcbs st p = None" using assms(3) I(1) by (auto simp: info_eq split: option.splits)
  have "info (free_lpcb st p) r = (if r = p then None else info st r)"
    "next_of (free_lpcb st p) r = (if r = p then 0 else next_of st r)" for r
    using l by (simp_all add: info_eq next_of_eq free_lpcb_def split: option.split)
  then show "info (free_lpcb st p) = I(p := None)" "next_of (free_lpcb st p) = (next_of st)(p := 0)"
    using I(1) by (auto simp: fun_eq_iff)
  show "head_of (free_lpcb st p) = head_of st" by (rule head_of_cong) (simp_all add: free_lpcb_def)
  show "dom (tcp_lpcbs (free_lpcb st p)) = D - {p}" using I(2) by (simp add: free_lpcb_def)
qed

section \<open>Rules for the abstract state\<close>

named_theorems vwp \<open>rules for \<open>res_all\<close> over the abstract state\<close>

lemma get_common_vwp [vwp]:
  assumes "vrel st S I D"
    and "\<And>b k. get_common st p = Inr b \<Longrightarrow> p \<noteq> 0 \<Longrightarrow> k = (tcp_pcbs st p = None) \<Longrightarrow>
           I p = Some (k, pcb_state b, local_port b) \<Longrightarrow> P b"
  shows "res_all P (get_common st p)"
proof (rule res_allI)
  fix b
  assume g: "get_common st p = Inr b"
  then have "p \<noteq> 0" "common st p = Some b" by (simp_all add: get_common_iff)
  then have "info st p = Some (tcp_pcbs st p = None, pcb_state b, local_port b)" by (simp add: info_def)
  with assms(1) have "I p = Some (tcp_pcbs st p = None, pcb_state b, local_port b)" by (simp add: vrel_def)
  with assms(2) [OF g \<open>p \<noteq> 0\<close> refl] show "P b" by simp
qed

lemma get_pcb_vwp [vwp]:
  assumes "vrel st S I D"
    and "\<And>c. tcp_pcbs st p = Some c \<Longrightarrow> p \<noteq> 0 \<Longrightarrow> I p = Some (False, pcb_state c, local_port c) \<Longrightarrow> P c"
  shows "res_all P (get_pcb st p)"
proof (rule get_pcb_wp)
  fix c
  assume c: "p \<noteq> 0" "tcp_pcbs st p = Some c"
  then have "info st p = Some (False, pcb_state c, local_port c)" by (simp add: info_eq)
  with assms c show "P c" by (simp add: vrel_def)
qed

lemma vwp_lview:
  assumes "res_all (\<lambda>x. lview (g x) = lview st) r" "vrel st S I D" "\<And>x. vrel (g x) S I D \<Longrightarrow> P x"
  shows "res_all P r"
  by (rule res_all_weaken [OF assms(1)]) (use assms(2,3) vrel_lview in blast)

lemma lview_of_more: "res_all (\<lambda>x. ip_st.more (g x) = ip_st.more st) r \<Longrightarrow> res_all (\<lambda>x. lview (g x) = lview st) r"
  by (erule res_all_weaken) (rule lview_more)

lemma lview_of_pframe: "res_all (\<lambda>x. pframe p (g x) = pframe p st) r \<Longrightarrow> res_all (\<lambda>x. lview (g x) = lview st) r"
  by (erule res_all_weaken) (rule lview_pframe)

lemmas lower_vwp [vwp] =
  lower_wp [THEN lview_of_more, THEN vwp_lview]
  tcp_enqueue_flags_frame [THEN lview_of_pframe, THEN vwp_lview]
  tcp_send_fin_frame [THEN lview_of_pframe, THEN vwp_lview]

text \<open>The operations that use the network.\<close>

lemma net_vwp [vwp]:
  assumes "vrel st S I D" "net_keeps env"
  shows "(\<And>x. vrel x S I D \<Longrightarrow> P x) \<Longrightarrow> res_all P (tcp_rst env st s a li ri lp rp)"
    "(\<And>x. vrel (snd x) S I D \<Longrightarrow> Q x) \<Longrightarrow> res_all Q (tcp_output env st p)"
    "(\<And>x. vrel x S I D \<Longrightarrow> P x) \<Longrightarrow> res_all P (tcp_rexmit_rto env st p)"
    "(\<And>x. vrel x S I D \<Longrightarrow> P x) \<Longrightarrow> res_all P (tcp_keepalive env st p)"
    "(\<And>x. vrel x S I D \<Longrightarrow> P x) \<Longrightarrow> res_all P (tcp_zero_window_probe env st p)"
  using net_wp(3) [OF assms(2), THEN lview_of_more, THEN vwp_lview, OF assms(1), of P s a li ri lp rp]
    tcp_output_frame [OF assms(2), THEN lview_of_pframe, THEN vwp_lview, OF assms(1), of Q p]
    tcp_rexmit_rto_frame [OF assms(2), THEN lview_of_pframe, THEN vwp_lview, OF assms(1), of P p]
    tcp_keepalive_frame [OF assms(2), THEN lview_of_pframe, THEN vwp_lview, OF assms(1), of P p]
    tcp_zero_window_probe_frame [OF assms(2), THEN lview_of_pframe, THEN vwp_lview, OF assms(1), of P p]
  by blast+

lemma upd_pcb_vwp [vwp]:
  assumes "vrel st S I D"
    and "\<And>c. pcb_next (f c) = pcb_next c \<and> pcb_state (f c) = pcb_state c \<and> local_port (f c) = local_port c"
    and "\<And>x. vrel x S I D \<Longrightarrow> P x"
  shows "res_all P (upd_pcb st p f)"
  by (rule vwp_lview [OF lview_upd_pcb [OF assms(2)] assms(1) assms(3)])

lemmas TCP_RMV_vwp [vwp] = TCP_RMV_vrel [THEN res_all_weaken]
lemmas TCP_REG_vwp [vwp] = TCP_REG_vrel [THEN res_all_weaken]
lemmas set_state_vwp [vwp] = set_state_vrel [THEN res_all_weaken]

lemma vrel_simps [simp]:
  "vrel (st\<lparr>bytes := a1\<rparr>) = vrel st" "vrel (st\<lparr>pools := a2\<rparr>) = vrel st"
  "vrel (st\<lparr>tcp_active_pcbs_changed := a3\<rparr>) = vrel st" "vrel (st\<lparr>tcp_port := a4\<rparr>) = vrel st"
  "vrel (st\<lparr>tcp_ticks := a5\<rparr>) = vrel st" "vrel (st\<lparr>tcp_timer := a6\<rparr>) = vrel st"
  "vrel (st\<lparr>tcp_timer_ctr := a7\<rparr>) = vrel st" "vrel (st\<lparr>tcp_iss := a8\<rparr>) = vrel st"
  "vrel (st\<lparr>tcp_input_pcb := a9\<rparr>) = vrel st"
  by (intro ext vrel_lview; simp)+

lemma vrel_put_pcb [simp]:
  "tcp_pcbs st p = Some c \<Longrightarrow> pcb_next c' = pcb_next c \<Longrightarrow> pcb_state c' = pcb_state c \<Longrightarrow>
   local_port c' = local_port c \<Longrightarrow> vrel (put_pcb st p c') = vrel st"
  by (intro ext vrel_lview lview_put_pcb)

lemma tcp_pcb_purge_vrel: "vrel st S I D \<Longrightarrow> res_all (\<lambda>x. vrel x S I D) (tcp_pcb_purge st p)"
  unfolding tcp_pcb_purge_def
  by (clarsimp | intro conjI impI | assumption | (rule vwp, (simp; fail), assumption?))+

lemmas tcp_pcb_purge_vwp [vwp] = tcp_pcb_purge_vrel [THEN res_all_weaken]

lemma tcp_pcb_remove_vrel:
  "vrel st S I D \<Longrightarrow> I p = Some (k, s, q) \<Longrightarrow> p \<noteq> 0 \<Longrightarrow> \<forall>k. k \<noteq> l \<longrightarrow> p \<notin> S k \<Longrightarrow> net_keeps env \<Longrightarrow>
   res_all (\<lambda>x. vrel x (S(l := S l - {p})) (I(p \<mapsto> (k, CLOSED, q))) D) (tcp_pcb_remove env st l p)"
  unfolding tcp_pcb_remove_def
  by (clarsimp | intro conjI impI | assumption | (rule vwp, (simp; fail), assumption?))+

section \<open>The operations keep the invariant\<close>

lemma lists_invI: "vrel st S I D \<Longrightarrow> wf_lists S I D \<Longrightarrow> lists_inv st"
  by (auto simp: lists_inv_def)

text \<open>The moves of the abstract state.\<close>

lemma wf_filed: "wf_lists S I D \<Longrightarrow> I p = Some i \<Longrightarrow> filed S p i"
  unfolding wf_lists_def by blast

lemma wf_conn_D: "wf_lists S I D \<Longrightarrow> I p = Some (False, s, q) \<Longrightarrow> p \<notin> D"
  by (simp add: wf_lists_def)

lemma wf_nonzero: "wf_lists S I D \<Longrightarrow> I p = Some i \<Longrightarrow> p \<noteq> 0"
  by (auto simp: wf_lists_def intro: gr0I)

lemma wf_fresh: "wf_lists S I D \<Longrightarrow> I p = None \<Longrightarrow> p \<notin> S l"
  unfolding wf_lists_def by blast

lemma wf_fresh_D: "wf_lists S I D \<Longrightarrow> I p = None \<Longrightarrow> p \<notin> D"
  unfolding wf_lists_def by simp

lemma filed_cong: "(\<And>l. p \<in> S' l \<longleftrightarrow> p \<in> S l) \<Longrightarrow> filed S' p i = filed S p i"
  by (simp add: filed_def)

text \<open>A step that concerns only the block \<open>p\<close>.\<close>

lemma wf_step:
  assumes "wf_lists S I D" "\<And>x l. x \<noteq> p \<Longrightarrow> x \<in> S' l \<longleftrightarrow> x \<in> S l" "\<And>x. x \<noteq> p \<Longrightarrow> x \<in> D' \<longleftrightarrow> x \<in> D"
    and "case i of None \<Rightarrow> p \<notin> D' \<and> (\<forall>l. p \<notin> S' l)
         | Some (k, s, q) \<Rightarrow> p \<noteq> 0 \<and> (p \<in> D' \<longleftrightarrow> k) \<and> filed S' p (k, s, q)"
  shows "wf_lists S' (I(p := i)) D'"
proof -
  have w: "\<And>x. x \<in> D \<longleftrightarrow> (\<exists>s q. I x = Some (True, s, q))" "I 0 = None"
    "\<And>x j. I x = Some j \<Longrightarrow> filed S x j" "\<And>l x. x \<in> S l \<Longrightarrow> I x \<noteq> None"
    using assms(1) unfolding wf_lists_def by blast+
  have f: "filed S' x j" if "I x = Some j" "x \<noteq> p" for x j
    using w(3) [OF that(1)] filed_cong [of x S' S j] assms(2) [OF that(2)] by simp
  have p: "p \<in> D' \<longleftrightarrow> (\<exists>s q. i = Some (True, s, q))" "\<And>j. i = Some j \<Longrightarrow> p \<noteq> 0 \<and> filed S' p j"
    "\<And>l. p \<in> S' l \<Longrightarrow> i \<noteq> None"
    using assms(4) by (auto split: option.splits)
  show ?thesis
    unfolding wf_lists_def
  proof (intro conjI allI impI)
    show "x \<in> D' \<longleftrightarrow> (\<exists>s q. (I(p := i)) x = Some (True, s, q))" for x
      using p(1) w(1) [of x] assms(3) [of x] by (cases "x = p") simp_all
    show "(I(p := i)) 0 = None" using p(2) w(2) by (cases i) auto
    show "filed S' x j" if "(I(p := i)) x = Some j" for x j
      using that p(2) f by (cases "x = p") simp_all
    show "(I(p := i)) x \<noteq> None" if "x \<in> S' l" for x l
      using that p(3) w(4) assms(2) by (cases "x = p") simp_all
  qed
qed

lemma filed_here: "filed S p (k, s, q) \<Longrightarrow> s \<noteq> CLOSED \<Longrightarrow> p \<in> S (list_for s)"
  by (simp add: filed_def)

lemma filed_only: "filed S p (k, s, q) \<Longrightarrow> l \<noteq> list_for s \<Longrightarrow> p \<notin> S l"
  by (auto simp: filed_def)

lemma TCP_RMV_ACTIVE_vrel:
  "vrel st S I D \<Longrightarrow> I p \<noteq> None \<Longrightarrow> p \<noteq> 0 \<Longrightarrow> \<forall>k. k \<noteq> L_active \<longrightarrow> p \<notin> S k \<Longrightarrow>
   res_all (\<lambda>x. vrel x (S(L_active := S L_active - {p})) I D) (TCP_RMV_ACTIVE st p)"
  unfolding TCP_RMV_ACTIVE_def by (clarsimp | assumption | (rule vwp, (simp; fail), assumption?))+

lemma TCP_REG_ACTIVE_vrel:
  "vrel st S I D \<Longrightarrow> I p \<noteq> None \<Longrightarrow> p \<noteq> 0 \<Longrightarrow> \<forall>k. p \<notin> S k \<Longrightarrow>
   res_all (\<lambda>x. vrel x (S(L_active := insert p (S L_active))) I D) (TCP_REG_ACTIVE st p)"
  unfolding TCP_REG_ACTIVE_def by (clarsimp | assumption | (rule vwp, (simp; fail), assumption?))+

lemma TCP_PCB_REMOVE_ACTIVE_vrel:
  "vrel st S I D \<Longrightarrow> I p = Some (k, s, q) \<Longrightarrow> p \<noteq> 0 \<Longrightarrow> \<forall>k. k \<noteq> L_active \<longrightarrow> p \<notin> S k \<Longrightarrow> net_keeps env \<Longrightarrow>
   res_all (\<lambda>x. vrel x (S(L_active := S L_active - {p})) (I(p \<mapsto> (k, CLOSED, q))) D) (TCP_PCB_REMOVE_ACTIVE env st p)"
  unfolding TCP_PCB_REMOVE_ACTIVE_def res_all_simps
  by (rule tcp_pcb_remove_vrel [THEN res_all_weaken]) simp_all

lemmas remove_vwp [vwp] = TCP_RMV_ACTIVE_vrel [THEN res_all_weaken] TCP_REG_ACTIVE_vrel [THEN res_all_weaken]

lemma lists_inv_free:
  assumes "vrel st S I D" "\<forall>k. p \<notin> S k" "p \<notin> D" "wf_lists S (I(p := None)) D"
  shows "lists_inv (free_pcb st p)"
  by (rule lists_invI [OF free_pcb_vrel [OF assms(1-3)] assms(4)])

lemma lists_inv_free_lpcb:
  assumes "vrel st S I D" "\<forall>k. p \<notin> S k" "I p = Some (True, s, q)" "wf_lists S (I(p := None)) (D - {p})"
  shows "lists_inv (free_lpcb st p)"
  by (rule lists_invI [OF free_lpcb_vrel [OF assms(1-3)] assms(4)])

lemma close_with_rst_inv:
  "vrel st S I D \<Longrightarrow> wf_lists S I D \<Longrightarrow> I p = Some (False, s, q) \<Longrightarrow> list_for s = L_active \<Longrightarrow> net_keeps env \<Longrightarrow>
   res_all lists_inv (close_with_rst env st p c)"
  unfolding close_with_rst_def
  apply (frule wf_filed, assumption, frule wf_nonzero, assumption, frule wf_conn_D, assumption)
  apply (clarsimp simp: filed_only | intro conjI impI | assumption | (rule vwp, (simp; fail), assumption?))+
  subgoal by (rule lists_invI, assumption, rule wf_step, assumption) (auto simp: filed_def)
  subgoal by (rule lists_inv_free, assumption, simp add: filed_only, simp, rule wf_step, assumption) (auto simp: filed_def)
  done

lemma close_with_fin_inv:
  "vrel st S I D \<Longrightarrow> wf_lists S I D \<Longrightarrow> I p = Some (False, s, q) \<Longrightarrow> list_for s = L_active \<Longrightarrow> list_for s' = L_active \<Longrightarrow>
   net_keeps env \<Longrightarrow> res_all (\<lambda>x. lists_inv (snd x)) (close_with_fin env st p s')"
  unfolding close_with_fin_def
  apply (frule wf_filed, assumption, frule wf_nonzero, assumption, frule wf_conn_D, assumption)
  apply (clarsimp simp: filed_only | intro conjI impI | assumption | (rule vwp, (simp; fail), assumption?))+
  subgoal by (rule lists_invI, assumption, rule wf_step, assumption) (auto simp: filed_def)
  subgoal by (rule lists_invI)
  done


lemma filed_not_in: "filed S p (k, CLOSED, 0) \<Longrightarrow> p \<notin> S l"
  by (auto simp: filed_def)

lemma close_closed_inv:
  assumes "vrel st S I D" "wf_lists S I D" "I p = Some (False, CLOSED, q)"
  shows "res_all (\<lambda>x. lists_inv (free_pcb x p)) (if q \<noteq> 0 then TCP_RMV st L_bound p else Inr st)"
proof -
  note f = wf_filed [OF assms(2,3)] and p0 = wf_nonzero [OF assms(2,3)] and pD = wf_conn_D [OF assms(2,3)]
  have "lists_inv (free_pcb x p)" if "vrel x (S(L_bound := S L_bound - {p})) I D" for x
    by (rule lists_inv_free [OF that _ pD], use f in \<open>simp add: filed_only\<close>, rule wf_step [OF assms(2)])
      (use f pD in \<open>auto simp: filed_def\<close>)
  moreover have "lists_inv (free_pcb st p)" if "q = 0"
    by (rule lists_inv_free [OF assms(1) _ pD], use f that in \<open>simp add: filed_not_in\<close>, rule wf_step [OF assms(2)])
      (use f pD that in \<open>auto simp: filed_def\<close>)
  moreover have "\<forall>k. k \<noteq> L_bound \<longrightarrow> p \<notin> S k" using f by (simp add: filed_only)
  ultimately show ?thesis using assms(3) p0 by (auto intro!: TCP_RMV_vwp [OF assms(1)])
qed

lemma close_listen_inv:
  assumes "vrel st S I D" "wf_lists S I D" "I p = Some (True, LISTEN, q)" "net_keeps env"
  shows "res_all (\<lambda>x. lists_inv (free_lpcb x p)) (tcp_pcb_remove env st L_listen p)"
proof (rule tcp_pcb_remove_vrel [OF assms(1,3) wf_nonzero [OF assms(2,3)] _ assms(4), THEN res_all_weaken])
  note f = wf_filed [OF assms(2,3)]
  show "\<forall>k. k \<noteq> L_listen \<longrightarrow> p \<notin> S k" using f by (simp add: filed_only)
  show "lists_inv (free_lpcb x p)"
    if "vrel x (S(L_listen := S L_listen - {p})) (I(p \<mapsto> (True, CLOSED, q))) D" for x
  proof (rule lists_inv_free_lpcb [OF that])
    show "\<forall>k. p \<notin> (S(L_listen := S L_listen - {p})) k" using f by (simp add: filed_only)
    have "wf_lists (S(L_listen := S L_listen - {p})) (I(p := None)) (D - {p})"
      by (rule wf_step [OF assms(2)]) (use f in \<open>auto simp: filed_def\<close>)
    then show "wf_lists (S(L_listen := S L_listen - {p})) ((I(p \<mapsto> (True, CLOSED, q)))(p := None)) (D - {p})" by simp
  qed simp
qed

lemma removed_free_inv:
  assumes w: "wf_lists S I D" and i: "I p = Some (False, s, q)" and l: "\<forall>k. k \<noteq> l \<longrightarrow> p \<notin> S k"
    and v: "vrel x (S(l := S l - {p})) (I(p \<mapsto> (False, CLOSED, q))) D"
  shows "lists_inv (free_pcb x p)" "common (free_pcb x p) p = None"
proof -
  note pD = wf_conn_D [OF w i]
  have n: "\<forall>k. p \<notin> (S(l := S l - {p})) k" using l by simp
  have "wf_lists (S(l := S l - {p})) (I(p := None)) D"
    by (rule wf_step [OF w]) (use l pD in \<open>auto simp: filed_def\<close>)
  then have "wf_lists (S(l := S l - {p})) ((I(p \<mapsto> (False, CLOSED, q)))(p := None)) D" by simp
  then show "lists_inv (free_pcb x p)" by (rule lists_inv_free [OF v n pD])
  have "info (free_pcb x p) p = None" using free_pcb_vrel [OF v n pD] unfolding vrel_def by auto
  then show "common (free_pcb x p) p = None" by simp
qed

lemma remove_active_inv:
  assumes "vrel st S I D" "wf_lists S I D" "I p = Some (False, s, q)" "list_for s = L_active" "net_keeps env"
  shows "res_all (\<lambda>x. lists_inv (free_pcb x p)) (TCP_PCB_REMOVE_ACTIVE env st p)"
proof -
  have l: "\<forall>k. k \<noteq> L_active \<longrightarrow> p \<notin> S k" using wf_filed [OF assms(2,3)] assms(4) by (simp add: filed_only)
  show ?thesis
    by (rule TCP_PCB_REMOVE_ACTIVE_vrel [OF assms(1,3) wf_nonzero [OF assms(2,3)] l assms(5), THEN res_all_weaken])
      (rule removed_free_inv [OF assms(2,3) l])
qed

lemma close_by_state_inv:
  assumes v: "vrel st S I D" and w: "wf_lists S I D" and i: "I p = Some (k, s, q)" and n: "net_keeps env"
  shows "res_all (\<lambda>x. lists_inv (snd x)) (close_by_state env st p s q)"
proof -
  have f: "filed S p (k, s, q)" using wf_filed [OF w i] .
  have k: "k \<longleftrightarrow> s = LISTEN" using f by (simp add: filed_def)
  have L: "lists_inv st" by (rule lists_invI [OF v w])
  have fin: "res_all (\<lambda>x. lists_inv (snd x)) (close_with_fin env st p s')"
    if "s \<in> {SYN_RCVD, ESTABLISHED, CLOSE_WAIT}" "list_for s' = L_active" for s'
    using close_with_fin_inv [OF v w, of p s q s' env] i k n that by auto
  note cl = close_closed_inv [OF v w, of p q] and li = close_listen_inv [OF v w _ n, of p q]
    and sy = remove_active_inv [OF v w _ _ n, of p SYN_SENT q, THEN res_all_weaken]
  show ?thesis
    using L i k cl li sy fin unfolding close_by_state_def by (cases s) auto
qed

lemma tcp_close_shutdown_inv:
  assumes i: "lists_inv st" and n: "net_keeps env"
  shows "res_all (\<lambda>x. lists_inv (snd x)) (tcp_close_shutdown env st p r)"
proof -
  from i obtain S I D where v: "vrel st S I D" and w: "wf_lists S I D" by (auto simp: lists_inv_def)
  show ?thesis
    unfolding tcp_close_shutdown_def
    by (auto intro!: get_common_vwp [OF v] get_pcb_vwp [OF v] close_by_state_inv [OF v w _ n]
        close_with_rst_inv [OF v w _ _ n, THEN res_all_weaken])
qed

lemma inv_cases:
  assumes "lists_inv st" obtains S I D where "vrel st S I D" "wf_lists S I D"
  using assms by (auto simp: lists_inv_def)

lemma lists_inv_simps [simp]:
  "lists_inv (st\<lparr>bytes := a1\<rparr>) = lists_inv st" "lists_inv (st\<lparr>pools := a2\<rparr>) = lists_inv st"
  "lists_inv (st\<lparr>tcp_active_pcbs_changed := a3\<rparr>) = lists_inv st" "lists_inv (st\<lparr>tcp_port := a4\<rparr>) = lists_inv st"
  "lists_inv (st\<lparr>tcp_ticks := a5\<rparr>) = lists_inv st" "lists_inv (st\<lparr>tcp_timer := a6\<rparr>) = lists_inv st"
  "lists_inv (st\<lparr>tcp_timer_ctr := a7\<rparr>) = lists_inv st" "lists_inv (st\<lparr>tcp_iss := a8\<rparr>) = lists_inv st"
  "lists_inv (st\<lparr>tcp_input_pcb := a9\<rparr>) = lists_inv st"
  by (rule lists_inv_lview, simp)+

lemma lists_inv_put_pcb [simp]:
  "tcp_pcbs st p = Some c \<Longrightarrow> pcb_next c' = pcb_next c \<Longrightarrow> pcb_state c' = pcb_state c \<Longrightarrow>
   local_port c' = local_port c \<Longrightarrow> lists_inv (put_pcb st p c') = lists_inv st"
  by (intro lists_inv_lview lview_put_pcb)

text \<open>Rules over the invariant alone.\<close>

named_theorems iwp \<open>rules for \<open>res_all\<close> over \<open>lists_inv\<close>\<close>

lemma iwp_lview:
  assumes "res_all (\<lambda>x. lview (g x) = lview st) r" "lists_inv st" "\<And>x. lists_inv (g x) \<Longrightarrow> P x"
  shows "res_all P r"
  by (rule res_all_weaken [OF assms(1)]) (use assms(2,3) lists_inv_lview in blast)

lemmas lower_iwp [iwp] =
  lower_wp [THEN lview_of_more, THEN iwp_lview]
  tcp_enqueue_flags_frame [THEN lview_of_pframe, THEN iwp_lview]
  tcp_send_fin_frame [THEN lview_of_pframe, THEN iwp_lview]
  tcp_rexmit_frame [THEN lview_of_pframe, THEN iwp_lview]
  tcp_rexmit_fast_frame [THEN lview_of_pframe, THEN iwp_lview]

lemma net_iwp [iwp]:
  assumes "lists_inv st" "net_keeps env"
  shows "(\<And>x. lists_inv x \<Longrightarrow> P x) \<Longrightarrow> res_all P (tcp_rst env st s a li ri lp rp)"
    "(\<And>x. lists_inv (snd x) \<Longrightarrow> Q x) \<Longrightarrow> res_all Q (tcp_output env st p)"
    "(\<And>x. lists_inv x \<Longrightarrow> P x) \<Longrightarrow> res_all P (tcp_rexmit_rto env st p)"
    "(\<And>x. lists_inv x \<Longrightarrow> P x) \<Longrightarrow> res_all P (tcp_keepalive env st p)"
    "(\<And>x. lists_inv x \<Longrightarrow> P x) \<Longrightarrow> res_all P (tcp_zero_window_probe env st p)"
  using net_wp(3) [OF assms(2), THEN lview_of_more, THEN iwp_lview, OF assms(1), of P s a li ri lp rp]
    tcp_output_frame [OF assms(2), THEN lview_of_pframe, THEN iwp_lview, OF assms(1), of Q p]
    tcp_rexmit_rto_frame [OF assms(2), THEN lview_of_pframe, THEN iwp_lview, OF assms(1), of P p]
    tcp_keepalive_frame [OF assms(2), THEN lview_of_pframe, THEN iwp_lview, OF assms(1), of P p]
    tcp_zero_window_probe_frame [OF assms(2), THEN lview_of_pframe, THEN iwp_lview, OF assms(1), of P p]
  by blast+

lemma upd_pcb_iwp [iwp]:
  assumes "lists_inv st"
    and "\<And>c. pcb_next (f c) = pcb_next c \<and> pcb_state (f c) = pcb_state c \<and> local_port (f c) = local_port c"
    and "\<And>x. lists_inv x \<Longrightarrow> P x"
  shows "res_all P (upd_pcb st p f)"
  by (rule iwp_lview [OF lview_upd_pcb [OF assms(2)] assms(1) assms(3)])

lemma get_iwp [iwp]:
  "(\<And>c. p \<noteq> 0 \<Longrightarrow> tcp_pcbs st p = Some c \<Longrightarrow> P c) \<Longrightarrow> res_all P (get_pcb st p)"
  "(\<And>b. p \<noteq> 0 \<Longrightarrow> common st p = Some b \<Longrightarrow> Q b) \<Longrightarrow> res_all Q (get_common st p)"
  by (rule get_pcb_wp; blast) (rule res_allI, simp add: get_common_iff)

lemmas read_iwp [iwp] = read_wp

lemma tcp_pcb_purge_iwp [iwp]:
  assumes "lists_inv st" "\<And>x. lists_inv x \<Longrightarrow> P x"
  shows "res_all P (tcp_pcb_purge st p)"
  using assms by (auto elim!: inv_cases intro!: tcp_pcb_purge_vwp intro: lists_invI)

lemmas tcp_close_shutdown_iwp [iwp] = tcp_close_shutdown_inv [THEN res_all_weaken]

lemma tcp_close_inv: "lists_inv st \<Longrightarrow> net_keeps env \<Longrightarrow> res_all (\<lambda>x. lists_inv (snd x)) (tcp_close env st p)"
  by (auto simp: tcp_close_def intro!: iwp)

lemma tcp_shutdown_inv:
  "lists_inv st \<Longrightarrow> net_keeps env \<Longrightarrow> res_all (\<lambda>x. lists_inv (snd x)) (tcp_shutdown env st p rx tx)"
  by (auto simp: tcp_shutdown_def intro!: iwp)

lemma tcp_recved_inv: "lists_inv st \<Longrightarrow> net_keeps env \<Longrightarrow> res_all lists_inv (tcp_recved env st p n)"
  by (auto simp: tcp_recved_def Let_def tcp_update_rcv_ann_wnd_def intro!: iwp split: prod.split)

section \<open>Binding and listening\<close>

lemma new_port_loop_iwp:
  "res_all (\<lambda>x. \<exists>p. snd x = st\<lparr>tcp_port := p\<rparr>) (new_port_loop fuel st n)"
proof (induction fuel arbitrary: st n)
  case 0
  then show ?case by simp
next
  case (Suc fuel)
  have "res_all (\<lambda>x. \<exists>p. snd x = st\<lparr>tcp_port := p\<rparr>) (new_port_loop fuel (st\<lparr>tcp_port := q\<rparr>) k)" for q k
    by (rule res_all_weaken [OF Suc.IH]) auto
  then show ?case by (auto simp: Let_def intro!: res_all_any [where r = "port_in_lists s p l" for s p l])
qed

lemma tcp_new_port_vwp [vwp]:
  assumes "vrel st S I D" "\<And>x. vrel (snd x) S I D \<Longrightarrow> P x"
  shows "res_all P (tcp_new_port st)"
  unfolding tcp_new_port_def by (rule res_all_weaken [OF new_port_loop_iwp]) (use assms in auto)

lemma bind_conflict_vwp [vwp]: "vrel st S I D \<Longrightarrow> (\<And>x. P x) \<Longrightarrow> res_all P (bind_conflict st ip port ls)"
  by (rule res_all_any)

text \<open>A closed block is bound at most once.\<close>

definition unbound :: "'a tcp_st_scheme \<Rightarrow> addr \<Rightarrow> bool" where
  "unbound st p \<longleftrightarrow> (\<forall>b. common st p = Some b \<longrightarrow> pcb_state b = CLOSED \<longrightarrow> local_port b = 0)"

lemma bind_step:
  assumes "vrel st S I D" "wf_lists S I D" "I p = Some (k, CLOSED, 0)" "q \<noteq> 0"
    and f: "\<And>c. pcb_next (f c) = pcb_next c \<and> pcb_state (f c) = pcb_state c \<and> local_port (f c) = q"
    and g: "\<And>c. pcb_next (g c) = pcb_next c \<and> pcb_state (g c) = pcb_state c \<and> local_port (g c) = q"
  shows "res_all (\<lambda>x. res_all lists_inv (TCP_REG x L_bound p)) (upd_common st p f g)"
proof (rule upd_common_vrel [OF assms(1,3), where s' = CLOSED and q' = q, THEN res_all_weaken])
  note fi = wf_filed [OF assms(2,3)]
  have n: "\<forall>k. p \<notin> S k" using fi by (auto simp: filed_def)
  have k: "\<not> k" using fi by (simp add: filed_def)
  show "res_all lists_inv (TCP_REG x L_bound p)" if v: "vrel x S (I(p \<mapsto> (k, CLOSED, q))) D" for x
  proof (rule TCP_REG_vwp [OF v _ wf_nonzero [OF assms(2,3)] n])
    show "lists_inv y" if "vrel y (S(L_bound := insert p (S L_bound))) (I(p \<mapsto> (k, CLOSED, q))) D" for y
      by (rule lists_invI [OF that], rule wf_step [OF assms(2)])
        (use n k assms(4) wf_nonzero [OF assms(2,3)] wf_conn_D [OF assms(2), of p CLOSED 0] assms(3) in
          \<open>auto simp: filed_def\<close>)
  qed simp
qed (simp_all add: f g)

lemma tcp_bind_inv:
  assumes "lists_inv st" "unbound st p"
  shows "res_all (\<lambda>x. lists_inv (snd x)) (tcp_bind st p ip port)"
proof -
  from assms(1) obtain S I D where v: "vrel st S I D" and w: "wf_lists S I D" by (rule inv_cases)
  show ?thesis
    unfolding tcp_bind_def res_all_simps
  proof (rule get_common_vwp [OF v])
    fix b k
    assume b: "get_common st p = Inr b" "p \<noteq> 0" "I p = Some (k, pcb_state b, local_port b)"
    have u: "local_port b = 0" if "pcb_state b = CLOSED"
      using assms(2) b(1) that by (simp add: unbound_def get_common_iff)
    have step: "res_all (\<lambda>x. res_all (\<lambda>x. res_all (\<lambda>x. lists_inv (snd x)) (Inr (ERR_OK, x))) (TCP_REG x L_bound p)) (upd_common s p f g)"
      if "vrel s S I D" "pcb_state b = CLOSED" "q \<noteq> 0"
        "\<And>c. pcb_next (f c) = pcb_next c \<and> pcb_state (f c) = pcb_state c \<and> local_port (f c) = q"
        "\<And>c. pcb_next (g c) = pcb_next c \<and> pcb_state (g c) = pcb_state c \<and> local_port (g c) = q" for s f g q
      using bind_step [OF that(1) w _ that(3), of p k f g] that(2,4,5) b(3) u by simp
    show "res_all (\<lambda>x. lists_inv (snd x)) (if pcb_state b \<noteq> CLOSED then Inr (ERR_VAL, st)
       else
         rbind (if port = 0 then tcp_new_port st else Inr (port, st)) (\<lambda>(port, st1).
           if port = 0 then Inr (ERR_BUF, st1)
           else rbind (bind_conflict st1 ip port tcp_pcb_lists) (\<lambda>conflict.
             if conflict then Inr (ERR_USE, st1)
             else
               rbind (upd_common st1 p
                 (\<lambda>c. c\<lparr>local_ip := (if ip_addr_isany ip then local_ip c else ip), local_port := port\<rparr>)
                 (\<lambda>c. c\<lparr>local_ip := (if ip_addr_isany ip then local_ip c else ip), local_port := port\<rparr>)) (\<lambda>st2.
               rbind (TCP_REG st2 L_bound p) (\<lambda>st3. Inr (ERR_OK, st3))))))"
      using assms(1) v w
      by (auto intro!: tcp_new_port_vwp [OF v] bind_conflict_vwp step [simplified] intro: lists_invI)
  qed
qed

text \<open>
  \<open>fresh st k\<close>: the block that the pool \<open>k\<close> would hand out is not in use. This is what the memory
  pools promise (\<open>mp.alloc_fresh\<close> in \<open>Memp\<close>).
\<close>

definition fresh :: "'a tcp_st_scheme \<Rightarrow> memp_t \<Rightarrow> bool" where
  "fresh st k \<longleftrightarrow> common st (memp_tab (pools st) k) = None"

lemma memp_malloc_tab: "memp_malloc s k = (p, s') \<Longrightarrow> p = memp_tab s k"
  by (auto simp: memp_malloc_def Let_def split: if_splits)

text \<open>Adding a block that is in no list.\<close>

lemma vrel_new:
  assumes "vrel st S I D" "I p = None" "info st' = I(p \<mapsto> i)" "next_of st' = (next_of st)(p := n)"
    "head_of st' = head_of st" "dom (tcp_lpcbs st') = D'" "\<forall>k. p \<notin> S k"
  shows "vrel st' S (I(p \<mapsto> i)) D'"
proof -
  from assms(1) obtain F where F: "lists_repr st F" "S = (\<lambda>l. set (F l))" "info st = I" by (auto simp: vrel_def)
  have pF: "p \<notin> set (F l)" for l using assms(7) F(2) by simp
  have "dom (common st') = insert p (dom (common st))" using assms(3) F(3) by (auto simp: dom_common_info)
  then have "lists_repr st' F" using F(1) pF unfolding lists_repr_def assms(4,5) by auto
  then show ?thesis using F(2) assms(3,6) unfolding vrel_def by blast
qed

lemma new_lpcb_vrel:
  assumes "vrel st S I D" "wf_lists S I D" "I p = None" "pcb_state b = s" "local_port b = q"
  shows "vrel (st\<lparr>tcp_lpcbs := (tcp_lpcbs st)(p \<mapsto> b)\<rparr>) S (I(p \<mapsto> (True, s, q))) (insert p D)"
proof (rule vrel_new [OF assms(1,3)])
  let ?st = "st\<lparr>tcp_lpcbs := (tcp_lpcbs st)(p \<mapsto> b)\<rparr>"
  have I: "info st = I" "dom (tcp_lpcbs st) = D" using assms(1) by (auto simp: vrel_def)
  have n: "tcp_pcbs st p = None" using assms(3) unfolding I(1) [symmetric] by (auto simp: info_eq split: option.splits)
  have "info ?st r = (if r = p then Some (True, s, q) else info st r)"
    "next_of ?st r = (if r = p then pcb_next b else next_of st r)" for r
    using n assms(4,5) by (simp_all add: info_eq next_of_eq split: option.split)
  then show "info ?st = I(p \<mapsto> (True, s, q))" "next_of ?st = (next_of st)(p := pcb_next b)"
    using I(1) by (auto simp: fun_eq_iff)
  show "head_of ?st = head_of st" by (rule head_of_cong) simp_all
  show "dom (tcp_lpcbs ?st) = insert p D" using I(2) by simp
  show "\<forall>k. p \<notin> S k" using wf_fresh [OF assms(2,3)] by blast
qed

lemma new_pcb_vrel:
  assumes "vrel st S I D" "wf_lists S I D" "I p = None"
  shows "vrel (put_pcb st p c) S (I(p \<mapsto> (False, pcb_state c, local_port c))) D"
proof (rule vrel_new [OF assms(1,3)])
  let ?st = "put_pcb st p c"
  have I: "info st = I" "dom (tcp_lpcbs st) = D" using assms(1) by (auto simp: vrel_def)
  have "info ?st r = (if r = p then Some (False, pcb_state c, local_port c) else info st r)"
    "next_of ?st r = (if r = p then pcb_next c else next_of st r)" for r
    by (simp_all add: info_eq next_of_eq split: option.split)
  then show "info ?st = I(p \<mapsto> (False, pcb_state c, local_port c))" "next_of ?st = (next_of st)(p := pcb_next c)"
    using I(1) by (auto simp: fun_eq_iff)
  show "head_of ?st = head_of st" by (rule head_of_cong) simp_all
  show "dom (tcp_lpcbs ?st) = D" using I(2) by simp
  show "\<forall>k. p \<notin> S k" using wf_fresh [OF assms(2,3)] by blast
qed

lemma listen_step:
  assumes v: "vrel st S I D" and w: "wf_lists S I D" and i: "I p = Some (False, CLOSED, q)"
    and l: "I lp = None" "lp \<noteq> 0" "pcb_state b = LISTEN" "local_port b = q"
  shows "res_all (\<lambda>x. res_all lists_inv (TCP_REG (free_pcb x p) L_listen lp))
    (if q \<noteq> 0 then TCP_RMV (st\<lparr>tcp_lpcbs := (tcp_lpcbs st)(lp \<mapsto> b)\<rparr>) L_bound p
     else Inr (st\<lparr>tcp_lpcbs := (tcp_lpcbs st)(lp \<mapsto> b)\<rparr>))"
proof -
  let ?I = "I(lp \<mapsto> (True, LISTEN, q))" and ?S = "S(L_bound := S L_bound - {p})"
  note f = wf_filed [OF w i] and p0 = wf_nonzero [OF w i] and pD = wf_conn_D [OF w i] and lS = wf_fresh [OF w l(1)]
  have ne: "p \<noteq> lp" using i l(1) by auto
  have v1: "vrel (st\<lparr>tcp_lpcbs := (tcp_lpcbs st)(lp \<mapsto> b)\<rparr>) S ?I (insert lp D)"
    by (rule new_lpcb_vrel [OF v w l(1,3,4)])
  have reg: "res_all lists_inv (TCP_REG (free_pcb x p) L_listen lp)" if "vrel x ?S ?I (insert lp D)" for x
  proof (rule TCP_REG_vwp [OF free_pcb_vrel [OF that]])
    show "lists_inv y" if "vrel y (?S(L_listen := insert lp (?S L_listen))) (?I(p := None)) (insert lp D)" for y
    proof (rule lists_invI [OF that])
      have "wf_lists ?S (I(p := None)) D"
        by (rule wf_step [OF w]) (use f pD in \<open>auto simp: filed_def\<close>)
      then have "wf_lists (?S(L_listen := insert lp (?S L_listen))) ((I(p := None))(lp := Some (True, LISTEN, q))) (insert lp D)"
        by (rule wf_step) (use lS l(2) ne in \<open>auto simp: filed_def\<close>)
      then show "wf_lists (?S(L_listen := insert lp (?S L_listen))) (?I(p := None)) (insert lp D)"
        using ne by (simp add: fun_upd_twist)
    qed
  qed (use f lS ne pD l(2) in \<open>auto simp: filed_def\<close>)
  have "?S = S" if "q = 0" using f that by (auto simp: filed_def)
  then have "q = 0 \<Longrightarrow> res_all lists_inv (TCP_REG (free_pcb (st\<lparr>tcp_lpcbs := (tcp_lpcbs st)(lp \<mapsto> b)\<rparr>) p) L_listen lp)"
    using reg v1 by metis
  then show ?thesis using i p0 ne f by (auto intro!: TCP_RMV_vwp [OF v1] reg simp: filed_only)
qed

lemma tcp_listen_inv:
  assumes "lists_inv st" "fresh st MEMP_TCP_PCB_LISTEN"
  shows "res_all (\<lambda>x. lists_inv (snd x)) (tcp_listen_with_backlog st p bl)"
proof -
  from assms(1) obtain S I D where v: "vrel st S I D" and w: "wf_lists S I D" by (rule inv_cases)
  obtain lp ps where m: "memp_malloc (pools st) MEMP_TCP_PCB_LISTEN = (lp, ps)" by fastforce
  have l: "I lp = None" using assms(2) v memp_malloc_tab [OF m] by (auto simp: fresh_def vrel_def)
  have vp: "vrel (st\<lparr>pools := ps\<rparr>) S I D" using v by simp
  show ?thesis
    unfolding tcp_listen_with_backlog_def res_all_simps
  proof (rule get_common_vwp [OF v])
    fix b k
    assume b: "get_common st p = Inr b" "p \<noteq> 0" "I p = Some (k, pcb_state b, local_port b)"
    have k: "\<not> k" if "pcb_state b = CLOSED" using wf_filed [OF w b(3)] that by (simp add: filed_def)
    show "res_all (\<lambda>x. lists_inv (snd x)) (if pcb_state b \<noteq> CLOSED then Inr (0, st)
       else case memp_malloc (pools st) MEMP_TCP_PCB_LISTEN of (lpcb, pools') \<Rightarrow>
         if lpcb = 0 then Inr (0, st\<lparr>pools := pools'\<rparr>)
         else
           let l = \<lparr>local_ip = local_ip b, remote_ip = 0, so_options = so_options b OR SOF_ACCEPTCONN,
                    tos = tos b, ttl = ttl b, pcb_next = 0, callback_arg = callback_arg b,
                    accept_fn = FN_tcp_accept_null, pcb_state = LISTEN, prio = prio b,
                    local_port = local_port b\<rparr>;
               st1 = st\<lparr>pools := pools', tcp_lpcbs := (tcp_lpcbs st)(lpcb \<mapsto> l)\<rparr>
           in rbind (if local_port b \<noteq> 0 then TCP_RMV st1 L_bound p else Inr st1) (\<lambda>st2.
              rbind (TCP_REG (free_pcb st2 p) L_listen lpcb) (\<lambda>st3. Inr (lpcb, st3))))"
    proof (cases "pcb_state b = CLOSED \<and> lp \<noteq> 0")
      case True
      with b(3) k have i: "I p = Some (False, CLOSED, local_port b)" by simp
      let ?l = "\<lparr>local_ip = local_ip b, remote_ip = 0, so_options = so_options b OR SOF_ACCEPTCONN,
                    tos = tos b, ttl = ttl b, pcb_next = 0, callback_arg = callback_arg b,
                    accept_fn = FN_tcp_accept_null, pcb_state = LISTEN, prio = prio b,
                    local_port = local_port b\<rparr>"
      have "res_all (\<lambda>x. res_all lists_inv (TCP_REG (free_pcb x p) L_listen lp))
        (if local_port b \<noteq> 0 then TCP_RMV (st\<lparr>pools := ps, tcp_lpcbs := (tcp_lpcbs (st\<lparr>pools := ps\<rparr>))(lp \<mapsto> ?l)\<rparr>) L_bound p
         else Inr (st\<lparr>pools := ps, tcp_lpcbs := (tcp_lpcbs (st\<lparr>pools := ps\<rparr>))(lp \<mapsto> ?l)\<rparr>))"
        by (rule listen_step [OF vp w i l]) (use True in simp_all)
      then show ?thesis using True by (cases "local_port b = 0") (simp_all add: m Let_def)
    next
      case False
      then show ?thesis using assms(1) by (auto simp: m)
    qed
  qed
qed

section \<open>Connecting\<close>

lemma upd_port_vrel:
  assumes "vrel st S I D" "I p = Some (k, s, q)"
  shows "res_all (\<lambda>x. vrel x S (I(p \<mapsto> (k, s, q'))) D) (upd_pcb st p (\<lambda>c. c\<lparr>local_port := q'\<rparr>))"
proof -
  have "res_all (\<lambda>x. vrel x S (I(p \<mapsto> (k, s, q'))) D) (upd_common st p (\<lambda>c. c\<lparr>local_port := q'\<rparr>) (\<lambda>c. c\<lparr>local_port := q'\<rparr>))"
    by (rule upd_common_vrel [OF assms]) simp_all
  then show ?thesis
    by (auto simp: upd_pcb_def get_pcb_def upd_common_def put_pcb_def split: option.splits)
qed

lemma connect_start_inv:
  assumes v: "vrel st S I D" and w: "wf_lists S I D" and i: "I p = Some (False, CLOSED, q)" and n: "net_keeps env"
    and q0: "q0 = 0 \<Longrightarrow> \<forall>k. p \<notin> S k"
  shows "res_all lists_inv (connect_start env st p q0)"
  unfolding connect_start_def res_all_simps
proof (rule set_state_vwp [OF v i])
  fix x :: "'a tcp_st_scheme"
  let ?I = "I(p \<mapsto> (False, SYN_SENT, q))" and ?S = "S(L_bound := S L_bound - {p})"
  assume x: "vrel x S ?I D"
  note f = wf_filed [OF w i] and p0 = wf_nonzero [OF w i] and pD = wf_conn_D [OF w i]
  have S: "?S = S" if "q0 = 0" using q0 [OF that] by auto
  have reg: "res_all (\<lambda>st9. res_all (\<lambda>x. res_all lists_inv (case x of (_, s) \<Rightarrow> Inr s)) (tcp_output env st9 p))
      (TCP_REG_ACTIVE y p)" if y: "vrel y ?S ?I D" for y :: "'a tcp_st_scheme"
  proof (rule TCP_REG_ACTIVE_vrel [OF y, THEN res_all_weaken])
    fix z :: "'a tcp_st_scheme"
    assume "vrel z (?S(L_active := insert p (?S L_active))) ?I D"
    moreover have "wf_lists (?S(L_active := insert p (?S L_active))) ?I D"
      by (rule wf_step [OF w]) (use f p0 pD in \<open>auto simp: filed_def\<close>)
    ultimately show "res_all (\<lambda>x. res_all lists_inv (case x of (_, s) \<Rightarrow> Inr s)) (tcp_output env z p)"
      by (intro net_iwp(2) [OF lists_invI n]) (auto split: prod.split)
  qed (use f p0 in \<open>auto simp: filed_def\<close>)
  have "\<forall>k. k \<noteq> L_bound \<longrightarrow> p \<notin> S k" using f by (simp add: filed_only)
  then show "res_all (\<lambda>st8. res_all (\<lambda>st9. res_all (\<lambda>x. res_all lists_inv (case x of (_, s) \<Rightarrow> Inr s)) (tcp_output env st9 p))
      (TCP_REG_ACTIVE st8 p)) (if q0 \<noteq> 0 then TCP_RMV x L_bound p else Inr x)"
    using reg x S p0 by (auto intro!: TCP_RMV_vwp [OF x])
qed

lemma connect_route_vwp:
  assumes "vrel st S I D" "\<And>x. vrel (snd x) S I D \<Longrightarrow> P x"
  shows "res_all P (connect_route st p lip ip)"
  using assms by (auto simp: connect_route_def intro!: read_wp upd_pcb_vwp)

lemma connect_port_vwp:
  assumes v: "vrel st S I D" and w: "wf_lists S I D" and i: "I p = Some (False, CLOSED, q)"
    and P: "\<And>x J r. vrel (snd x) S J D \<Longrightarrow> wf_lists S J D \<Longrightarrow> J p = Some (False, CLOSED, r) \<Longrightarrow> P x"
  shows "res_all P (connect_port st p q)"
proof (cases "q = 0")
  case True
  have "wf_lists S (I(p \<mapsto> (False, CLOSED, r))) D" for r
    by (rule wf_step [OF w])
      (use True wf_filed [OF w i] wf_nonzero [OF w i] wf_conn_D [OF w i] in \<open>auto simp: filed_def\<close>)
  then show ?thesis
    using True by (auto simp: connect_port_def intro!: tcp_new_port_vwp [OF v] P upd_port_vrel [where I = I and p = p, OF _ i, THEN res_all_weaken])
next
  case False
  then show ?thesis using P [OF _ w i] v by (simp add: connect_port_def)
qed

lemma connect_send_inv:
  assumes v: "vrel st S I D" and w: "wf_lists S I D" and i: "I p = Some (False, CLOSED, q)" and n: "net_keeps env"
    and q0: "q0 = 0 \<Longrightarrow> \<forall>k. p \<notin> S k"
  shows "res_all (\<lambda>x. res_all (\<lambda>x. lists_inv (snd x)) (case x of (ret, st6) \<Rightarrow>
       if ret = ERR_OK then rbind (connect_start env st6 p q0) (\<lambda>st7. Inr (ERR_OK, st7)) else Inr (ret, st6)))
     (tcp_enqueue_flags st p TCP_SYN)"
  by (rule lower_vwp, rule v)
    (auto simp: q0 intro: lists_invI [OF _ w] intro!: connect_start_inv [where I = I and p = p, OF _ w i n, THEN res_all_weaken])

lemma tcp_connect_inv:
  assumes "lists_inv st" and n: "net_keeps env"
  shows "res_all (\<lambda>x. lists_inv (snd x)) (tcp_connect env st p ipaddr port cfn)"
proof -
  from assms(1) obtain S I D where v: "vrel st S I D" and w: "wf_lists S I D" by (rule inv_cases)
  show ?thesis
    unfolding tcp_connect_def tcp_next_iss_def Let_def res_all_simps
  proof (rule get_common_vwp [OF v])
    fix b k
    assume b: "I p = Some (k, pcb_state b, local_port b)"
    show "res_all (\<lambda>x. lists_inv (snd x))
       (if pcb_state b \<noteq> CLOSED then Inr (ERR_ISCONN, st)
       else case ipaddr of
         None \<Rightarrow> Inr (ERR_VAL, st)
       | Some ip \<Rightarrow>
           rbind (upd_pcb st p (\<lambda>c. c\<lparr>remote_ip := ip, remote_port := port\<rparr>)) (\<lambda>st1.
           rbind (connect_route st1 p (local_ip b) ip) (\<lambda>(routed, st2).
             if \<not> routed then Inr (ERR_RTE, st2)
             else rbind (connect_port st2 p (local_port b)) (\<lambda>(lport, st3).
               if lport = 0 then Inr (ERR_BUF, st3)
               else
                 case (tcp_iss st3 + tcp_ticks st3, st3\<lparr>tcp_iss := tcp_iss st3 + tcp_ticks st3\<rparr>) of (iss, st4) \<Rightarrow>
                 rbind (tcp_eff_send_mss st4 initial_mss ip) (\<lambda>mss0.
                 rbind (upd_pcb st4 p (\<lambda>c. connect_init c iss mss0 cfn)) (\<lambda>st5.
                 rbind (tcp_enqueue_flags st5 p TCP_SYN) (\<lambda>(ret, st6).
                   if ret = ERR_OK then
                     rbind (connect_start env st6 p (local_port b)) (\<lambda>st7. Inr (ERR_OK, st7))
                   else Inr (ret, st6))))))))"
    proof (cases "pcb_state b = CLOSED")
      case True
      have f: "filed S p (k, CLOSED, local_port b)" using wf_filed [OF w b] True by simp
      then have i: "I p = Some (False, CLOSED, local_port b)" using b True by (simp add: filed_def)
      have nl: "\<forall>k. p \<notin> S k" if "local_port b = 0" using f that by (auto simp: filed_def)
      show ?thesis
        using True assms(1) nl
        by (auto simp: connect_init_def intro: lists_invI [OF _ w] lists_invI split: option.split
            intro!: upd_pcb_vwp [OF v] connect_route_vwp connect_port_vwp [OF _ w i] read_wp upd_pcb_vwp
              connect_send_inv [where S = S and D = D, simplified] n)
          (use lists_invI w in blast)+
    qed (use assms(1) in simp)
  qed
qed

section \<open>Aborting and allocating\<close>

text \<open>
  What is assumed of an environment: the network does not touch the TCP state, and an error callback
  neither touches the lists nor the pool of control blocks.
\<close>

definition env_keeps :: "('a tcp_st_scheme) tcp_env \<Rightarrow> bool" where
  "env_keeps env \<longleftrightarrow> net_keeps (ipe env) \<and>
     (\<forall>f arg e st st'. call_err env f arg e st = Inr st' \<longrightarrow>
        lview st' = lview st \<and> memp_tab (pools st') MEMP_TCP_PCB = memp_tab (pools st) MEMP_TCP_PCB)"

lemma TCP_EVENT_ERR_lview:
  "env_keeps env \<Longrightarrow> res_all (\<lambda>x. lview x = lview st \<and> memp_tab (pools x) MEMP_TCP_PCB = memp_tab (pools st) MEMP_TCP_PCB)
     (TCP_EVENT_ERR env st f arg e)"
  by (auto simp: TCP_EVENT_ERR_def env_keeps_def intro!: res_allI)

lemma memp_free_tab: "p \<noteq> 0 \<Longrightarrow> memp_tab (memp_free s k p) k = p"
  by (simp add: memp_free_def)

text \<open>
  A block that is aborted is gone, and it is the next one its pool hands out. A bound block must
  not be aborted: it would stay in its list.
\<close>

lemma freed_fresh: "p \<noteq> 0 \<Longrightarrow> common (free_pcb st p) p = None \<Longrightarrow> fresh (free_pcb st p) MEMP_TCP_PCB"
  by (simp add: fresh_def free_pcb_def memp_free_tab)

lemma fresh_lview:
  assumes "lview st' = lview st" "memp_tab (pools st') MEMP_TCP_PCB = memp_tab (pools st) MEMP_TCP_PCB"
  shows "fresh st' MEMP_TCP_PCB = fresh st MEMP_TCP_PCB"
proof -
  have "info st' = info st" using assms(1) by (simp add: lview_def)
  then show ?thesis unfolding fresh_def assms(2) by (metis info_None)
qed

lemma event_err_inv:
  assumes "env_keeps env" "lists_inv st" "fresh st MEMP_TCP_PCB"
  shows "res_all (\<lambda>x. lists_inv x \<and> fresh x MEMP_TCP_PCB) (TCP_EVENT_ERR env st f arg e)"
  by (rule res_all_weaken [OF TCP_EVENT_ERR_lview [OF assms(1)]])
    (use assms(2,3) lists_inv_lview fresh_lview in blast)

lemma abandon_conn_inv:
  assumes v: "vrel st S I D" and w: "wf_lists S I D" and n: "env_keeps env" and i: "I p = Some (False, s, q)"
    and l: "\<forall>k. k \<noteq> L_active \<longrightarrow> p \<notin> S k"
  shows "res_all (\<lambda>x. lists_inv x \<and> fresh x MEMP_TCP_PCB) (abandon_conn env st p c reset)"
proof -
  let ?S = "S(L_active := S L_active - {p})" and ?I = "I(p \<mapsto> (False, CLOSED, q))"
  have net: "net_keeps (ipe env)" using n by (simp add: env_keeps_def)
  have ev: "res_all (\<lambda>x. lists_inv x \<and> fresh x MEMP_TCP_PCB) (TCP_EVENT_ERR env (free_pcb x p) fn arg e)"
    if "vrel x ?S ?I D" for x fn arg e
    by (rule event_err_inv [OF n removed_free_inv(1) [OF w i l that]
          freed_fresh [OF wf_nonzero [OF w i] removed_free_inv(2) [OF w i l that]]])
  show ?thesis
    unfolding abandon_conn_def res_all_simps
    by (rule TCP_PCB_REMOVE_ACTIVE_vrel [OF v i wf_nonzero [OF w i] l net, THEN res_all_weaken])
      (auto intro!: get_pcb_wp lower_vwp [where S = ?S and I = ?I and D = D] net_vwp(1) [where S = ?S and I = ?I and D = D] net ev)
qed

lemma tcp_abandon_inv:
  assumes i: "lists_inv st" and n: "env_keeps env" and u: "unbound st p"
  shows "res_all (\<lambda>x. lists_inv x \<and> fresh x MEMP_TCP_PCB) (tcp_abandon env st p reset)"
proof -
  from i obtain S I D where v: "vrel st S I D" and w: "wf_lists S I D" by (rule inv_cases)
  have net: "net_keeps (ipe env)" using n by (simp add: env_keeps_def)
  have tw: "res_all (\<lambda>x. lists_inv (free_pcb x p) \<and> fresh (free_pcb x p) MEMP_TCP_PCB) (tcp_pcb_remove (ipe env) st L_tw p)"
    if b: "I p = Some (k, TIME_WAIT, q)" for k q
  proof -
    have l: "\<forall>k. k \<noteq> L_tw \<longrightarrow> p \<notin> S k" "\<not> k" using wf_filed [OF w b] by (auto simp: filed_def)
    with b have b': "I p = Some (False, TIME_WAIT, q)" by simp
    show ?thesis
      by (rule tcp_pcb_remove_vrel [OF v b' wf_nonzero [OF w b] l(1) net, THEN res_all_weaken])
        (intro conjI removed_free_inv [OF w b' l(1)] freed_fresh wf_nonzero [OF w b])
  qed
  have conn: "res_all (\<lambda>x. lists_inv x \<and> fresh x MEMP_TCP_PCB) (abandon_conn env st p c reset)"
    if b: "I p = Some (False, s, q)" "s \<noteq> TIME_WAIT" "s = CLOSED \<Longrightarrow> q = 0" for s q c
    by (rule abandon_conn_inv [OF v w n b(1)]) (use wf_filed [OF w b(1)] b in \<open>cases s; auto simp: filed_def\<close>)
  show ?thesis
    unfolding tcp_abandon_def res_all_simps
    by (rule get_common_vwp [OF v])
      (use u in \<open>auto simp: unbound_def get_common_iff intro!: get_pcb_vwp [OF v] conn tw\<close>)
qed

lemma get_pcb_next: "tcp_pcbs st p = Some c \<Longrightarrow> next_of st p = pcb_next c"
  by (simp add: next_of_eq)

lemma kill_prio_scan_mem:
  assumes "linked (next_of st) p xs"
  shows "res_all (\<lambda>r. r = i \<or> r \<in> set xs) (kill_prio_scan fuel st pr p i a m)"
  using assms
proof (induction fuel arbitrary: p xs i a m)
  case 0
  then show ?case by simp
next
  case (Suc fuel)
  show ?case
  proof (cases xs)
    case Nil
    with Suc.prems show ?thesis by simp
  next
    case (Cons x ys)
    have "res_all (\<lambda>r. r = i \<or> r \<in> set xs) (kill_prio_scan fuel st pr (pcb_next c) i' a' m')"
      if "tcp_pcbs st p = Some c" "i' = i \<or> i' = x" for c i' a' m'
      by (rule res_all_weaken [OF Suc.IH [of "pcb_next c" ys]]) (use that Cons Suc.prems in \<open>auto simp: get_pcb_next\<close>)
    then show ?thesis using Cons Suc.prems by (auto intro!: get_pcb_wp)
  qed
qed

lemma kill_tw_scan_mem:
  assumes "linked (next_of st) p xs"
  shows "res_all (\<lambda>r. r = i \<or> r \<in> set xs) (kill_tw_scan fuel st p i a)"
  using assms
proof (induction fuel arbitrary: p xs i a)
  case 0
  then show ?case by simp
next
  case (Suc fuel)
  show ?case
  proof (cases xs)
    case Nil
    with Suc.prems show ?thesis by simp
  next
    case (Cons x ys)
    have "res_all (\<lambda>r. r = i \<or> r \<in> set xs) (kill_tw_scan fuel st (pcb_next c) i' a')"
      if "tcp_pcbs st p = Some c" "i' = i \<or> i' = x" for c i' a'
      by (rule res_all_weaken [OF Suc.IH [of "pcb_next c" ys]]) (use that Cons Suc.prems in \<open>auto simp: get_pcb_next\<close>)
    then show ?thesis using Cons Suc.prems by (auto intro!: get_pcb_wp)
  qed
qed

text \<open>A block of the active list, or of that of \<^verbatim>\<open>TIME-WAIT\<close>, is not a bound one.\<close>

lemma listed_unbound:
  assumes "lists_inv st" "l \<noteq> L_bound"
  shows "\<exists>xs. linked (next_of st) (head_of st l) xs \<and> (\<forall>x \<in> set xs. unbound st x)"
proof -
  from assms(1) obtain S I D where v: "vrel st S I D" and w: "wf_lists S I D" by (rule inv_cases)
  from v obtain F where F: "lists_repr st F" "S = (\<lambda>l. set (F l))" "info st = I" by (auto simp: vrel_def)
  have "unbound st x" if "x \<in> set (F l)" for x
    unfolding unbound_def
  proof (intro allI impI)
    fix b
    assume b: "common st x = Some b" "pcb_state b = CLOSED"
    have "I x = Some (tcp_pcbs st x = None, CLOSED, local_port b)" using b F(3) by (auto simp: info_def)
    from wf_filed [OF w this] that F(2) assms(2) show "local_port b = 0" by (auto simp: filed_def)
  qed
  then show ?thesis using lists_reprD(1) [OF F(1), of l] by blast
qed

lemma tcp_kill_prio_inv:
  assumes "lists_inv st" "env_keeps env" "fresh st MEMP_TCP_PCB"
  shows "res_all (\<lambda>x. lists_inv x \<and> fresh x MEMP_TCP_PCB) (tcp_kill_prio env st pr)"
proof -
  from listed_unbound [OF assms(1), of L_active] obtain xs where
    xs: "linked (next_of st) (tcp_active_pcbs st) xs" "\<forall>x \<in> set xs. unbound st x" by auto
  show ?thesis
    unfolding tcp_kill_prio_def res_all_simps
    by (rule res_all_weaken [OF kill_prio_scan_mem [OF xs(1)]])
      (use assms xs(2) in \<open>auto simp: tcp_abort_def intro!: tcp_abandon_inv\<close>)
qed

lemma tcp_kill_timewait_inv:
  assumes "lists_inv st" "env_keeps env" "fresh st MEMP_TCP_PCB"
  shows "res_all (\<lambda>x. lists_inv x \<and> fresh x MEMP_TCP_PCB) (tcp_kill_timewait env st)"
proof -
  from listed_unbound [OF assms(1), of L_tw] obtain xs where
    xs: "linked (next_of st) (tcp_tw_pcbs st) xs" "\<forall>x \<in> set xs. unbound st x" by auto
  show ?thesis
    unfolding tcp_kill_timewait_def res_all_simps
    by (rule res_all_weaken [OF kill_tw_scan_mem [OF xs(1)]])
      (use assms xs(2) in \<open>auto simp: tcp_abort_def intro!: tcp_abandon_inv\<close>)
qed

lemma malloc_pcb_cases:
  assumes "malloc_pcb st = (p, st')" "lists_inv st" "fresh st MEMP_TCP_PCB"
  shows "lists_inv st'" "p \<noteq> 0 \<Longrightarrow> common st' p = None" "p = 0 \<Longrightarrow> fresh st' MEMP_TCP_PCB"
proof -
  obtain ps where m: "memp_malloc (pools st) MEMP_TCP_PCB = (p, ps)" and st': "st' = st\<lparr>pools := ps\<rparr>"
    using assms(1) by (auto simp: malloc_pcb_def split: prod.splits)
  have c: "common st' = common st" by (rule common_cong) (simp_all add: st')
  show "lists_inv st'" using assms(2) st' by simp
  show "p \<noteq> 0 \<Longrightarrow> common st' p = None" using assms(3) memp_malloc_tab [OF m] unfolding c fresh_def by simp
  show "fresh st' MEMP_TCP_PCB" if "p = 0"
  proof -
    have "ps = pools st" using m that by (auto simp: memp_malloc_def Let_def split: if_splits)
    then show ?thesis using assms(3) st' by simp
  qed
qed

lemma new_pcb_inv:
  assumes "lists_inv st" "common st p = None" "p \<noteq> 0" "pcb_state c = CLOSED" "local_port c = 0"
  shows "lists_inv (put_pcb st p c)"
proof -
  from assms(1) obtain S I D where v: "vrel st S I D" and w: "wf_lists S I D" by (rule inv_cases)
  have i: "I p = None" using v assms(2) by (metis vrel_def info_None)
  have "wf_lists S (I(p \<mapsto> (False, CLOSED, 0))) D"
    by (rule wf_step [OF w]) (use wf_fresh [OF w i] wf_fresh_D [OF w i] assms(3) in \<open>auto simp: filed_def\<close>)
  then show ?thesis using new_pcb_vrel [OF v w i, of c] assms(4,5) by (intro lists_invI) simp_all
qed

lemma alloc_block_inv:
  assumes i: "lists_inv st" and n: "env_keeps env" and f: "fresh st MEMP_TCP_PCB"
  shows "res_all (\<lambda>x. lists_inv (snd x) \<and> (fst x \<noteq> 0 \<longrightarrow> common (snd x) (fst x) = None)) (alloc_block env st pr)"
proof -
  note m = malloc_pcb_cases [OF prod.collapse [symmetric]]
  have kp: "res_all (\<lambda>x. lists_inv (snd x) \<and> (fst x \<noteq> 0 \<longrightarrow> common (snd x) (fst x) = None))
      (rbind (tcp_kill_prio env s pr) (\<lambda>s'. Inr (malloc_pcb s')))" if "lists_inv s" "fresh s MEMP_TCP_PCB" for s
    unfolding res_all_simps by (rule tcp_kill_prio_inv [OF that(1) n that(2), THEN res_all_weaken]) (simp add: m)
  have kt: "res_all (\<lambda>x. lists_inv (snd x) \<and> (fst x \<noteq> 0 \<longrightarrow> common (snd x) (fst x) = None))
      (rbind (tcp_kill_timewait env s) (\<lambda>s'. case malloc_pcb s' of (p2, s3) \<Rightarrow>
            if p2 \<noteq> 0 then Inr (p2, s3)
            else rbind (tcp_kill_prio env s3 pr) (\<lambda>st4. Inr (malloc_pcb st4))))"
    if "lists_inv s" "fresh s MEMP_TCP_PCB" for s
    unfolding res_all_simps
    by (rule tcp_kill_timewait_inv [OF that(1) n that(2), THEN res_all_weaken])
      (use kp [simplified] m in \<open>auto simp: case_prod_beta\<close>)
  show ?thesis
    unfolding alloc_block_def using kt [simplified] m [OF i f] by (auto simp: case_prod_beta)
qed

lemma tcp_alloc_inv:
  assumes "lists_inv st" "env_keeps env" "fresh st MEMP_TCP_PCB"
  shows "res_all (\<lambda>x. lists_inv (snd x)) (tcp_alloc env st pr)"
proof -
  have c: "common (s\<lparr>tcp_iss := v\<rparr>) = common s" for s :: "'a tcp_st_scheme" and v by (rule common_cong) simp_all
  show ?thesis
    unfolding tcp_alloc_def res_all_simps
    by (rule alloc_block_inv [OF assms, THEN res_all_weaken])
      (auto simp: tcp_next_iss_def Let_def tcp_pcb_init_def c intro!: new_pcb_inv)
qed

section \<open>Writing and options\<close>

lemma write_wp:
  "res_all (\<lambda>x. ip_st.more (snd (snd x)) = ip_st.more st) (write_phase2 st c arg len m copy)"
  "res_all (\<lambda>x. ip_st.more (snd (snd (snd x))) = ip_st.more st) (write_loop fuel st p arg len m copy pos ql q)"
  by (rule res_allI; auto dest: write_phase2_keeps write_loop_keeps)+

lemmas write_iwp = write_wp [THEN lview_of_more, THEN iwp_lview]

lemma tcp_write_checks_iwp:
  assumes "lists_inv st" "\<And>x. lists_inv (snd x) \<Longrightarrow> P x"
  shows "res_all P (tcp_write_checks st p len)"
  using assms by (auto simp: tcp_write_checks_def intro!: get_pcb_wp)

lemma write_memerr_iwp:
  assumes "lists_inv st" "\<And>x. lists_inv (snd x) \<Longrightarrow> P x"
  shows "res_all P (write_memerr st p cp q)"
  using assms by (auto simp: write_memerr_def intro!: iwp)

lemma write_commit_iwp:
  assumes "lists_inv st" "\<And>x. lists_inv (snd x) \<Longrightarrow> P x"
  shows "res_all P (write_commit st p len fl cp ql q)"
proof -
  have c: "lists_inv (put_pcb s p (c\<lparr>unsent := u, snd_lbb := a, snd_buf := b, snd_queuelen := d\<rparr>))"
    if "tcp_pcbs st p = Some c" "ip_st.more s = ip_st.more st" for s c u a b d
    using that assms(1) lists_inv_lview [OF lview_more [OF that(2)]] tcp_fields_cong(1) [OF that(2)] by simp
  have "res_all (\<lambda>x. lists_inv (snd x)) (write_commit st p len fl cp ql q)"
    unfolding write_commit_def Let_def using assms(1)
    by (auto intro!: get_pcb_wp c lower_wp(5) [THEN res_all_weaken] read_wp split: option.split)
  then show ?thesis by (rule res_all_weaken) (rule assms(2))
qed

lemma tcp_write_inv: "lists_inv st \<Longrightarrow> res_all (\<lambda>x. lists_inv (snd x)) (tcp_write st p arg len fl)"
  unfolding tcp_write_def Let_def
  by (auto intro!: get_pcb_wp tcp_write_checks_iwp write_memerr_iwp write_commit_iwp write_iwp read_wp split: option.split)

lemma upd_common_inv:
  assumes "lists_inv st"
    and "\<And>c. pcb_next (f c) = pcb_next c \<and> pcb_state (f c) = pcb_state c \<and> local_port (f c) = local_port c"
    and "\<And>c. pcb_next (g c) = pcb_next c \<and> pcb_state (g c) = pcb_state c \<and> local_port (g c) = local_port c"
  shows "res_all lists_inv (upd_common st p f g)"
proof (rule res_allI)
  fix x
  assume u: "upd_common st p f g = Inr x"
  from assms(1) obtain S I D where v: "vrel st S I D" and w: "wf_lists S I D" by (rule inv_cases)
  from u have "common st p \<noteq> None" by (auto simp: upd_common_def common_def split: if_splits option.splits)
  then have "I p \<noteq> None" using v by (metis vrel_def info_None)
  then obtain k s q where i: "I p = Some (k, s, q)" by auto
  have "vrel x S (I(p \<mapsto> (k, s, q))) D"
    using upd_common_vrel [OF v i, of f g s q] assms(2,3) res_allD [OF _ u] by simp
  moreover have "I(p \<mapsto> (k, s, q)) = I" using i by (rule fun_upd_idem)
  ultimately show "lists_inv x" using w by (intro lists_invI) simp_all
qed

lemma options_inv:
  assumes "lists_inv st"
  shows "res_all lists_inv (tcp_setprio st p pr)" "res_all lists_inv (tcp_arg st p arg)"
    "res_all lists_inv (tcp_recv st p f)" "res_all lists_inv (tcp_sent st p f)" "res_all lists_inv (tcp_err st p f)"
    "res_all lists_inv (tcp_accept st p f)" "res_all lists_inv (tcp_poll st p f ivl)"
  using assms
  by (auto simp: tcp_setprio_def tcp_arg_def tcp_recv_def tcp_sent_def tcp_err_def tcp_accept_def tcp_poll_def
      intro!: upd_pcb_iwp upd_common_inv)

section \<open>Histories of calls\<close>

text \<open>
  A call of the API of \<^verbatim>\<open>tcp.c\<close> and \<^verbatim>\<open>tcp_out.c\<close> that does not fault. The conditions are those of the
  memory pools (the block handed out is not in use) and of the caller: only a closed block without a
  port is bound or aborted.
\<close>

inductive api_step :: "('a tcp_st_scheme) tcp_env \<Rightarrow> 'a tcp_st_scheme \<Rightarrow> 'a tcp_st_scheme \<Rightarrow> bool"
  for env :: "('a tcp_st_scheme) tcp_env" where
  step_new: "fresh st MEMP_TCP_PCB \<Longrightarrow> tcp_new env st = Inr (p, st') \<Longrightarrow> api_step env st st'"
| step_bind: "unbound st p \<Longrightarrow> tcp_bind st p ip port = Inr (e, st') \<Longrightarrow> api_step env st st'"
| step_listen: "fresh st MEMP_TCP_PCB_LISTEN \<Longrightarrow> tcp_listen_with_backlog st p bl = Inr (lp, st') \<Longrightarrow> api_step env st st'"
| step_connect: "tcp_connect (ipe env) st p ipaddr port f = Inr (e, st') \<Longrightarrow> api_step env st st'"
| step_close: "tcp_close (ipe env) st p = Inr (e, st') \<Longrightarrow> api_step env st st'"
| step_shutdown: "tcp_shutdown (ipe env) st p rx tx = Inr (e, st') \<Longrightarrow> api_step env st st'"
| step_abort: "unbound st p \<Longrightarrow> tcp_abort env st p = Inr st' \<Longrightarrow> api_step env st st'"
| step_recved: "tcp_recved (ipe env) st p n = Inr st' \<Longrightarrow> api_step env st st'"
| step_write: "tcp_write st p arg n fl = Inr (e, st') \<Longrightarrow> api_step env st st'"
| step_output: "tcp_output (ipe env) st p = Inr (e, st') \<Longrightarrow> api_step env st st'"
| step_arg: "tcp_arg st p a = Inr st' \<Longrightarrow> api_step env st st'"
| step_recv: "tcp_recv st p f = Inr st' \<Longrightarrow> api_step env st st'"
| step_accept: "tcp_accept st p f = Inr st' \<Longrightarrow> api_step env st st'"
| step_setprio: "tcp_setprio st p pr = Inr st' \<Longrightarrow> api_step env st st'"

lemma tcp_output_inv: "lists_inv st \<Longrightarrow> net_keeps env \<Longrightarrow> res_all (\<lambda>x. lists_inv (snd x)) (tcp_output env st p)"
  by (rule net_iwp(2))

lemmas op_invs =
  tcp_alloc_inv [THEN res_allD] tcp_bind_inv [THEN res_allD] tcp_listen_inv [THEN res_allD] tcp_connect_inv [THEN res_allD]
  tcp_close_inv [THEN res_allD] tcp_shutdown_inv [THEN res_allD] tcp_abandon_inv [THEN res_allD]
  tcp_recved_inv [THEN res_allD] tcp_write_inv [THEN res_allD] tcp_output_inv [THEN res_allD] options_inv [THEN res_allD]

lemma api_step_inv:
  assumes "api_step env st st'" "lists_inv st" "env_keeps env"
  shows "lists_inv st'"
proof -
  have n: "net_keeps (ipe env)" using assms(3) by (simp add: env_keeps_def)
  from assms(1) show ?thesis
    by cases (use assms(2,3) n in \<open>fastforce simp: tcp_new_def tcp_abort_def dest: op_invs\<close>)+
qed

text \<open>A state without blocks, as after \<^verbatim>\<open>tcp_init\<close>, and what calls make of it.\<close>

definition tcp_empty :: "'a tcp_st_scheme \<Rightarrow> bool" where
  "tcp_empty st \<longleftrightarrow> tcp_pcbs st = Map.empty \<and> tcp_lpcbs st = Map.empty \<and> (\<forall>l. head_of st l = 0)"

inductive api_reach :: "('a tcp_st_scheme) tcp_env \<Rightarrow> 'a tcp_st_scheme \<Rightarrow> bool"
  for env :: "('a tcp_st_scheme) tcp_env" where
  reach_start: "tcp_empty st \<Longrightarrow> api_reach env st"
| reach_step: "api_reach env st \<Longrightarrow> api_step env st st' \<Longrightarrow> api_reach env st'"

lemma tcp_empty_inv: "tcp_empty st \<Longrightarrow> lists_inv st"
proof (rule lists_invI)
  assume e: "tcp_empty st"
  have c: "common st p = None" for p using e by (simp add: tcp_empty_def common_def)
  have "lists_repr st (\<lambda>_. [])" using e by (simp add: lists_repr_def tcp_empty_def)
  then show "vrel st (\<lambda>_. {}) Map.empty {}" using e c by (auto simp: vrel_def info_def fun_eq_iff tcp_empty_def)
  show "wf_lists (\<lambda>_. {}) Map.empty {}" by (simp add: wf_lists_def)
qed

lemma api_reach_inv: "api_reach env st \<Longrightarrow> env_keeps env \<Longrightarrow> lists_inv st"
  by (induction rule: api_reach.induct) (auto intro: tcp_empty_inv api_step_inv)

section \<open>Unlinking\<close>

text \<open>What unlinking leaves alone: the blocks but for their \<open>next\<close>, and the ticks.\<close>

definition unchained :: "'a tcp_st_scheme \<Rightarrow> (addr \<Rightarrow> tcp_pcb option) \<times> u32" where
  "unchained st = ((\<lambda>x. map_option (\<lambda>c. c\<lparr>pcb_next := 0\<rparr>) (tcp_pcbs st x)), tcp_ticks st)"

lemma set_next_unchained: "set_next st p n = Inr st' \<Longrightarrow> unchained st' = unchained st"
  by (auto simp: set_next_def upd_common_def unchained_def fun_eq_iff split: if_splits option.splits)

lemma set_head_unchained [simp]: "unchained (set_head st l p) = unchained st"
  by (cases l) (simp_all add: unchained_def)

lemma unlink_after_spec:
  assumes "lists_repr st F" "F l = ys @ p # zs" "prev = (if ys = [] then 0 else last ys)"
  shows "\<exists>st'. unlink_after st l prev p = Inr ((case zs of [] \<Rightarrow> 0 | z # _ \<Rightarrow> z), st') \<and>
    lists_repr st' (F(l := ys @ zs)) \<and> info st' = info st \<and> unchained st' = unchained st"
proof -
  have L: "linked (next_of st) (head_of st k) (F k)" "distinct (F k)" "set (F k) \<subseteq> dom (common st)" for k
    using assms(1) by (simp_all add: lists_repr_def)
  have dis: "set (F k) \<inter> set (F k') = {}" if "k \<noteq> k'" for k k' using assms(1) that by (simp add: lists_repr_def)
  have p: "p \<in> set (F l)" using assms(2) by simp
  then obtain b where b: "common st p = Some b" using L(3) by blast
  have p0: "p \<noteq> 0" using p lists_repr_nonzero [OF assms(1), of l] by metis
  have nx: "pcb_next b = (case zs of [] \<Rightarrow> 0 | z # _ \<Rightarrow> z)"
    using linked_append_head [of "next_of st" "head_of st l" ys p zs] L(1) [of l] assms(2) b by (simp add: next_of_common)
  have g: "get_common st p = Inr b" using b p0 by (simp add: get_common_iff)
  let ?G = "F(l := ys @ zs)"
  have G: "distinct (?G k)" "set (?G k) \<subseteq> dom (common st)" for k using L(2,3) [of k] assms(2) by auto
  have disG: "set (?G k) \<inter> set (?G k') = {}" if "k \<noteq> k'" for k k' using dis [OF that] assms(2) by auto
  show ?thesis
  proof (cases ys rule: rev_cases)
    case Nil
    have "linked (next_of st) (pcb_next b) zs" using L(1) [of l] assms(2) Nil b by (simp add: next_of_common)
    then have "lists_repr (set_head st l (pcb_next b)) ?G"
      using Nil L(1) G disG unfolding lists_repr_def set_head_common head_of_set_head by auto
    then show ?thesis using Nil assms(3) g nx by (simp add: unlink_after_def)
  next
    case (snoc us q)
    then have Fl: "F l = us @ q # p # zs" using assms(2) by simp
    then have q: "q \<in> set (F l)" by simp
    then obtain bq where bq: "common st q = Some bq" using L(3) by blast
    have q0: "q \<noteq> 0" using q lists_repr_nonzero [OF assms(1), of l] by metis
    from set_next_spec [OF bq q0, of "pcb_next b"] obtain s where
      s: "set_next st q (pcb_next b) = Inr s" "next_of s = (next_of st)(q := pcb_next b)" "info s = info st"
        "head_of s = head_of st" by blast
    have "linked (next_of s) (head_of s k) (?G k)" for k
    proof (cases "k = l")
      case True
      have "linked (next_of st) (head_of st l) (us @ q # p # zs)" "distinct (us @ q # p # zs)"
        using L(1,2) [of l] Fl by simp_all
      from linked_remove [OF this] show ?thesis using True s(2,4) snoc b by (simp add: next_of_common)
    next
      case False
      then have "q \<notin> set (F k)" using dis [of k l] q by blast
      then show ?thesis using False L(1) [of k] s by simp
    qed
    moreover have "dom (common s) = dom (common st)" using s(3) by (simp add: dom_common_info)
    ultimately have "lists_repr s ?G" using G disG unfolding lists_repr_def by auto
    then show ?thesis using s snoc assms(3) g nx q0 set_next_unchained [OF s(1)] by (simp add: unlink_after_def)
  qed
qed

end
