(* ===== verification/TcpIn.thy ===== *)
theory TcpIn
  imports Tcp
begin

text \<open>
  TCP input: \<^verbatim>\<open>lwip-1.4.1/src/core/tcp_in.c\<close>. The static variables that \<^verbatim>\<open>tcp_input\<close> sets for one
  segment and its callees read and change are the record \<open>tcpin\<close>, passed beside the state; the
  addresses of the IP header are the globals \<^verbatim>\<open>current_iphdr_src\<close> and \<^verbatim>\<open>current_iphdr_dest\<close>. The
  header of the segment stays in memory: \<^verbatim>\<open>tcp_input\<close> converts its fields to host byte order in
  place, and the segments on the out of order queue keep their headers that way. The options of the
  configuration are those of \<^verbatim>\<open>lwipopts.h\<close>: \<^verbatim>\<open>TCP_QUEUE_OOSEQ\<close> and \<^verbatim>\<open>CHECKSUM_CHECK_TCP\<close> are 1,
  \<^verbatim>\<open>SO_REUSE\<close>, \<^verbatim>\<open>TCP_LISTEN_BACKLOG\<close>, \<^verbatim>\<open>LWIP_TCP_TIMESTAMPS\<close> and the limits of the out of order queue 0.
\<close>

section \<open>The segment being processed\<close>

record tcpin =
  inseg :: tcp_seg
  seqno :: u32
  ackno :: u32
  flags :: u8
  tcplen :: u16
  recv_flags :: u8
  recv_data :: addr
  iphdr_src :: u32
  iphdr_dest :: u32

definition TF_RESET :: u8 where "TF_RESET = 0x08"
definition TF_CLOSED :: u8 where "TF_CLOSED = 0x10"
definition TF_GOT_FIN :: u8 where "TF_GOT_FIN = 0x20"
definition PBUF_FLAG_PUSH :: u8 where "PBUF_FLAG_PUSH = 0x01"
definition SOF_INHERITED :: u8 where "SOF_INHERITED = 0x04 OR 0x08 OR 0x80"

text \<open>Fields of a header in host byte order.\<close>

definition hdr_src :: "memory \<Rightarrow> addr \<Rightarrow> u16 res" where "hdr_src m h = rd16 m h"
definition hdr_dest :: "memory \<Rightarrow> addr \<Rightarrow> u16 res" where "hdr_dest m h = rd16 m (h + 2)"
definition hdr_seqno :: "memory \<Rightarrow> addr \<Rightarrow> u32 res" where "hdr_seqno m h = rd32 m (h + 4)"
definition hdr_wnd :: "memory \<Rightarrow> addr \<Rightarrow> u16 res" where "hdr_wnd m h = rd16 m (h + 14)"

definition tcp_ack_now :: "'a tcp_st_scheme \<Rightarrow> addr \<Rightarrow> 'a tcp_st_scheme res" where
  "tcp_ack_now st pcb = upd_pcb st pcb (\<lambda>c. c\<lparr>pcb_flags := pcb_flags c OR TF_ACK_NOW\<rparr>)"

definition tcp_ack :: "'a tcp_st_scheme \<Rightarrow> addr \<Rightarrow> 'a tcp_st_scheme res" where
  "tcp_ack st pcb = upd_pcb st pcb (\<lambda>c.
     if pcb_flags c AND TF_ACK_DELAY \<noteq> 0
     then c\<lparr>pcb_flags := (pcb_flags c AND NOT TF_ACK_DELAY) OR TF_ACK_NOW\<rparr>
     else c\<lparr>pcb_flags := pcb_flags c OR TF_ACK_DELAY\<rparr>)"

text \<open>The reset that answers an unacceptable segment.\<close>

definition rst_reply :: "('a tcp_st_scheme) ip_env \<Rightarrow> tcpin \<Rightarrow> 'a tcp_st_scheme \<Rightarrow> 'a tcp_st_scheme res" where
  "rst_reply env i st =
     rbind (hdr_dest (bytes st) (tcphdr (inseg i))) (\<lambda>d.
     rbind (hdr_src (bytes st) (tcphdr (inseg i))) (\<lambda>s.
       tcp_rst env st (ackno i) (seqno i + ucast (tcplen i)) (iphdr_dest i) (iphdr_src i) d s))"

section \<open>Options\<close>

text \<open>
  The loop over the options at \<open>opts\<close>. \<open>c\<close> stays below \<open>40 + 255\<close>, far from the bound of its type
  \<^verbatim>\<open>u16_t\<close>. The length byte of an option is read before it is known to lie inside the options.
\<close>

function parseopt_loop :: "memory \<Rightarrow> addr \<Rightarrow> nat \<Rightarrow> nat \<Rightarrow> u16 \<Rightarrow> u16 res" where
  "parseopt_loop m opts max_c c mss0 =
     (if c < max_c then
        rbind (rd8 m (opts + c)) (\<lambda>opt.
          if opt = 0 then Inr mss0
          else if opt = 1 then parseopt_loop m opts max_c (c + 1) mss0
          else if opt = 2 then
            rbind (rd8 m (opts + c + 1)) (\<lambda>len.
              if len \<noteq> 4 \<or> max_c < c + 4 then Inr mss0
              else rbind (rd8 m (opts + c + 2)) (\<lambda>hi. rbind (rd8 m (opts + c + 3)) (\<lambda>lo.
                let v = push_bit 8 (ucast hi) OR ucast lo :: u16
                in parseopt_loop m opts max_c (c + 4) (if TCP_MSS < v \<or> v = 0 then TCP_MSS else v))))
          else
            rbind (rd8 m (opts + c + 1)) (\<lambda>len.
              if len = 0 then Inr mss0 else parseopt_loop m opts max_c (c + unat len) mss0))
      else Inr mss0)"
  by pat_completeness auto
termination
  by (relation "measure (\<lambda>(m, opts, max_c, c, mss0). max_c - c)") 
    (auto intro!: diff_less_mono2 simp: unat_gt_0)

declare parseopt_loop.simps [simp del]

definition tcp_parseopt :: "tcpin \<Rightarrow> 'a tcp_st_scheme \<Rightarrow> addr \<Rightarrow> 'a tcp_st_scheme res" where
  "tcp_parseopt i st pcb =
     rbind (TCPH_HDRLEN (bytes st) (tcphdr (inseg i))) (\<lambda>hl.
       if 5 < hl then
         rbind (get_pcb st pcb) (\<lambda>c.
         rbind (parseopt_loop (bytes st) (tcphdr (inseg i) + 20) ((unat hl - 5) * 4) 0 (mss c)) (\<lambda>mss'.
           Inr (put_pcb st pcb (c\<lparr>mss := mss'\<rparr>))))
       else Inr st)"

section \<open>Acknowledgements\<close>

definition update_send_window :: "tcpin \<Rightarrow> u16 \<Rightarrow> tcp_pcb \<Rightarrow> tcp_pcb" where
  "update_send_window i wnd c =
     (if TCP_SEQ_LT (snd_wl1 c) (seqno i)
         \<or> (snd_wl1 c = seqno i \<and> TCP_SEQ_LT (snd_wl2 c) (ackno i))
         \<or> (snd_wl2 c = ackno i \<and> snd_wnd c < wnd)
      then c\<lparr>snd_wnd := wnd, snd_wnd_max := (if snd_wnd_max c < wnd then wnd else snd_wnd_max c),
             snd_wl1 := seqno i, snd_wl2 := ackno i,
             persist_cnt := (if wnd = 0 \<and> persist_backoff c = 0 then 0 else persist_cnt c),
             persist_backoff := (if wnd = 0 then (if persist_backoff c = 0 then 1 else persist_backoff c) else 0)\<rparr>
      else c)"

text \<open>An acknowledgement of nothing new: is it a duplicate, and the third one?\<close>

definition duplicate_ack :: "tcpin \<Rightarrow> 'a tcp_st_scheme \<Rightarrow> addr \<Rightarrow> u32 \<Rightarrow> 'a tcp_st_scheme res" where
  "duplicate_ack i st pcb right_wnd_edge =
     rbind (get_pcb st pcb) (\<lambda>c0.
       let c = c0\<lparr>acked := 0\<rparr> in
       if tcplen i = 0 \<and> snd_wl2 c + ucast (snd_wnd c) = right_wnd_edge \<and> 0 \<le> sint (rtime c) \<and> lastack c = ackno i
       then
         let n = (if dupacks c < dupacks c + 1 then dupacks c + 1 else dupacks c);
             c1 = c\<lparr>dupacks := n\<rparr>
         in if 3 < n then
              Inr (put_pcb st pcb (if cwnd c < cwnd c + mss c then c1\<lparr>cwnd := cwnd c + mss c\<rparr> else c1))
            else if n = 3 then tcp_rexmit_fast (put_pcb st pcb c1) pcb
            else Inr (put_pcb st pcb c1)
       else Inr (put_pcb st pcb (c\<lparr>dupacks := 0\<rparr>)))"

text \<open>
  Slow start and congestion avoidance. The square of \<open>mss\<close> fits an \<^verbatim>\<open>int\<close> because \<open>mss\<close> is at most
  \<open>TCP_MSS\<close>; the quotient is stored in 16 bits.
\<close>

definition grow_cwnd :: "tcp_pcb \<Rightarrow> tcp_pcb res" where
  "grow_cwnd c =
     (if cwnd c < ssthresh c then
        Inr (if cwnd c < cwnd c + mss c then c\<lparr>cwnd := cwnd c + mss c\<rparr> else c)
      else if cwnd c = 0 then Inl Div_by_zero
      else
        let new_cwnd = of_nat (unat (cwnd c) + unat (mss c) * unat (mss c) div unat (cwnd c))
        in Inr (if cwnd c < new_cwnd then c\<lparr>cwnd := new_cwnd\<rparr> else c))"

text \<open>One acknowledged segment leaves its queue; a \<^verbatim>\<open>FIN\<close> does not count as acknowledged data.\<close>

definition release_seg ::
  "'a tcp_st_scheme \<Rightarrow> addr \<Rightarrow> tcp_seg \<Rightarrow> (tcp_pcb \<Rightarrow> tcp_pcb) \<Rightarrow> 'a tcp_st_scheme res" where
  "release_seg st pcb seg unlink =
     rbind (upd_pcb st pcb unlink) (\<lambda>st1.
     rbind (TCPH_FLAGS (bytes st1) (tcphdr seg)) (\<lambda>fl.
     rbind (pbuf_clen st1 (seg_p seg)) (\<lambda>n.
     rbind (upd_pcb st1 pcb (\<lambda>c.
              c\<lparr>acked := (if acked c \<noteq> 0 \<and> fl AND TCP_FIN \<noteq> 0 then acked c - 1 else acked c),
                snd_queuelen := snd_queuelen c - ucast n\<rparr>)) (\<lambda>st2.
       tcp_seg_free st2 seg))))"

fun acked_unacked :: "'a tcp_st_scheme \<Rightarrow> addr \<Rightarrow> u32 \<Rightarrow> tcp_seg list \<Rightarrow> 'a tcp_st_scheme res" where
  "acked_unacked st pcb ack [] = Inr st"
| "acked_unacked st pcb ack (seg # segs) =
     rbind (seg_seqno (bytes st) seg) (\<lambda>s. rbind (TCP_TCPLEN (bytes st) seg) (\<lambda>n.
       if TCP_SEQ_LEQ (s + n) ack then
         rbind (release_seg st pcb seg (\<lambda>c. c\<lparr>unacked := segs\<rparr>)) (\<lambda>st1. acked_unacked st1 pcb ack segs)
       else Inr st))"

fun acked_unsent :: "'a tcp_st_scheme \<Rightarrow> addr \<Rightarrow> u32 \<Rightarrow> tcp_seg list \<Rightarrow> 'a tcp_st_scheme res" where
  "acked_unsent st pcb ack [] = Inr st"
| "acked_unsent st pcb ack (seg # segs) =
     rbind (seg_seqno (bytes st) seg) (\<lambda>s. rbind (TCP_TCPLEN (bytes st) seg) (\<lambda>n.
     rbind (get_pcb st pcb) (\<lambda>c.
       if TCP_SEQ_BETWEEN ack (s + n) (snd_nxt c) then
         rbind (release_seg st pcb seg (\<lambda>c. c\<lparr>unsent := segs\<rparr>)) (\<lambda>st1. acked_unsent st1 pcb ack segs)
       else Inr st)))"

text \<open>An acknowledgement of new data: \<open>lastack\<close> advances and the windows open.\<close>

definition ack_counters :: "u32 \<Rightarrow> tcp_pcb \<Rightarrow> tcp_pcb" where
  "ack_counters ack c0 =
     (let c = (if pcb_flags c0 AND TF_INFR \<noteq> 0
               then c0\<lparr>pcb_flags := pcb_flags c0 AND NOT TF_INFR, cwnd := ssthresh c0\<rparr> else c0);
          n = ucast (ack - lastack c)
      in c\<lparr>nrtx := 0, rto := of_int (sint (sa c) div 8 + sint (sv c)), acked := n, snd_buf := snd_buf c + n,
           dupacks := 0, lastack := ack\<rparr>)"

definition new_ack :: "tcpin \<Rightarrow> 'a tcp_st_scheme \<Rightarrow> addr \<Rightarrow> 'a tcp_st_scheme res" where
  "new_ack i st pcb =
     rbind (get_pcb st pcb) (\<lambda>c0.
       let c = ack_counters (ackno i) c0 in
       rbind (if ESTABLISHED \<le> pcb_state c then grow_cwnd c else Inr c) (\<lambda>c1.
       rbind (acked_unacked (put_pcb st pcb c1) pcb (ackno i) (unacked c1)) (\<lambda>st1.
         upd_pcb st1 pcb (\<lambda>c. c\<lparr>rtime := (if unacked c = [] then - 1 else 0), polltmr := 0\<rparr>))))"

text \<open>The round-trip time estimate; the differences are kept in 16 signed bits.\<close>

definition rtt_estimate :: "u32 \<Rightarrow> u32 \<Rightarrow> tcp_pcb \<Rightarrow> tcp_pcb" where
  "rtt_estimate ticks ack c =
     (if rttest c \<noteq> 0 \<and> TCP_SEQ_LT (rtseq c) ack then
        let m1 = ucast (ticks - rttest c) - of_int (sint (sa c) div 8) :: u16;
            sa' = sa c + m1;
            m2 = (if sint m1 < 0 then - m1 else m1) - of_int (sint (sv c) div 4);
            sv' = sv c + m2
        in c\<lparr>sa := sa', sv := sv', rto := of_int (sint sa' div 8 + sint sv'), rttest := 0\<rparr>
      else c)"

definition receive_ack :: "tcpin \<Rightarrow> 'a tcp_st_scheme \<Rightarrow> addr \<Rightarrow> 'a tcp_st_scheme res" where
  "receive_ack i st pcb =
     rbind (get_pcb st pcb) (\<lambda>c0.
     rbind (hdr_wnd (bytes st) (tcphdr (inseg i))) (\<lambda>wnd.
       let right_wnd_edge = ucast (snd_wnd c0) + snd_wl2 c0;
           c = update_send_window i wnd c0;
           st1 = put_pcb st pcb c
       in rbind (if TCP_SEQ_LEQ (ackno i) (lastack c) then duplicate_ack i st1 pcb right_wnd_edge
                 else if TCP_SEQ_BETWEEN (ackno i) (lastack c + 1) (snd_nxt c) then new_ack i st1 pcb
                 else Inr (put_pcb st1 pcb (c\<lparr>acked := 0\<rparr>))) (\<lambda>st2.
          rbind (get_pcb st2 pcb) (\<lambda>c2.
          rbind (acked_unsent st2 pcb (ackno i) (unsent c2)) (\<lambda>st3.
            upd_pcb st3 pcb (rtt_estimate (tcp_ticks st3) (ackno i)))))))"

section \<open>Data in sequence\<close>

text \<open>The pbufs that hold only bytes received before are emptied; \<open>off\<close> is an \<^verbatim>\<open>s32_t\<close>.\<close>

primrec trim_loop :: "nat \<Rightarrow> 'a tcp_st_scheme \<Rightarrow> addr \<Rightarrow> int \<Rightarrow> u16 \<Rightarrow> (addr \<times> int \<times> 'a tcp_st_scheme) res" where
  "trim_loop 0 st p off new_tot_len = Inl Out_of_fuel"
| "trim_loop (Suc fuel) st p off new_tot_len =
     rbind (get_pbuf st p) (\<lambda>b.
       if int (unat (pb_len b)) < off then
         trim_loop fuel (put_pbuf st p (b\<lparr>tot_len := new_tot_len, pb_len := 0\<rparr>)) (pb_next b)
           (off - int (unat (pb_len b))) new_tot_len
       else Inr (p, off, st))"

text \<open>The failure of \<^verbatim>\<open>pbuf_header\<close> is only asserted against.\<close>

definition trim_front :: "tcpin \<Rightarrow> 'a tcp_st_scheme \<Rightarrow> addr \<Rightarrow> (tcpin \<times> 'a tcp_st_scheme) res" where
  "trim_front i st pcb =
     rbind (get_pcb st pcb) (\<lambda>c.
       if TCP_SEQ_BETWEEN (rcv_nxt c) (seqno i + 1) (seqno i + ucast (tcplen i) - 1) then
         let off = sint (rcv_nxt c - seqno i); p = seg_p (inseg i) in
         rbind (get_pbuf st p) (\<lambda>b.
         rbind (if int (unat (pb_len b)) < off then
                  rbind (trim_loop chain_fuel st p off (tot_len b - of_int off)) (\<lambda>(q, off', st1).
                    pbuf_header st1 q (of_int (- off')))
                else pbuf_header st p (of_int (- off))) (\<lambda>(_, st1).
         rbind (wr32 (bytes st1) (tcphdr (inseg i) + 4) (rcv_nxt c)) (\<lambda>m.
           Inr (i\<lparr>inseg := (inseg i)\<lparr>seg_len := seg_len (inseg i) - ucast (rcv_nxt c - seqno i)\<rparr>,
                  seqno := rcv_nxt c\<rparr>, st1\<lparr>bytes := m\<rparr>))))
       else if TCP_SEQ_LT (seqno i) (rcv_nxt c) then rbind (tcp_ack_now st pcb) (\<lambda>st1. Inr (i, st1))
       else Inr (i, st))"

text \<open>\<^verbatim>\<open>tcplen = TCP_TCPLEN(&inseg)\<close>.\<close>

definition set_tcplen :: "tcpin \<Rightarrow> 'a tcp_st_scheme \<Rightarrow> tcpin res" where
  "set_tcplen i st = rbind (TCP_TCPLEN (bytes st) (inseg i)) (\<lambda>n. Inr (i\<lparr>tcplen := ucast n\<rparr>))"

text \<open>Cut the segment to \<open>n\<close> sequence numbers, one of them for a \<^verbatim>\<open>SYN\<close>.\<close>

definition cut_inseg :: "tcpin \<Rightarrow> 'a tcp_st_scheme \<Rightarrow> u16 \<Rightarrow> (tcpin \<times> 'a tcp_st_scheme) res" where
  "cut_inseg i st n =
     rbind (TCPH_FLAGS (bytes st) (tcphdr (inseg i))) (\<lambda>fl.
       let len = (if fl AND TCP_SYN \<noteq> 0 then n - 1 else n);
           i1 = i\<lparr>inseg := (inseg i)\<lparr>seg_len := len\<rparr>\<rparr>
       in rbind (pbuf_realloc st (seg_p (inseg i)) len) (\<lambda>st1.
          rbind (set_tcplen i1 st1) (\<lambda>i2. Inr (i2, st1))))"

definition clear_fin :: "'a tcp_st_scheme \<Rightarrow> addr \<Rightarrow> 'a tcp_st_scheme res" where
  "clear_fin st h =
     rbind (TCPH_FLAGS (bytes st) h) (\<lambda>fl.
       if fl AND TCP_FIN \<noteq> 0 then
         rbind (TCPH_FLAGS_SET (bytes st) h (fl AND NOT TCP_FIN)) (\<lambda>m. Inr (st\<lparr>bytes := m\<rparr>))
       else Inr st)"

text \<open>The other end overran the window: the segment is cut to it.\<close>

definition clip_to_window :: "tcpin \<Rightarrow> 'a tcp_st_scheme \<Rightarrow> addr \<Rightarrow> (tcpin \<times> 'a tcp_st_scheme) res" where
  "clip_to_window i st pcb =
     rbind (set_tcplen i st) (\<lambda>i1.
     rbind (get_pcb st pcb) (\<lambda>c.
       if rcv_wnd c < tcplen i1 then
         rbind (clear_fin st (tcphdr (inseg i1))) (\<lambda>st1. cut_inseg i1 st1 (rcv_wnd c))
       else Inr (i1, st)))"

text \<open>
  The segments of the out of order queue that the new one covers are freed, and their \<^verbatim>\<open>FIN\<close> is taken
  over. The result has what remains of the queue.
\<close>

fun drop_covered ::
  "tcpin \<Rightarrow> 'a tcp_st_scheme \<Rightarrow> tcp_seg list \<Rightarrow> (tcpin \<times> tcp_seg list \<times> 'a tcp_st_scheme) res" where
  "drop_covered i st [] = Inr (i, [], st)"
| "drop_covered i st (nx # segs) =
     rbind (hdr_seqno (bytes st) (tcphdr nx)) (\<lambda>s.
       if TCP_SEQ_GEQ (seqno i + ucast (tcplen i)) (s + ucast (seg_len nx)) then
         rbind (TCPH_FLAGS (bytes st) (tcphdr nx)) (\<lambda>fl.
         rbind (TCPH_FLAGS (bytes st) (tcphdr (inseg i))) (\<lambda>fl0.
         rbind (if fl AND TCP_FIN \<noteq> 0 \<and> fl0 AND TCP_SYN = 0 then
                  rbind (TCPH_SET_FLAG (bytes st) (tcphdr (inseg i)) TCP_FIN) (\<lambda>m.
                  rbind (set_tcplen i (st\<lparr>bytes := m\<rparr>)) (\<lambda>i1. Inr (i1, st\<lparr>bytes := m\<rparr>)))
                else Inr (i, st)) (\<lambda>(i1, st1).
         rbind (tcp_seg_free st1 nx) (\<lambda>st2. drop_covered i1 st2 segs))))
       else Inr (i, nx # segs, st))"

definition merge_ooseq :: "tcpin \<Rightarrow> 'a tcp_st_scheme \<Rightarrow> addr \<Rightarrow> (tcpin \<times> 'a tcp_st_scheme) res" where
  "merge_ooseq i st pcb =
     rbind (get_pcb st pcb) (\<lambda>c.
       if ooseq c = [] then Inr (i, st)
       else rbind (TCPH_FLAGS (bytes st) (tcphdr (inseg i))) (\<lambda>fl.
         if fl AND TCP_FIN \<noteq> 0 then
           rbind (tcp_segs_free st (ooseq c)) (\<lambda>st1.
           rbind (upd_pcb st1 pcb (\<lambda>c. c\<lparr>ooseq := []\<rparr>)) (\<lambda>st2. Inr (i, st2)))
         else
           rbind (drop_covered i st (ooseq c)) (\<lambda>(i1, queue, st1).
           rbind (case queue of
                    [] \<Rightarrow> Inr (i1, st1)
                  | nx # _ \<Rightarrow>
                      rbind (hdr_seqno (bytes st1) (tcphdr nx)) (\<lambda>s.
                        if TCP_SEQ_GT (seqno i1 + ucast (tcplen i1)) s
                        then cut_inseg i1 st1 (ucast (s - seqno i1)) else Inr (i1, st1))) (\<lambda>(i2, st2).
           rbind (upd_pcb st2 pcb (\<lambda>c. c\<lparr>ooseq := queue\<rparr>)) (\<lambda>st3. Inr (i2, st3))))))"

text \<open>Advance over \<open>n\<close> received sequence numbers, starting at \<open>start\<close>.\<close>

definition advance_rcv :: "u32 \<Rightarrow> u32 \<Rightarrow> tcp_pcb \<Rightarrow> tcp_pcb" where
  "advance_rcv start n c =
     snd (tcp_update_rcv_ann_wnd (c\<lparr>rcv_nxt := start + n, rcv_wnd := rcv_wnd c - ucast n\<rparr>))"

text \<open>A \<^verbatim>\<open>FIN\<close> that was received out of order is in sequence now.\<close>

definition note_fin :: "tcpin \<Rightarrow> 'a tcp_st_scheme \<Rightarrow> addr \<Rightarrow> addr \<Rightarrow> (tcpin \<times> 'a tcp_st_scheme) res" where
  "note_fin i st pcb h =
     rbind (TCPH_FLAGS (bytes st) h) (\<lambda>fl.
       if fl AND TCP_FIN \<noteq> 0 then
         rbind (upd_pcb st pcb (\<lambda>c. if pcb_state c = ESTABLISHED then c\<lparr>pcb_state := CLOSE_WAIT\<rparr> else c)) (\<lambda>st1.
           Inr (i\<lparr>recv_flags := recv_flags i OR TF_GOT_FIN\<rparr>, st1))
       else Inr (i, st))"

text \<open>The data of a segment of the queue goes behind the data received so far.\<close>

definition take_data :: "tcpin \<Rightarrow> 'a tcp_st_scheme \<Rightarrow> tcp_seg \<Rightarrow> (tcpin \<times> tcp_seg \<times> 'a tcp_st_scheme) res" where
  "take_data i st cseg =
     rbind (get_pbuf st (seg_p cseg)) (\<lambda>b.
       if 0 < tot_len b then
         (if recv_data i \<noteq> 0
          then rbind (pbuf_cat st (recv_data i) (seg_p cseg)) (\<lambda>st1. Inr (i, cseg\<lparr>seg_p := 0\<rparr>, st1))
          else Inr (i\<lparr>recv_data := seg_p cseg\<rparr>, cseg\<lparr>seg_p := 0\<rparr>, st))
       else Inr (i, cseg, st))"

text \<open>The segments of the out of order queue that are in sequence now.\<close>

fun drain_ooseq ::
  "tcpin \<Rightarrow> 'a tcp_st_scheme \<Rightarrow> addr \<Rightarrow> tcp_seg list \<Rightarrow> (tcpin \<times> 'a tcp_st_scheme) res" where
  "drain_ooseq i st pcb [] = Inr (i, st)"
| "drain_ooseq i st pcb (cseg # segs) =
     rbind (hdr_seqno (bytes st) (tcphdr cseg)) (\<lambda>s. rbind (get_pcb st pcb) (\<lambda>c.
       if s \<noteq> rcv_nxt c then Inr (i, st)
       else
         rbind (TCP_TCPLEN (bytes st) cseg) (\<lambda>n.
         rbind (upd_pcb st pcb (advance_rcv (rcv_nxt c) n)) (\<lambda>st1.
         rbind (take_data i st1 cseg) (\<lambda>(i1, cseg1, st2).
         rbind (note_fin i1 st2 pcb (tcphdr cseg)) (\<lambda>(i2, st3).
         rbind (upd_pcb st3 pcb (\<lambda>c. c\<lparr>ooseq := segs\<rparr>)) (\<lambda>st4.
         rbind (tcp_seg_free st4 cseg1) (\<lambda>st5.
           drain_ooseq (i2\<lparr>seqno := s\<rparr>) st5 pcb segs))))))))"

definition in_sequence :: "tcpin \<Rightarrow> 'a tcp_st_scheme \<Rightarrow> addr \<Rightarrow> (tcpin \<times> 'a tcp_st_scheme) res" where
  "in_sequence i st pcb =
     rbind (clip_to_window i st pcb) (\<lambda>(i1, st1).
     rbind (merge_ooseq i1 st1 pcb) (\<lambda>(i2, st2).
     rbind (upd_pcb st2 pcb (advance_rcv (seqno i2) (ucast (tcplen i2)))) (\<lambda>st3.
     rbind (get_pbuf st3 (seg_p (inseg i2))) (\<lambda>b.
       let i3 = (if 0 < tot_len b
                 then i2\<lparr>recv_data := seg_p (inseg i2), inseg := (inseg i2)\<lparr>seg_p := 0\<rparr>\<rparr> else i2)
       in rbind (TCPH_FLAGS (bytes st3) (tcphdr (inseg i3))) (\<lambda>fl.
          let i4 = (if fl AND TCP_FIN \<noteq> 0 then i3\<lparr>recv_flags := recv_flags i3 OR TF_GOT_FIN\<rparr> else i3)
          in rbind (get_pcb st3 pcb) (\<lambda>c.
             rbind (drain_ooseq i4 st3 pcb (ooseq c)) (\<lambda>(i5, st4).
             rbind (tcp_ack st4 pcb) (\<lambda>st5. Inr (i5, st5)))))))))"

section \<open>Data out of sequence\<close>

text \<open>
  The segments behind the new one: those it covers are freed; when the next one only overlaps, the
  new one is cut. The results are the new segment and what follows it.
\<close>

fun oos_covered ::
  "tcpin \<Rightarrow> 'a tcp_st_scheme \<Rightarrow> tcp_seg \<Rightarrow> tcp_seg list \<Rightarrow> (tcp_seg list \<times> 'a tcp_st_scheme) res" where
  "oos_covered i st cseg [] = Inr ([], st)"
| "oos_covered i st cseg (nx # segs) =
     rbind (hdr_seqno (bytes st) (tcphdr nx)) (\<lambda>s.
       if TCP_SEQ_GEQ (seqno i + ucast (seg_len cseg)) (s + ucast (seg_len nx)) then
         rbind (TCPH_FLAGS (bytes st) (tcphdr nx)) (\<lambda>fl.
         rbind (if fl AND TCP_FIN \<noteq> 0 then
                  rbind (TCPH_SET_FLAG (bytes st) (tcphdr cseg) TCP_FIN) (\<lambda>m. Inr (st\<lparr>bytes := m\<rparr>))
                else Inr st) (\<lambda>st1.
         rbind (tcp_seg_free st1 nx) (\<lambda>st2. oos_covered i st2 cseg segs)))
       else Inr (nx # segs, st))"

definition cut_seg :: "'a tcp_st_scheme \<Rightarrow> tcp_seg \<Rightarrow> u16 \<Rightarrow> (tcp_seg \<times> 'a tcp_st_scheme) res" where
  "cut_seg st seg len =
     rbind (pbuf_realloc st (seg_p seg) len) (\<lambda>st1. Inr (seg\<lparr>seg_len := len\<rparr>, st1))"

definition tcp_oos_insert_segment ::
  "tcpin \<Rightarrow> 'a tcp_st_scheme \<Rightarrow> tcp_seg \<Rightarrow> tcp_seg list \<Rightarrow> (tcp_seg list \<times> 'a tcp_st_scheme) res" where
  "tcp_oos_insert_segment i st cseg next_segs =
     rbind (TCPH_FLAGS (bytes st) (tcphdr cseg)) (\<lambda>fl.
       if fl AND TCP_FIN \<noteq> 0 then rbind (tcp_segs_free st next_segs) (\<lambda>st1. Inr ([cseg], st1))
       else
         rbind (oos_covered i st cseg next_segs) (\<lambda>(rest, st1).
           case rest of
             [] \<Rightarrow> Inr ([cseg], st1)
           | nx # _ \<Rightarrow>
               rbind (hdr_seqno (bytes st1) (tcphdr nx)) (\<lambda>s.
                 if TCP_SEQ_GT (seqno i + ucast (seg_len cseg)) s then
                   rbind (cut_seg st1 cseg (ucast (s - seqno i))) (\<lambda>(cseg1, st2). Inr (cseg1 # rest, st2))
                 else Inr (cseg # rest, st1))))"

text \<open>\<open>prev\<close> keeps only the bytes before the new segment.\<close>

definition trim_prev :: "tcpin \<Rightarrow> 'a tcp_st_scheme \<Rightarrow> tcp_seg \<Rightarrow> (tcp_seg \<times> 'a tcp_st_scheme) res" where
  "trim_prev i st prev =
     rbind (hdr_seqno (bytes st) (tcphdr prev)) (\<lambda>s.
       if TCP_SEQ_GT (s + ucast (seg_len prev)) (seqno i)
       then cut_seg st prev (ucast (seqno i - s)) else Inr (prev, st))"

text \<open>The new segment goes to the end of the queue, cut to the window. The comparison is of plain numbers.\<close>

definition append_ooseq ::
  "tcpin \<Rightarrow> 'a tcp_st_scheme \<Rightarrow> tcp_pcb \<Rightarrow> tcp_seg \<Rightarrow> (tcpin \<times> tcp_seg list \<times> 'a tcp_st_scheme) res" where
  "append_ooseq i st c nx =
     rbind (TCPH_FLAGS (bytes st) (tcphdr nx)) (\<lambda>fl.
       if fl AND TCP_FIN \<noteq> 0 then Inr (i, [nx], st)
       else rbind (tcp_seg_copy st (inseg i)) (\<lambda>(copy, st1).
         case copy of
           None \<Rightarrow> Inr (i, [nx], st1)
         | Some cseg \<Rightarrow>
             rbind (trim_prev i st1 nx) (\<lambda>(nx1, st2).
               if rcv_nxt c + ucast (rcv_wnd c) < ucast (tcplen i) + seqno i then
                 rbind (clear_fin st2 (tcphdr cseg)) (\<lambda>st3.
                 rbind (cut_seg st3 cseg (ucast (rcv_nxt c + ucast (rcv_wnd c) - seqno i))) (\<lambda>(cseg1, st4).
                 rbind (TCP_TCPLEN (bytes st4) cseg1) (\<lambda>n.
                   Inr (i\<lparr>tcplen := ucast n\<rparr>, [nx1, cseg1], st4))))
               else Inr (i, [nx1, cseg], st2))))"

text \<open>A copy of the new segment in front of \<open>next_segs\<close>, or the queue as it was when there is no memory.\<close>

definition insert_copy ::
  "tcpin \<Rightarrow> 'a tcp_st_scheme \<Rightarrow> tcp_seg option \<Rightarrow> tcp_seg list \<Rightarrow> (tcp_seg list \<times> 'a tcp_st_scheme) res" where
  "insert_copy i st prev next_segs =
     rbind (tcp_seg_copy st (inseg i)) (\<lambda>(copy, st1).
       case copy of
         None \<Rightarrow> Inr ((case prev of None \<Rightarrow> [] | Some p \<Rightarrow> [p]) @ next_segs, st1)
       | Some cseg \<Rightarrow>
           rbind (case prev of None \<Rightarrow> Inr ([], st1)
                  | Some p \<Rightarrow> rbind (trim_prev i st1 p) (\<lambda>(p1, st2). Inr ([p1], st2))) (\<lambda>(front, st2).
           rbind (tcp_oos_insert_segment i st2 cseg next_segs) (\<lambda>(behind, st3). Inr (front @ behind, st3))))"

text \<open>
  The walk along the queue: \<open>front\<close> are the segments passed, the last of them is \<^verbatim>\<open>prev\<close>. The result
  is the whole queue.
\<close>

fun ooseq_walk ::
  "tcpin \<Rightarrow> 'a tcp_st_scheme \<Rightarrow> tcp_pcb \<Rightarrow> tcp_seg list \<Rightarrow> tcp_seg list
     \<Rightarrow> (tcpin \<times> tcp_seg list \<times> 'a tcp_st_scheme) res" where
  "ooseq_walk i st c front [] = Inr (i, front, st)"
| "ooseq_walk i st c front (nx # segs) =
     rbind (hdr_seqno (bytes st) (tcphdr nx)) (\<lambda>s.
       if seqno i = s then
         (if seg_len nx < seg_len (inseg i) then
            rbind (insert_copy i st None (nx # segs)) (\<lambda>(queue, st1). Inr (i, front @ queue, st1))
          else Inr (i, front @ nx # segs, st))
       else
         rbind (if front = [] then Inr (TCP_SEQ_LT (seqno i) s)
                else rbind (hdr_seqno (bytes st) (tcphdr (last front))) (\<lambda>sp.
                  Inr (TCP_SEQ_BETWEEN (seqno i) (sp + 1) (s - 1)))) (\<lambda>here.
           if here then
             (if front = [] then
                rbind (insert_copy i st None (nx # segs)) (\<lambda>(queue, st1). Inr (i, queue, st1))
              else
                rbind (insert_copy i st (Some (last front)) (nx # segs)) (\<lambda>(queue, st1).
                  Inr (i, butlast front @ queue, st1)))
           else if segs = [] \<and> TCP_SEQ_GT (seqno i) s then
             rbind (append_ooseq i st c nx) (\<lambda>(i1, queue, st1). Inr (i1, front @ queue, st1))
           else ooseq_walk i st c (front @ [nx]) segs))"

definition out_of_sequence ::
  "('a tcp_st_scheme) ip_env \<Rightarrow> tcpin \<Rightarrow> 'a tcp_st_scheme \<Rightarrow> addr \<Rightarrow> (tcpin \<times> 'a tcp_st_scheme) res" where
  "out_of_sequence env i st pcb =
     rbind (tcp_send_empty_ack env st pcb) (\<lambda>(_, st1).
     rbind (get_pcb st1 pcb) (\<lambda>c.
       if ooseq c = [] then
         rbind (tcp_seg_copy st1 (inseg i)) (\<lambda>(copy, st2).
         rbind (upd_pcb st2 pcb (\<lambda>c. c\<lparr>ooseq := (case copy of None \<Rightarrow> [] | Some cseg \<Rightarrow> [cseg])\<rparr>)) (\<lambda>st3.
           Inr (i, st3)))
       else
         rbind (ooseq_walk i st1 c [] (ooseq c)) (\<lambda>(i1, queue, st2).
         rbind (upd_pcb st2 pcb (\<lambda>c. c\<lparr>ooseq := queue\<rparr>)) (\<lambda>st3. Inr (i1, st3)))))"

section \<open>Receiving\<close>

definition in_window :: "u32 \<Rightarrow> tcp_pcb \<Rightarrow> bool" where
  "in_window s c = TCP_SEQ_BETWEEN s (rcv_nxt c) (rcv_nxt c + ucast (rcv_wnd c) - 1)"

definition tcp_receive ::
  "('a tcp_st_scheme) ip_env \<Rightarrow> tcpin \<Rightarrow> 'a tcp_st_scheme \<Rightarrow> addr \<Rightarrow> (tcpin \<times> 'a tcp_st_scheme) res" where
  "tcp_receive env i st pcb =
     rbind (if flags i AND TCP_ACK \<noteq> 0 then receive_ack i st pcb else Inr st) (\<lambda>st1.
     rbind (get_pcb st1 pcb) (\<lambda>c.
       if 0 < tcplen i \<and> pcb_state c < CLOSE_WAIT then
         rbind (trim_front i st1 pcb) (\<lambda>(i1, st2).
         rbind (get_pcb st2 pcb) (\<lambda>c2.
           if in_window (seqno i1) c2 then
             (if rcv_nxt c2 = seqno i1 then in_sequence i1 st2 pcb else out_of_sequence env i1 st2 pcb)
           else rbind (tcp_send_empty_ack env st2 pcb) (\<lambda>(_, st3). Inr (i1, st3))))
       else if \<not> in_window (seqno i) c then rbind (tcp_ack_now st1 pcb) (\<lambda>st2. Inr (i, st2))
       else Inr (i, st1)))"

section \<open>Callbacks\<close>

record 'st tcp_in_env =
  tenv :: "'st tcp_env"
  call_accept :: "fn \<Rightarrow> u32 \<Rightarrow> addr \<Rightarrow> err_t \<Rightarrow> 'st \<Rightarrow> (err_t \<times> 'st) res"
  call_sent :: "fn \<Rightarrow> u32 \<Rightarrow> addr \<Rightarrow> u16 \<Rightarrow> 'st \<Rightarrow> (err_t \<times> 'st) res"
  call_connected :: "fn \<Rightarrow> u32 \<Rightarrow> addr \<Rightarrow> err_t \<Rightarrow> 'st \<Rightarrow> (err_t \<times> 'st) res"

text \<open>\<^verbatim>\<open>tcp_accept_null\<close> of \<^verbatim>\<open>tcp.c\<close> returns \<^verbatim>\<open>ERR_ABRT\<close> and does nothing.\<close>

definition tcp_accept_null :: "'a tcp_st_scheme \<Rightarrow> (err_t \<times> 'a tcp_st_scheme) res" where
  "tcp_accept_null st = Inr (ERR_ABRT, st)"

definition TCP_EVENT_ACCEPT ::
  "('a tcp_st_scheme) tcp_in_env \<Rightarrow> 'a tcp_st_scheme \<Rightarrow> addr \<Rightarrow> err_t \<Rightarrow> (err_t \<times> 'a tcp_st_scheme) res" where
  "TCP_EVENT_ACCEPT env st pcb err =
     rbind (get_pcb st pcb) (\<lambda>c.
       if accept_fn c = FN_NULL then Inr (ERR_ARG, st)
       else if accept_fn c = FN_tcp_accept_null then tcp_accept_null st
       else call_accept env (accept_fn c) (callback_arg c) pcb err st)"

definition TCP_EVENT_SENT ::
  "('a tcp_st_scheme) tcp_in_env \<Rightarrow> 'a tcp_st_scheme \<Rightarrow> addr \<Rightarrow> u16 \<Rightarrow> (err_t \<times> 'a tcp_st_scheme) res" where
  "TCP_EVENT_SENT env st pcb space =
     rbind (get_pcb st pcb) (\<lambda>c.
       if sent_fn c \<noteq> FN_NULL then call_sent env (sent_fn c) (callback_arg c) pcb space st else Inr (ERR_OK, st))"

definition TCP_EVENT_CONNECTED ::
  "('a tcp_st_scheme) tcp_in_env \<Rightarrow> 'a tcp_st_scheme \<Rightarrow> addr \<Rightarrow> err_t \<Rightarrow> (err_t \<times> 'a tcp_st_scheme) res" where
  "TCP_EVENT_CONNECTED env st pcb err =
     rbind (get_pcb st pcb) (\<lambda>c.
       if connected_fn c \<noteq> FN_NULL then call_connected env (connected_fn c) (callback_arg c) pcb err st
       else Inr (ERR_OK, st))"

section \<open>The state machine\<close>

text \<open>A reset is acceptable when it names the \<^verbatim>\<open>SYN\<close> that was sent, or lies in the receive window.\<close>

definition rst_acceptable :: "tcpin \<Rightarrow> tcp_pcb \<Rightarrow> bool" where
  "rst_acceptable i c =
     (if pcb_state c = SYN_SENT then ackno i = snd_nxt c
      else TCP_SEQ_BETWEEN (seqno i) (rcv_nxt c) (rcv_nxt c + ucast (rcv_wnd c)))"

definition to_time_wait :: "'a tcp_st_scheme \<Rightarrow> addr \<Rightarrow> 'a tcp_st_scheme res" where
  "to_time_wait st pcb =
     rbind (tcp_pcb_purge st pcb) (\<lambda>st1.
     rbind (TCP_RMV_ACTIVE st1 pcb) (\<lambda>st2.
     rbind (set_state st2 pcb TIME_WAIT) (\<lambda>st3. TCP_REG st3 L_tw pcb)))"

text \<open>The \<^verbatim>\<open>SYN\<close> was acknowledged: the connection is established.\<close>

definition established_by_syn :: "tcpin \<Rightarrow> u16 \<Rightarrow> u16 \<Rightarrow> tcp_pcb \<Rightarrow> tcp_pcb" where
  "established_by_syn i wnd mss0 c =
     c\<lparr>snd_buf := snd_buf c + 1, rcv_nxt := seqno i + 1, rcv_ann_right_edge := seqno i + 1, lastack := ackno i,
       snd_wnd := wnd, snd_wnd_max := wnd, snd_wl1 := seqno i - 1, pcb_state := ESTABLISHED,
       mss := mss0, ssthresh := mss0 * 10, cwnd := (if cwnd c = 1 then mss0 * 2 else mss0),
       snd_queuelen := snd_queuelen c - 1\<rparr>"

definition process_syn_sent ::
  "('a tcp_st_scheme) tcp_in_env \<Rightarrow> tcpin \<Rightarrow> 'a tcp_st_scheme \<Rightarrow> addr \<Rightarrow> (err_t \<times> 'a tcp_st_scheme) res" where
  "process_syn_sent env i st pcb =
     rbind (get_pcb st pcb) (\<lambda>c.
     rbind (if flags i AND TCP_ACK \<noteq> 0 \<and> flags i AND TCP_SYN \<noteq> 0 then
              (case unacked c of [] \<Rightarrow> Inl Null_deref
               | rseg # _ \<Rightarrow> rbind (seg_seqno (bytes st) rseg) (\<lambda>s. Inr (ackno i = s + 1)))
            else Inr False) (\<lambda>expected.
       if expected then
         rbind (hdr_wnd (bytes st) (tcphdr (inseg i))) (\<lambda>wnd.
         rbind (tcp_eff_send_mss st (mss c) (remote_ip c)) (\<lambda>mss0.
         rbind (tcp_seg_free (put_pcb st pcb ((established_by_syn i wnd mss0 c)\<lparr>unacked := tl (unacked c)\<rparr>))
                  (hd (unacked c))) (\<lambda>st1.
         rbind (upd_pcb st1 pcb (\<lambda>c. if unacked c = [] then c\<lparr>rtime := - 1\<rparr> else c\<lparr>rtime := 0, nrtx := 0\<rparr>)) (\<lambda>st2.
         rbind (TCP_EVENT_CONNECTED env st2 pcb ERR_OK) (\<lambda>(err, st3).
           if err = ERR_ABRT then Inr (ERR_ABRT, st3)
           else rbind (tcp_ack_now st3 pcb) (\<lambda>st4. Inr (ERR_OK, st4)))))))
       else if flags i AND TCP_ACK \<noteq> 0 then
         rbind (rst_reply (ipe (tenv env)) i st) (\<lambda>st1. Inr (ERR_OK, st1))
       else Inr (ERR_OK, st)))"

definition process_syn_rcvd ::
  "('a tcp_st_scheme) tcp_in_env \<Rightarrow> tcpin \<Rightarrow> 'a tcp_st_scheme \<Rightarrow> addr \<Rightarrow> (err_t \<times> tcpin \<times> 'a tcp_st_scheme) res" where
  "process_syn_rcvd env i st pcb =
     rbind (get_pcb st pcb) (\<lambda>c.
       if flags i AND TCP_ACK \<noteq> 0 then
         (if TCP_SEQ_BETWEEN (ackno i) (lastack c + 1) (snd_nxt c) then
            rbind (TCP_EVENT_ACCEPT env (put_pcb st pcb (c\<lparr>pcb_state := ESTABLISHED\<rparr>)) pcb ERR_OK) (\<lambda>(err, st1).
              if err \<noteq> ERR_OK then
                rbind (if err \<noteq> ERR_ABRT then tcp_abort (tenv env) st1 pcb else Inr st1) (\<lambda>st2.
                  Inr (ERR_ABRT, i, st2))
              else
                rbind (get_pcb st1 pcb) (\<lambda>c1.
                rbind (tcp_receive (ipe (tenv env)) i st1 pcb) (\<lambda>(i2, st2).
                rbind (upd_pcb st2 pcb (\<lambda>c.
                         c\<lparr>acked := (if acked c \<noteq> 0 then acked c - 1 else acked c),
                           cwnd := (if cwnd c1 = 1 then mss c * 2 else mss c)\<rparr>)) (\<lambda>st3.
                rbind (if recv_flags i2 AND TF_GOT_FIN \<noteq> 0
                       then rbind (tcp_ack_now st3 pcb) (\<lambda>st4. set_state st4 pcb CLOSE_WAIT) else Inr st3) (\<lambda>st5.
                  Inr (ERR_OK, i2, st5))))))
          else rbind (rst_reply (ipe (tenv env)) i st) (\<lambda>st1. Inr (ERR_OK, i, st1)))
       else if flags i AND TCP_SYN \<noteq> 0 \<and> seqno i = rcv_nxt c - 1 then
         rbind (tcp_rexmit st pcb) (\<lambda>st1. Inr (ERR_OK, i, st1))
       else Inr (ERR_OK, i, st))"

text \<open>
  The test of the code for an acknowledgement of our \<^verbatim>\<open>FIN\<close>: it is that of \<^verbatim>\<open>snd_nxt\<close>. It means everything that was sent;
  a \<^verbatim>\<open>FIN\<close> that is still queued lies behind \<^verbatim>\<open>snd_nxt\<close>.
\<close>

definition all_acked :: "tcpin \<Rightarrow> tcp_pcb \<Rightarrow> bool" where
  "all_acked i c \<longleftrightarrow> flags i AND TCP_ACK \<noteq> 0 \<and> ackno i = snd_nxt c"

text \<open>The states of an established connection, after the segment was received.\<close>

definition process_received :: "tcpin \<Rightarrow> 'a tcp_st_scheme \<Rightarrow> addr \<Rightarrow> tcp_state \<Rightarrow> (tcpin \<times> 'a tcp_st_scheme) res" where
  "process_received i st pcb s =
     rbind (get_pcb st pcb) (\<lambda>c.
       let got_fin = (recv_flags i AND TF_GOT_FIN \<noteq> 0) in
       case s of
         CLOSE_WAIT \<Rightarrow>
           (if got_fin then rbind (tcp_ack_now st pcb) (\<lambda>st1. rbind (set_state st1 pcb CLOSE_WAIT) (\<lambda>st2. Inr (i, st2)))
            else Inr (i, st))
       | ESTABLISHED \<Rightarrow>
           (if got_fin then rbind (tcp_ack_now st pcb) (\<lambda>st1. rbind (set_state st1 pcb CLOSE_WAIT) (\<lambda>st2. Inr (i, st2)))
            else Inr (i, st))
       | FIN_WAIT_1 \<Rightarrow>
           (if got_fin then
              rbind (tcp_ack_now st pcb) (\<lambda>st1.
              rbind (if all_acked i c then to_time_wait st1 pcb else set_state st1 pcb CLOSING) (\<lambda>st2. Inr (i, st2)))
            else if all_acked i c then rbind (set_state st pcb FIN_WAIT_2) (\<lambda>st1. Inr (i, st1))
            else Inr (i, st))
       | FIN_WAIT_2 \<Rightarrow>
           (if got_fin then
              rbind (tcp_ack_now st pcb) (\<lambda>st1. rbind (to_time_wait st1 pcb) (\<lambda>st2. Inr (i, st2)))
            else Inr (i, st))
       | CLOSING \<Rightarrow>
           (if all_acked i c then rbind (to_time_wait st pcb) (\<lambda>st1. Inr (i, st1)) else Inr (i, st))
       | LAST_ACK \<Rightarrow>
           (if all_acked i c then Inr (i\<lparr>recv_flags := recv_flags i OR TF_CLOSED\<rparr>, st) else Inr (i, st))
       | _ \<Rightarrow> Inr (i, st))"

definition tcp_process ::
  "('a tcp_st_scheme) tcp_in_env \<Rightarrow> tcpin \<Rightarrow> 'a tcp_st_scheme \<Rightarrow> addr \<Rightarrow> (err_t \<times> tcpin \<times> 'a tcp_st_scheme) res" where
  "tcp_process env i st pcb =
     rbind (get_pcb st pcb) (\<lambda>c.
       if flags i AND TCP_RST \<noteq> 0 then
         (if rst_acceptable i c then
            Inr (ERR_RST, i\<lparr>recv_flags := recv_flags i OR TF_RESET\<rparr>,
                 put_pcb st pcb (c\<lparr>pcb_flags := pcb_flags c AND NOT TF_ACK_DELAY\<rparr>))
          else Inr (ERR_OK, i, st))
       else if flags i AND TCP_SYN \<noteq> 0 \<and> pcb_state c \<noteq> SYN_SENT \<and> pcb_state c \<noteq> SYN_RCVD then
         rbind (tcp_ack_now st pcb) (\<lambda>st1. Inr (ERR_OK, i, st1))
       else
         rbind (tcp_parseopt i (put_pcb st pcb
                  (c\<lparr>tmr := (if pcb_flags c AND TF_RXCLOSED = 0 then tcp_ticks st else tmr c), keep_cnt_sent := 0\<rparr>)) pcb)
           (\<lambda>st1.
             if pcb_state c = SYN_SENT then
               rbind (process_syn_sent env i st1 pcb) (\<lambda>(err, st2). Inr (err, i, st2))
             else if pcb_state c = SYN_RCVD then process_syn_rcvd env i st1 pcb
             else if pcb_state c \<in> {CLOSED, LISTEN, TIME_WAIT} then Inr (ERR_OK, i, st1)
             else
               rbind (tcp_receive (ipe (tenv env)) i st1 pcb) (\<lambda>(i1, st2).
               rbind (process_received i1 st2 pcb (pcb_state c)) (\<lambda>(i2, st3). Inr (ERR_OK, i2, st3)))))"

section \<open>Segments for listening and for finished connections\<close>

text \<open>The connection block of a new connection, from the segment and the listen block.\<close>

definition listen_init :: "tcpin \<Rightarrow> pcb_common \<Rightarrow> u16 \<Rightarrow> u16 \<Rightarrow> tcp_pcb \<Rightarrow> tcp_pcb" where
  "listen_init i l sport wnd c =
     c\<lparr>local_ip := iphdr_dest i, local_port := local_port l, remote_ip := iphdr_src i, remote_port := sport,
       pcb_state := SYN_RCVD, rcv_nxt := seqno i + 1, rcv_ann_right_edge := seqno i + 1,
       snd_wnd := wnd, snd_wnd_max := wnd, ssthresh := wnd, snd_wl1 := seqno i - 1,
       callback_arg := callback_arg l, accept_fn := accept_fn l,
       so_options := so_options l AND SOF_INHERITED\<rparr>"

text \<open>The answer to a \<^verbatim>\<open>SYN\<close>: a new block, registered, with a \<^verbatim>\<open>SYN|ACK\<close> to send.\<close>

definition listen_syn ::
  "('a tcp_st_scheme) tcp_in_env \<Rightarrow> tcpin \<Rightarrow> 'a tcp_st_scheme \<Rightarrow> addr \<Rightarrow> addr \<Rightarrow> (err_t \<times> 'a tcp_st_scheme) res" where
  "listen_syn env i st lpcb npcb =
     rbind (get_common st lpcb) (\<lambda>l.
     rbind (hdr_src (bytes st) (tcphdr (inseg i))) (\<lambda>sport.
     rbind (hdr_wnd (bytes st) (tcphdr (inseg i))) (\<lambda>wnd.
     rbind (upd_pcb st npcb (listen_init i l sport wnd)) (\<lambda>st1.
     rbind (TCP_REG_ACTIVE st1 npcb) (\<lambda>st2.
     rbind (tcp_parseopt i st2 npcb) (\<lambda>st3.
     rbind (get_pcb st3 npcb) (\<lambda>c.
     rbind (tcp_eff_send_mss st3 (mss c) (remote_ip c)) (\<lambda>mss0.
     rbind (tcp_enqueue_flags (put_pcb st3 npcb (c\<lparr>mss := mss0\<rparr>)) npcb (TCP_SYN OR TCP_ACK)) (\<lambda>(rc, st4).
       if rc \<noteq> ERR_OK then rbind (tcp_abandon (tenv env) st4 npcb False) (\<lambda>st5. Inr (rc, st5))
       else tcp_output (ipe (tenv env)) st4 npcb)))))))))"

definition tcp_listen_input ::
  "('a tcp_st_scheme) tcp_in_env \<Rightarrow> tcpin \<Rightarrow> 'a tcp_st_scheme \<Rightarrow> addr \<Rightarrow> (err_t \<times> 'a tcp_st_scheme) res" where
  "tcp_listen_input env i st lpcb =
     (if flags i AND TCP_RST \<noteq> 0 then Inr (ERR_OK, st)
      else if flags i AND TCP_ACK \<noteq> 0 then rbind (rst_reply (ipe (tenv env)) i st) (\<lambda>st1. Inr (ERR_OK, st1))
      else if flags i AND TCP_SYN \<noteq> 0 then
        rbind (get_common st lpcb) (\<lambda>l.
        rbind (tcp_alloc (tenv env) st (prio l)) (\<lambda>(npcb, st1).
          if npcb = 0 then Inr (ERR_MEM, st1) else listen_syn env i st1 lpcb npcb))
      else Inr (ERR_OK, st))"

definition tcp_timewait_input ::
  "('a tcp_st_scheme) ip_env \<Rightarrow> tcpin \<Rightarrow> 'a tcp_st_scheme \<Rightarrow> addr \<Rightarrow> (err_t \<times> 'a tcp_st_scheme) res" where
  "tcp_timewait_input env i st pcb =
     (if flags i AND TCP_RST \<noteq> 0 then Inr (ERR_OK, st)
      else rbind (get_pcb st pcb) (\<lambda>c.
        if flags i AND TCP_SYN \<noteq> 0 \<and> TCP_SEQ_BETWEEN (seqno i) (rcv_nxt c) (rcv_nxt c + ucast (rcv_wnd c))
        then rbind (rst_reply env i st) (\<lambda>st1. Inr (ERR_OK, st1))
        else
          let c1 = (if flags i AND TCP_SYN = 0 \<and> flags i AND TCP_FIN \<noteq> 0 then c\<lparr>tmr := tcp_ticks st\<rparr> else c)
          in if 0 < tcplen i
             then tcp_output env (put_pcb st pcb (c1\<lparr>pcb_flags := pcb_flags c1 OR TF_ACK_NOW\<rparr>)) pcb
             else Inr (ERR_OK, put_pcb st pcb c1)))"

section \<open>Demultiplexing\<close>

definition four_tuple :: "u32 \<Rightarrow> u16 \<Rightarrow> u32 \<Rightarrow> u16 \<Rightarrow> tcp_pcb \<Rightarrow> bool" where
  "four_tuple src sport dest dport c \<longleftrightarrow>
     remote_port c = sport \<and> local_port c = dport \<and> remote_ip c = src \<and> local_ip c = dest"

text \<open>The search in the lists of connections: the block (0: none) and the one before it.\<close>

primrec find_conn ::
  "nat \<Rightarrow> 'a tcp_st_scheme \<Rightarrow> u32 \<Rightarrow> u16 \<Rightarrow> u32 \<Rightarrow> u16 \<Rightarrow> addr \<Rightarrow> addr \<Rightarrow> (addr \<times> addr) res" where
  "find_conn 0 st src sport dest dport prev p = (if p = 0 then Inr (0, prev) else Inl Out_of_fuel)"
| "find_conn (Suc fuel) st src sport dest dport prev p =
     (if p = 0 then Inr (0, prev)
      else rbind (get_pcb st p) (\<lambda>c.
        if four_tuple src sport dest dport c then Inr (p, prev)
        else find_conn fuel st src sport dest dport p (pcb_next c)))"

primrec find_listen ::
  "nat \<Rightarrow> 'a tcp_st_scheme \<Rightarrow> u32 \<Rightarrow> u16 \<Rightarrow> addr \<Rightarrow> addr \<Rightarrow> (addr \<times> addr) res" where
  "find_listen 0 st dest dport prev p = (if p = 0 then Inr (0, prev) else Inl Out_of_fuel)"
| "find_listen (Suc fuel) st dest dport prev p =
     (if p = 0 then Inr (0, prev)
      else rbind (get_common st p) (\<lambda>l.
        if local_port l = dport \<and> (local_ip l = dest \<or> ip_addr_isany (local_ip l)) then Inr (p, prev)
        else find_listen fuel st dest dport p (pcb_next l)))"

text \<open>A block that was found behind \<open>prev\<close> moves to the front of its list.\<close>

definition move_to_front :: "'a tcp_st_scheme \<Rightarrow> pcb_list \<Rightarrow> addr \<Rightarrow> addr \<Rightarrow> 'a tcp_st_scheme res" where
  "move_to_front st l prev p =
     (if prev = 0 then Inr st
      else
        rbind (get_common st p) (\<lambda>b.
        rbind (set_next st prev (pcb_next b)) (\<lambda>st1.
        rbind (set_next st1 p (head_of st1 l)) (\<lambda>st2.
          Inr (set_head st2 l p)))))"

section \<open>Input\<close>

text \<open>The fields of the header in host byte order, in place.\<close>

definition header_to_host :: "memory \<Rightarrow> addr \<Rightarrow> memory res" where
  "header_to_host m h =
     rbind (rd16 m h) (\<lambda>x. rbind (wr16 m h (lwip_ntohs x)) (\<lambda>m.
     rbind (rd16 m (h + 2)) (\<lambda>x. rbind (wr16 m (h + 2) (lwip_ntohs x)) (\<lambda>m.
     rbind (rd32 m (h + 4)) (\<lambda>x. rbind (wr32 m (h + 4) (lwip_ntohl x)) (\<lambda>m.
     rbind (rd32 m (h + 8)) (\<lambda>x. rbind (wr32 m (h + 8) (lwip_ntohl x)) (\<lambda>m.
     rbind (rd16 m (h + 14)) (\<lambda>x. wr16 m (h + 14) (lwip_ntohs x))))))))))"

text \<open>
  The checks up to the demultiplexing. The result is \<open>None\<close> for a segment that is dropped. The
  header length in the segment is not checked against the 20 bytes of a header without options.
\<close>

definition input_checks ::
  "'a tcp_st_scheme \<Rightarrow> addr \<Rightarrow> addr \<Rightarrow> u32 \<Rightarrow> u32 \<Rightarrow> (tcpin option \<times> 'a tcp_st_scheme) res" where
  "input_checks st p inp src dest =
     rbind (get_pbuf st p) (\<lambda>b0.
     rbind (rd8 (bytes st) (payload b0)) (\<lambda>vhl.
       let ihl = (ucast vhl AND 0x0f) * 4 :: u16; h = payload b0 + unat ihl in
       rbind (pbuf_header st p (- ihl)) (\<lambda>(failed, st1).
       rbind (get_pbuf st1 p) (\<lambda>b1.
         if failed \<noteq> 0 \<or> tot_len b1 < 20 then Inr (None, st1)
         else rbind (get_netif st1 inp) (\<lambda>n.
           if ip4_addr_isbroadcast dest n \<or> ip_addr_ismulticast dest then Inr (None, st1)
           else rbind (inet_chksum_pseudo st1 p src dest IP_PROTO_TCP (tot_len b1)) (\<lambda>ck.
             if ck \<noteq> 0 then Inr (None, st1)
             else rbind (TCPH_HDRLEN (bytes st1) h) (\<lambda>hdrlen.
               rbind (pbuf_header st1 p (- (hdrlen * 4))) (\<lambda>(failed2, st2).
                 if failed2 \<noteq> 0 then Inr (None, st2)
                 else
                   rbind (header_to_host (bytes st2) h) (\<lambda>m.
                   rbind (hdr_seqno m h) (\<lambda>s. rbind (rd32 m (h + 8)) (\<lambda>a.
                   rbind (TCPH_FLAGS m h) (\<lambda>fl. rbind (get_pbuf st2 p) (\<lambda>b2.
                     Inr (Some \<lparr>inseg = \<lparr>seg_at = 0, seg_p = p, seg_len = tot_len b2, seg_flags = 0, tcphdr = h\<rparr>,
                                seqno = s, ackno = a, flags = fl,
                                tcplen = tot_len b2 + (if fl AND (TCP_FIN OR TCP_SYN) \<noteq> 0 then 1 else 0),
                                recv_flags = 0, recv_data = 0, iphdr_src = src, iphdr_dest = dest\<rparr>,
                          st2\<lparr>bytes := m\<rparr>))))))))))))))"

text \<open>A connection that was reset or closed is removed and freed, after its error callback.\<close>

definition drop_conn ::
  "('a tcp_st_scheme) tcp_in_env \<Rightarrow> 'a tcp_st_scheme \<Rightarrow> addr \<Rightarrow> bool \<Rightarrow> err_t \<Rightarrow> 'a tcp_st_scheme res" where
  "drop_conn env st pcb notify err =
     rbind (get_pcb st pcb) (\<lambda>c.
     rbind (if notify then TCP_EVENT_ERR (tenv env) st (errf c) (callback_arg c) err else Inr st) (\<lambda>st1.
     rbind (tcp_pcb_remove (ipe (tenv env)) st1 L_active pcb) (\<lambda>st2. Inr (free_pcb st2 pcb))))"

text \<open>
  What happens to the data of the segment: nothing to deliver, handed to the callback, or (the
  connection is closed for reception) freed and the connection aborted. The result tells whether to
  go on.
\<close>

definition deliver_data ::
  "('a tcp_st_scheme) tcp_in_env \<Rightarrow> tcpin \<Rightarrow> 'a tcp_st_scheme \<Rightarrow> addr \<Rightarrow> (bool \<times> 'a tcp_st_scheme) res" where
  "deliver_data env i st pcb =
     (if recv_data i = 0 then Inr (True, st)
      else rbind (get_pcb st pcb) (\<lambda>c.
        if pcb_flags c AND TF_RXCLOSED \<noteq> 0 then
          rbind (pbuf_free st (recv_data i)) (\<lambda>(_, st1).
          rbind (tcp_abort (tenv env) st1 pcb) (\<lambda>st2. Inr (False, st2)))
        else
          rbind (TCP_EVENT_RECV (tenv env) st pcb (recv_data i) ERR_OK) (\<lambda>(err, st1).
            if err = ERR_ABRT then Inr (False, st1)
            else if err \<noteq> ERR_OK then
              rbind (upd_pcb st1 pcb (\<lambda>c. c\<lparr>refused_data := recv_data i\<rparr>)) (\<lambda>st2. Inr (True, st2))
            else Inr (True, st1))))"

text \<open>The \<^verbatim>\<open>FIN\<close> is announced to the application, or kept with the data it refused.\<close>

definition deliver_fin ::
  "('a tcp_st_scheme) tcp_in_env \<Rightarrow> tcpin \<Rightarrow> 'a tcp_st_scheme \<Rightarrow> addr \<Rightarrow> (bool \<times> 'a tcp_st_scheme) res" where
  "deliver_fin env i st pcb =
     (if recv_flags i AND TF_GOT_FIN = 0 then Inr (True, st)
      else rbind (get_pcb st pcb) (\<lambda>c.
        if refused_data c \<noteq> 0 then
          rbind (upd_pbuf st (refused_data c) (\<lambda>b. b\<lparr>pb_flags := pb_flags b OR PBUF_FLAG_TCP_FIN\<rparr>)) (\<lambda>st1.
            Inr (True, st1))
        else
          rbind (TCP_EVENT_CLOSED (tenv env)
                   (put_pcb st pcb (if rcv_wnd c \<noteq> TCP_WND then c\<lparr>rcv_wnd := rcv_wnd c + 1\<rparr> else c)) pcb) (\<lambda>(err, st1).
            Inr (err \<noteq> ERR_ABRT, st1))))"

text \<open>After \<open>tcp_process\<close>: \<open>goto aborted\<close> is the early end with \<open>Inr\<close>.\<close>

definition input_deliver ::
  "('a tcp_st_scheme) tcp_in_env \<Rightarrow> tcpin \<Rightarrow> 'a tcp_st_scheme \<Rightarrow> addr \<Rightarrow> 'a tcp_st_scheme res" where
  "input_deliver env i st pcb =
     rbind (get_pcb st pcb) (\<lambda>c.
       if recv_flags i AND TF_RESET \<noteq> 0 then drop_conn env st pcb True ERR_RST
       else if recv_flags i AND TF_CLOSED \<noteq> 0
       then drop_conn env st pcb (pcb_flags c AND TF_RXCLOSED = 0) ERR_CLSD
       else
         rbind (if 0 < acked c then TCP_EVENT_SENT env st pcb (acked c) else Inr (ERR_OK, st)) (\<lambda>(err, st1).
           if err = ERR_ABRT then Inr st1
           else rbind (deliver_data env i st1 pcb) (\<lambda>(go1, st2).
             if \<not> go1 then Inr st2
             else rbind (deliver_fin env i st2 pcb) (\<lambda>(go2, st3).
               if \<not> go2 then Inr st3
               else rbind (tcp_output (ipe (tenv env)) (st3\<lparr>tcp_input_pcb := 0\<rparr>) pcb) (\<lambda>(_, st4). Inr st4)))))"

text \<open>A segment for the connection \<open>pcb\<close>. The result has what is left of the segment.\<close>

definition input_conn ::
  "('a tcp_st_scheme) tcp_in_env \<Rightarrow> tcpin \<Rightarrow> 'a tcp_st_scheme \<Rightarrow> addr \<Rightarrow> (tcpin \<times> 'a tcp_st_scheme) res" where
  "input_conn env i st pcb =
     rbind (if flags i AND TCP_PSH \<noteq> 0
            then upd_pbuf st (seg_p (inseg i)) (\<lambda>b. b\<lparr>pb_flags := pb_flags b OR PBUF_FLAG_PUSH\<rparr>)
            else Inr st) (\<lambda>st1.
     rbind (get_pcb st1 pcb) (\<lambda>c.
     rbind (if refused_data c \<noteq> 0 then
              rbind (tcp_process_refused_data (tenv env) st1 pcb) (\<lambda>(err, st2).
                if err = ERR_ABRT then Inr (True, st2)
                else rbind (get_pcb st2 pcb) (\<lambda>c2. Inr (refused_data c2 \<noteq> 0 \<and> 0 < tcplen i, st2)))
            else Inr (False, st1)) (\<lambda>(ignore, st2).
       if ignore then Inr (i, st2)
       else
         rbind (tcp_process env i (st2\<lparr>tcp_input_pcb := pcb\<rparr>) pcb) (\<lambda>(err, i1, st3).
           if err = ERR_ABRT then Inr (i1, st3)
           else rbind (input_deliver env i1 st3 pcb) (\<lambda>st4. Inr (i1, st4))))))"

text \<open>A segment for no connection: for a listening block, or for nobody.\<close>

definition input_listen ::
  "('a tcp_st_scheme) tcp_in_env \<Rightarrow> tcpin \<Rightarrow> 'a tcp_st_scheme \<Rightarrow> addr \<Rightarrow> u32 \<Rightarrow> u16 \<Rightarrow> 'a tcp_st_scheme res" where
  "input_listen env i st p dest dport =
     rbind (find_listen pcb_fuel st dest dport 0 (tcp_listen_pcbs st)) (\<lambda>(lpcb, lprev).
       if lpcb \<noteq> 0 then
         rbind (move_to_front st L_listen lprev lpcb) (\<lambda>st1.
         rbind (tcp_listen_input env i st1 lpcb) (\<lambda>(_, st2). free_only st2 p))
       else
         rbind (if flags i AND TCP_RST = 0 then rst_reply (ipe (tenv env)) i st else Inr st) (\<lambda>st1.
           free_only st1 p))"

text \<open>A segment for no active connection: for one in \<^verbatim>\<open>TIME-WAIT\<close>, or for none.\<close>

definition input_timewait ::
  "('a tcp_st_scheme) tcp_in_env \<Rightarrow> tcpin \<Rightarrow> 'a tcp_st_scheme \<Rightarrow> addr \<Rightarrow> u32 \<Rightarrow> u16 \<Rightarrow> u32 \<Rightarrow> u16 \<Rightarrow> 'a tcp_st_scheme res" where
  "input_timewait env i st p src sport dest dport =
     rbind (find_conn pcb_fuel st src sport dest dport 0 (tcp_tw_pcbs st)) (\<lambda>(tw, _).
       if tw \<noteq> 0 then rbind (tcp_timewait_input (ipe (tenv env)) i st tw) (\<lambda>(_, st1). free_only st1 p)
       else input_listen env i st p dest dport)"

definition input_demux ::
  "('a tcp_st_scheme) tcp_in_env \<Rightarrow> tcpin \<Rightarrow> 'a tcp_st_scheme \<Rightarrow> addr \<Rightarrow> u32 \<Rightarrow> u16 \<Rightarrow> u32 \<Rightarrow> u16 \<Rightarrow> 'a tcp_st_scheme res" where
  "input_demux env i st p src sport dest dport =
     rbind (find_conn pcb_fuel st src sport dest dport 0 (tcp_active_pcbs st)) (\<lambda>(pcb, prev).
       if pcb \<noteq> 0 then
         rbind (move_to_front st L_active prev pcb) (\<lambda>st1.
         rbind (input_conn env i st1 pcb) (\<lambda>(i1, st2).
           let st3 = st2\<lparr>tcp_input_pcb := 0\<rparr>
           in if seg_p (inseg i1) \<noteq> 0 then free_only st3 (seg_p (inseg i1)) else Inr st3))
       else input_timewait env i st p src sport dest dport)"

definition tcp_input ::
  "('a tcp_st_scheme) tcp_in_env \<Rightarrow> 'a tcp_st_scheme \<Rightarrow> addr \<Rightarrow> addr \<Rightarrow> u32 \<Rightarrow> u32 \<Rightarrow> 'a tcp_st_scheme res" where
  "tcp_input env st p inp src dest =
     rbind (input_checks st p inp src dest) (\<lambda>(checked, st1).
       case checked of
         None \<Rightarrow> free_only st1 p
       | Some i \<Rightarrow>
           rbind (hdr_src (bytes st1) (tcphdr (inseg i))) (\<lambda>sport.
           rbind (hdr_dest (bytes st1) (tcphdr (inseg i))) (\<lambda>dport.
             input_demux env i st1 p src sport dest dport)))"

end
