(* ===== verification/TcpFsm.thy ===== *)
theory TcpFsm
  imports TcpInv TcpIn
begin

text \<open>
  What receiving a segment does to the lists of control blocks: nothing, but for the state of its own
  block, and that state follows the edges of the diagram of RFC 793 (\<open>tcp_edge\<close>).
\<close>

section \<open>Operations below\<close>

lemma realloc_skip_keeps: "realloc_skip fuel st q n g = Inr (x, k, st') \<Longrightarrow> pbuf_st.more st' = pbuf_st.more st"
proof (induction fuel arbitrary: st q n)
  case 0
  then show ?case by simp
next
  case (Suc fuel)
  from Suc.prems show ?case
    by (auto simp: rbind_eq_Inr Let_def put_pbuf_def split: if_splits dest!: Suc.IH)
qed

lemma pbuf_realloc_keeps: "pbuf_realloc st p n = Inr st' \<Longrightarrow> ip_st.more st' = ip_st.more st"
  by (rule ip_more_of_pbuf)
    (auto simp: pbuf_realloc_def rbind_eq_Inr Let_def split: if_splits prod.splits
      dest!: realloc_skip_keeps upd_pbuf_keeps pbuf_free_keeps)

lemma tcp_seg_copy_keeps: "tcp_seg_copy st s = Inr (c, st') \<Longrightarrow> ip_st.more st' = ip_st.more st"
  by (auto simp: tcp_seg_copy_def rbind_eq_Inr split: prod.splits if_splits dest!: pbuf_keeps_ip)

lemma trim_loop_keeps: "trim_loop fuel st p off n = Inr (q, k, st') \<Longrightarrow> ip_st.more st' = ip_st.more st"
proof (induction fuel arbitrary: st p off)
  case 0
  then show ?case by simp
next
  case (Suc fuel)
  from Suc.prems show ?case by (auto simp: rbind_eq_Inr put_pbuf_def split: if_splits dest!: Suc.IH)
qed

lemma lower_in_wp:
  "res_all (\<lambda>x. ip_st.more x = ip_st.more st) (pbuf_realloc st p n)"
  "res_all (\<lambda>x. ip_st.more (snd x) = ip_st.more st) (tcp_seg_copy st s)"
  "res_all (\<lambda>x. ip_st.more (snd (snd x)) = ip_st.more st) (trim_loop fuel st p off n)"
  by (rule res_allI; auto dest: pbuf_realloc_keeps tcp_seg_copy_keeps trim_loop_keeps)+

text \<open>Rules for \<open>res_all\<close> over the state of the TCP module that a computation leaves alone.\<close>

named_theorems mwp \<open>rules for operations that keep \<open>ip_st.more\<close>\<close>

lemmas lower_mwp [mwp] = lower_wp [THEN res_all_weaken] lower_in_wp [THEN res_all_weaken]

lemmas read_mwp [mwp] = read_wp
  res_all_any [where r = "hdr_seqno m h" for m h] res_all_any [where r = "hdr_wnd m h" for m h]
  res_all_any [where r = "hdr_src m h" for m h] res_all_any [where r = "hdr_dest m h" for m h]
  res_all_any [where r = "TCPH_HDRLEN m h" for m h] res_all_any [where r = "parseopt_loop m h n c k" for m h n c k]
  res_all_any [where r = "set_tcplen i st" for i st] res_all_any [where r = "rd8 m a" for m a]
  res_all_any [where r = "rd16 m a" for m a] res_all_any [where r = "grow_cwnd c" for c]

lemma cut_more:
  "res_all (\<lambda>x. ip_st.more (snd x) = ip_st.more st) (cut_inseg i st n)"
  "res_all (\<lambda>x. ip_st.more x = ip_st.more st) (clear_fin st h)"
  "res_all (\<lambda>x. ip_st.more (snd x) = ip_st.more st) (cut_seg st s n)"
  "res_all (\<lambda>x. ip_st.more (snd x) = ip_st.more st) (trim_prev i st s)"
proof -
  show cut: "res_all (\<lambda>x. ip_st.more (snd x) = ip_st.more st) (cut_seg st s n)" for s n
    by (auto simp: cut_seg_def intro!: mwp)
  show "res_all (\<lambda>x. ip_st.more (snd x) = ip_st.more st) (cut_inseg i st n)"
    by (auto simp: cut_inseg_def Let_def intro!: mwp)
  show "res_all (\<lambda>x. ip_st.more x = ip_st.more st) (clear_fin st h)"
    by (auto simp: clear_fin_def intro!: mwp)
  show "res_all (\<lambda>x. ip_st.more (snd x) = ip_st.more st) (trim_prev i st s)"
    by (auto simp: trim_prev_def intro!: mwp cut)
qed

lemmas cut_mwp [mwp] = cut_more [THEN res_all_weaken]

lemma drop_covered_more: "res_all (\<lambda>x. ip_st.more (snd (snd x)) = ip_st.more st) (drop_covered i st q)"
proof (induction q arbitrary: i st)
  case (Cons nx segs)
  note IH = Cons.IH [THEN res_all_weaken]
  show ?case by (auto intro!: mwp IH)
qed simp

lemma oos_covered_more: "res_all (\<lambda>x. ip_st.more (snd x) = ip_st.more st) (oos_covered i st s q)"
proof (induction q arbitrary: i st)
  case (Cons nx segs)
  note IH = Cons.IH [THEN res_all_weaken]
  show ?case by (auto intro!: mwp IH)
qed simp

lemmas covered_mwp [mwp] = drop_covered_more [THEN res_all_weaken] oos_covered_more [THEN res_all_weaken]

lemma oos_insert_more: "res_all (\<lambda>x. ip_st.more (snd x) = ip_st.more st) (tcp_oos_insert_segment i st s q)"
  by (auto simp: tcp_oos_insert_segment_def intro!: mwp split: list.split)

lemmas oos_insert_mwp [mwp] = oos_insert_more [THEN res_all_weaken]

lemma insert_copy_more: "res_all (\<lambda>x. ip_st.more (snd x) = ip_st.more st) (insert_copy i st p q)"
  by (auto simp: insert_copy_def intro!: mwp split: option.split)

lemma append_ooseq_more: "res_all (\<lambda>x. ip_st.more (snd (snd x)) = ip_st.more st) (append_ooseq i st c s)"
  by (auto simp: append_ooseq_def intro!: mwp split: option.split)

lemmas ooseq_mwp [mwp] = insert_copy_more [THEN res_all_weaken] append_ooseq_more [THEN res_all_weaken]

lemma ooseq_walk_more: "res_all (\<lambda>x. ip_st.more (snd (snd x)) = ip_st.more st) (ooseq_walk i st c f q)"
proof (induction q arbitrary: i st f)
  case (Cons nx segs)
  note IH = Cons.IH [THEN res_all_weaken]
  show ?case by (auto intro!: mwp IH)
qed simp

lemmas ooseq_walk_mwp [mwp] = ooseq_walk_more [THEN res_all_weaken]


section \<open>Operations on the block of the connection\<close>

named_theorems lwp \<open>rules for operations that keep \<open>lview\<close>\<close>

lemmas lower_lwp [lwp] =
  lower_wp [THEN lview_of_more, THEN res_all_weaken] lower_in_wp [THEN lview_of_more, THEN res_all_weaken]
  cut_more [THEN lview_of_more, THEN res_all_weaken] drop_covered_more [THEN lview_of_more, THEN res_all_weaken]
  ooseq_walk_more [THEN lview_of_more, THEN res_all_weaken]
  tcp_rexmit_frame [THEN lview_of_pframe, THEN res_all_weaken]
  tcp_rexmit_fast_frame [THEN lview_of_pframe, THEN res_all_weaken]
  tcp_enqueue_flags_frame [THEN lview_of_pframe, THEN res_all_weaken]

lemmas net_lwp [lwp] =
  tcp_send_empty_ack_frame [THEN lview_of_pframe, THEN res_all_weaken]
  tcp_output_frame [THEN lview_of_pframe, THEN res_all_weaken]
  net_wp(3) [THEN lview_of_more, THEN res_all_weaken]

lemmas read_lwp [lwp] = read_mwp get_pcb_wp

lemmas upd_pcb_lwp [lwp] = lview_upd_pcb [THEN res_all_weaken]

declare lview_put_pcb [simp]

lemma upd_place [simp]:
  "pcb_next (advance_rcv s n c) = pcb_next c" "pcb_state (advance_rcv s n c) = pcb_state c"
  "local_port (advance_rcv s n c) = local_port c"
  "pcb_next (update_send_window i w c) = pcb_next c" "pcb_state (update_send_window i w c) = pcb_state c"
  "local_port (update_send_window i w c) = local_port c"
  "pcb_next (ack_counters a c) = pcb_next c" "pcb_state (ack_counters a c) = pcb_state c"
  "local_port (ack_counters a c) = local_port c"
  "pcb_next (rtt_estimate t a c) = pcb_next c" "pcb_state (rtt_estimate t a c) = pcb_state c"
  "local_port (rtt_estimate t a c) = local_port c"
  by (simp_all add: advance_rcv_def tcp_update_rcv_ann_wnd_def update_send_window_def ack_counters_def
      rtt_estimate_def Let_def)

lemma ack_lview:
  "res_all (\<lambda>x. lview x = lview st) (tcp_ack st p)" "res_all (\<lambda>x. lview x = lview st) (tcp_ack_now st p)"
  by (auto simp: tcp_ack_def tcp_ack_now_def intro!: lwp)

lemmas ack_lwp [lwp] = ack_lview [THEN res_all_weaken]

lemma tcp_parseopt_lview: "res_all (\<lambda>x. lview x = lview st) (tcp_parseopt i st p)"
  by (auto simp: tcp_parseopt_def intro!: lwp)

lemma duplicate_ack_lview: "res_all (\<lambda>x. lview x = lview st) (duplicate_ack i st p e)"
  by (auto simp: duplicate_ack_def Let_def intro!: lwp)

lemma release_seg_lview:
  assumes "\<And>c. pcb_next (f c) = pcb_next c \<and> pcb_state (f c) = pcb_state c \<and> local_port (f c) = local_port c"
  shows "res_all (\<lambda>x. lview x = lview st) (release_seg st p s f)"
  by (auto simp: release_seg_def assms intro!: lwp)

lemmas ack_parts_lwp [lwp] = tcp_parseopt_lview [THEN res_all_weaken] duplicate_ack_lview [THEN res_all_weaken]
  release_seg_lview [THEN res_all_weaken]

lemma acked_lview:
  "res_all (\<lambda>x. lview x = lview st) (acked_unacked st p a q)" "res_all (\<lambda>x. lview x = lview st) (acked_unsent st p a q)"
proof (induction q arbitrary: st)
  case (Cons s q)
  note IH = Cons.IH [THEN res_all_weaken]
  { case 1 show ?case by (auto intro!: lwp IH(1)) }
  { case 2 show ?case by (auto intro!: lwp IH(2)) }
qed simp_all

lemmas acked_lwp [lwp] = acked_lview [THEN res_all_weaken]

lemma grow_cwnd_wp:
  "(\<And>c'. pcb_next c' = pcb_next c \<Longrightarrow> pcb_state c' = pcb_state c \<Longrightarrow> local_port c' = local_port c \<Longrightarrow> P c') \<Longrightarrow>
   res_all P (grow_cwnd c)"
  by (auto simp: grow_cwnd_def Let_def)

lemma new_ack_lview: "res_all (\<lambda>x. lview x = lview st) (new_ack i st p)"
  by (auto simp: new_ack_def Let_def intro!: get_pcb_wp grow_cwnd_wp acked_lwp upd_pcb_lwp)

lemmas new_ack_lwp [lwp] = new_ack_lview [THEN res_all_weaken]

lemma receive_ack_lview: "res_all (\<lambda>x. lview x = lview st) (receive_ack i st p)"
  by (auto simp: receive_ack_def Let_def intro!: lwp)

lemma trim_front_lview: "res_all (\<lambda>x. lview (snd x) = lview st) (trim_front i st p)"
  by (auto simp: trim_front_def Let_def intro!: lwp)

lemma clip_to_window_lview: "res_all (\<lambda>x. lview (snd x) = lview st) (clip_to_window i st p)"
  by (auto simp: clip_to_window_def intro!: lwp)

lemma merge_ooseq_lview: "res_all (\<lambda>x. lview (snd x) = lview st) (merge_ooseq i st p)"
  by (auto simp: merge_ooseq_def intro!: lwp split: list.split)

lemma out_of_sequence_lview: "net_keeps env \<Longrightarrow> res_all (\<lambda>x. lview (snd x) = lview st) (out_of_sequence env i st p)"
  by (auto simp: out_of_sequence_def intro!: lwp)

lemma take_data_lview: "res_all (\<lambda>x. lview (snd (snd x)) = lview st) (take_data i st g)"
  by (auto simp: take_data_def intro!: lwp)

lemmas receive_parts_lwp [lwp] = take_data_lview [THEN res_all_weaken] receive_ack_lview [THEN res_all_weaken] trim_front_lview [THEN res_all_weaken]
  clip_to_window_lview [THEN res_all_weaken] merge_ooseq_lview [THEN res_all_weaken]
  out_of_sequence_lview [THEN res_all_weaken]

section \<open>The state of the connection\<close>

text \<open>
  Receiving data can only change the state of its block when a \<^verbatim>\<open>FIN\<close> that came out of order is now in
  sequence.
\<close>

definition half_closed :: "addr \<Rightarrow> 'a tcp_st_scheme \<Rightarrow> 'a tcp_st_scheme \<Rightarrow> bool" where
  "half_closed p st st' \<longleftrightarrow> lview st' = lview st \<or>
     (next_of st' = next_of st \<and> head_of st' = head_of st \<and> dom (tcp_lpcbs st') = dom (tcp_lpcbs st) \<and>
      (\<exists>q. info st p = Some (False, ESTABLISHED, q) \<and> info st' = (info st)(p \<mapsto> (False, CLOSE_WAIT, q))))"

lemma half_closed_refl [simp]: "half_closed p st st"
  by (simp add: half_closed_def)

lemma half_closed_after: "lview st2 = lview st1 \<Longrightarrow> half_closed p st st2 = half_closed p st st1"
  by (auto simp: half_closed_def lview_def)

lemma half_closed_trans:
  assumes "half_closed p st st1" "half_closed p st1 st2"
  shows "half_closed p st st2"
proof (cases "lview st1 = lview st")
  case True
  then show ?thesis using assms(2) by (auto simp: half_closed_def lview_def)
next
  case False
  with assms(1) obtain q where "info st1 p = Some (False, CLOSE_WAIT, q)" by (auto simp: half_closed_def)
  with assms(2) have "lview st2 = lview st1" by (auto simp: half_closed_def)
  with assms(1) show ?thesis using half_closed_after by blast
qed

lemma half_closed_upd:
  "res_all (half_closed p st) (upd_pcb st p (\<lambda>c. if pcb_state c = ESTABLISHED then c\<lparr>pcb_state := CLOSE_WAIT\<rparr> else c))"
proof -
  have "half_closed p st (put_pcb st p (c\<lparr>pcb_state := CLOSE_WAIT\<rparr>))"
    if c: "tcp_pcbs st p = Some c" "pcb_state c = ESTABLISHED" for c
  proof -
    let ?st = "put_pcb st p (c\<lparr>pcb_state := CLOSE_WAIT\<rparr>)"
    have "info ?st r = (if r = p then Some (False, CLOSE_WAIT, local_port c) else info st r)"
      "next_of ?st r = next_of st r" for r
      using c by (auto simp: info_eq next_of_eq split: option.split)
    then have "info ?st = (info st)(p \<mapsto> (False, CLOSE_WAIT, local_port c))" "next_of ?st = next_of st"
      by (auto simp: fun_eq_iff)
    moreover have "head_of ?st = head_of st" by (rule head_of_cong) simp_all
    moreover have "info st p = Some (False, ESTABLISHED, local_port c)" using c by (simp add: info_eq)
    ultimately show ?thesis by (auto simp: half_closed_def)
  qed
  then show ?thesis by (auto simp: upd_pcb_def half_closed_def intro!: get_pcb_wp)
qed

named_theorems hwp \<open>rules for \<open>res_all\<close> over \<open>half_closed\<close>\<close>

lemma hwp_lview:
  assumes "res_all (\<lambda>x. lview (g x) = lview s) r" "half_closed p st s" "\<And>x. half_closed p st (g x) \<Longrightarrow> P x"
  shows "res_all P r"
  by (rule res_all_weaken [OF assms(1)]) (use assms(2,3) half_closed_after in blast)

lemma hwp_half_closed:
  assumes "res_all (\<lambda>x. half_closed p s (g x)) r" "half_closed p st s" "\<And>x. half_closed p st (g x) \<Longrightarrow> P x"
  shows "res_all P r"
  by (rule res_all_weaken [OF assms(1)]) (use assms(2,3) half_closed_trans in blast)

lemmas read_hwp [hwp] = read_mwp get_pcb_wp

lemma upd_pcb_hwp [hwp]:
  assumes "half_closed p st s"
    and "\<And>c. pcb_next (f c) = pcb_next c \<and> pcb_state (f c) = pcb_state c \<and> local_port (f c) = local_port c"
    and "\<And>x. half_closed p st x \<Longrightarrow> P x"
  shows "res_all P (upd_pcb s q f)"
  by (rule hwp_lview [OF lview_upd_pcb [OF assms(2)] assms(1,3)])

lemmas lower_hwp [hwp] =
  lower_wp(5,8) [THEN lview_of_more, THEN hwp_lview] half_closed_upd [THEN hwp_half_closed]
  clip_to_window_lview [THEN hwp_lview] merge_ooseq_lview [THEN hwp_lview] receive_ack_lview [THEN hwp_lview]
  trim_front_lview [THEN hwp_lview] ack_lview [THEN hwp_lview] out_of_sequence_lview [THEN hwp_lview]
  tcp_send_empty_ack_frame [THEN lview_of_pframe, THEN hwp_lview] take_data_lview [THEN hwp_lview]

lemma note_fin_half_closed: "res_all (\<lambda>x. half_closed p st (snd x)) (note_fin i st p h)"
  by (auto simp: note_fin_def intro!: read_hwp half_closed_upd)

lemmas note_fin_hwp [hwp] = note_fin_half_closed [THEN hwp_half_closed]

lemma drain_ooseq_half_closed: "half_closed p st0 st \<Longrightarrow> res_all (\<lambda>x. half_closed p st0 (snd x)) (drain_ooseq i st p q)"
proof (induction q arbitrary: i st)
  case (Cons s q)
  note IH = Cons.IH
  show ?case using Cons.prems by (auto intro!: hwp IH)
qed simp

lemma in_sequence_half_closed: "half_closed p st0 st \<Longrightarrow> res_all (\<lambda>x. half_closed p st0 (snd x)) (in_sequence i st p)"
  by (auto simp: in_sequence_def Let_def intro!: hwp drain_ooseq_half_closed [THEN res_all_weaken])

lemma tcp_receive_half_closed:
  "net_keeps env \<Longrightarrow> res_all (\<lambda>x. half_closed p st (snd x)) (tcp_receive env i st p)"
proof -
  assume n: "net_keeps env"
  have "half_closed p st st" by simp
  then show ?thesis using n unfolding tcp_receive_def by (auto intro!: hwp in_sequence_half_closed)
qed

section \<open>The segment while it is received\<close>

text \<open>Cutting the segment keeps its flags and its acknowledgement; only \<^verbatim>\<open>TF_GOT_FIN\<close> may be noted.\<close>

definition same_seg :: "tcpin \<Rightarrow> tcpin \<Rightarrow> bool" where
  "same_seg i i' \<longleftrightarrow> flags i' = flags i \<and> ackno i' = ackno i \<and> tcphdr (inseg i') = tcphdr (inseg i) \<and>
     iphdr_src i' = iphdr_src i \<and> iphdr_dest i' = iphdr_dest i \<and>
     (recv_flags i' = recv_flags i \<or> recv_flags i' = recv_flags i OR TF_GOT_FIN)"

lemma or_idem: "(x OR y) OR y = x OR (y :: 'a::len word)"
  by (simp add: or.assoc)

lemma same_seg_refl [simp]: "same_seg i i"
  by (simp add: same_seg_def)

lemma same_seg_trans: "same_seg i j \<Longrightarrow> same_seg j k \<Longrightarrow> same_seg i k"
  by (auto simp: same_seg_def or_idem)

lemma same_seg_simps [simp]:
  "same_seg i (j\<lparr>seqno := a1\<rparr>) = same_seg i j" "same_seg i (j\<lparr>tcplen := a2\<rparr>) = same_seg i j"
  "same_seg i (j\<lparr>recv_data := a3\<rparr>) = same_seg i j"
  "tcphdr g = tcphdr (inseg j) \<Longrightarrow> same_seg i (j\<lparr>inseg := g\<rparr>) = same_seg i j"
  "same_seg i (j\<lparr>inseg := g, seqno := a1\<rparr>) = same_seg i (j\<lparr>inseg := g\<rparr>)"
  "same_seg i (j\<lparr>recv_data := a3, inseg := g\<rparr>) = same_seg i (j\<lparr>inseg := g\<rparr>)"
  by (simp_all add: same_seg_def)

lemma same_seg_fin [simp]: "same_seg i j \<Longrightarrow> same_seg i (j\<lparr>recv_flags := recv_flags j OR TF_GOT_FIN\<rparr>)"
  by (auto simp: same_seg_def or_idem)

text \<open>Operations whose result has no part of the segment.\<close>

lemmas other_swp =
  res_all_any [where r = "get_pcb s0 q" for s0 q]
  res_all_any [where r = "upd_pcb s0 q f" for s0 q f]
  res_all_any [where r = "get_pbuf s0 q" for s0 q]
  res_all_any [where r = "clear_fin s0 h" for s0 h]
  res_all_any [where r = "hdr_seqno m h" for m h]
  res_all_any [where r = "TCPH_FLAGS m h" for m h]
  res_all_any [where r = "TCPH_SET_FLAG m h f" for m h f]
  res_all_any [where r = "tcp_seg_free s0 g" for s0 g]
  res_all_any [where r = "tcp_segs_free s0 g" for s0 g]
  res_all_any [where r = "pbuf_cat s0 x y" for s0 x y]
  res_all_any [where r = "pbuf_header s0 x y" for s0 x y]
  res_all_any [where r = "pbuf_realloc s0 x y" for s0 x y]
  res_all_any [where r = "TCP_TCPLEN m g" for m g]
  res_all_any [where r = "tcp_ack s0 x" for s0 x]
  res_all_any [where r = "tcp_ack_now s0 x" for s0 x]
  res_all_any [where r = "tcp_send_empty_ack e s0 x" for e s0 x]
  res_all_any [where r = "tcp_seg_copy s0 x" for s0 x]
  res_all_any [where r = "insert_copy k s0 a b" for k s0 a b]
  res_all_any [where r = "receive_ack k s0 x" for k s0 x]
  res_all_any [where r = "wr32 m a b" for m a b]
  res_all_any [where r = "trim_loop k s0 x a b" for k s0 x a b]
  res_all_any [where r = "trim_prev k s0 x" for k s0 x]
  res_all_any [where r = "cut_seg s0 a b" for s0 a b]

lemma set_tcplen_same: "same_seg i j \<Longrightarrow> res_all (same_seg i) (set_tcplen j st)"
  by (auto simp: set_tcplen_def intro!: other_swp)

lemma cut_inseg_same: "same_seg i j \<Longrightarrow> res_all (\<lambda>x. same_seg i (fst x)) (cut_inseg j st n)"
  by (auto simp: cut_inseg_def Let_def intro!: set_tcplen_same [THEN res_all_weaken] other_swp)

lemma clip_same: "same_seg i j \<Longrightarrow> res_all (\<lambda>x. same_seg i (fst x)) (clip_to_window j st p)"
  by (auto simp: clip_to_window_def intro!: other_swp set_tcplen_same [THEN res_all_weaken] cut_inseg_same)

lemma trim_front_same: "same_seg i j \<Longrightarrow> res_all (\<lambda>x. same_seg i (fst x)) (trim_front j st p)"
  by (auto simp: trim_front_def Let_def intro!: other_swp)

lemma drop_covered_same: "same_seg i j \<Longrightarrow> res_all (\<lambda>x. same_seg i (fst x)) (drop_covered j st q)"
proof (induction q arbitrary: j st)
  case (Cons s q)
  note IH = Cons.IH
  show ?case using Cons.prems
    by (auto intro!: other_swp IH set_tcplen_same [THEN res_all_weaken])
qed simp

lemma merge_same: "same_seg i j \<Longrightarrow> res_all (\<lambda>x. same_seg i (fst x)) (merge_ooseq j st p)"
  by (auto simp: merge_ooseq_def intro!: other_swp drop_covered_same [THEN res_all_weaken] cut_inseg_same [THEN res_all_weaken] split: list.split)

lemma take_data_same: "same_seg i j \<Longrightarrow> res_all (\<lambda>x. same_seg i (fst x)) (take_data j st g)"
  by (auto simp: take_data_def intro!: other_swp)

lemma note_fin_same: "same_seg i j \<Longrightarrow> res_all (\<lambda>x. same_seg i (fst x)) (note_fin j st p h)"
  by (auto simp: note_fin_def intro!: other_swp)

lemma drain_same: "same_seg i j \<Longrightarrow> res_all (\<lambda>x. same_seg i (fst x)) (drain_ooseq j st p q)"
proof (induction q arbitrary: j st)
  case (Cons s q)
  note IH = Cons.IH
  show ?case using Cons.prems
    by (auto intro!: other_swp IH take_data_same [THEN res_all_weaken] note_fin_same [THEN res_all_weaken])
qed simp

lemma in_sequence_same: "same_seg i j \<Longrightarrow> res_all (\<lambda>x. same_seg i (fst x)) (in_sequence j st p)"
  by (auto simp: in_sequence_def Let_def intro!: other_swp clip_same [THEN res_all_weaken] merge_same [THEN res_all_weaken]
      drain_same [THEN res_all_weaken]) (auto simp: same_seg_def or_idem)

lemma append_same: "same_seg i j \<Longrightarrow> res_all (\<lambda>x. same_seg i (fst x)) (append_ooseq j st c g)"
  by (auto simp: append_ooseq_def intro!: other_swp split: option.split)

lemma walk_same: "same_seg i j \<Longrightarrow> res_all (\<lambda>x. same_seg i (fst x)) (ooseq_walk j st c f q)"
proof (induction q arbitrary: j st f)
  case (Cons s q)
  note IH = Cons.IH
  show ?case using Cons.prems
    by (auto intro!: other_swp IH append_same [THEN res_all_weaken])
qed simp

lemma out_of_sequence_same: "same_seg i j \<Longrightarrow> res_all (\<lambda>x. same_seg i (fst x)) (out_of_sequence env j st p)"
  by (auto simp: out_of_sequence_def intro!: other_swp walk_same [THEN res_all_weaken] split: option.split)

lemma tcp_receive_same: "res_all (\<lambda>x. same_seg i (fst x)) (tcp_receive env i st p)"
proof -
  have "same_seg i i" by simp
  then show ?thesis
    by (auto simp: tcp_receive_def intro!: other_swp trim_front_same [THEN res_all_weaken] in_sequence_same out_of_sequence_same)
qed

section \<open>The state machine\<close>

text \<open>
  The edges of the state diagram that a segment takes: \<open>fin\<close> when the \<^verbatim>\<open>FIN\<close> of the peer was received in
  sequence, \<open>ack\<close> when the segment has an acknowledgement.
\<close>

inductive tcp_edge :: "bool \<Rightarrow> bool \<Rightarrow> tcp_state \<Rightarrow> tcp_state \<Rightarrow> bool" for fin ack :: bool where
  edge_stay: "tcp_edge fin ack s s"
| edge_close_wait: "fin \<Longrightarrow> tcp_edge fin ack ESTABLISHED CLOSE_WAIT"
| edge_closing: "fin \<Longrightarrow> tcp_edge fin ack FIN_WAIT_1 CLOSING"
| edge_fin_wait_2: "ack \<Longrightarrow> tcp_edge fin ack FIN_WAIT_1 FIN_WAIT_2"
| edge_both: "fin \<Longrightarrow> ack \<Longrightarrow> tcp_edge fin ack FIN_WAIT_1 TIME_WAIT"
| edge_time_wait: "fin \<Longrightarrow> tcp_edge fin ack FIN_WAIT_2 TIME_WAIT"
| edge_closed: "ack \<Longrightarrow> tcp_edge fin ack CLOSING TIME_WAIT"

text \<open>The block \<open>p\<close> is a connection in the state \<open>s\<close>; the others are \<open>I\<close> says.\<close>

definition at_state :: "'a tcp_st_scheme \<Rightarrow> (addr \<Rightarrow> pcb_info option) \<Rightarrow> addr \<Rightarrow> tcp_state \<Rightarrow> u16 \<Rightarrow> bool" where
  "at_state st I p s q \<longleftrightarrow> lists_inv st \<and> info st = I(p \<mapsto> (False, s, q))"

lemma at_state_lview: "lview st' = lview st \<Longrightarrow> at_state st' I p s q = at_state st I p s q"
  using lists_inv_lview [of st' st] by (auto simp: at_state_def lview_def)

lemma at_stateE:
  assumes "at_state st I p s q"
  obtains S D where "vrel st S (I(p \<mapsto> (False, s, q))) D" "wf_lists S (I(p \<mapsto> (False, s, q))) D"
proof -
  from assms obtain S I' D where v: "vrel st S I' D" "wf_lists S I' D" and i: "info st = I(p \<mapsto> (False, s, q))"
    by (auto simp: at_state_def lists_inv_def)
  have "I' = I(p \<mapsto> (False, s, q))" using v(1) i by (simp add: vrel_def)
  with v that show ?thesis by simp
qed

lemma at_stateI: "vrel st S (I(p \<mapsto> (False, s, q))) D \<Longrightarrow> wf_lists S (I(p \<mapsto> (False, s, q))) D \<Longrightarrow> at_state st I p s q"
  by (auto simp: at_state_def intro: lists_invI) (simp add: vrel_def)

lemma at_state_change:
  assumes "at_state st I p s q" "list_for s = L_active" "list_for s' = L_active"
    and "next_of st' = next_of st" "head_of st' = head_of st" "dom (tcp_lpcbs st') = dom (tcp_lpcbs st)"
    and "info st' = (info st)(p \<mapsto> (False, s', q))"
  shows "at_state st' I p s' q"
proof -
  from assms(1) obtain S D where v: "vrel st S (I(p \<mapsto> (False, s, q))) D" and
    w: "wf_lists S (I(p \<mapsto> (False, s, q))) D" by (rule at_stateE)
  have I: "info st = I(p \<mapsto> (False, s, q))" using v by (simp add: vrel_def)
  have f: "filed S p (False, s, q)" and p0: "p \<noteq> 0" and pD: "p \<notin> D"
    using wf_filed [OF w, of p] wf_nonzero [OF w, of p] wf_conn_D [OF w, of p] by auto
  have "vrel st' S (I(p \<mapsto> (False, s, q), p \<mapsto> (False, s', q))) D"
    by (rule vrel_change [OF v]) (use assms(4-7) I in simp_all)
  moreover have "wf_lists S (I(p \<mapsto> (False, s, q), p \<mapsto> (False, s', q))) D"
    by (rule wf_step [OF w]) (use f p0 pD assms(2,3) in \<open>auto simp: filed_def\<close>)
  ultimately show ?thesis by (intro at_stateI) simp_all
qed

lemma at_state_set:
  assumes "at_state st I p s q" "list_for s = L_active" "list_for s' = L_active"
  shows "res_all (\<lambda>x. at_state x I p s' q) (set_state st p s')"
proof -
  from assms(1) obtain S D where v: "vrel st S (I(p \<mapsto> (False, s, q))) D" and
    w: "wf_lists S (I(p \<mapsto> (False, s, q))) D" by (rule at_stateE)
  have f: "filed S p (False, s, q)" and p0: "p \<noteq> 0" and pD: "p \<notin> D"
    using wf_filed [OF w, of p] wf_nonzero [OF w, of p] wf_conn_D [OF w, of p] by auto
  have "wf_lists S (I(p \<mapsto> (False, s, q), p \<mapsto> (False, s', q))) D"
    by (rule wf_step [OF w]) (use f p0 pD assms(2,3) in \<open>auto simp: filed_def\<close>)
  then have w': "wf_lists S (I(p \<mapsto> (False, s', q))) D" by simp
  show ?thesis
    by (rule set_state_vrel [OF v, of p False s q s', THEN res_all_weaken]) (use w' in \<open>auto intro: at_stateI\<close>)
qed

lemma at_state_half_closed:
  assumes "at_state st I p s q" "half_closed p st st'"
  shows "at_state st' I p s q \<or> s = ESTABLISHED \<and> at_state st' I p CLOSE_WAIT q"
proof (cases "lview st' = lview st")
  case True
  then show ?thesis using assms(1) at_state_lview by blast
next
  case False
  have I: "info st p = Some (False, s, q)" using assms(1) by (simp add: at_state_def)
  from False assms(2) I have s: "s = ESTABLISHED" and h: "next_of st' = next_of st" "head_of st' = head_of st"
    "dom (tcp_lpcbs st') = dom (tcp_lpcbs st)" "info st' = (info st)(p \<mapsto> (False, CLOSE_WAIT, q))"
    by (auto simp: half_closed_def)
  have "at_state st' I p CLOSE_WAIT q" by (rule at_state_change [OF assms(1)]) (use s h in simp_all)
  with s show ?thesis by simp
qed

lemma to_time_wait_at:
  assumes "at_state st I p s q" "list_for s = L_active"
  shows "res_all (\<lambda>x. at_state x I p TIME_WAIT q) (to_time_wait st p)"
proof -
  from assms(1) obtain S D where v: "vrel st S (I(p \<mapsto> (False, s, q))) D" and
    w: "wf_lists S (I(p \<mapsto> (False, s, q))) D" by (rule at_stateE)
  have f: "filed S p (False, s, q)" and p0: "p \<noteq> 0" and pD: "p \<notin> D"
    using wf_filed [OF w, of p] wf_nonzero [OF w, of p] wf_conn_D [OF w, of p] by auto
  let ?S = "S(L_active := S L_active - {p})"
  let ?S' = "?S(L_tw := insert p (?S L_tw))"
  have n: "\<forall>k. k \<noteq> L_active \<longrightarrow> p \<notin> S k" using f assms(2) by (simp add: filed_only)
  have "wf_lists ?S' (I(p \<mapsto> (False, s, q), p \<mapsto> (False, TIME_WAIT, q))) D"
    by (rule wf_step [OF w]) (use n p0 pD in \<open>auto simp: filed_def\<close>)
  then have w': "wf_lists ?S' (I(p \<mapsto> (False, TIME_WAIT, q))) D" by simp
  have reg: "res_all (\<lambda>x. at_state x I p TIME_WAIT q) (TCP_REG x L_tw p)"
    if "vrel x ?S (I(p \<mapsto> (False, s, q), p \<mapsto> (False, TIME_WAIT, q))) D" for x
    by (rule TCP_REG_vrel [OF that _ p0, THEN res_all_weaken]) (use n w' in \<open>auto intro: at_stateI\<close>)
  show ?thesis
    unfolding to_time_wait_def res_all_simps
    apply (rule tcp_pcb_purge_vwp [OF v])
    apply (rule TCP_RMV_ACTIVE_vrel [THEN res_all_weaken], assumption, simp, rule p0, rule n)
    apply (rule set_state_vrel [of _ _ _ _ p False s q, THEN res_all_weaken], assumption, simp)
    apply (rule reg, simp)
    done
qed

text \<open>The state changes only when the \<^verbatim>\<open>FIN\<close> is noted.\<close>

definition got_fin :: "tcpin \<Rightarrow> bool" where
  "got_fin i \<longleftrightarrow> recv_flags i AND TF_GOT_FIN \<noteq> 0"

lemma got_fin_simps [simp]:
  "got_fin (i\<lparr>inseg := g\<rparr>) = got_fin i" "got_fin (i\<lparr>seqno := a\<rparr>) = got_fin i"
  "got_fin (i\<lparr>tcplen := n\<rparr>) = got_fin i" "got_fin (i\<lparr>recv_data := d\<rparr>) = got_fin i"
  "got_fin (i\<lparr>recv_data := d, inseg := g\<rparr>) = got_fin i"
  by (simp_all add: got_fin_def)

lemma got_fin_set: "recv_flags i = f OR TF_GOT_FIN \<Longrightarrow> got_fin i"
proof -
  assume i: "recv_flags i = f OR TF_GOT_FIN"
  have "bit (recv_flags i AND TF_GOT_FIN) 5" unfolding i by (simp add: bit_simps TF_GOT_FIN_def)
  then show ?thesis unfolding got_fin_def by auto
qed

definition view_or :: "_ \<Rightarrow> bool \<Rightarrow> 'a tcp_st_scheme \<Rightarrow> bool" where
  "view_or v b s \<longleftrightarrow> lview s = v \<or> b"

lemma view_orI: "b \<Longrightarrow> view_or v b s"
  by (simp add: view_or_def)

named_theorems fwp \<open>rules for \<open>res_all\<close> over \<open>view_or\<close>\<close>

lemma fwp_lview:
  assumes "res_all (\<lambda>x. lview (g x) = lview s) r" "view_or v b s" "\<And>x. view_or v b (g x) \<Longrightarrow> P x"
  shows "res_all P r"
  by (rule res_all_weaken [OF assms(1)]) (use assms(2,3) in \<open>simp add: view_or_def\<close>)

lemmas read_fwp [fwp] = read_mwp get_pcb_wp

lemma upd_pcb_fwp [fwp]:
  assumes "view_or v b s"
    and "\<And>c. pcb_next (f c) = pcb_next c \<and> pcb_state (f c) = pcb_state c \<and> local_port (f c) = local_port c"
    and "\<And>x. view_or v b x \<Longrightarrow> P x"
  shows "res_all P (upd_pcb s q f)"
  by (rule fwp_lview [OF lview_upd_pcb [OF assms(2)] assms(1,3)])

lemmas lower_fwp [fwp] =
  lower_wp(5,8) [THEN lview_of_more, THEN fwp_lview]
  clip_to_window_lview [THEN fwp_lview] merge_ooseq_lview [THEN fwp_lview]
  ack_lview [THEN fwp_lview]

lemma take_data_fin: "res_all (\<lambda>x. got_fin (fst x) = got_fin i \<and> lview (snd (snd x)) = lview st) (take_data i st g)"
  by (auto simp: take_data_def intro!: lwp)

lemma note_fin_fin: "view_or v (got_fin i) st \<Longrightarrow> res_all (\<lambda>x. view_or v (got_fin (fst x)) (snd x)) (note_fin i st p h)"
  by (auto simp: note_fin_def intro!: read_fwp res_all_any view_orI got_fin_set)

lemma take_data_fwp [fwp]:
  assumes "view_or v (got_fin i) st" "\<And>i' g' x. view_or v (got_fin i') x \<Longrightarrow> P (i', g', x)"
  shows "res_all P (take_data i st g)"
  by (rule take_data_fin [THEN res_all_weaken]) (use assms in \<open>auto simp: view_or_def\<close>)

lemma note_fin_fwp [fwp]:
  assumes "view_or v (got_fin i) st" "\<And>i' x. view_or v (got_fin i') x \<Longrightarrow> P (i', x)"
  shows "res_all P (note_fin i st p h)"
  by (rule note_fin_fin [OF assms(1), THEN res_all_weaken]) (use assms(2) in auto)

lemma drain_ooseq_fin:
  "view_or v (got_fin i) st \<Longrightarrow> res_all (\<lambda>x. view_or v (got_fin (fst x)) (snd x)) (drain_ooseq i st p q)"
proof (induction q arbitrary: i st)
  case (Cons s q)
  note IH = Cons.IH
  show ?case using Cons.prems by (auto intro!: fwp IH)
qed simp

lemma in_sequence_fin: "res_all (\<lambda>x. lview (snd x) = lview st \<or> got_fin (fst x)) (in_sequence i st p)"
proof -
  have "view_or (lview st) (got_fin j) s" if "lview s = lview st" for j s using that by (simp add: view_or_def)
  note d = drain_ooseq_fin [OF this, THEN res_all_weaken]
  show ?thesis
    unfolding in_sequence_def Let_def
    by (auto simp: view_or_def intro!: lwp d)
qed


lemma tcp_receive_fin:
  "net_keeps env \<Longrightarrow> res_all (\<lambda>x. lview (snd x) = lview st \<or> got_fin (fst x)) (tcp_receive env i st p)"
  unfolding tcp_receive_def by (auto intro!: lwp in_sequence_fin [THEN res_all_weaken])

lemma received_at:
  assumes a: "at_state st I p s q" and n: "net_keeps env"
  shows "res_all (\<lambda>x. same_seg i (fst x) \<and>
     (at_state (snd x) I p s q \<or> s = ESTABLISHED \<and> got_fin (fst x) \<and> at_state (snd x) I p CLOSE_WAIT q))
     (tcp_receive env i st p)"
proof (rule res_allI)
  fix x
  assume r: "tcp_receive env i st p = Inr x"
  have "half_closed p st (snd x)" "lview (snd x) = lview st \<or> got_fin (fst x)" "same_seg i (fst x)"
    using res_allD [OF tcp_receive_half_closed [OF n] r] res_allD [OF tcp_receive_fin [OF n] r]
      res_allD [OF tcp_receive_same r] by auto
  then show "same_seg i (fst x) \<and>
     (at_state (snd x) I p s q \<or> s = ESTABLISHED \<and> got_fin (fst x) \<and> at_state (snd x) I p CLOSE_WAIT q)"
    using at_state_half_closed [OF a] at_state_lview a by blast
qed

lemma ack_now_at:
  assumes "at_state st I p s q" "\<And>x. at_state x I p s q \<Longrightarrow> P x"
  shows "res_all P (tcp_ack_now st p)"
  by (rule ack_lview(2) [THEN res_all_weaken]) (use assms at_state_lview in blast)

text \<open>The state before the segment (\<open>s\<close>, on which the \<^verbatim>\<open>switch\<close> of the code branches) and after.\<close>

definition after_edge :: "tcpin \<Rightarrow> (addr \<Rightarrow> pcb_info option) \<Rightarrow> addr \<Rightarrow> u16 \<Rightarrow> tcp_state \<Rightarrow> tcpin \<times> 'a tcp_st_scheme \<Rightarrow> bool" where
  "after_edge i I p q s x \<longleftrightarrow>
     (\<exists>t. at_state (snd x) I p t q \<and> tcp_edge (got_fin i) (flags i AND TCP_ACK \<noteq> 0) s t \<and>
        (recv_flags (fst x) = recv_flags i \<or> recv_flags (fst x) = recv_flags i OR TF_CLOSED \<and> t = LAST_ACK))"

lemma after_edgeI:
  "at_state st I p t q \<Longrightarrow> tcp_edge (got_fin i) (flags i AND TCP_ACK \<noteq> 0) s t \<Longrightarrow> after_edge i I p q s (i, st)"
  by (auto simp: after_edge_def)

lemma process_received_at:
  assumes a: "at_state st I p s' q" and s: "s' = s \<or> s = ESTABLISHED \<and> got_fin i \<and> s' = CLOSE_WAIT"
    and l: "s \<in> {ESTABLISHED, FIN_WAIT_1, FIN_WAIT_2, CLOSE_WAIT, CLOSING, LAST_ACK}"
  shows "res_all (after_edge i I p q s) (process_received i st p s)"
proof -
  have la: "list_for s' = L_active" using s l by auto
  have set: "res_all (\<lambda>x. after_edge i I p q s (i, x)) (set_state x p t)"
    if "at_state x I p s' q" "list_for t = L_active" "tcp_edge (got_fin i) (flags i AND TCP_ACK \<noteq> 0) s t" for x t
    by (rule at_state_set [OF that(1) la that(2), THEN res_all_weaken]) (rule after_edgeI [OF _ that(3)])
  have tw: "res_all (\<lambda>x. after_edge i I p q s (i, x)) (to_time_wait x p)"
    if "at_state x I p s' q" "tcp_edge (got_fin i) (flags i AND TCP_ACK \<noteq> 0) s TIME_WAIT" for x
    by (rule to_time_wait_at [OF that(1) la, THEN res_all_weaken]) (rule after_edgeI [OF _ that(2)])
  have stay: "after_edge i I p q s (i, st)" if "s = ESTABLISHED \<longrightarrow> \<not> got_fin i"
    by (rule after_edgeI [OF a]) (use s that in \<open>auto intro: edge_stay\<close>)
  have last: "after_edge i I p q s (i\<lparr>recv_flags := recv_flags i OR TF_CLOSED\<rparr>, st)" if "s = LAST_ACK"
    using a s that by (auto simp: after_edge_def intro: edge_stay)
  have k: "recv_flags i AND TF_GOT_FIN \<noteq> 0 \<longleftrightarrow> got_fin i" by (simp add: got_fin_def)
  have ack: "res_all P (tcp_ack_now st p)" if "\<And>x. at_state x I p s' q \<Longrightarrow> P x" for P
    by (rule ack_now_at [OF a that])
  note e = edge_stay edge_close_wait edge_closing edge_fin_wait_2 edge_both edge_time_wait edge_closed
  from l consider "s = ESTABLISHED" | "s = FIN_WAIT_1" | "s = FIN_WAIT_2" | "s = CLOSE_WAIT" | "s = CLOSING" | "s = LAST_ACK"
    by blast
  then show ?thesis
  proof cases
    case 1
    show ?thesis unfolding process_received_def all_acked_def Let_def k 1
      by (auto intro!: a get_pcb_wp ack set [unfolded 1] tw [unfolded 1] stay [unfolded 1] last [unfolded 1] intro: e)
  next
    case 2
    show ?thesis unfolding process_received_def all_acked_def Let_def k 2
      by (auto intro!: a get_pcb_wp ack set [unfolded 2] tw [unfolded 2] stay [unfolded 2] last [unfolded 2] intro: e)
  next
    case 3
    show ?thesis unfolding process_received_def all_acked_def Let_def k 3
      by (auto intro!: a get_pcb_wp ack set [unfolded 3] tw [unfolded 3] stay [unfolded 3] last [unfolded 3] intro: e)
  next
    case 4
    show ?thesis unfolding process_received_def all_acked_def Let_def k 4
      by (auto intro!: a get_pcb_wp ack set [unfolded 4] tw [unfolded 4] stay [unfolded 4] last [unfolded 4] intro: e)
  next
    case 5
    show ?thesis unfolding process_received_def all_acked_def Let_def k 5
      by (auto intro!: a get_pcb_wp ack set [unfolded 5] tw [unfolded 5] stay [unfolded 5] last [unfolded 5] intro: e)
  next
    case 6
    show ?thesis unfolding process_received_def all_acked_def Let_def k 6
      by (auto intro!: a get_pcb_wp ack set [unfolded 6] tw [unfolded 6] stay [unfolded 6] last [unfolded 6] intro: e)
  qed
qed


definition connected_states :: "tcp_state set" where
  "connected_states = {ESTABLISHED, FIN_WAIT_1, FIN_WAIT_2, CLOSE_WAIT, CLOSING, LAST_ACK}"

lemma got_fin_closed [simp]: "got_fin (i\<lparr>recv_flags := f OR TF_CLOSED\<rparr>) = got_fin (i\<lparr>recv_flags := f\<rparr>)"
proof -
  have "(f OR TF_CLOSED) AND TF_GOT_FIN = f AND TF_GOT_FIN"
    unfolding bit.conj_disj_distrib2 by (simp add: TF_CLOSED_def TF_GOT_FIN_def)
  then show ?thesis by (simp add: got_fin_def)
qed

lemma parseopt_at:
  assumes "at_state st I p s q" "\<And>x. at_state x I p s q \<Longrightarrow> P x"
  shows "res_all P (tcp_parseopt i st p)"
  by (rule tcp_parseopt_lview [THEN res_all_weaken]) (use assms at_state_lview in blast)

lemma at_state_put [simp]:
  "tcp_pcbs st p = Some c \<Longrightarrow> pcb_next c' = pcb_next c \<Longrightarrow> pcb_state c' = pcb_state c \<Longrightarrow>
   local_port c' = local_port c \<Longrightarrow> at_state (put_pcb st p c') I p s q = at_state st I p s q"
  by (intro at_state_lview lview_put_pcb)

text \<open>The state in which a segment leaves an established connection.\<close>

definition after_segment :: "tcpin \<Rightarrow> (addr \<Rightarrow> pcb_info option) \<Rightarrow> addr \<Rightarrow> u16 \<Rightarrow> tcp_state \<Rightarrow> err_t \<times> tcpin \<times> 'a tcp_st_scheme \<Rightarrow> bool" where
  "after_segment i I p q s x \<longleftrightarrow> (case x of (e, i', st') \<Rightarrow>
     \<exists>t. at_state st' I p t q \<and> tcp_edge (got_fin i') (flags i AND TCP_ACK \<noteq> 0) s t \<and>
        (recv_flags i' \<in> {0, TF_GOT_FIN} \<or> t = s \<and> recv_flags i' = TF_RESET \<or> t = LAST_ACK))"

lemma tcp_process_edge:
  assumes a: "at_state st I p s q" and s: "s \<in> connected_states" and n: "net_keeps (ipe (tenv env))"
    and r: "recv_flags i = 0"
  shows "res_all (after_segment i I p q s) (tcp_process env i st p)"
proof -
  have I: "info st p = Some (False, s, q)" using a by (simp add: at_state_def)
  have get: "res_all P (get_pcb st p)" if "\<And>c. tcp_pcbs st p = Some c \<Longrightarrow> pcb_state c = s \<Longrightarrow> P c" for P
    by (rule get_pcb_wp) (use that I in \<open>simp add: info_eq\<close>)
  have stay: "after_segment i I p q s (e, i, x)" if "at_state x I p s q" for e x
    using that r by (auto simp: after_segment_def intro: edge_stay)
  have rst: "after_segment i I p q s (e, i\<lparr>recv_flags := recv_flags i OR TF_RESET\<rparr>, x)" if "at_state x I p s q" for e x
    using that r by (auto simp: after_segment_def intro: edge_stay)
  have proc: "res_all (\<lambda>y. after_segment i I p q s (e, y)) (process_received (fst x) (snd x) p s)"
    if x: "same_seg i (fst x)" and
      at: "at_state (snd x) I p s q \<or> s = ESTABLISHED \<and> got_fin (fst x) \<and> at_state (snd x) I p CLOSE_WAIT q" for e x
  proof -
    obtain s' where s': "at_state (snd x) I p s' q" "s' = s \<or> s = ESTABLISHED \<and> got_fin (fst x) \<and> s' = CLOSE_WAIT"
      using at by blast
    have fl: "flags (fst x) = flags i" and rf: "recv_flags (fst x) \<in> {0, TF_GOT_FIN}" using x r by (auto simp: same_seg_def)
    have fin: "got_fin j = got_fin (fst x)"
      if "recv_flags j = recv_flags (fst x) \<or> recv_flags j = recv_flags (fst x) OR TF_CLOSED" for j
      using that got_fin_closed [where f = "recv_flags (fst x)" and i = i] by (auto simp: got_fin_def)
    have "after_segment i I p q s (e, y)" if edge: "after_edge (fst x) I p q s y" for y
    proof -
      from edge obtain t where t: "at_state (snd y) I p t q" "tcp_edge (got_fin (fst x)) (flags (fst x) AND TCP_ACK \<noteq> 0) s t"
        "recv_flags (fst y) = recv_flags (fst x) \<or> recv_flags (fst y) = recv_flags (fst x) OR TF_CLOSED \<and> t = LAST_ACK"
        unfolding after_edge_def by blast
      have "got_fin (fst y) = got_fin (fst x)" using t(3) fin by blast
      then have "tcp_edge (got_fin (fst y)) (flags i AND TCP_ACK \<noteq> 0) s t" using t(2) fl by simp
      moreover have "recv_flags (fst y) \<in> {0, TF_GOT_FIN} \<or> t = LAST_ACK" using t(3) rf by auto
      ultimately show ?thesis using t(1) unfolding after_segment_def case_prod_beta fst_conv snd_conv by blast
    qed
    then show ?thesis
      by (intro process_received_at [OF s' s [unfolded connected_states_def], THEN res_all_weaken])
  qed
  have rec: "res_all (\<lambda>x. res_all (\<lambda>y. after_segment i I p q s (e, y)) (process_received (fst x) (snd x) p s))
      (tcp_receive (ipe (tenv env)) i x p)" if "at_state x I p s q" for e x
    by (rule received_at [OF that n, THEN res_all_weaken]) (use proc in blast)
  have n3: "s \<noteq> SYN_SENT" "s \<noteq> SYN_RCVD" "s \<noteq> CLOSED" "s \<noteq> LISTEN" "s \<noteq> TIME_WAIT"
    using s by (auto simp: connected_states_def)
  show ?thesis
    unfolding tcp_process_def res_all_simps
  proof (rule get)
    fix c
    assume c: "tcp_pcbs st p = Some c" "pcb_state c = s"
    note a' = at_state_put [OF c(1), THEN iffD2, OF _ _ _ a]
    show "res_all (after_segment i I p q s)
      (if flags i AND TCP_RST \<noteq> 0 then
         (if rst_acceptable i c then
            Inr (ERR_RST, i\<lparr>recv_flags := recv_flags i OR TF_RESET\<rparr>,
                 put_pcb st p (c\<lparr>pcb_flags := pcb_flags c AND NOT TF_ACK_DELAY\<rparr>))
          else Inr (ERR_OK, i, st))
       else if flags i AND TCP_SYN \<noteq> 0 \<and> pcb_state c \<noteq> SYN_SENT \<and> pcb_state c \<noteq> SYN_RCVD then
         rbind (tcp_ack_now st p) (\<lambda>st1. Inr (ERR_OK, i, st1))
       else
         rbind (tcp_parseopt i (put_pcb st p
                  (c\<lparr>tmr := (if pcb_flags c AND TF_RXCLOSED = 0 then tcp_ticks st else tmr c), keep_cnt_sent := 0\<rparr>)) p)
           (\<lambda>st1.
             if pcb_state c = SYN_SENT then
               rbind (process_syn_sent env i st1 p) (\<lambda>(err, st2). Inr (err, i, st2))
             else if pcb_state c = SYN_RCVD then process_syn_rcvd env i st1 p
             else if pcb_state c \<in> {CLOSED, LISTEN, TIME_WAIT} then Inr (ERR_OK, i, st1)
             else
               rbind (tcp_receive (ipe (tenv env)) i st1 p) (\<lambda>(i1, st2).
               rbind (process_received i1 st2 p (pcb_state c)) (\<lambda>(i2, st3). Inr (ERR_OK, i2, st3)))))"
      unfolding c(2)
      by (use n3 rec in \<open>auto simp: case_prod_beta intro!: stay rst ack_now_at [OF a] parseopt_at a a'\<close>)
  qed
qed

end
