(* ===== verification/TcpInInv.thy ===== *)
theory TcpInInv
  imports TcpFsm
begin

text \<open>
  That \<^verbatim>\<open>tcp_input\<close> keeps the axioms about the lists of control blocks: the handshake, delivery to
  the application, demultiplexing with its move to the front, listening, and \<^verbatim>\<open>TIME-WAIT\<close>.
\<close>

section \<open>Callbacks that keep the lists\<close>

definition conn :: "'a tcp_st_scheme \<Rightarrow> addr \<Rightarrow> bool" where
  "conn st p \<longleftrightarrow> (\<exists>s q. info st p = Some (False, s, q) \<and> list_for s = L_active)"

text \<open>
  What is assumed of the callbacks. Each may call the interface on any block and then keeps the
  invariant; a callback that returns anything but \<^verbatim>\<open>ERR_ABRT\<close> has not put its own block into the list of
  bound blocks, and an accept callback has left it a connection.
\<close>

definition in_env_keeps :: "('a tcp_st_scheme) tcp_in_env \<Rightarrow> bool" where
  "in_env_keeps env \<longleftrightarrow> env_keeps (tenv env) \<and>
     (\<forall>f arg p d e st r st'. call_recv (tenv env) f arg p d e st = Inr (r, st') \<longrightarrow> lists_inv st \<longrightarrow> lists_inv st') \<and>
     (\<forall>f arg p n st r st'. call_sent env f arg p n st = Inr (r, st') \<longrightarrow> lists_inv st \<longrightarrow>
        lists_inv st' \<and> (unbound st p \<longrightarrow> unbound st' p)) \<and>
     (\<forall>f arg p e st r st'. call_connected env f arg p e st = Inr (r, st') \<longrightarrow> lists_inv st \<longrightarrow>
        lists_inv st' \<and> (unbound st p \<longrightarrow> unbound st' p)) \<and>
     (\<forall>f arg p e st r st'. call_accept env f arg p e st = Inr (r, st') \<longrightarrow> lists_inv st \<longrightarrow>
        lists_inv st' \<and> (r \<noteq> ERR_ABRT \<longrightarrow> conn st p \<longrightarrow> conn st' p))"

lemma in_env_net: "in_env_keeps env \<Longrightarrow> net_keeps (ipe (tenv env))"
  by (simp add: in_env_keeps_def env_keeps_def)

lemma unbound_info: "unbound st p \<longleftrightarrow> (\<forall>k q. info st p = Some (k, CLOSED, q) \<longrightarrow> q = 0)"
  by (auto simp: unbound_def info_def)

lemma unbound_lview: "lview st' = lview st \<Longrightarrow> unbound st' p = unbound st p"
  by (simp add: unbound_info lview_def)

lemma conn_lview: "lview st' = lview st \<Longrightarrow> conn st' p = conn st p"
  by (simp add: conn_def lview_def)

lemma conn_unbound: "conn st p \<Longrightarrow> unbound st p"
  by (auto simp: conn_def unbound_info)

lemma conn_at: "lists_inv st \<Longrightarrow> conn st p \<longleftrightarrow> (\<exists>I s q. at_state st I p s q \<and> list_for s = L_active)"
  unfolding conn_def at_state_def by (metis fun_upd_same fun_upd_triv)

lemma at_conn: "at_state st I p s q \<Longrightarrow> list_for s = L_active \<Longrightarrow> conn st p"
  by (auto simp: conn_def at_state_def)

lemma at_inv: "at_state st I p s q \<Longrightarrow> lists_inv st"
  by (simp add: at_state_def)

lemma at_unbound: "at_state st I p s q \<Longrightarrow> s \<noteq> CLOSED \<Longrightarrow> unbound st p"
  by (simp add: unbound_info at_state_def)

lemma at_state_put_state:
  assumes "at_state st I p s q" "list_for s = L_active" "list_for s' = L_active"
    and "tcp_pcbs st p = Some c" "pcb_next c' = pcb_next c" "pcb_state c' = s'" "local_port c' = local_port c"
  shows "at_state (put_pcb st p c') I p s' q"
proof (rule at_state_change [OF assms(1-3)])
  let ?st = "put_pcb st p c'"
  have "info st p = Some (False, s, q)" using assms(1) by (simp add: at_state_def)
  then have q: "local_port c = q" using assms(4) by (simp add: info_eq)
  have "info ?st r = (if r = p then Some (False, s', q) else info st r)" "next_of ?st r = next_of st r" for r
    using assms(4-7) q by (auto simp: info_eq next_of_eq split: option.split)
  then show "info ?st = (info st)(p \<mapsto> (False, s', q))" "next_of ?st = next_of st" by (auto simp: fun_eq_iff)
  show "head_of ?st = head_of st" by (rule head_of_cong) simp_all
qed simp

section \<open>The handshake\<close>

lemma process_syn_sent_inv:
  fixes st :: "'a tcp_st_scheme"
  assumes a: "at_state st I p SYN_SENT q" and n: "in_env_keeps env"
  shows "res_all (\<lambda>x. lists_inv (snd x) \<and> unbound (snd x) p) (process_syn_sent env i st p)"
proof -
  have ok: "lists_inv x \<and> unbound x p" if "at_state x I p t q" "t \<noteq> CLOSED" for t and x :: "'a tcp_st_scheme"
    using that at_inv at_unbound by blast
  have lv: "lists_inv y \<and> unbound y p" if "lview y = lview x" "lists_inv x \<and> unbound x p" for x y :: "'a tcp_st_scheme"
    using that lists_inv_lview unbound_lview by blast
  have ev: "res_all (\<lambda>x. lists_inv (snd x) \<and> unbound (snd x) p) (TCP_EVENT_CONNECTED env x p e)"
    if "at_state x I p ESTABLISHED q" for e and x :: "'a tcp_st_scheme"
    using ok [OF that] n by (auto simp: TCP_EVENT_CONNECTED_def in_env_keeps_def intro!: get_pcb_wp res_allI)
  have ack: "res_all (\<lambda>y. lists_inv y \<and> unbound y p) (tcp_ack_now x p)" if "lists_inv x \<and> unbound x p" for x :: "'a tcp_st_scheme"
    by (rule ack_lview(2) [THEN res_all_weaken]) (rule lv [OF _ that])
  have up: "res_all (\<lambda>y. at_state y I p ESTABLISHED q) (upd_pcb x p f)"
    if "at_state x I p ESTABLISHED q"
      "\<And>c. pcb_next (f c) = pcb_next c \<and> pcb_state (f c) = pcb_state c \<and> local_port (f c) = local_port c" for f and x :: "'a tcp_st_scheme"
    by (rule lview_upd_pcb [OF that(2), THEN res_all_weaken]) (use at_state_lview that(1) in blast)
  have fr: "res_all (\<lambda>y. at_state y I p ESTABLISHED q) (tcp_seg_free x g)" if "at_state x I p ESTABLISHED q" for g and x :: "'a tcp_st_scheme"
    by (rule lower_wp(8) [THEN lview_of_more, THEN res_all_weaken]) (use at_state_lview that in blast)
  have rst: "res_all (\<lambda>y. lists_inv y \<and> unbound y p) (rst_reply (ipe (tenv env)) i st)"
    using in_env_net [OF n] lv [OF _ ok [OF a]] by (auto simp: rst_reply_def intro!: lwp)
  have est: "at_state (put_pcb st p ((established_by_syn i w m c)\<lparr>unacked := u\<rparr>)) I p ESTABLISHED q"
    if "tcp_pcbs st p = Some c" for w m c u
    by (rule at_state_put_state [OF a _ _ that]) (simp_all add: established_by_syn_def)
  show ?thesis
    unfolding process_syn_sent_def
    by (auto intro!: read_mwp get_pcb_wp fr [THEN res_all_weaken] up [THEN res_all_weaken] ev [THEN res_all_weaken]
        ack [THEN res_all_weaken] rst [THEN res_all_weaken] est split: list.split simp: ok [OF a, simplified])
qed


text \<open>What holds after the state machine has run and has not aborted.\<close>

definition processed :: "addr \<Rightarrow> err_t \<times> tcpin \<times> 'a tcp_st_scheme \<Rightarrow> bool" where
  "processed p x \<longleftrightarrow> (case x of (e, i', st') \<Rightarrow> lists_inv st' \<and>
     (e \<noteq> ERR_ABRT \<longrightarrow> unbound st' p \<and> (recv_flags i' \<notin> {0, TF_GOT_FIN} \<longrightarrow> conn st' p)))"

lemma processedI: "at_state st I p s q \<Longrightarrow> list_for s = L_active \<Longrightarrow> processed p (e, i, st)"
  using at_inv at_conn conn_unbound by (fastforce simp: processed_def)

lemma process_syn_rcvd_inv:
  fixes st :: "'a tcp_st_scheme"
  assumes a: "at_state st I p SYN_RCVD q" and n: "in_env_keeps env" and r: "recv_flags i = 0"
  shows "res_all (processed p) (process_syn_rcvd env i st p)"
proof -
  have net: "net_keeps (ipe (tenv env))" by (rule in_env_net [OF n])
  have ok: "processed p (e, i, x)" if "lview x = lview st" for e and x :: "'a tcp_st_scheme"
    by (rule processedI [of _ I _ SYN_RCVD q]) (use at_state_lview [OF that] a in simp_all)
  have est: "at_state (put_pcb st p (c\<lparr>pcb_state := ESTABLISHED\<rparr>)) I p ESTABLISHED q" if "tcp_pcbs st p = Some c" for c
    by (rule at_state_put_state [OF a _ _ that]) simp_all
  have acc: "res_all (\<lambda>x. lists_inv (snd x) \<and> (fst x \<noteq> ERR_ABRT \<longrightarrow> conn (snd x) p)) (TCP_EVENT_ACCEPT env x p e)"
    if "at_state x I p ESTABLISHED q" for e and x :: "'a tcp_st_scheme"
    using n at_inv [OF that] at_conn [OF that]
    by (auto simp: TCP_EVENT_ACCEPT_def tcp_accept_null_def in_env_keeps_def intro!: get_pcb_wp res_allI)
  have abr: "res_all (\<lambda>x. processed p (ERR_ABRT, i, x)) (tcp_abort (tenv env) x p)"
    if "lists_inv x" "conn x p" for x :: "'a tcp_st_scheme"
    unfolding tcp_abort_def
    by (rule tcp_abandon_inv [OF that(1) _ conn_unbound [OF that(2)], THEN res_all_weaken])
      (use n in \<open>auto simp: in_env_keeps_def processed_def\<close>)
  have fin: "res_all (\<lambda>x. processed p (e, j, x)) (set_state x p CLOSE_WAIT)"
    if "at_state x J p t u" "list_for t = L_active" for e j J t u and x :: "'a tcp_st_scheme"
    by (rule at_state_set [OF that, THEN res_all_weaken]) (auto intro: processedI)
  have up: "res_all (\<lambda>y. at_state y J p t u) (upd_pcb x p f)"
    if "at_state x J p t u" "\<And>c. pcb_next (f c) = pcb_next c \<and> pcb_state (f c) = pcb_state c \<and> local_port (f c) = local_port c"
    for f J t u and x :: "'a tcp_st_scheme"
    by (rule lview_upd_pcb [OF that(2), THEN res_all_weaken]) (use at_state_lview that(1) in blast)
  have rec: "res_all (\<lambda>x. \<exists>t. at_state (snd x) J p t u \<and> list_for t = L_active) (tcp_receive (ipe (tenv env)) i x p)"
    if "at_state x J p t0 u" "list_for t0 = L_active" for J t0 u and x :: "'a tcp_st_scheme"
    by (rule received_at [OF that(1) net, THEN res_all_weaken]) (use that(2) in auto)
  have tail: "res_all (\<lambda>x. res_all (\<lambda>y.
        (recv_flags (fst x) AND TF_GOT_FIN \<noteq> 0 \<longrightarrow>
           res_all (\<lambda>z. res_all (\<lambda>z. processed p (ERR_OK, fst x, z)) (set_state z p CLOSE_WAIT)) (tcp_ack_now y p)) \<and>
        (recv_flags (fst x) AND TF_GOT_FIN = 0 \<longrightarrow> processed p (ERR_OK, fst x, y)))
       (upd_pcb (snd x) p (\<lambda>c. c\<lparr>acked := (if acked c \<noteq> 0 then acked c - 1 else acked c),
          cwnd := (if w = 1 then mss c * 2 else mss c)\<rparr>)))
      (tcp_receive (ipe (tenv env)) i s p)"
    if s: "lists_inv s" "conn s p" for w and s :: "'a tcp_st_scheme"
  proof -
    from s obtain J t0 u where at: "at_state s J p t0 u" "list_for t0 = L_active" using conn_at by blast
    show ?thesis
      by (rule rec [OF at, THEN res_all_weaken])
        (auto intro!: up [THEN res_all_weaken] ack_now_at fin intro: processedI)
  qed
  have rst: "res_all (\<lambda>x. processed p (e, i, x)) (rst_reply (ipe (tenv env)) i st)" for e
    using net by (auto simp: rst_reply_def intro!: lwp ok)
  have rex: "res_all (\<lambda>x. processed p (e, i, x)) (tcp_rexmit st p)" for e by (auto intro!: lwp ok)
  have abt: "processed p (ERR_ABRT, i, x)" if "lists_inv x" for x :: "'a tcp_st_scheme"
    using that by (simp add: processed_def)
  show ?thesis
    unfolding process_syn_rcvd_def
    by (auto simp: case_prod_beta intro!: get_pcb_wp acc [OF est, THEN res_all_weaken] abr abt tail
        rst rex ok [OF refl])
qed


lemma tcp_process_inv:
  fixes st :: "'a tcp_st_scheme"
  assumes L: "lists_inv st" and c: "conn st p" and n: "in_env_keeps env" and r: "recv_flags i = 0"
  shows "res_all (processed p) (tcp_process env i st p)"
proof -
  from L c obtain I s q where a: "at_state st I p s q" "list_for s = L_active" using conn_at by blast
  show ?thesis
  proof (cases "s \<in> connected_states")
    case True
    have pr: "processed p x" if x: "after_segment i I p q s x" for x :: "err_t \<times> tcpin \<times> 'a tcp_st_scheme"
    proof -
      obtain e i' st' where xe: "x = (e, i', st')" by (cases x)
      with x obtain t where t: "at_state st' I p t q" "tcp_edge (got_fin i') (flags i AND TCP_ACK \<noteq> 0) s t"
        "recv_flags i' \<in> {0, TF_GOT_FIN} \<or> t = s \<and> recv_flags i' = TF_RESET \<or> t = LAST_ACK"
        by (auto simp: after_segment_def)
      have "t \<noteq> CLOSED" using t(2) a(2) by (cases) auto
      with t xe a(2) show ?thesis
        by (auto simp: processed_def intro: at_inv at_unbound at_conn)
    qed
    show ?thesis by (rule tcp_process_edge [OF a(1) True in_env_net [OF n] r, THEN res_all_weaken]) (rule pr)
  next
    case False
    with a(2) have s: "s = SYN_SENT \<or> s = SYN_RCVD" by (cases s) (auto simp: connected_states_def)
    have I: "info st p = Some (False, s, q)" using a(1) by (simp add: at_state_def)
    have ok: "processed p (e, i, x)" if "at_state x I p s q" for e and x :: "'a tcp_st_scheme"
      by (rule processedI [OF that a(2)])
    have rs: "processed p (e, i\<lparr>recv_flags := f\<rparr>, x)" if "at_state x I p s q" for e f and x :: "'a tcp_st_scheme"
      by (rule processedI [OF that a(2)])
    have ss: "res_all (\<lambda>y. processed p (fst y, i, snd y)) (process_syn_sent env i x p)"
      if "at_state x I p SYN_SENT q" "s = SYN_SENT" for x :: "'a tcp_st_scheme"
      by (rule process_syn_sent_inv [OF that(1) n, THEN res_all_weaken]) (use r in \<open>auto simp: processed_def\<close>)
    have sr: "res_all (processed p) (process_syn_rcvd env i x p)"
      if "at_state x I p SYN_RCVD q" for x :: "'a tcp_st_scheme"
      by (rule process_syn_rcvd_inv [OF that n r])
    have put: "at_state (put_pcb st p c') I p s q"
      if "tcp_pcbs st p = Some c" "pcb_next c' = pcb_next c" "pcb_state c' = pcb_state c" "local_port c' = local_port c" for c c'
      using at_state_put [OF that] a(1) by blast
    have "res_all (processed p) (tcp_process env i st p)" if c: "tcp_pcbs st p = Some c" for c
    proof -
      have sc: "pcb_state c = s" using I c by (simp add: info_eq)
      have "p \<noteq> 0" using a(1) by (rule at_stateE) (rule wf_nonzero [of _ "I(p \<mapsto> (False, s, q))" _ p], assumption, simp)
      then have g: "get_pcb st p = Inr c" using c by (simp add: get_pcb_iff)
      from s show ?thesis
      proof
        assume t: "s = SYN_SENT"
        note ok = ok [unfolded t] and rs = rs [unfolded t] and put = put [unfolded t]
        show ?thesis
          unfolding tcp_process_def g using sc [unfolded t]
          by (auto simp: case_prod_beta intro!: rs [simplified] ok put [OF c] parseopt_at a(1) [unfolded t] ss t)
      next
        assume t: "s = SYN_RCVD"
        note ok = ok [unfolded t] and rs = rs [unfolded t] and put = put [unfolded t]
        show ?thesis
          unfolding tcp_process_def g using sc [unfolded t]
          by (auto simp: case_prod_beta intro!: rs [simplified] ok put [OF c] parseopt_at a(1) [unfolded t] sr)
      qed
    qed
    moreover have "\<exists>c. tcp_pcbs st p = Some c" using I by (auto simp: info_eq split: option.splits)
    ultimately show ?thesis by blast
  qed
qed

section \<open>Delivery\<close>

lemma drop_conn_inv:
  fixes st :: "'a tcp_st_scheme"
  assumes L: "lists_inv st" and c: "conn st p" and n: "in_env_keeps env"
  shows "res_all lists_inv (drop_conn env st p b e)"
proof -
  have rm: "res_all (\<lambda>x. lists_inv (free_pcb x p)) (tcp_pcb_remove (ipe (tenv env)) y L_active p)"
    if y: "lview y = lview st" for y :: "'a tcp_st_scheme"
  proof -
    have L': "lists_inv y" "conn y p" using L c lists_inv_lview [OF y] conn_lview [OF y] by auto
    from L'(1) obtain S I D where v: "vrel y S I D" and w: "wf_lists S I D" by (rule inv_cases)
    from L'(2) v obtain s q where i: "I p = Some (False, s, q)" "list_for s = L_active" by (auto simp: conn_def vrel_def)
    have l: "\<forall>k. k \<noteq> L_active \<longrightarrow> p \<notin> S k" using wf_filed [OF w i(1)] i(2) by (simp add: filed_only)
    show ?thesis
      by (rule tcp_pcb_remove_vrel [OF v i(1) wf_nonzero [OF w i(1)] l in_env_net [OF n], THEN res_all_weaken])
        (rule removed_free_inv [OF w i(1) l])
  qed
  have ev: "res_all (\<lambda>y. lview y = lview st) (TCP_EVENT_ERR (tenv env) st f a x)" for f a x
    by (rule TCP_EVENT_ERR_lview [THEN res_all_weaken]) (use n in \<open>auto simp: in_env_keeps_def\<close>)
  show ?thesis
    unfolding drop_conn_def by (auto intro!: get_pcb_wp ev [THEN res_all_weaken] rm)
qed

lemma event_recv_inv:
  assumes "lists_inv st" "in_env_keeps env"
  shows "res_all (\<lambda>x. lists_inv (snd x)) (TCP_EVENT_RECV (tenv env) st p d e)"
    "res_all (\<lambda>x. lists_inv (snd x)) (TCP_EVENT_CLOSED (tenv env) st p)"
proof -
  note net = in_env_net [OF assms(2)]
  have nul: "res_all (\<lambda>x. lists_inv (snd x)) (tcp_recv_null (ipe (tenv env)) st p d e)" for d e
    unfolding tcp_recv_null_def using assms(1) net
    by (auto intro!: read_mwp tcp_close_inv tcp_recved_inv [THEN res_all_weaken] lower_iwp)
  have cb: "res_all (\<lambda>x. lists_inv (snd x)) (call_recv (tenv env) f a p d e st)" for f a d e
    using assms by (auto simp: in_env_keeps_def intro!: res_allI)
  show "res_all (\<lambda>x. lists_inv (snd x)) (TCP_EVENT_RECV (tenv env) st p d e)"
    unfolding TCP_EVENT_RECV_def by (auto intro!: get_pcb_wp nul cb)
  show "res_all (\<lambda>x. lists_inv (snd x)) (TCP_EVENT_CLOSED (tenv env) st p)"
    unfolding TCP_EVENT_CLOSED_def by (auto intro!: get_pcb_wp nul cb simp: assms)
qed

lemma deliver_inv:
  assumes "lists_inv st" "in_env_keeps env"
  shows "unbound st p \<Longrightarrow> res_all (\<lambda>x. lists_inv (snd x)) (deliver_data env i st p)"
    "res_all (\<lambda>x. lists_inv (snd x)) (deliver_fin env i st p)"
proof -
  have upd: "res_all lists_inv (upd_pcb x p f)"
    if "lists_inv x" "\<And>c. pcb_next (f c) = pcb_next c \<and> pcb_state (f c) = pcb_state c \<and> local_port (f c) = local_port c" for x f
    by (rule upd_pcb_iwp [OF that])
  have ab: "res_all lists_inv (tcp_abort (tenv env) x p)" if "lview x = lview st" "unbound st p" for x
    unfolding tcp_abort_def
    by (rule tcp_abandon_inv [THEN res_all_weaken])
      (use assms that lists_inv_lview [OF that(1)] unbound_lview [OF that(1)] in \<open>auto simp: in_env_keeps_def\<close>)
  show "res_all (\<lambda>x. lists_inv (snd x)) (deliver_data env i st p)" if "unbound st p"
    unfolding deliver_data_def
    using assms by (auto intro!: get_pcb_wp event_recv_inv [THEN res_all_weaken] upd [THEN res_all_weaken]
        lower_wp(1) [THEN lview_of_more, THEN res_all_weaken] ab [OF _ that, THEN res_all_weaken])
  show "res_all (\<lambda>x. lists_inv (snd x)) (deliver_fin env i st p)"
    unfolding deliver_fin_def
    using assms by (auto intro!: get_pcb_wp event_recv_inv [THEN res_all_weaken]
        lower_iwp)
qed

lemma input_deliver_inv:
  fixes st :: "'a tcp_st_scheme"
  assumes "processed p (e, i, st)" "e \<noteq> ERR_ABRT" and n: "in_env_keeps env"
  shows "res_all lists_inv (input_deliver env i st p)"
proof -
  from assms(1,2) have L: "lists_inv st" "unbound st p" and
    c: "recv_flags i \<notin> {0, TF_GOT_FIN} \<Longrightarrow> conn st p" by (auto simp: processed_def)
  have fl: "0 AND TF_RESET = 0" "0 AND TF_CLOSED = 0" "TF_GOT_FIN AND TF_RESET = 0" "TF_GOT_FIN AND TF_CLOSED = 0"
    by (simp_all add: TF_GOT_FIN_def TF_RESET_def TF_CLOSED_def)
  have dr: "res_all lists_inv (drop_conn env st p b x)"
    if "recv_flags i AND TF_RESET \<noteq> 0 \<or> recv_flags i AND TF_CLOSED \<noteq> 0" for b x
    by (rule drop_conn_inv [OF L(1) c n]) (use that fl in auto)
  have sent: "res_all (\<lambda>x. lists_inv (snd x) \<and> unbound (snd x) p) (TCP_EVENT_SENT env st p k)" for k
    using n L by (auto simp: TCP_EVENT_SENT_def in_env_keeps_def intro!: get_pcb_wp res_allI)
  have out: "res_all (\<lambda>x. lists_inv (snd x)) (tcp_output (ipe (tenv env)) (x\<lparr>tcp_input_pcb := 0\<rparr>) p)"
    if "lists_inv x" for x :: "'a tcp_st_scheme"
    by (rule tcp_output_inv) (use that in_env_net [OF n] in simp_all)
  show ?thesis
    unfolding input_deliver_def using L
    by (auto intro!: get_pcb_wp dr sent [THEN res_all_weaken] deliver_inv [OF _ n, THEN res_all_weaken] out [THEN res_all_weaken])
qed


section \<open>Demultiplexing\<close>

text \<open>The block a search finds: the first one of the list that matches, and the one before it.\<close>

definition found :: "(addr \<Rightarrow> bool) \<Rightarrow> addr list \<Rightarrow> addr \<Rightarrow> addr \<times> addr \<Rightarrow> bool" where
  "found match xs prev r \<longleftrightarrow>
     fst r = 0 \<and> (\<forall>x \<in> set xs. \<not> match x) \<or>
     (\<exists>ys zs. xs = ys @ fst r # zs \<and> fst r \<noteq> 0 \<and> snd r = (if ys = [] then prev else last ys) \<and> match (fst r)
        \<and> (\<forall>y \<in> set ys. \<not> match y))"

lemma found_here: "match x \<Longrightarrow> x \<noteq> 0 \<Longrightarrow> found match (x # xs) prev (x, prev)"
  unfolding found_def by (rule disjI2, rule exI [of _ "[]"]) simp

lemma found_later:
  assumes "found match xs x r" "\<not> match x"
  shows "found match (x # xs) prev r"
proof -
  from assms(1) consider "fst r = 0" "\<forall>x \<in> set xs. \<not> match x"
    | ys zs where "xs = ys @ fst r # zs" "fst r \<noteq> 0" "snd r = (if ys = [] then x else last ys)" "match (fst r)"
      "\<forall>y \<in> set ys. \<not> match y"
    by (auto simp: found_def)
  then show ?thesis
  proof cases
    case 1
    then show ?thesis using assms(2) by (simp add: found_def)
  next
    case 2
    then have "\<exists>ys zs. x # xs = ys @ fst r # zs \<and> fst r \<noteq> 0 \<and> snd r = (if ys = [] then prev else last ys)
        \<and> match (fst r) \<and> (\<forall>y \<in> set ys. \<not> match y)"
      using assms(2) by (intro exI [of _ "x # ys"] exI [of _ zs]) auto
    then show ?thesis by (simp add: found_def)
  qed
qed

definition conn_match :: "'a tcp_st_scheme \<Rightarrow> u32 \<Rightarrow> u16 \<Rightarrow> u32 \<Rightarrow> u16 \<Rightarrow> addr \<Rightarrow> bool" where
  "conn_match st src sport dest dport x \<longleftrightarrow> (\<exists>c. tcp_pcbs st x = Some c \<and> four_tuple src sport dest dport c)"

lemma find_conn_spec:
  assumes "linked (next_of st) p xs" "\<forall>x \<in> set xs. tcp_pcbs st x \<noteq> None" "length xs \<le> fuel"
  shows "\<exists>r. find_conn fuel st src sport dest dport prev p = Inr r \<and> found (conn_match st src sport dest dport) xs prev r"
  using assms
proof (induction xs arbitrary: fuel prev p)
  case Nil
  then show ?case by (cases fuel) (auto simp: found_def)
next
  case (Cons x xs)
  from Cons.prems(3) obtain k where k: "fuel = Suc k" "length xs \<le> k" by (cases fuel) auto
  from Cons.prems(2) obtain c where c: "tcp_pcbs st x = Some c" by auto
  have x: "p = x" "x \<noteq> 0" "linked (next_of st) (pcb_next c) xs"
    using Cons.prems(1) next_of_eq [of st x] c by auto
  have g: "get_pcb st x = Inr c" using c x(2) by (simp add: get_pcb_iff)
  show ?case
  proof (cases "four_tuple src sport dest dport c")
    case True
    then show ?thesis using k x g c by (auto simp: conn_match_def intro!: found_here)
  next
    case False
    then have n: "\<not> conn_match st src sport dest dport x" using c by (simp add: conn_match_def)
    from Cons.IH [OF x(3) _ k(2), of x] Cons.prems(2) obtain r where
      r: "find_conn k st src sport dest dport x (pcb_next c) = Inr r" "found (conn_match st src sport dest dport) xs x r" by auto
    have "found (conn_match st src sport dest dport) (x # xs) prev r" by (rule found_later [OF r(2) n])
    then show ?thesis using k x g False r(1) by auto
  qed
qed

definition listen_match :: "'a tcp_st_scheme \<Rightarrow> u32 \<Rightarrow> u16 \<Rightarrow> addr \<Rightarrow> bool" where
  "listen_match st dest dport x \<longleftrightarrow> (\<exists>l. common st x = Some l \<and> local_port l = dport \<and>
     (local_ip l = dest \<or> ip_addr_isany (local_ip l)))"

lemma find_listen_spec:
  assumes "linked (next_of st) p xs" "\<forall>x \<in> set xs. common st x \<noteq> None" "length xs \<le> fuel"
  shows "\<exists>r. find_listen fuel st dest dport prev p = Inr r \<and> found (listen_match st dest dport) xs prev r"
  using assms
proof (induction xs arbitrary: fuel prev p)
  case Nil
  then show ?case by (cases fuel) (auto simp: found_def)
next
  case (Cons x xs)
  from Cons.prems(3) obtain k where k: "fuel = Suc k" "length xs \<le> k" by (cases fuel) auto
  from Cons.prems(2) obtain c where c: "common st x = Some c" by auto
  have x: "p = x" "x \<noteq> 0" "linked (next_of st) (pcb_next c) xs" using Cons.prems(1) c by (auto simp: next_of_common)
  have g: "get_common st x = Inr c" using c x(2) by (simp add: get_common_iff)
  show ?case
  proof (cases "listen_match st dest dport x")
    case True
    then show ?thesis using k x g c by (auto simp: listen_match_def intro!: found_here)
  next
    case False
    from Cons.IH [OF x(3) _ k(2), of x] Cons.prems(2) obtain r where
      r: "find_listen k st dest dport x (pcb_next c) = Inr r" "found (listen_match st dest dport) xs x r" by auto
    have f: "found (listen_match st dest dport) (x # xs) prev r" by (rule found_later [OF r(2) False])
    have "\<not> (local_port c = dport \<and> (local_ip c = dest \<or> ip_addr_isany (local_ip c)))"
      using False c by (simp add: listen_match_def)
    then have "find_listen fuel st dest dport prev p = Inr r" using k x(1,2) g r(1) by auto
    with f show ?thesis by blast
  qed
qed

lemma move_to_front_eq:
  "move_to_front st l prev p =
     (if prev = 0 then Inr st else rbind (unlink_after st l prev p) (\<lambda>(_, st1). TCP_REG st1 l p))"
  by (simp add: move_to_front_def unlink_after_def TCP_REG_def rbind_assoc)

lemma move_to_front_spec:
  assumes "lists_repr st F" "F l = ys @ p # zs" "prev = (if ys = [] then 0 else last ys)"
  shows "\<exists>st'. move_to_front st l prev p = Inr st' \<and> lists_repr st' (F(l := p # ys @ zs)) \<and> info st' = info st"
proof (cases "ys = []")
  case True
  then have "F(l := p # ys @ zs) = F" using assms(2) by auto
  then show ?thesis using assms True by (simp add: move_to_front_eq)
next
  case False
  have z: "0 \<notin> set (F l)" by (rule lists_repr_nonzero [OF assms(1)])
  have prev: "prev \<noteq> 0"
  proof
    assume "prev = 0"
    then have "0 \<in> set ys" using assms(3) False last_in_set [OF False] by simp
    then show False using z assms(2) by simp
  qed
  have p0: "p \<noteq> 0" using z assms(2) by auto
  from unlink_after_spec [OF assms] obtain n s where
    s: "unlink_after st l prev p = Inr (n, s)" "lists_repr s (F(l := ys @ zs))" "info s = info st" by blast
  have d: "distinct (ys @ p # zs)" using lists_reprD(2) [OF assms(1), of l] assms(2) by simp
  have pin: "p \<in> set (F l)" using assms(2) by simp
  have "p \<notin> set ((F(l := ys @ zs)) k)" for k
    using d lists_reprD(4) [OF assms(1), of k l] pin by (cases "k = l") auto
  moreover have "common st p \<noteq> None" by (rule lists_reprD(3) [OF assms(1) pin])
  then have "common s p \<noteq> None" using s(3) by (metis info_None)
  ultimately obtain st' where "TCP_REG s l p = Inr st'" "lists_repr st' ((F(l := ys @ zs))(l := p # (F(l := ys @ zs)) l))"
    "info st' = info s" using TCP_REG_spec [OF s(2) _ p0, of l] by blast
  then show ?thesis using s prev by (simp add: move_to_front_eq)
qed


section \<open>Before the connection is known\<close>

lemma pbuf_header_pools: "pbuf_header st p k = Inr (e, st') \<Longrightarrow> pools st' = pools st"
  by (auto simp: pbuf_header_def put_pbuf_def rbind_eq_Inr Let_def split: if_splits)

definition checked :: "'a tcp_st_scheme \<Rightarrow> tcpin option \<times> 'a tcp_st_scheme \<Rightarrow> bool" where
  "checked st x \<longleftrightarrow> ip_st.more (snd x) = ip_st.more st \<and> pools (snd x) = pools st \<and>
     (\<forall>i. fst x = Some i \<longrightarrow> recv_flags i = 0)"

lemma input_checks_frame: "res_all (checked st) (input_checks st p inp src dest)"
proof -
  have h: "res_all (\<lambda>x. ip_st.more (snd x) = ip_st.more s \<and> pools (snd x) = pools s) (pbuf_header s q k)" for s :: "'a tcp_st_scheme" and q k
    by (rule res_allI) (auto dest: pbuf_header_pools pbuf_keeps_ip(3))
  show ?thesis
    unfolding input_checks_def Let_def
    by (auto simp: case_prod_beta checked_def intro!: mwp h [THEN res_all_weaken]
        res_all_any [where r = "inet_chksum_pseudo s p a b c d" for s p a b c d]
        res_all_any [where r = "header_to_host m h" for m h])
qed

lemma fresh_cong: "lview st' = lview st \<Longrightarrow> pools st' = pools st \<Longrightarrow> fresh st' k = fresh st k"
  unfolding fresh_def by (simp add: lview_def) (metis info_None)

definition no_refused :: "'a tcp_st_scheme \<Rightarrow> bool" where
  "no_refused st \<longleftrightarrow> (\<forall>p c. tcp_pcbs st p = Some c \<longrightarrow> refused_data c = 0)"

lemma no_refused_unchained:
  fixes st st' :: "'a tcp_st_scheme"
  assumes "unchained st' = unchained st"
  shows "no_refused st' = no_refused st"
proof -
  have "no_refused s \<longleftrightarrow> (\<forall>p c. fst (unchained s) p = Some c \<longrightarrow> refused_data c = 0)" for s :: "'a tcp_st_scheme"
    by (fastforce simp: no_refused_def unchained_def)
  from this [of st] this [of st'] show ?thesis using assms by simp
qed

lemma find_conn_found:
  "linked (next_of st) p xs \<Longrightarrow> res_all (found (conn_match st src sport dest dport) xs prev) (find_conn fuel st src sport dest dport prev p)"
proof (induction fuel arbitrary: p xs prev)
  case 0
  then show ?case by (cases xs) (auto simp: found_def)
next
  case (Suc fuel)
  show ?case
  proof (cases xs)
    case Nil
    with Suc.prems show ?thesis by (simp add: found_def)
  next
    case (Cons x ys)
    with Suc.prems have x: "p = x" "x \<noteq> 0" by auto
    have "res_all (found (conn_match st src sport dest dport) (x # ys) prev) (find_conn fuel st src sport dest dport x (pcb_next c))"
      if c: "tcp_pcbs st x = Some c" "\<not> four_tuple src sport dest dport c" for c
    proof (rule res_all_weaken [OF Suc.IH])
      show "linked (next_of st) (pcb_next c) ys" using Suc.prems Cons x next_of_eq [of st x] c(1) by auto
      show "found (conn_match st src sport dest dport) (x # ys) prev r"
        if "found (conn_match st src sport dest dport) ys x r" for r
        by (rule found_later [OF that]) (use c in \<open>simp add: conn_match_def\<close>)
    qed
    moreover have "found (conn_match st src sport dest dport) (x # ys) prev (x, prev)"
      if "tcp_pcbs st x = Some c" "four_tuple src sport dest dport c" for c
      by (rule found_here) (use that x in \<open>simp_all add: conn_match_def\<close>)
    ultimately show ?thesis using Cons x by (auto intro!: get_pcb_wp)
  qed
qed

lemma find_listen_found:
  "linked (next_of st) p xs \<Longrightarrow> res_all (found (listen_match st dest dport) xs prev) (find_listen fuel st dest dport prev p)"
proof (induction fuel arbitrary: p xs prev)
  case 0
  then show ?case by (cases xs) (auto simp: found_def)
next
  case (Suc fuel)
  show ?case
  proof (cases xs)
    case Nil
    with Suc.prems show ?thesis by (simp add: found_def)
  next
    case (Cons x ys)
    with Suc.prems have x: "p = x" "x \<noteq> 0" by auto
    have "res_all (found (listen_match st dest dport) (x # ys) prev) (find_listen fuel st dest dport x (pcb_next l))"
      if l: "common st x = Some l" "\<not> (local_port l = dport \<and> (local_ip l = dest \<or> ip_addr_isany (local_ip l)))" for l
    proof (rule res_all_weaken [OF Suc.IH])
      show "linked (next_of st) (pcb_next l) ys" using Suc.prems Cons x l(1) by (simp add: next_of_common)
      show "found (listen_match st dest dport) (x # ys) prev r"
        if "found (listen_match st dest dport) ys x r" for r
        by (rule found_later [OF that]) (use l in \<open>simp add: listen_match_def\<close>)
    qed
    moreover have "found (listen_match st dest dport) (x # ys) prev (x, prev)"
      if "common st x = Some l" "local_port l = dport \<and> (local_ip l = dest \<or> ip_addr_isany (local_ip l))" for l
      by (rule found_here) (use that x in \<open>auto simp: listen_match_def\<close>)
    ultimately show ?thesis using Cons x by (auto intro!: get_iwp)
  qed
qed

text \<open>Moving a block to the front of its list.\<close>

definition moved :: "'a tcp_st_scheme \<Rightarrow> 'a tcp_st_scheme \<Rightarrow> bool" where
  "moved st st' \<longleftrightarrow> lists_inv st' \<and> info st' = info st \<and> pools st' = pools st \<and> unchained st' = unchained st"

lemma set_next_pools: "set_next st p n = Inr st' \<Longrightarrow> pools st' = pools st"
  by (auto simp: set_next_def upd_common_def split: if_splits option.splits)

lemma set_head_pools [simp]: "pools (set_head st l p) = pools st"
  by (cases l) simp_all

lemma move_to_front_frame:
  "move_to_front st l prev p = Inr st' \<Longrightarrow>
   dom (tcp_lpcbs st') = dom (tcp_lpcbs st) \<and> pools st' = pools st \<and> unchained st' = unchained st"
  unfolding move_to_front_def
  by (clarsimp simp: rbind_eq_Inr split: if_splits) (metis set_next_lpcbs set_next_pools set_next_unchained)

lemma move_to_front_moved:
  fixes st :: "'a tcp_st_scheme"
  assumes L: "lists_inv st" and f: "found match xs 0 (p, prev)" "p \<noteq> 0"
    and l: "linked (next_of st) (head_of st l) xs"
  shows "res_all (moved st) (move_to_front st l prev p)"
proof (rule res_allI)
  fix st'
  assume m: "move_to_front st l prev p = Inr st'"
  from L obtain S I D where v: "vrel st S I D" and w: "wf_lists S I D" by (rule inv_cases)
  from v obtain F where F: "lists_repr st F" "S = (\<lambda>l. set (F l))" "info st = I" "dom (tcp_lpcbs st) = D"
    by (auto simp: vrel_def)
  have xs: "F l = xs" by (rule linked_unique [OF lists_reprD(1) [OF F(1)] l])
  from f obtain ys zs where ys: "xs = ys @ p # zs" "prev = (if ys = [] then 0 else last ys)"
    by (auto simp: found_def)
  from move_to_front_spec [OF F(1), of l ys p zs prev] xs ys m
  have G: "lists_repr st' (F(l := p # ys @ zs))" "info st' = info st" by auto
  have "(\<lambda>k. set ((F(l := p # ys @ zs)) k)) = S" using F(2) xs ys(1) by (intro ext) auto
  then have "vrel st' S I D" using G F(3,4) move_to_front_frame [OF m] unfolding vrel_def by metis
  then show "moved st st'" using lists_invI [OF _ w] G(2) move_to_front_frame [OF m] by (simp add: moved_def)
qed

lemma moved_fresh: "moved st st' \<Longrightarrow> fresh st k \<Longrightarrow> fresh st' k"
  unfolding moved_def fresh_def by (metis info_None)

lemma moved_no_refused: "moved st st' \<Longrightarrow> no_refused st \<Longrightarrow> no_refused st'"
  using no_refused_unchained unfolding moved_def by blast

lemma moved_conn: "moved st st' \<Longrightarrow> conn st p \<Longrightarrow> conn st' p"
  by (simp add: moved_def conn_def)

lemma list_of_head:
  assumes "lists_inv st"
  shows "\<exists>xs. linked (next_of st) (head_of st l) xs \<and> (l = L_active \<longrightarrow> (\<forall>x \<in> set xs. conn st x))"
proof -
  from assms obtain S I D where v: "vrel st S I D" and w: "wf_lists S I D" by (rule inv_cases)
  from v obtain F where F: "lists_repr st F" "S = (\<lambda>l. set (F l))" "info st = I" by (auto simp: vrel_def)
  have "conn st x" if x: "x \<in> set (F L_active)" for x
  proof -
    have "I x \<noteq> None" using w x F(2) by (simp add: wf_lists_def)
    then obtain k s q where i: "I x = Some (k, s, q)" by auto
    with wf_filed [OF w i] x F(2) have "L_active = list_for s" "k = (s = LISTEN)" by (auto simp: filed_def)
    then show ?thesis using i F(3) by (cases s) (auto simp: conn_def)
  qed
  then show ?thesis using lists_reprD(1) [OF F(1), of l] by (cases "l = L_active") auto
qed

section \<open>Input\<close>

lemma input_conn_inv:
  fixes st :: "'a tcp_st_scheme"
  assumes L: "lists_inv st" and c: "conn st p" and n: "in_env_keeps env" and r: "recv_flags i = 0"
    and d: "no_refused st"
  shows "res_all (\<lambda>x. lists_inv (snd x)) (input_conn env i st p)"
proof -
  have proc: "res_all (\<lambda>x. lists_inv (snd (snd x)) \<and> (fst x \<noteq> ERR_ABRT \<longrightarrow>
        res_all lists_inv (input_deliver env (fst (snd x)) (snd (snd x)) p)))
      (tcp_process env i (x\<lparr>tcp_input_pcb := p\<rparr>) p)" if x: "lview x = lview st" for x :: "'a tcp_st_scheme"
  proof -
    have "lists_inv (x\<lparr>tcp_input_pcb := p\<rparr>)" using L lists_inv_lview [OF x] by simp
    moreover have "conn (x\<lparr>tcp_input_pcb := p\<rparr>) p" using c conn_lview [of "x\<lparr>tcp_input_pcb := p\<rparr>" st] x by simp
    ultimately show ?thesis
      by (rule tcp_process_inv [OF _ _ n r, THEN res_all_weaken])
        (auto simp: processed_def intro: input_deliver_inv [OF _ _ n, unfolded processed_def])
  qed
  have up: "res_all (\<lambda>x. lview x = lview st \<and> no_refused x) (upd_pbuf st q f)" for q f
  proof (rule res_allI)
    fix x assume "upd_pbuf st q f = Inr x"
    then have m: "ip_st.more x = ip_st.more st" by (rule pbuf_keeps_ip(6))
    then have "tcp_pcbs x = tcp_pcbs st" by (rule tcp_fields_cong(1))
    then have "no_refused x" using d by (simp add: no_refused_def)
    with lview_more [OF m] show "lview x = lview st \<and> no_refused x" ..
  qed
  have c0: "refused_data c = 0" if "tcp_pcbs x p = Some c" "no_refused x" for x :: "'a tcp_st_scheme" and c
    using that by (simp add: no_refused_def)
  have main: "res_all (\<lambda>x. lists_inv (snd x))
      (rbind (get_pcb x p) (\<lambda>c.
       rbind (if refused_data c \<noteq> 0 then
              rbind (tcp_process_refused_data (tenv env) x p) (\<lambda>(err, st2).
                if err = ERR_ABRT then Inr (True, st2)
                else rbind (get_pcb st2 p) (\<lambda>c2. Inr (refused_data c2 \<noteq> 0 \<and> 0 < tcplen i, st2)))
            else Inr (False, x)) (\<lambda>(ignore, st2).
       if ignore then Inr (i, st2)
       else
         rbind (tcp_process env i (st2\<lparr>tcp_input_pcb := p\<rparr>) p) (\<lambda>(err, i1, st3).
           if err = ERR_ABRT then Inr (i1, st3)
           else rbind (input_deliver env i1 st3 p) (\<lambda>st4. Inr (i1, st4))))))"
    if x: "lview x = lview st" "no_refused x" for x :: "'a tcp_st_scheme"
    unfolding res_all_simps
    by (rule get_pcb_wp) (auto simp: case_prod_beta c0 [OF _ x(2)] intro!: proc [OF x(1), THEN res_all_weaken])
  show ?thesis
    unfolding input_conn_def
  proof (rule res_all_simps(3) [THEN iffD2], rule res_all_weaken)
    let ?r = "if flags i AND TCP_PSH \<noteq> 0
      then upd_pbuf st (seg_p (inseg i)) (\<lambda>b. b\<lparr>pb_flags := pb_flags b OR PBUF_FLAG_PUSH\<rparr>) else Inr st"
    show "res_all (\<lambda>x. lview x = lview st \<and> no_refused x) ?r" using up d by simp
  qed (rule main, blast+)
qed

text \<open>A segment for a listening block: a new block is allocated and registered.\<close>

definition closed_block :: "'a tcp_st_scheme \<Rightarrow> addr \<Rightarrow> bool" where
  "closed_block st p \<longleftrightarrow> lists_inv st \<and> info st p = Some (False, CLOSED, 0)"

lemma tcp_alloc_closed:
  fixes st :: "'a tcp_st_scheme"
  assumes "lists_inv st" "env_keeps env" "fresh st MEMP_TCP_PCB"
  shows "res_all (\<lambda>x. lists_inv (snd x) \<and> (fst x \<noteq> 0 \<longrightarrow> closed_block (snd x) (fst x))) (tcp_alloc env st pr)"
proof -
  have c: "common (s\<lparr>tcp_iss := v\<rparr>) = common s" for s :: "'a tcp_st_scheme" and v by (rule common_cong) simp_all
  have b: "lists_inv s \<Longrightarrow> common s p = None \<Longrightarrow> p \<noteq> 0 \<Longrightarrow> pcb_state k = CLOSED \<Longrightarrow> local_port k = 0 \<Longrightarrow>
    lists_inv (put_pcb s p k) \<and> closed_block (put_pcb s p k) p" for s :: "'a tcp_st_scheme" and p k
    using new_pcb_inv [of s p k] by (simp add: closed_block_def info_eq)
  show ?thesis
    unfolding tcp_alloc_def res_all_simps
    by (rule alloc_block_inv [OF assms, THEN res_all_weaken])
      (auto simp: tcp_next_iss_def Let_def tcp_pcb_init_def c b)
qed

lemma listen_reg_at:
  fixes st :: "'a tcp_st_scheme"
  assumes "closed_block st p" "tcp_pcbs st p = Some c" "pcb_next c' = pcb_next c" "pcb_state c' = SYN_RCVD"
  shows "res_all (\<lambda>x. at_state x ((info st)(p := None)) p SYN_RCVD (local_port c')) (TCP_REG_ACTIVE (put_pcb st p c') p)"
proof -
  let ?q = "local_port c'" and ?st = "put_pcb st p c'"
  from assms(1) have L: "lists_inv st" and i: "info st p = Some (False, CLOSED, 0)" by (simp_all add: closed_block_def)
  from L obtain S I D where v: "vrel st S I D" and w: "wf_lists S I D" by (rule inv_cases)
  have I: "I p = Some (False, CLOSED, 0)" "I = info st" using v i by (simp_all add: vrel_def)
  have f: "\<forall>l. p \<notin> S l" using wf_filed [OF w I(1)] by (auto simp: filed_def)
  note p0 = wf_nonzero [OF w I(1)] and pD = wf_conn_D [OF w I(1)]
  have "info ?st r = (if r = p then Some (False, SYN_RCVD, ?q) else info st r)" "next_of ?st r = next_of st r" for r
    using assms(2-4) by (auto simp: info_eq next_of_eq split: option.split)
  then have v1: "vrel ?st S (I(p \<mapsto> (False, SYN_RCVD, ?q))) D"
    by (intro vrel_change [OF v]) (use I in \<open>auto simp: fun_eq_iff intro!: head_of_cong [THEN fun_cong]\<close>)
  have "wf_lists (S(L_active := insert p (S L_active))) (I(p \<mapsto> (False, SYN_RCVD, ?q))) D"
    by (rule wf_step [OF w]) (use f p0 pD in \<open>auto simp: filed_def\<close>)
  then show ?thesis
    by (intro TCP_REG_ACTIVE_vrel [OF v1, THEN res_all_weaken]) (use p0 f I(2) in \<open>auto intro: at_stateI\<close>)
qed

lemma listen_syn_inv:
  fixes st :: "'a tcp_st_scheme"
  assumes c: "closed_block st p" and n: "in_env_keeps env"
  shows "res_all (\<lambda>x. lists_inv (snd x)) (listen_syn env i st lp p)"
proof -
  let ?I = "(info st)(p := None)"
  have upd: "res_all (\<lambda>x. res_all (\<lambda>y. \<exists>q. at_state y ?I p SYN_RCVD q) (TCP_REG_ACTIVE x p)) (upd_pcb st p (listen_init i l sp w))"
    for l sp w
    by (rule res_allI)
      (auto simp: upd_pcb_def rbind_eq_Inr get_pcb_iff listen_init_def intro!: listen_reg_at [OF c, THEN res_all_weaken])
  have opt: "res_all (\<lambda>y. at_state y ?I p SYN_RCVD q) (tcp_parseopt i x p)" if "at_state x ?I p SYN_RCVD q" for q and x :: "'a tcp_st_scheme"
    by (rule parseopt_at [OF that])
  have enq: "res_all (\<lambda>y. at_state (snd y) ?I p SYN_RCVD q) (tcp_enqueue_flags x p f)" if "at_state x ?I p SYN_RCVD q" for q f and x :: "'a tcp_st_scheme"
    by (rule tcp_enqueue_flags_frame [THEN lview_of_pframe, THEN res_all_weaken]) (use that at_state_lview in blast)
  have ab: "res_all lists_inv (tcp_abandon (tenv env) x p b)" if "at_state x ?I p SYN_RCVD q" for q b and x :: "'a tcp_st_scheme"
    by (rule tcp_abandon_inv [OF at_inv [OF that] _ at_unbound [OF that], THEN res_all_weaken])
      (use n in \<open>auto simp: in_env_keeps_def\<close>)
  have out: "res_all (\<lambda>y. lists_inv (snd y)) (tcp_output (ipe (tenv env)) x p)" if "at_state x ?I p SYN_RCVD q" for q and x :: "'a tcp_st_scheme"
    by (rule tcp_output_inv [OF at_inv [OF that] in_env_net [OF n]])
  have tail: "res_all (\<lambda>y. res_all (\<lambda>c. res_all (\<lambda>m. res_all (\<lambda>x. lists_inv (snd x))
      (rbind (tcp_enqueue_flags (put_pcb y p (c\<lparr>mss := m\<rparr>)) p f) (\<lambda>(rc, z).
         if rc \<noteq> ERR_OK then rbind (tcp_abandon (tenv env) z p False) (\<lambda>z'. Inr (rc, z'))
         else tcp_output (ipe (tenv env)) z p))) (tcp_eff_send_mss y (mss c) (remote_ip c))) (get_pcb y p))
      (tcp_parseopt i x p)" if "at_state x ?I p SYN_RCVD q" for q f and x :: "'a tcp_st_scheme"
    by (rule opt [OF that, THEN res_all_weaken])
      (auto simp: case_prod_beta intro!: get_pcb_wp mwp enq [THEN res_all_weaken] ab out)
  show ?thesis
    unfolding listen_syn_def res_all_simps(3)
    by (rule res_all_any, rule res_all_any, rule res_all_any, rule upd [THEN res_all_weaken], erule res_all_weaken,
        elim exE, rule tail [unfolded res_all_simps(3)])
qed

lemma tcp_listen_input_inv:
  fixes st :: "'a tcp_st_scheme"
  assumes "lists_inv st" "in_env_keeps env" "fresh st MEMP_TCP_PCB"
  shows "res_all (\<lambda>x. lists_inv (snd x)) (tcp_listen_input env i st lp)"
proof -
  have e: "env_keeps (tenv env)" using assms(2) by (simp add: in_env_keeps_def)
  have rst: "res_all lists_inv (rst_reply (ipe (tenv env)) i st)"
    using in_env_net [OF assms(2)] assms(1) by (auto simp: rst_reply_def intro!: mwp net_iwp)
  have al: "res_all (\<lambda>x. lists_inv (snd x) \<and> (fst x \<noteq> 0 \<longrightarrow> res_all (\<lambda>y. lists_inv (snd y)) (listen_syn env i (snd x) lp (fst x))))
      (tcp_alloc (tenv env) st pr)" for pr
    by (rule tcp_alloc_closed [OF assms(1) e assms(3), THEN res_all_weaken]) (use listen_syn_inv [OF _ assms(2)] in blast)
  show ?thesis
    unfolding tcp_listen_input_def
    by (auto simp: case_prod_beta assms(1) intro!: get_iwp rst al [THEN res_all_weaken])
qed

lemma tcp_timewait_input_inv:
  fixes st :: "'a tcp_st_scheme"
  assumes "lists_inv st" "net_keeps env"
  shows "res_all (\<lambda>x. lists_inv (snd x)) (tcp_timewait_input env i st p)"
proof -
  have rst: "res_all lists_inv (rst_reply env i st)"
    using assms by (auto simp: rst_reply_def intro!: mwp net_iwp)
  have out: "res_all (\<lambda>x. lists_inv (snd x)) (tcp_output env x p)" if "lists_inv x" for x :: "'a tcp_st_scheme"
    by (rule tcp_output_inv [OF that assms(2)])
  show ?thesis
    unfolding tcp_timewait_input_def Let_def
    by (auto simp: assms(1) intro!: get_pcb_wp rst out)
qed

text \<open>The parts of \<^verbatim>\<open>tcp_input\<close>, in a state that is ready for a segment.\<close>

definition ready :: "'a tcp_st_scheme \<Rightarrow> bool" where
  "ready st \<longleftrightarrow> lists_inv st \<and> fresh st MEMP_TCP_PCB \<and> no_refused st"

lemma free_only_inv: "lists_inv st \<Longrightarrow> res_all lists_inv (free_only st p)"
  by (auto simp: free_only_def intro!: lower_iwp)

lemma rst_reply_inv: "lists_inv st \<Longrightarrow> net_keeps env \<Longrightarrow> res_all lists_inv (rst_reply env i st)"
  by (auto simp: rst_reply_def intro!: mwp net_iwp)

lemma ready_more:
  assumes "ready st" "ip_st.more st' = ip_st.more st" "pools st' = pools st"
  shows "ready st'"
  using assms(1) lists_inv_lview [OF lview_more [OF assms(2)]] fresh_cong [OF lview_more [OF assms(2)] assms(3)]
    tcp_fields_cong(1) [OF assms(2)] by (simp add: ready_def no_refused_def)

lemma input_listen_inv:
  fixes st :: "'a tcp_st_scheme"
  assumes r: "ready st" and n: "in_env_keeps env"
  shows "res_all lists_inv (input_listen env i st p dest dport)"
proof -
  from r have L: "lists_inv st" "fresh st MEMP_TCP_PCB" by (simp_all add: ready_def)
  from list_of_head [OF L(1), of L_listen] obtain xs where xs: "linked (next_of st) (head_of st L_listen) xs" by auto
  have li: "res_all (\<lambda>y. res_all (\<lambda>z. lists_inv (snd z)) (tcp_listen_input env i y q)) (move_to_front st L_listen prev q)"
    if "found m xs 0 (q, prev)" "q \<noteq> 0" for m q prev
    by (rule move_to_front_moved [OF L(1) that xs, THEN res_all_weaken])
      (auto intro!: tcp_listen_input_inv n moved_fresh [OF _ L(2)] simp: moved_def)
  show ?thesis
    unfolding input_listen_def res_all_simps
    by (rule find_listen_found [of st _ xs, THEN res_all_weaken])
      (use xs in \<open>auto simp: case_prod_beta L(1) dest!: li elim!: res_all_weaken
         intro!: free_only_inv rst_reply_inv [OF L(1) in_env_net [OF n], THEN res_all_weaken]\<close>)
qed

lemma input_timewait_inv:
  fixes st :: "'a tcp_st_scheme"
  assumes "ready st" "in_env_keeps env"
  shows "res_all lists_inv (input_timewait env i st p src sport dest dport)"
proof -
  have "lists_inv st" using assms(1) by (simp add: ready_def)
  note tw = tcp_timewait_input_inv [OF this in_env_net [OF assms(2)], THEN res_all_weaken]
  show ?thesis
    unfolding input_timewait_def res_all_simps
    by (rule res_all_any) (auto simp: case_prod_beta assms intro!: input_listen_inv free_only_inv tw)
qed

lemma input_demux_inv:
  fixes st :: "'a tcp_st_scheme"
  assumes r: "ready st" and n: "in_env_keeps env" and i: "recv_flags i = 0"
  shows "res_all lists_inv (input_demux env i st p src sport dest dport)"
proof -
  from r have L: "lists_inv st" "no_refused st" by (simp_all add: ready_def)
  from list_of_head [OF L(1), of L_active] obtain xs where
    xs: "linked (next_of st) (head_of st L_active) xs" "\<forall>y \<in> set xs. conn st y" by auto
  have mv: "res_all (\<lambda>y. res_all (\<lambda>z. lists_inv (snd z)) (input_conn env i y q)) (move_to_front st L_active prev q)"
    if f: "found m xs 0 (q, prev)" "q \<noteq> 0" for m q prev
  proof (rule move_to_front_moved [OF L(1) f xs(1), THEN res_all_weaken])
    fix y assume y: "moved st y"
    have "conn st q" using f xs(2) by (auto simp: found_def)
    with y show "res_all (\<lambda>z. lists_inv (snd z)) (input_conn env i y q)"
      by (intro input_conn_inv n i) (auto simp: moved_def intro: moved_conn moved_no_refused [OF _ L(2)])
  qed
  show ?thesis
    unfolding input_demux_def res_all_simps
    by (rule find_conn_found [of st _ xs, THEN res_all_weaken])
      (use xs(1) in \<open>auto simp: case_prod_beta Let_def intro!: input_timewait_inv [OF r n] free_only_inv
         dest!: mv elim!: res_all_weaken\<close>)
qed

lemma tcp_input_inv:
  fixes st :: "'a tcp_st_scheme"
  assumes r: "ready st" and n: "in_env_keeps env"
  shows "res_all lists_inv (tcp_input env st p inp src dest)"
proof -
  have c: "ready x \<and> (\<forall>i. y = Some i \<longrightarrow> recv_flags i = 0)" if "checked st (y, x)" for y and x :: "'a tcp_st_scheme"
    using that ready_more [OF r] by (simp add: checked_def)
  show ?thesis
    unfolding tcp_input_def res_all_simps
    by (rule input_checks_frame [THEN res_all_weaken])
      (auto simp: ready_def [of st] dest!: c split: option.split
         intro!: free_only_inv mwp input_demux_inv [OF _ n] simp: ready_def [THEN iffD1])
qed

end
