(* ===== verification/TcpSteps.thy ===== *)
theory TcpSteps
  imports TcpFsm
begin

text \<open>
  What a segment leaves alone: the other connections, but for the links of the lists, and the numbers
  \<^verbatim>\<open>snd_nxt\<close> and \<^verbatim>\<open>snd_lbb\<close> of its own, on which the state machine decides whether our \<^verbatim>\<open>FIN\<close> is acknowledged.
\<close>

section \<open>The view\<close>

definition sent_upto :: "tcp_pcb \<Rightarrow> u32 \<times> u32" where "sent_upto c = (snd_nxt c, snd_lbb c)"

definition unlinked :: "tcp_pcb \<Rightarrow> tcp_pcb" where "unlinked c = c\<lparr>pcb_next := 0\<rparr>"

definition apart :: "addr \<Rightarrow> 'a tcp_st_scheme \<Rightarrow> (addr \<Rightarrow> tcp_pcb option) \<times> (u32 \<times> u32) option" where
  "apart p st = ((\<lambda>q. if q = p then None else map_option unlinked (tcp_pcbs st q)), map_option sent_upto (tcp_pcbs st p))"

lemma apart_cong: "tcp_pcbs st' = tcp_pcbs st \<Longrightarrow> apart p st' = apart p st"
  by (simp only: apart_def)

lemma apart_of_more:
  "res_all (\<lambda>x. ip_st.more (g x) = ip_st.more st) r \<Longrightarrow> res_all (\<lambda>x. \<forall>p. apart p (g x) = apart p st) r"
  by (erule res_all_weaken) (intro allI apart_cong tcp_fields_cong(1))

lemma apart_fields [simp]:
  "apart p (st\<lparr>bytes := a1\<rparr>) = apart p st" "apart p (st\<lparr>pools := a2\<rparr>) = apart p st"
  "apart p (st\<lparr>tcp_active_pcbs_changed := a3\<rparr>) = apart p st"
  "apart p (st\<lparr>tcp_active_pcbs := a5\<rparr>) = apart p st" "apart p (set_head st l a4) = apart p st"
  by (rule apart_cong; cases l; simp)+

lemma apart_put_pcb [simp]:
  "tcp_pcbs st p = Some c \<Longrightarrow> sent_upto c' = sent_upto c \<Longrightarrow> apart p (put_pcb st p c') = apart p st"
  by (auto simp: apart_def put_pcb_def)

lemma apart_upd_pcb:
  "(\<And>c. sent_upto (f c) = sent_upto c) \<Longrightarrow> res_all (\<lambda>x. apart p x = apart p st) (upd_pcb st p f)"
  by (auto simp: upd_pcb_def intro!: get_pcb_wp)

named_theorems awp \<open>rules for operations that keep \<open>apart\<close>\<close>

lemmas lower_awp [awp] =
  lower_wp [THEN apart_of_more, THEN res_all_weaken] lower_in_wp [THEN apart_of_more, THEN res_all_weaken]
  cut_more [THEN apart_of_more, THEN res_all_weaken] drop_covered_more [THEN apart_of_more, THEN res_all_weaken]
  ooseq_walk_more [THEN apart_of_more, THEN res_all_weaken] net_wp [THEN apart_of_more, THEN res_all_weaken]

lemmas read_awp [awp] = read_mwp get_pcb_wp apart_upd_pcb [THEN res_all_weaken]

lemma sent_upd [simp]:
  "snd_nxt (advance_rcv s n c) = snd_nxt c" "snd_lbb (advance_rcv s n c) = snd_lbb c"
  "snd_nxt (update_send_window i w c) = snd_nxt c" "snd_lbb (update_send_window i w c) = snd_lbb c"
  "snd_nxt (ack_counters a c) = snd_nxt c" "snd_lbb (ack_counters a c) = snd_lbb c"
  "snd_nxt (rtt_estimate t a c) = snd_nxt c" "snd_lbb (rtt_estimate t a c) = snd_lbb c"
  by (simp_all add: advance_rcv_def tcp_update_rcv_ann_wnd_def update_send_window_def ack_counters_def
      rtt_estimate_def Let_def)

section \<open>Receiving\<close>

lemma output_apart:
  "res_all (\<lambda>x. apart p (snd x) = apart p st) (tcp_output_alloc_header st p ol dl s)"
  "res_all (\<lambda>x. apart p x = apart p st) (tcp_rexmit st p)"
  by (auto simp: tcp_output_alloc_header_def tcp_rexmit_def sent_upto_def Let_def intro!: awp read_wp split: list.split)

lemmas output_awp [awp] = output_apart [THEN res_all_weaken]

lemma more_output_apart:
  "net_keeps env \<Longrightarrow> res_all (\<lambda>x. apart p (snd x) = apart p st) (tcp_send_empty_ack env st p)"
  "res_all (\<lambda>x. apart p x = apart p st) (tcp_rexmit_fast st p)"
  "res_all (\<lambda>x. apart p x = apart p st) (tcp_ack st p)" "res_all (\<lambda>x. apart p x = apart p st) (tcp_ack_now st p)"
  by (auto simp: tcp_send_empty_ack_def tcp_rexmit_fast_def tcp_ack_def tcp_ack_now_def sent_upto_def Let_def intro!: awp)

lemmas more_output_awp [awp] = more_output_apart [THEN res_all_weaken]

lemma tcp_parseopt_apart: "res_all (\<lambda>x. apart p x = apart p st) (tcp_parseopt i st p)"
  by (auto simp: tcp_parseopt_def sent_upto_def intro!: awp)

lemma duplicate_ack_apart: "res_all (\<lambda>x. apart p x = apart p st) (duplicate_ack i st p e)"
  by (auto simp: duplicate_ack_def sent_upto_def Let_def intro!: awp)

lemma release_seg_apart:
  assumes "\<And>c. sent_upto (f c) = sent_upto c"
  shows "res_all (\<lambda>x. apart p x = apart p st) (release_seg st p s f)"
  using assms by (auto simp: release_seg_def sent_upto_def intro!: awp)

lemmas ack_parts_awp [awp] = tcp_parseopt_apart [THEN res_all_weaken] duplicate_ack_apart [THEN res_all_weaken]
  release_seg_apart [THEN res_all_weaken]

lemma acked_apart:
  "res_all (\<lambda>x. apart p x = apart p st) (acked_unacked st p a q)" "res_all (\<lambda>x. apart p x = apart p st) (acked_unsent st p a q)"
proof (induction q arbitrary: st)
  case (Cons s q)
  note IH = Cons.IH [THEN res_all_weaken]
  { case 1 show ?case by (auto simp: sent_upto_def intro!: awp IH(1)) }
  { case 2 show ?case by (auto simp: sent_upto_def intro!: awp IH(2)) }
qed simp_all

lemmas acked_awp [awp] = acked_apart [THEN res_all_weaken]

lemma grow_cwnd_sent: "(\<And>c'. sent_upto c' = sent_upto c \<Longrightarrow> P c') \<Longrightarrow> res_all P (grow_cwnd c)"
  by (auto simp: grow_cwnd_def sent_upto_def Let_def)

lemma new_ack_apart: "res_all (\<lambda>x. apart p x = apart p st) (new_ack i st p)"
  by (auto simp: new_ack_def Let_def intro!: get_pcb_wp grow_cwnd_sent acked_awp apart_upd_pcb [THEN res_all_weaken])
    (simp_all add: sent_upto_def)

lemmas new_ack_awp [awp] = new_ack_apart [THEN res_all_weaken]

lemma receive_ack_apart: "res_all (\<lambda>x. apart p x = apart p st) (receive_ack i st p)"
  by (auto simp: receive_ack_def sent_upto_def Let_def intro!: awp)

lemma receive_parts_apart:
  "res_all (\<lambda>x. apart p (snd x) = apart p st) (trim_front i st p)"
  "res_all (\<lambda>x. apart p (snd x) = apart p st) (clip_to_window i st p)"
  "res_all (\<lambda>x. apart p (snd x) = apart p st) (merge_ooseq i st p)"
  "res_all (\<lambda>x. apart p (snd x) = apart p st) (note_fin i st p h)"
  "net_keeps env \<Longrightarrow> res_all (\<lambda>x. apart p (snd x) = apart p st) (out_of_sequence env i st p)"
  by (auto simp: trim_front_def clip_to_window_def merge_ooseq_def note_fin_def out_of_sequence_def
      sent_upto_def Let_def intro!: awp split: list.split)

lemma take_data_more: "res_all (\<lambda>x. ip_st.more (snd (snd x)) = ip_st.more st) (take_data i st g)"
  by (auto simp: take_data_def intro!: mwp)

lemmas take_data_awp [awp] = take_data_more [THEN apart_of_more, THEN res_all_weaken]

lemmas receive_parts_awp [awp] = receive_parts_apart [THEN res_all_weaken] receive_ack_apart [THEN res_all_weaken]

lemma drain_ooseq_apart: "res_all (\<lambda>x. apart p (snd x) = apart p st) (drain_ooseq i st p q)"
proof (induction q arbitrary: i st)
  case (Cons s q)
  note IH = Cons.IH [THEN res_all_weaken]
  show ?case by (auto simp: sent_upto_def intro!: awp IH)
qed simp

lemma in_sequence_apart: "res_all (\<lambda>x. apart p (snd x) = apart p st) (in_sequence i st p)"
  by (auto simp: in_sequence_def sent_upto_def Let_def intro!: awp drain_ooseq_apart [THEN res_all_weaken])

lemma tcp_receive_apart: "net_keeps env \<Longrightarrow> res_all (\<lambda>x. apart p (snd x) = apart p st) (tcp_receive env i st p)"
  by (auto simp: tcp_receive_def intro!: awp in_sequence_apart [THEN res_all_weaken])

section \<open>Moving a block\<close>

lemma set_next_apart: "res_all (\<lambda>x. \<forall>p. apart p x = apart p st) (set_next st q n)"
  by (auto simp: set_next_def upd_common_def apart_def unlinked_def sent_upto_def fun_eq_iff split: option.split)

lemma set_state_apart: "res_all (\<lambda>x. apart p x = apart p st) (set_state st p s)"
  by (auto simp: set_state_def upd_common_def apart_def unlinked_def sent_upto_def fun_eq_iff split: option.split)

lemmas link_awp [awp] = set_next_apart [THEN res_all_weaken] set_state_apart [THEN res_all_weaken]
  res_all_any [where r = "get_common st p" for st p]

lemma rmv_loop_apart: "res_all (\<lambda>x. \<forall>p. apart p x = apart p st) (rmv_loop fuel st q t)"
proof (induction fuel arbitrary: t)
  case (Suc fuel)
  note IH = Suc.IH [THEN res_all_weaken]
  show ?case by (auto intro!: awp IH)
qed simp

lemmas rmv_loop_awp [awp] = rmv_loop_apart [THEN res_all_weaken]

lemma lists_apart:
  "res_all (\<lambda>x. \<forall>p. apart p x = apart p st) (TCP_RMV_ACTIVE st q)" "res_all (\<lambda>x. \<forall>p. apart p x = apart p st) (TCP_REG st l q)"
  "res_all (\<lambda>x. apart p x = apart p st) (tcp_pcb_purge st p)"
  by (auto simp: TCP_RMV_ACTIVE_def TCP_RMV_def TCP_REG_def tcp_pcb_purge_def sent_upto_def intro!: awp)

lemmas lists_awp [awp] = lists_apart [THEN res_all_weaken]

lemma to_time_wait_apart: "res_all (\<lambda>x. apart p x = apart p st) (to_time_wait st p)"
  by (auto simp: to_time_wait_def intro!: awp)

lemmas to_time_wait_awp [awp] = to_time_wait_apart [THEN res_all_weaken]

lemma process_received_apart: "res_all (\<lambda>x. apart p (snd x) = apart p st) (process_received i st p s)"
  by (cases s) (auto simp: process_received_def Let_def intro!: awp)

lemma tcp_process_apart:
  assumes "pcb_state c \<in> connected_states" "tcp_pcbs st p = Some c" "net_keeps (ipe (tenv env))"
  shows "res_all (\<lambda>x. apart p (snd (snd x)) = apart p st) (tcp_process env i st p)"
proof -
  have c: "pcb_state c \<noteq> SYN_SENT" "pcb_state c \<noteq> SYN_RCVD" using assms(1) by (auto simp: connected_states_def)
  have get: "res_all P (get_pcb st p)" if "P c" for P by (rule get_pcb_wp) (use assms(2) that in auto)
  have "res_all (\<lambda>x. apart p (snd (snd x)) = apart p st) (tcp_process env i st p)"
    unfolding tcp_process_def res_all_simps
    by (rule get) (use assms(2,3) c in \<open>auto simp: sent_upto_def intro!: awp process_received_apart [THEN res_all_weaken]
      tcp_receive_apart [THEN res_all_weaken]\<close>)
  then show ?thesis .
qed

lemma apartD:
  assumes "apart p st' = apart p st" "tcp_pcbs st p = Some c"
  obtains c' where "tcp_pcbs st' p = Some c'" "snd_nxt c' = snd_nxt c" "snd_lbb c' = snd_lbb c"
  using assms by (cases "tcp_pcbs st' p") (auto simp: apart_def sent_upto_def)

lemma apart_other: "apart p st' = apart p st \<Longrightarrow> q \<noteq> p \<Longrightarrow> map_option unlinked (tcp_pcbs st' q) = map_option unlinked (tcp_pcbs st q)"
  by (auto simp: apart_def fun_eq_iff dest: spec [of _ q])

section \<open>The step of the state machine\<close>

text \<open>What RFC 793 says of a segment that is in order: the next state from what it carries.\<close>

fun rfc_next :: "bool \<Rightarrow> bool \<Rightarrow> tcp_state \<Rightarrow> tcp_state" where
  "rfc_next fin ours ESTABLISHED = (if fin then CLOSE_WAIT else ESTABLISHED)"
| "rfc_next fin ours FIN_WAIT_1 =
     (if fin then (if ours then TIME_WAIT else CLOSING) else if ours then FIN_WAIT_2 else FIN_WAIT_1)"
| "rfc_next fin ours FIN_WAIT_2 = (if fin then TIME_WAIT else FIN_WAIT_2)"
| "rfc_next fin ours CLOSING = (if ours then TIME_WAIT else CLOSING)"
| "rfc_next fin ours s = s"

text \<open>The segment acknowledges the number \<open>n\<close>.\<close>

definition acks :: "tcpin \<Rightarrow> u32 \<Rightarrow> bool" where "acks i n \<longleftrightarrow> flags i AND TCP_ACK \<noteq> 0 \<and> ackno i = n"

lemma rfc_next_edge: "s \<in> connected_states \<Longrightarrow> tcp_edge fin ours s (rfc_next fin ours s)"
  by (auto simp: connected_states_def intro: tcp_edge.intros)

lemma res_all_conj: "res_all P r \<Longrightarrow> res_all Q r \<Longrightarrow> res_all (\<lambda>x. P x \<and> Q x) r"
  by (simp add: res_all_def split: sum.splits)

lemma process_received_step:
  assumes a: "at_state st I p s' q" and s: "s \<in> connected_states" "s' = s \<or> s = ESTABLISHED \<and> got_fin i \<and> s' = CLOSE_WAIT"
    and c: "tcp_pcbs st p = Some c"
  shows "res_all (\<lambda>x. at_state (snd x) I p (rfc_next (got_fin i) (acks i (snd_nxt c)) s) q \<and>
     fst x = (if s = LAST_ACK \<and> acks i (snd_nxt c) then i\<lparr>recv_flags := recv_flags i OR TF_CLOSED\<rparr> else i)) (process_received i st p s)"
proof -
  have la: "list_for s' = L_active" using s by (auto simp: connected_states_def)
  have set: "res_all (\<lambda>y. at_state y I p t q) (set_state x p t)" if "at_state x I p s' q" "list_for t = L_active" for x t
    by (rule at_state_set [OF that(1) la that(2)])
  have tw: "res_all (\<lambda>y. at_state y I p TIME_WAIT q) (to_time_wait x p)" if "at_state x I p s' q" for x
    by (rule to_time_wait_at [OF that la])
  have ack: "res_all P (tcp_ack_now st p)" if "\<And>x. at_state x I p s' q \<Longrightarrow> P x" for P
    by (rule ack_now_at [OF a that])
  have g: "res_all P (get_pcb st p)" if "P c" for P
    by (rule get_pcb_wp) (use c that in auto)
  have k: "recv_flags i AND TF_GOT_FIN \<noteq> 0 \<longleftrightarrow> got_fin i" by (simp add: got_fin_def)
  have e: "all_acked i c \<longleftrightarrow> acks i (snd_nxt c)" by (simp add: all_acked_def acks_def)
  have "res_all (\<lambda>x. at_state (snd x) I p (rfc_next (got_fin i) (acks i (snd_nxt c)) t) q \<and>
     fst x = (if t = LAST_ACK \<and> acks i (snd_nxt c) then i\<lparr>recv_flags := recv_flags i OR TF_CLOSED\<rparr> else i)) (process_received i st p t)"
    if "s = t" for t
    using s a set tw ack unfolding that
    by (cases t) (auto simp: process_received_def Let_def k e connected_states_def intro!: g)
  then show ?thesis by blast
qed

text \<open>
  A segment without \<^verbatim>\<open>RST\<close> and \<^verbatim>\<open>SYN\<close> takes the step of the diagram, where an acknowledgement counts as that of
  our \<^verbatim>\<open>FIN\<close> when it is that of \<^verbatim>\<open>snd_nxt\<close>; any other segment leaves the state as it was.
\<close>

definition stepped :: "tcpin \<Rightarrow> (addr \<Rightarrow> pcb_info option) \<Rightarrow> addr \<Rightarrow> u16 \<Rightarrow> u32 \<Rightarrow> tcp_state \<Rightarrow> err_t \<times> tcpin \<times> 'a tcp_st_scheme \<Rightarrow> bool" where
  "stepped i I p q n s x \<longleftrightarrow> (case x of (e, i', st') \<Rightarrow>
     if flags i AND TCP_RST \<noteq> 0 \<or> flags i AND TCP_SYN \<noteq> 0 then at_state st' I p s q
     else at_state st' I p (rfc_next (got_fin i') (acks i n) s) q \<and>
       (recv_flags i' AND TF_CLOSED \<noteq> 0 \<longleftrightarrow> s = LAST_ACK \<and> acks i n))"

lemma same_seg_closed:
  assumes "same_seg i j" "recv_flags i = 0"
  shows "recv_flags j AND TF_CLOSED = 0" "got_fin (j\<lparr>recv_flags := recv_flags j OR TF_CLOSED\<rparr>) = got_fin j"
    "(recv_flags j OR TF_CLOSED) AND TF_CLOSED \<noteq> 0" "acks j n = acks i n"
  using assms by (auto simp: same_seg_def TF_GOT_FIN_def TF_CLOSED_def got_fin_def acks_def)

lemma tcp_process_step:
  assumes a: "at_state st I p s q" and s: "s \<in> connected_states" and n: "net_keeps (ipe (tenv env))"
    and r: "recv_flags i = 0" and c: "tcp_pcbs st p = Some c"
  shows "res_all (stepped i I p q (snd_nxt c) s) (tcp_process env i st p)"
proof -
  have "info st p = Some (False, s, q)" using a by (simp add: at_state_def)
  with c have cs: "pcb_state c = s" by (simp add: info_eq)
  have get: "res_all P (get_pcb st p)" if "P c" for P by (rule get_pcb_wp) (use c that in auto)
  have proc: "res_all (\<lambda>y. stepped i I p q (snd_nxt c) s (e, y)) (process_received (fst x) (snd x) p s)"
    if x: "same_seg i (fst x)" and ap: "apart p (snd x) = apart p st" and f: "flags i AND TCP_RST = 0" "flags i AND TCP_SYN = 0" and
      at: "at_state (snd x) I p s q \<or> s = ESTABLISHED \<and> got_fin (fst x) \<and> at_state (snd x) I p CLOSE_WAIT q" for e x
  proof -
    obtain s' where s': "at_state (snd x) I p s' q" "s' = s \<or> s = ESTABLISHED \<and> got_fin (fst x) \<and> s' = CLOSE_WAIT"
      using at by blast
    obtain c' where c': "tcp_pcbs (snd x) p = Some c'" "snd_nxt c' = snd_nxt c" using apartD [OF ap c] by blast
    note cl = same_seg_closed [OF x r]
    show ?thesis
    proof (rule process_received_step [OF s'(1) s s'(2) c'(1), THEN res_all_weaken], elim conjE)
      fix y
      assume y: "at_state (snd y) I p (rfc_next (got_fin (fst x)) (acks (fst x) (snd_nxt c')) s) q"
        "fst y = (if s = LAST_ACK \<and> acks (fst x) (snd_nxt c') then (fst x)\<lparr>recv_flags := recv_flags (fst x) OR TF_CLOSED\<rparr> else fst x)"
      have "acks (fst x) (snd_nxt c') = acks i (snd_nxt c)" using cl(4) c'(2) by simp
      note y = y [unfolded this]
      have "got_fin (fst y) = got_fin (fst x)" "recv_flags (fst y) AND TF_CLOSED \<noteq> 0 \<longleftrightarrow> s = LAST_ACK \<and> acks i (snd_nxt c)"
        unfolding y(2) using cl(1-3) by (simp_all split: if_split)
      with y(1) f show "stepped i I p q (snd_nxt c) s (e, y)" unfolding stepped_def case_prod_beta by simp
    qed
  qed
  have rec: "res_all (\<lambda>x. res_all (\<lambda>y. stepped i I p q (snd_nxt c) s (e, y)) (process_received (fst x) (snd x) p s))
      (tcp_receive (ipe (tenv env)) i x p)"
    if "at_state x I p s q" "apart p x = apart p st" "flags i AND TCP_RST = 0" "flags i AND TCP_SYN = 0" for e x
    by (rule res_all_conj [OF received_at [OF that(1) n] tcp_receive_apart [OF n], THEN res_all_weaken]) (use proc that in auto)
  have n3: "s \<noteq> SYN_SENT" "s \<noteq> SYN_RCVD" "s \<noteq> CLOSED" "s \<noteq> LISTEN" "s \<noteq> TIME_WAIT"
    using s by (auto simp: connected_states_def)
  have opt: "res_all P (tcp_parseopt i x p)"
    if "at_state x I p s q" "apart p x = apart p st" "\<And>y. at_state y I p s q \<Longrightarrow> apart p y = apart p st \<Longrightarrow> P y" for P x
    by (rule res_all_conj [OF tcp_parseopt_lview tcp_parseopt_apart, THEN res_all_weaken])
       (use that at_state_lview in \<open>blast intro: trans\<close>)
  let ?c = "c\<lparr>tmr := (if pcb_flags c AND TF_RXCLOSED = 0 then tcp_ticks st else tmr c), keep_cnt_sent := 0\<rparr>"
  have put: "at_state (put_pcb st p ?c) I p s q" "apart p (put_pcb st p ?c) = apart p st"
    using a c by (simp_all add: sent_upto_def)
  have run: "res_all (\<lambda>x. res_all (\<lambda>y. stepped i I p q (snd_nxt c) s (ERR_OK, fst y, snd y)) (process_received (fst x) (snd x) p s))
      (tcp_receive (ipe (tenv env)) i x p)"
    if "at_state x I p s q" "apart p x = apart p st" "flags i AND TCP_RST = 0" "flags i AND TCP_SYN = 0" for x
    using rec [OF that, of ERR_OK] by simp
  consider (rst) "flags i AND TCP_RST \<noteq> 0" | (syn) "flags i AND TCP_RST = 0" "flags i AND TCP_SYN \<noteq> 0"
    | (plain) "flags i AND TCP_RST = 0" "flags i AND TCP_SYN = 0" by blast
  then show ?thesis
  proof cases
    case rst
    have "at_state (put_pcb st p (c\<lparr>pcb_flags := pcb_flags c AND NOT TF_ACK_DELAY\<rparr>)) I p s q" using a c by simp
    with rst a show ?thesis unfolding tcp_process_def res_all_simps by (intro get) (simp add: stepped_def)
  next
    case syn
    then show ?thesis unfolding tcp_process_def res_all_simps
      by (intro get) (use n3 cs in \<open>auto simp: stepped_def intro: ack_now_at [OF a]\<close>)
  next
    case plain
    show ?thesis unfolding tcp_process_def res_all_simps
      by (rule get) (use n3 cs plain run in \<open>simp add: case_prod_beta opt [OF put]\<close>)
  qed
qed

end
