(* ===== verification/TcpProps.thy ===== *)
theory TcpProps
  imports TcpInv
begin

text \<open>
  What \<^verbatim>\<open>tcp.c\<close> guarantees: the axioms of \<^verbatim>\<open>tcp_impl.h\<close> about the lists of control blocks, ports and
  binding, the receive window, and the timers.
\<close>

section \<open>Concrete environments and states\<close>

lemma scan_empty [simp]:
  "bind_scan fuel st ip port 0 = Inr False" "port_scan fuel st port 0 = Inr False"
  by (cases fuel; simp)+

definition quiet_env :: "'st tcp_env" where
  "quiet_env = \<lparr>ipe = sample_env, call_recv = (\<lambda>_ _ _ _ _ st. Inr (ERR_OK, st)),
     call_poll = (\<lambda>_ _ _ st. Inr (ERR_OK, st)), call_err = (\<lambda>_ _ _ st. Inr st)\<rparr>"

lemma env_keeps_quiet: "env_keeps quiet_env"
  by (simp add: env_keeps_def quiet_env_def net_keeps_sample)

text \<open>One connection block at address 100 in its pool, and a listen block at 500.\<close>

definition sample_pools :: memp_state where
  "sample_pools = \<lparr>memp_tab = (\<lambda>_. 0)(MEMP_TCP_PCB := 100, MEMP_TCP_PCB_LISTEN := 500), memp_next = (\<lambda>_. 0)\<rparr>"

definition sample_start :: tcp_st where
  "sample_start = (sample_tcp Map.empty Map.empty Map.empty)\<lparr>pools := sample_pools\<rparr>"

lemma tcp_empty_sample: "tcp_empty sample_start"
  unfolding tcp_empty_def
proof (intro conjI allI)
  show "head_of sample_start l = 0" for l by (cases l) (simp_all add: sample_start_def sample_tcp_def)
qed (simp_all add: sample_start_def sample_tcp_def)

definition sample_new :: tcp_st where
  "sample_new = sample_start\<lparr>pools := sample_pools\<lparr>memp_tab := (memp_tab sample_pools)(MEMP_TCP_PCB := 0)\<rparr>,
     tcp_pcbs := [100 \<mapsto> sample_pcb]\<rparr>"

lemma sample_new_run: "tcp_new quiet_env sample_start = Inr (100, sample_new)"
  by (simp add: tcp_new_def tcp_alloc_def alloc_block_def malloc_pcb_def memp_malloc_def sample_start_def
      sample_pools_def sample_new_def tcp_samples tcp_next_iss_def put_pcb_def TCP_PRIO_NORMAL_def)

definition sample_bound :: tcp_st where
  "sample_bound = sample_new\<lparr>tcp_pcbs := [100 \<mapsto> sample_pcb\<lparr>local_port := 7\<rparr>], tcp_bound_pcbs := 100\<rparr>"

lemma sample_bind_run: "tcp_bind sample_new 100 0 7 = Inr (ERR_OK, sample_bound)"
  by (simp add: tcp_bind_def get_common_def upd_common_def TCP_REG_def set_next_def tcp_pcb_lists_def
      sample_new_def sample_bound_def sample_start_def tcp_samples pcb_common.truncate_def ip_addr_isany_def)

section \<open>Properties of the lists\<close>

text \<open>C4: The axioms of \<^verbatim>\<open>tcp_impl.h\<close> about the four lists hold after every sequence of calls (\<open>api_step\<close>: no second
  bind and no abort of a closed block that is bound, and blocks are allocated from a fresh pool): the lists end,
  a block is in at most one of them and at most once, every block that is not \<^verbatim>\<open>CLOSED\<close> is in the list of its
  state (\<^verbatim>\<open>LISTEN\<close> in \<^verbatim>\<open>tcp_listen_pcbs\<close>, \<^verbatim>\<open>TIME_WAIT\<close> in \<^verbatim>\<open>tcp_tw_pcbs\<close>, the others in
  \<^verbatim>\<open>tcp_active_pcbs\<close>), and only allocated blocks of that state are in a list.\<close>

theorem tcp_pcb_lists_axioms:
  assumes "api_reach env st" "env_keeps env"
  shows "\<exists>F. (\<forall>l. linked (next_of st) (head_of st l) (F l) \<and> distinct (F l)) \<and>
    (\<forall>l l'. l \<noteq> l' \<longrightarrow> set (F l) \<inter> set (F l') = {}) \<and>
    (\<forall>p b. common st p = Some b \<longrightarrow> pcb_state b \<noteq> CLOSED \<longrightarrow> p \<in> set (F (list_for (pcb_state b)))) \<and>
    (\<forall>l. \<forall>p \<in> set (F l). \<exists>b. common st p = Some b \<and> list_for (pcb_state b) = l)"
proof -
  from api_reach_inv [OF assms] obtain S I D where v: "vrel st S I D" and w: "wf_lists S I D" by (rule inv_cases)
  from v obtain F where F: "lists_repr st F" "S = (\<lambda>l. set (F l))" "info st = I" by (auto simp: vrel_def)
  have i: "I p = Some (tcp_pcbs st p = None, pcb_state b, local_port b)" if "common st p = Some b" for p b
    using that F(3) by (auto simp: info_def)
  have "p \<in> set (F (list_for (pcb_state b)))" if "common st p = Some b" "pcb_state b \<noteq> CLOSED" for p b
    using filed_here [OF wf_filed [OF w i [OF that(1)]] that(2)] F(2) by simp
  moreover have "\<exists>b. common st p = Some b \<and> list_for (pcb_state b) = l" if p: "p \<in> set (F l)" for p l
  proof -
    from lists_reprD(3) [OF F(1) p] obtain b where b: "common st p = Some b" by blast
    then show ?thesis using wf_filed [OF w i [OF b]] p F(2) by (auto simp: filed_def)
  qed
  ultimately show ?thesis using lists_reprD [OF F(1)] by (intro exI [of _ F]) blast
qed

theorem tcp_pcb_lists_axioms_witness:
  "api_reach quiet_env sample_bound \<and>
   (\<exists>F. linked (next_of sample_bound) 100 (F L_bound) \<and> distinct (F L_bound) \<and> 100 \<notin> set (F L_active))"
proof -
  have "fresh sample_start MEMP_TCP_PCB" "unbound sample_new 100"
    by (simp_all add: fresh_def unbound_def common_def sample_new_def sample_start_def tcp_samples pcb_common.truncate_def)
  then have r: "api_reach quiet_env sample_bound"
    using reach_start [OF tcp_empty_sample] sample_new_run sample_bind_run reach_step step_new step_bind by metis
  have h: "head_of sample_bound L_bound = 100" by (simp add: sample_bound_def)
  from tcp_pcb_lists_axioms [OF r env_keeps_quiet] obtain F where
    F: "\<forall>l. linked (next_of sample_bound) (head_of sample_bound l) (F l) \<and> distinct (F l)"
      "\<forall>l l'. l \<noteq> l' \<longrightarrow> set (F l) \<inter> set (F l') = {}" by blast
  have b: "linked (next_of sample_bound) 100 (F L_bound)" using F(1) h by metis
  then have "100 \<in> set (F L_bound)" by (cases "F L_bound") auto
  then have "100 \<notin> set (F L_active)" using F(2) by blast
  then show ?thesis using r b F(1) by blast
qed

text \<open>C5: On the lists that the blocks represent, \<^verbatim>\<open>TCP_REG\<close> adds a block at the front and \<^verbatim>\<open>TCP_RMV\<close> removes it from
  wherever it is; both return for lists as long as the pools allow, keep the other lists, and keep the
  kind, the state and the port of every block.\<close>

theorem tcp_reg_rmv_refine:
  assumes "lists_repr st F" "common st p \<noteq> None" "p \<noteq> 0"
  shows "((\<forall>k. p \<notin> set (F k)) \<longrightarrow>
      (\<exists>st'. TCP_REG st l p = Inr st' \<and> lists_repr st' (F(l := p # F l)) \<and> info st' = info st)) \<and>
    (p \<in> set (F l) \<and> length (F l) \<le> pcb_fuel \<longrightarrow>
      (\<exists>st'. TCP_RMV st l p = Inr st' \<and> lists_repr st' (F(l := remove1 p (F l))) \<and> info st' = info st))"
  using pl.reg_law [OF assms(1) _ assms(3), of l] TCP_RMV_total [OF assms(1-3), of l] pl.rmv_gone [OF _ assms(1), of l p] assms(2)
  by auto

theorem tcp_reg_rmv_refine_witness:
  "\<exists>st'. TCP_REG sample_new L_bound 100 = Inr st' \<and> lists_repr st' ((\<lambda>_. [])(L_bound := [100]))"
proof -
  have r: "lists_repr sample_new (\<lambda>_. [])"
    unfolding lists_repr_def
  proof (intro conjI allI impI)
    show "linked (next_of sample_new) (head_of sample_new l) []" for l
      by (cases l) (simp_all add: sample_new_def sample_start_def sample_tcp_def)
  qed simp_all
  have "common sample_new 100 \<noteq> None" by (simp add: common_def sample_new_def)
  from tcp_reg_rmv_refine [OF r this, of L_bound] show ?thesis by auto
qed

section \<open>Ports\<close>

text \<open>Does a block of one of the lists use the port?\<close>

definition port_used :: "'a tcp_st_scheme \<Rightarrow> (pcb_list \<Rightarrow> addr list) \<Rightarrow> u16 \<Rightarrow> bool" where
  "port_used st F port \<longleftrightarrow> (\<exists>l. \<exists>x \<in> set (F l). \<exists>b. common st x = Some b \<and> local_port b = port)"

lemma port_scan_spec:
  assumes "linked (next_of st) p xs" "set xs \<subseteq> dom (common st)" "length xs \<le> fuel"
  shows "port_scan fuel st port p = Inr (\<exists>x \<in> set xs. \<exists>b. common st x = Some b \<and> local_port b = port)"
  using assms
proof (induction fuel arbitrary: p xs)
  case 0
  then show ?case by simp
next
  case (Suc fuel)
  show ?case
  proof (cases xs)
    case (Cons x ys)
    with Suc.prems obtain b where b: "common st x = Some b" by auto
    have "get_common st x = Inr b" using b Cons Suc.prems(1) by (simp add: get_common_iff)
    then show ?thesis using Suc.IH [of "pcb_next b" ys] Suc.prems Cons b by (simp add: next_of_common)
  qed (use Suc.prems in simp)
qed

lemma bind_scan_spec:
  assumes "linked (next_of st) p xs" "set xs \<subseteq> dom (common st)" "length xs \<le> fuel"
  shows "bind_scan fuel st ip port p = Inr (\<exists>x \<in> set xs. \<exists>b. common st x = Some b \<and> local_port b = port \<and>
     (ip_addr_isany (local_ip b) \<or> ip_addr_isany ip \<or> local_ip b = ip))"
  using assms
proof (induction fuel arbitrary: p xs)
  case 0
  then show ?case by simp
next
  case (Suc fuel)
  show ?case
  proof (cases xs)
    case (Cons x ys)
    with Suc.prems obtain b where b: "common st x = Some b" by auto
    have "get_common st x = Inr b" using b Cons Suc.prems(1) by (simp add: get_common_iff)
    then show ?thesis using Suc.IH [of "pcb_next b" ys] Suc.prems Cons b
      by (simp add: next_of_common) blast
  qed (use Suc.prems in simp)
qed

lemma port_in_lists_spec:
  assumes "lists_repr st F" "\<forall>l. length (F l) \<le> pcb_fuel"
  shows "port_in_lists st port ls = Inr (\<exists>l \<in> set ls. \<exists>x \<in> set (F l). \<exists>b. common st x = Some b \<and> local_port b = port)"
proof (induction ls)
  case (Cons l ls)
  have "port_scan pcb_fuel st port (head_of st l) = Inr (\<exists>x \<in> set (F l). \<exists>b. common st x = Some b \<and> local_port b = port)"
    by (rule port_scan_spec) (use assms in \<open>auto simp: lists_repr_def\<close>)
  then show ?case using Cons by simp blast
qed simp

lemma bind_conflict_spec:
  assumes "lists_repr st F" "\<forall>l. length (F l) \<le> pcb_fuel"
  shows "bind_conflict st ip port ls = Inr (\<exists>l \<in> set ls. \<exists>x \<in> set (F l). \<exists>b. common st x = Some b \<and> local_port b = port \<and>
     (ip_addr_isany (local_ip b) \<or> ip_addr_isany ip \<or> local_ip b = ip))"
proof (induction ls)
  case (Cons l ls)
  have "bind_scan pcb_fuel st ip port (head_of st l) = Inr (\<exists>x \<in> set (F l). \<exists>b. common st x = Some b \<and> local_port b = port \<and>
     (ip_addr_isany (local_ip b) \<or> ip_addr_isany ip \<or> local_ip b = ip))"
    by (rule bind_scan_spec) (use assms in \<open>auto simp: lists_repr_def\<close>)
  then show ?case using Cons by simp blast
qed simp

lemma all_lists: "l \<in> set tcp_pcb_lists"
  by (cases l) (simp_all add: tcp_pcb_lists_def)

lemma port_in_lists_used:
  assumes "lists_repr st F" "\<forall>l. length (F l) \<le> pcb_fuel"
  shows "port_in_lists (st\<lparr>tcp_port := q\<rparr>) port tcp_pcb_lists = Inr (port_used st F port)"
proof -
  have c: "common (st\<lparr>tcp_port := q\<rparr>) = common st" "next_of (st\<lparr>tcp_port := q\<rparr>) = next_of st"
    by (rule common_cong, simp_all)+
  have h: "head_of (st\<lparr>tcp_port := q\<rparr>) = head_of st" by (rule head_of_cong) simp_all
  have "lists_repr (st\<lparr>tcp_port := q\<rparr>) F" using assms(1) c h by (simp add: lists_repr_def)
  from port_in_lists_spec [OF this assms(2)] show ?thesis
    by (simp add: c port_used_def Bex_def all_lists)
qed

text \<open>The port \<open>i\<close> places behind \<open>q\<close> in the cycle of local ports.\<close>

definition port_after :: "u16 \<Rightarrow> nat \<Rightarrow> u16" where
  "port_after q i = of_nat (49152 + (unat q - 49152 + i) mod 16384)"

lemma unat_of_nat_u16: "n < 65536 \<Longrightarrow> unat (of_nat n :: u16) = n"
  by (simp add: unat_of_nat)

lemma port_after_unat: "unat (port_after q i) = 49152 + (unat q - 49152 + i) mod 16384"
proof -
  have "(unat q - 49152 + i) mod 16384 < 16384" by (rule mod_less_divisor) simp
  then have "49152 + (unat q - 49152 + i) mod 16384 < 65536" by linarith
  then show ?thesis unfolding port_after_def by (rule unat_of_nat_u16)
qed

lemma port_after_Suc: "port_after (port_after q 1) i = port_after q (Suc i)"
  by (rule word_unat_eq_iff [THEN iffD2]) (simp add: port_after_unat mod_simps)

lemma next_port:
  assumes "0xc000 \<le> (q :: u16)"
  shows "(if q = TCP_LOCAL_PORT_RANGE_END then TCP_LOCAL_PORT_RANGE_START else q + 1) = port_after q 1"
proof (rule word_unat_eq_iff [THEN iffD2])
  have l: "49152 \<le> unat q" using assms by (simp add: word_le_nat_alt)
  have u: "unat q + 1 < 65536" if "q \<noteq> 0xffff"
  proof -
    have "unat q \<noteq> 65535" using that by (simp add: word_unat_eq_iff)
    then show ?thesis using unat_u16_lt [of q] by linarith
  qed
  then have "unat (q + 1) = unat q + 1" if "q \<noteq> 0xffff"
    using that by (simp add: unat_word_ariths)
  moreover have "(unat q - 49152 + 1) mod 16384 = unat q - 49152 + 1" if "q \<noteq> 0xffff"
    by (rule mod_less) (use u [OF that] l in linarith)
  ultimately show "unat (if q = TCP_LOCAL_PORT_RANGE_END then TCP_LOCAL_PORT_RANGE_START else q + 1) = unat (port_after q 1)"
    using l by (simp add: port_after_unat TCP_LOCAL_PORT_RANGE_END_def TCP_LOCAL_PORT_RANGE_START_def)
qed

lemma port_after_ge: "0xc000 \<le> port_after q i"
  by (simp add: word_le_nat_alt port_after_unat)

text \<open>The loop returns the first free port; \<open>0\<close> only when all the ports it still may look at are in use.\<close>

lemma new_port_loop_spec:
  assumes F: "lists_repr st F" "\<forall>l. length (F l) \<le> pcb_fuel"
    and "0xc000 \<le> q" "unat n < 16384" "16384 - unat n \<le> fuel"
  shows "\<exists>port r. new_port_loop fuel (st\<lparr>tcp_port := q\<rparr>) n = Inr (port, st\<lparr>tcp_port := r\<rparr>) \<and>
    (port \<noteq> 0 \<longrightarrow> port = r \<and> 0xc000 \<le> port \<and> \<not> port_used st F port) \<and>
    (port = 0 \<longrightarrow> (\<forall>i < 16384 - unat n. port_used st F (port_after q (Suc i))))"
  using assms(3-5)
proof (induction fuel arbitrary: q n)
  case 0
  then show ?case by simp
next
  case (Suc fuel)
  let ?q = "port_after q 1"
  have step: "new_port_loop (Suc fuel) (st\<lparr>tcp_port := q\<rparr>) n =
      (if port_used st F ?q then
         (if TCP_LOCAL_PORT_RANGE_END - TCP_LOCAL_PORT_RANGE_START < n + 1 then Inr (0, st\<lparr>tcp_port := ?q\<rparr>)
          else new_port_loop fuel (st\<lparr>tcp_port := ?q\<rparr>) (n + 1))
       else Inr (?q, st\<lparr>tcp_port := ?q\<rparr>))"
  proof -
    have "(if tcp_port (st\<lparr>tcp_port := q\<rparr>) = TCP_LOCAL_PORT_RANGE_END then TCP_LOCAL_PORT_RANGE_START
           else tcp_port (st\<lparr>tcp_port := q\<rparr>) + 1) = ?q"
      unfolding next_port [OF Suc.prems(1), symmetric] by simp
    then show ?thesis unfolding new_port_loop.simps Let_def by (simp add: port_in_lists_used [OF F])
  qed
  have n1: "unat (n + 1) = unat n + 1" using Suc.prems(2) by (simp add: unat_word_ariths)
  have lim: "TCP_LOCAL_PORT_RANGE_END - TCP_LOCAL_PORT_RANGE_START < n + 1 \<longleftrightarrow> unat n + 1 = 16384"
    using n1 Suc.prems(2) by (auto simp: word_less_nat_alt TCP_LOCAL_PORT_RANGE_END_def TCP_LOCAL_PORT_RANGE_START_def)
  have z: "?q \<noteq> 0" using port_after_ge [of q 1] by (auto simp: word_le_nat_alt)
  show ?case
  proof (cases "port_used st F ?q")
    case False
    then show ?thesis using step z port_after_ge by auto
  next
    case used: True
    show ?thesis
    proof (cases "unat n + 1 = 16384")
      case True
      then show ?thesis using step used lim by auto
    next
      case False
      have p: "unat (n + 1) < 16384" "16384 - unat (n + 1) \<le> fuel" using n1 Suc.prems(2,3) False by linarith+
      from Suc.IH [OF port_after_ge p, of q 1] n1 obtain port r where
        r: "new_port_loop fuel (st\<lparr>tcp_port := ?q\<rparr>) (n + 1) = Inr (port, st\<lparr>tcp_port := r\<rparr>)"
          "port \<noteq> 0 \<longrightarrow> port = r \<and> 0xc000 \<le> port \<and> \<not> port_used st F port"
          "port = 0 \<longrightarrow> (\<forall>i < 16384 - (unat n + 1). port_used st F (port_after ?q (Suc i)))" by auto
      have "port_used st F (port_after q (Suc i))" if "port = 0" "i < 16384 - unat n" for i
      proof (cases i)
        case (Suc j)
        then have "j < 16384 - (unat n + 1)" using that(2) by linarith
        then show ?thesis using r(3) that(1) port_after_Suc [of q "Suc j"] Suc by metis
      qed (use used in simp)
      then show ?thesis using step used lim False r(1,2) by auto
    qed
  qed
qed

lemma ports_not_all_used:
  assumes "\<forall>l. length (F l) \<le> pcb_fuel"
  shows "\<exists>i < 16384. \<not> port_used st F (port_after q (Suc i))"
proof (rule ccontr)
  let ?U = "(\<lambda>x. unat (local_port (the (common st x)))) ` (\<Union>l \<in> set tcp_pcb_lists. set (F l))"
  assume "\<not> ?thesis"
  then have all: "port_used st F (port_after q (Suc i))" if "i < 16384" for i using that by blast
  have "{49152 ..< 65536} \<subseteq> ?U"
  proof
    fix r :: nat
    assume r: "r \<in> {49152 ..< 65536}"
    define k where "k = unat q - 49152 + 1"
    define i where "i = (r - 49152 + 16384 * k - k) mod 16384"
    have i: "i < 16384" by (simp add: i_def)
    have "(k + i) mod 16384 = (k + (r - 49152 + 16384 * k - k)) mod 16384" by (simp add: i_def mod_simps)
    also have "k + (r - 49152 + 16384 * k - k) = r - 49152 + 16384 * k" by (simp add: k_def)
    also have "(r - 49152 + 16384 * k) mod 16384 = r - 49152"
      unfolding mod_mult_self2 using r by (auto intro!: mod_less)
    finally have "unat (port_after q (Suc i)) = r" using r by (simp add: port_after_unat k_def)
    with all [OF i] obtain l x b where "x \<in> set (F l)" "common st x = Some b" "unat (local_port b) = r"
      unfolding port_used_def by metis
    then show "r \<in> ?U" using all_lists by (intro image_eqI [of _ _ x]) auto
  qed
  moreover have fin: "finite ?U" by simp
  ultimately have "card {49152 ..< 65536 :: nat} \<le> card ?U" by (intro card_mono)
  also have "\<dots> \<le> card (\<Union>l \<in> set tcp_pcb_lists. set (F l))" by (rule card_image_le) simp
  also have "\<dots> \<le> (\<Sum>l \<in> set tcp_pcb_lists. card (set (F l)))" by (rule card_UN_le) simp
  also have "\<dots> \<le> (\<Sum>l \<in> set tcp_pcb_lists. 64)"
    using assms by (intro sum_mono order_trans [OF card_length]) (simp add: pcb_fuel_def)
  also have "\<dots> \<le> 256" by (simp add: tcp_pcb_lists_def)
  finally show False by simp
qed

text \<open>C7: \<^verbatim>\<open>tcp_new_port\<close> always finds a port: for lists as long as the pools allow it returns, after at most
  16384 rounds, a local port (\<open>0xc000\<close> or above) that no block in any of the lists uses.\<close>

theorem tcp_new_port_free:
  assumes "lists_repr st F" "\<forall>l. length (F l) \<le> pcb_fuel" "0xc000 \<le> tcp_port st"
  shows "\<exists>port. tcp_new_port st = Inr (port, st\<lparr>tcp_port := port\<rparr>) \<and> 0xc000 \<le> port \<and> \<not> port_used st F port"
proof -
  have "16384 - unat (0 :: u16) \<le> 16386" "unat (0 :: u16) < 16384" "st\<lparr>tcp_port := tcp_port st\<rparr> = st" by simp_all
  with new_port_loop_spec [OF assms(1-3), of 0 16386] obtain port r where
    r: "new_port_loop 16386 st 0 = Inr (port, st\<lparr>tcp_port := r\<rparr>)"
      "port \<noteq> 0 \<longrightarrow> port = r \<and> 0xc000 \<le> port \<and> \<not> port_used st F port"
      "port = 0 \<longrightarrow> (\<forall>i < 16384. port_used st F (port_after (tcp_port st) (Suc i)))" by auto
  then have "port \<noteq> 0" using ports_not_all_used [OF assms(2)] by metis
  with r(1,2) show ?thesis unfolding tcp_new_port_def by blast
qed

lemma sample_new_repr: "lists_repr sample_new (\<lambda>_. [])"
  unfolding lists_repr_def
proof (intro conjI allI impI)
  show "linked (next_of sample_new) (head_of sample_new l) []" for l
    by (cases l) (simp_all add: sample_new_def sample_start_def sample_tcp_def)
qed simp_all

theorem tcp_new_port_free_witness:
  "\<exists>port. tcp_new_port sample_new = Inr (port, sample_new\<lparr>tcp_port := port\<rparr>) \<and> 0xc000 \<le> port"
proof -
  have "0xc000 \<le> tcp_port sample_new" by (simp add: sample_new_def sample_start_def sample_tcp_def)
  from tcp_new_port_free [OF sample_new_repr _ this] show ?thesis by auto
qed

section \<open>Binding\<close>

text \<open>Is the address taken? \<^verbatim>\<open>IP_ADDR_ANY\<close>, on either side, covers every address.\<close>

definition addr_used :: "'a tcp_st_scheme \<Rightarrow> (pcb_list \<Rightarrow> addr list) \<Rightarrow> u32 \<Rightarrow> u16 \<Rightarrow> bool" where
  "addr_used st F ip port \<longleftrightarrow> (\<exists>l. \<exists>x \<in> set (F l). \<exists>b. common st x = Some b \<and> local_port b = port \<and>
     (local_ip b = IPADDR_ANY \<or> ip = IPADDR_ANY \<or> local_ip b = ip))"

lemma upd_common_total:
  assumes "common st p = Some b" "p \<noteq> 0"
    and "\<And>c. pcb_next (f c) = pcb_next c \<and> pcb_state (f c) = pcb_state c \<and> local_port (f c) = q"
    and "\<And>c. pcb_next (g c) = pcb_next c \<and> pcb_state (g c) = pcb_state c \<and> local_port (g c) = q"
  shows "\<exists>st'. upd_common st p f g = Inr st' \<and> next_of st' = next_of st \<and> head_of st' = head_of st
    \<and> info st' = (info st)(p \<mapsto> (tcp_pcbs st p = None, pcb_state b, q))"
proof -
  have "\<exists>st'. upd_common st p f g = Inr st' \<and> head_of st' = head_of st \<and> (\<forall>r. next_of st' r = next_of st r)
    \<and> (\<forall>r. info st' r = (if r = p then Some (tcp_pcbs st p = None, pcb_state b, q) else info st r))"
  proof (cases "tcp_pcbs st p")
    case (Some c)
    have "head_of (st\<lparr>tcp_pcbs := m\<rparr>) = head_of st" for m by (rule head_of_cong) simp_all
    then show ?thesis using Some assms
      by (auto simp: upd_common_def next_of_eq info_eq common_def pcb_common.truncate_def split: option.split)
  next
    case None
    have "head_of (st\<lparr>tcp_lpcbs := m\<rparr>) = head_of st" for m by (rule head_of_cong) simp_all
    then show ?thesis using None assms
      by (simp add: upd_common_def next_of_eq info_eq common_def split: option.split)
  qed
  then show ?thesis by (auto simp: fun_eq_iff)
qed

text \<open>C6: \<^verbatim>\<open>tcp_bind\<close> of a closed, unbound block to a port returns \<^verbatim>\<open>ERR_USE\<close> and changes nothing exactly when a block
  in one of the four lists has the port and a compatible address; otherwise it returns \<^verbatim>\<open>ERR_OK\<close>, the
  block has the port and is the first of the bound blocks.\<close>

theorem tcp_bind_correct:
  assumes F: "lists_repr st F" "\<forall>l. length (F l) \<le> pcb_fuel"
    and b: "common st p = Some b" "p \<noteq> 0" "pcb_state b = CLOSED" "\<forall>k. p \<notin> set (F k)" and port: "port \<noteq> 0"
  shows "if addr_used st F ip port then tcp_bind st p ip port = Inr (ERR_USE, st)
    else \<exists>st' b'. tcp_bind st p ip port = Inr (ERR_OK, st') \<and> lists_repr st' (F(L_bound := p # F L_bound)) \<and>
      common st' p = Some b' \<and> local_port b' = port \<and> pcb_state b' = CLOSED"
proof -
  have g: "get_common st p = Inr b" using b by (simp add: get_common_iff)
  have u: "bind_conflict st ip port tcp_pcb_lists = Inr (addr_used st F ip port)"
    using bind_conflict_spec [OF F, of ip port tcp_pcb_lists]
    by (simp add: addr_used_def Bex_def all_lists ip_addr_isany_def)
  let ?f = "\<lambda>c :: tcp_pcb. c\<lparr>local_ip := (if ip_addr_isany ip then local_ip c else ip), local_port := port\<rparr>"
  let ?g = "\<lambda>c :: tcp_pcb_listen. c\<lparr>local_ip := (if ip_addr_isany ip then local_ip c else ip), local_port := port\<rparr>"
  from upd_common_total [OF b(1,2), of ?f port ?g] obtain s where
    s: "upd_common st p ?f ?g = Inr s" "next_of s = next_of st" "head_of s = head_of st"
      "info s = (info st)(p \<mapsto> (tcp_pcbs st p = None, CLOSED, port))" using b(3) by auto
  have "dom (common s) = dom (common st)" using s(4) b(1) by (auto simp: dom_common_info info_def)
  then have "lists_repr s F" using F(1) s(2,3) by (simp add: lists_repr_def)
  then have "\<exists>s'. TCP_REG s L_bound p = Inr s' \<and> lists_repr s' (F(L_bound := p # F L_bound)) \<and> info s' = info s"
    by (rule pl.reg_law) (use s(4) b in simp_all)
  then obtain s' where s': "TCP_REG s L_bound p = Inr s'" "lists_repr s' (F(L_bound := p # F L_bound))" "info s' = info s" by blast
  have "info s' p = Some (tcp_pcbs st p = None, CLOSED, port)" using s'(3) s(4) by simp
  then obtain b' where "common s' p = Some b'" "local_port b' = port" "pcb_state b' = CLOSED" by (auto simp: info_def)
  moreover have "tcp_bind st p ip port = (if addr_used st F ip port then Inr (ERR_USE, st) else Inr (ERR_OK, s'))"
    using g b(3) port u s(1) s'(1) by (simp add: tcp_bind_def)
  ultimately show ?thesis using s'(2) by auto
qed

theorem tcp_bind_correct_witness:
  "\<exists>st' b'. tcp_bind sample_new 100 0 7 = Inr (ERR_OK, st') \<and> common st' 100 = Some b' \<and> local_port b' = 7"
proof -
  have b: "common sample_new 100 = Some (pcb_common.truncate sample_pcb)" by (simp add: common_def sample_new_def)
  have c: "pcb_state (pcb_common.truncate sample_pcb) = CLOSED" by (simp add: tcp_samples pcb_common.truncate_def)
  from tcp_bind_correct [OF sample_new_repr _ b _ c, of 7 0] show ?thesis by (auto simp: addr_used_def)
qed

section \<open>The receive window\<close>

text \<open>C15: The window that is announced never shrinks: the right edge announced next is not left of the last one
  (\<open>d\<close> bytes ahead of \<^verbatim>\<open>rcv_nxt\<close>), it is either that edge or the whole window, and when it moves it moves by
  at least the update threshold.\<close>

lemma sint_small: "- 2147483648 \<le> i \<Longrightarrow> i < 2147483648 \<Longrightarrow> sint (word_of_int i :: u32) = i"
  by (simp add: signed_of_int signed_take_bit_int_eq_self)

lemma sint_window: "sint (ucast x - (ucast y + ucast z) :: u32) = int (unat x) - (int (unat y) + int (unat z))"
  for x y z :: u16
proof -
  have "ucast x - (ucast y + ucast z) = (word_of_int (int (unat x) - (int (unat y) + int (unat z))) :: u32)" by simp
  moreover have "- 2147483648 \<le> int (unat x) - (int (unat y) + int (unat z))"
    "int (unat x) - (int (unat y) + int (unat z)) < 2147483648"
    using unat_u16_lt [of x] unat_u16_lt [of y] unat_u16_lt [of z] by linarith+
  ultimately show ?thesis by (simp only: sint_small)
qed

theorem rcv_window_never_shrinks:
  assumes "rcv_ann_right_edge c = rcv_nxt c + ucast (d :: u16)"
  shows "\<exists>infl w. tcp_update_rcv_ann_wnd c = (infl, c\<lparr>rcv_ann_wnd := w\<rparr>) \<and> d \<le> w \<and>
    (w = d \<and> infl = 0 \<or> w = rcv_wnd c \<and> unat d + unat (min (TCP_WND div 2) (mss c)) \<le> unat w \<and> infl = ucast (w - d))"
proof -
  let ?m = "min (TCP_WND div 2) (mss c)"
  have geq: "TCP_SEQ_GEQ (rcv_nxt c + ucast (rcv_wnd c)) (rcv_ann_right_edge c + ucast ?m) \<longleftrightarrow>
      unat d + unat ?m \<le> unat (rcv_wnd c)"
  proof -
    have "rcv_nxt c + ucast (rcv_wnd c) - (rcv_ann_right_edge c + ucast ?m) = ucast (rcv_wnd c) - (ucast d + ucast ?m)"
      unfolding assms by (simp only: algebra_simps add_diff_cancel_left)
    then show ?thesis unfolding TCP_SEQ_GEQ_def by (simp only: sint_window) linarith
  qed
  have gt: "\<not> TCP_SEQ_GT (rcv_nxt c) (rcv_ann_right_edge c)"
    using sint_window [of 0 d 0] unfolding TCP_SEQ_GT_def assms by simp
  have w: "ucast (rcv_ann_right_edge c - rcv_nxt c) = d"
    unfolding assms by (simp add: word_unat_eq_iff unsigned_ucast_eq take_bit_word_eq_self)
  show ?thesis
  proof (cases "unat d + unat ?m \<le> unat (rcv_wnd c)")
    case True
    then have "d \<le> rcv_wnd c" by (simp add: word_le_nat_alt)
    then have "rcv_nxt c + ucast (rcv_wnd c) - rcv_ann_right_edge c = ucast (rcv_wnd c - d)"
      unfolding assms by (simp add: word_unat_eq_iff word_le_nat_alt unat_sub)
    then have "tcp_update_rcv_ann_wnd c = (ucast (rcv_wnd c - d), c\<lparr>rcv_ann_wnd := rcv_wnd c\<rparr>)"
      using True geq by (simp add: tcp_update_rcv_ann_wnd_def Let_def)
    then show ?thesis using True \<open>d \<le> rcv_wnd c\<close> by blast
  next
    case False
    then have "tcp_update_rcv_ann_wnd c = (0, c\<lparr>rcv_ann_wnd := d\<rparr>)"
      using geq gt w by (simp add: tcp_update_rcv_ann_wnd_def Let_def)
    then show ?thesis by blast
  qed
qed

theorem rcv_window_never_shrinks_witness:
  "\<exists>infl w. tcp_update_rcv_ann_wnd (sample_pcb\<lparr>rcv_ann_right_edge := 1000\<rparr>) =
     (infl, sample_pcb\<lparr>rcv_ann_right_edge := 1000, rcv_ann_wnd := w\<rparr>) \<and> 1000 \<le> w"
proof -
  have "rcv_ann_right_edge (sample_pcb\<lparr>rcv_ann_right_edge := 1000\<rparr>)
      = rcv_nxt (sample_pcb\<lparr>rcv_ann_right_edge := 1000\<rparr>) + ucast (1000 :: u16)" by (simp add: tcp_samples)
  from rcv_window_never_shrinks [OF this] show ?thesis by auto
qed

section \<open>Timers\<close>

lemma fast_loop_handled:
  assumes "tcp_pcbs st p = Some c" "p \<noteq> 0" "last_timer c = tcp_timer_ctr st"
  shows "fast_loop fuel env st p = Inl Out_of_fuel"
  by (induction fuel) (use assms in \<open>simp_all add: get_pcb_def\<close>)

text \<open>C16: The fast timer never returns when a receive callback changes the list of active connections: the first
  connection has data that was refused, the callback takes it now and (by opening or aborting another
  connection) changes the list, and the loop starts again at the head \<open>q\<close>. A connection that was handled in
  this tick, or was just opened, has \<^verbatim>\<open>last_timer\<close> equal to \<^verbatim>\<open>tcp_timer_ctr\<close>, and the loop only steps to the
  next connection after handling one: no number of rounds is enough.\<close>

theorem tcp_fasttmr_hangs:
  assumes p: "tcp_active_pcbs st = p" "tcp_pcbs st p = Some c" "p \<noteq> 0"
    and c: "last_timer c \<noteq> tcp_timer_ctr st + 1" "pcb_flags c AND TF_ACK_DELAY = 0" "refused_data c \<noteq> 0"
    and b: "pbufs st (refused_data c) = Some b" "pb_flags b AND PBUF_FLAG_TCP_FIN = 0"
    and f: "recv_fn c \<noteq> FN_NULL" "recv_fn c \<noteq> FN_tcp_recv_null"
    and cb: "call_recv env (recv_fn c) (callback_arg c) p (refused_data c) ERR_OK
        (st\<lparr>tcp_timer_ctr := tcp_timer_ctr st + 1, tcp_active_pcbs_changed := 0,
            tcp_pcbs := (tcp_pcbs st)(p \<mapsto> c\<lparr>last_timer := tcp_timer_ctr st + 1, refused_data := 0\<rparr>)\<rparr>) = Inr (ERR_OK, st1)"
    and q: "tcp_active_pcbs_changed st1 \<noteq> 0" "tcp_active_pcbs st1 = q" "q \<noteq> 0" "tcp_pcbs st1 q = Some cq"
      "last_timer cq = tcp_timer_ctr st1"
  shows "\<forall>fuel. fast_loop fuel env (st\<lparr>tcp_timer_ctr := tcp_timer_ctr st + 1\<rparr>) p = Inl Out_of_fuel"
proof
  fix fuel
  let ?st = "st\<lparr>tcp_timer_ctr := tcp_timer_ctr st + 1\<rparr>"
  let ?c = "c\<lparr>last_timer := tcp_timer_ctr st + 1\<rparr>"
  define s1 where "s1 = (put_pcb ?st p ?c)\<lparr>tcp_active_pcbs_changed := 0\<rparr>"
  have st0: "put_pcb s1 p (?c\<lparr>refused_data := 0\<rparr>) = st\<lparr>tcp_timer_ctr := tcp_timer_ctr st + 1, tcp_active_pcbs_changed := 0,
            tcp_pcbs := (tcp_pcbs st)(p \<mapsto> c\<lparr>last_timer := tcp_timer_ctr st + 1, refused_data := 0\<rparr>)\<rparr>"
    by (simp add: put_pcb_def s1_def)
  have g: "get_pcb s1 p = Inr ?c" "get_pbuf s1 (refused_data c) = Inr b"
    using p b c(3) by (simp_all add: s1_def get_pcb_def get_pbuf_def)
  have "get_pcb (put_pcb s1 p (?c\<lparr>refused_data := 0\<rparr>)) p = Inr (?c\<lparr>refused_data := 0\<rparr>)" using p by (simp add: get_pcb_def)
  then have ev: "TCP_EVENT_RECV env (put_pcb s1 p (?c\<lparr>refused_data := 0\<rparr>)) p (refused_data c) ERR_OK = Inr (ERR_OK, st1)"
    using f cb by (simp add: TCP_EVENT_RECV_def st0)
  have r: "tcp_process_refused_data env s1 p = Inr (ERR_OK, st1)"
    unfolding tcp_process_refused_data_def using b(2) by (simp add: g ev)
  show "fast_loop fuel env ?st p = Inl Out_of_fuel"
  proof (cases fuel)
    case 0
    then show ?thesis using p by simp
  next
    case (Suc k)
    have g: "get_pcb ?st p = Inr c" "get_pcb (put_pcb ?st p ?c) p = Inr ?c" using p by (simp_all add: get_pcb_def)
    have "fast_loop (Suc k) env ?st p = fast_loop k env st1 q"
      using p c g r q(1,2) by (simp add: Let_def s1_def)
    then show ?thesis using Suc fast_loop_handled [OF q(4,3,5)] by simp
  qed
qed

theorem tcp_fasttmr_hangs_witness:
  "\<forall>fuel. fast_loop fuel (quiet_env\<lparr>call_recv := (\<lambda>_ _ _ _ _ s. Inr (ERR_OK, s\<lparr>tcp_active_pcbs_changed := 1\<rparr>))\<rparr>)
     ((sample_tcp Map.empty [200 \<mapsto> sample_pbuf 0 300 1 1 1]
        [100 \<mapsto> sample_pcb\<lparr>pcb_state := ESTABLISHED, refused_data := 200, recv_fn := FN_other 1\<rparr>])
        \<lparr>tcp_active_pcbs := 100, tcp_timer_ctr := 1\<rparr>) 100 = Inl Out_of_fuel"
proof -
  let ?c = "sample_pcb\<lparr>pcb_state := ESTABLISHED, refused_data := 200, recv_fn := FN_other 1\<rparr>"
  let ?st = "(sample_tcp Map.empty [200 \<mapsto> sample_pbuf 0 300 1 1 1] [100 \<mapsto> ?c])\<lparr>tcp_active_pcbs := 100\<rparr>"
  let ?env = "quiet_env\<lparr>call_recv := (\<lambda>_ _ _ _ _ s. Inr (ERR_OK, s\<lparr>tcp_active_pcbs_changed := 1\<rparr>))\<rparr> :: tcp_st tcp_env"
  have p: "tcp_active_pcbs ?st = 100" "tcp_pcbs ?st 100 = Some ?c" "(100 :: addr) \<noteq> 0" by (simp_all add: sample_tcp_def)
  have c: "last_timer ?c \<noteq> tcp_timer_ctr ?st + 1" "pcb_flags ?c AND TF_ACK_DELAY = 0" "refused_data ?c \<noteq> 0"
    by (simp_all add: tcp_samples)
  have b: "pbufs ?st (refused_data ?c) = Some (sample_pbuf 0 300 1 1 1)"
    "pb_flags (sample_pbuf 0 300 1 1 1) AND PBUF_FLAG_TCP_FIN = 0" by (simp_all add: sample_tcp_def sample_pbuf_def)
  have f: "recv_fn ?c \<noteq> FN_NULL" "recv_fn ?c \<noteq> FN_tcp_recv_null" by simp_all
  let ?s0 = "?st\<lparr>tcp_timer_ctr := tcp_timer_ctr ?st + 1, tcp_active_pcbs_changed := 0,
            tcp_pcbs := (tcp_pcbs ?st)(100 \<mapsto> ?c\<lparr>last_timer := tcp_timer_ctr ?st + 1, refused_data := 0\<rparr>)\<rparr>"
  have cb: "call_recv ?env (recv_fn ?c) (callback_arg ?c) 100 (refused_data ?c) ERR_OK ?s0
      = Inr (ERR_OK, ?s0\<lparr>tcp_active_pcbs_changed := 1\<rparr>)" by (simp add: quiet_env_def)
  have t: "tcp_timer_ctr ?st + 1 = 1" by (simp add: sample_tcp_def)
  from tcp_fasttmr_hangs [OF p c b f cb, of 100 "?c\<lparr>last_timer := tcp_timer_ctr ?st + 1, refused_data := 0\<rparr>"] p(1)
  show ?thesis unfolding t by simp
qed

text \<open>A connection stays in \<^verbatim>\<open>TIME-WAIT\<close> for 240 ticks of 500 ms, twice the maximum segment lifetime.\<close>

definition tw_stays :: "'a tcp_st_scheme \<Rightarrow> addr \<Rightarrow> bool" where
  "tw_stays st x \<longleftrightarrow> (case tcp_pcbs st x of Some c \<Rightarrow> tcp_ticks st - tmr c \<le> 240 | None \<Rightarrow> False)"

lemma lists_repr_free:
  assumes "lists_repr s F" "\<forall>k. p \<notin> set (F k)"
  shows "lists_repr (free_pcb s p) F"
proof -
  have n: "next_of (free_pcb s p) x = next_of s x" "common (free_pcb s p) x = common s x" if "x \<noteq> p" for x
    using that by (simp_all add: next_of_eq common_def free_pcb_def split: option.split)
  have h: "head_of (free_pcb s p) = head_of s" by (rule head_of_cong) (simp_all add: free_pcb_def)
  have "linked (next_of (free_pcb s p)) (head_of s l) (F l)" for l
    using lists_reprD(1) [OF assms(1), of l] assms(2) n(1) linked_cong [of "F l" "next_of (free_pcb s p)" "next_of s"] by metis
  moreover have "set (F l) \<subseteq> dom (common (free_pcb s p))" for l
    using lists_reprD(3) [OF assms(1), of _ l] assms(2) n(2) by (metis domIff subsetI)
  ultimately show ?thesis using assms(1) unfolding lists_repr_def h by blast
qed

lemma unchained_stays: "unchained st' = unchained st \<Longrightarrow> tw_stays st' = tw_stays st"
proof
  fix x
  assume u: "unchained st' = unchained st"
  then have "map_option (\<lambda>c. c\<lparr>pcb_next := 0\<rparr>) (tcp_pcbs st' x) = map_option (\<lambda>c. c\<lparr>pcb_next := 0\<rparr>) (tcp_pcbs st x)"
    by (simp add: unchained_def fun_eq_iff)
  then have "map_option tmr (tcp_pcbs st' x) = map_option tmr (tcp_pcbs st x)"
    by (cases "tcp_pcbs st' x"; cases "tcp_pcbs st x") (auto dest: arg_cong [of _ _ tmr])
  moreover have "tcp_ticks st' = tcp_ticks st" using u by (simp add: unchained_def)
  ultimately show "tw_stays st' x = tw_stays st x" by (auto simp: tw_stays_def split: option.splits)
qed

lemma unchained_state:
  assumes "unchained st' = unchained st" "tcp_pcbs st x = Some c"
  shows "\<exists>c'. tcp_pcbs st' x = Some c' \<and> pcb_state c' = pcb_state c"
proof -
  have "map_option (\<lambda>c. c\<lparr>pcb_next := 0\<rparr>) (tcp_pcbs st' x) = Some (c\<lparr>pcb_next := 0\<rparr>)"
    using fun_cong [of _ _ x, OF arg_cong [of _ _ fst, OF assms(1)]] assms(2) by (simp add: unchained_def)
  then show ?thesis by (auto dest: arg_cong [of _ _ pcb_state])
qed

lemma tw_limit: "2 * TCP_MSL div TCP_SLOW_INTERVAL = 240"
  by (simp add: TCP_MSL_def TCP_SLOW_INTERVAL_def)

lemma slow_tw_spec:
  assumes "lists_repr st F" "F L_tw = ys @ zs" "length zs \<le> fuel"
    and "\<forall>x \<in> set zs. \<exists>c. tcp_pcbs st x = Some c \<and> pcb_state c = TIME_WAIT"
  shows "\<exists>st'. slow_tw fuel st (if ys = [] then 0 else last ys) (case zs of [] \<Rightarrow> 0 | z # _ \<Rightarrow> z) = Inr st' \<and>
    lists_repr st' (F(L_tw := ys @ filter (tw_stays st) zs)) \<and>
    (\<forall>x \<in> set zs. \<not> tw_stays st x \<longrightarrow> tcp_pcbs st' x = None) \<and>
    (\<forall>x. x \<notin> set zs \<longrightarrow> tcp_pcbs st x = None \<longrightarrow> tcp_pcbs st' x = None)"
  using assms
proof (induction zs arbitrary: fuel st F ys)
  case Nil
  have "F(L_tw := ys) = F" using Nil.prems(2) by auto
  then show ?case using Nil.prems(1) by (intro exI [of _ st]) (cases fuel; simp)
next
  case (Cons p zs)
  from Cons.prems(3) obtain k where fuel: "fuel = Suc k" "length zs \<le> k" by (cases fuel) auto
  from Cons.prems(4) obtain c where c: "tcp_pcbs st p = Some c" "pcb_state c = TIME_WAIT" by auto
  have pin: "p \<in> set (F L_tw)" using Cons.prems(2) by simp
  have p0: "p \<noteq> 0" using lists_repr_nonzero [OF Cons.prems(1), of L_tw] pin by metis
  have g: "get_pcb st p = Inr c" using c p0 by (simp add: get_pcb_iff)
  have nx: "pcb_next c = (case zs of [] \<Rightarrow> 0 | z # _ \<Rightarrow> z)"
    using linked_append_head [of "next_of st" "head_of st L_tw" ys p zs] lists_reprD(1) [OF Cons.prems(1), of L_tw]
      Cons.prems(2) c by (simp add: next_of_eq)
  have d: "distinct (ys @ p # zs)" using lists_reprD(2) [OF Cons.prems(1), of L_tw] Cons.prems(2) by simp
  show ?case
  proof (cases "tw_stays st p")
    case True
    have "\<not> 240 < tcp_ticks st - tmr c" using True c by (simp add: tw_stays_def not_less)
    then have step: "slow_tw fuel st (if ys = [] then 0 else last ys) p = slow_tw k st p (case zs of [] \<Rightarrow> 0 | z # _ \<Rightarrow> z)"
      using fuel g nx p0 by (simp add: tw_limit)
    have "F L_tw = (ys @ [p]) @ zs" using Cons.prems(2) by simp
    moreover have "\<forall>x \<in> set zs. \<exists>c. tcp_pcbs st x = Some c \<and> pcb_state c = TIME_WAIT" using Cons.prems(4) by simp
    ultimately obtain st' where
      st': "slow_tw k st (if ys @ [p] = [] then 0 else last (ys @ [p])) (case zs of [] \<Rightarrow> 0 | z # _ \<Rightarrow> z) = Inr st'"
        "lists_repr st' (F(L_tw := (ys @ [p]) @ filter (tw_stays st) zs))"
        "\<forall>x \<in> set zs. \<not> tw_stays st x \<longrightarrow> tcp_pcbs st' x = None"
        "\<forall>x. x \<notin> set zs \<longrightarrow> tcp_pcbs st x = None \<longrightarrow> tcp_pcbs st' x = None"
      using Cons.IH [OF Cons.prems(1) _ fuel(2)] by blast
    have "(ys @ [p]) @ filter (tw_stays st) zs = ys @ filter (tw_stays st) (p # zs)" using True by simp
    with st' True show ?thesis unfolding list.case step by (intro exI [of _ st']) (simp only:, simp)
  next
    case False
    have old: "240 < tcp_ticks st - tmr c" using False c by (simp add: tw_stays_def not_le)
    have pu: "tcp_pcb_purge st p = Inr st"
      using c p0 by (simp add: tcp_pcb_purge_def get_common_def pcb_common.truncate_def)
    from unlink_after_spec [OF Cons.prems(1,2) refl] obtain s where
      s: "unlink_after st L_tw (if ys = [] then 0 else last ys) p = Inr ((case zs of [] \<Rightarrow> 0 | z # _ \<Rightarrow> z), s)"
        "lists_repr s (F(L_tw := ys @ zs))" "info s = info st" "unchained s = unchained st" by blast
    let ?s = "free_pcb s p" and ?F = "F(L_tw := ys @ zs)"
    have step: "slow_tw fuel st (if ys = [] then 0 else last ys) p
        = slow_tw k ?s (if ys = [] then 0 else last ys) (case zs of [] \<Rightarrow> 0 | z # _ \<Rightarrow> z)"
      using fuel g p0 pu s(1) old by (simp add: tw_limit)
    have "p \<notin> set (?F l)" for l
      using d lists_reprD(4) [OF Cons.prems(1), of l L_tw] pin by (cases "l = L_tw") auto
    then have r: "lists_repr ?s ?F" using lists_repr_free [OF s(2)] by blast
    have stays: "tw_stays ?s x = tw_stays st x" if "x \<noteq> p" for x
    proof -
      have "tw_stays ?s x = tw_stays s x" using that by (simp add: tw_stays_def free_pcb_def cong: option.case_cong)
      then show ?thesis using unchained_stays [OF s(4)] by simp
    qed
    have tw: "\<forall>x \<in> set zs. \<exists>c. tcp_pcbs ?s x = Some c \<and> pcb_state c = TIME_WAIT"
    proof
      fix x
      assume x: "x \<in> set zs"
      with Cons.prems(4) obtain cx where cx: "tcp_pcbs st x = Some cx" "pcb_state cx = TIME_WAIT" by auto
      have "x \<noteq> p" using x d by auto
      then show "\<exists>c. tcp_pcbs ?s x = Some c \<and> pcb_state c = TIME_WAIT"
        using unchained_state [OF s(4) cx(1)] cx(2) by (simp add: free_pcb_def)
    qed
    have "?F L_tw = ys @ zs" by simp
    from Cons.IH [OF r this fuel(2) tw] obtain st' where
      st': "slow_tw k ?s (if ys = [] then 0 else last ys) (case zs of [] \<Rightarrow> 0 | z # _ \<Rightarrow> z) = Inr st'"
        "lists_repr st' (?F(L_tw := ys @ filter (tw_stays ?s) zs))"
        "\<forall>x \<in> set zs. \<not> tw_stays ?s x \<longrightarrow> tcp_pcbs st' x = None"
        "\<forall>x. x \<notin> set zs \<longrightarrow> tcp_pcbs ?s x = None \<longrightarrow> tcp_pcbs st' x = None" by blast
    have eq: "filter (tw_stays ?s) zs = filter (tw_stays st) (p # zs)"
    proof -
      have "filter (tw_stays ?s) zs = filter (tw_stays st) zs" by (rule filter_cong) (use d stays in force)+
      then show ?thesis using False by simp
    qed
    have none: "tcp_pcbs ?s x = None" if "x = p \<or> tcp_pcbs st x = None" for x
      using that fun_cong [of _ _ x, OF arg_cong [of _ _ fst, OF s(4)]] by (auto simp: unchained_def free_pcb_def)
    have "\<forall>x \<in> set (p # zs). \<not> tw_stays st x \<longrightarrow> tcp_pcbs st' x = None"
      using st'(3,4) stays none d by (metis distinct.simps(2) distinct_append set_ConsD)
    moreover have "lists_repr st' (F(L_tw := ys @ filter (tw_stays st) (p # zs)))"
      using st'(2) unfolding fun_upd_upd eq .
    moreover have "\<forall>x. x \<notin> set (p # zs) \<longrightarrow> tcp_pcbs st x = None \<longrightarrow> tcp_pcbs st' x = None"
      using st'(4) none by simp
    moreover have "slow_tw fuel st (if ys = [] then 0 else last ys) (case p # zs of [] \<Rightarrow> 0 | z # _ \<Rightarrow> z) = Inr st'"
      using step st'(1) by simp
    ultimately show ?thesis by blast
  qed
qed

text \<open>C14: The slow timer frees exactly the connections in \<^verbatim>\<open>TIME-WAIT\<close> that have been there for more than 240
  ticks, and leaves the others in their list in the same order; it returns for lists as long as the pools
  allow.\<close>

theorem slow_tw_correct:
  assumes "lists_repr st F" "length (F L_tw) \<le> pcb_fuel"
    and "\<forall>x \<in> set (F L_tw). \<exists>c. tcp_pcbs st x = Some c \<and> pcb_state c = TIME_WAIT"
  shows "\<exists>st'. slow_tw pcb_fuel st 0 (tcp_tw_pcbs st) = Inr st' \<and>
    lists_repr st' (F(L_tw := filter (tw_stays st) (F L_tw))) \<and>
    (\<forall>x \<in> set (F L_tw). \<not> tw_stays st x \<longrightarrow> tcp_pcbs st' x = None)"
proof -
  have "tcp_tw_pcbs st = (case F L_tw of [] \<Rightarrow> 0 | z # _ \<Rightarrow> z)"
    using lists_reprD(1) [OF assms(1), of L_tw] by (cases "F L_tw") auto
  with slow_tw_spec [OF assms(1) _ assms(2,3), of "[]"] show ?thesis by auto
qed

theorem slow_tw_correct_witness:
  "\<exists>st'. slow_tw pcb_fuel ((sample_tcp Map.empty Map.empty [100 \<mapsto> sample_pcb\<lparr>pcb_state := TIME_WAIT\<rparr>])
       \<lparr>tcp_tw_pcbs := 100, tcp_ticks := 241\<rparr>) 0 100 = Inr st' \<and> tcp_pcbs st' 100 = None"
proof -
  let ?st = "(sample_tcp Map.empty Map.empty [100 \<mapsto> sample_pcb\<lparr>pcb_state := TIME_WAIT\<rparr>])\<lparr>tcp_tw_pcbs := 100, tcp_ticks := 241\<rparr>"
  let ?F = "(\<lambda>_. [])(L_tw := [100])"
  have "linked (next_of ?st) (head_of ?st l) (?F l)" for l
    by (cases l) (simp_all add: next_of_eq tcp_samples)
  then have r: "lists_repr ?st ?F" by (auto simp: lists_repr_def common_def sample_tcp_def)
  have "\<forall>x \<in> set (?F L_tw). \<exists>c. tcp_pcbs ?st x = Some c \<and> pcb_state c = TIME_WAIT" by (simp add: sample_tcp_def)
  moreover have "tcp_tw_pcbs ?st = 100" by (simp add: sample_tcp_def)
  moreover have "length (?F L_tw) \<le> pcb_fuel" by (simp add: pcb_fuel_def)
  moreover have "\<not> tw_stays ?st 100" by (simp add: tw_stays_def tcp_samples)
  ultimately show ?thesis using slow_tw_correct [OF r] by (metis fun_upd_same list.set_intros(1))
qed

end
