(* ===== verification/SeqSend.thy ===== *)
theory SeqSend
  imports Tcp
begin

text \<open>
  The sequence service: \<^verbatim>\<open>echo_server/src/seq_send.c\<close>. A connection on port 8 delivers packets;
  each is cut into big-endian 32-bit words, the last one padded with \<^verbatim>\<open>0xFF\<close>, and the words are
  printed. The record \<open>app_st\<close> has the static variables of \<^verbatim>\<open>seq_send.c\<close> and \<^verbatim>\<open>data_send.c\<close>
  and the console.
\<close>

section \<open>State of the application\<close>

record app_st = tcp_st +
  seq_port :: u32
  seq_port_running :: u32
  seq_connection :: u32
  data_port :: u32
  data_port_running :: u32
  data_connection :: u32
  out :: console

definition xil_printf :: "'a app_st_scheme \<Rightarrow> string \<Rightarrow> u32 list \<Rightarrow> 'a app_st_scheme" where
  "xil_printf st fmt args = st\<lparr>out := out st @ [Printf fmt args]\<rparr>"

definition NL :: string where "NL = [CHR 0x0A]"
definition NL_CR :: string where "NL_CR = [CHR 0x0A, CHR 0x0D]"

section \<open>Receiving\<close>

definition EXCESS :: u32 where "EXCESS = 0xFF"

definition transfer_seq :: int where "transfer_seq = 0"

definition print_seq_header :: "'a app_st_scheme \<Rightarrow> 'a app_st_scheme" where
  "print_seq_header st = xil_printf st (''Attempting to send sequence packets'' @ NL) []"

text \<open>\<open>packet[i]\<close>, as it is promoted for a shift.\<close>

definition pk :: "memory \<Rightarrow> addr \<Rightarrow> nat \<Rightarrow> u32 res" where
  "pk m packet i = rbind (rd8 m (packet + i)) (\<lambda>b. Inr (ucast b))"

text \<open>The word of the loop body at \<open>i\<close>: the last word of a packet is filled up with \<open>EXCESS\<close>.\<close>

definition packet_word :: "memory \<Rightarrow> addr \<Rightarrow> nat \<Rightarrow> nat \<Rightarrow> u32 res" where
  "packet_word m packet len i =
     (if len < i + 4 then
        let num_Excess = 4 - len mod 4 in
        if num_Excess = 1 then
          rbind (pk m packet i) (\<lambda>a. rbind (pk m packet (i + 1)) (\<lambda>b. rbind (pk m packet (i + 2)) (\<lambda>c.
            Inr (push_bit 24 a OR push_bit 16 b OR push_bit 8 c OR EXCESS))))
        else if num_Excess = 2 then
          rbind (pk m packet i) (\<lambda>a. rbind (pk m packet (i + 1)) (\<lambda>b.
            Inr (push_bit 24 a OR push_bit 16 b OR push_bit 8 EXCESS OR EXCESS)))
        else
          rbind (pk m packet i) (\<lambda>a.
            Inr (push_bit 24 a OR push_bit 16 EXCESS OR push_bit 8 EXCESS OR EXCESS))
      else
        rbind (pk m packet i) (\<lambda>a. rbind (pk m packet (i + 1)) (\<lambda>b.
        rbind (pk m packet (i + 2)) (\<lambda>c. rbind (pk m packet (i + 3)) (\<lambda>d.
          Inr (push_bit 24 a OR push_bit 16 b OR push_bit 8 c OR d))))))"

function seq_loop :: "'a app_st_scheme \<Rightarrow> addr \<Rightarrow> nat \<Rightarrow> nat \<Rightarrow> 'a app_st_scheme res" where
  "seq_loop st packet len i =
     (if i < len then
        rbind (packet_word (bytes st) packet len i) (\<lambda>packetSeq.
          seq_loop (xil_printf st (''%08x'' @ NL) [packetSeq]) packet len (i + 4))
      else Inr st)"
  by pat_completeness auto
termination by (relation "measure (\<lambda>(st, packet, len, i). len - i)") auto

declare seq_loop.simps [simp del]

text \<open>\<open>len\<close> is a \<^verbatim>\<open>u8_t\<close>: the length of the packet modulo 256.\<close>

definition seq_recv_callback ::
  "('a app_st_scheme) ip_env \<Rightarrow> 'a app_st_scheme \<Rightarrow> u32 \<Rightarrow> addr \<Rightarrow> addr \<Rightarrow> err_t \<Rightarrow> (err_t \<times> 'a app_st_scheme) res" where
  "seq_recv_callback env st arg tpcb p err =
     (if p = 0 then
        rbind (tcp_close env st tpcb) (\<lambda>(_, st1).
        rbind (tcp_recv st1 tpcb FN_NULL) (\<lambda>st2. Inr (ERR_OK, st2)))
      else
        rbind (get_pbuf st p) (\<lambda>b0.
        rbind (tcp_recved env st tpcb (tot_len b0)) (\<lambda>st1.
        rbind (get_pbuf st1 p) (\<lambda>b.
          let len = (ucast (tot_len b) :: u8); packet = payload b in
          rbind (seq_loop st1 packet (unat len) 0) (\<lambda>st2.
          rbind (pbuf_free st2 p) (\<lambda>(_, st3). Inr (ERR_OK, st3)))))))"

definition seq_accept_callback ::
  "'a app_st_scheme \<Rightarrow> u32 \<Rightarrow> addr \<Rightarrow> err_t \<Rightarrow> (err_t \<times> 'a app_st_scheme) res" where
  "seq_accept_callback st arg newpcb err =
     rbind (tcp_recv st newpcb FN_seq_recv_callback) (\<lambda>st1.
     rbind (tcp_arg st1 newpcb (seq_connection st1)) (\<lambda>st2.
       Inr (ERR_OK, st2\<lparr>seq_connection := seq_connection st2 + 1\<rparr>)))"

section \<open>Starting\<close>

definition TCP_DEFAULT_LISTEN_BACKLOG :: u8 where "TCP_DEFAULT_LISTEN_BACKLOG = 0xff"

definition IP_ADDR_ANY :: u32 where "IP_ADDR_ANY = 0"

definition start_seqSend :: "('a app_st_scheme) tcp_env \<Rightarrow> 'a app_st_scheme \<Rightarrow> (int \<times> 'a app_st_scheme) res" where
  "start_seqSend env st =
     rbind (tcp_new env st) (\<lambda>(pcb, st1).
       if pcb = 0 then Inr (- 1, xil_printf st1 (''Error creating PCB. Out of Memory'' @ NL_CR) [])
       else rbind (tcp_bind st1 pcb IP_ADDR_ANY (ucast (seq_port st1))) (\<lambda>(err, st2).
         if err \<noteq> ERR_OK then
           Inr (- 2, xil_printf st2 (''Unable to bind to port %d: err = %d'' @ NL_CR)
                       [seq_port st2, of_int (err_code err)])
         else rbind (tcp_arg st2 pcb 0) (\<lambda>st3.
           rbind (tcp_listen_with_backlog st3 pcb TCP_DEFAULT_LISTEN_BACKLOG) (\<lambda>(lpcb, st4).
             if lpcb = 0 then Inr (- 3, xil_printf st4 (''Out of memory while tcp_listen'' @ NL_CR) [])
             else
               rbind (tcp_accept (xil_printf st4 (''TCP echo server started @ port %d'' @ NL_CR) [seq_port st4])
                        lpcb FN_seq_accept_callback) (\<lambda>st5.
                 Inr (0, st5\<lparr>seq_port_running := 1\<rparr>))))))"

section \<open>What a packet is cut into\<close>

text \<open>
  The specification: the packet is filled up with \<^verbatim>\<open>0xFF\<close> to a multiple of four bytes, and every
  group of four is a big-endian number.
\<close>

definition pad4 :: "u8 list \<Rightarrow> u8 list" where
  "pad4 bs = bs @ replicate ((4 - length bs mod 4) mod 4) 0xFF"

definition be_word :: "u8 \<Rightarrow> u8 \<Rightarrow> u8 \<Rightarrow> u8 \<Rightarrow> u32" where
  "be_word a b c d = of_nat (unat a * 2 ^ 24 + unat b * 2 ^ 16 + unat c * 2 ^ 8 + unat d)"

fun be_words :: "u8 list \<Rightarrow> u32 list" where
  "be_words (a # b # c # d # bs) = be_word a b c d # be_words bs"
| "be_words _ = []"

lemma shift_or_be_word:
  "push_bit 24 (ucast a) OR push_bit 16 (ucast b) OR push_bit 8 (ucast c) OR ucast d = be_word a b c d"
proof -
  have "push_bit 24 (ucast a) OR push_bit 16 (ucast b) OR push_bit 8 (ucast c) OR ucast d
      = (push_bit 24 (ucast a) + push_bit 16 (ucast b) + push_bit 8 (ucast c) + ucast d :: u32)"
  proof -
    have 1: "(push_bit 8 (ucast c) OR ucast d :: u32) = push_bit 8 (ucast c) + ucast d"
      by (rule disjunctive_add [symmetric]) (auto simp: bit_simps dest: bit_imp_le_length)
    have 2: "(push_bit 16 (ucast b) OR push_bit 8 (ucast c) OR ucast d :: u32)
       = push_bit 16 (ucast b) + (push_bit 8 (ucast c) OR ucast d)"
      by (rule disjunctive_add [symmetric]) (auto simp: bit_simps dest: bit_imp_le_length)
    have 3: "(push_bit 24 (ucast a) OR push_bit 16 (ucast b) OR push_bit 8 (ucast c) OR ucast d :: u32)
       = push_bit 24 (ucast a) + (push_bit 16 (ucast b) OR push_bit 8 (ucast c) OR ucast d)"
      by (rule disjunctive_add [symmetric]) (auto simp: bit_simps dest: bit_imp_le_length)
    show ?thesis unfolding 3 unfolding 2 unfolding 1 by (simp only: add.assoc)
  qed
  then show ?thesis by (simp add: be_word_def push_bit_eq_mult add.assoc)
qed

lemma EXCESS_ucast: "EXCESS = ucast (0xFF :: u8)"
  by (simp add: EXCESS_def)

lemma shift_or_excess:
  "push_bit 24 (ucast a) OR push_bit 16 (ucast b) OR push_bit 8 (ucast c) OR EXCESS = be_word a b c 0xFF"
  "push_bit 24 (ucast a) OR push_bit 16 (ucast b) OR push_bit 8 EXCESS OR EXCESS = be_word a b 0xFF 0xFF"
  "push_bit 24 (ucast a) OR push_bit 16 EXCESS OR push_bit 8 EXCESS OR EXCESS = be_word a 0xFF 0xFF 0xFF"
  unfolding EXCESS_ucast by (rule shift_or_be_word)+

lemma be_words_pad4_short:
  "be_words (pad4 [a]) = [be_word a 0xFF 0xFF 0xFF]"
  "be_words (pad4 [a, b]) = [be_word a b 0xFF 0xFF]"
  "be_words (pad4 [a, b, c]) = [be_word a b c 0xFF]"
proof -
  have r: "replicate 3 x = [x, x, x]" "replicate 2 x = [x, x]" for x :: u8
    by (simp_all add: numeral_3_eq_3 numeral_2_eq_2)
  show "be_words (pad4 [a]) = [be_word a 0xFF 0xFF 0xFF]"
    "be_words (pad4 [a, b]) = [be_word a b 0xFF 0xFF]"
    "be_words (pad4 [a, b, c]) = [be_word a b c 0xFF]"
    by (simp_all add: pad4_def r)
qed

lemma be_words_pad4_long: "be_words (pad4 (a # b # c # d # bs)) = be_word a b c d # be_words (pad4 bs)"
  by (simp add: pad4_def)

lemma pk_holds: "holds m p bs \<Longrightarrow> i < length bs \<Longrightarrow> pk m p i = Inr (ucast (bs ! i))"
  by (simp add: pk_def holds_rd8)

definition seq_line :: "u32 \<Rightarrow> print_call" where "seq_line w = Printf (''%08x'' @ NL) [w]"

lemma seq_loop_spec:
  assumes "holds (bytes st) p (xs @ bs)" "4 dvd length xs"
  shows "seq_loop st p (length (xs @ bs)) (length xs)
       = Inr (st\<lparr>out := out st @ map seq_line (be_words (pad4 bs))\<rparr>)"
  using assms
proof (induction "length bs" arbitrary: st xs bs rule: less_induct)
  case less
  note h = less.prems(1)
  obtain k where k: "length xs = 4 * k" using less.prems(2) by blast
  have pk: "pk (bytes st) p (length xs + j) = Inr (ucast (bs ! j))" if "j < length bs" for j
    using pk_holds [OF h, of "length xs + j"] that by simp
  have m4: "Suc (4 * k) mod 4 = 1" "Suc (Suc (4 * k)) mod 4 = 2" "Suc (Suc (Suc (4 * k))) mod 4 = 3"
    by presburger+
  consider "bs = []" | a where "bs = [a]" | a b where "bs = [a, b]" | a b c where "bs = [a, b, c]"
    | a b c d cs where "bs = a # b # c # d # cs"
    by (metis (no_types, opaque_lifting) list.exhaust)
  then show ?case
  proof cases
    case 1
    then show ?thesis by (subst seq_loop.simps) (simp add: pad4_def)
  next
    case 2
    have "packet_word (bytes st) p (length (xs @ bs)) (length xs) = Inr (be_word a 0xFF 0xFF 0xFF)"
      using pk [of 0] 2 by (simp add: packet_word_def k shift_or_excess m4)
    then show ?thesis using 2
      by (subst seq_loop.simps) (subst seq_loop.simps, simp add: be_words_pad4_short xil_printf_def seq_line_def)
  next
    case 3
    have "packet_word (bytes st) p (length (xs @ bs)) (length xs) = Inr (be_word a b 0xFF 0xFF)"
      using pk [of 0] pk [of 1] 3 by (simp add: packet_word_def k shift_or_excess m4)
    then show ?thesis using 3
      by (subst seq_loop.simps) (subst seq_loop.simps, simp add: be_words_pad4_short xil_printf_def seq_line_def)
  next
    case 4
    have "packet_word (bytes st) p (length (xs @ bs)) (length xs) = Inr (be_word a b c 0xFF)"
      using pk [of 0] pk [of 1] pk [of 2] 4 by (simp add: packet_word_def k shift_or_excess m4)
    then show ?thesis using 4
      by (subst seq_loop.simps) (subst seq_loop.simps, simp add: be_words_pad4_short xil_printf_def seq_line_def)
  next
    case 5
    have w: "packet_word (bytes st) p (length (xs @ bs)) (length xs) = Inr (be_word a b c d)"
      using pk [of 0] pk [of 1] pk [of 2] pk [of 3] 5 by (simp add: packet_word_def shift_or_be_word)
    let ?st = "xil_printf st (''%08x'' @ NL) [be_word a b c d]" and ?xs = "xs @ [a, b, c, d]"
    have "seq_loop ?st p (length (?xs @ cs)) (length ?xs)
        = Inr (?st\<lparr>out := out ?st @ map seq_line (be_words (pad4 cs))\<rparr>)"
    proof (rule less.hyps)
      show "length cs < length bs" using 5 by simp
      show "holds (bytes ?st) p (?xs @ cs)" using h 5 by (simp add: xil_printf_def)
      show "4 dvd length ?xs" using less.prems(2) by simp presburger
    qed
    moreover have n4: "length xs + 4 = Suc (Suc (Suc (Suc (length xs))))" by simp
    ultimately show ?thesis using w 5
      by (subst seq_loop.simps) (simp add: be_words_pad4_long xil_printf_def seq_line_def n4)
  qed
qed

section \<open>The receive callback\<close>

text \<open>
  A packet is small enough for the window when taking it does not make the stack announce the window
  on its own: the announced right edge is in step with the window, and the packet is shorter than the
  update threshold (\<open>TCP_WND / 2\<close> or the segment size).
\<close>

definition quiet_window :: "tcp_pcb \<Rightarrow> u16 \<Rightarrow> bool" where
  "quiet_window c len \<longleftrightarrow>
     rcv_nxt c + ucast (rcv_wnd c) = rcv_ann_right_edge c \<and>
     unat (rcv_wnd c) + unat len \<le> 2048 \<and> unat len < min 1024 (unat (mss c))"

lemma sint_u32_neg:
  assumes "a < b" "b \<le> 2 ^ 31"
  shows "sint (word_of_nat a - word_of_nat b :: u32) = int a - int b"
proof -
  have "word_of_nat a - word_of_nat b = (word_of_int (int a - int b) :: u32)" by simp
  moreover have "- (2 ^ 31) \<le> int a - int b" "int a - int b < 2 ^ 31" using assms by auto
  ultimately show ?thesis by (simp add: signed_of_int signed_take_bit_int_eq_self del: of_int_diff)
qed

lemma quiet_no_update:
  assumes "quiet_window c len"
  shows "\<exists>w. tcp_update_rcv_ann_wnd (c\<lparr>rcv_wnd := rcv_wnd c + len\<rparr>)
    = (0, c\<lparr>rcv_wnd := rcv_wnd c + len, rcv_ann_wnd := w\<rparr>)"
proof -
  let ?c = "c\<lparr>rcv_wnd := rcv_wnd c + len\<rparr>"
  let ?m = "min (TCP_WND div 2) (mss c)"
  from assms have b: "unat (rcv_wnd c) + unat len \<le> 2048" and edge: "rcv_nxt c + ucast (rcv_wnd c) = rcv_ann_right_edge c"
    and l: "unat len < min 1024 (unat (mss c))" by (simp_all add: quiet_window_def)
  have m: "unat ?m = min 1024 (unat (mss c))" by (simp add: TCP_WND_def min_def word_le_nat_alt)
  have "ucast (rcv_wnd c + len) = (ucast (rcv_wnd c) + ucast len :: u32)"
  proof (rule word_unat_eq_iff [THEN iffD2])
    have "unat (rcv_wnd c + len) = unat (rcv_wnd c) + unat len" using b by (simp add: unat_word_ariths)
    then show "unat (ucast (rcv_wnd c + len) :: u32) = unat (ucast (rcv_wnd c) + ucast len :: u32)"
      using b by (simp add: unat_word_ariths)
  qed
  then have e: "rcv_nxt c + ucast (rcv_wnd c + len) - (rcv_ann_right_edge c + ucast ?m) = ucast len - ucast ?m"
    using edge by (simp add: algebra_simps)
  have gen: "sint (ucast x - ucast y :: u32) = int (unat x) - int (unat y)" if "unat x < unat y" for x y :: u16
    using sint_u32_neg [of "unat x" "unat y"] that less_imp_le [OF unat_u16_lt [of y]] by simp
  have lm: "unat len < unat ?m" using l m by linarith
  have neg: "sint (ucast len - ucast ?m :: u32) < 0" unfolding gen [OF lm] using lm by linarith
  then have "\<not> TCP_SEQ_GEQ (rcv_nxt ?c + ucast (rcv_wnd ?c)) (rcv_ann_right_edge ?c + ucast (min (TCP_WND div 2) (mss ?c)))"
    using neg by (simp add: TCP_SEQ_GEQ_def e)
  then show ?thesis by (auto simp: tcp_update_rcv_ann_wnd_def Let_def)
qed

lemma quiet_recved:
  assumes "quiet_window c len" "tcp_pcbs st pcb = Some c" "pcb \<noteq> 0"
  shows "\<exists>w. tcp_recved env st pcb len
    = Inr (put_pcb st pcb (c\<lparr>rcv_wnd := rcv_wnd c + len, rcv_ann_wnd := w\<rparr>))"
proof -
  from assms(1) have b: "unat (rcv_wnd c) + unat len \<le> 2048" by (simp add: quiet_window_def)
  then have "unat (rcv_wnd c + len) \<le> 2048" by (simp add: unat_word_ariths)
  then have nw: "\<not> TCP_WND < rcv_wnd c + len" by (simp add: TCP_WND_def word_less_nat_alt)
  from quiet_no_update [OF assms(1)] obtain w where
    "tcp_update_rcv_ann_wnd (c\<lparr>rcv_wnd := rcv_wnd c + len\<rparr>) = (0, c\<lparr>rcv_wnd := rcv_wnd c + len, rcv_ann_wnd := w\<rparr>)" ..
  with nw assms(2,3) show ?thesis
    by (auto simp: tcp_recved_def get_pcb_def Let_def TCP_WND_UPDATE_THRESHOLD_def)
qed

lemma app_fields_cong:
  assumes "tcp_st.more st' = tcp_st.more (st :: 'a app_st_scheme)"
  shows "out st' = out st" "seq_port st' = seq_port st" "data_port st' = data_port st"
  using assms by (cases st; cases st'; auto)+

text \<open>A whole chain without further references is freed.\<close>

lemma pbuf_free_all:
  assumes "pchain (pbufs st) p xs" "distinct xs" "length xs \<le> chain_fuel" "\<forall>x \<in> set xs. pref (pbufs st) x = 1"
  shows "\<exists>n st'. pbuf_free st p = Inr (n, st') \<and> (\<forall>x \<in> set xs. pbufs st' x = None)
    \<and> (\<forall>x. x \<notin> set xs \<longrightarrow> pbufs st' x = pbufs st x) \<and> bytes st' = bytes st
    \<and> pbuf_st.more st' = pbuf_st.more st"
proof (cases "p = 0")
  case True
  with assms(1) have "xs = []" using pchain_nil_iff by blast
  with True show ?thesis by (simp add: pbuf_free_def)
next
  case False
  have tw: "takeWhile (\<lambda>x. pref (pbufs st) x = 1) xs = xs" using assms(4) by (simp add: takeWhile_eq_all_conv)
  from pbuf_free_loop_spec [OF assms(1-3), of 0, unfolded tw] obtain st' where
    "pbuf_free_loop chain_fuel st p 0 = Inr (0 + of_nat (length xs), st')" "bytes st' = bytes st"
    "\<forall>x \<in> set xs. pbufs st' x = None" "\<forall>x. x \<notin> set xs \<longrightarrow> pbufs st' x = pbufs st x" by auto
  moreover from this(1) have "pbuf_st.more st' = pbuf_st.more st" by (rule pbuf_free_loop_keeps)
  ultimately show ?thesis using False by (simp add: pbuf_free_def)
qed

lemma seq_recv_run:
  assumes pcb: "tcp_pcbs st tpcb = Some c" "tpcb \<noteq> 0" "quiet_window c (tot_len b)"
    and chain: "pchain (pbufs st) p xs" "distinct xs" "length xs \<le> chain_fuel" "\<forall>x \<in> set xs. pref (pbufs st) x = 1"
    and b: "p \<noteq> 0" "pbufs st p = Some b"
    and data: "holds (bytes st) (payload b) bs" "length bs = unat (tot_len b) mod 256"
  shows "\<exists>st' w. seq_recv_callback env st arg tpcb p err = Inr (ERR_OK, st')
    \<and> out st' = out st @ map seq_line (be_words (pad4 bs))
    \<and> tcp_pcbs st' = (tcp_pcbs st)(tpcb \<mapsto> c\<lparr>rcv_wnd := rcv_wnd c + tot_len b, rcv_ann_wnd := w\<rparr>)
    \<and> (\<forall>x \<in> set xs. pbufs st' x = None)"
proof -
  from quiet_recved [OF pcb(3,1,2)] obtain w where
    r: "tcp_recved env st tpcb (tot_len b) = Inr (put_pcb st tpcb (c\<lparr>rcv_wnd := rcv_wnd c + tot_len b, rcv_ann_wnd := w\<rparr>))"
    (is "_ = Inr ?st1") by blast
  have len: "unat (ucast (tot_len b) :: u8) = length bs" using data(2) by (simp add: unat_ucast_u8_u16)
  have l: "seq_loop ?st1 (payload b) (length bs) 0 = Inr (?st1\<lparr>out := out ?st1 @ map seq_line (be_words (pad4 bs))\<rparr>)"
    (is "_ = Inr ?st2") using seq_loop_spec [of ?st1 "payload b" "[]" bs] data(1) by simp
  from pbuf_free_all [of ?st2 p xs] chain obtain n st' where
    f: "pbuf_free ?st2 p = Inr (n, st')" "\<forall>x \<in> set xs. pbufs st' x = None" "pbuf_st.more st' = pbuf_st.more ?st2" by auto
  have more: "ip_st.more st' = ip_st.more ?st2" by (rule ip_more_of_pbuf [OF f(3)])
  have "seq_recv_callback env st arg tpcb p err = Inr (ERR_OK, st')"
    using b r l f(1) by (simp add: seq_recv_callback_def get_pbuf_def Let_def len)
  moreover have "out st' = out st @ map seq_line (be_words (pad4 bs))"
    using app_fields_cong(1) [OF tcp_fields_cong(14) [OF more]] by (simp add: put_pcb_def)
  moreover have "tcp_pcbs st' = (tcp_pcbs st)(tpcb \<mapsto> c\<lparr>rcv_wnd := rcv_wnd c + tot_len b, rcv_ann_wnd := w\<rparr>)"
    using tcp_fields_cong(1) [OF more] by simp
  ultimately show ?thesis using f(2) by blast
qed

section \<open>Properties\<close>

text \<open>C2: A packet of \<open>n\<close> bytes that the callback of port 8 receives is cut into the big-endian words of its
  first \<open>n mod 256\<close> bytes (the code keeps the length in a \<^verbatim>\<open>u8_t\<close>), filled up with \<^verbatim>\<open>0xFF\<close>; the words are
  printed in order, one per line. All \<open>n\<close> bytes are returned to the window, the pbufs are freed, and the
  callback accepts the packet.\<close>

theorem seq_recv_callback_prints:
  assumes pcb: "tcp_pcbs st tpcb = Some c" "tpcb \<noteq> 0" "quiet_window c (tot_len b)"
    and chain: "pchain (pbufs st) p xs" "distinct xs" "length xs \<le> chain_fuel" "\<forall>x \<in> set xs. pref (pbufs st) x = 1"
    and b: "p \<noteq> 0" "pbufs st p = Some b"
    and data: "holds (bytes st) (payload b) bs" "length bs = unat (tot_len b) mod 256"
  shows "\<exists>st' w. seq_recv_callback env st arg tpcb p err = Inr (ERR_OK, st')
    \<and> out st' = out st @ map seq_line (be_words (pad4 bs))
    \<and> tcp_pcbs st' = (tcp_pcbs st)(tpcb \<mapsto> c\<lparr>rcv_wnd := rcv_wnd c + tot_len b, rcv_ann_wnd := w\<rparr>)
    \<and> (\<forall>x \<in> set xs. pbufs st' x = None)"
  using seq_recv_run [OF assms] .

text \<open>The concrete state: the initial values of the static variables over a sample TCP state.\<close>

definition sample_app :: "memory \<Rightarrow> (addr \<rightharpoonup> pbuf) \<Rightarrow> (addr \<rightharpoonup> tcp_pcb) \<Rightarrow> app_st" where
  "sample_app m h t = tcp_st.extend (sample_tcp m h t) (app_st.fields 8 0 1 7 0 1 [])"

lemma sample_app_simps [simp]:
  "bytes (sample_app m h t) = m" "pbufs (sample_app m h t) = h" "tcp_pcbs (sample_app m h t) = t"
  "out (sample_app m h t) = []"
  by (simp_all add: sample_app_def sample_tcp_def tcp_st.extend_def app_st.fields_def)

text \<open>A packet of five bytes at 300, in the pbuf 200, on the connection 100.\<close>

definition sample_packet :: app_st where
  "sample_packet = sample_app [300 \<mapsto> 1, 301 \<mapsto> 2, 302 \<mapsto> 3, 303 \<mapsto> 4, 304 \<mapsto> 5, 305 \<mapsto> 6] [200 \<mapsto> sample_pbuf 0 300 5 5 1]
     [100 \<mapsto> sample_pcb\<lparr>pcb_state := ESTABLISHED, rcv_wnd := 2043, rcv_ann_right_edge := 2043\<rparr>]"

lemma sample_quiet: "quiet_window (sample_pcb\<lparr>pcb_state := ESTABLISHED, rcv_wnd := 2043, rcv_ann_right_edge := 2043\<rparr>) 5"
  by (simp add: quiet_window_def sample_pcb_def tcp_pcb_init_def initial_mss_def TCP_MSS_def)

theorem seq_recv_callback_prints_witness:
  "\<exists>st'. seq_recv_callback sample_env sample_packet 0 100 200 ERR_OK = Inr (ERR_OK, st')
     \<and> out st' = [seq_line 0x01020304, seq_line 0x05ffffff]"
proof -
  let ?c = "sample_pcb\<lparr>pcb_state := ESTABLISHED, rcv_wnd := 2043, rcv_ann_right_edge := 2043\<rparr>"
  have c: "tcp_pcbs sample_packet 100 = Some ?c" by (simp add: sample_packet_def)
  have q: "quiet_window ?c (tot_len (sample_pbuf 0 300 5 5 1))"
    using sample_quiet by (simp add: sample_pbuf_def)
  have ch: "pchain (pbufs sample_packet) 200 [200]" by (simp add: sample_packet_def sample_pbuf_def)
  have r: "\<forall>x \<in> set [200]. pref (pbufs sample_packet) x = 1" by (simp add: sample_packet_def pref_def sample_pbuf_def)
  have b: "pbufs sample_packet 200 = Some (sample_pbuf 0 300 5 5 1)" by (simp add: sample_packet_def)
  have h: "holds (bytes sample_packet) (payload (sample_pbuf 0 300 5 5 1)) [1, 2, 3, 4, 5]"
    by (simp add: sample_packet_def sample_pbuf_def)
  have w: "be_words (pad4 [1, 2, 3, 4, 5]) = [0x01020304, 0x05ffffff]"
    by (simp add: be_words_pad4_long be_words_pad4_short be_word_def)
  have o: "out sample_packet = []" by (simp add: sample_packet_def)
  from seq_recv_callback_prints [OF c _ q ch _ _ r _ b h, of sample_env 0 ERR_OK] show ?thesis
    by (auto simp: w o sample_pbuf_def chain_fuel_def)
qed

text \<open>C17: A packet whose length is a multiple of 256 is lost without a trace: the callback of port 8 returns
  \<^verbatim>\<open>ERR_OK\<close> and takes the bytes off the window, but prints nothing.\<close>

theorem seq_packet_256_lost:
  assumes pcb: "tcp_pcbs st tpcb = Some c" "tpcb \<noteq> 0" "quiet_window c (tot_len b)"
    and chain: "pchain (pbufs st) p xs" "distinct xs" "length xs \<le> chain_fuel" "\<forall>x \<in> set xs. pref (pbufs st) x = 1"
    and b: "p \<noteq> 0" "pbufs st p = Some b" "256 dvd unat (tot_len b)"
  shows "\<exists>st'. seq_recv_callback env st arg tpcb p err = Inr (ERR_OK, st') \<and> out st' = out st
    \<and> map_option rcv_wnd (tcp_pcbs st' tpcb) = Some (rcv_wnd c + tot_len b)
    \<and> (\<forall>x \<in> set xs. pbufs st' x = None)"
proof -
  have e: "length ([] :: u8 list) = unat (tot_len b) mod 256" using b(3) by (simp add: mod_eq_0_iff_dvd)
  have "be_words (pad4 []) = []" by (simp add: pad4_def)
  with seq_recv_run [OF pcb chain b(1,2) _ e, of env arg err] show ?thesis by fastforce
qed

theorem seq_packet_256_lost_witness:
  "\<exists>st'. seq_recv_callback sample_env
       (sample_app Map.empty [200 \<mapsto> sample_pbuf 0 300 256 256 1]
          [100 \<mapsto> sample_pcb\<lparr>pcb_state := ESTABLISHED, rcv_wnd := 1792, rcv_ann_right_edge := 1792\<rparr>]) 0 100 200 ERR_OK
       = Inr (ERR_OK, st') \<and> out st' = []"
proof -
  let ?c = "sample_pcb\<lparr>pcb_state := ESTABLISHED, rcv_wnd := 1792, rcv_ann_right_edge := 1792\<rparr>"
  let ?st = "sample_app Map.empty [200 \<mapsto> sample_pbuf 0 300 256 256 1] [100 \<mapsto> ?c]"
  have c: "tcp_pcbs ?st 100 = Some ?c" by simp
  have q: "quiet_window ?c (tot_len (sample_pbuf 0 300 256 256 1))"
    by (simp add: sample_pbuf_def quiet_window_def sample_pcb_def tcp_pcb_init_def initial_mss_def TCP_MSS_def)
  have ch: "pchain (pbufs ?st) 200 [200]" by (simp add: sample_pbuf_def)
  have r: "\<forall>x \<in> set [200]. pref (pbufs ?st) x = 1" by (simp add: pref_def sample_pbuf_def)
  have b: "pbufs ?st 200 = Some (sample_pbuf 0 300 256 256 1)" by simp
  have d: "256 dvd unat (tot_len (sample_pbuf 0 300 256 256 1))" by (simp add: sample_pbuf_def)
  from seq_packet_256_lost [OF c _ q ch _ _ r _ b d, of sample_env 0 ERR_OK] show ?thesis
    by (auto simp: chain_fuel_def)
qed

end
