(* ===== verification/DataSend.thy ===== *)
theory DataSend
  imports SeqSend
begin

text \<open>
  The raw data service: \<^verbatim>\<open>echo_server/src/data_send.c\<close>, on port 7. It prints the bytes of a
  packet; the loop also writes \<^verbatim>\<open>0xFF\<close> to the byte behind the packet.
\<close>

section \<open>Receiving\<close>

definition transfer_data :: int where "transfer_data = 0"

definition print_data_header :: "'a app_st_scheme \<Rightarrow> 'a app_st_scheme" where
  "print_data_header st = xil_printf st (''Attempting to read raw packets'' @ NL) []"

text \<open>The loop from index \<open>i\<close> on; \<open>k\<close> rounds are left.\<close>

fun data_loop :: "'a app_st_scheme \<Rightarrow> addr \<Rightarrow> nat \<Rightarrow> nat \<Rightarrow> nat \<Rightarrow> 'a app_st_scheme res" where
  "data_loop st packet len i 0 = Inr st"
| "data_loop st packet len i (Suc k) =
     rbind (wr8 (bytes st) (packet + len) 0xFF) (\<lambda>m.
     rbind (rd8 m (packet + i)) (\<lambda>b.
       data_loop (xil_printf (st\<lparr>bytes := m\<rparr>) (''%x'' @ NL) [ucast b]) packet len (i + 1) k))"

definition data_recv_callback ::
  "('a app_st_scheme) ip_env \<Rightarrow> 'a app_st_scheme \<Rightarrow> u32 \<Rightarrow> addr \<Rightarrow> addr \<Rightarrow> err_t \<Rightarrow> (err_t \<times> 'a app_st_scheme) res" where
  "data_recv_callback env st arg tpcb p err =
     (if p = 0 then
        rbind (tcp_close env st tpcb) (\<lambda>(_, st1).
        rbind (tcp_recv st1 tpcb FN_NULL) (\<lambda>st2. Inr (ERR_OK, st2)))
      else
        rbind (get_pbuf st p) (\<lambda>b0.
        rbind (tcp_recved env st tpcb (pb_len b0)) (\<lambda>st1.
        rbind (get_pbuf st1 p) (\<lambda>b.
          let len = unat (tot_len b); packet = payload b in
          rbind (data_loop st1 packet len 0 len) (\<lambda>st2.
          rbind (rd8 (bytes st2) (packet + len)) (\<lambda>x.
          rbind (pbuf_free (xil_printf st2 (''%08x'' @ NL) [ucast x]) p) (\<lambda>(_, st3). Inr (ERR_OK, st3))))))))"

definition data_accept_callback ::
  "'a app_st_scheme \<Rightarrow> u32 \<Rightarrow> addr \<Rightarrow> err_t \<Rightarrow> (err_t \<times> 'a app_st_scheme) res" where
  "data_accept_callback st arg newpcb err =
     rbind (tcp_recv st newpcb FN_data_recv_callback) (\<lambda>st1.
     rbind (tcp_arg st1 newpcb (data_connection st1)) (\<lambda>st2.
       Inr (ERR_OK, st2\<lparr>data_connection := data_connection st2 + 1\<rparr>)))"

section \<open>Starting\<close>

definition start_dataSend :: "('a app_st_scheme) tcp_env \<Rightarrow> 'a app_st_scheme \<Rightarrow> (int \<times> 'a app_st_scheme) res" where
  "start_dataSend env st =
     rbind (tcp_new env st) (\<lambda>(pcb, st1).
       if pcb = 0 then Inr (- 1, xil_printf st1 (''Error creating PCB. Out of Memory'' @ NL_CR) [])
       else rbind (tcp_bind st1 pcb IP_ADDR_ANY (ucast (data_port st1))) (\<lambda>(err, st2).
         if err \<noteq> ERR_OK then
           Inr (- 2, xil_printf st2 (''Unable to bind to port %d: err = %d'' @ NL_CR)
                       [data_port st2, of_int (err_code err)])
         else rbind (tcp_arg st2 pcb 0) (\<lambda>st3.
           rbind (tcp_listen_with_backlog st3 pcb TCP_DEFAULT_LISTEN_BACKLOG) (\<lambda>(lpcb, st4).
             if lpcb = 0 then Inr (- 3, xil_printf st4 (''Out of memory while tcp_listen'' @ NL_CR) [])
             else
               rbind (tcp_accept st4 lpcb FN_data_accept_callback) (\<lambda>st5.
                 Inr (0, (xil_printf st5 (''TCP echo server started @ port %d'' @ NL_CR) [data_port st5])
                           \<lparr>data_port_running := 1\<rparr>))))))"

section \<open>The receive callback\<close>

definition data_line :: "u8 \<Rightarrow> print_call" where "data_line b = Printf (''%x'' @ NL) [ucast b]"

text \<open>Every round but the first writes the byte behind the packet again.\<close>

lemma data_loop_spec:
  assumes "holds (bytes st) p bs" "bytes st (p + length bs) = Some x" "i + k = length bs"
  shows "data_loop st p (length bs) i k
    = Inr (st\<lparr>bytes := (if k = 0 then bytes st else (bytes st)(p + length bs \<mapsto> 0xFF)),
              out := out st @ map data_line (drop i bs)\<rparr>)"
  using assms
proof (induction k arbitrary: st i x)
  case 0
  then show ?case by simp
next
  case (Suc k)
  let ?m = "(bytes st)(p + length bs \<mapsto> 0xFF)"
  let ?st = "xil_printf (st\<lparr>bytes := ?m\<rparr>) (''%x'' @ NL) [ucast (bs ! i)]"
  have i: "i < length bs" using Suc.prems(3) by simp
  have h: "holds ?m p bs" using Suc.prems(1) by (intro holds_upd_outside) simp_all
  have step: "data_loop st p (length bs) i (Suc k) = data_loop ?st p (length bs) (i + 1) k"
    using Suc.prems(2) holds_rd8 [OF h i] by (simp add: wr8_Some)
  have st1: "bytes ?st = ?m" "out ?st = out st @ [data_line (bs ! i)]"
    "?st\<lparr>bytes := m', out := o'\<rparr> = st\<lparr>bytes := m', out := o'\<rparr>" for m' o'
    by (simp_all add: xil_printf_def data_line_def fun_upd_def)
  have m: "(if k = 0 then ?m else ?m(p + length bs \<mapsto> 0xFF)) = ?m" by simp
  have "data_loop ?st p (length bs) (i + 1) k
      = Inr (?st\<lparr>bytes := (if k = 0 then bytes ?st else (bytes ?st)(p + length bs \<mapsto> 0xFF)),
                 out := out ?st @ map data_line (drop (i + 1) bs)\<rparr>)"
    by (rule Suc.IH [where x = "0xFF"], unfold st1(1)) (use h Suc.prems(3) in \<open>simp_all add: fun_upd_def\<close>)
  also have "\<dots> = Inr (st\<lparr>bytes := ?m, out := out st @ data_line (bs ! i) # map data_line (drop (i + 1) bs)\<rparr>)"
    unfolding st1 m by simp
  also have "data_line (bs ! i) # map data_line (drop (i + 1) bs) = map data_line (drop i bs)"
    using i by (simp add: Cons_nth_drop_Suc [symmetric])
  finally show ?case by (simp only: step nat.distinct if_False)
qed

lemma data_recv_run:
  assumes pcb: "tcp_pcbs st tpcb = Some c" "tpcb \<noteq> 0" "quiet_window c (pb_len b)"
    and chain: "pchain (pbufs st) p xs" "distinct xs" "length xs \<le> chain_fuel" "\<forall>x \<in> set xs. pref (pbufs st) x = 1"
    and b: "p \<noteq> 0" "pbufs st p = Some b"
    and data: "holds (bytes st) (payload b) bs" "length bs = unat (tot_len b)"
    and behind: "bytes st (payload b + length bs) = Some x" "y = (if bs = [] then x else 0xFF)"
  shows "\<exists>st' w. data_recv_callback env st arg tpcb p err = Inr (ERR_OK, st')
    \<and> out st' = out st @ map data_line bs @ [Printf (''%08x'' @ NL) [ucast y]]
    \<and> bytes st' = (bytes st)(payload b + length bs \<mapsto> y)
    \<and> tcp_pcbs st' = (tcp_pcbs st)(tpcb \<mapsto> c\<lparr>rcv_wnd := rcv_wnd c + pb_len b, rcv_ann_wnd := w\<rparr>)
    \<and> (\<forall>x \<in> set xs. pbufs st' x = None)"
proof -
  from quiet_recved [OF pcb(3,1,2)] obtain w where
    r: "tcp_recved env st tpcb (pb_len b) = Inr (put_pcb st tpcb (c\<lparr>rcv_wnd := rcv_wnd c + pb_len b, rcv_ann_wnd := w\<rparr>))"
    (is "_ = Inr ?st1") by blast
  let ?m = "(bytes st)(payload b + length bs \<mapsto> y)"
  have m: "(if length bs = 0 then bytes ?st1 else (bytes ?st1)(payload b + length bs \<mapsto> 0xFF)) = ?m"
    using behind by (auto simp: fun_eq_iff)
  have l: "data_loop ?st1 (payload b) (length bs) 0 (length bs)
      = Inr (?st1\<lparr>bytes := ?m, out := out st @ map data_line bs\<rparr>)"
    (is "_ = Inr ?st2")
    using data_loop_spec [of ?st1 "payload b" bs x 0 "length bs"] data(1) behind(1) unfolding m
    by (simp add: put_pcb_def)
  let ?st3 = "xil_printf ?st2 (''%08x'' @ NL) [ucast y]"
  have y: "rd8 (bytes ?st2) (payload b + length bs) = Inr y" by (simp add: rd8_def)
  from pbuf_free_all [of ?st3 p xs] chain obtain n st' where
    f: "pbuf_free ?st3 p = Inr (n, st')" "\<forall>x \<in> set xs. pbufs st' x = None" "bytes st' = bytes ?st3"
      "pbuf_st.more st' = pbuf_st.more ?st3" by (auto simp: xil_printf_def)
  have more: "ip_st.more st' = ip_st.more ?st3" by (rule ip_more_of_pbuf [OF f(4)])
  have "data_recv_callback env st arg tpcb p err = Inr (ERR_OK, st')"
    using b r l y f(1) by (simp add: data_recv_callback_def get_pbuf_def Let_def data(2) [symmetric])
  moreover have "out st' = out st @ map data_line bs @ [Printf (''%08x'' @ NL) [ucast y]]"
    using app_fields_cong(1) [OF tcp_fields_cong(14) [OF more]] by (simp add: xil_printf_def)
  moreover have "tcp_pcbs st' = (tcp_pcbs st)(tpcb \<mapsto> c\<lparr>rcv_wnd := rcv_wnd c + pb_len b, rcv_ann_wnd := w\<rparr>)"
    using tcp_fields_cong(1) [OF more] by (simp add: xil_printf_def)
  moreover have "bytes st' = ?m" using f(3) by (simp add: xil_printf_def)
  ultimately show ?thesis using f(2) by blast
qed

section \<open>Properties\<close>

text \<open>C3: The callback of port 7 prints the bytes of a non-empty packet, one per line, and then \<^verbatim>\<open>0xFF\<close>: the
  byte behind the packet, which it has overwritten with \<^verbatim>\<open>0xFF\<close>, although it does not belong to the packet.
  No other byte of memory changes, and the pbufs are freed.\<close>

theorem data_recv_callback_prints:
  assumes pcb: "tcp_pcbs st tpcb = Some c" "tpcb \<noteq> 0" "quiet_window c (pb_len b)"
    and chain: "pchain (pbufs st) p xs" "distinct xs" "length xs \<le> chain_fuel" "\<forall>x \<in> set xs. pref (pbufs st) x = 1"
    and b: "p \<noteq> 0" "pbufs st p = Some b"
    and data: "holds (bytes st) (payload b) bs" "length bs = unat (tot_len b)" "bs \<noteq> []"
    and behind: "bytes st (payload b + length bs) \<noteq> None"
  shows "\<exists>st'. data_recv_callback env st arg tpcb p err = Inr (ERR_OK, st')
    \<and> out st' = out st @ map data_line bs @ [Printf (''%08x'' @ NL) [0xFF]]
    \<and> bytes st' = (bytes st)(payload b + length bs \<mapsto> 0xFF)
    \<and> (\<forall>x \<in> set xs. pbufs st' x = None)"
proof -
  from behind obtain x where x: "bytes st (payload b + length bs) = Some x" by blast
  have "ucast (0xFF :: u8) = (0xFF :: u32)" by simp
  with data_recv_run [OF pcb chain b data(1,2) x refl, of env arg err] data(3) show ?thesis by fastforce
qed

theorem data_recv_callback_prints_witness:
  "\<exists>st'. data_recv_callback sample_env sample_packet 0 100 200 ERR_OK = Inr (ERR_OK, st')
     \<and> out st' = map data_line [1, 2, 3, 4, 5] @ [Printf (''%08x'' @ NL) [0xFF]]
     \<and> bytes st' 305 = Some 0xFF"
proof -
  let ?c = "sample_pcb\<lparr>pcb_state := ESTABLISHED, rcv_wnd := 2043, rcv_ann_right_edge := 2043\<rparr>"
  let ?b = "sample_pbuf 0 300 5 5 1"
  have c: "tcp_pcbs sample_packet 100 = Some ?c" by (simp add: sample_packet_def)
  have q: "quiet_window ?c (pb_len ?b)" using sample_quiet by (simp add: sample_pbuf_def)
  have ch: "pchain (pbufs sample_packet) 200 [200]" by (simp add: sample_packet_def sample_pbuf_def)
  have r: "\<forall>x \<in> set [200]. pref (pbufs sample_packet) x = 1" by (simp add: sample_packet_def pref_def sample_pbuf_def)
  have b: "pbufs sample_packet 200 = Some ?b" by (simp add: sample_packet_def)
  have h: "holds (bytes sample_packet) (payload ?b) [1, 2, 3, 4, 5]" by (simp add: sample_packet_def sample_pbuf_def)
  have x: "bytes sample_packet (payload ?b + length [1, 2, 3, 4, 5 :: u8]) \<noteq> None"
    by (simp add: sample_packet_def sample_pbuf_def)
  have o: "out sample_packet = []" by (simp add: sample_packet_def)
  have p: "payload ?b + length [1, 2, 3, 4, 5 :: u8] = 305" "unat (tot_len ?b) = 5" by (simp_all add: sample_pbuf_def)
  from data_recv_callback_prints [OF c _ q ch _ _ r _ b h _ _ x, of sample_env 0 ERR_OK] show ?thesis
    unfolding p o by (auto simp: chain_fuel_def)
qed

text \<open>The callback of port 7 reports only the length of the first pbuf to the TCP stack
  (\<^verbatim>\<open>p->len\<close>, not \<^verbatim>\<open>p->tot_len\<close>): of a packet that lies in a chain of pbufs, the rest is missing in the
  receive window afterwards, for good.\<close>

theorem data_chain_leaks_window:
  assumes pcb: "tcp_pcbs st tpcb = Some c" "tpcb \<noteq> 0" "quiet_window c (pb_len b)"
    and chain: "pchain (pbufs st) p xs" "distinct xs" "length xs \<le> chain_fuel" "\<forall>x \<in> set xs. pref (pbufs st) x = 1"
    and b: "p \<noteq> 0" "pbufs st p = Some b" "pb_len b < tot_len b"
    and data: "holds (bytes st) (payload b) bs" "length bs = unat (tot_len b)"
    and behind: "bytes st (payload b + length bs) \<noteq> None"
    and full: "unat (rcv_wnd c) + unat (tot_len b) = unat TCP_WND"
  shows "\<exists>st' c'. data_recv_callback env st arg tpcb p err = Inr (ERR_OK, st') \<and> tcp_pcbs st' tpcb = Some c'
    \<and> unat (rcv_wnd c') = unat TCP_WND - (unat (tot_len b) - unat (pb_len b)) \<and> rcv_wnd c' \<noteq> TCP_WND"
proof -
  from behind obtain x where x: "bytes st (payload b + length bs) = Some x" by blast
  from data_recv_run [OF pcb chain b(1,2) data x refl, of env arg err] obtain st' w where
    st': "data_recv_callback env st arg tpcb p err = Inr (ERR_OK, st')"
    "tcp_pcbs st' = (tcp_pcbs st)(tpcb \<mapsto> c\<lparr>rcv_wnd := rcv_wnd c + pb_len b, rcv_ann_wnd := w\<rparr>)" by blast
  have l: "unat (pb_len b) < unat (tot_len b)" using b(3) by (simp add: word_less_nat_alt)
  have "unat (rcv_wnd c) + unat (pb_len b) \<le> 2048" using pcb(3) by (simp add: quiet_window_def)
  then have u: "unat (rcv_wnd c + pb_len b) = unat (rcv_wnd c) + unat (pb_len b)" by (simp add: unat_word_ariths)
  have "unat (rcv_wnd c + pb_len b) = unat TCP_WND - (unat (tot_len b) - unat (pb_len b))"
    unfolding u using full l by linarith
  moreover have "rcv_wnd c + pb_len b \<noteq> TCP_WND"
  proof
    assume "rcv_wnd c + pb_len b = TCP_WND"
    then have "unat (rcv_wnd c + pb_len b) = unat TCP_WND" by simp
    then show False unfolding u using full l by linarith
  qed
  ultimately show ?thesis using st' by simp
qed

theorem data_chain_leaks_window_witness:
  "\<exists>st' c'. data_recv_callback sample_env
       (sample_app sample_mem [100 \<mapsto> sample_pbuf 200 300 2 1 1, 200 \<mapsto> sample_pbuf 0 400 1 1 1]
          [100 \<mapsto> sample_pcb\<lparr>pcb_state := ESTABLISHED, rcv_wnd := 2046, rcv_ann_right_edge := 2046\<rparr>]) 0 100 100 ERR_OK
       = Inr (ERR_OK, st') \<and> tcp_pcbs st' 100 = Some c' \<and> unat (rcv_wnd c') = 2047"
proof -
  let ?c = "sample_pcb\<lparr>pcb_state := ESTABLISHED, rcv_wnd := 2046, rcv_ann_right_edge := 2046\<rparr>"
  let ?b = "sample_pbuf 200 300 2 1 1"
  let ?st = "sample_app sample_mem [100 \<mapsto> ?b, 200 \<mapsto> sample_pbuf 0 400 1 1 1] [100 \<mapsto> ?c]"
  have c: "tcp_pcbs ?st 100 = Some ?c" by simp
  have q: "quiet_window ?c (pb_len ?b)"
    by (simp add: sample_pbuf_def quiet_window_def sample_pcb_def tcp_pcb_init_def initial_mss_def TCP_MSS_def)
  have ch: "pchain (pbufs ?st) 100 [100, 200]" by (simp add: sample_pbuf_def)
  have r: "\<forall>x \<in> set [100, 200]. pref (pbufs ?st) x = 1" by (simp add: pref_def sample_pbuf_def)
  have b: "pbufs ?st 100 = Some ?b" by simp
  have l: "pb_len ?b < tot_len ?b" by (simp add: sample_pbuf_def)
  have h: "holds (bytes ?st) (payload ?b) [0x45, 0x67]" by (simp add: sample_mem_def sample_pbuf_def)
  have x: "bytes ?st (payload ?b + length [0x45, 0x67 :: u8]) \<noteq> None" by (simp add: sample_mem_def sample_pbuf_def)
  have f: "unat (rcv_wnd ?c) + unat (tot_len ?b) = unat TCP_WND" by (simp add: sample_pbuf_def TCP_WND_def)
  have u: "unat (tot_len ?b) = 2" "unat (pb_len ?b) = 1" "unat TCP_WND = 2048"
    by (simp_all add: sample_pbuf_def TCP_WND_def)
  from data_chain_leaks_window [OF c _ q ch _ _ r _ b l h _ x f, of sample_env 0 ERR_OK]
  show ?thesis unfolding u by (auto simp: chain_fuel_def)
qed

end
