(* ===== verification/Dispatch.thy ===== *)
theory Dispatch
  imports DataSend
begin

text \<open>
  \<^verbatim>\<open>echo_server/src/dispatch.c\<close>: which services run, and the callbacks as the TCP module reaches
  them through its function pointers.
\<close>

section \<open>Dispatch\<close>

definition SEND_SEQ :: bool where "SEND_SEQ = True"
definition SEND_DATA :: bool where "SEND_DATA = True"

definition print_headers :: "'a app_st_scheme \<Rightarrow> 'a app_st_scheme" where
  "print_headers st =
     (let st1 = xil_printf st (''Port 7 to send in data'' @ NL) [];
          st2 = xil_printf st1 (''Port 8 to send in sequences'' @ NL) [];
          st3 = (if SEND_SEQ then print_seq_header st2 else st2)
      in if SEND_DATA then print_data_header st3 else st3)"

text \<open>The results of the two functions are ignored; \<^verbatim>\<open>start_apps\<close> itself returns no value.\<close>

definition start_apps :: "('a app_st_scheme) tcp_env \<Rightarrow> 'a app_st_scheme \<Rightarrow> 'a app_st_scheme res" where
  "start_apps env st =
     rbind (if SEND_SEQ then rbind (start_seqSend env st) (\<lambda>(_, st1). Inr st1) else Inr st) (\<lambda>st1.
       if SEND_DATA then rbind (start_dataSend env st1) (\<lambda>(_, st2). Inr st2) else Inr st1)"

text \<open>\<^verbatim>\<open>transfer_packets\<close> calls two functions that do nothing.\<close>

definition transfer_packets :: "'a app_st_scheme \<Rightarrow> 'a app_st_scheme" where
  "transfer_packets st = st"

section \<open>The callbacks\<close>

text \<open>
  The environment of the TCP module in this program: the receive callbacks of the two services; no
  service registers a poll or an error callback.
\<close>

definition app_env :: "('a app_st_scheme) ip_env \<Rightarrow> ('a app_st_scheme) tcp_env" where
  "app_env ie =
     \<lparr>ipe = ie,
      call_recv = (\<lambda>f arg pcb p err st.
        case f of
          FN_seq_recv_callback \<Rightarrow> seq_recv_callback ie st arg pcb p err
        | FN_data_recv_callback \<Rightarrow> data_recv_callback ie st arg pcb p err
        | _ \<Rightarrow> Inl Null_deref),
      call_poll = (\<lambda>f arg pcb st. Inl Null_deref),
      call_err = (\<lambda>f arg err st. Inl Null_deref)\<rparr>"

end
