(* ===== verification/TcpInProps.thy ===== *)
theory TcpInProps
  imports TcpInInv TcpSteps TcpProps Dispatch
begin

text \<open>
  What \<^verbatim>\<open>tcp_in.c\<close> guarantees, and where it fails: the state machine of a connection, the lists of
  control blocks, demultiplexing, options, the receive window, and what a segment makes the
  services do.
\<close>

section \<open>A concrete connection\<close>

text \<open>One connection, at address 100, is all there is; the header of a segment is at 500, its pbuf at 200.\<close>

definition only_conn :: "memory \<Rightarrow> (addr \<rightharpoonup> pbuf) \<Rightarrow> tcp_pcb \<Rightarrow> app_st" where
  "only_conn m h c = (sample_app m h [100 \<mapsto> c])\<lparr>tcp_active_pcbs := 100\<rparr>"

lemma only_conn_simps [simp]:
  "tcp_pcbs (only_conn m h c) = [100 \<mapsto> c]" "bytes (only_conn m h c) = m" "pbufs (only_conn m h c) = h"
  "tcp_lpcbs (only_conn m h c) = Map.empty" "head_of (only_conn m h c) = (\<lambda>l. if l = L_active then 100 else 0)"
  "out (only_conn m h c) = []" "tcp_ticks (only_conn m h c) = 0" "ip_st.more (only_conn m h c) = ip_st.more (only_conn m h c)"
proof -
  show "head_of (only_conn m h c) = (\<lambda>l. if l = L_active then 100 else 0)"
  proof
    show "head_of (only_conn m h c) l = (if l = L_active then 100 else 0)" for l
      by (cases l) (simp_all add: only_conn_def sample_app_def sample_tcp_def tcp_st.extend_def app_st.fields_def)
  qed
qed (simp_all add: only_conn_def sample_app_def sample_tcp_def tcp_st.extend_def app_st.fields_def)

lemma only_conn_inv:
  assumes "list_for (pcb_state c) = L_active" "pcb_next c = 0"
  shows "lists_inv (only_conn m h c)"
proof (rule lists_invI)
  let ?st = "only_conn m h c" and ?F = "\<lambda>l. if l = L_active then [100] else []"
  let ?I = "[100 \<mapsto> (False, pcb_state c, local_port c)]"
  have i: "info ?st = ?I" by (auto simp: fun_eq_iff info_eq)
  have n: "next_of ?st 100 = 0" using assms(2) by (simp add: next_of_eq)
  have d: "dom (common ?st) = {100}" by (simp add: dom_common_info i)
  have "lists_repr ?st ?F" using n d by (auto simp: lists_repr_def)
  then show "vrel ?st (\<lambda>l. set (?F l)) ?I {}" using i by (auto simp: vrel_def)
  have "pcb_state c \<noteq> LISTEN" "pcb_state c \<noteq> CLOSED" using assms(1) by auto
  then show "wf_lists (\<lambda>l. set (?F l)) ?I {}" using assms(1) by (auto simp: wf_lists_def filed_def)
qed

section \<open>The state machine\<close>

text \<open>
  Our \<^verbatim>\<open>FIN\<close> is the last that was queued, so its number is the one before \<^verbatim>\<open>snd_lbb\<close>. RFC 793 takes it for
  acknowledged when the acknowledgement lies behind it and is not beyond what was sent (\<^verbatim>\<open>snd_nxt\<close>).
\<close>

definition fin_acked :: "tcpin \<Rightarrow> tcp_pcb \<Rightarrow> bool" where
  "fin_acked i c \<longleftrightarrow> flags i AND TCP_ACK \<noteq> 0 \<and> TCP_SEQ_BETWEEN (ackno i) (snd_lbb c) (snd_nxt c)"


lemma fin_not_acked: "TCP_SEQ_LT (snd_nxt c) (snd_lbb c) \<Longrightarrow> ackno i = snd_nxt c \<Longrightarrow> \<not> fin_acked i c"
  by (simp add: fin_acked_def TCP_SEQ_BETWEEN_def TCP_SEQ_GEQ_def TCP_SEQ_LT_def)

lemma tcp_process_stepped:
  assumes "lists_inv st" "tcp_pcbs st p = Some c" "pcb_state c \<in> connected_states"
    and "net_keeps (ipe (tenv env))" "recv_flags i = 0" "tcp_process env i st p = Inr (e, i', st')"
  shows "stepped i (info st) p (local_port c) (snd_nxt c) (pcb_state c) (e, i', st')" "apart p st' = apart p st"
proof -
  have "info st p = Some (False, pcb_state c, local_port c)" using assms(2) by (simp add: info_eq)
  then have a: "at_state st (info st) p (pcb_state c) (local_port c)"
    using assms(1) by (simp add: at_state_def fun_upd_idem)
  show "stepped i (info st) p (local_port c) (snd_nxt c) (pcb_state c) (e, i', st')"
    by (rule res_allD [OF tcp_process_step [OF a assms(3-5,2)] assms(6)])
  show "apart p st' = apart p st" using res_allD [OF tcp_process_apart [OF assms(3,2,4)] assms(6)] by simp
qed

lemma at_state_block:
  assumes "at_state st' I p t n"
  obtains c' where "tcp_pcbs st' p = Some c'" "pcb_state c' = t" "local_port c' = n"
proof -
  have "info st' p = Some (False, t, n)" using assms by (simp add: at_state_def)
  then show ?thesis using that by (auto simp: info_eq split: option.splits)
qed

text \<open>A header of 20 bytes at 500 in host byte order, with the flags \<open>fl\<close>, and the segment it heads.\<close>

definition seg_mem :: "u8 \<Rightarrow> memory" where
  "seg_mem fl = [500 \<mapsto> 0x39, 501 \<mapsto> 0x30, 502 \<mapsto> 8, 503 \<mapsto> 0, 504 \<mapsto> 0, 505 \<mapsto> 0, 506 \<mapsto> 0, 507 \<mapsto> 0,
     508 \<mapsto> 0x6f, 509 \<mapsto> 0x19, 510 \<mapsto> 0, 511 \<mapsto> 0, 512 \<mapsto> 0x50, 513 \<mapsto> fl, 514 \<mapsto> 0xe8, 515 \<mapsto> 3,
     516 \<mapsto> 0, 517 \<mapsto> 0, 518 \<mapsto> 0, 519 \<mapsto> 0, 520 \<mapsto> 1, 521 \<mapsto> 2, 522 \<mapsto> 3, 523 \<mapsto> 4, 524 \<mapsto> 5, 525 \<mapsto> 6]"

definition sample_seg :: "u8 \<Rightarrow> u16 \<Rightarrow> tcpin" where
  "sample_seg fl n = \<lparr>inseg = \<lparr>seg_at = 0, seg_p = 200, seg_len = n, seg_flags = 0, tcphdr = 500\<rparr>,
     seqno = 0, ackno = 6511, flags = fl, tcplen = n, recv_flags = 0, recv_data = 0, iphdr_src = 1, iphdr_dest = 2\<rparr>"

definition sample_fin_wait_1 :: tcp_pcb where
  "sample_fin_wait_1 = sample_pcb\<lparr>pcb_state := FIN_WAIT_1, snd_nxt := 6511, snd_lbb := 6511\<rparr>"

definition quiet_in_env :: "'st tcp_in_env" where
  "quiet_in_env = \<lparr>tenv = quiet_env, call_accept = (\<lambda>_ _ _ _ st. Inr (ERR_OK, st)),
     call_sent = (\<lambda>_ _ _ _ st. Inr (ERR_OK, st)), call_connected = (\<lambda>_ _ _ _ st. Inr (ERR_OK, st))\<rparr>"

lemma in_env_keeps_quiet: "in_env_keeps quiet_in_env"
  using env_keeps_quiet by (auto simp: in_env_keeps_def quiet_in_env_def quiet_env_def)

lemma only_conn_run [simp]:
  "get_pcb (only_conn m h c) 100 = Inr c"
  "put_pcb (only_conn m h c) 100 c' = only_conn m h c'"
  "upd_pcb (only_conn m h c) 100 f = Inr (only_conn m h (f c))"
  "(only_conn m h c)\<lparr>tcp_pcbs := [100 \<mapsto> c']\<rparr> = only_conn m h c'"
  "(only_conn m h c)\<lparr>bytes := m'\<rparr> = only_conn m' h c" "(only_conn m h c)\<lparr>pbufs := h'\<rparr> = only_conn m h' c"
  by (simp_all add: get_pcb_def upd_pcb_def only_conn_def sample_app_def sample_tcp_def tcp_st.extend_def
      app_st.fields_def put_pcb_def)

lemmas hdr_eval = seg_mem_def hdr_seqno_def hdr_wnd_def hdr_src_def hdr_dest_def rd16_def rd32_def rd8_def
  le16_def le32_def TCPH_HDRLEN_def TCPH_FLAGS_def lwip_ntohs_def lwip_htons_def TCP_FLAGS_def

lemma seg_mem_reads [simp]:
  "hdr_wnd (seg_mem fl) 500 = Inr 1000" "hdr_seqno (seg_mem fl) 500 = Inr 0"
  "TCPH_HDRLEN (seg_mem 0x10) 500 = Inr 5"
  by (simp_all add: hdr_eval)

lemma only_conn_eq [simp]: "only_conn m h c = only_conn m h c' \<longleftrightarrow> c = c'"
proof
  assume "only_conn m h c = only_conn m h c'"
  from arg_cong [OF this, of "\<lambda>x. tcp_pcbs x 100"] show "c = c'" by simp
qed simp

lemmas tcp_flag_eval = TCP_FIN_def TCP_SYN_def TCP_RST_def TCP_PSH_def TCP_ACK_def TF_GOT_FIN_def TF_RESET_def TF_CLOSED_def

lemmas seq_eval = TCP_SEQ_LT_def TCP_SEQ_LEQ_def TCP_SEQ_BETWEEN_def TCP_SEQ_GEQ_def TCP_SEQ_GT_def

lemma fin_wait_1_run:
  "\<exists>c. tcp_process quiet_in_env (sample_seg 0x10 0) (only_conn (seg_mem 0x10) Map.empty (sample_fin_wait_1\<lparr>snd_lbb := n\<rparr>)) 100
     = Inr (ERR_OK, sample_seg 0x10 0, only_conn (seg_mem 0x10) Map.empty c) \<and> pcb_state c = FIN_WAIT_2"
proof -
  let ?st = "only_conn (seg_mem 0x10) Map.empty" and ?f = "sample_fin_wait_1\<lparr>snd_lbb := n\<rparr>"
  let ?c = "?f\<lparr>tmr := 0, keep_cnt_sent := 0\<rparr>"
  have opt: "tcp_parseopt (sample_seg 0x10 0) (?st c) 100 = Inr (?st c)" for c
    by (simp add: tcp_parseopt_def sample_seg_def)
  have "\<exists>c'. tcp_receive e (sample_seg 0x10 0) (?st ?c) 100 = Inr (sample_seg 0x10 0, ?st c')
      \<and> pcb_state c' = FIN_WAIT_1 \<and> snd_nxt c' = 6511" for e
    by (simp add: tcp_receive_def receive_ack_def new_ack_def sample_seg_def tcp_flag_eval sample_fin_wait_1_def
       sample_pcb_def tcp_pcb_init_def update_send_window_def ack_counters_def seq_eval grow_cwnd_def in_window_def
       rtt_estimate_def TCP_WND_def initial_mss_def TCP_MSS_def less_eq_tcp_state_def less_tcp_state_def)
  then obtain c' where r: "tcp_receive (ipe (tenv quiet_in_env)) (sample_seg 0x10 0) (?st ?c) 100 = Inr (sample_seg 0x10 0, ?st c')"
    "pcb_state c' = FIN_WAIT_1" "snd_nxt c' = 6511" by blast
  have p: "process_received (sample_seg 0x10 0) (?st c') 100 FIN_WAIT_1 = Inr (sample_seg 0x10 0, ?st (c'\<lparr>pcb_state := FIN_WAIT_2\<rparr>))"
    using r(3) by (simp add: process_received_def all_acked_def sample_seg_def tcp_flag_eval set_state_def upd_common_def)
  have "tcp_process quiet_in_env (sample_seg 0x10 0) (?st ?f) 100
     = Inr (ERR_OK, sample_seg 0x10 0, ?st (c'\<lparr>pcb_state := FIN_WAIT_2\<rparr>))"
  proof -
    have f: "flags (sample_seg 0x10 0) = 0x10" "pcb_state ?f = FIN_WAIT_1" "pcb_flags ?f = 0"
      by (simp_all add: sample_seg_def sample_fin_wait_1_def tcp_samples)
    show ?thesis using r(1) p by (simp add: tcp_process_def opt f) (simp add: tcp_flag_eval)
  qed
  then show ?thesis by auto
qed

text \<open>This connection with \<open>n\<close> as the end of what is queued, and its segment.\<close>

lemma fin_wait_1_inv: "lists_inv (only_conn m h (sample_fin_wait_1\<lparr>snd_lbb := n\<rparr>))"
  by (rule only_conn_inv) (simp_all add: sample_fin_wait_1_def tcp_samples)

lemma fin_wait_1_block:
  "pcb_state (sample_fin_wait_1\<lparr>snd_lbb := n\<rparr>) = FIN_WAIT_1" "snd_nxt (sample_fin_wait_1\<lparr>snd_lbb := n\<rparr>) = 6511"
  "pcb_state (sample_fin_wait_1\<lparr>snd_lbb := n\<rparr>) \<in> connected_states"
  by (simp_all add: sample_fin_wait_1_def connected_states_def)

lemma quiet_in_net: "net_keeps (ipe (tenv (quiet_in_env :: app_st tcp_in_env)))"
  by (rule in_env_net [OF in_env_keeps_quiet])

lemma ack_segment:
  "recv_flags (sample_seg 0x10 0) = 0" "flags (sample_seg 0x10 0) AND TCP_RST = 0" "flags (sample_seg 0x10 0) AND TCP_SYN = 0"
  "flags (sample_seg 0x10 0) AND TCP_ACK \<noteq> 0" "ackno (sample_seg 0x10 0) = 6511" "\<not> got_fin (sample_seg 0x10 0)"
  by (simp_all add: sample_seg_def tcp_flag_eval got_fin_def)

lemma only_conn_block: "tcp_pcbs (only_conn m h c) 100 = Some c"
  by simp

text \<open>C8: A segment moves a connection only along the edges of the diagram of RFC 793: a state that changes
  does so because the peer's \<^verbatim>\<open>FIN\<close>, in the segment or queued before it, was reached (\<open>TF_GOT_FIN\<close>), or because the
  segment acknowledges exactly \<^verbatim>\<open>snd_nxt\<close>, the end of what was sent. No other connection changes at all but in its
  link, no other block changes its state or port, the connection keeps its port and what it has sent and queued, and
  the axioms about the lists hold again.\<close>

theorem tcp_process_fsm:
  assumes "lists_inv st" "tcp_pcbs st p = Some c" "pcb_state c \<in> connected_states"
    and "net_keeps (ipe (tenv env))" "recv_flags i = 0" "tcp_process env i st p = Inr (e, i', st')"
  shows "lists_inv st' \<and>
    (\<forall>q. q \<noteq> p \<longrightarrow> info st' q = info st q \<and> map_option unlinked (tcp_pcbs st' q) = map_option unlinked (tcp_pcbs st q)) \<and>
    (\<exists>c'. tcp_pcbs st' p = Some c' \<and> local_port c' = local_port c \<and> snd_nxt c' = snd_nxt c \<and> snd_lbb c' = snd_lbb c \<and>
       tcp_edge (got_fin i') (flags i AND TCP_ACK \<noteq> 0 \<and> ackno i = snd_nxt c) (pcb_state c) (pcb_state c'))"
proof -
  note s = tcp_process_stepped [OF assms]
  obtain t where t: "at_state st' (info st) p t (local_port c)" "tcp_edge (got_fin i') (acks i (snd_nxt c)) (pcb_state c) t"
    using s(1) rfc_next_edge [OF assms(3)] edge_stay unfolding stepped_def by (simp split: if_splits) blast+
  obtain c' where c': "tcp_pcbs st' p = Some c'" "pcb_state c' = t" "local_port c' = local_port c" by (rule at_state_block [OF t(1)])
  have n: "snd_nxt c' = snd_nxt c" "snd_lbb c' = snd_lbb c" using apartD [OF s(2) assms(2)] c'(1) by auto
  have "lists_inv st'" "info st' = (info st)(p \<mapsto> (False, t, local_port c))" using t(1) by (simp_all add: at_state_def)
  with c' n t(2) apart_other [OF s(2)] show ?thesis by (auto simp: acks_def)
qed

theorem tcp_process_fsm_witness:
  "\<exists>st'. tcp_process quiet_in_env (sample_seg 0x10 0) (only_conn (seg_mem 0x10) Map.empty (sample_fin_wait_1\<lparr>snd_lbb := 6511\<rparr>)) 100
     = Inr (ERR_OK, sample_seg 0x10 0, st') \<and> lists_inv st' \<and> tcp_edge False True FIN_WAIT_1 FIN_WAIT_2"
proof -
  obtain c where c: "tcp_process quiet_in_env (sample_seg 0x10 0) (only_conn (seg_mem 0x10) Map.empty (sample_fin_wait_1\<lparr>snd_lbb := 6511\<rparr>)) 100
     = Inr (ERR_OK, sample_seg 0x10 0, only_conn (seg_mem 0x10) Map.empty c)" "pcb_state c = FIN_WAIT_2"
    using fin_wait_1_run by blast
  from tcp_process_fsm [OF fin_wait_1_inv only_conn_block fin_wait_1_block(3) quiet_in_net ack_segment(1) c(1)] c
  show ?thesis by (simp add: fin_wait_1_block ack_segment)
qed



text \<open>C29: While our \<^verbatim>\<open>FIN\<close> is still queued and not sent, because the window of the peer is closed, an acknowledgement of what
  has been sent is taken for that of the \<^verbatim>\<open>FIN\<close>: \<^verbatim>\<open>FIN_WAIT_1\<close> is left for \<^verbatim>\<open>FIN_WAIT_2\<close> (or \<^verbatim>\<open>TIME_WAIT\<close> with the peer's
  \<^verbatim>\<open>FIN\<close>), and in \<^verbatim>\<open>LAST_ACK\<close> the connection is closed, although by RFC 793 the \<^verbatim>\<open>FIN\<close> is not acknowledged and the state
  stays; \<^verbatim>\<open>snd_nxt\<close> has not moved, so the \<^verbatim>\<open>FIN\<close> was not sent by the way either.\<close>

theorem unsent_fin_taken_for_acked:
  assumes "lists_inv st" "tcp_pcbs st p = Some c" "pcb_state c \<in> {FIN_WAIT_1, LAST_ACK}"
    and "net_keeps (ipe (tenv env))" "recv_flags i = 0" "tcp_process env i st p = Inr (e, i', st')"
    and "flags i AND TCP_RST = 0" "flags i AND TCP_SYN = 0" "flags i AND TCP_ACK \<noteq> 0" "ackno i = snd_nxt c"
    and "TCP_SEQ_LT (snd_nxt c) (snd_lbb c)"
  shows "\<not> fin_acked i c \<and> (\<exists>c'. tcp_pcbs st' p = Some c' \<and> snd_nxt c' = snd_nxt c \<and> snd_lbb c' = snd_lbb c \<and>
    (if pcb_state c = LAST_ACK then recv_flags i' AND TF_CLOSED \<noteq> 0
     else pcb_state c' = (if got_fin i' then TIME_WAIT else FIN_WAIT_2)))"
proof -
  have k: "pcb_state c \<in> connected_states" using assms(3) by (auto simp: connected_states_def)
  note s = tcp_process_stepped [OF assms(1,2) k assms(4-6)]
  have t: "at_state st' (info st) p (rfc_next (got_fin i') True (pcb_state c)) (local_port c)"
    "pcb_state c = LAST_ACK \<Longrightarrow> recv_flags i' AND TF_CLOSED \<noteq> 0"
    using s(1) assms(7-10) by (simp_all add: stepped_def acks_def)
  from t(1) obtain c' where c': "tcp_pcbs st' p = Some c'" "pcb_state c' = rfc_next (got_fin i') True (pcb_state c)" by (rule at_state_block)
  have "snd_nxt c' = snd_nxt c" "snd_lbb c' = snd_lbb c" using apartD [OF s(2) assms(2)] c'(1) by auto
  with c' t(2) assms(3) fin_not_acked [OF assms(11,10)] show ?thesis by auto
qed

text \<open>One number is queued behind the 6511 that were sent.\<close>

theorem unsent_fin_taken_for_acked_witness:
  "\<exists>st' c'. tcp_process quiet_in_env (sample_seg 0x10 0) (only_conn (seg_mem 0x10) Map.empty (sample_fin_wait_1\<lparr>snd_lbb := 6512\<rparr>)) 100
     = Inr (ERR_OK, sample_seg 0x10 0, st') \<and> tcp_pcbs st' 100 = Some c' \<and> pcb_state c' = FIN_WAIT_2 \<and> snd_nxt c' = 6511 \<and> snd_lbb c' = 6512"
proof -
  obtain c where c: "tcp_process quiet_in_env (sample_seg 0x10 0) (only_conn (seg_mem 0x10) Map.empty (sample_fin_wait_1\<lparr>snd_lbb := 6512\<rparr>)) 100
     = Inr (ERR_OK, sample_seg 0x10 0, only_conn (seg_mem 0x10) Map.empty c)"
    using fin_wait_1_run by blast
  have s: "pcb_state (sample_fin_wait_1\<lparr>snd_lbb := 6512\<rparr>) \<in> {FIN_WAIT_1, LAST_ACK}" by (simp add: fin_wait_1_block)
  have a: "ackno (sample_seg 0x10 0) = snd_nxt (sample_fin_wait_1\<lparr>snd_lbb := 6512\<rparr>)"
    by (simp add: fin_wait_1_block ack_segment)
  have l: "TCP_SEQ_LT (snd_nxt (sample_fin_wait_1\<lparr>snd_lbb := 6512\<rparr>)) (snd_lbb (sample_fin_wait_1\<lparr>snd_lbb := 6512\<rparr>))"
    by (simp add: fin_wait_1_block TCP_SEQ_LT_def)
  from unsent_fin_taken_for_acked [OF fin_wait_1_inv only_conn_block s quiet_in_net ack_segment(1) c ack_segment(2-4) a l] c
  show ?thesis by (simp add: fin_wait_1_block ack_segment)
qed

section \<open>The lists and the demultiplexing\<close>

text \<open>C10: Whatever segment arrives, \<^verbatim>\<open>tcp_input\<close> leaves the four lists of control blocks well formed: the
  search and the move to the front, a connection that opens, closes, is reset or enters
  \<^verbatim>\<open>TIME-WAIT\<close>, and the callbacks in between. The pool must not hand out a block in use, and no
  connection may hold refused data (\<^verbatim>\<open>ready\<close>).\<close>

theorem tcp_input_keeps_lists:
  assumes "lists_inv st" "fresh st MEMP_TCP_PCB" "no_refused st" "in_env_keeps env"
    and "tcp_input env st p inp src dest = Inr st'"
  shows "lists_inv st'"
  using res_allD [OF tcp_input_inv assms(5)] assms(1-4) by (simp add: ready_def)

text \<open>A datagram shorter than a TCP header is dropped; its pbuf goes back.\<close>

definition short_packet :: "app_st" where
  "short_packet = only_conn [300 \<mapsto> 0x45] [200 \<mapsto> sample_pbuf 0 300 30 30 1] sample_fin_wait_1"

lemma free_only_single:
  assumes "pbufs st p = Some b" "p \<noteq> 0" "pb_next b = 0" "pb_ref b = 1"
  shows "\<exists>st'. free_only st p = Inr st'"
  using pbuf_free_all [of st p "[p]"] assms by (auto simp: free_only_def pref_def chain_fuel_def)

lemma short_packet_run: "\<exists>st'. tcp_input quiet_in_env short_packet 200 1 2 3 = Inr st'"
proof -
  obtain b st1 where "input_checks short_packet 200 1 2 3 = Inr (None, st1)" "pbufs st1 200 = Some b" "pb_next b = 0" "pb_ref b = 1"
    by (simp add: input_checks_def short_packet_def get_pbuf_def sample_pbuf_def rd8_def pbuf_header_def put_pbuf_def SIZEOF_STRUCT_PBUF_def)
  then show ?thesis using free_only_single [of st1 200 b] by (simp add: tcp_input_def)
qed

theorem tcp_input_keeps_lists_witness:
  "\<exists>st'. tcp_input quiet_in_env short_packet 200 1 2 3 = Inr st' \<and> lists_inv st'"
proof -
  obtain st' where r: "tcp_input quiet_in_env short_packet 200 1 2 3 = Inr st'" using short_packet_run by blast
  have L: "lists_inv short_packet"
    unfolding short_packet_def by (rule only_conn_inv) (simp_all add: sample_fin_wait_1_def tcp_samples)
  have f: "fresh short_packet MEMP_TCP_PCB"
    by (simp add: fresh_def short_packet_def common_def) (simp add: only_conn_def sample_app_def sample_tcp_def tcp_st.extend_def app_st.fields_def)
  have n: "no_refused short_packet" by (simp add: no_refused_def short_packet_def sample_fin_wait_1_def tcp_samples)
  from tcp_input_keeps_lists [OF L f n in_env_keeps_quiet r] r show ?thesis by blast
qed

text \<open>C11: The search for the connection of a segment and the move to the front of the list of active blocks
  refine the search in a list: the result is the first block whose four-tuple matches, and its list
  becomes that block followed by the others in their order; without a match nothing is found. No
  other list and no block but its link changes.\<close>

theorem tcp_demux_refines:
  assumes "lists_repr st F" "length (F L_active) \<le> fuel" "\<forall>x \<in> set (F L_active). tcp_pcbs st x \<noteq> None"
  shows "case find (conn_match st src sport dest dport) (F L_active) of
      None \<Rightarrow> \<exists>prev. find_conn fuel st src sport dest dport 0 (tcp_active_pcbs st) = Inr (0, prev)
    | Some p \<Rightarrow> \<exists>prev st'. find_conn fuel st src sport dest dport 0 (tcp_active_pcbs st) = Inr (p, prev)
        \<and> move_to_front st L_active prev p = Inr st'
        \<and> lists_repr st' (F(L_active := p # remove1 p (F L_active)))
        \<and> info st' = info st \<and> unchained st' = unchained st"
proof -
  let ?m = "conn_match st src sport dest dport" and ?xs = "F L_active"
  have l: "linked (next_of st) (tcp_active_pcbs st) ?xs" using lists_reprD(1) [OF assms(1), of L_active] by simp
  from find_conn_spec [OF l assms(3,2), of src sport dest dport 0] obtain q prev where
    r: "find_conn fuel st src sport dest dport 0 (tcp_active_pcbs st) = Inr (q, prev)" "found ?m ?xs 0 (q, prev)" by auto
  show ?thesis
  proof (cases "q = 0")
    case True
    have z: "0 \<notin> set ?xs" by (rule lists_repr_nonzero [OF assms(1)])
    with r(2) True have "\<forall>x \<in> set ?xs. \<not> ?m x" by (auto simp: found_def)
    then have "find ?m ?xs = None" by (simp add: find_None_iff)
    then show ?thesis using r(1) True by simp
  next
    case False
    with r(2) obtain ys zs where ys: "?xs = ys @ q # zs" "prev = (if ys = [] then 0 else last ys)" "?m q"
      "\<forall>y \<in> set ys. \<not> ?m y" by (auto simp: found_def)
    have "find ?m (ys @ q # zs) = Some q" using ys(3,4) by (induction ys) auto
    moreover have "remove1 q ?xs = ys @ zs"
      using ys(1) lists_reprD(2) [OF assms(1), of L_active] by (simp add: remove1_append)
    moreover from move_to_front_spec [OF assms(1) ys(1,2)] obtain st' where
      m: "move_to_front st L_active prev q = Inr st'" "lists_repr st' (F(L_active := q # ys @ zs))" "info st' = info st" by blast
    moreover have "unchained st' = unchained st" using move_to_front_frame [OF m(1)] by blast
    ultimately show ?thesis using ys(1) r(1) by auto
  qed
qed

text \<open>Two connections; the segment is for the second.\<close>

definition two_conns :: tcp_st where
  "two_conns = (sample_tcp Map.empty Map.empty
     [100 \<mapsto> sample_pcb\<lparr>pcb_state := ESTABLISHED, pcb_next := 200, local_port := 7\<rparr>,
      200 \<mapsto> sample_pcb\<lparr>pcb_state := ESTABLISHED, local_port := 8\<rparr>])\<lparr>tcp_active_pcbs := 100\<rparr>"

theorem tcp_demux_refines_witness:
  "\<exists>prev st'. find_conn 2 two_conns 0 0 0 8 0 100 = Inr (200, prev) \<and> move_to_front two_conns L_active prev 200 = Inr st'
     \<and> lists_repr st' ((\<lambda>_. [])(L_active := [200, 100]))"
proof -
  let ?F = "(\<lambda>_. [])(L_active := [100, 200 :: addr])"
  have n: "next_of two_conns 100 = 200" "next_of two_conns 200 = 0"
    by (simp_all add: next_of_eq two_conns_def tcp_samples)
  have h: "head_of two_conns l = (if l = L_active then 100 else 0)" for l
    by (cases l) (simp_all add: two_conns_def sample_tcp_def)
  have d: "common two_conns 100 \<noteq> None" "common two_conns 200 \<noteq> None"
    by (simp_all add: common_def two_conns_def sample_tcp_def)
  have L: "lists_repr two_conns ?F" using n h d by (auto simp: lists_repr_def)
  have t: "\<forall>x \<in> set (?F L_active). tcp_pcbs two_conns x \<noteq> None" by (simp add: two_conns_def sample_tcp_def)
  have m: "find (conn_match two_conns 0 0 0 8) (?F L_active) = Some 200"
    by (simp add: conn_match_def two_conns_def tcp_samples four_tuple_def)
  have a: "tcp_active_pcbs two_conns = 100" by (simp add: two_conns_def)
  from tcp_demux_refines [OF L _ t, of 2 0 0 0 8] show ?thesis unfolding m a by auto
qed

section \<open>Options\<close>

lemma capped_mss:
  fixes w :: u16
  defines "x \<equiv> if TCP_MSS < w \<or> w = 0 then TCP_MSS else w"
  shows "1 \<le> x \<and> x \<le> TCP_MSS"
  unfolding x_def by (auto simp: TCP_MSS_def word_le_nat_alt word_less_nat_alt unat_gt_0 Suc_le_eq)

lemma parseopt_mss:
  "parseopt_loop m h n c mss0 = Inr v \<Longrightarrow> v = mss0 \<or> 1 \<le> v \<and> v \<le> TCP_MSS"
proof (induction "n - c" arbitrary: c mss0 rule: less_induct)
  case less
  have IH: "parseopt_loop m h n c' w = Inr v \<Longrightarrow> c < c' \<Longrightarrow> c < n \<Longrightarrow> v = w \<or> 1 \<le> v \<and> v \<le> TCP_MSS" for c' w
    using less.hyps [of c' w] by simp
  show ?case
  proof (cases "c < n")
    case False
    with less.prems show ?thesis by (subst (asm) parseopt_loop.simps) simp
  next
    case True
    with less.prems obtain opt where o: "rd8 m (h + c) = Inr opt"
      by (subst (asm) parseopt_loop.simps) (auto simp: rbind_eq_Inr)
    consider "opt = 0" | "opt = 1" | "opt = 2" | "opt \<noteq> 0" "opt \<noteq> 1" "opt \<noteq> 2" by blast
    then show ?thesis
    proof cases
      case 1
      with less.prems o True show ?thesis by (subst (asm) parseopt_loop.simps) simp
    next
      case 2
      with less.prems o True have "parseopt_loop m h n (c + 1) mss0 = Inr v" by (subst (asm) parseopt_loop.simps) simp
      then show ?thesis using IH True by simp
    next
      case 3
      with less.prems o True have "v = mss0 \<or>
          (\<exists>w. parseopt_loop m h n (c + 4) (if TCP_MSS < w \<or> w = 0 then TCP_MSS else w) = Inr v)"
        by (subst (asm) parseopt_loop.simps) (auto simp: rbind_eq_Inr Let_def split: if_splits)
      then show ?thesis
      proof (elim disjE exE)
        fix w
        assume "parseopt_loop m h n (c + 4) (if TCP_MSS < w \<or> w = 0 then TCP_MSS else w) = Inr v"
        from IH [OF this _ True] capped_mss [of w] show ?thesis by auto
      qed simp
    next
      case 4
      with less.prems o True obtain len :: u8 where
        "(if len = 0 then Inr mss0 else parseopt_loop m h n (c + unat len) mss0) = Inr v"
        by (subst (asm) parseopt_loop.simps) (auto simp: rbind_eq_Inr)
      then show ?thesis using IH [of "c + unat len" mss0] True by (auto simp: unat_gt_0 split: if_splits)
    qed
  qed
qed

lemma parseopt_returns:
  assumes "\<forall>a. h \<le> a \<and> a \<le> h + n \<longrightarrow> m a \<noteq> None"
  shows "\<exists>v. parseopt_loop m h n c mss0 = Inr v"
proof (induction "n - c" arbitrary: c mss0 rule: less_induct)
  case less
  show ?case
  proof (cases "c < n")
    case False
    then show ?thesis by (subst parseopt_loop.simps) simp
  next
    case True
    have rd: "\<exists>b. rd8 m (h + k) = Inr b" if "k \<le> n" for k
      using spec [OF assms, of "h + k"] that by (auto simp: rd8_def)
    obtain opt where o: "rd8 m (h + c) = Inr opt" using rd [of c] True by auto
    obtain len where l: "rd8 m (Suc (h + c)) = Inr len" using rd [of "Suc c"] True by auto
    have IH: "\<exists>v. parseopt_loop m h n c' w = Inr v" if "c < c'" for c' w
      using less.hyps [of c' w] that True by simp
    have mss: "\<exists>v. parseopt_loop m h n c mss0 = Inr v" if a: "opt = 2" "len = 4" "c + 4 \<le> n"
    proof -
      obtain hi lo where "rd8 m (h + c + 2) = Inr hi" "rd8 m (h + c + 3) = Inr lo"
        using rd [of "c + 2"] rd [of "c + 3"] a(3) by (auto simp: add.assoc)
      then show ?thesis using o l a True IH by (subst parseopt_loop.simps) (simp add: Let_def)
    qed
    show ?thesis
      using mss o l True IH [of "c + 1"] IH [of "c + unat len"]
      by (cases "opt = 2 \<and> len = 4 \<and> c + 4 \<le> n", blast) (subst parseopt_loop.simps, auto simp: unat_gt_0)
  qed
qed

lemma unat_u16_less: "unat (x :: u16) < 65536"
  by (rule order.strict_trans2 [OF unsigned_less]) simp

lemma hdrlen_bound: "TCPH_HDRLEN m h = Inr hl \<Longrightarrow> unat hl \<le> 15"
proof -
  assume "TCPH_HDRLEN m h = Inr hl"
  then obtain x :: u16 where "hl = drop_bit 12 x" by (auto simp: TCPH_HDRLEN_def rbind_eq_Inr)
  moreover have "unat (drop_bit 12 x) = unat x div 4096" by (simp add: unat_drop_bit_eq drop_bit_nat_def)
  ultimately show ?thesis using div_le_mono [of "unat x" 65535 4096] unat_u16_less [of x] by simp
qed

text \<open>C12: Reading the options of a segment always ends, whatever they are, and changes nothing but the segment
  size of the connection: that stays as it was or becomes one from 1 to \<^verbatim>\<open>TCP_MSS\<close>, never 0. No more
  than the options and the one byte behind them is read (that byte is, when the last option is only
  its kind).\<close>

theorem tcp_parseopt_safe:
  assumes "tcp_pcbs st p = Some c" "p \<noteq> 0" "TCPH_HDRLEN (bytes st) (tcphdr (inseg i)) = Inr hl"
    and "\<forall>a. tcphdr (inseg i) + 20 \<le> a \<and> a \<le> tcphdr (inseg i) + 4 * unat hl \<longrightarrow> bytes st a \<noteq> None"
  shows "unat hl \<le> 15 \<and> (\<exists>m. tcp_parseopt i st p = Inr (put_pcb st p (c\<lparr>mss := m\<rparr>)) \<and>
    (m = mss c \<or> 1 \<le> m \<and> m \<le> TCP_MSS))"
proof
  show "unat hl \<le> 15" by (rule hdrlen_bound [OF assms(3)])
  have g: "get_pcb st p = Inr c" using assms(1,2) by (simp add: get_pcb_iff)
  show "\<exists>m. tcp_parseopt i st p = Inr (put_pcb st p (c\<lparr>mss := m\<rparr>)) \<and> (m = mss c \<or> 1 \<le> m \<and> m \<le> TCP_MSS)"
  proof (cases "5 < hl")
    case True
    then have h: "5 \<le> unat hl" by (simp add: word_less_nat_alt)
    have e: "tcphdr (inseg i) + 20 + (unat hl - 5) * 4 = tcphdr (inseg i) + 4 * unat hl" using h by simp
    obtain v where v: "parseopt_loop (bytes st) (tcphdr (inseg i) + 20) ((unat hl - 5) * 4) 0 (mss c) = Inr v"
      using parseopt_returns [of "tcphdr (inseg i) + 20" "(unat hl - 5) * 4" "bytes st" 0 "mss c"] assms(4) unfolding e by blast
    with parseopt_mss [OF v] True g assms(3) show ?thesis by (intro exI [of _ v]) (simp add: tcp_parseopt_def)
  next
    case False
    have "put_pcb st p (c\<lparr>mss := mss c\<rparr>) = st" using assms(1) by (simp add: put_pcb_def fun_upd_idem)
    with False assms(3) show ?thesis by (intro exI [of _ "mss c"]) (simp add: tcp_parseopt_def)
  qed
qed

text \<open>The options say \<^verbatim>\<open>mss 0\<close>, which is taken as the largest size.\<close>

definition opt_mem :: memory where
  "opt_mem = (seg_mem 0x10)(512 \<mapsto> 0x60, 520 \<mapsto> 2, 521 \<mapsto> 4, 522 \<mapsto> 0, 523 \<mapsto> 0)"

theorem tcp_parseopt_safe_witness:
  "\<exists>m. tcp_parseopt (sample_seg 0x10 0) (only_conn opt_mem Map.empty sample_pcb) 100
      = Inr (only_conn opt_mem Map.empty (sample_pcb\<lparr>mss := m\<rparr>)) \<and> 1 \<le> m \<and> m \<le> 1460"
proof -
  let ?st = "only_conn opt_mem Map.empty sample_pcb"
  have h: "TCPH_HDRLEN (bytes ?st) (tcphdr (inseg (sample_seg 0x10 0))) = Inr 6"
    by (simp add: sample_seg_def opt_mem_def hdr_eval)
  have r: "\<forall>a. tcphdr (inseg (sample_seg 0x10 0)) + 20 \<le> a \<and> a \<le> tcphdr (inseg (sample_seg 0x10 0)) + 4 * unat (6 :: u16)
      \<longrightarrow> bytes ?st a \<noteq> None"
  proof (intro allI impI)
    fix a
    assume "tcphdr (inseg (sample_seg 0x10 0)) + 20 \<le> a \<and> a \<le> tcphdr (inseg (sample_seg 0x10 0)) + 4 * unat (6 :: u16)"
    then have "a = 520 \<or> a = 521 \<or> a = 522 \<or> a = 523 \<or> a = 524" by (auto simp: sample_seg_def)
    then show "bytes ?st a \<noteq> None" by (auto simp: opt_mem_def seg_mem_def)
  qed
  have m: "mss sample_pcb = 536" by (simp add: tcp_samples initial_mss_def TCP_MSS_def)
  from tcp_parseopt_safe [OF _ _ h r, of 100 sample_pcb] obtain v where
    "tcp_parseopt (sample_seg 0x10 0) ?st 100 = Inr (put_pcb ?st 100 (sample_pcb\<lparr>mss := v\<rparr>))"
    "v = 536 \<or> 1 \<le> v \<and> v \<le> TCP_MSS" by (auto simp: m)
  then show ?thesis by (intro exI [of _ v]) (auto simp: TCP_MSS_def)
qed

section \<open>The window\<close>

lemma ucast_u16_u32: "ucast (ucast n :: u32) = (n :: u16)"
  by (rule bit_word_eqI) (simp add: bit_simps)

text \<open>C13: A segment that was queued out of order may be longer than what is left of the window: the first one
  is queued whole, and that it fits is only asserted. When it comes in sequence its length is taken
  from the window all the same, which wraps around: a full window turns into one of nearly 64K that
  is announced to the peer, so the bound on what the peer may send is lost.\<close>

theorem ooseq_overrun_wraps_window:
  assumes c: "tcp_pcbs st p = Some c" "p \<noteq> 0" "recv_data i = 0"
    and s: "hdr_seqno (bytes st) (tcphdr s) = Inr (rcv_nxt c)" "TCPH_FLAGS (bytes st) (tcphdr s) = Inr fl"
      "fl AND (TCP_FIN OR TCP_SYN) = 0" "seg_p s \<noteq> 0" "pbufs st (seg_p s) = Some b" "0 < tot_len b"
    and over: "rcv_wnd c < seg_len s"
  shows "\<exists>i' st' c'. drain_ooseq i st p [s] = Inr (i', st') \<and> tcp_pcbs st' p = Some c' \<and>
    rcv_nxt c' = rcv_nxt c + ucast (seg_len s) \<and>
    unat (rcv_wnd c') = 65536 + unat (rcv_wnd c) - unat (seg_len s) \<and> rcv_wnd c < rcv_wnd c'"
proof -
  let ?c = "advance_rcv (rcv_nxt c) (ucast (seg_len s)) c"
  have fin: "fl AND TCP_FIN = 0"
  proof -
    have "fl AND TCP_FIN = (fl AND (TCP_FIN OR TCP_SYN)) AND TCP_FIN" by (simp add: tcp_flag_eval and.assoc)
    then show ?thesis using s(3) by simp
  qed
  have n: "TCP_TCPLEN (bytes st) s = Inr (ucast (seg_len s))" using s(2,3) by (simp add: TCP_TCPLEN_def)
  have w: "rcv_wnd ?c = rcv_wnd c - seg_len s" "rcv_nxt ?c = rcv_nxt c + ucast (seg_len s)"
    by (simp_all add: advance_rcv_def tcp_update_rcv_ann_wnd_def Let_def ucast_u16_u32)
  have u: "unat (rcv_wnd c - seg_len s) = 65536 + unat (rcv_wnd c) - unat (seg_len s)"
    using over unat_sub_if' [of "rcv_wnd c" "seg_len s"] by (simp add: word_less_nat_alt)
  then have "unat (rcv_wnd c) < unat (rcv_wnd c - seg_len s)" using unat_u16_less [of "seg_len s"] by linarith
  then have "rcv_wnd c < rcv_wnd c - seg_len s" by (simp add: word_less_nat_alt)
  then show ?thesis
    using c s(1,2,4-6) fin n w u
    by (simp add: get_pcb_def upd_pcb_def take_data_def note_fin_def get_pbuf_def tcp_seg_free_def)
qed

text \<open>1,048 bytes of window are left; the queued segment has 1,460.\<close>

theorem ooseq_overrun_wraps_window_witness:
  "\<exists>i' st' c'. drain_ooseq (sample_seg 0x10 0)
       (only_conn (seg_mem 0x10) [200 \<mapsto> sample_pbuf 0 520 1460 1460 1] (sample_pcb\<lparr>rcv_wnd := 1048\<rparr>)) 100
       [\<lparr>seg_at = 0, seg_p = 200, seg_len = 1460, seg_flags = 0, tcphdr = 500\<rparr>] = Inr (i', st')
     \<and> tcp_pcbs st' 100 = Some c' \<and> unat (rcv_wnd c') = 65124"
proof -
  let ?s = "\<lparr>seg_at = 0, seg_p = 200, seg_len = 1460, seg_flags = 0, tcphdr = 500\<rparr> :: tcp_seg"
  let ?c = "sample_pcb\<lparr>rcv_wnd := 1048\<rparr>" and ?b = "sample_pbuf 0 520 1460 1460 1"
  let ?st = "only_conn (seg_mem 0x10) [200 \<mapsto> ?b] ?c"
  have q: "hdr_seqno (bytes ?st) (tcphdr ?s) = Inr (rcv_nxt ?c)" by (simp add: tcp_samples)
  have f: "TCPH_FLAGS (bytes ?st) (tcphdr ?s) = Inr 0x10" by (simp add: hdr_eval)
  have n: "0x10 AND (TCP_FIN OR TCP_SYN) = 0" by (simp add: tcp_flag_eval)
  have b: "pbufs ?st (seg_p ?s) = Some ?b" "0 < tot_len ?b" by (simp_all add: sample_pbuf_def)
  have r: "recv_data (sample_seg 0x10 0) = 0" by (simp add: sample_seg_def)
  from ooseq_overrun_wraps_window [OF _ _ r q f n _ b, of 100] show ?thesis by fastforce
qed

end
