(* ===== verification/Services.thy ===== *)
theory Services
  imports TcpInProps 
begin

text \<open>
  The services over the TCP module: what a segment that arrives for port 8 makes the program print,
  from \<^verbatim>\<open>tcp_input\<close>'s delivery to a connection down to the lines on the console. This is where
  \<^verbatim>\<open>tcp_in.c\<close>, \<^verbatim>\<open>tcp.c\<close>, \<^verbatim>\<open>pbuf.c\<close> and \<^verbatim>\<open>seq_send.c\<close> come together.
\<close>

section \<open>The callbacks behind the function pointers\<close>

definition app_in_env :: "('a app_st_scheme) ip_env \<Rightarrow> ('a app_st_scheme) tcp_in_env" where
  "app_in_env ie =
     \<lparr>tenv = app_env ie,
      call_accept = (\<lambda>f arg pcb err st.
        case f of
          FN_seq_accept_callback \<Rightarrow> seq_accept_callback st arg pcb err
        | FN_data_accept_callback \<Rightarrow> data_accept_callback st arg pcb err
        | _ \<Rightarrow> Inl Null_deref),
      call_sent = (\<lambda>f arg pcb n st. Inl Null_deref),
      call_connected = (\<lambda>f arg pcb err st. Inl Null_deref)\<rparr>"

section \<open>An idle connection and a segment for it\<close>

text \<open>
  \<open>idle\<close>: established, with nothing to send, nothing queued and nothing refused, and a window that is
  announced as it is. \<open>plain_data\<close>: a data segment without options and without \<^verbatim>\<open>SYN\<close>, \<^verbatim>\<open>FIN\<close>, \<^verbatim>\<open>RST\<close>
  that is the next in sequence, fits the window and acknowledges nothing new.
\<close>

definition idle :: "tcp_pcb \<Rightarrow> bool" where
  "idle c \<longleftrightarrow> pcb_state c = ESTABLISHED \<and> pcb_flags c = 0 \<and> ooseq c = [] \<and> unsent c = [] \<and> unacked c = [] \<and>
     refused_data c = 0 \<and> rttest c = 0 \<and> rcv_nxt c + ucast (rcv_wnd c) = rcv_ann_right_edge c \<and>
     unat (rcv_wnd c) \<le> 2048"

definition plain_data :: "memory \<Rightarrow> tcpin \<Rightarrow> tcp_pcb \<Rightarrow> u16 \<Rightarrow> bool" where
  "plain_data m i c n \<longleftrightarrow> flags i AND TCP_ACK \<noteq> 0 \<and> flags i AND TCP_RST = 0 \<and> flags i AND TCP_SYN = 0 \<and> flags i AND TCP_FIN = 0 \<and>
     TCPH_FLAGS m (tcphdr (inseg i)) = Inr (flags i) \<and> TCPH_HDRLEN m (tcphdr (inseg i)) = Inr 5 \<and>
     (\<exists>w. hdr_wnd m (tcphdr (inseg i)) = Inr w) \<and>
     seqno i = rcv_nxt c \<and> ackno i = lastack c \<and> tcplen i = n \<and> seg_len (inseg i) = n \<and>
     recv_flags i = 0 \<and> recv_data i = 0 \<and>
     0 < n \<and> unat n \<le> unat (rcv_wnd c) \<and> unat n < min 1024 (unat (mss c))"

lemma seq_same [simp]:
  "TCP_SEQ_LT a a = False" "TCP_SEQ_LEQ a a" "TCP_SEQ_GEQ a a" "TCP_SEQ_GT a a = False"
  by (simp_all add: TCP_SEQ_LT_def TCP_SEQ_LEQ_def TCP_SEQ_GEQ_def TCP_SEQ_GT_def)

lemma not_between_next: "\<not> TCP_SEQ_BETWEEN a (a + 1) b"
  by (simp add: TCP_SEQ_BETWEEN_def TCP_SEQ_GEQ_def)

lemma sint_of_small: "n < 2 ^ 31 \<Longrightarrow> sint (word_of_nat n :: u32) = int n"
  using sint_u32_neg by (simp add: signed_take_bit_int_eq_self_iff signed_of_nat)

lemma window_start:
  assumes "0 < unat w" "unat w \<le> 2048"
  shows "in_window (rcv_nxt c) (c\<lparr>rcv_wnd := w\<rparr>)"
proof -
  have "sint (rcv_nxt c - (rcv_nxt c + ucast w - 1)) = 1 - int (unat w)"
  proof -
    have "rcv_nxt c - (rcv_nxt c + ucast w - 1) = (word_of_nat 1 - word_of_nat (unat w) :: u32)" by simp
    then show ?thesis
      using sint_u32_neg [of 1 "unat w"] assms by (cases "unat w = 1") auto
  qed
  moreover have "1 - int (unat w) \<le> 0" using assms(1) by linarith
  ultimately have "sint (rcv_nxt c - (rcv_nxt c + ucast w - 1)) \<le> 0" by simp
  then show ?thesis by (simp add: in_window_def TCP_SEQ_BETWEEN_def TCP_SEQ_LEQ_def)
qed

text \<open>Taking \<open>n\<close> bytes from the window of an idle connection moves its edges together.\<close>

lemma advance_idle:
  assumes "rcv_nxt c + ucast (rcv_wnd c) = rcv_ann_right_edge c" "unat n \<le> unat (rcv_wnd c)" "unat (rcv_wnd c) \<le> 2048"
    and "0 < unat (mss c)"
  shows "\<exists>w. advance_rcv (rcv_nxt c) (ucast n) c
    = c\<lparr>rcv_nxt := rcv_nxt c + ucast n, rcv_wnd := rcv_wnd c - n, rcv_ann_wnd := w\<rparr>"
proof -
  let ?m = "min (TCP_WND div 2) (mss c)"
  have u: "unat (rcv_wnd c - n) = unat (rcv_wnd c) - unat n" using assms(2) by (simp add: unat_sub word_le_nat_alt)
  have e: "rcv_nxt c + ucast n + ucast (rcv_wnd c - n) = rcv_ann_right_edge c"
  proof -
    have "ucast n + ucast (rcv_wnd c - n) = (ucast (rcv_wnd c) :: u32)"
      by (rule word_unat_eq_iff [THEN iffD2]) (use assms(2,3) u in \<open>simp add: unat_word_ariths\<close>)
    then show ?thesis using assms(1) by (simp add: add.assoc)
  qed
  have m: "0 < unat ?m" "unat ?m \<le> 1024" using assms(4) by (auto simp: TCP_WND_def min_def word_le_nat_alt)
  have "sint (- ucast ?m :: u32) = - int (unat ?m)"
    using sint_u32_neg [of 0 "unat ?m"] m by simp
  then have "sint (- ucast ?m :: u32) < 0" using m(1) by linarith
  then have g: "\<not> TCP_SEQ_GEQ (rcv_ann_right_edge c) (rcv_ann_right_edge c + ucast ?m)" by (simp add: TCP_SEQ_GEQ_def)
  have "rcv_nxt c + ucast n - rcv_ann_right_edge c = word_of_nat (unat n) - (word_of_nat (unat (rcv_wnd c)) :: u32)"
    using assms(1) by (simp add: algebra_simps) 
  moreover have "sint (word_of_nat (unat n) - (word_of_nat (unat (rcv_wnd c)) :: u32)) \<le> 0"
  proof (cases "unat n = unat (rcv_wnd c)")
    case False
    then have "sint (word_of_nat (unat n) - (word_of_nat (unat (rcv_wnd c)) :: u32)) = int (unat n) - int (unat (rcv_wnd c))"
      by (intro sint_u32_neg) (use assms(2,3) in simp_all)
    then show ?thesis using assms(2) by linarith
  qed simp
  ultimately have "sint (rcv_nxt c + ucast n - rcv_ann_right_edge c) \<le> 0" by metis
  then have "\<not> TCP_SEQ_GT (rcv_nxt c + ucast n) (rcv_ann_right_edge c)" by (simp add: TCP_SEQ_GT_def)
  then show ?thesis
    using g e by (intro exI) (simp add: advance_rcv_def tcp_update_rcv_ann_wnd_def Let_def ucast_u16_u32)
qed


section \<open>Receiving the segment\<close>

lemma receive_ack_idle:
  assumes "tcp_pcbs st p = Some c" "p \<noteq> 0" "idle c" "plain_data (bytes st) i c n"
  shows "\<exists>c'. receive_ack i st p = Inr (put_pcb st p c') \<and> idle c' \<and> rcv_nxt c' = rcv_nxt c \<and> rcv_wnd c' = rcv_wnd c \<and>
    mss c' = mss c \<and> acked c' = 0 \<and> recv_fn c' = recv_fn c \<and> callback_arg c' = callback_arg c \<and> lastack c' = lastack c"
proof -
  from assms(4) obtain w where w: "hdr_wnd (bytes st) (tcphdr (inseg i)) = Inr w" by (auto simp: plain_data_def)
  let ?c = "(update_send_window i w c)\<lparr>acked := 0, dupacks := 0\<rparr>"
  have u: "unsent ?c = []" "rttest ?c = 0" "lastack (update_send_window i w c) = ackno i" "tcplen i \<noteq> 0"
    using assms(3,4) by (auto simp: idle_def plain_data_def update_send_window_def)
  have put: "put_pcb (put_pcb s p a) p b = put_pcb s p b" for s :: "'a tcp_st_scheme" and a b
    by (simp add: put_pcb_def)
  have "receive_ack i st p = Inr (put_pcb st p ?c)"
    using assms(1,2) w u
    by (simp add: receive_ack_def duplicate_ack_def get_pcb_def Let_def upd_pcb_def rtt_estimate_def put)
  moreover have "idle ?c" using assms(3) by (simp add: idle_def update_send_window_def)
  ultimately show ?thesis by (intro exI [of _ ?c]) (simp add: update_send_window_def)
qed

lemma in_sequence_idle:
  assumes c: "tcp_pcbs st p = Some c" "p \<noteq> 0" "idle c" and d: "plain_data (bytes st) i c n"
    and b: "pbufs st (seg_p (inseg i)) = Some b" "tot_len b = n" "seg_p (inseg i) \<noteq> 0"
  shows "\<exists>w. in_sequence i st p = Inr (i\<lparr>recv_data := seg_p (inseg i), inseg := (inseg i)\<lparr>seg_p := 0\<rparr>\<rparr>,
    put_pcb st p (c\<lparr>rcv_nxt := rcv_nxt c + ucast n, rcv_wnd := rcv_wnd c - n, rcv_ann_wnd := w, pcb_flags := TF_ACK_DELAY\<rparr>))"
proof -
  have f: "TCPH_FLAGS (bytes st) (tcphdr (inseg i)) = Inr (flags i)" "flags i AND TCP_SYN = 0" "flags i AND TCP_FIN = 0"
    "tcplen i = n" "seg_len (inseg i) = n" "seqno i = rcv_nxt c" "recv_data i = 0" "recv_flags i = 0" "0 < n"
    "unat n \<le> unat (rcv_wnd c)" "0 < unat (mss c)"
    using d by (auto simp: plain_data_def)
  have fs: "flags i AND (TCP_FIN OR TCP_SYN) = 0" using f(2,3) by (simp add: bit.conj_disj_distrib)
  have t: "set_tcplen i st = Inr i" using f fs by (cases i) (simp add: set_tcplen_def TCP_TCPLEN_def ucast_u16_u32)
  have nw: "\<not> rcv_wnd c < n" using f(10) by (simp add: word_less_nat_alt)
  have g: "get_pcb st p = Inr c" using c by (simp add: get_pcb_iff)
  have cl: "clip_to_window i st p = Inr (i, st)" using g nw f(4) by (simp add: clip_to_window_def t)
  have me: "merge_ooseq i st p = Inr (i, st)" using g c(3) by (simp add: merge_ooseq_def idle_def)
  obtain w where w: "advance_rcv (rcv_nxt c) (ucast n) c
    = c\<lparr>rcv_nxt := rcv_nxt c + ucast n, rcv_wnd := rcv_wnd c - n, rcv_ann_wnd := w\<rparr>"
    using advance_idle [of c n] c(3) f(10,11) by (auto simp: idle_def)
  have q: "ooseq c = []" "pcb_flags c = 0" using c(3) by (simp_all add: idle_def)
  show ?thesis
    using c(1,2) f fs b w q
    by (intro exI [of _ w])
      (simp add: in_sequence_def cl me upd_pcb_def get_pcb_def get_pbuf_def Let_def tcp_ack_def put_pcb_def)
qed


lemma tcp_receive_idle:
  assumes c: "tcp_pcbs st p = Some c" "p \<noteq> 0" "idle c" and d: "plain_data (bytes st) i c n"
    and b: "pbufs st (seg_p (inseg i)) = Some b" "tot_len b = n" "seg_p (inseg i) \<noteq> 0"
  shows "\<exists>c' w. tcp_receive env i st p = Inr (i\<lparr>recv_data := seg_p (inseg i), inseg := (inseg i)\<lparr>seg_p := 0\<rparr>\<rparr>,
      put_pcb st p (c'\<lparr>rcv_nxt := rcv_nxt c' + ucast n, rcv_wnd := rcv_wnd c' - n, rcv_ann_wnd := w, pcb_flags := TF_ACK_DELAY\<rparr>))
    \<and> idle c' \<and> rcv_nxt c' = rcv_nxt c \<and> rcv_wnd c' = rcv_wnd c \<and> mss c' = mss c \<and> acked c' = 0
    \<and> recv_fn c' = recv_fn c \<and> callback_arg c' = callback_arg c"
proof -
  from receive_ack_idle [OF c d] obtain c' where a: "receive_ack i st p = Inr (put_pcb st p c')" "idle c'"
    "rcv_nxt c' = rcv_nxt c" "rcv_wnd c' = rcv_wnd c" "mss c' = mss c" "acked c' = 0" "recv_fn c' = recv_fn c"
    "callback_arg c' = callback_arg c" "lastack c' = lastack c" by blast
  let ?st = "put_pcb st p c'"
  have f: "flags i AND TCP_ACK \<noteq> 0" "tcplen i = n" "0 < n" "seqno i = rcv_nxt c" "unat n \<le> unat (rcv_wnd c)"
    using d by (auto simp: plain_data_def)
  have g: "get_pcb ?st p = Inr c'" using c(2) by (simp add: get_pcb_iff)
  have s: "pcb_state c' < CLOSE_WAIT" using a(2) by (simp add: idle_def less_tcp_state_def)
  have tf: "trim_front i ?st p = Inr (i, ?st)"
    using f(4) a(3) not_between_next [of "rcv_nxt c"] by (simp add: trim_front_def g)
  have "0 < unat (rcv_wnd c')" using f(3,5) a(4) by (simp add: word_less_nat_alt)
  moreover have "unat (rcv_wnd c') \<le> 2048" using a(2) by (simp add: idle_def)
  ultimately have wi: "in_window (seqno i) c'" using window_start [of "rcv_wnd c'" c'] f(4) a(3) by simp
  have d': "plain_data (bytes ?st) i c' n"
    using d a(3-5,9) by (simp add: plain_data_def)
  from in_sequence_idle [of ?st p c' i n b] c(2) a(2) d' b obtain w where
    "in_sequence i ?st p = Inr (i\<lparr>recv_data := seg_p (inseg i), inseg := (inseg i)\<lparr>seg_p := 0\<rparr>\<rparr>,
      put_pcb ?st p (c'\<lparr>rcv_nxt := rcv_nxt c' + ucast n, rcv_wnd := rcv_wnd c' - n, rcv_ann_wnd := w, pcb_flags := TF_ACK_DELAY\<rparr>))"
    by auto
  then have "tcp_receive env i st p = Inr (i\<lparr>recv_data := seg_p (inseg i), inseg := (inseg i)\<lparr>seg_p := 0\<rparr>\<rparr>,
      put_pcb st p (c'\<lparr>rcv_nxt := rcv_nxt c' + ucast n, rcv_wnd := rcv_wnd c' - n, rcv_ann_wnd := w, pcb_flags := TF_ACK_DELAY\<rparr>))"
    using a(1,3) f g s tf wi by (simp add: tcp_receive_def put_pcb_def)
  with a show ?thesis by blast
qed

section \<open>Delivering it\<close>

lemma pchain_same_next:
  "h q = Some b \<Longrightarrow> pb_next b' = pb_next b \<Longrightarrow> pchain (h(q \<mapsto> b')) p xs = pchain h p xs"
  by (induction xs arbitrary: p) (auto split: option.split)

lemma process_idle:
  assumes c: "tcp_pcbs st p = Some c" "p \<noteq> 0" "idle c" and d: "plain_data (bytes st) i c n"
    and b: "pbufs st (seg_p (inseg i)) = Some b" "tot_len b = n" "seg_p (inseg i) \<noteq> 0"
  shows "\<exists>c' w. tcp_process env i st p = Inr (ERR_OK, i\<lparr>recv_data := seg_p (inseg i), inseg := (inseg i)\<lparr>seg_p := 0\<rparr>\<rparr>,
      put_pcb st p (c'\<lparr>rcv_nxt := rcv_nxt c' + ucast n, rcv_wnd := rcv_wnd c' - n, rcv_ann_wnd := w, pcb_flags := TF_ACK_DELAY\<rparr>))
    \<and> idle c' \<and> rcv_nxt c' = rcv_nxt c \<and> rcv_wnd c' = rcv_wnd c \<and> mss c' = mss c \<and> acked c' = 0
    \<and> recv_fn c' = recv_fn c \<and> callback_arg c' = callback_arg c"
proof -
  let ?c = "c\<lparr>tmr := tcp_ticks st, keep_cnt_sent := 0\<rparr>"
  let ?st = "put_pcb st p ?c"
  have f: "flags i AND TCP_RST = 0" "flags i AND TCP_SYN = 0" "TCPH_HDRLEN (bytes st) (tcphdr (inseg i)) = Inr 5" "recv_flags i = 0"
    using d by (auto simp: plain_data_def)
  have e: "pcb_state c = ESTABLISHED" "pcb_flags c = 0" using c(3) by (simp_all add: idle_def)
  have i: "idle ?c" using c(3) by (simp add: idle_def)
  have d': "plain_data (bytes ?st) i ?c n" using d by (simp add: plain_data_def)
  from tcp_receive_idle [of ?st p ?c i n b "ipe (tenv env)"] c(2) i d' b obtain c' w where
    r: "tcp_receive (ipe (tenv env)) i ?st p = Inr (i\<lparr>recv_data := seg_p (inseg i), inseg := (inseg i)\<lparr>seg_p := 0\<rparr>\<rparr>,
      put_pcb ?st p (c'\<lparr>rcv_nxt := rcv_nxt c' + ucast n, rcv_wnd := rcv_wnd c' - n, rcv_ann_wnd := w, pcb_flags := TF_ACK_DELAY\<rparr>))"
    and c': "idle c'" "rcv_nxt c' = rcv_nxt c" "rcv_wnd c' = rcv_wnd c" "mss c' = mss c" "acked c' = 0"
      "recv_fn c' = recv_fn c" "callback_arg c' = callback_arg c" by auto
  have "tcp_process env i st p = Inr (ERR_OK, i\<lparr>recv_data := seg_p (inseg i), inseg := (inseg i)\<lparr>seg_p := 0\<rparr>\<rparr>,
      put_pcb st p (c'\<lparr>rcv_nxt := rcv_nxt c' + ucast n, rcv_wnd := rcv_wnd c' - n, rcv_ann_wnd := w, pcb_flags := TF_ACK_DELAY\<rparr>))"
    using c(1,2) f e r
    by (simp add: tcp_process_def tcp_parseopt_def get_pcb_def process_received_def put_pcb_def Let_def)
  with c' show ?thesis by blast
qed

lemma output_idle:
  assumes "tcp_pcbs st p = Some c" "p \<noteq> 0" "tcp_input_pcb st \<noteq> p" "unsent c = []" "pcb_flags c = TF_ACK_DELAY"
  shows "tcp_output env st p = Inr (ERR_OK, put_pcb st p c)"
proof -
  have eq: "c\<lparr>pcb_flags := TF_ACK_DELAY\<rparr> = c" using assms(5) by (cases c) simp
  have "TF_ACK_DELAY AND TF_ACK_NOW = 0" "TF_ACK_DELAY AND NOT TF_NAGLEMEMERR = TF_ACK_DELAY"
    by (simp_all add: TF_ACK_DELAY_def TF_ACK_NOW_def TF_NAGLEMEMERR_def)
  moreover have "output_loop seg_fuel env st p w u = Inr st" for w u
    using assms by (simp add: seg_fuel_def get_pcb_def eval_nat_numeral)
  ultimately have "tcp_output env st p = Inr (ERR_OK, put_pcb st p (c\<lparr>pcb_flags := TF_ACK_DELAY\<rparr>))"
    using assms by (simp add: tcp_output_def get_pcb_def upd_pcb_def)
  then show ?thesis by (simp only: eq)
qed

lemma input_conn_steps:
  assumes "q = seg_p (inseg i)" "(if flags i AND TCP_PSH \<noteq> 0
      then upd_pbuf st q (\<lambda>b. b\<lparr>pb_flags := pb_flags b OR PBUF_FLAG_PUSH\<rparr>) else Inr st) = Inr st1"
    and "get_pcb st1 p = Inr c" "refused_data c = 0"
    and "tcp_process env i (st1\<lparr>tcp_input_pcb := p\<rparr>) p = Inr (ERR_OK, i1, st3)" "input_deliver env i1 st3 p = Inr st4"
  shows "input_conn env i st p = Inr (i1, st4)"
  unfolding input_conn_def assms(1) [symmetric] assms(2) using assms(3-6) by simp

section \<open>Properties\<close>

text \<open>C1: From the segment to the console. A data segment that is next in sequence on an idle connection of
  port 8 makes the program print its first \<open>n mod 256\<close> bytes as big-endian words, filled up with
  \<^verbatim>\<open>0xFF\<close>, one per line; \<^verbatim>\<open>rcv_nxt\<close> advances by the length of the segment, the receive window is
  back at what it was, the acknowledgement is delayed, and the pbufs are freed.\<close>

theorem segment_prints_words:
  fixes st :: "'a app_st_scheme"
  assumes c: "tcp_pcbs st p = Some c" "p \<noteq> 0" "idle c" "recv_fn c = FN_seq_recv_callback"
    and d: "plain_data (bytes st) i c n" and q: "q = seg_p (inseg i)" "q \<noteq> 0"
    and b: "pbufs st q = Some b" "tot_len b = n"
    and chain: "pchain (pbufs st) q xs" "distinct xs" "length xs \<le> chain_fuel" "\<forall>x \<in> set xs. pref (pbufs st) x = 1"
    and data: "holds (bytes st) (payload b) bs" "length bs = unat n mod 256"
  shows "\<exists>i' st' c'. input_conn (app_in_env ie) i st p = Inr (i', st') \<and> seg_p (inseg i') = 0
    \<and> out st' = out st @ map seq_line (be_words (pad4 bs))
    \<and> tcp_pcbs st' = (tcp_pcbs st)(p \<mapsto> c') \<and> rcv_nxt c' = rcv_nxt c + ucast n \<and> rcv_wnd c' = rcv_wnd c
    \<and> pcb_state c' = ESTABLISHED \<and> pcb_flags c' = TF_ACK_DELAY \<and> (\<forall>x \<in> set xs. pbufs st' x = None)"
proof -
  let ?s = "\<lambda>b1. (put_pbuf st q b1)\<lparr>tcp_input_pcb := p\<rparr>"
  have "\<exists>b1. (if flags i AND TCP_PSH \<noteq> 0
            then upd_pbuf st q (\<lambda>b. b\<lparr>pb_flags := pb_flags b OR PBUF_FLAG_PUSH\<rparr>) else Inr st) = Inr (put_pbuf st q b1)
      \<and> pb_next b1 = pb_next b \<and> tot_len b1 = n \<and> payload b1 = payload b \<and> pb_ref b1 = pb_ref b"
  proof (cases "flags i AND TCP_PSH = 0")
    case True
    have "put_pbuf st q b = st" using b(1) by (simp add: put_pbuf_def fun_upd_idem)
    then show ?thesis using True b(2) by (intro exI [of _ b]) simp
  next
    case False
    then show ?thesis using b q(2)
      by (intro exI [of _ "b\<lparr>pb_flags := pb_flags b OR PBUF_FLAG_PUSH\<rparr>"]) (simp add: upd_pbuf_def get_pbuf_def)
  qed
  then obtain b1 where b1: "(if flags i AND TCP_PSH \<noteq> 0
            then upd_pbuf st q (\<lambda>b. b\<lparr>pb_flags := pb_flags b OR PBUF_FLAG_PUSH\<rparr>) else Inr st) = Inr (put_pbuf st q b1)"
      "pb_next b1 = pb_next b" "tot_len b1 = n" "payload b1 = payload b" "pb_ref b1 = pb_ref b" by blast
  have s: "tcp_pcbs (?s b1) = tcp_pcbs st" "bytes (?s b1) = bytes st" "pbufs (?s b1) = (pbufs st)(q \<mapsto> b1)" "out (?s b1) = out st"
    by (simp_all add: put_pbuf_def)
  have r: "refused_data c = 0" using c(3) by (simp add: idle_def)
  from process_idle [of "?s b1" p c i n b1 "app_in_env ie"] c(1-3) d q s b1(3) obtain c' w where
    pr: "tcp_process (app_in_env ie) i (?s b1) p = Inr (ERR_OK, i\<lparr>recv_data := q, inseg := (inseg i)\<lparr>seg_p := 0\<rparr>\<rparr>,
      put_pcb (?s b1) p (c'\<lparr>rcv_nxt := rcv_nxt c' + ucast n, rcv_wnd := rcv_wnd c' - n, rcv_ann_wnd := w, pcb_flags := TF_ACK_DELAY\<rparr>))"
    and c': "idle c'" "rcv_nxt c' = rcv_nxt c" "rcv_wnd c' = rcv_wnd c" "mss c' = mss c" "acked c' = 0" "recv_fn c' = recv_fn c"
    by auto
  let ?c2 = "c'\<lparr>rcv_nxt := rcv_nxt c' + ucast n, rcv_wnd := rcv_wnd c' - n, rcv_ann_wnd := w, pcb_flags := TF_ACK_DELAY\<rparr>"
  let ?s2 = "put_pcb (?s b1) p ?c2" and ?i = "i\<lparr>recv_data := q, inseg := (inseg i)\<lparr>seg_p := 0\<rparr>\<rparr>"
  have u: "unat (rcv_wnd c - n) = unat (rcv_wnd c) - unat n" "unat n \<le> unat (rcv_wnd c)" "unat n < min 1024 (unat (mss c))"
    using d by (auto simp: plain_data_def unat_sub word_le_nat_alt)
  have sum: "ucast n + ucast (rcv_wnd c - n) = (ucast (rcv_wnd c) :: u32)"
    by (rule word_unat_eq_iff [THEN iffD2]) (use u c(3) in \<open>simp add: unat_word_ariths idle_def\<close>)
  have qw: "quiet_window ?c2 (tot_len b1)"
    using u sum c'(1-4) b1(3) by (simp add: quiet_window_def idle_def add.assoc)
  have ch: "pchain (pbufs ?s2) q xs" using chain(1) pchain_same_next [of "pbufs st" q b b1] b(1) b1(2) s(3) by simp
  have rf: "\<forall>x \<in> set xs. pref (pbufs ?s2) x = 1" using chain(4) bspec [OF chain(4), of q] b(1) b1(5) s(3) by (auto simp: pref_def)
  have bb: "pbufs ?s2 q = Some b1" "holds (bytes ?s2) (payload b1) bs" "length bs = unat (tot_len b1) mod 256"
    using data b1(3,4) s by simp_all
  have p2: "tcp_pcbs ?s2 p = Some ?c2" by simp
  from seq_recv_run [OF p2 c(2) qw ch chain(2,3) rf q(2) bb, of ie "callback_arg c'" ERR_OK] obtain s3 w3 where
    s3: "seq_recv_callback ie ?s2 (callback_arg c') p q ERR_OK = Inr (ERR_OK, s3)"
      "out s3 = out ?s2 @ map seq_line (be_words (pad4 bs))"
      "tcp_pcbs s3 = (tcp_pcbs ?s2)(p \<mapsto> ?c2\<lparr>rcv_wnd := rcv_wnd ?c2 + tot_len b1, rcv_ann_wnd := w3\<rparr>)"
      "\<forall>x \<in> set xs. pbufs s3 x = None" by blast
  let ?c3 = "?c2\<lparr>rcv_wnd := rcv_wnd ?c2 + tot_len b1, rcv_ann_wnd := w3\<rparr>"
  have o: "tcp_output (ipe (tenv (app_in_env ie))) (s3\<lparr>tcp_input_pcb := 0\<rparr>) p = Inr (ERR_OK, put_pcb (s3\<lparr>tcp_input_pcb := 0\<rparr>) p ?c3)"
    by (rule output_idle) (use s3(3) c(2) c'(1) in \<open>simp_all add: idle_def\<close>)
  have fl: "TF_ACK_DELAY AND TF_RXCLOSED = 0" by (simp add: TF_ACK_DELAY_def TF_RXCLOSED_def)
  have "input_deliver (app_in_env ie) ?i ?s2 p = Inr (put_pcb (s3\<lparr>tcp_input_pcb := 0\<rparr>) p ?c3)"
    using c(2,4) d q(2) s3(1) c'(5,6) o fl
    by (simp add: input_deliver_def deliver_data_def deliver_fin_def get_pcb_def TCP_EVENT_RECV_def
        app_in_env_def app_env_def plain_data_def)
  then have "input_conn (app_in_env ie) i st p = Inr (?i, put_pcb (s3\<lparr>tcp_input_pcb := 0\<rparr>) p ?c3)"
    by (intro input_conn_steps [OF q(1) b1(1) _ r pr])
      (use c(1,2) in \<open>simp_all add: get_pcb_def put_pbuf_def\<close>)
  then show ?thesis
    using s3(2-4) s(1,4) c'(1-3) b1(3)
    by (intro exI [of _ ?i] exI [of _ "put_pcb (s3\<lparr>tcp_input_pcb := 0\<rparr>) p ?c3"] exI [of _ ?c3])
      (simp add: put_pcb_def idle_def)
qed

text \<open>An idle connection of port 8, and a segment of five bytes for it with \<^verbatim>\<open>ACK\<close> and \<^verbatim>\<open>PSH\<close>.\<close>

definition sample_idle :: tcp_pcb where
  "sample_idle = sample_pcb\<lparr>pcb_state := ESTABLISHED, rcv_ann_right_edge := 2048, recv_fn := FN_seq_recv_callback\<rparr>"

theorem segment_prints_words_witness:
  "\<exists>i' st'. input_conn (app_in_env sample_env) ((sample_seg 0x18 5)\<lparr>ackno := 6510\<rparr>)
       (only_conn (seg_mem 0x18) [200 \<mapsto> sample_pbuf 0 520 5 5 1] sample_idle) 100 = Inr (i', st')
     \<and> out st' = [seq_line 0x01020304, seq_line 0x05ffffff]"
proof -
  let ?i = "(sample_seg 0x18 5)\<lparr>ackno := 6510\<rparr>" and ?b = "sample_pbuf 0 520 5 5 1"
  let ?st = "only_conn (seg_mem 0x18) [200 \<mapsto> ?b] sample_idle"
  have c: "tcp_pcbs ?st 100 = Some sample_idle" "recv_fn sample_idle = FN_seq_recv_callback" by (simp_all add: sample_idle_def)
  have i: "idle sample_idle" by (simp add: idle_def sample_idle_def tcp_samples TCP_WND_def)
  have "TCPH_FLAGS (seg_mem 0x18) 500 = Inr 0x18" "TCPH_HDRLEN (seg_mem 0x18) 500 = Inr 5" by (simp_all add: hdr_eval)
  then have d: "plain_data (bytes ?st) ?i sample_idle 5"
    by (simp add: plain_data_def sample_seg_def sample_idle_def tcp_samples tcp_flag_eval TCP_WND_def initial_mss_def TCP_MSS_def)
  have q: "200 = seg_p (inseg ?i)" by (simp add: sample_seg_def)
  have b: "pbufs ?st 200 = Some ?b" "tot_len ?b = 5" by (simp_all add: sample_pbuf_def)
  have ch: "pchain (pbufs ?st) 200 [200]" by (simp add: sample_pbuf_def)
  have r: "\<forall>x \<in> set [200]. pref (pbufs ?st) x = 1" by (simp add: pref_def sample_pbuf_def)
  have h: "holds (bytes ?st) (payload ?b) [1, 2, 3, 4, 5]" by (simp add: sample_pbuf_def seg_mem_def)
  have w: "be_words (pad4 [1, 2, 3, 4, 5]) = [0x01020304, 0x05ffffff]"
    by (simp add: be_words_pad4_long be_words_pad4_short be_word_def)
  from segment_prints_words [OF c(1) _ i c(2) d q _ b ch _ _ r h, of sample_env] show ?thesis
    by (fastforce simp: w chain_fuel_def)
qed

end
