(* ===== verification/Stack.thy ===== *)
theory Stack
  imports Below Services
begin

text \<open>
  The stack put together: the network interface of \<^verbatim>\<open>netif/xemacliteif.c\<close> between IP, ARP and the
  adapter, the way of a received frame from the queue of the adapter through \<^verbatim>\<open>ethernet_input\<close> and
  \<^verbatim>\<open>ip_input\<close> to TCP and the services, and what this composition keeps.
\<close>

section \<open>The interface\<close>

definition xemacliteif_output :: "addr \<Rightarrow> addr \<Rightarrow> u32 \<Rightarrow> 'a ip_st_scheme \<Rightarrow> (err_t \<times> 'a ip_st_scheme) res" where
  "xemacliteif_output n p ipaddr st = etharp_output adapter_output st n p ipaddr"

definition etharp_announce :: "addr \<Rightarrow> 'a ip_st_scheme \<Rightarrow> 'a ip_st_scheme res" where
  "etharp_announce n st =
     rbind (get_netif st n) (\<lambda>x. rbind (etharp_request adapter_output st n (ip_addr x)) (\<lambda>(_, st1). Inr st1))"

text \<open>The functions behind the pointers of the interface, and those of \<^verbatim>\<open>etharp.c\<close> and \<^verbatim>\<open>ip_frag.c\<close> IP calls.\<close>

definition stack_env :: "('a ip_st_scheme) ip_env" where
  "stack_env = \<lparr>netif_output = xemacliteif_output, ip_frag = ip_frag_run xemacliteif_output,
     etharp_gratuitous = etharp_announce, etharp_cleanup_netif = (\<lambda>n st. etharp_cleanup st n)\<rparr>"

text \<open>
  \<^verbatim>\<open>xemacliteif_input\<close>: the result is the number of packets read. \<open>input\<close> is the input function of the
  interface.
\<close>

definition xemacliteif_input ::
  "(addr \<Rightarrow> addr \<Rightarrow> 'a ip_st_scheme \<Rightarrow> (err_t \<times> 'a ip_st_scheme) res) \<Rightarrow> addr \<Rightarrow> 'a ip_st_scheme \<Rightarrow> (nat \<times> 'a ip_st_scheme) res" where
  "xemacliteif_input input n st =
     (case low_level_input st of (p, st1) \<Rightarrow>
        if p = 0 then Inr (0, st1)
        else
          rbind (get_pbuf st1 p) (\<lambda>b. rbind (rd16 (bytes st1) (payload b + 12)) (\<lambda>type.
          rbind (if lwip_htons type = ETHTYPE_IP \<or> lwip_htons type = ETHTYPE_ARP
                 then rbind (input p n st1) (\<lambda>(e, st2). if e \<noteq> ERR_OK then free_only st2 p else Inr st2)
                 else free_only st1 p) (\<lambda>st2. Inr (1, st2)))))"

text \<open>The adapter has been added with \<^verbatim>\<open>ethernet_input\<close> as its input function.\<close>

definition xemacif_input :: "('a ip_st_scheme) protocols \<Rightarrow> addr \<Rightarrow> 'a ip_st_scheme \<Rightarrow> (nat \<times> 'a ip_st_scheme) res" where
  "xemacif_input pr = xemacliteif_input (\<lambda>p n st. ethernet_input (ip_input pr) adapter_output st p n)"

section \<open>The network leaves TCP alone\<close>

lemma low_level_input_below: "low_level_input st = (p, st') \<Longrightarrow> below st' = below st"
  by (auto simp: low_level_input_def below_def pcb_pool_def split: if_splits prod.splits)

lemma xemacliteif_output_below: "xemacliteif_output n p d st = Inr (e, st') \<Longrightarrow> below st' = below st"
  using res_allD [OF quiet_adapter.output_below, of st n p d] by (simp add: xemacliteif_output_def)

lemma cut_with_interface: "res_all (\<lambda>x. below (snd x) = below st) (ip_frag_run xemacliteif_output p n d st)"
  by (rule frag_run_below) (rule xemacliteif_output_below)

interpretation stack: quiet_net stack_env
proof unfold_locales
  fix n p d e and st st' :: "'a ip_st_scheme"
  show "netif_output stack_env n p d st = Inr (e, st') \<Longrightarrow> below st' = below st"
    by (simp add: stack_env_def xemacliteif_output_below)
  show "ip_frag stack_env n p d st = Inr (e, st') \<Longrightarrow> below st' = below st"
    using res_allD [OF cut_with_interface, of n p d st "(e, st')"] by (simp add: stack_env_def)
qed

lemma net_keeps_stack: "net_keeps stack_env"
  using stack.out_below stack.cut_below by (fastforce simp: net_keeps_def below_def)

text \<open>Whatever frame comes in, it leaves a layer above IP well, when a packet does so.\<close>

context layered begin

lemma ethernet_types_Q:
  assumes "R s"
  shows "res_all (\<lambda>x. Q (snd x)) (rbind (get_netif s n) (\<lambda>x.
           if type = lwip_htons ETHTYPE_IP then
             if nif_flags x AND NETIF_FLAG_ETHARP = 0 then rbind (pbuf_free s p) (\<lambda>(_, st1). Inr (ERR_OK, st1))
             else rbind (pbuf_header s p (- of_nat SIZEOF_ETH_HDR)) (\<lambda>(failed, st2).
               if failed \<noteq> 0 then rbind (pbuf_free st2 p) (\<lambda>(_, st1). Inr (ERR_OK, st1))
               else rbind (ip_input pr p n st2) (\<lambda>st3. Inr (ERR_OK, st3)))
           else if type = lwip_htons ETHTYPE_ARP then
             if nif_flags x AND NETIF_FLAG_ETHARP = 0 then rbind (pbuf_free s p) (\<lambda>(_, st1). Inr (ERR_OK, st1))
             else rbind (etharp_arp_input adapter_output s n (hwaddr x) p) (\<lambda>st2. Inr (ERR_OK, st2))
           else rbind (pbuf_free s p) (\<lambda>(_, st1). Inr (ERR_OK, st1))))"
  by (auto intro!: bwp ip_input_Q quiet_adapter.arp_input_below [THEN res_all_weaken] elim!: R_below [OF assms] RQ [OF assms])

lemma ethernet_input_Q:
  assumes "R st"
  shows "res_all (\<lambda>x. Q (snd x)) (ethernet_input (ip_input pr) adapter_output st p n)"
proof -
  have f: "res_all (\<lambda>x. Q (snd x)) (rbind (pbuf_free st p) (\<lambda>(_, st1). Inr (ERR_OK, st1)))"
    by (auto intro!: bwp elim!: RQ [OF assms])
  have t: "R (put_pbuf st p b)" for b by (rule R_below [OF assms]) simp
  show ?thesis
    unfolding ethernet_input_def Let_def
    by (rule f ethernet_types_Q [OF t] res_all_if res_all_bind)+
qed

lemma frame_Q:
  assumes "R st"
  shows "res_all (\<lambda>x. Q (snd x)) (xemacif_input pr n st)"
proof -
  obtain p st1 where l: "low_level_input st = (p, st1)" by fastforce
  note R1 = R_below [OF assms low_level_input_below [OF l]]
  have f: "res_all Q (free_only s q)" if "Q s" for s q
    by (rule free_only_bwp) (rule Q_below [OF that])
  show ?thesis
    by (auto simp: xemacif_input_def xemacliteif_input_def l intro!: bwp ethernet_input_Q [OF R1, THEN res_all_weaken] f [THEN res_all_weaken]
        intro: R_Q [OF R1] elim!: RQ [OF R1] elim: Q_below)
qed

end

section \<open>The program\<close>

text \<open>No service opens a raw or UDP socket: a receive function of theirs would be unknown code.\<close>

definition program_env :: "('a app_st_scheme) tcp_in_env" where "program_env = app_in_env stack_env"

definition program_protocols :: "('a app_st_scheme) protocols" where
  "program_protocols = \<lparr>net = stack_env, raw_callback = (\<lambda>_ _ _ _ _ _. Inl Null_deref), udp_callback = (\<lambda>_ _ _ _ _ _ _. Inl Null_deref),
     tcp_in = (\<lambda>p n src dest st. tcp_input program_env st p n src dest)\<rparr>"

text \<open>The body of the loop in \<^verbatim>\<open>main.c\<close>.\<close>

definition main_step :: "addr \<Rightarrow> 'a app_st_scheme \<Rightarrow> 'a app_st_scheme res" where
  "main_step n st = rbind (xemacif_input program_protocols n st) (\<lambda>(_, st1). Inr (transfer_packets st1))"

section \<open>The callbacks of the services\<close>

text \<open>The callbacks of the two services are as the TCP module wants them.\<close>

lemma lview_app [simp]: "lview (xil_printf st f as) = lview st"
  "lview (st\<lparr>seq_connection := a\<rparr>) = lview st" "lview (st\<lparr>data_connection := a\<rparr>) = lview st"
  for st :: "'a app_st_scheme"
  by (rule lview_cong; simp add: xil_printf_def)+

lemma lists_inv_app [simp]: "lists_inv (xil_printf st f as) = lists_inv st"
  "lists_inv (st\<lparr>seq_connection := a\<rparr>) = lists_inv st" "lists_inv (st\<lparr>data_connection := a\<rparr>) = lists_inv st"
  for st :: "'a app_st_scheme"
  by (rule lists_inv_lview, simp)+

lemmas services_iwp = iwp options_inv [THEN res_all_weaken] tcp_close_inv [THEN res_all_weaken] tcp_recved_inv [THEN res_all_weaken]

lemma res_all_True [simp]: "res_all (\<lambda>x. True) r"
  by (simp add: res_all_def split: sum.split)

lemma seq_loop_inv:
  fixes st :: "'a app_st_scheme"
  shows "lists_inv st \<Longrightarrow> res_all lists_inv (seq_loop st a n i)"
proof (induction st a n i rule: seq_loop.induct)
  case (1 st a n i)
  have "res_all lists_inv (seq_loop (xil_printf st (''%08x'' @ NL) [w]) a n (i + 4))"
    if "i < n" "packet_word (bytes st) a n i = Inr w" for w
    using "1.IH" [OF that] "1.prems" by simp
  then show ?case
    by (subst seq_loop.simps) (auto simp: "1.prems" intro!: res_allI [where r = "packet_word (bytes st) a n i"])
qed

lemma data_loop_inv:
  fixes st :: "'a app_st_scheme"
  shows "lists_inv st \<Longrightarrow> res_all lists_inv (data_loop st a m j k)"
  by (induction k arbitrary: st j) (auto intro!: res_all_any [where r = "wr8 b x y" for b x y] res_all_any [where r = "rd8 b x" for b x])

lemmas printed_inv = seq_loop_inv [THEN res_all_weaken] data_loop_inv [THEN res_all_weaken]

lemma recv_callbacks_inv:
  fixes st :: "'a app_st_scheme"
  assumes "lists_inv st" "net_keeps ie"
  shows "res_all (\<lambda>x. lists_inv (snd x)) (seq_recv_callback ie st arg p q e)"
    "res_all (\<lambda>x. lists_inv (snd x)) (data_recv_callback ie st arg p q e)"
  using assms
  by (auto simp: seq_recv_callback_def data_recv_callback_def Let_def intro!: services_iwp printed_inv res_all_any [where r = "rd8 b x" for b x])

lemma upd_common_lview:
  assumes "\<And>c. pcb_next (f c) = pcb_next c \<and> pcb_state (f c) = pcb_state c \<and> local_port (f c) = local_port c"
    and "\<And>c. pcb_next (g c) = pcb_next c \<and> pcb_state (g c) = pcb_state c \<and> local_port (g c) = local_port c"
  shows "res_all (\<lambda>x. lview x = lview st) (upd_common st p f g)"
proof (rule res_allI)
  fix x assume "upd_common st p f g = Inr x"
  then have "next_of x q = next_of st q" "info x q = info st q" "dom (tcp_lpcbs x) = dom (tcp_lpcbs st)" "head_of x = head_of st" for q
    using assms by (auto simp: upd_common_def next_of_eq info_eq split: if_splits option.splits intro!: head_of_cong)
  then show "lview x = lview st" by (simp add: lview_def fun_eq_iff)
qed

lemma accept_callbacks_lview:
  fixes st :: "'a app_st_scheme"
  shows "res_all (\<lambda>x. lview (snd x) = lview st) (seq_accept_callback st arg p e)"
    "res_all (\<lambda>x. lview (snd x) = lview st) (data_accept_callback st arg p e)"
  by (auto simp: seq_accept_callback_def data_accept_callback_def tcp_recv_def tcp_arg_def
      intro!: upd_common_lview [THEN res_all_weaken] lview_upd_pcb [THEN res_all_weaken])

lemma program_callbacks: "in_env_keeps program_env"
proof -
  have err: "env_keeps (app_env stack_env)"
    using net_keeps_stack by (simp add: env_keeps_def app_env_def)
  have recv: "lists_inv st'" if "call_recv (app_env stack_env) f arg p d e st = Inr (r, st')" "lists_inv st"
    for f arg p d e r and st st' :: "'a app_st_scheme"
    using that recv_callbacks_inv [OF that(2) net_keeps_stack, THEN res_allD]
    by (auto simp: app_env_def split: fn.splits dest: res_allD [OF recv_callbacks_inv(1)] res_allD [OF recv_callbacks_inv(2)])
  have acc: "lists_inv st' \<and> (conn st p \<longrightarrow> conn st' p)"
    if "call_accept program_env f arg p e st = Inr (r, st')" "lists_inv st" for f arg p e r and st st' :: "'a app_st_scheme"
  proof -
    have "lview st' = lview st"
      using that(1) by (auto simp: program_env_def app_in_env_def split: fn.splits dest: res_allD [OF accept_callbacks_lview(1)] res_allD [OF accept_callbacks_lview(2)])
    then show ?thesis using that(2) lists_inv_lview conn_lview by blast
  qed
  show ?thesis
    unfolding in_env_keeps_def using err recv acc by (auto simp: program_env_def app_in_env_def)
qed

section \<open>Properties\<close>

lemma ready_below:
  fixes st st' :: "'a tcp_st_scheme"
  assumes "ready st" "below st' = below st"
  shows "ready st'"
proof -
  from assms(2) have m: "ip_st.more st' = ip_st.more st" and p: "memp_tab (pools st') MEMP_TCP_PCB = memp_tab (pools st) MEMP_TCP_PCB"
    by (simp_all add: below_def pcb_pool_def)
  have "common st' = common st" using tcp_fields_cong [OF m] by (simp add: common_def fun_eq_iff split: option.split)
  with assms(1) p show ?thesis
    using lists_inv_lview [OF lview_more [OF m]] tcp_fields_cong(1) [OF m] by (simp add: ready_def no_refused_def fresh_def)
qed

interpretation program: layered program_protocols ready lists_inv
proof unfold_locales
  fix n p d a b e and st st' :: "'a app_st_scheme"
  show "netif_output (net program_protocols) n p d st = Inr (e, st') \<Longrightarrow> below st' = below st"
    by (simp add: program_protocols_def stack.out_below)
  show "ip_frag (net program_protocols) n p d st = Inr (e, st') \<Longrightarrow> below st' = below st"
    by (simp add: program_protocols_def stack.cut_below)
  show "raw_quiet (raw_callback program_protocols)" "udp_quiet (udp_callback program_protocols)"
    by (simp_all add: program_protocols_def raw_quiet_def udp_quiet_def)
  show "ready st \<Longrightarrow> below st' = below st \<Longrightarrow> ready st'" by (rule ready_below)
  show "lists_inv st \<Longrightarrow> below st' = below st \<Longrightarrow> lists_inv st'"
    using lists_inv_lview [OF lview_more] by (auto simp: below_def)
  show "ready st \<Longrightarrow> lists_inv st" by (simp add: ready_def)
  show "ready st \<Longrightarrow> res_all lists_inv (tcp_in program_protocols p n a b st)"
    using tcp_input_inv [OF _ program_callbacks] by (simp add: program_protocols_def)
qed

text \<open>C27: A round of the main loop leaves the lists of TCP control blocks well formed, whatever frame has
  come in: an ARP packet, a fragment, an echo request, a UDP datagram, a segment for a service, or
  anything else, damaged or not, and whatever the layers send in reply. Before the round the pool must not hold a
  control block in use (\<open>fresh\<close>) and no connection may hold refused data (\<open>no_refused\<close>); that they hold again after the
  round is not part of the property.\<close>

theorem frame_keeps_lists:
  fixes st :: "'a app_st_scheme"
  assumes "lists_inv st" "fresh st MEMP_TCP_PCB" "no_refused st" and "main_step n st = Inr st'"
  shows "lists_inv st'"
proof -
  have "ready st" using assms(1-3) by (simp add: ready_def)
  from res_allD [OF program.frame_Q [OF this]] assms(4) show ?thesis
    by (auto simp: main_step_def transfer_packets_def rbind_eq_Inr)
qed

text \<open>A frame of 60 bytes waits, for our address and of type IP; the version field of the header says 6.\<close>

definition frame_mem :: memory where
  "frame_mem = [300 \<mapsto> 0, 301 \<mapsto> 0x0a, 302 \<mapsto> 0x35, 303 \<mapsto> 0, 304 \<mapsto> 1, 305 \<mapsto> 2, 306 \<mapsto> 2, 307 \<mapsto> 0, 308 \<mapsto> 0, 309 \<mapsto> 0,
     310 \<mapsto> 0, 311 \<mapsto> 1, 312 \<mapsto> 0x08, 313 \<mapsto> 0, 314 \<mapsto> 0x65]"

definition board_netif :: netif where
  "board_netif = \<lparr>ip_addr = 0xC701A8C0, netmask = 0x00FFFFFF, gw = 0x0101A8C0, mtu = 1500, hwaddr = [0, 0x0a, 0x35, 0, 1, 2],
     nif_flags = NETIF_FLAG_UP OR NETIF_FLAG_BROADCAST OR NETIF_FLAG_ETHARP, nif_num = 0\<rparr>"

definition frame_st :: app_st where
  "frame_st = (only_conn frame_mem [200 \<mapsto> sample_pbuf 0 300 60 60 1] sample_fin_wait_1)
     \<lparr>recv_q := \<lparr>pq_data = (\<lambda>_. 0)(0 := 200), pq_head = 1, pq_tail = 0, pq_len = 1\<rparr>, netifs := [1 \<mapsto> board_netif]\<rparr>"

lemma frame_st_simps [simp]:
  "pbufs frame_st = [200 \<mapsto> sample_pbuf 0 300 60 60 1]" "bytes frame_st = frame_mem" "netifs frame_st = [1 \<mapsto> board_netif]"
  "recv_q frame_st = \<lparr>pq_data = (\<lambda>_. 0)(0 := 200), pq_head = 1, pq_tail = 0, pq_len = 1\<rparr>"
  unfolding frame_st_def by simp+

lemma frame_ready: "lists_inv frame_st" "fresh frame_st MEMP_TCP_PCB" "no_refused frame_st"
proof -
  let ?st = "only_conn frame_mem [200 \<mapsto> sample_pbuf 0 300 60 60 1] sample_fin_wait_1"
  have "lists_inv ?st" by (rule only_conn_inv) (simp_all add: sample_fin_wait_1_def tcp_samples)
  moreover have "pools ?st = \<lparr>memp_tab = (\<lambda>_. 0), memp_next = (\<lambda>_. 0)\<rparr>"
    by (simp add: only_conn_def sample_app_def sample_tcp_def tcp_st.extend_def app_st.fields_def)
  then have "fresh ?st MEMP_TCP_PCB" by (simp add: fresh_def common_def)
  moreover have "no_refused ?st" by (simp add: no_refused_def sample_fin_wait_1_def tcp_samples)
  ultimately have r: "ready ?st" by (simp only: ready_def)
  have "below frame_st = below ?st" unfolding frame_st_def below_def pcb_pool_def by (simp del: only_conn_simps)
  with r have "ready frame_st" by (rule ready_below)
  then show "lists_inv frame_st" "fresh frame_st MEMP_TCP_PCB" "no_refused frame_st" by (simp_all add: ready_def)
qed

lemma frame_run: "\<exists>st'. main_step 1 frame_st = Inr st'"
proof -
  let ?st = "frame_st\<lparr>recv_q := \<lparr>pq_data = (\<lambda>_. 0)(0 := 200), pq_head = Suc 0, pq_tail = Suc 0, pq_len = 0\<rparr>\<rparr>"
  let ?a = "sample_pbuf 0 300 60 60 1" and ?b = "sample_pbuf 0 314 46 46 1"
  have l: "low_level_input frame_st = (200, ?st)"
    by (simp add: low_level_input_def pq_qlength_def pq_dequeue_def PQ_QUEUE_SIZE_def)
  have six: "ETHARP_HWADDR_LEN = Suc (Suc (Suc (Suc (Suc (Suc 0)))))" by (simp add: ETHARP_HWADDR_LEN_def)
  have mem: "rd16 frame_mem 312 = Inr 8" "rd_bytes frame_mem 300 ETHARP_HWADDR_LEN = Inr [0, 0x0a, 0x35, 0, 1, 2]"
    by (simp_all add: frame_mem_def rd16_def rd8_def le16_def six)
  have pb: "get_pbuf ?st 200 = Inr ?a" "payload ?a = 300" "pb_len ?a = 60" "?a\<lparr>pb_flags := pb_flags ?a\<rparr> = ?a"
    by (simp_all add: get_pbuf_def sample_pbuf_def)
  have nf: "get_netif (put_pbuf ?st 200 ?a) (Suc 0) = Inr board_netif" "nif_flags board_netif AND NETIF_FLAG_ETHARP \<noteq> 0"
    by (simp_all add: get_netif_def put_pbuf_def board_netif_def NETIF_FLAG_ETHARP_def NETIF_FLAG_UP_def NETIF_FLAG_BROADCAST_def)
  have hd1: "pbuf_header (put_pbuf ?st 200 ?a) 200 (- 14) = Inr (0, put_pbuf ?st 200 ?b)"
    by (simp add: pbuf_header_def get_pbuf_def put_pbuf_def sample_pbuf_def SIZEOF_STRUCT_PBUF_def)
  have ty: "lwip_htons ETHTYPE_IP = 8" by (simp add: lwip_htons_def ETHTYPE_IP_def)
  have e: "ethernet_input (ip_input program_protocols) adapter_output ?st 200 (Suc 0)
      = rbind (ip_input program_protocols 200 (Suc 0) (put_pbuf ?st 200 ?b)) (\<lambda>st3. Inr (ERR_OK, st3))"
    unfolding ethernet_input_def by (simp add: Let_def SIZEOF_ETH_HDR_def mem nf hd1 pb ty)
  have i: "ip_input program_protocols 200 (Suc 0) (put_pbuf ?st 200 ?b) = free_only (put_pbuf ?st 200 ?b) 200"
    by (simp add: ip_input_def ip_header_checks_def get_pbuf_def put_pbuf_def sample_pbuf_def rd8_def frame_mem_def)
  obtain st' where "free_only (put_pbuf ?st 200 ?b) 200 = Inr st'"
    using free_only_single [of "put_pbuf ?st 200 ?b" 200 ?b] by (auto simp: put_pbuf_def sample_pbuf_def)
  moreover have "lwip_htons 8 = ETHTYPE_IP" by (simp add: lwip_htons_def ETHTYPE_IP_def)
  ultimately show ?thesis
    by (simp add: main_step_def xemacif_input_def xemacliteif_input_def l e i transfer_packets_def pb mem)
qed

theorem frame_keeps_lists_witness: "\<exists>st'. main_step 1 frame_st = Inr st' \<and> lists_inv st'"
  using frame_keeps_lists [OF frame_ready] frame_run by blast

end
