(* ===== verification/Platform.thy ===== *)
theory Platform
  imports Stack
begin

text \<open>
  The board: the timer of \<^verbatim>\<open>platform_mb.c\<close> and its callback in \<^verbatim>\<open>platform.c\<close>, the registration of the network
  interface (\<^verbatim>\<open>netif.c\<close>, \<^verbatim>\<open>xadapter.c\<close>), \<^verbatim>\<open>lwip_init\<close>, and the main loop of \<^verbatim>\<open>main.c\<close> with the interrupts
  between its rounds.
\<close>

section \<open>The timer\<close>

text \<open>
  The flags of \<^verbatim>\<open>platform.c\<close> with the static variable of \<^verbatim>\<open>timer_callback\<close>, and the registers of timer 0:
  the load register, and what was last written to the control register. \<open>tmr_handler\<close> tells whether the handler
  is registered.
\<close>

record platform =
  TcpFastTmrFlag :: int
  TcpSlowTmrFlag :: int
  odd_tick :: int
  tmr_tlr :: u32
  tmr_tcsr :: u32
  tmr_handler :: bool

definition XTC_CSR_INT_OCCURED_MASK :: u32 where "XTC_CSR_INT_OCCURED_MASK = 0x100"
definition XTC_CSR_ENABLE_TMR_MASK :: u32 where "XTC_CSR_ENABLE_TMR_MASK = 0x80"
definition XTC_CSR_ENABLE_INT_MASK :: u32 where "XTC_CSR_ENABLE_INT_MASK = 0x40"
definition XTC_CSR_LOAD_MASK :: u32 where "XTC_CSR_LOAD_MASK = 0x20"
definition XTC_CSR_AUTO_RELOAD_MASK :: u32 where "XTC_CSR_AUTO_RELOAD_MASK = 0x10"
definition XTC_CSR_DOWN_COUNT_MASK :: u32 where "XTC_CSR_DOWN_COUNT_MASK = 0x02"
definition PLATFORM_TIMER_INTERRUPT_MASK :: u32 where "PLATFORM_TIMER_INTERRUPT_MASK = 1"

definition platform_start :: platform where
  "platform_start = \<lparr>TcpFastTmrFlag = 0, TcpSlowTmrFlag = 0, odd_tick = 1, tmr_tlr = 0, tmr_tcsr = 0, tmr_handler = False\<rparr>"

definition timer_callback :: "platform \<Rightarrow> platform" where
  "timer_callback pl =
     (let pl1 = pl\<lparr>TcpFastTmrFlag := 1, odd_tick := (if odd_tick pl = 0 then 1 else 0)\<rparr>
      in if odd_tick pl1 \<noteq> 0 then pl1\<lparr>TcpSlowTmrFlag := 1\<rparr> else pl1)"

definition XTmrCtr_SetLoadReg :: "platform \<Rightarrow> u32 \<Rightarrow> platform" where "XTmrCtr_SetLoadReg pl v = pl\<lparr>tmr_tlr := v\<rparr>"
definition XTmrCtr_SetControlStatusReg :: "platform \<Rightarrow> u32 \<Rightarrow> platform" where
  "XTmrCtr_SetControlStatusReg pl v = pl\<lparr>tmr_tcsr := v\<rparr>"

text \<open>Timer 0 stopped and loaded, and started: an automatic reload with an interrupt at zero.\<close>

definition load_timer :: "platform \<Rightarrow> platform" where
  "load_timer pl = XTmrCtr_SetControlStatusReg pl (XTC_CSR_INT_OCCURED_MASK OR XTC_CSR_LOAD_MASK)"

definition start_timer :: "platform \<Rightarrow> platform" where
  "start_timer pl = XTmrCtr_SetControlStatusReg pl
     (XTC_CSR_ENABLE_TMR_MASK OR XTC_CSR_ENABLE_INT_MASK OR XTC_CSR_AUTO_RELOAD_MASK OR XTC_CSR_DOWN_COUNT_MASK)"

definition xadapter_timer_handler :: "platform \<Rightarrow> 'a link_st_scheme \<Rightarrow> platform \<times> 'a link_st_scheme" where
  "xadapter_timer_handler pl st =
     (start_timer (load_timer (timer_callback pl)), XIntc_AckIntr st PLATFORM_TIMER_INTERRUPT_MASK)"

text \<open>
  \<^verbatim>\<open>25000000*((float)MHZ/100)\<close> with \<^verbatim>\<open>MHZ\<close> 66 in single precision: 0.66 is \<open>11072963 / 2 ^ 24\<close>, and the
  product is rounded to the nearest integer, the precision there.
\<close>

definition TIMER_TLR :: u32 where "TIMER_TLR = 16500001"

definition platform_setup_timer :: "platform \<Rightarrow> platform" where
  "platform_setup_timer pl = (start_timer (load_timer (XTmrCtr_SetLoadReg pl TIMER_TLR)))\<lparr>tmr_handler := True\<rparr>"

section \<open>The network interface\<close>

text \<open>The loops of \<^verbatim>\<open>netif_set_ipaddr\<close>: connections on the old address are aborted, listeners move to the new one.\<close>

primrec abort_bound :: "nat \<Rightarrow> ('a tcp_st_scheme) tcp_env \<Rightarrow> 'a tcp_st_scheme \<Rightarrow> addr \<Rightarrow> addr \<Rightarrow> 'a tcp_st_scheme res" where
  "abort_bound 0 env st n pcb = (if pcb = 0 then Inr st else Inl Out_of_fuel)"
| "abort_bound (Suc fuel) env st n pcb =
     (if pcb = 0 then Inr st
      else rbind (get_pcb st pcb) (\<lambda>c. rbind (get_netif st n) (\<lambda>x.
        if local_ip c = ip_addr x then rbind (tcp_abort env st pcb) (\<lambda>st1. abort_bound fuel env st1 n (pcb_next c))
        else abort_bound fuel env st n (pcb_next c))))"

primrec relisten :: "nat \<Rightarrow> 'a tcp_st_scheme \<Rightarrow> addr \<Rightarrow> u32 \<Rightarrow> addr \<Rightarrow> 'a tcp_st_scheme res" where
  "relisten 0 st n a p = (if p = 0 then Inr st else Inl Out_of_fuel)"
| "relisten (Suc fuel) st n a p =
     (if p = 0 then Inr st
      else rbind (get_common st p) (\<lambda>b. rbind (get_netif st n) (\<lambda>x.
        rbind (if \<not> ip_addr_isany (local_ip b) \<and> local_ip b = ip_addr x
               then upd_common st p (\<lambda>c. c\<lparr>local_ip := a\<rparr>) (\<lambda>c. c\<lparr>local_ip := a\<rparr>) else Inr st)
          (\<lambda>st1. relisten fuel st1 n a (pcb_next b)))))"

definition netif_set_ipaddr :: "('a tcp_st_scheme) tcp_env \<Rightarrow> 'a tcp_st_scheme \<Rightarrow> addr \<Rightarrow> u32 \<Rightarrow> 'a tcp_st_scheme res" where
  "netif_set_ipaddr env st n a =
     rbind (get_netif st n) (\<lambda>x.
     rbind (if a \<noteq> ip_addr x
            then rbind (abort_bound pcb_fuel env st n (tcp_active_pcbs st)) (\<lambda>st1. relisten pcb_fuel st1 n a (tcp_listen_pcbs st1))
            else Inr st) (\<lambda>st1.
     rbind (get_netif st1 n) (\<lambda>y. Inr (put_netif st1 n (y\<lparr>ip_addr := a\<rparr>)))))"

definition netif_set_addr :: "('a tcp_st_scheme) tcp_env \<Rightarrow> 'a tcp_st_scheme \<Rightarrow> addr \<Rightarrow> u32 \<Rightarrow> u32 \<Rightarrow> u32 \<Rightarrow> 'a tcp_st_scheme res" where
  "netif_set_addr env st n a m g =
     rbind (netif_set_ipaddr env st n a) (\<lambda>st1. rbind (netif_set_netmask st1 n m) (\<lambda>st2. netif_set_gw st2 n g))"

text \<open>\<open>init\<close> is the initialisation function of the interface. The result is the interface or \<open>0\<close>.\<close>

definition netif_add ::
  "('a tcp_st_scheme) tcp_env \<Rightarrow> 'a tcp_st_scheme \<Rightarrow> addr \<Rightarrow> u32 \<Rightarrow> u32 \<Rightarrow> u32
     \<Rightarrow> (addr \<Rightarrow> 'a tcp_st_scheme \<Rightarrow> (err_t \<times> 'a tcp_st_scheme) res) \<Rightarrow> (addr \<times> 'a tcp_st_scheme) res" where
  "netif_add env st n a m g init =
     rbind (get_netif st n) (\<lambda>x.
     let st1 = (put_netif st n (x\<lparr>ip_addr := 0, netmask := 0, gw := 0, nif_flags := 0, nif_num := netif_num st\<rparr>))
                 \<lparr>netif_num := netif_num st + 1\<rparr> in
     rbind (netif_set_addr env st1 n a m g) (\<lambda>st2.
     rbind (init n st2) (\<lambda>(e, st3).
       if e \<noteq> ERR_OK then Inr (0, st3) else Inr (n, st3\<lparr>netif_list := n # netif_list st3\<rparr>))))"

definition netif_remove :: "('a tcp_st_scheme) ip_env \<Rightarrow> 'a tcp_st_scheme \<Rightarrow> addr \<Rightarrow> 'a tcp_st_scheme res" where
  "netif_remove env st n =
     (if n = 0 then Inr st
      else rbind (get_netif st n) (\<lambda>x.
        rbind (if netif_is_up x then netif_set_down env st n else Inr st) (\<lambda>st1.
          if n \<notin> set (netif_list st1) then Inr st1
          else let st2 = st1\<lparr>netif_list := remove1 n (netif_list st1)\<rparr>
               in Inr (if netif_default st2 = n then netif_set_default st2 0 else st2))))"

text \<open>\<^verbatim>\<open>xemac_add\<close>: the topology has one adapter, an EmacLite at this address.\<close>

definition EMAC_BASEADDR :: u32 where "EMAC_BASEADDR = 0x40E00000"

definition xemac_add ::
  "('a app_st_scheme) tcp_env \<Rightarrow> 'a app_st_scheme \<Rightarrow> addr \<Rightarrow> u32 \<Rightarrow> u32 \<Rightarrow> u32 \<Rightarrow> u8 list \<Rightarrow> u32
     \<Rightarrow> (addr \<Rightarrow> 'a app_st_scheme \<Rightarrow> (err_t \<times> 'a app_st_scheme) res) \<Rightarrow> (addr \<times> 'a app_st_scheme) res" where
  "xemac_add env st n a m g mac base init =
     rbind (get_netif st n) (\<lambda>x.
     let st1 = put_netif st n (x\<lparr>hwaddr := take 6 mac\<rparr>) in
       if base = EMAC_BASEADDR then netif_add env st1 n a m g init
       else Inr (0, xil_printf st1 (''unable to determine type of EMAC with baseaddress 0x%08x'' @ NL) [base]))"

text \<open>\<^verbatim>\<open>lwip_init\<close>: what is left of it in this configuration, the heap and the pools.\<close>

definition lwip_init :: "addr \<Rightarrow> (memp_t \<Rightarrow> addr) \<Rightarrow> (memp_t \<Rightarrow> nat) \<Rightarrow> 'a pbuf_st_scheme \<Rightarrow> 'a pbuf_st_scheme" where
  "lwip_init heap_at bases sizes st =
     st\<lparr>mheap := mem_init heap_at (mheap st), pools := memp_init bases sizes (pools st)\<rparr>"

section \<open>The main loop and its interrupts\<close>

datatype event = Timer_interrupt | Loop_round

fun board_step :: "addr \<Rightarrow> event \<Rightarrow> platform \<times> 'a app_st_scheme \<Rightarrow> (platform \<times> 'a app_st_scheme) res" where
  "board_step n Timer_interrupt (pl, st) = Inr (xadapter_timer_handler pl st)"
| "board_step n Loop_round (pl, st) = rbind (main_step n st) (\<lambda>st1. Inr (pl, st1))"

primrec board_run :: "addr \<Rightarrow> event list \<Rightarrow> platform \<times> 'a app_st_scheme \<Rightarrow> (platform \<times> 'a app_st_scheme) res" where
  "board_run n [] b = Inr b"
| "board_run n (e # es) b = rbind (board_step n e b) (board_run n es)"

section \<open>Properties\<close>

lemma idle_round: "pq_len (recv_q st) = 0 \<Longrightarrow> main_step n st = Inr st"
  by (simp add: main_step_def xemacif_input_def xemacliteif_input_def low_level_input_def pq_qlength_def transfer_packets_def)

text \<open>The flags after \<open>k\<close> timer interrupts.\<close>

definition ticked :: "nat \<Rightarrow> platform \<Rightarrow> platform \<Rightarrow> bool" where
  "ticked k pl pl' \<longleftrightarrow>
     TcpFastTmrFlag pl' = (if k = 0 then TcpFastTmrFlag pl else 1) \<and>
     odd_tick pl' = (if even k then odd_tick pl else 1 - odd_tick pl) \<and>
     TcpSlowTmrFlag pl' = (if k + (if odd_tick pl = 0 then 1 else 0) < 2 then TcpSlowTmrFlag pl else 1)"

lemma ticked_Suc:
  "ticked k (start_timer (load_timer (timer_callback pl))) pl' \<Longrightarrow> odd_tick pl \<in> {0, 1} \<Longrightarrow> ticked (Suc k) pl pl'"
  by (auto simp: ticked_def timer_callback_def load_timer_def start_timer_def XTmrCtr_SetControlStatusReg_def Let_def)

lemma odd_tick_next: "odd_tick (start_timer (load_timer (timer_callback pl))) \<in> {0, 1}"
  by (auto simp: timer_callback_def load_timer_def start_timer_def XTmrCtr_SetControlStatusReg_def Let_def)

lemma board_idle:
  fixes st :: "'a app_st_scheme"
  assumes "odd_tick pl \<in> {0, 1}" "pq_len (recv_q st) = 0"
  shows "\<exists>pl'. board_run n es (pl, st) = Inr (pl', st\<lparr>intc_acks := intc_acks st @ replicate (count_list es Timer_interrupt) PLATFORM_TIMER_INTERRUPT_MASK\<rparr>)
     \<and> ticked (count_list es Timer_interrupt) pl pl'"
  using assms
proof (induction es arbitrary: pl st)
  case Nil
  then show ?case by (auto simp: ticked_def)
next
  case (Cons e es)
  show ?case
  proof (cases e)
    case Timer_interrupt
    let ?pl = "start_timer (load_timer (timer_callback pl))" and ?st = "st\<lparr>intc_acks := intc_acks st @ [PLATFORM_TIMER_INTERRUPT_MASK]\<rparr>"
    from Cons.IH [OF odd_tick_next, of ?st pl] Cons.prems obtain pl' where
      "board_run n es (?pl, ?st) = Inr (pl', ?st\<lparr>intc_acks := intc_acks ?st @ replicate (count_list es Timer_interrupt) PLATFORM_TIMER_INTERRUPT_MASK\<rparr>)"
      "ticked (count_list es Timer_interrupt) ?pl pl'" by auto
    with ticked_Suc [of _ pl pl'] Cons.prems(1) show ?thesis
      by (auto simp: Timer_interrupt xadapter_timer_handler_def XIntc_AckIntr_def)
  next
    case Loop_round
    with Cons show ?thesis by (simp add: idle_round)
  qed
qed

text \<open>C28: As long as no frame comes in, the rounds of the main loop and the timer interrupts between them,
  in whatever order, change nothing but the acknowledgements of the interrupts: after two interrupts both
  flags ask for the TCP timers, and no timer runs, no connection gets older, nothing is sent again.\<close>

theorem timers_never_run:
  fixes st :: "'a app_st_scheme"
  assumes "pq_len (recv_q st) = 0" "2 \<le> count_list es Timer_interrupt"
  shows "\<exists>pl'. board_run n es (platform_setup_timer platform_start, st)
       = Inr (pl', st\<lparr>intc_acks := intc_acks st @ replicate (count_list es Timer_interrupt) PLATFORM_TIMER_INTERRUPT_MASK\<rparr>)
     \<and> TcpFastTmrFlag pl' = 1 \<and> TcpSlowTmrFlag pl' = 1"
proof -
  have "odd_tick (platform_setup_timer platform_start) \<in> {0, 1}"
    by (simp add: platform_setup_timer_def platform_start_def load_timer_def start_timer_def XTmrCtr_SetControlStatusReg_def XTmrCtr_SetLoadReg_def)
  from board_idle [OF this assms(1), of n es] assms(2) show ?thesis by (auto simp: ticked_def)
qed

text \<open>A connection in \<open>FIN_WAIT_1\<close> that waits for an acknowledgement; the frames of the board have been read.\<close>

theorem timers_never_run_witness:
  "\<exists>pl'. board_run 1 [Timer_interrupt, Loop_round, Timer_interrupt, Loop_round]
       (platform_setup_timer platform_start, frame_st\<lparr>recv_q := pq_empty\<rparr>)
     = Inr (pl', (frame_st\<lparr>recv_q := pq_empty\<rparr>)\<lparr>intc_acks := intc_acks (frame_st\<lparr>recv_q := pq_empty\<rparr>) @ replicate 2 PLATFORM_TIMER_INTERRUPT_MASK\<rparr>)
   \<and> TcpFastTmrFlag pl' = 1 \<and> TcpSlowTmrFlag pl' = 1"
  using timers_never_run [of "frame_st\<lparr>recv_q := pq_empty\<rparr>" "[Timer_interrupt, Loop_round, Timer_interrupt, Loop_round]" 1]
  by (simp add: pq_empty_def numeral_2_eq_2)

end
