(* ===== verification/MemProps.thy ===== *)
theory MemProps
  imports Mem
begin

text \<open>
  What \<^verbatim>\<open>mem.c\<close> guarantees: the headers in \<^verbatim>\<open>ram\<close> always describe a sequence of blocks that fills the heap
  without gap or overlap and in which no two free blocks are neighbours, \<^verbatim>\<open>lfree\<close> is the first free block,
  and allocation is first fit.
\<close>

section \<open>Tiles\<close>

text \<open>A block is its size, header included, and whether it is in use.\<close>

type_synonym tile = "nat \<times> bool"

definition width :: "tile list \<Rightarrow> nat" where "width ts = sum_list (map fst ts)"

lemma width_simps [simp]: "width [] = 0" "width ((n, u) # ts) = n + width ts" "width (ts @ us) = width ts + width us"
  by (simp_all add: width_def)

text \<open>
  \<open>tiled H pv a ts pv' b\<close>: from offset \<open>a\<close>, where the link back is \<open>pv\<close>, the headers lead over the blocks \<open>ts\<close> to
  \<open>b\<close>, whose link back would be \<open>pv'\<close>.
\<close>

fun tiled :: "(nat \<Rightarrow> mem_hdr) \<Rightarrow> nat \<Rightarrow> nat \<Rightarrow> tile list \<Rightarrow> nat \<Rightarrow> nat \<Rightarrow> bool" where
  "tiled H pv a [] pv' b \<longleftrightarrow> a = b \<and> pv = pv'"
| "tiled H pv a ((n, u) # ts) pv' b \<longleftrightarrow>
     128 \<le> n \<and> 64 dvd n \<and> mh_next (H a) = a + n \<and> mh_prev (H a) = pv \<and> mh_used (H a) = u \<and> tiled H a (a + n) ts pv' b"

lemma tiled_append: "tiled H pv a (xs @ ys) pv' b \<longleftrightarrow> (\<exists>p c. tiled H pv a xs p c \<and> tiled H p c ys pv' b)"
proof (induction xs arbitrary: pv a)
  case (Cons t xs)
  then show ?case by (cases t) auto
qed simp

lemma tiled_end: "tiled H pv a ts pv' b \<Longrightarrow> b = a + width ts"
proof (induction ts arbitrary: pv a)
  case (Cons t ts)
  then show ?case by (cases t) (auto dest!: Cons.IH)
qed simp

lemma tiled_frame: "tiled H pv a ts pv' b \<Longrightarrow> (\<And>c. a \<le> c \<Longrightarrow> c < b \<Longrightarrow> H' c = H c) \<Longrightarrow> tiled H' pv a ts pv' b"
proof (induction ts arbitrary: pv a)
  case (Cons t ts)
  obtain n u where t: "t = (n, u)" by (cases t)
  from Cons.prems(1) t have d: "128 \<le> n" "tiled H a (a + n) ts pv' b" by auto
  then have "a + n \<le> b" using tiled_end by fastforce
  moreover have "tiled H' a (a + n) ts pv' b" using Cons.IH [OF d(2)] Cons.prems(2) by simp
  ultimately show ?case using Cons.prems d(1) t by auto
qed simp

text \<open>The first link back of a part may be changed.\<close>

lemma tiled_prev:
  assumes "tiled H pv a (t # ts) pv' b" "H' a = (H a)\<lparr>mh_prev := p\<rparr>" "\<And>c. a < c \<Longrightarrow> c < b \<Longrightarrow> H' c = H c"
  shows "\<exists>q. tiled H' p a (t # ts) q b"
proof -
  obtain n u where t: "t = (n, u)" by (cases t)
  with assms(1) have "tiled H a (a + n) ts pv' b" "128 \<le> n" by auto
  then have "tiled H' a (a + n) ts pv' b" by (rule_tac tiled_frame) (use assms(3) in auto)
  with assms(1,2) t show ?thesis by auto
qed

lemma tiled_length: "tiled H pv a ts pv' b \<Longrightarrow> a + 128 * length ts \<le> b"
proof (induction ts arbitrary: pv a)
  case (Cons t ts)
  then show ?case by (cases t) (auto dest!: Cons.IH)
qed simp

section \<open>The representation\<close>

fun coalesced :: "tile list \<Rightarrow> bool" where
  "coalesced ((n, u) # (m, v) # ts) \<longleftrightarrow> (u \<or> v) \<and> coalesced ((m, v) # ts)"
| "coalesced ts \<longleftrightarrow> True"

lemma coalesced_append:
  "coalesced (xs @ ys) \<longleftrightarrow> coalesced xs \<and> coalesced ys \<and> (xs = [] \<or> ys = [] \<or> snd (last xs) \<or> snd (hd ys))"
  by (induction xs rule: coalesced.induct) (auto, (cases ys; auto)+)

definition lowest_free :: "tile list \<Rightarrow> nat" where "lowest_free ts = width (takeWhile snd ts)"

definition heap_repr :: "heap \<Rightarrow> tile list \<Rightarrow> bool" where
  "heap_repr h ts \<longleftrightarrow> (\<exists>pv. tiled (hdr h) 0 0 ts pv ram_end) \<and> mh_used (hdr h ram_end) \<and> mh_next (hdr h ram_end) = ram_end
     \<and> lfree h = lowest_free ts \<and> coalesced ts"

lemma heap_repr_width: "heap_repr h ts \<Longrightarrow> width ts = ram_end"
  by (auto simp: heap_repr_def dest: tiled_end)

lemma mem_init_repr: "heap_repr (mem_init a h) [(ram_end, False)]"
  by (simp add: heap_repr_def mem_init_def ram_end_def mem_config lowest_free_def)

section \<open>First fit\<close>

text \<open>
  The reference: the first free block that is large enough is cut when what is left over is large
  enough to be a block. The result is its offset and the new blocks.
\<close>

definition cut_tile :: "nat \<Rightarrow> nat \<Rightarrow> tile list" where
  "cut_tile sz n = (if sz + 192 \<le> n then [(sz + 64, True), (n - (sz + 64), False)] else [(n, True)])"

fun first_fit :: "nat \<Rightarrow> tile list \<Rightarrow> (nat \<times> tile list) option" where
  "first_fit sz [] = None"
| "first_fit sz ((n, u) # ts) =
     (if \<not> u \<and> sz + 64 \<le> n then Some (0, cut_tile sz n @ ts)
      else map_option (\<lambda>(a, us). (n + a, (n, u) # us)) (first_fit sz ts))"

lemma first_fit_used: "\<forall>t \<in> set us. snd t \<Longrightarrow> first_fit sz (us @ ts) = map_option (\<lambda>(a, vs). (width us + a, us @ vs)) (first_fit sz ts)"
proof (induction us)
  case Nil
  show ?case by (cases "first_fit sz ts") auto
next
  case (Cons t us)
  then show ?case by (cases t; cases "first_fit sz ts") auto
qed

lemma first_fit_Some:
  "first_fit sz ts = Some (a, us) \<Longrightarrow>
   \<exists>xs n ys. ts = xs @ (n, False) # ys \<and> a = width xs \<and> sz + 64 \<le> n \<and> us = xs @ cut_tile sz n @ ys"
proof (induction ts arbitrary: a us)
  case (Cons t ts)
  obtain n u where t: "t = (n, u)" by (cases t)
  show ?case
  proof (cases "\<not> u \<and> sz + 64 \<le> n")
    case True
    with Cons.prems t show ?thesis by (intro exI [of _ "[]"]) auto
  next
    case False
    with Cons.prems t obtain b vs where b: "first_fit sz ts = Some (b, vs)" "a = n + b" "us = (n, u) # vs" by auto
    from Cons.IH [OF b(1)] obtain xs m ys where "ts = xs @ (m, False) # ys" "b = width xs" "sz + 64 \<le> m" "vs = xs @ cut_tile sz m @ ys"
      by blast
    with b t show ?thesis by (intro exI [of _ "(n, u) # xs"]) auto
  qed
qed simp

lemma first_fit_small: "width ts < sz + 64 \<Longrightarrow> first_fit sz ts = None"
  by (induction ts) auto

lemma mem_scan_first_fit:
  assumes "tiled (hdr h) pv a ts pv' ram_end" "length ts < fuel" "sz \<le> MEM_SIZE_ALIGNED"
  shows "mem_scan fuel h sz a = Some (map_option (\<lambda>(o', _). a + o') (first_fit sz ts))"
  using assms(1,2)
proof (induction ts arbitrary: pv a fuel)
  case Nil
  then obtain f where "fuel = Suc f" by (cases fuel) auto
  with Nil show ?case by (simp add: ram_end_def less_diff_conv)
next
  case (Cons t ts)
  obtain n u where t: "t = (n, u)" by (cases t)
  from Cons.prems obtain f where f: "fuel = Suc f" by (cases fuel) auto
  from Cons.prems t have d: "mh_next (hdr h a) = a + n" "mh_used (hdr h a) = u" "tiled (hdr h) a (a + n) ts pv' ram_end" by auto
  have e: "ram_end = a + n + width ts" using tiled_end [OF d(3)] by simp
  show ?case
  proof (cases "a < MEM_SIZE_ALIGNED - sz")
    case True
    with Cons.IH [OF d(3), of f] Cons.prems(2) f t d show ?thesis
      by (cases "first_fit sz ts") (auto simp: SIZEOF_STRUCT_MEM_def)
  next
    case False
    then have "width ((n, u) # ts) < sz + 64" using e by (simp add: ram_end_def)
    with False f t first_fit_small [of "(n, u) # ts" sz] show ?thesis by (simp add: mem_config)
  qed
qed

lemma next_free_spec:
  assumes "tiled (hdr h) pv a ts pv' ram_end" "length ts < fuel"
  shows "next_free fuel h a = Some (a + lowest_free ts)"
  using assms
proof (induction ts arbitrary: pv a fuel)
  case Nil
  then obtain f where "fuel = Suc f" by (cases fuel) auto
  with Nil show ?case by (simp add: lowest_free_def)
next
  case (Cons t ts)
  obtain n u where t: "t = (n, u)" by (cases t)
  from Cons.prems obtain f where f: "fuel = Suc f" by (cases fuel) auto
  from Cons.prems t have d: "mh_next (hdr h a) = a + n" "mh_used (hdr h a) = u" "tiled (hdr h) a (a + n) ts pv' ram_end" "128 \<le> n" by auto
  have e: "ram_end = a + n + width ts" using tiled_end [OF d(3)] by simp
  then have "a \<noteq> ram_end" using d(4) by simp
  with Cons.IH [OF d(3), of f] Cons.prems(2) f t d show ?case by (cases u) (auto simp: lowest_free_def)
qed

section \<open>Replacing blocks\<close>

lemma tiled_replace:
  assumes "tiled H 0 0 xs p a" "tiled H q b ys pv ram_end" "tiled H' p a zs q' b"
    and "\<And>c. c < a \<Longrightarrow> H' c = H c" "\<And>c. b < c \<Longrightarrow> H' c = H c" "ys \<noteq> [] \<Longrightarrow> H' b = (H b)\<lparr>mh_prev := q'\<rparr>"
  shows "\<exists>pv'. tiled H' 0 0 (xs @ zs @ ys) pv' ram_end"
proof -
  have x: "tiled H' 0 0 xs p a" by (rule tiled_frame [OF assms(1)]) (simp add: assms(4))
  have y: "\<exists>pv'. tiled H' q' b ys pv' ram_end"
  proof (cases ys)
    case Nil
    with assms(2) show ?thesis by simp
  next
    case (Cons y ys')
    then show ?thesis using tiled_prev [OF assms(2) [unfolded Cons]] assms(5,6) by blast
  qed
  from y obtain pv' where "tiled H' q' b ys pv' ram_end" by blast
  with x assms(3) have "tiled H' 0 0 (xs @ zs @ ys) pv' ram_end" unfolding tiled_append by blast
  then show ?thesis by blast
qed

lemma same_prev: "mh_prev m = p \<Longrightarrow> m\<lparr>mh_prev := p\<rparr> = m"
  by (cases m) simp

lemma tiled_first_prev: "tiled H q b ys pv c \<Longrightarrow> ys \<noteq> [] \<Longrightarrow> mh_prev (H b) = q"
  by (cases ys) auto

text \<open>The two sides of the block at offset \<open>width xs\<close>.\<close>

lemma tiled_at:
  assumes "tiled H 0 0 (xs @ (n, u) # ys) pv ram_end"
  obtains p where "tiled H 0 0 xs p (width xs)" "128 \<le> n" "64 dvd n" "mh_next (H (width xs)) = width xs + n"
    "mh_prev (H (width xs)) = p" "mh_used (H (width xs)) = u" "tiled H (width xs) (width xs + n) ys pv ram_end"
    "width xs + n + width ys = ram_end"
proof -
  from assms obtain p c where s: "tiled H 0 0 xs p c" "tiled H p c ((n, u) # ys) pv ram_end" unfolding tiled_append by blast
  from tiled_end [OF s(1)] have "c = width xs" by simp
  with s tiled_end [OF s(2)] show ?thesis using that by simp
qed

lemma upd_hdr_simps [simp]:
  "hdr (upd_hdr h p f) = (hdr h)(p := f (hdr h p))" "lfree (upd_hdr h p f) = lfree h" "ram_base (upd_hdr h p f) = ram_base h"
  by (simp_all add: upd_hdr_def)

lemma set_prev_simps [simp]:
  "lfree (set_prev_unless_end h b p) = lfree h" "ram_base (set_prev_unless_end h b p) = ram_base h"
  "hdr (set_prev_unless_end h b p) = (if b = ram_end then hdr h else (hdr h)(b := (hdr h b)\<lparr>mh_prev := p\<rparr>))"
  by (simp_all add: set_prev_unless_end_def ram_end_def)

definition end_ok :: "(nat \<Rightarrow> mem_hdr) \<Rightarrow> bool" where
  "end_ok H \<longleftrightarrow> mh_used (H ram_end) \<and> mh_next (H ram_end) = ram_end"

lemma heap_repr_alt: "heap_repr h ts \<longleftrightarrow> (\<exists>pv. tiled (hdr h) 0 0 ts pv ram_end) \<and> end_ok (hdr h) \<and> lfree h = lowest_free ts \<and> coalesced ts"
  by (auto simp: heap_repr_def end_ok_def)

lemma mem_take_tiled:
  assumes "tiled (hdr h) 0 0 (xs @ (n, False) # ys) pv ram_end" "end_ok (hdr h)" "sz + 64 \<le> n" "64 dvd sz" "64 \<le> sz"
  shows "(\<exists>pv'. tiled (hdr (mem_take h sz (width xs))) 0 0 (xs @ cut_tile sz n @ ys) pv' ram_end) \<and> end_ok (hdr (mem_take h sz (width xs)))
    \<and> lfree (mem_take h sz (width xs)) = lfree h \<and> ram_base (mem_take h sz (width xs)) = ram_base h"
proof -
  let ?a = "width xs" and ?H = "hdr (mem_take h sz (width xs))"
  from assms(1) obtain p where t: "tiled (hdr h) 0 0 xs p ?a" "128 \<le> n" "64 dvd n" "mh_next (hdr h ?a) = ?a + n"
    "mh_prev (hdr h ?a) = p" "tiled (hdr h) ?a (?a + n) ys pv ram_end" and w: "?a + n + width ys = ram_end" by (rule tiled_at)
  have e: "ys \<noteq> [] \<longleftrightarrow> ?a + n \<noteq> ram_end" using t(6) w by (cases ys) auto
  have "\<exists>q'. tiled ?H p ?a (cut_tile sz n) q' (?a + n) \<and> (ys \<noteq> [] \<longrightarrow> ?H (?a + n) = (hdr h (?a + n))\<lparr>mh_prev := q'\<rparr>)"
  proof (cases "sz + 192 \<le> n")
    case True
    then have "64 dvd n - (sz + 64)" using t(3) assms(4) by (simp add: dvd_diff_nat)
    with True t assms(4,5) e show ?thesis
      by (intro exI [of _ "?a + 64 + sz"]) (auto simp: cut_tile_def mem_take_def mem_config Let_def)
  next
    case False
    with t e same_prev [OF tiled_first_prev [OF t(6)]] show ?thesis
      by (intro exI [of _ "?a"]) (auto simp: cut_tile_def mem_take_def mem_config Let_def)
  qed
  then obtain q' where q: "tiled ?H p ?a (cut_tile sz n) q' (?a + n)" "ys \<noteq> [] \<Longrightarrow> ?H (?a + n) = (hdr h (?a + n))\<lparr>mh_prev := q'\<rparr>" by blast
  have o: "?H c = hdr h c" if "c < ?a \<or> ?a + n < c" for c
    using that t(2,4) assms(3) by (auto simp: mem_take_def mem_config Let_def)
  have "\<exists>pv'. tiled ?H 0 0 (xs @ cut_tile sz n @ ys) pv' ram_end"
    by (rule tiled_replace [OF t(1,6) q(1)]) (use o q(2) in auto)
  moreover have "end_ok ?H"
    using assms(2) w t(2,4) by (auto simp: end_ok_def mem_take_def mem_config Let_def ram_end_def)
  ultimately show ?thesis by (simp add: mem_take_def Let_def)
qed

lemma lowest_free_append:
  "lowest_free (xs @ ys) = (if \<forall>t \<in> set xs. snd t then width xs + lowest_free ys else lowest_free xs)"
  by (auto simp: lowest_free_def takeWhile_append)

lemma lowest_free_less: "\<not> (\<forall>t \<in> set xs. snd t) \<Longrightarrow> \<forall>t \<in> set xs. 0 < fst t \<Longrightarrow> lowest_free xs < width xs"
proof (induction xs)
  case (Cons t xs)
  then show ?case by (cases t; cases "snd t") (auto simp: lowest_free_def)
qed simp

lemma tiled_pos: "tiled H pv a ts pv' b \<Longrightarrow> \<forall>t \<in> set ts. 0 < fst t"
proof (induction ts arbitrary: pv a)
  case (Cons t ts)
  then show ?case by (cases t) (auto dest!: Cons.IH)
qed simp

lemma adjust_size: "64 dvd adjust_size s" "64 \<le> adjust_size s"
proof -
  have "take_bit 6 (LWIP_MEM_ALIGN_SIZE s) = 0"
    unfolding LWIP_MEM_ALIGN_SIZE_def by (rule bit_word_eqI) (auto simp: bit_simps simp flip: mask_eq_exp_minus_1)
  then have "unat (LWIP_MEM_ALIGN_SIZE s) mod 64 = 0"
    using unsigned_take_bit_eq [of 6 "LWIP_MEM_ALIGN_SIZE s", where 'a = nat] by (simp add: take_bit_eq_mod)
  then show "64 dvd adjust_size s" "64 \<le> adjust_size s" by (auto simp: adjust_size_def Let_def mem_config)
qed

section \<open>Allocation\<close>

lemma coalesced_cut: "coalesced (xs @ (n, False) # ys) \<Longrightarrow> coalesced (xs @ cut_tile sz n @ ys)"
  by (cases ys) (auto simp: coalesced_append cut_tile_def)

lemma heap_len: "heap_repr h ts \<Longrightarrow> length ts < mem_fuel"
  by (auto simp: heap_repr_def mem_fuel_def ram_end_def MEM_SIZE_ALIGNED_def dest!: tiled_length)

lemma used_prefix: "\<exists>us fs. ts = us @ fs \<and> (\<forall>t \<in> set us. snd t) \<and> lowest_free ts = width us"
  by (rule exI [of _ "takeWhile snd ts"], rule exI [of _ "dropWhile snd ts"])
     (auto simp: lowest_free_def dest: set_takeWhileD)

lemma mem_scan_lfree:
  assumes "heap_repr h ts" "sz \<le> MEM_SIZE_ALIGNED"
  shows "mem_scan mem_fuel h sz (lfree h) = Some (map_option fst (first_fit sz ts))"
proof -
  obtain us fs where u: "ts = us @ fs" "\<forall>t \<in> set us. snd t" "lowest_free ts = width us" using used_prefix by blast
  from assms(1) obtain pv where "tiled (hdr h) 0 0 (us @ fs) pv ram_end" by (auto simp: heap_repr_def u(1))
  then obtain p c where s: "tiled (hdr h) 0 0 us p c" "tiled (hdr h) p c fs pv ram_end" unfolding tiled_append by blast
  have c: "c = lfree h" using tiled_end [OF s(1)] assms(1) u(3) by (simp add: heap_repr_def)
  have "length fs < mem_fuel" using heap_len [OF assms(1)] u(1) by simp
  from mem_scan_first_fit [OF s(2) this assms(2)] c u(3) assms(1)
  show ?thesis
    by (cases "first_fit sz fs") (auto simp: u(1) first_fit_used [OF u(2)] heap_repr_def)
qed

lemma mem_malloc_spec:
  assumes "heap_repr h ts" "size0 \<noteq> 0"
  shows "case first_fit (adjust_size size0) ts of
      None \<Rightarrow> mem_malloc h size0 = Some (0, h)
    | Some (a, us) \<Rightarrow> \<exists>h'. mem_malloc h size0 = Some (ram_base h + a + 64, h') \<and> heap_repr h' us \<and> ram_base h' = ram_base h"
proof (cases "MEM_SIZE_ALIGNED < adjust_size size0")
  case True
  then have "width ts < adjust_size size0 + 64" using heap_repr_width [OF assms(1)] by (simp add: ram_end_def)
  with first_fit_small [OF this] assms(2) True show ?thesis by (simp add: mem_malloc_def Let_def)
next
  case False
  let ?sz = "adjust_size size0"
  have scan: "mem_scan mem_fuel h ?sz (lfree h) = Some (map_option fst (first_fit ?sz ts))"
    by (rule mem_scan_lfree [OF assms(1)]) (use False in simp)
  show ?thesis
  proof (cases "first_fit ?sz ts")
    case None
    with scan False assms(2) show ?thesis by (simp add: mem_malloc_def Let_def)
  next
    case (Some x)
    obtain a us where x: "x = (a, us)" by (cases x)
    from first_fit_Some [OF Some [unfolded x]] obtain xs n ys where
      f: "ts = xs @ (n, False) # ys" "a = width xs" "?sz + 64 \<le> n" "us = xs @ cut_tile ?sz n @ ys" by blast
    from assms(1) f(1) obtain pv where t: "tiled (hdr h) 0 0 (xs @ (n, False) # ys) pv ram_end" "end_ok (hdr h)"
      and lf: "lfree h = lowest_free ts" and co: "coalesced ts" by (auto simp: heap_repr_alt)
    let ?h = "mem_take h ?sz a"
    from mem_take_tiled [OF t f(3) adjust_size] f(2,4) obtain pv' where
      t': "tiled (hdr ?h) 0 0 us pv' ram_end" "end_ok (hdr ?h)" "lfree ?h = lfree h" "ram_base ?h = ram_base h" by auto
    have co': "coalesced us" using coalesced_cut co f(1,4) by simp
    have sel: "mem_malloc h size0 = (if a = lfree ?h then (case next_free mem_fuel ?h (lfree ?h) of None \<Rightarrow> None
        | Some cur \<Rightarrow> Some (ram_base h + a + 64, ?h\<lparr>lfree := cur\<rparr>)) else Some (ram_base h + a + 64, ?h))"
      using scan False assms(2) Some x by (simp add: mem_malloc_def Let_def SIZEOF_STRUCT_MEM_def)
    show ?thesis
    proof (cases "a = lfree ?h")
      case True
      then have "a = lowest_free ts" using t'(3) lf by simp
      then have u: "\<forall>t \<in> set xs. snd t"
        using lowest_free_less [of xs] tiled_pos [OF t(1)] f(1,2) by (auto simp: lowest_free_append split: if_splits)
      let ?zs = "cut_tile ?sz n @ ys"
      from t'(1) f(4) obtain p c where s: "tiled (hdr ?h) 0 0 xs p c" "tiled (hdr ?h) p c ?zs pv' ram_end"
        using tiled_append [of "hdr ?h" 0 0 xs ?zs pv' ram_end] by blast
      have c: "c = a" using tiled_end [OF s(1)] f(2) by simp
      have "length ?zs < mem_fuel" using tiled_length [OF t'(1)] f(4) by (simp add: mem_fuel_def ram_end_def MEM_SIZE_ALIGNED_def)
      from next_free_spec [OF s(2) this] c have "next_free mem_fuel ?h a = Some (a + lowest_free ?zs)" by simp
      moreover have "a + lowest_free ?zs = lowest_free us" using u f(2,4) by (simp add: lowest_free_append)
      ultimately show ?thesis using True sel t' co' Some x by (auto simp: heap_repr_alt)
    next
      case False
      have "lowest_free us = lowest_free ts"
      proof (cases "\<forall>t \<in> set xs. snd t")
        case True
        then have "lowest_free ts = a" using f(1,2) by (simp add: lowest_free_append lowest_free_def [of "(n, False) # ys"])
        with False t'(3) lf show ?thesis by simp
      qed (use f(1,4) in \<open>auto simp: lowest_free_append [of xs]\<close>)
      then show ?thesis using False sel t' co' Some x lf by (auto simp: heap_repr_alt)
    qed
  qed
qed

section \<open>Freeing\<close>

definition merge_front :: "nat \<Rightarrow> tile list \<Rightarrow> nat \<times> tile list" where
  "merge_front n ys = (case ys of (m, False) # zs \<Rightarrow> (n + m, zs) | _ \<Rightarrow> (n, ys))"

definition merge_back :: "tile list \<Rightarrow> nat \<Rightarrow> tile list \<Rightarrow> tile list" where
  "merge_back xs n zs =
     (if xs \<noteq> [] \<and> \<not> snd (last xs) then butlast xs @ (fst (last xs) + n, False) # zs else xs @ (n, False) # zs)"

definition release :: "tile list \<Rightarrow> nat \<Rightarrow> tile list \<Rightarrow> tile list" where
  "release xs n ys = (case merge_front n ys of (m, zs) \<Rightarrow> merge_back xs m zs)"

lemma merge_front_simps [simp]:
  "merge_front n [] = (n, [])" "merge_front n ((m, False) # zs) = (n + m, zs)" "merge_front n ((m, True) # zs) = (n, (m, True) # zs)"
  by (simp_all add: merge_front_def)

lemma plug_forward_tiled:
  assumes "tiled (hdr h) 0 0 (xs @ (n, False) # ys) pv ram_end" "end_ok (hdr h)" "lfree h \<le> width xs" "merge_front n ys = (m, zs)"
  shows "(\<exists>pv'. tiled (hdr (plug_forward h (width xs))) 0 0 (xs @ (m, False) # zs) pv' ram_end) \<and> end_ok (hdr (plug_forward h (width xs)))
    \<and> lfree (plug_forward h (width xs)) = lfree h \<and> ram_base (plug_forward h (width xs)) = ram_base h"
proof -
  let ?a = "width xs" and ?H = "hdr (plug_forward h (width xs))"
  from assms(1) obtain p where t: "tiled (hdr h) 0 0 xs p ?a" "128 \<le> n" "64 dvd n" "mh_next (hdr h ?a) = ?a + n"
    "mh_prev (hdr h ?a) = p" "mh_used (hdr h ?a) = False" "tiled (hdr h) ?a (?a + n) ys pv ram_end" and w: "?a + n + width ys = ram_end" by (rule tiled_at)
  show ?thesis
  proof (cases "\<exists>k ws. ys = (k, False) # ws")
    case True
    then obtain k ws where y: "ys = (k, False) # ws" by blast
    with t(7) have k: "128 \<le> k" "64 dvd k" "mh_next (hdr h (?a + n)) = ?a + n + k" "\<not> mh_used (hdr h (?a + n))"
      "tiled (hdr h) (?a + n) (?a + n + k) ws pv ram_end" by auto
    have mz: "m = n + k" "zs = ws" using assms(4) y by auto
    have ne: "?a + n \<noteq> ram_end" using w y k(1) by simp
    have H: "?H = (hdr h)(?a := (hdr h ?a)\<lparr>mh_next := ?a + n + k\<rparr>, ?a + n + k := (hdr h (?a + n + k))\<lparr>mh_prev := ?a\<rparr>)"
      using t(2,4) k(1,3,4) ne assms(3) by (auto simp: plug_forward_def Let_def)
    have "\<exists>pv'. tiled ?H 0 0 (xs @ [(m, False)] @ zs) pv' ram_end"
      by (rule tiled_replace [where p = p and b = "?a + n + k" and q' = ?a]) (use t k mz H in \<open>auto intro: dvd_add\<close>)
    moreover have "end_ok ?H" using assms(2) H w y k(1) t(2) by (auto simp: end_ok_def)
    ultimately show ?thesis using assms(3) t(2,4) by (simp add: plug_forward_def Let_def)
  next
    case False
    then have mz: "m = n" "zs = ys" using assms(4) by (auto simp: merge_front_def split: list.splits prod.splits bool.splits)
    have "mh_used (hdr h (?a + n)) \<or> ?a + n = ram_end"
    proof (cases ys)
      case (Cons t ws)
      with False t(7) show ?thesis by (cases t) auto
    qed (use t(7) in simp)
    then have "plug_forward h ?a = h" using t(4) by (auto simp: plug_forward_def Let_def)
    with assms(1,2) mz show ?thesis by auto
  qed
qed

lemma plug_backward_tiled:
  assumes "tiled (hdr h) 0 0 (xs @ (n, False) # ys) pv ram_end" "end_ok (hdr h)"
    "lfree h \<le> width xs" "lfree h = width xs \<Longrightarrow> \<forall>t \<in> set xs. snd t"
  shows "(\<exists>pv'. tiled (hdr (plug_backward h (width xs))) 0 0 (merge_back xs n ys) pv' ram_end) \<and> end_ok (hdr (plug_backward h (width xs)))
    \<and> lfree (plug_backward h (width xs)) = lfree h \<and> ram_base (plug_backward h (width xs)) = ram_base h"
proof (cases xs rule: rev_cases)
  case Nil
  with assms have "mh_prev (hdr h 0) = 0" by auto
  with Nil assms show ?thesis by (auto simp: plug_backward_def merge_back_def Let_def)
next
  case (snoc ws t)
  obtain k u where tk: "t = (k, u)" by (cases t)
  let ?b = "width ws"
  from assms(1) snoc tk have "tiled (hdr h) 0 0 (ws @ (k, u) # (n, False) # ys) pv ram_end" by simp
  then obtain p where s: "tiled (hdr h) 0 0 ws p ?b" "128 \<le> k" "64 dvd k" "mh_next (hdr h ?b) = ?b + k" "mh_prev (hdr h ?b) = p"
    "mh_used (hdr h ?b) = u" "tiled (hdr h) ?b (?b + k) ((n, False) # ys) pv ram_end" and w: "?b + k + width ((n, False) # ys) = ram_end"
    by (rule tiled_at)
  from s(7) have n: "128 \<le> n" "64 dvd n" "mh_next (hdr h (?b + k)) = ?b + k + n" "mh_prev (hdr h (?b + k)) = ?b"
    "tiled (hdr h) (?b + k) (?b + k + n) ys pv ram_end" by auto
  have a: "width xs = ?b + k" using snoc tk by simp
  show ?thesis
  proof (cases u)
    case True
    then have "plug_backward h (width xs) = h" "merge_back xs n ys = xs @ (n, False) # ys"
      using s(6) n(4) a snoc tk by (auto simp: plug_backward_def merge_back_def Let_def)
    with assms(1,2) show ?thesis by auto
  next
    case False
    have ne: "lfree h \<noteq> width xs" using assms(4) snoc tk False by auto
    let ?H = "hdr (plug_backward h (width xs))"
    have H: "?H = (hdr h)(?b := (hdr h ?b)\<lparr>mh_next := ?b + k + n\<rparr>, ?b + k + n := (hdr h (?b + k + n))\<lparr>mh_prev := ?b\<rparr>)"
      using False s(2,6) n ne a by (auto simp: plug_backward_def Let_def)
    have "\<exists>pv'. tiled ?H 0 0 (ws @ [(k + n, False)] @ ys) pv' ram_end"
      by (rule tiled_replace [where p = p and b = "?b + k + n" and q' = ?b]) (use s n H False in \<open>auto intro: dvd_add\<close>)
    moreover have "merge_back xs n ys = ws @ [(k + n, False)] @ ys" using snoc tk False by (simp add: merge_back_def)
    moreover have "end_ok ?H" using assms(2) H w n(1) s(2) by (auto simp: end_ok_def)
    ultimately show ?thesis using ne False s(2,6) n(4) a by (simp add: plug_backward_def Let_def)
  qed
qed

lemma coalesced_release: "coalesced (xs @ (n, True) # ys) \<Longrightarrow> coalesced (release xs n ys)"
proof (cases xs rule: rev_cases)
  case Nil
  assume "coalesced (xs @ (n, True) # ys)"
  with Nil show ?thesis
    by (cases ys rule: coalesced.cases) (auto simp: release_def merge_front_def merge_back_def split: bool.splits)
next
  case (snoc ws t)
  assume "coalesced (xs @ (n, True) # ys)"
  with snoc show ?thesis
    by (cases ys rule: coalesced.cases; cases t)
       (auto simp: release_def merge_front_def merge_back_def coalesced_append split: bool.splits)
qed


text \<open>A block gives up its use: the header's mark, and \<^verbatim>\<open>lfree\<close>.\<close>

lemma free_mark_tiled:
  assumes "tiled (hdr h) 0 0 (xs @ (n, u) # ys) pv ram_end" "end_ok (hdr h)"
  shows "(\<exists>pv'. tiled ((hdr h)(width xs := (hdr h (width xs))\<lparr>mh_used := v\<rparr>)) 0 0 (xs @ (n, v) # ys) pv' ram_end)
    \<and> end_ok ((hdr h)(width xs := (hdr h (width xs))\<lparr>mh_used := v\<rparr>))"
proof -
  let ?H = "(hdr h)(width xs := (hdr h (width xs))\<lparr>mh_used := v\<rparr>)" and ?a = "width xs"
  from assms(1) obtain p where t: "tiled (hdr h) 0 0 xs p ?a" "128 \<le> n" "64 dvd n" "mh_next (hdr h ?a) = ?a + n"
    "mh_prev (hdr h ?a) = p" "tiled (hdr h) ?a (?a + n) ys pv ram_end" and w: "?a + n + width ys = ram_end" by (rule tiled_at)
  have "\<exists>pv'. tiled ?H 0 0 (xs @ [(n, v)] @ ys) pv' ram_end"
    by (rule tiled_replace [where p = p and b = "?a + n" and q' = ?a])
       (use t same_prev [OF tiled_first_prev [OF t(6)]] in auto)
  moreover have "end_ok ?H" using assms(2) w t(2) by (auto simp: end_ok_def)
  ultimately show ?thesis by simp
qed

lemma lowest_free_le:
  assumes "tiled H 0 0 (xs @ (n, False) # ys) pv ram_end"
  shows "lowest_free (xs @ (n, False) # ys) \<le> width xs"
    "lowest_free (xs @ (n, False) # ys) = width xs \<longleftrightarrow> (\<forall>t \<in> set xs. snd t)"
proof -
  have p: "\<forall>t \<in> set xs. 0 < fst t" using tiled_pos [OF assms] by auto
  have l: "lowest_free ((n, False) # ys) = 0" by (simp add: lowest_free_def)
  show "lowest_free (xs @ (n, False) # ys) \<le> width xs" "lowest_free (xs @ (n, False) # ys) = width xs \<longleftrightarrow> (\<forall>t \<in> set xs. snd t)"
    using p l lowest_free_less [of xs] less_imp_le [OF lowest_free_less [of xs]] less_imp_neq [OF lowest_free_less [of xs]]
    unfolding lowest_free_append [of xs] by (auto split: if_splits)
qed

lemma lowest_free_release: "lowest_free (release xs n ys) = lowest_free (xs @ (n, False) # ys)"
proof (cases xs rule: rev_cases)
  case Nil
  then show ?thesis by (cases "merge_front n ys") (simp add: release_def merge_back_def lowest_free_def)
next
  case (snoc ws t)
  obtain k u where "t = (k, u)" by (cases t)
  with snoc show ?thesis
    by (cases "merge_front n ys") (auto simp: release_def merge_back_def lowest_free_append [of ws] lowest_free_def [of "_ # _"])
qed

lemma mem_free_spec:
  assumes "heap_repr h (xs @ (n, True) # ys)"
  shows "heap_repr (mem_free h (ram_base h + width xs + 64)) (release xs n ys) \<and> ram_base (mem_free h (ram_base h + width xs + 64)) = ram_base h"
proof -
  let ?a = "width xs"
  from assms obtain pv where t: "tiled (hdr h) 0 0 (xs @ (n, True) # ys) pv ram_end" "end_ok (hdr h)"
    and lf: "lfree h = lowest_free (xs @ (n, True) # ys)" and co: "coalesced (xs @ (n, True) # ys)" by (auto simp: heap_repr_alt)
  from t(1) have n: "128 \<le> n" "?a + n \<le> ram_end" by (auto elim: tiled_at)
  define h1 where "h1 = upd_hdr h ?a (\<lambda>m. m\<lparr>mh_used := False\<rparr>)"
  define h2 where "h2 = (if ?a < lfree h1 then h1\<lparr>lfree := ?a\<rparr> else h1)"
  have f: "mem_free h (ram_base h + ?a + 64) = plug_holes h2 ?a"
    using n by (simp add: mem_free_def SIZEOF_STRUCT_MEM_def h1_def h2_def Let_def)
  from free_mark_tiled [OF t, of False] obtain pv1 where t1: "tiled (hdr h2) 0 0 (xs @ (n, False) # ys) pv1 ram_end" "end_ok (hdr h2)"
    by (auto simp: h1_def h2_def)
  have l2: "lfree h2 = lowest_free (xs @ (n, False) # ys)"
  proof (cases "\<forall>t \<in> set xs. snd t")
    case True
    then show ?thesis using lf n(1) by (auto simp: h1_def h2_def lowest_free_append [of xs] lowest_free_def [of "_ # _"])
  next
    case False
    then have "lowest_free xs < ?a" using lowest_free_less [OF False] tiled_pos [OF t(1)] by auto
    moreover have "lfree h = lowest_free xs" "lowest_free (xs @ (n, False) # ys) = lowest_free xs"
      using False lf unfolding lowest_free_append [of xs] by (auto split: if_splits)
    ultimately show ?thesis by (simp add: h1_def h2_def)
  qed
  obtain m zs where mf: "merge_front n ys = (m, zs)" by fastforce
  note lo = lowest_free_le [OF t1(1)]
  from plug_forward_tiled [OF t1 _ mf] lo l2 obtain pv2 where
    t2: "tiled (hdr (plug_forward h2 ?a)) 0 0 (xs @ (m, False) # zs) pv2 ram_end" "end_ok (hdr (plug_forward h2 ?a))"
      "lfree (plug_forward h2 ?a) = lfree h2" "ram_base (plug_forward h2 ?a) = ram_base h2" by auto
  from plug_backward_tiled [OF t2(1,2)] t2(3,4) lo l2 obtain pv3 where
    t3: "tiled (hdr (plug_holes h2 ?a)) 0 0 (merge_back xs m zs) pv3 ram_end" "end_ok (hdr (plug_holes h2 ?a))"
      "lfree (plug_holes h2 ?a) = lfree h2" "ram_base (plug_holes h2 ?a) = ram_base h2" by (auto simp: plug_holes_def)
  have "release xs n ys = merge_back xs m zs" by (simp add: release_def mf)
  moreover have "ram_base h2 = ram_base h" by (simp add: h1_def h2_def)
  moreover have "lfree (plug_holes h2 ?a) = lowest_free (release xs n ys)" using t3(3) l2 lowest_free_release [of xs n ys] by simp
  ultimately show ?thesis unfolding heap_repr_alt f using t3 coalesced_release [OF co] by auto
qed

section \<open>Trimming\<close>

text \<open>A block in use cut down to \<open>sz\<close> bytes: what is left over joins a free block behind, or becomes one if it is large enough.\<close>

definition trim_tile :: "nat \<Rightarrow> nat \<Rightarrow> tile list \<Rightarrow> tile list" where
  "trim_tile sz n ys =
     (if n < sz + 64 \<or> n = sz + 64 then (n, True) # ys
      else case ys of (m, False) # zs \<Rightarrow> (sz + 64, True) # (m + n - (sz + 64), False) # zs
         | _ \<Rightarrow> if sz + 192 \<le> n then (sz + 64, True) # (n - (sz + 64), False) # ys else (n, True) # ys)"

text \<open>What is left of \<^verbatim>\<open>mem_trim\<close> once the checks have passed.\<close>

definition trim_split :: "heap \<Rightarrow> nat \<Rightarrow> nat \<Rightarrow> nat \<Rightarrow> nat \<Rightarrow> heap" where
  "trim_split h a q nx lf =
     set_prev_unless_end (upd_hdr (upd_hdr (h\<lparr>lfree := lf\<rparr>) q (\<lambda>_. \<lparr>mh_next = nx, mh_prev = a, mh_used = False\<rparr>)) a
       (\<lambda>m. m\<lparr>mh_next := q\<rparr>)) nx q"

lemma trim_split_sel:
  "hdr (trim_split h a q nx lf) =
     (let H = (hdr h)(q := \<lparr>mh_next = nx, mh_prev = a, mh_used = False\<rparr>);
          H' = H(a := (H a)\<lparr>mh_next := q\<rparr>)
      in if nx = ram_end then H' else H'(nx := (H' nx)\<lparr>mh_prev := q\<rparr>))"
  "lfree (trim_split h a q nx lf) = lf" "ram_base (trim_split h a q nx lf) = ram_base h"
  by (simp_all add: trim_split_def set_prev_unless_end_def upd_hdr_def ram_end_def Let_def)

lemma mem_trim_alt:
  assumes "mh_next (hdr h a) = a + n" "64 \<le> n" "a + n \<le> ram_end"
  shows "snd (mem_trim h (ram_base h + a + 64) s) =
    (let sz = adjust_size s; q = a + 64 + sz in
     if n \<le> sz + 64 then h
     else if \<not> mh_used (hdr h (a + n)) then trim_split h a q (mh_next (hdr h (a + n))) (if lfree h = a + n then q else lfree h)
     else if sz + 192 \<le> n then trim_split h a q (a + n) (if q < lfree h then q else lfree h)
     else h)"
proof -
  have a: "ram_base h + a + 64 - SIZEOF_STRUCT_MEM - ram_base h = a" by (simp add: SIZEOF_STRUCT_MEM_def)
  have r: "(ram_base h + a + 64 < ram_base h \<or> ram_base h + ram_end \<le> ram_base h + a + 64) = (ram_end \<le> a + 64)" by auto
  have l: "(if b then h\<lparr>lfree := x\<rparr> else h) = h\<lparr>lfree := if b then x else lfree h\<rparr>" for b x by simp
  have n: "a + n - a - SIZEOF_STRUCT_MEM = n - 64" by (simp add: SIZEOF_STRUCT_MEM_def)
  show ?thesis
    unfolding mem_trim_def Let_def a r n l assms(1) trim_split_def [symmetric]
    using assms(2,3) by (simp add: SIZEOF_STRUCT_MEM_def MIN_SIZE_ALIGNED_def ram_end_def)
qed

lemma trim_split_tiled:
  assumes "tiled (hdr h) 0 0 xs p a" "mh_prev (hdr h a) = p" "mh_used (hdr h a)"
    and "tiled (hdr h) r b zs pv ram_end" "128 \<le> k" "64 dvd k" "a + k + 128 \<le> b" "64 dvd b - (a + k)" "end_ok (hdr h)"
  shows "\<exists>pv'. tiled (hdr (trim_split h a (a + k) b lf)) 0 0 (xs @ [(k, True), (b - (a + k), False)] @ zs) pv' ram_end"
    "end_ok (hdr (trim_split h a (a + k) b lf))"
proof -
  let ?H = "hdr (trim_split h a (a + k) b lf)"
  have le: "b \<le> ram_end" "zs \<noteq> [] \<Longrightarrow> b < ram_end"
    using tiled_end [OF assms(4)] tiled_length [OF assms(4)] by (cases zs; simp)+
  have H: "?H c = (if c = b \<and> b \<noteq> ram_end then (hdr h b)\<lparr>mh_prev := a + k\<rparr>
      else if c = a then (hdr h a)\<lparr>mh_next := a + k\<rparr>
      else if c = a + k then \<lparr>mh_next = b, mh_prev = a, mh_used = False\<rparr> else hdr h c)" for c
    using assms(5,7) by (auto simp: trim_split_sel Let_def)
  show "\<exists>pv'. tiled ?H 0 0 (xs @ [(k, True), (b - (a + k), False)] @ zs) pv' ram_end"
  proof (rule tiled_replace [OF assms(1,4)])
    show "tiled ?H p a [(k, True), (b - (a + k), False)] (a + k) b" using assms(2,3,5-8) by (simp add: H)
    show "?H c = hdr h c" if "c < a" for c using that assms(7) by (simp add: H)
    show "?H c = hdr h c" if "b < c" for c using that assms(7) by (simp add: H)
    show "?H b = (hdr h b)\<lparr>mh_prev := a + k\<rparr>" if "zs \<noteq> []" using le(2) [OF that] by (simp add: H)
  qed
  show "end_ok ?H" using assms(5,7,9) le(1) by (auto simp: end_ok_def H)
qed

lemma mem_trim_spec:
  assumes "heap_repr h (xs @ (n, True) # ys)" "h' = snd (mem_trim h (ram_base h + width xs + 64) s)"
  shows "heap_repr h' (xs @ trim_tile (adjust_size s) n ys) \<and> ram_base h' = ram_base h"
proof -
  let ?a = "width xs" and ?sz = "adjust_size s"
  from assms(1) obtain pv where t0: "tiled (hdr h) 0 0 (xs @ (n, True) # ys) pv ram_end" "end_ok (hdr h)"
    and lf: "lfree h = lowest_free (xs @ (n, True) # ys)" and co: "coalesced (xs @ (n, True) # ys)" by (auto simp: heap_repr_alt)
  from t0(1) obtain p where t: "tiled (hdr h) 0 0 xs p ?a" "128 \<le> n" "64 dvd n" "mh_next (hdr h ?a) = ?a + n"
    "mh_prev (hdr h ?a) = p" "mh_used (hdr h ?a) = True" "tiled (hdr h) ?a (?a + n) ys pv ram_end" and w: "?a + n + width ys = ram_end" by (rule tiled_at)
  note sz = adjust_size [of s]
  have alt: "h' =
    (let q = ?a + 64 + ?sz in
     if n \<le> ?sz + 64 then h
     else if \<not> mh_used (hdr h (?a + n)) then trim_split h ?a q (mh_next (hdr h (?a + n))) (if lfree h = ?a + n then q else lfree h)
     else if ?sz + 192 \<le> n then trim_split h ?a q (?a + n) (if q < lfree h then q else lfree h)
     else h)" using mem_trim_alt [OF t(4)] t(2) w assms(2) by (simp add: Let_def)
  show ?thesis
  proof (cases "n \<le> ?sz + 64")
    case True
    then have "h' = h" using alt by simp
    moreover have "trim_tile ?sz n ys = (n, True) # ys" using True by (auto simp: trim_tile_def)
    ultimately show ?thesis using assms(1) by simp
  next
    case False
    let ?q = "?a + 64 + ?sz"
    have far: "\<not> MEM_SIZE_ALIGNED < ?sz" "?a + n \<le> ram_end" using False w by (simp_all add: ram_end_def)
    have pos: "\<not> (\<forall>t \<in> set xs. snd t) \<Longrightarrow> lowest_free xs < ?a" using lowest_free_less [of xs] tiled_pos [OF t0(1)] by auto
    have d: "64 dvd n - (?sz + 64)" using t(3) sz(1) by (simp add: dvd_diff_nat)
    consider (join) m zs where "ys = (m, False) # zs" | (cut) "\<nexists>m zs. ys = (m, False) # zs" "?sz + 192 \<le> n"
      | (keep) "\<nexists>m zs. ys = (m, False) # zs" "n < ?sz + 192" by fastforce
    then show ?thesis
    proof cases
      case join
      with t(7) have m: "128 \<le> m" "64 dvd m" "mh_next (hdr h (?a + n)) = ?a + n + m" "\<not> mh_used (hdr h (?a + n))"
        "tiled (hdr h) (?a + n) (?a + n + m) zs pv ram_end" by auto
      let ?k = "?sz + 64" and ?b = "?a + n + m"
      have h: "h' = trim_split h ?a (?a + ?k) ?b (if lfree h = ?a + n then ?a + ?k else lfree h)"
        using alt m(3,4) False by (simp add: Let_def ac_simps)
      have e: "?b - (?a + ?k) = m + n - ?k" "64 dvd m + n - ?k" "?a + ?k + 128 \<le> ?b"
        using m(1,2) t(3) sz(1) False by (auto simp: dvd_diff_nat)
      have "\<exists>pv'. tiled (hdr h') 0 0 (xs @ [(?k, True), (m + n - ?k, False)] @ zs) pv' ram_end" "end_ok (hdr h')"
        using trim_split_tiled [of h xs p ?a _ ?b zs pv ?k, OF t(1,5) _ m(5) _ _ e(3) _ t0(2)] t(6) sz e(1,2) unfolding h by simp_all
      moreover have "trim_tile ?sz n ys = [(?k, True), (m + n - ?k, False)] @ zs"
        using False join by (auto simp: trim_tile_def)
      moreover have "lfree h' = lowest_free (xs @ [(?k, True), (m + n - ?k, False)] @ zs)"
      proof -
        have "lfree h' = (if lfree h = ?a + n then ?a + ?k else lfree h)" "ram_base h' = ram_base h" by (simp_all add: h trim_split_sel)
        then show ?thesis using lf join pos t(2)
          by (cases "\<forall>t \<in> set xs. snd t") (simp_all add: lowest_free_append [of xs] lowest_free_def [of "_ # _"])
      qed
      moreover have "coalesced (xs @ [(?k, True), (m + n - ?k, False)] @ zs)"
        using co join by (cases zs) (auto simp: coalesced_append)
      ultimately show ?thesis by (simp add: heap_repr_alt) (simp add: h trim_split_sel)
    next
      case cut
      have u: "mh_used (hdr h (?a + n))"
      proof (cases ys)
        case (Cons y ws)
        with cut(1) t(7) show ?thesis by (cases y) auto
      qed (use t(7) t0(2) in \<open>auto simp: end_ok_def\<close>)
      let ?k = "?sz + 64" and ?b = "?a + n"
      have h: "h' = trim_split h ?a (?a + ?k) ?b (if ?a + ?k < lfree h then ?a + ?k else lfree h)"
        using alt u cut(2) sz by (simp add: Let_def ac_simps)
      have e: "?b - (?a + ?k) = n - ?k" "?a + ?k + 128 \<le> ?b" using cut(2) by auto
      have "\<exists>pv'. tiled (hdr h') 0 0 (xs @ [(?k, True), (n - ?k, False)] @ ys) pv' ram_end" "end_ok (hdr h')"
        using trim_split_tiled [of h xs p ?a _ ?b ys pv ?k, OF t(1,5) _ t(7) _ _ e(2) _ t0(2)] t(6) sz d unfolding h e(1) by simp_all
      moreover have "trim_tile ?sz n ys = [(?k, True), (n - ?k, False)] @ ys"
        using cut by (auto simp: trim_tile_def split: list.splits prod.splits bool.splits)
      moreover have "lfree h' = lowest_free (xs @ [(?k, True), (n - ?k, False)] @ ys)"
      proof -
        have "lfree h' = (if ?a + ?k < lfree h then ?a + ?k else lfree h)" by (simp add: h trim_split_sel)
        then show ?thesis using lf pos cut(2)
          by (cases "\<forall>t \<in> set xs. snd t") (simp_all add: lowest_free_append [of xs] lowest_free_def [of "_ # _"])
      qed
      moreover have "coalesced (xs @ [(?k, True), (n - ?k, False)] @ ys)"
        using co cut(1) by (cases ys) (auto simp: coalesced_append)
      ultimately show ?thesis by (simp add: heap_repr_alt) (simp add: h trim_split_sel)
    next
      case keep
      have u: "mh_used (hdr h (?a + n))"
      proof (cases ys)
        case (Cons y ws)
        with keep(1) t(7) show ?thesis by (cases y) auto
      qed (use t(7) t0(2) in \<open>auto simp: end_ok_def\<close>)
      have "h' = h" using alt u keep(2) False by simp
      moreover have "trim_tile ?sz n ys = (n, True) # ys"
        using keep by (auto simp: trim_tile_def split: list.splits prod.splits bool.splits)
      ultimately show ?thesis using assms(1) by simp
    qed
  qed
qed

section \<open>Histories\<close>

text \<open>
  What the allocator promises its callers: whoever frees and trims only what it owns never sees two blocks
  overlap, and once everything is freed the heap is whole again.
\<close>

inductive heap_reach :: "heap \<Rightarrow> addr set \<Rightarrow> bool" where
  heap_start: "heap_reach (mem_init a h) {}"
| heap_malloc: "heap_reach h U \<Longrightarrow> mem_malloc h s = Some (r, h') \<Longrightarrow> heap_reach h' (if r = 0 then U else insert r U)"
| heap_free: "heap_reach h U \<Longrightarrow> r \<in> U \<Longrightarrow> heap_reach (mem_free h r) (U - {r})"
| heap_trim: "heap_reach h U \<Longrightarrow> r \<in> U \<Longrightarrow> heap_reach (snd (mem_trim h r s)) U"

fun payloads :: "addr \<Rightarrow> tile list \<Rightarrow> addr set" where
  "payloads p [] = {}"
| "payloads p ((n, u) # ts) = (if u then insert (p + 64) (payloads (p + n) ts) else payloads (p + n) ts)"

lemma payloads_append [simp]: "payloads p (xs @ ys) = payloads p xs \<union> payloads (p + width xs) ys"
  by (induction p xs rule: payloads.induct) (auto simp: add.assoc)

lemma payloads_at: "r \<in> payloads p ts \<Longrightarrow> \<exists>xs n ys. ts = xs @ (n, True) # ys \<and> r = p + width xs + 64"
proof (induction p ts rule: payloads.induct)
  case (2 p n u ts)
  show ?case
  proof (cases "u \<and> r = p + 64")
    case True
    then show ?thesis by (intro exI [of _ "[]"]) auto
  next
    case False
    with 2 obtain xs m ys where "ts = xs @ (m, True) # ys" "r = p + n + width xs + 64" by (auto split: if_splits)
    then show ?thesis by (intro exI [of _ "(n, u) # xs"]) auto
  qed
qed simp

lemma payloads_bounds: "\<forall>t \<in> set ts. 128 \<le> fst t \<Longrightarrow> r \<in> payloads p ts \<Longrightarrow> p + 64 \<le> r \<and> r + 64 \<le> p + width ts"
  by (induction p ts rule: payloads.induct) (auto split: if_splits)

lemma tiled_large: "tiled H pv a ts pv' b \<Longrightarrow> \<forall>t \<in> set ts. 128 \<le> fst t"
proof (induction ts arbitrary: pv a)
  case (Cons t ts)
  then show ?case by (cases t) auto
qed simp

lemma payloads_release: "payloads p (release xs n ys) = payloads p (xs @ (n, False) # ys)"
proof -
  have f: "payloads q ((fst (merge_front n ys), False) # snd (merge_front n ys)) = payloads q ((n, False) # ys)" for q
    by (auto simp: merge_front_def add.assoc split: list.splits bool.splits)
  have "payloads p (merge_back xs m zs) = payloads p (xs @ (m, False) # zs)" for m zs
    by (cases xs rule: rev_cases) (auto simp: merge_back_def add.assoc split: prod.splits bool.splits)
  then show ?thesis using f by (simp add: release_def case_prod_beta)
qed

lemma payloads_trim: "sz + 64 \<le> n \<or> trim_tile sz n ys = (n, True) # ys \<Longrightarrow> payloads p (trim_tile sz n ys) = payloads p ((n, True) # ys)"
  by (auto simp: trim_tile_def ac_simps split: list.splits bool.splits)

lemma heap_reach_repr: "heap_reach h U \<Longrightarrow> \<exists>ts. heap_repr h ts \<and> U = payloads (ram_base h) ts"
proof (induction rule: heap_reach.induct)
  case (heap_start a h)
  show ?case using mem_init_repr [of a h] by (intro exI [of _ "[(ram_end, False)]"]) simp
next
  case (heap_malloc h U s r h')
  then obtain ts where ts: "heap_repr h ts" "U = payloads (ram_base h) ts" by blast
  show ?case
  proof (cases "s = 0")
    case True
    with heap_malloc.hyps ts show ?thesis by (auto simp: mem_malloc_def)
  next
    case False
    note spec = mem_malloc_spec [OF ts(1) False]
    show ?thesis
    proof (cases "first_fit (adjust_size s) ts")
      case None
      with spec heap_malloc.hyps ts show ?thesis by auto
    next
      case (Some x)
      obtain a us where x: "x = (a, us)" by (cases x)
      from first_fit_Some [OF Some [unfolded x]] obtain xs n ys where
        d: "ts = xs @ (n, False) # ys" "a = width xs" "adjust_size s + 64 \<le> n" "us = xs @ cut_tile (adjust_size s) n @ ys" by blast
      from spec Some x heap_malloc.hyps(2) have r: "r = ram_base h + a + 64" "heap_repr h' us" "ram_base h' = ram_base h" by auto
      have "payloads (ram_base h) us = insert r U" using d ts(2) r(1) by (auto simp: cut_tile_def add.assoc)
      with r show ?thesis by auto
    qed
  qed
next
  case (heap_free h U r)
  then obtain ts where ts: "heap_repr h ts" "U = payloads (ram_base h) ts" by blast
  with heap_free.hyps(2) payloads_at obtain xs n ys where d: "ts = xs @ (n, True) # ys" "r = ram_base h + width xs + 64" by blast
  from ts(1) obtain pv where "tiled (hdr h) 0 0 ts pv ram_end" by (auto simp: heap_repr_alt)
  from tiled_large [OF this] d(1) have l: "\<forall>t \<in> set xs. 128 \<le> fst t" "128 \<le> n" "\<forall>t \<in> set ys. 128 \<le> fst t" by auto
  have "r \<notin> payloads (ram_base h) xs" "r \<notin> payloads (ram_base h + width xs + n) ys"
    using payloads_bounds [OF l(1)] payloads_bounds [OF l(3)] d(2) l(2) by fastforce+
  then have "U - {r} = payloads (ram_base h) (xs @ (n, False) # ys)" using ts(2) d by (auto simp: add.assoc)
  with mem_free_spec [OF ts(1) [unfolded d(1)]] d(2) show ?case by (auto simp only: payloads_release)
next
  case (heap_trim h U r s)
  then obtain ts where ts: "heap_repr h ts" "U = payloads (ram_base h) ts" by blast
  with heap_trim.hyps(2) payloads_at obtain xs n ys where d: "ts = xs @ (n, True) # ys" "r = ram_base h + width xs + 64" by blast
  have "payloads q (trim_tile (adjust_size s) n ys) = payloads q ((n, True) # ys)" for q
    by (rule payloads_trim) (auto simp: trim_tile_def)
  with mem_trim_spec [OF ts(1) [unfolded d(1)] refl, of s] d ts(2) show ?case by (metis payloads_append)
qed

text \<open>The bytes that belong to a block end where the next header starts.\<close>

definition mem_block_end :: "heap \<Rightarrow> addr \<Rightarrow> addr" where
  "mem_block_end h r = ram_base h + mh_next (hdr h (r - SIZEOF_STRUCT_MEM - ram_base h))"

lemma mem_block_end_at:
  "heap_repr h (xs @ (n, True) # ys) \<Longrightarrow> mem_block_end h (ram_base h + width xs + 64) = ram_base h + width xs + n"
  by (auto simp: mem_block_end_def heap_repr_alt SIZEOF_STRUCT_MEM_def elim: tiled_at)

lemma heap_repr_blocks:
  assumes "heap_repr h ts" "r \<in> payloads (ram_base h) ts"
  shows "ram_base h + 64 \<le> r" "r + 64 \<le> mem_block_end h r" "mem_block_end h r \<le> ram_base h + ram_end"
    "q \<in> payloads (ram_base h) ts \<Longrightarrow> r < q \<Longrightarrow> mem_block_end h r + 64 \<le> q"
proof -
  from payloads_at [OF assms(2)] obtain xs n ys where d: "ts = xs @ (n, True) # ys" "r = ram_base h + width xs + 64" by blast
  have e: "mem_block_end h r = ram_base h + width xs + n" using mem_block_end_at assms(1) d by simp
  from assms(1) obtain pv where "tiled (hdr h) 0 0 ts pv ram_end" by (auto simp: heap_repr_alt)
  from tiled_large [OF this] d(1) have l: "\<forall>t \<in> set xs. 128 \<le> fst t" "128 \<le> n" "\<forall>t \<in> set ys. 128 \<le> fst t" by auto
  have w: "width xs + n + width ys = ram_end" using heap_repr_width [OF assms(1)] d(1) by simp
  show "ram_base h + 64 \<le> r" "r + 64 \<le> mem_block_end h r" "mem_block_end h r \<le> ram_base h + ram_end"
    using d(2) e l(2) w by simp_all
  show "mem_block_end h r + 64 \<le> q" if "q \<in> payloads (ram_base h) ts" "r < q"
    using that payloads_bounds [OF l(1), of q "ram_base h"] payloads_bounds [OF l(3), of q "ram_base h + width xs + n"] d e
    by (auto simp: add.assoc)
qed

lemma coalesced_all_free: "coalesced ts \<Longrightarrow> payloads p ts = {} \<Longrightarrow> ts \<noteq> [] \<Longrightarrow> \<exists>n. ts = [(n, False)]"
  by (induction ts rule: coalesced.induct) (auto split: if_splits)

lemma mod_once: "m \<le> x \<Longrightarrow> x < 2 * m \<Longrightarrow> x mod m = x - (m :: nat)"
  by (simp add: le_mod_geq)

lemma align_size_value: "unat (LWIP_MEM_ALIGN_SIZE s) = unat (s + 63) - unat (s + 63) mod 64"
proof -
  let ?x = "s + 63" and ?y = "LWIP_MEM_ALIGN_SIZE s"
  have m: "(63 :: u32) = mask 6" by (simp add: mask_eq_exp_minus_1)
  have "?x = ?y + take_bit 6 ?x"
  proof -
    have "?y + take_bit 6 ?x = ?y OR take_bit 6 ?x"
      unfolding LWIP_MEM_ALIGN_SIZE_def m by (rule disjunctive_add) (auto simp: bit_simps)
    also have "\<dots> = ?x"
      unfolding LWIP_MEM_ALIGN_SIZE_def m by (rule bit_word_eqI) (auto simp: bit_simps)
    finally show ?thesis by simp
  qed
  then have e: "unat ?x = (unat ?y + unat ?x mod 64) mod 2 ^ 32"
    using unat_word_ariths(1) [of ?y "take_bit 6 ?x"] unsigned_take_bit_eq [of 6 ?x, where 'a = nat]
    by (simp only: take_bit_eq_mod) simp
  have "take_bit 6 ?y = 0"
    unfolding LWIP_MEM_ALIGN_SIZE_def m by (rule bit_word_eqI) (auto simp: bit_simps)
  then have "unat ?y mod 64 = 0"
    using unsigned_take_bit_eq [of 6 ?y, where 'a = nat] by (simp add: take_bit_eq_mod)
  then have "unat ?y = 64 * (unat ?y div 64)" by (metis mod_0_imp_dvd dvd_mult_div_cancel)
  moreover from this have "unat ?y div 64 < 0x4000000" using unat_u32_lt [of ?y] by linarith
  moreover have "unat ?x mod 64 < 64" by simp
  ultimately have "unat ?y + unat ?x mod 64 < 0x100000000" by linarith
  with e show ?thesis by simp
qed

lemma adjust_size_ge: "s \<le> 0xFFFFFFC0 \<Longrightarrow> unat s \<le> adjust_size s"
proof -
  assume "s \<le> 0xFFFFFFC0"
  then have "unat s \<le> 0xFFFFFFC0" by (simp add: word_le_nat_alt)
  then have "unat (s + 63) = unat s + 63" by (simp add: unat_word_ariths)
  moreover have "unat s \<le> unat s + 63 - (unat s + 63) mod 64" using mod_less_divisor [of 64 "unat s + 63"] by linarith
  ultimately show ?thesis by (simp add: adjust_size_def Let_def align_size_value)
qed

lemma adjust_size_wraps: "0xFFFFFFC0 < s \<Longrightarrow> adjust_size s = 64"
proof -
  assume "0xFFFFFFC0 < s"
  then have b: "0xFFFFFFC0 < unat s" "unat s < 0x100000000" using unat_u32_lt [of s] by (simp_all add: word_less_nat_alt)
  have "unat (s + 63) = (unat s + 63) mod 0x100000000" by (simp add: unat_word_ariths)
  also have "\<dots> = unat s + 63 - 0x100000000" by (rule mod_once) (use b in linarith)+
  finally have "unat (s + 63) < 64" using b(2) by linarith
  then show ?thesis by (simp add: adjust_size_def Let_def align_size_value MIN_SIZE_ALIGNED_def)
qed

text \<open>
  The size is aligned in 32 bits and only then compared with the heap's: a request just below \<open>2 ^ 32\<close>
  bytes wraps around to the smallest block instead of being refused.
\<close>

lemma mem_malloc_wraps: "0xFFFFFFC0 < s \<Longrightarrow> mem_malloc h s = mem_malloc h 1"
proof -
  assume s: "0xFFFFFFC0 < s"
  have "adjust_size 1 = 64" by (simp add: adjust_size_def LWIP_MEM_ALIGN_SIZE_def MIN_SIZE_ALIGNED_def Let_def)
  moreover have "s \<noteq> 0" using s by auto
  ultimately show ?thesis by (simp add: mem_malloc_def adjust_size_wraps [OF s])
qed

text \<open>The blocks in use with their ends.\<close>

fun blocks :: "addr \<Rightarrow> tile list \<Rightarrow> (addr \<times> addr) set" where
  "blocks p [] = {}"
| "blocks p ((n, u) # ts) = (if u then insert (p + 64, p + n) (blocks (p + n) ts) else blocks (p + n) ts)"

lemma blocks_append [simp]: "blocks p (xs @ ys) = blocks p xs \<union> blocks (p + width xs) ys"
  by (induction p xs rule: blocks.induct) (auto simp: add.assoc)

lemma blocks_at: "(r, e) \<in> blocks p ts \<Longrightarrow> \<exists>xs n ys. ts = xs @ (n, True) # ys \<and> r = p + width xs + 64 \<and> e = p + width xs + n"
proof (induction p ts rule: blocks.induct)
  case (2 p n u ts)
  show ?case
  proof (cases "u \<and> r = p + 64 \<and> e = p + n")
    case True
    then show ?thesis by (intro exI [of _ "[]"]) auto
  next
    case False
    with 2 obtain xs m ys where "ts = xs @ (m, True) # ys" "r = p + n + width xs + 64" "e = p + n + width xs + m"
      by (auto split: if_splits)
    then show ?thesis by (intro exI [of _ "(n, u) # xs"]) auto
  qed
qed simp

lemma payloads_blocks: "r \<in> payloads p ts \<Longrightarrow> \<exists>e. (r, e) \<in> blocks p ts"
  by (induction p ts rule: payloads.induct) (auto split: if_splits)

lemma blocks_end: "heap_repr h ts \<Longrightarrow> (r, e) \<in> blocks (ram_base h) ts \<Longrightarrow> mem_block_end h r = e"
  using blocks_at mem_block_end_at by fastforce

lemma next_allocation:
  assumes "heap_reach h U"
  shows "\<exists>p h'. mem_malloc h s = Some (p, h') \<and> (p \<noteq> 0 \<longrightarrow> p \<notin> U \<and> heap_reach h' (insert p U)
           \<and> p + adjust_size s \<le> mem_block_end h' p \<and> (\<forall>r \<in> U. mem_block_end h' r = mem_block_end h r))"
proof (cases "s = 0")
  case False
  from heap_reach_repr [OF assms] obtain ts where ts: "heap_repr h ts" "U = payloads (ram_base h) ts" by blast
  note spec = mem_malloc_spec [OF ts(1) False]
  show ?thesis
  proof (cases "first_fit (adjust_size s) ts")
    case (Some x)
    obtain a us where x: "x = (a, us)" by (cases x)
    from first_fit_Some [OF Some [unfolded x]] obtain xs n ys where
      d: "ts = xs @ (n, False) # ys" "a = width xs" "adjust_size s + 64 \<le> n" "us = xs @ cut_tile (adjust_size s) n @ ys" by blast
    from spec Some x obtain h' where m: "mem_malloc h s = Some (ram_base h + a + 64, h')" "heap_repr h' us" "ram_base h' = ram_base h" by auto
    let ?p = "ram_base h + a + 64"
    from ts(1) obtain pv where "tiled (hdr h) 0 0 ts pv ram_end" by (auto simp: heap_repr_alt)
    from tiled_large [OF this] d(1) have l: "\<forall>t \<in> set xs. 128 \<le> fst t" "128 \<le> n" "\<forall>t \<in> set ys. 128 \<le> fst t" by auto
    have "?p \<notin> U" using payloads_bounds [OF l(1), of ?p] payloads_bounds [OF l(3), of ?p] d(1,2) ts(2) l(2)
      by (fastforce simp: add.assoc)
    moreover have "heap_reach h' (insert ?p U)" using heap_malloc [OF assms m(1)] by simp
    moreover have "(?p, if adjust_size s + 192 \<le> n then ?p + adjust_size s else ?p + n - 64) \<in> blocks (ram_base h') us"
      using d m(3) by (auto simp: cut_tile_def ac_simps)
    from blocks_end [OF m(2) this] have "?p + adjust_size s \<le> mem_block_end h' ?p" using d(3) by auto
    moreover have "mem_block_end h' r = mem_block_end h r" if r: "r \<in> U" for r
    proof -
      from r ts(2) payloads_blocks obtain e where e: "(r, e) \<in> blocks (ram_base h) ts" by blast
      then have "(r, e) \<in> blocks (ram_base h') us" using d m(3) by (auto simp: cut_tile_def ac_simps)
      with blocks_end [OF m(2)] blocks_end [OF ts(1) e] show ?thesis by simp
    qed
    ultimately show ?thesis using m(1) by auto
  qed (use spec in simp)
qed (simp add: mem_malloc_def)

text \<open>A heap before \<^verbatim>\<open>mem_init\<close>, for the witnesses, and two histories.\<close>

definition no_heap :: heap where
  "no_heap = \<lparr>ram_base = 0, hdr = \<lambda>_. \<lparr>mh_next = 0, mh_prev = 0, mh_used = True\<rparr>, lfree = 7\<rparr>"

lemma adjust_100: "adjust_size 100 = 128"
  by (simp add: adjust_size_def LWIP_MEM_ALIGN_SIZE_def MIN_SIZE_ALIGNED_def Let_def)

lemma heap_one_block: "\<exists>h'. heap_reach h' {0x2040} \<and> ram_base h' = 0x2000"
proof -
  from mem_malloc_spec [where ?size0.0 = 100, OF mem_init_repr [of "0x2000" no_heap]]
  obtain h' where m: "mem_malloc (mem_init 0x2000 no_heap) 100 = Some (0x2040, h')" "ram_base h' = 0x2000"
    by (auto simp: adjust_100 ram_end_def MEM_SIZE_ALIGNED_def mem_init_def LWIP_MEM_ALIGN_def)
  from heap_malloc [OF heap_start m(1)] m(2) show ?thesis by auto
qed

lemma heap_block_returned: "\<exists>h'. heap_reach h' {} \<and> ram_base h' = 0x2000"
proof -
  from heap_one_block obtain h where h: "heap_reach h {0x2040}" "ram_base h = 0x2000" by blast
  from heap_free [OF h(1), of "0x2040"] have "heap_reach (mem_free h 0x2040) {}" by simp
  moreover from heap_reach_repr [OF h(1)] obtain ts where ts: "heap_repr h ts" "{0x2040} = payloads (ram_base h) ts" by blast
  from payloads_at [of "0x2040" "ram_base h" ts] ts(2) obtain xs n ys where "ts = xs @ (n, True) # ys" "0x2040 = ram_base h + width xs + 64" by auto
  with mem_free_spec [OF ts(1) [unfolded this(1)]] have "ram_base (mem_free h 0x2040) = ram_base h" by simp
  ultimately show ?thesis using h(2) by auto
qed

section \<open>Properties\<close>

text \<open>C23: Allocation is first fit: in a heap whose headers represent the blocks \<open>ts\<close>, \<^verbatim>\<open>mem_malloc\<close> returns the
  address behind the header of the first free block that is large enough for the aligned size, the headers then
  represent the blocks the reference \<open>first_fit\<close> computes, and \<^verbatim>\<open>NULL\<close> is returned, with nothing changed,
  exactly when no free block is large enough. Neither loop runs out of fuel.
\<close>

theorem mem_malloc_first_fit:
  assumes "heap_repr h ts" "size0 \<noteq> 0"
  shows "case first_fit (adjust_size size0) ts of
      None \<Rightarrow> mem_malloc h size0 = Some (0, h)
    | Some (a, us) \<Rightarrow> \<exists>h'. mem_malloc h size0 = Some (ram_base h + a + 64, h') \<and> heap_repr h' us \<and> ram_base h' = ram_base h"
  by (rule mem_malloc_spec [OF assms])

theorem mem_malloc_first_fit_witness:
  "\<exists>h'. mem_malloc (mem_init 0x2000 no_heap) 100 = Some (0x2040, h') \<and> heap_repr h' [(192, True), (130880, False)]"
  using mem_malloc_first_fit [where ?size0.0 = 100, OF mem_init_repr [of "0x2000" no_heap]]
  by (auto simp: adjust_100 cut_tile_def ram_end_def MEM_SIZE_ALIGNED_def mem_init_def LWIP_MEM_ALIGN_def)

text \<open>C22: No block is handed out twice: after any sequence of \<^verbatim>\<open>mem_malloc\<close>, \<^verbatim>\<open>mem_free\<close> and \<^verbatim>\<open>mem_trim\<close> calls in
  which callers free and trim only blocks they own, every owned block lies inside \<^verbatim>\<open>ram\<close> behind its own header and ends
  before the header of the next owned block, and the next allocation returns \<^verbatim>\<open>NULL\<close> or a block of at least the
  requested size that overlaps none of them.
\<close>

theorem heap_history_safe:
  assumes "heap_reach h U" "r \<in> U"
  shows "ram_base h + 64 \<le> r \<and> r + 64 \<le> mem_block_end h r \<and> mem_block_end h r \<le> ram_base h + ram_end
    \<and> (\<forall>q \<in> U. r < q \<longrightarrow> mem_block_end h r + 64 \<le> q)
    \<and> (\<forall>s. \<exists>p h'. mem_malloc h s = Some (p, h')
         \<and> (p \<noteq> 0 \<longrightarrow> p \<notin> U \<and> heap_reach h' (insert p U)
              \<and> p + adjust_size s \<le> mem_block_end h' p \<and> (\<forall>q \<in> U. mem_block_end h' q = mem_block_end h q)))"
proof -
  from heap_reach_repr [OF assms(1)] obtain ts where ts: "heap_repr h ts" "U = payloads (ram_base h) ts" by blast
  show ?thesis using heap_repr_blocks [OF ts(1)] assms(2) next_allocation [OF assms(1)] unfolding ts(2) by simp
qed

theorem heap_history_safe_witness:
  "\<exists>h. heap_reach h {0x2040} \<and> 0x2080 \<le> mem_block_end h 0x2040 \<and> mem_block_end h 0x2040 \<le> 0x22000"
proof -
  from heap_one_block obtain h where h: "heap_reach h {0x2040}" "ram_base h = 0x2000" by blast
  from heap_history_safe [OF h(1), of "0x2040"] h show ?thesis by (auto simp: ram_end_def MEM_SIZE_ALIGNED_def)
qed

text \<open>C24: Nothing is lost to fragmentation: whatever was allocated, trimmed and freed before and in whatever order, once every
  block has been given back the heap is a single free block again, so any size that fits is allocated, at its start.
\<close>

theorem heap_all_returned:
  assumes "heap_reach h {}"
  shows "hdr h 0 = \<lparr>mh_next = ram_end, mh_prev = 0, mh_used = False\<rparr> \<and> lfree h = 0
    \<and> (\<forall>s. s \<noteq> 0 \<longrightarrow> adjust_size s + 64 \<le> ram_end \<longrightarrow> (\<exists>h'. mem_malloc h s = Some (ram_base h + 64, h')))"
proof -
  from heap_reach_repr [OF assms] obtain ts where ts: "heap_repr h ts" "payloads (ram_base h) ts = {}" by auto
  have "ts \<noteq> []" using heap_repr_width [OF ts(1)] by (auto simp: ram_end_def MEM_SIZE_ALIGNED_def)
  moreover have "coalesced ts" using ts(1) by (simp add: heap_repr_alt)
  ultimately obtain n where "ts = [(n, False)]" using coalesced_all_free [OF _ ts(2)] by blast
  with heap_repr_width [OF ts(1)] have t: "ts = [(ram_end, False)]" by simp
  have "\<exists>h'. mem_malloc h s = Some (ram_base h + 64, h')" if "s \<noteq> 0" "adjust_size s + 64 \<le> ram_end" for s
    using mem_malloc_spec [OF ts(1) that(1)] that(2) t by auto
  with ts(1) t show ?thesis by (auto simp: heap_repr_alt lowest_free_def)
qed

theorem heap_all_returned_witness: "\<exists>h h'. heap_reach h {} \<and> mem_malloc h 100 = Some (0x2040, h')"
proof -
  from heap_block_returned obtain h where h: "heap_reach h {}" "ram_base h = 0x2000" by blast
  from heap_all_returned [OF h(1)] have "\<exists>h'. mem_malloc h 100 = Some (ram_base h + 64, h')"
    by (simp add: adjust_100 ram_end_def MEM_SIZE_ALIGNED_def)
  with h show ?thesis by auto
qed

end
