(* ===== verification/Spec2Isabelle.thy ===== *)
theory Spec2Isabelle
  imports Platform MemProps
begin

text \<open>
  The firmware of a MicroBlaze board (\<^verbatim>\<open>src/data_and_seq_send\<close>): an echo server with two services on lwIP 1.4.1
  and the Xilinx EmacLite. The C code modelled is that of the build in \<^verbatim>\<open>echo_server\<close> and \<^verbatim>\<open>echo_server_bsp\<close>, in
  the configuration of \<^verbatim>\<open>lwipopts.h\<close> (\<^verbatim>\<open>NO_SYS\<close> 1, no DHCP, DNS, SNMP, IGMP, AUTOIP, IPv6 or sockets).

  \<^bold>\<open>The program.\<close> A frame raises an interrupt. The driver copies it into a pbuf, the adapter puts the
  pbuf into its receive queue, and the main loop (\<^verbatim>\<open>main.c\<close>) takes one pbuf in each round and passes it to
  \<^verbatim>\<open>ethernet_input\<close>: to ARP, or to \<^verbatim>\<open>ip_input\<close>, which checks the header, reassembles fragments and calls raw sockets,
  UDP, TCP or ICMP. TCP finds the control block, runs its state machine and calls the receive function of
  a service, which prints the data, gives the window back with \<^verbatim>\<open>tcp_recved\<close> and frees the pbuf. What is sent goes
  down through \<^verbatim>\<open>tcp_output\<close>, \<^verbatim>\<open>ip_output\<close>, \<^verbatim>\<open>etharp_output\<close> and the adapter to the transmit buffers of the device.
  A timer interrupt sets the flags that ask for the TCP timers.

  \<^bold>\<open>The state\<close> is one extensible record, a layer for each layer of the code: \<open>pbuf_st\<close> (memory, pbufs, pools, heap),
  \<open>link_st\<close> (device, packet queues, ARP table), \<open>ip_st\<close> (interfaces, reassembly, raw and UDP blocks), \<open>tcp_st\<close> (control
  blocks and their lists), \<open>app_st\<close> (the services and the console). Operations of a layer are polymorphic in
  what lies above, so that frame facts are equalities of the \<open>more\<close> part. Pointers are addresses, 0 is \<^verbatim>\<open>NULL\<close>;
  structures the code only reaches through typed pointers are kept in maps, packets in a byte memory. An operation
  returns \<open>Inr\<close> of its result or \<open>Inl\<close> of a \<open>fault\<close>: a read outside the memory, a null or dangling pointer.
  Errors of the code are values of \<open>err_t\<close>. \<^verbatim>\<open>LWIP_ASSERT\<close> is empty in this build (\<^verbatim>\<open>arch/cc.h\<close>) and is no branch
  of the model. Code reached through a function pointer is an argument: callbacks of TCP, UDP and raw sockets,
  \<^verbatim>\<open>netif->output\<close>, \<^verbatim>\<open>netif->linkoutput\<close>; \<open>Stack\<close> instantiates them with the functions of the program.
\<close>

text \<open>
  \<^bold>\<open>Theories and sources.\<close> Under \<^verbatim>\<open>lwip-1.4.1/src\<close>:
  \<^item> \<open>Prelude\<close>: machine integers, faults, byte memory, \<open>res_all\<close> (a property of every result) and its rules;
    \<open>Byteorder\<close>: \<^verbatim>\<open>core/def.c\<close>;
  \<^item> \<open>Memp\<close>: \<^verbatim>\<open>core/memp.c\<close>; \<open>Mem\<close>, \<open>MemProps\<close>: \<^verbatim>\<open>core/mem.c\<close>; \<open>Pbuf\<close>: \<^verbatim>\<open>core/pbuf.c\<close>; \<open>InetChksum\<close>:
    \<^verbatim>\<open>core/ipv4/inet_chksum.c\<close>; \<open>IpAddr\<close>: \<^verbatim>\<open>core/ipv4/ip_addr.c\<close>;
  \<^item> \<open>Ip\<close>: routing and output of \<^verbatim>\<open>core/ipv4/ip.c\<close> and the settings of \<^verbatim>\<open>core/netif.c\<close>; \<open>Icmp\<close>: \<^verbatim>\<open>core/ipv4/icmp.c\<close>;
    \<open>IpFrag\<close>: \<^verbatim>\<open>core/ipv4/ip_frag.c\<close>; \<open>Raw\<close>: \<^verbatim>\<open>core/raw.c\<close>; \<open>Udp\<close>: \<^verbatim>\<open>core/udp.c\<close>; \<open>IpIn\<close>: \<^verbatim>\<open>ip_input\<close>;
    \<open>Etharp\<close>: \<^verbatim>\<open>netif/etharp.c\<close>;
  \<^item> \<open>TcpState\<close>: \<^verbatim>\<open>lwip/tcp.h\<close> and \<^verbatim>\<open>lwip/tcp_impl.h\<close>; \<open>TcpOut\<close>: \<^verbatim>\<open>core/tcp_out.c\<close>; \<open>Tcp\<close>: \<^verbatim>\<open>core/tcp.c\<close>; \<open>TcpIn\<close>:
    \<^verbatim>\<open>core/tcp_in.c\<close>; \<open>TcpLists\<close>, \<open>TcpFrame\<close>, \<open>TcpInv\<close>, \<open>TcpFsm\<close>, \<open>TcpSteps\<close>, \<open>TcpInInv\<close>, \<open>TcpProps\<close>, \<open>TcpInProps\<close>: their proofs.

  Under the Xilinx port and drivers: \<open>Xpqueue\<close>: \<^verbatim>\<open>netif/xpqueue.c\<close>; \<open>EmacLite\<close>: \<^verbatim>\<open>emaclite_v4_3/src\<close> over a map of
  registers; \<open>Link\<close>: \<^verbatim>\<open>netif/xemacliteif.c\<close> and the interrupt handler; \<open>Stack\<close>: the interface functions, \<^verbatim>\<open>xadapter.c\<close>,
  and the composition. The application: \<open>SeqSend\<close>, \<open>DataSend\<close>, \<open>Dispatch\<close>: \<^verbatim>\<open>seq_send.c\<close>, \<^verbatim>\<open>data_send.c\<close>,
  \<^verbatim>\<open>dispatch.c\<close>; \<open>Services\<close>: the services over TCP; \<open>Platform\<close>: \<^verbatim>\<open>platform.c\<close>, \<^verbatim>\<open>platform_mb.c\<close>, the loop of \<^verbatim>\<open>main.c\<close>,
  and the rest of \<^verbatim>\<open>netif.c\<close>, whose \<^verbatim>\<open>netif_set_ipaddr\<close> calls TCP. Definitions have the names of the functions; the
  part of a function that is a loop or a long branch is a definition of its own, named after what it does.
\<close>

text \<open>
  \<^bold>\<open>What is shown.\<close>
  \<^item> Memory: no history of the pools hands an element out twice or loses one; the heap is always tiled by its
    blocks, with no two free ones side by side, and allocation is first fit on them; freeing a chain frees the
    unreferenced prefix.
  \<^item> Numbers: the three checksum algorithms agree, the IP header is sent with a right checksum, the echo reply
    too (but for one request); addresses are printed and parsed back.
  \<^item> Device and link: the queue of the adapter is a bounded list, a packet sent is the frame in the device, the
    ARP table keeps its invariant, a request is answered.
  \<^item> IP and UDP: reassembly accepts a datagram exactly when nothing is missing, but for the gap of
    \<open>reass_hole_accepted\<close>; a datagram finds its UDP block.
  \<^item> TCP: the axioms of \<^verbatim>\<open>tcp_impl.h\<close> about the lists of control blocks hold in every state the interface and
    any segment reach; \<^verbatim>\<open>TCP_REG\<close> and \<^verbatim>\<open>TCP_RMV\<close> refine lists; a connection moves only along the edges of RFC
    793, and when all it has queued is sent it makes exactly the step of RFC 793; binding, ports, options, demultiplexing, window, the slow timer.
  \<^item> The program: what the services print for a packet and for a segment; no frame, whatever it carries, breaks
    the lists of TCP (\<open>frame_keeps_lists\<close>, with the real callbacks and the real layers below).
  \<^item> Where it fails: \<open>timers_never_run\<close>, \<open>tcp_fasttmr_hangs\<close>, \<open>seq_packet_256_lost\<close>, \<open>data_chain_leaks_window\<close>,
    \<open>ooseq_overrun_wraps_window\<close>, \<open>unsent_fin_taken_for_acked\<close>, \<open>pq_dequeue_race\<close>, \<open>send_backlog_leaks\<close>, \<open>emac_recv_overruns\<close>,
    \<open>reass_hole_accepted\<close>, \<open>reass_oldest_dangles\<close>, \<open>mem_malloc_wraps\<close>.

  The collections \<open>wp\<close>, \<open>vwp\<close>, \<open>iwp\<close>, \<open>mwp\<close>, \<open>hwp\<close>, \<open>fwp\<close>, \<open>bwp\<close> and \<open>awp\<close> hold one rule for each operation: what it
  leaves alone or keeps. The locales state the interfaces: \<open>free_store\<close> (interpreted by the pools), \<open>registry\<close> (by the
  lists of TCP), \<open>bounded_fifo\<close> (by the packet queue), \<open>link_device\<close> and \<open>quiet_device\<close> (by the
  adapter), \<open>quiet_net\<close> (by the stack below TCP) and \<open>layered\<close> (by the program).
\<close>

text \<open>
  \<^bold>\<open>Bounds.\<close> Loops over linked structures have fuel, and running out is the fault \<open>Out_of_fuel\<close>. The pools bound
  the lengths: \<open>chain_fuel\<close> 2048 (528 pbufs in pools, at most 1024 in the heap), \<open>mem_fuel\<close> 2048 (at most 1024
  blocks), \<open>pcb_fuel\<close> 64 (40 control blocks), \<open>seg_fuel\<close> 512 (256 segments), \<open>write_fuel\<close> 128 (a queue of at most 89
  pbufs), \<open>tmr_fuel\<close> 2048 (32 blocks, each after a walk of 32), \<open>arp_fuel\<close> 31 (30 queue elements), \<open>frag_fuel\<close> 129 and
  \<open>dgram_fuel\<close> 6 (128 pbufs, 5 datagrams), \<open>cut_fuel\<close> 8192 (65535 bytes in pieces of 8), \<open>raw_fuel\<close> and \<open>udp_fuel\<close> 5 (4
  blocks); the searches for ports visit each of the 16384 ports once. Where a property says that a loop
  returns, the bound is proved to be enough (\<open>tcp_new_port_free\<close>, \<open>tcp_parseopt_safe\<close>, \<open>mem_malloc_first_fit\<close>);
  \<open>tcp_fasttmr_hangs\<close> holds for every fuel.

  \<^bold>\<open>Not modelled.\<close> Code the build leaves out: DHCP, DNS, SNMP, IGMP, AUTOIP, IPv6, the sequential API and
  sockets, \<^verbatim>\<open>timers.c\<close> (\<^verbatim>\<open>NO_SYS_NO_TIMERS\<close> 1), loopback, the ports to other Ethernet cores and
  processors, the I2C devices of other boards. Of the code that runs: \<^verbatim>\<open>low_level_init\<close>, the PHY and its management
  bus (only at start-up), the polled \<^verbatim>\<open>SendFrame\<close> and \<^verbatim>\<open>RecvFrame\<close> of the driver (not called), the interrupt
  controller but for its acknowledgements, caches, exceptions and the console. Interrupts are
  separate steps: between rounds of the main loop (\<open>Platform\<close>), and inside an operation in \<open>pq_dequeue_race\<close> only.
  The VHDL is no C code.
\<close>

end
